(* ===== verification/SS_Prelude.thy ===== *)
theory SS_Prelude
  imports Main "HOL-Library.Word"
begin

text \<open>
  Shared vocabulary of the development: machine integers and byte strings, the outcomes of Rust
  code (a panic, an \<^verbatim>\<open>io::Error\<close>, a pending poll), the standard library's decimal, hexadecimal and
  UTF-8 routines as far as the sources use them, and the interface of an exact byte reader
  (locale \<open>byte_reader\<close>), against which every wire decoder of the development is verified once.
\<close>

section \<open>Collections of rules\<close>

named_theorems codec_simps \<open>equations that evaluate encoders and decoders on symbolic input\<close>
named_theorems wf_intros \<open>introduction rules for the well-formedness predicates of the model\<close>

section \<open>Machine integers and byte strings\<close>

type_synonym u8 = "8 word"
type_synonym u16 = "16 word"
type_synonym u32 = "32 word"
type_synonym u64 = "64 word"
type_synonym bytes = "u8 list"

text \<open>\<^verbatim>\<open>BufMut::put_u16\<close> and \<^verbatim>\<open>Buf::get_u16\<close> use network byte order.\<close>

definition put_u16 :: "u16 \<Rightarrow> bytes" where
  "put_u16 v = [of_nat (unat v div 256), ucast v]"

definition get_u16 :: "u8 \<Rightarrow> u8 \<Rightarrow> u16" where
  "get_u16 hi lo = of_nat (unat hi * 256 + unat lo)"

lemma length_put_u16 [simp, codec_simps]: "length (put_u16 v) = 2"
  by (simp add: put_u16_def)

lemma unat_u8_bound [simp]: "unat (b :: u8) < 256"
  using unsigned_less [of b] by simp

lemma unat_u16_bound [simp]: "unat (v :: u16) < 65536"
  using unsigned_less [of v] by simp

lemma unat_of_nat_u8: "unat (of_nat n :: u8) = n mod 256"
  by (simp add: unat_of_nat)

lemma unat_of_nat_u16: "unat (of_nat n :: u16) = n mod 65536"
  by (simp add: unat_of_nat)

lemma unat_ucast_u16_u8: "unat (ucast (v :: u16) :: u8) = unat v mod 256"
  by (simp add: unsigned_ucast_eq take_bit_eq_mod)

lemma unat_get_u16: "unat (get_u16 hi lo) = unat hi * 256 + unat lo"
proof -
  have "unat hi * 256 + unat lo < 65536"
    using unat_u8_bound [of hi] unat_u8_bound [of lo] by linarith
  then show ?thesis
    by (simp only: get_u16_def unat_of_nat_u16 mod_less)
qed

lemma get_put_u16 [simp, codec_simps]:
  "get_u16 (of_nat (unat v div 256)) (ucast v) = v"
proof -
  have "unat v div 256 < 256"
    using unat_u16_bound [of v] by linarith
  then have "unat (get_u16 (of_nat (unat v div 256)) (ucast v)) = unat v"
    by (simp add: unat_get_u16 unat_of_nat_u8 unat_ucast_u16_u8)
  then show ?thesis
    by (simp only: word_unat_eq_iff)
qed

lemma get_u16_nth_put_u16 [simp, codec_simps]: "get_u16 (put_u16 v ! 0) (put_u16 v ! Suc 0) = v"
  by (simp add: put_u16_def)

lemma put_get_u16: "put_u16 (get_u16 hi lo) = [hi, lo]"
proof -
  have "unat (ucast (get_u16 hi lo) :: u8) = unat lo"
    by (simp add: unat_ucast_u16_u8 unat_get_u16)
  then have "ucast (get_u16 hi lo) = lo"
    by (simp only: word_unat_eq_iff)
  then show ?thesis
    by (simp add: put_u16_def unat_get_u16)
qed

section \<open>Strings\<close>

text \<open>
  A Rust \<^verbatim>\<open>String\<close> is its sequence of UTF-8 bytes; the model writes it as a \<open>string\<close>, whose
  characters are bytes, so that \<^verbatim>\<open>len()\<close> is \<open>length\<close>.
\<close>

definition byte_of_char :: "char \<Rightarrow> u8" where
  "byte_of_char c = of_nat (of_char c)"

definition char_of_byte :: "u8 \<Rightarrow> char" where
  "char_of_byte b = char_of (unat b)"

abbreviation as_bytes :: "string \<Rightarrow> bytes" where
  "as_bytes \<equiv> map byte_of_char"

abbreviation of_bytes :: "bytes \<Rightarrow> string" where
  "of_bytes \<equiv> map char_of_byte"

lemma of_char_less_256: "of_char c < (256 :: nat)"
  by (cases c) (simp add: of_char_def)

lemma char_of_byte_of_char [simp]: "char_of_byte (byte_of_char c) = c"
  using of_char_less_256 [of c] by (simp add: char_of_byte_def byte_of_char_def unat_of_nat_u8)

lemma byte_of_char_of_byte [simp]: "byte_of_char (char_of_byte b) = b"
  by (simp add: char_of_byte_def byte_of_char_def)

lemma char_of_byte_comp [simp]: "char_of_byte \<circ> byte_of_char = id"
  by (simp add: fun_eq_iff)

lemma byte_of_char_comp [simp]: "byte_of_char \<circ> char_of_byte = id"
  by (simp add: fun_eq_iff)

lemma of_bytes_as_bytes [simp]: "of_bytes (as_bytes s) = s"
  by (induction s) auto

lemma as_bytes_of_bytes [simp]: "as_bytes (of_bytes bs) = bs"
  by (induction bs) auto

text \<open>
  \<^verbatim>\<open>str::from_utf8\<close>: the well-formed byte sequences of the Unicode standard (no overlong forms, no
  surrogates, nothing above U+10FFFF).
\<close>

definition utf8_cont :: "u8 \<Rightarrow> bool" where
  "utf8_cont b \<longleftrightarrow> 128 \<le> unat b \<and> unat b \<le> 191"

fun utf8_valid :: "bytes \<Rightarrow> bool" where
  "utf8_valid [] = True"
| "utf8_valid (a # xs) =
     (if unat a < 128 then utf8_valid xs
      else if 194 \<le> unat a \<and> unat a \<le> 223 then
        (case xs of b # ys \<Rightarrow> utf8_cont b \<and> utf8_valid ys | _ \<Rightarrow> False)
      else if 224 \<le> unat a \<and> unat a \<le> 239 then
        (case xs of b # c # ys \<Rightarrow>
             utf8_cont b \<and> (unat a = 224 \<longrightarrow> 160 \<le> unat b) \<and> (unat a = 237 \<longrightarrow> unat b \<le> 159)
             \<and> utf8_cont c \<and> utf8_valid ys
         | _ \<Rightarrow> False)
      else if 240 \<le> unat a \<and> unat a \<le> 244 then
        (case xs of b # c # d # ys \<Rightarrow>
             utf8_cont b \<and> (unat a = 240 \<longrightarrow> 144 \<le> unat b) \<and> (unat a = 244 \<longrightarrow> unat b \<le> 143)
             \<and> utf8_cont c \<and> utf8_cont d \<and> utf8_valid ys
         | _ \<Rightarrow> False)
      else False)"

definition from_utf8 :: "bytes \<Rightarrow> string option" where
  "from_utf8 bs = (if utf8_valid bs then Some (of_bytes bs) else None)"

lemma from_utf8_as_bytes [simp, codec_simps]:
  "utf8_valid (as_bytes s) \<Longrightarrow> from_utf8 (as_bytes s) = Some s"
  by (simp add: from_utf8_def)

lemma utf8_valid_ascii: "list_all (\<lambda>b. unat b < 128) bs \<Longrightarrow> utf8_valid bs"
  by (induction bs) auto

text \<open>Decimal and hexadecimal formatting, \<^verbatim>\<open>{}\<close> and \<^verbatim>\<open>{:#x}\<close>.\<close>

definition digit_char :: "nat \<Rightarrow> char" where
  "digit_char d = (if d < 10 then char_of (48 + d) else char_of (87 + d))"

fun show_radix :: "nat \<Rightarrow> nat \<Rightarrow> string" where
  "show_radix r n =
     (if n < r \<or> r < 2 then [digit_char n] else show_radix r (n div r) @ [digit_char (n mod r)])"

declare show_radix.simps [simp del]

abbreviation show_nat :: "nat \<Rightarrow> string" where
  "show_nat \<equiv> show_radix 10"

definition show_hex :: "u8 \<Rightarrow> string" where
  "show_hex b = ''0x'' @ show_radix 16 (unat b)"

text \<open>
  \<^verbatim>\<open>str::parse\<close> at an unsigned type whose values are below \<open>m\<close>: an optional plus sign, then at
  least one decimal digit, with the overflow check of every step.
\<close>

definition to_digit :: "nat \<Rightarrow> char \<Rightarrow> nat option" where
  "to_digit radix c =
     (let n = of_char c;
          d = (if 48 \<le> n \<and> n \<le> 57 then n - 48
               else if 97 \<le> n \<and> n \<le> 122 then n - 87
               else if 65 \<le> n \<and> n \<le> 90 then n - 55 else radix)
      in if d < radix then Some d else None)"

fun parse_dec :: "nat \<Rightarrow> nat \<Rightarrow> string \<Rightarrow> nat option" where
  "parse_dec m acc [] = Some acc"
| "parse_dec m acc (c # cs) =
     (case to_digit 10 c of
        None \<Rightarrow> None
      | Some d \<Rightarrow> if acc * 10 + d < m then parse_dec m (acc * 10 + d) cs else None)"

definition parse_unsigned :: "nat \<Rightarrow> string \<Rightarrow> nat option" where
  "parse_unsigned m s =
     (case s of
        [] \<Rightarrow> None
      | c # cs \<Rightarrow> if c = CHR ''+'' then (if cs = [] then None else parse_dec m 0 cs)
                  else parse_dec m 0 s)"

definition parse_u16 :: "string \<Rightarrow> u16 option" where
  "parse_u16 s = map_option of_nat (parse_unsigned 65536 s)"

lemma digit_char_simps [simp]:
  "digit_char 0 = CHR ''0''" "digit_char (Suc 0) = CHR ''1''" "digit_char 1 = CHR ''1''"
  "digit_char 2 = CHR ''2''" "digit_char 3 = CHR ''3''" "digit_char 4 = CHR ''4''"
  "digit_char 5 = CHR ''5''" "digit_char 6 = CHR ''6''" "digit_char 7 = CHR ''7''"
  "digit_char 8 = CHR ''8''" "digit_char 9 = CHR ''9''"
  by (simp_all add: digit_char_def char_of_def bit_iff_odd)

lemma of_char_digit_char: "d < 10 \<Longrightarrow> of_char (digit_char d) = 48 + d"
  by (simp add: digit_char_def)

lemma to_digit_digit_char [simp]:
  assumes "d < radix" and "radix \<le> 36"
  shows "to_digit radix (digit_char d) = Some d"
proof (cases "d < 10")
  case True
  with assms show ?thesis by (simp add: to_digit_def of_char_digit_char)
next
  case False
  have "87 + d < 256" using assms by simp
  with False have "of_char (digit_char d) = 87 + d"
    by (simp add: digit_char_def)
  with assms False show ?thesis by (simp add: to_digit_def)
qed

lemma digit_char_not_plus: "d < 10 \<Longrightarrow> digit_char d \<noteq> CHR ''+''"
proof
  assume "d < 10" and "digit_char d = CHR ''+''"
  then have "(48 :: nat) + d = of_char CHR ''+''"
    by (metis of_char_digit_char)
  then show False by simp
qed

lemma parse_dec_append:
  "parse_dec m acc (xs @ ys) = Option.bind (parse_dec m acc xs) (\<lambda>a. parse_dec m a ys)"
  by (induction xs arbitrary: acc) (auto split: option.splits)

lemma parse_dec_show: "n < m \<Longrightarrow> parse_dec m 0 (show_nat n) = Some n"
proof (induction n rule: less_induct)
  case (less n)
  show ?case
  proof (cases "n < 10")
    case True
    with less.prems show ?thesis by (simp add: show_radix.simps)
  next
    case False
    then have "n div 10 < n" and "n div 10 < m"
      using less.prems by linarith+
    then have "parse_dec m 0 (show_nat (n div 10)) = Some (n div 10)"
      by (rule less.IH)
    with False less.prems show ?thesis
      by (subst show_radix.simps) (simp add: parse_dec_append)
  qed
qed

lemma show_nat_Cons: "\<exists>d cs. d < 10 \<and> show_nat n = digit_char d # cs"
proof (induction n rule: less_induct)
  case (less n)
  show ?case
  proof (cases "n < 10")
    case True
    then show ?thesis by (auto simp: show_radix.simps)
  next
    case False
    then have "n div 10 < n" by simp
    from less.IH [OF this] False show ?thesis
      by (subst show_radix.simps) auto
  qed
qed

lemma parse_unsigned_show: "n < m \<Longrightarrow> parse_unsigned m (show_nat n) = Some n"
proof -
  assume n: "n < m"
  obtain d cs where d: "d < 10" and s: "show_nat n = digit_char d # cs"
    using show_nat_Cons by blast
  have "parse_unsigned m (show_nat n) = parse_dec m 0 (show_nat n)"
    using d by (simp add: parse_unsigned_def s digit_char_not_plus)
  with n show ?thesis by (simp add: parse_dec_show)
qed

lemma parse_u16_show [simp, codec_simps]: "parse_u16 (show_nat (unat p)) = Some p"
  by (simp add: parse_u16_def parse_unsigned_show)

section \<open>Outcomes\<close>

text \<open>
  \<open>Panic\<close> is a failed \<^verbatim>\<open>assert!\<close>, \<^verbatim>\<open>unwrap\<close>, \<^verbatim>\<open>expect\<close> or \<^verbatim>\<open>unreachable!\<close>. A \<^verbatim>\<open>Result<T, E>\<close> is a sum
  \<open>'e + 'a\<close>, its error on the left; \<open>bind_res\<close> is the \<^verbatim>\<open>?\<close> operator.
\<close>

datatype 'a rust = Ret 'a | Panic

primrec rust_bind :: "'a rust \<Rightarrow> ('a \<Rightarrow> 'b rust) \<Rightarrow> 'b rust" where
  "rust_bind (Ret x) f = f x"
| "rust_bind Panic f = Panic"

fun bind_res :: "'e + 'a \<Rightarrow> ('a \<Rightarrow> 'e + 'b) \<Rightarrow> 'e + 'b" where
  "bind_res (Inl e) f = Inl e"
| "bind_res (Inr x) f = f x"

fun map_err :: "('e \<Rightarrow> 'f) \<Rightarrow> 'e + 'a \<Rightarrow> 'f + 'a" where
  "map_err f (Inl e) = Inl (f e)"
| "map_err f (Inr x) = Inr x"

lemma bind_res_Inr_iff: "bind_res m f = Inr y \<longleftrightarrow> (\<exists>x. m = Inr x \<and> f x = Inr y)"
  by (cases m) auto

lemma rust_bind_Ret_iff: "rust_bind m f = Ret y \<longleftrightarrow> (\<exists>x. m = Ret x \<and> f x = Ret y)"
  by (cases m) auto

lemma rust_bind_split: "P (rust_bind x f) \<longleftrightarrow> (x = Panic \<longrightarrow> P Panic) \<and> (\<forall>a. x = Ret a \<longrightarrow> P (f a))"
  by (cases x) auto

lemma rust_bind_split_asm: "P (rust_bind x f) \<longleftrightarrow> \<not> (x = Panic \<and> \<not> P Panic \<or> (\<exists>a. x = Ret a \<and> \<not> P (f a)))"
  by (cases x) auto

lemmas rust_bind_splits = rust_bind_split rust_bind_split_asm

lemma rust_bind_Panic_iff: "rust_bind m f = Panic \<longleftrightarrow> m = Panic \<or> (\<exists>x. m = Ret x \<and> f x = Panic)"
  by (cases m) auto

lemma rust_bind_Ret_Panic_iff [simp]: "rust_bind m (\<lambda>x. Ret (g x)) = Panic \<longleftrightarrow> m = Panic"
  by (cases m) auto

text \<open>The kinds of \<^verbatim>\<open>std::io::Error\<close> that the sources construct or compare.\<close>

datatype io_kind =
    UnexpectedEof | InvalidData | InvalidInput | OtherKind | TimedOut
  | ConnectionRefused | ConnectionAborted | PermissionDenied | WriteZero

datatype io_error = IoError (io_err_kind: io_kind) (io_err_msg: string)

datatype 'a poll = Pending | Ready 'a

section \<open>Exact readers\<close>

text \<open>
  A decoder reads through \<^verbatim>\<open>AsyncReadExt::read_exact\<close>: \<open>rd n r\<close> yields the next \<open>n\<close> bytes and the
  reader behind them, or the I/O error.
\<close>

type_synonym 'r reader = "nat \<Rightarrow> 'r \<Rightarrow> io_error + (bytes \<times> 'r)"

text \<open>An in-memory reader, \<^verbatim>\<open>std::io::Cursor\<close> over the bytes that are left.\<close>

definition cursor_read_exact :: "bytes reader" where
  "cursor_read_exact n s =
     (if n \<le> length s then Inr (take n s, drop n s)
      else Inl (IoError UnexpectedEof ''early eof''))"

locale byte_reader =
  fixes rd :: "nat \<Rightarrow> 'r \<Rightarrow> io_error + (bytes \<times> 'r)"
    and avail :: "'r \<Rightarrow> bytes"
    and ready :: "'r \<Rightarrow> bool"
  assumes rd_enough: "\<lbrakk>ready r; n \<le> length (avail r)\<rbrakk> \<Longrightarrow>
      \<exists>r'. rd n r = Inr (take n (avail r), r') \<and> avail r' = drop n (avail r) \<and> ready r'"
    and rd_short: "\<lbrakk>ready r; length (avail r) < n\<rbrakk> \<Longrightarrow>
      \<exists>e. rd n r = Inl e \<and> io_err_kind e = UnexpectedEof"
begin

lemma rd_prefix:
  assumes "ready r" and "avail r = xs @ ys" and "length xs = n"
  shows "\<exists>r'. rd n r = Inr (xs, r') \<and> avail r' = ys \<and> ready r'"
  using rd_enough [of r n] assms by auto

lemma rd_cases:
  assumes "ready r"
  obtains (got) r' where "rd n r = Inr (take n (avail r), r')" "n \<le> length (avail r)"
      "avail r' = drop n (avail r)" "ready r'"
    | (eof) e where "rd n r = Inl e" "io_err_kind e = UnexpectedEof" "length (avail r) < n"
  using rd_enough [OF assms, of n] rd_short [OF assms, of n] by (meson not_le_imp_less)

end

interpretation cursor: byte_reader cursor_read_exact "\<lambda>s. s" "\<lambda>_. True"
  by unfold_locales (auto simp: cursor_read_exact_def)

end
