(* ===== verification/Cipher_Type.thy ===== *)
theory Cipher_Type
  imports SS_Prelude
begin

text \<open>
  The cipher methods of \<^verbatim>\<open>src/crypto/cipher.rs\<close> and the digests of \<^verbatim>\<open>src/crypto/digest.rs\<close>: names,
  sizes, categories and the derivation of a key from the password. The cryptographic libraries
  (md5, sha1, OpenSSL, ring, libsodium, miscreant, hkdf) are not part of the sources: their
  functions are the fields of the record \<open>crypto_lib\<close>, an argument of every definition that calls
  them, and what the code relies on is stated by the predicates \<open>digest_lib_ok\<close>,
  \<open>openssl_sizes_ok\<close> and \<open>ring_sizes_ok\<close>. All cipher features of the crate are enabled.
\<close>

section \<open>The cryptographic libraries\<close>

text \<open>Names of the algorithms of OpenSSL, ring, libsodium and miscreant that the sources use.\<close>

datatype openssl_nid =
    CAMELLIA_128_CFB1 | CAMELLIA_128_CFB8 | CAMELLIA_128_CFB128
  | CAMELLIA_192_CFB1 | CAMELLIA_192_CFB8 | CAMELLIA_192_CFB128
  | CAMELLIA_256_CFB1 | CAMELLIA_256_CFB8 | CAMELLIA_256_CFB128

datatype openssl_cipher =
    OSSL_aes_128_cfb1 | OSSL_aes_128_cfb8 | OSSL_aes_128_cfb128
  | OSSL_aes_192_cfb1 | OSSL_aes_192_cfb8 | OSSL_aes_192_cfb128
  | OSSL_aes_256_cfb1 | OSSL_aes_256_cfb8 | OSSL_aes_256_cfb128
  | OSSL_aes_128_ctr | OSSL_aes_192_ctr | OSSL_aes_256_ctr
  | OSSL_rc4 | OSSL_of_nid openssl_nid

datatype ring_alg = AES_128_GCM | AES_256_GCM | CHACHA20_POLY1305

datatype sodium_alg = Sodium_chacha20 | Sodium_chacha20_ietf | Sodium_salsa20 | Sodium_xsalsa20

datatype siv_alg = Aes128PmacSivAead | Aes256PmacSivAead

datatype CryptoMode = Encrypt | Decrypt

text \<open>
  The type parameter is the state of an OpenSSL \<^verbatim>\<open>Crypter\<close>. A result \<open>None\<close> is the
  library's error; \<open>crypter_update\<close> and \<open>crypter_finalize\<close> report the text of the error stack.
\<close>

record 'c crypto_lib =
  lib_md5 :: "bytes \<Rightarrow> bytes"
  lib_sha1 :: "bytes \<Rightarrow> bytes"
  md5_output_size :: nat
  ossl_from_nid :: "openssl_nid \<Rightarrow> openssl_cipher option"
  ossl_key_len :: "openssl_cipher \<Rightarrow> nat"
  ossl_iv_len :: "openssl_cipher \<Rightarrow> nat option"
  ossl_block_size :: "openssl_cipher \<Rightarrow> nat"
  crypter_new :: "openssl_cipher \<Rightarrow> CryptoMode \<Rightarrow> bytes \<Rightarrow> bytes \<Rightarrow> 'c option"
  crypter_update :: "'c \<Rightarrow> bytes \<Rightarrow> string + (bytes \<times> 'c)"
  crypter_finalize :: "'c \<Rightarrow> string + (bytes \<times> 'c)"
  ring_key_len :: "ring_alg \<Rightarrow> nat"
  ring_nonce_len :: "ring_alg \<Rightarrow> nat"
  ring_tag_len :: "ring_alg \<Rightarrow> nat"
  ring_seal :: "ring_alg \<Rightarrow> bytes \<Rightarrow> bytes \<Rightarrow> bytes \<Rightarrow> bytes"
  ring_open :: "ring_alg \<Rightarrow> bytes \<Rightarrow> bytes \<Rightarrow> bytes \<Rightarrow> bytes option"
  sodium_xor_ic :: "sodium_alg \<Rightarrow> bytes \<Rightarrow> bytes \<Rightarrow> nat \<Rightarrow> bytes \<Rightarrow> bytes option"
  xchacha_encrypt :: "bytes \<Rightarrow> bytes \<Rightarrow> bytes \<Rightarrow> bytes"
  xchacha_decrypt :: "bytes \<Rightarrow> bytes \<Rightarrow> bytes \<Rightarrow> bytes option"
  siv_encrypt :: "siv_alg \<Rightarrow> bytes \<Rightarrow> bytes \<Rightarrow> bytes \<Rightarrow> bytes"
  siv_decrypt :: "siv_alg \<Rightarrow> bytes \<Rightarrow> bytes \<Rightarrow> bytes \<Rightarrow> bytes option"
  hkdf_sha1 :: "bytes \<Rightarrow> bytes \<Rightarrow> bytes \<Rightarrow> nat \<Rightarrow> bytes option"
  feature_sodium :: bool
  sodium_increment :: "bytes \<Rightarrow> bytes"

text \<open>\<^verbatim>\<open>Option::expect\<close> and \<^verbatim>\<open>Option::unwrap\<close>.\<close>

primrec expect :: "'a option \<Rightarrow> 'a rust" where
  "expect None = Panic"
| "expect (Some x) = Ret x"

lemma expect_Ret_iff [simp]: "expect x = Ret y \<longleftrightarrow> x = Some y"
  by (cases x) simp_all

lemma expect_Panic_iff [simp]: "expect x = Panic \<longleftrightarrow> x = None"
  by (cases x) simp_all

section \<open>Cipher methods\<close>

datatype cipher_error =
    UnknownCipherType | OpenSSLError string | CipherIoError io_error | AeadDecryptFailed | SodiumError

primrec io_error_from_cipher :: "cipher_error \<Rightarrow> io_error" where
  "io_error_from_cipher UnknownCipherType = IoError OtherKind ''unknown cipher type''"
| "io_error_from_cipher (OpenSSLError err) = IoError OtherKind err"
| "io_error_from_cipher (CipherIoError err) = err"
| "io_error_from_cipher AeadDecryptFailed = IoError OtherKind ''AEAD decrypt error''"
| "io_error_from_cipher SodiumError = IoError OtherKind ''sodium error''"

datatype CipherType =
    Table | Plain | Aes128Cfb | Aes128Cfb1 | Aes128Cfb8 | Aes128Cfb128 | Aes192Cfb |
    Aes192Cfb1 | Aes192Cfb8 | Aes192Cfb128 | Aes256Cfb | Aes256Cfb1 | Aes256Cfb8 |
    Aes256Cfb128 | Aes128Ctr | Aes192Ctr | Aes256Ctr | Camellia128Cfb | Camellia192Cfb |
    Camellia256Cfb | Camellia128Cfb1 | Camellia192Cfb1 | Camellia256Cfb1 |
    Camellia128Cfb8 | Camellia192Cfb8 | Camellia256Cfb8 | Camellia128Cfb128 |
    Camellia192Cfb128 | Camellia256Cfb128 | Rc4 | Rc4Md5 | ChaCha20 | Salsa20 | XSalsa20 |
    ChaCha20Ietf | Aes128Gcm | Aes256Gcm | ChaCha20IetfPoly1305 | XChaCha20IetfPoly1305 |
    Aes128PmacSiv | Aes256PmacSiv

definition CipherType_iter :: "CipherType list" where
  "CipherType_iter =
     [Table, Plain, Aes128Cfb, Aes128Cfb1, Aes128Cfb8, Aes128Cfb128,
      Aes192Cfb, Aes192Cfb1, Aes192Cfb8, Aes192Cfb128, Aes256Cfb, Aes256Cfb1,
      Aes256Cfb8, Aes256Cfb128, Aes128Ctr, Aes192Ctr, Aes256Ctr, Camellia128Cfb,
      Camellia192Cfb, Camellia256Cfb, Camellia128Cfb1, Camellia192Cfb1, Camellia256Cfb1, Camellia128Cfb8,
      Camellia192Cfb8, Camellia256Cfb8, Camellia128Cfb128, Camellia192Cfb128, Camellia256Cfb128, Rc4,
      Rc4Md5, ChaCha20, Salsa20, XSalsa20, ChaCha20Ietf, Aes128Gcm,
      Aes256Gcm, ChaCha20IetfPoly1305, XChaCha20IetfPoly1305, Aes128PmacSiv, Aes256PmacSiv]"

datatype CipherCategory = StreamCategory | AeadCategory

fun key_size :: "'c crypto_lib \<Rightarrow> CipherType \<Rightarrow> nat rust" where
  "key_size L Table = Ret 0"
| "key_size L Plain = Ret 0"
| "key_size L Aes128Cfb1 = Ret (ossl_key_len L OSSL_aes_128_cfb1)"
| "key_size L Aes128Cfb8 = Ret (ossl_key_len L OSSL_aes_128_cfb8)"
| "key_size L Aes128Cfb = Ret (ossl_key_len L OSSL_aes_128_cfb128)"
| "key_size L Aes128Cfb128 = Ret (ossl_key_len L OSSL_aes_128_cfb128)"
| "key_size L Aes192Cfb1 = Ret (ossl_key_len L OSSL_aes_192_cfb1)"
| "key_size L Aes192Cfb8 = Ret (ossl_key_len L OSSL_aes_192_cfb8)"
| "key_size L Aes192Cfb = Ret (ossl_key_len L OSSL_aes_192_cfb128)"
| "key_size L Aes192Cfb128 = Ret (ossl_key_len L OSSL_aes_192_cfb128)"
| "key_size L Aes256Cfb1 = Ret (ossl_key_len L OSSL_aes_256_cfb1)"
| "key_size L Aes256Cfb8 = Ret (ossl_key_len L OSSL_aes_256_cfb8)"
| "key_size L Aes256Cfb = Ret (ossl_key_len L OSSL_aes_256_cfb128)"
| "key_size L Aes256Cfb128 = Ret (ossl_key_len L OSSL_aes_256_cfb128)"
| "key_size L Aes128Ctr = Ret (ossl_key_len L OSSL_aes_128_ctr)"
| "key_size L Aes192Ctr = Ret (ossl_key_len L OSSL_aes_192_ctr)"
| "key_size L Aes256Ctr = Ret (ossl_key_len L OSSL_aes_256_ctr)"
| "key_size L Camellia128Cfb = rust_bind (expect (ossl_from_nid L CAMELLIA_128_CFB128)) (\<lambda>c. Ret (ossl_key_len L c))"
| "key_size L Camellia128Cfb1 = rust_bind (expect (ossl_from_nid L CAMELLIA_128_CFB1)) (\<lambda>c. Ret (ossl_key_len L c))"
| "key_size L Camellia128Cfb8 = rust_bind (expect (ossl_from_nid L CAMELLIA_128_CFB8)) (\<lambda>c. Ret (ossl_key_len L c))"
| "key_size L Camellia128Cfb128 = rust_bind (expect (ossl_from_nid L CAMELLIA_128_CFB128)) (\<lambda>c. Ret (ossl_key_len L c))"
| "key_size L Camellia192Cfb = rust_bind (expect (ossl_from_nid L CAMELLIA_192_CFB128)) (\<lambda>c. Ret (ossl_key_len L c))"
| "key_size L Camellia192Cfb1 = rust_bind (expect (ossl_from_nid L CAMELLIA_192_CFB1)) (\<lambda>c. Ret (ossl_key_len L c))"
| "key_size L Camellia192Cfb8 = rust_bind (expect (ossl_from_nid L CAMELLIA_192_CFB8)) (\<lambda>c. Ret (ossl_key_len L c))"
| "key_size L Camellia192Cfb128 = rust_bind (expect (ossl_from_nid L CAMELLIA_192_CFB128)) (\<lambda>c. Ret (ossl_key_len L c))"
| "key_size L Camellia256Cfb = rust_bind (expect (ossl_from_nid L CAMELLIA_256_CFB128)) (\<lambda>c. Ret (ossl_key_len L c))"
| "key_size L Camellia256Cfb1 = rust_bind (expect (ossl_from_nid L CAMELLIA_256_CFB1)) (\<lambda>c. Ret (ossl_key_len L c))"
| "key_size L Camellia256Cfb8 = rust_bind (expect (ossl_from_nid L CAMELLIA_256_CFB8)) (\<lambda>c. Ret (ossl_key_len L c))"
| "key_size L Camellia256Cfb128 = rust_bind (expect (ossl_from_nid L CAMELLIA_256_CFB128)) (\<lambda>c. Ret (ossl_key_len L c))"
| "key_size L Rc4 = Ret (ossl_key_len L OSSL_rc4)"
| "key_size L Rc4Md5 = Ret (ossl_key_len L OSSL_rc4)"
| "key_size L ChaCha20 = Ret 32"
| "key_size L Salsa20 = Ret 32"
| "key_size L XSalsa20 = Ret 32"
| "key_size L ChaCha20Ietf = Ret 32"
| "key_size L Aes128Gcm = Ret (ring_key_len L AES_128_GCM)"
| "key_size L Aes256Gcm = Ret (ring_key_len L AES_256_GCM)"
| "key_size L ChaCha20IetfPoly1305 = Ret (ring_key_len L CHACHA20_POLY1305)"
| "key_size L XChaCha20IetfPoly1305 = Ret 32"
| "key_size L Aes128PmacSiv = Ret 32"
| "key_size L Aes256PmacSiv = Ret 64"

fun iv_size :: "'c crypto_lib \<Rightarrow> CipherType \<Rightarrow> nat rust" where
  "iv_size L Table = Ret 0"
| "iv_size L Plain = Ret 0"
| "iv_size L Aes128Cfb1 = expect (ossl_iv_len L OSSL_aes_128_cfb1)"
| "iv_size L Aes128Cfb8 = expect (ossl_iv_len L OSSL_aes_128_cfb8)"
| "iv_size L Aes128Cfb = expect (ossl_iv_len L OSSL_aes_128_cfb128)"
| "iv_size L Aes128Cfb128 = expect (ossl_iv_len L OSSL_aes_128_cfb128)"
| "iv_size L Aes192Cfb1 = expect (ossl_iv_len L OSSL_aes_192_cfb1)"
| "iv_size L Aes192Cfb8 = expect (ossl_iv_len L OSSL_aes_192_cfb8)"
| "iv_size L Aes192Cfb = expect (ossl_iv_len L OSSL_aes_192_cfb128)"
| "iv_size L Aes192Cfb128 = expect (ossl_iv_len L OSSL_aes_192_cfb128)"
| "iv_size L Aes256Cfb1 = expect (ossl_iv_len L OSSL_aes_256_cfb1)"
| "iv_size L Aes256Cfb8 = expect (ossl_iv_len L OSSL_aes_256_cfb8)"
| "iv_size L Aes256Cfb = expect (ossl_iv_len L OSSL_aes_256_cfb128)"
| "iv_size L Aes256Cfb128 = expect (ossl_iv_len L OSSL_aes_256_cfb128)"
| "iv_size L Aes128Ctr = expect (ossl_iv_len L OSSL_aes_128_ctr)"
| "iv_size L Aes192Ctr = expect (ossl_iv_len L OSSL_aes_192_ctr)"
| "iv_size L Aes256Ctr = expect (ossl_iv_len L OSSL_aes_256_ctr)"
| "iv_size L Camellia128Cfb = rust_bind (expect (ossl_from_nid L CAMELLIA_128_CFB128)) (\<lambda>c. expect (ossl_iv_len L c))"
| "iv_size L Camellia128Cfb1 = rust_bind (expect (ossl_from_nid L CAMELLIA_128_CFB1)) (\<lambda>c. expect (ossl_iv_len L c))"
| "iv_size L Camellia128Cfb8 = rust_bind (expect (ossl_from_nid L CAMELLIA_128_CFB8)) (\<lambda>c. expect (ossl_iv_len L c))"
| "iv_size L Camellia128Cfb128 = rust_bind (expect (ossl_from_nid L CAMELLIA_128_CFB128)) (\<lambda>c. expect (ossl_iv_len L c))"
| "iv_size L Camellia192Cfb = rust_bind (expect (ossl_from_nid L CAMELLIA_192_CFB128)) (\<lambda>c. expect (ossl_iv_len L c))"
| "iv_size L Camellia192Cfb1 = rust_bind (expect (ossl_from_nid L CAMELLIA_192_CFB1)) (\<lambda>c. expect (ossl_iv_len L c))"
| "iv_size L Camellia192Cfb8 = rust_bind (expect (ossl_from_nid L CAMELLIA_192_CFB8)) (\<lambda>c. expect (ossl_iv_len L c))"
| "iv_size L Camellia192Cfb128 = rust_bind (expect (ossl_from_nid L CAMELLIA_192_CFB128)) (\<lambda>c. expect (ossl_iv_len L c))"
| "iv_size L Camellia256Cfb = rust_bind (expect (ossl_from_nid L CAMELLIA_256_CFB128)) (\<lambda>c. expect (ossl_iv_len L c))"
| "iv_size L Camellia256Cfb1 = rust_bind (expect (ossl_from_nid L CAMELLIA_256_CFB1)) (\<lambda>c. expect (ossl_iv_len L c))"
| "iv_size L Camellia256Cfb8 = rust_bind (expect (ossl_from_nid L CAMELLIA_256_CFB8)) (\<lambda>c. expect (ossl_iv_len L c))"
| "iv_size L Camellia256Cfb128 = rust_bind (expect (ossl_from_nid L CAMELLIA_256_CFB128)) (\<lambda>c. expect (ossl_iv_len L c))"
| "iv_size L Rc4 = expect (ossl_iv_len L OSSL_rc4)"
| "iv_size L Rc4Md5 = Ret 16"
| "iv_size L ChaCha20 = Ret 8"
| "iv_size L Salsa20 = Ret 8"
| "iv_size L XSalsa20 = Ret 24"
| "iv_size L ChaCha20Ietf = Ret 12"
| "iv_size L Aes128Gcm = Ret (ring_nonce_len L AES_128_GCM)"
| "iv_size L Aes256Gcm = Ret (ring_nonce_len L AES_256_GCM)"
| "iv_size L ChaCha20IetfPoly1305 = Ret (ring_nonce_len L CHACHA20_POLY1305)"
| "iv_size L XChaCha20IetfPoly1305 = Ret 24"
| "iv_size L Aes128PmacSiv = Ret 8"
| "iv_size L Aes256PmacSiv = Ret 8"

fun category :: "CipherType \<Rightarrow> CipherCategory" where
  "category Aes128Gcm = AeadCategory"
| "category Aes256Gcm = AeadCategory"
| "category ChaCha20IetfPoly1305 = AeadCategory"
| "category XChaCha20IetfPoly1305 = AeadCategory"
| "category Aes128PmacSiv = AeadCategory"
| "category Aes256PmacSiv = AeadCategory"
| "category _ = StreamCategory"

definition rust_assert :: "bool \<Rightarrow> 'a rust \<Rightarrow> 'a rust" where
  "rust_assert b k = (if b then k else Panic)"

fun aead_tag_len :: "'c crypto_lib \<Rightarrow> CipherType \<Rightarrow> nat rust" where
  "aead_tag_len L Aes128Gcm = Ret (ring_tag_len L AES_128_GCM)"
| "aead_tag_len L Aes256Gcm = Ret (ring_tag_len L AES_256_GCM)"
| "aead_tag_len L ChaCha20IetfPoly1305 = Ret (ring_tag_len L CHACHA20_POLY1305)"
| "aead_tag_len L XChaCha20IetfPoly1305 = Ret 16"
| "aead_tag_len L Aes128PmacSiv = Ret 16"
| "aead_tag_len L Aes256PmacSiv = Ret 16"
| "aead_tag_len L _ = Panic"

definition tag_size :: "'c crypto_lib \<Rightarrow> CipherType \<Rightarrow> nat rust" where
  "tag_size L t = rust_assert (category t = AeadCategory) (aead_tag_len L t)"

definition salt_size :: "'c crypto_lib \<Rightarrow> CipherType \<Rightarrow> nat rust" where
  "salt_size L t = rust_assert (category t = AeadCategory) (key_size L t)"

text \<open>The random generator is an argument: \<open>rng n\<close> yields \<open>n\<close> bytes.\<close>

definition gen_random_bytes :: "(nat \<Rightarrow> bytes) \<Rightarrow> nat \<Rightarrow> bytes" where
  "gen_random_bytes rng len = rng len"

definition gen_init_vec :: "'c crypto_lib \<Rightarrow> (nat \<Rightarrow> bytes) \<Rightarrow> CipherType \<Rightarrow> bytes rust" where
  "gen_init_vec L rng t = rust_bind (iv_size L t) (\<lambda>iv_len. Ret (gen_random_bytes rng iv_len))"

definition gen_salt :: "'c crypto_lib \<Rightarrow> (nat \<Rightarrow> bytes) \<Rightarrow> CipherType \<Rightarrow> bytes rust" where
  "gen_salt L rng t = rust_bind (salt_size L t) (\<lambda>n. Ret (gen_random_bytes rng n))"

definition CipherType_from_str :: "string \<Rightarrow> cipher_error + CipherType" where
  "CipherType_from_str s =
     (if s = ''table'' \<or> s = [] then Inr Table
      else if s = ''plain'' then Inr Plain
      else if s = ''aes-128-cfb'' then Inr Aes128Cfb
      else if s = ''aes-128-cfb1'' then Inr Aes128Cfb1
      else if s = ''aes-128-cfb8'' then Inr Aes128Cfb8
      else if s = ''aes-128-cfb128'' then Inr Aes128Cfb128
      else if s = ''aes-192-cfb'' then Inr Aes192Cfb
      else if s = ''aes-192-cfb1'' then Inr Aes192Cfb1
      else if s = ''aes-192-cfb8'' then Inr Aes192Cfb8
      else if s = ''aes-192-cfb128'' then Inr Aes192Cfb128
      else if s = ''aes-256-cfb'' then Inr Aes256Cfb
      else if s = ''aes-256-cfb1'' then Inr Aes256Cfb1
      else if s = ''aes-256-cfb8'' then Inr Aes256Cfb8
      else if s = ''aes-256-cfb128'' then Inr Aes256Cfb128
      else if s = ''aes-128-ctr'' then Inr Aes128Ctr
      else if s = ''aes-192-ctr'' then Inr Aes192Ctr
      else if s = ''aes-256-ctr'' then Inr Aes256Ctr
      else if s = ''camellia-128-cfb'' then Inr Camellia128Cfb
      else if s = ''camellia-128-cfb1'' then Inr Camellia128Cfb1
      else if s = ''camellia-128-cfb8'' then Inr Camellia128Cfb8
      else if s = ''camellia-128-cfb128'' then Inr Camellia128Cfb128
      else if s = ''camellia-192-cfb'' then Inr Camellia192Cfb
      else if s = ''camellia-192-cfb1'' then Inr Camellia192Cfb1
      else if s = ''camellia-192-cfb8'' then Inr Camellia192Cfb8
      else if s = ''camellia-192-cfb128'' then Inr Camellia192Cfb128
      else if s = ''camellia-256-cfb'' then Inr Camellia256Cfb
      else if s = ''camellia-256-cfb1'' then Inr Camellia256Cfb1
      else if s = ''camellia-256-cfb8'' then Inr Camellia256Cfb8
      else if s = ''camellia-256-cfb128'' then Inr Camellia256Cfb128
      else if s = ''rc4'' then Inr Rc4
      else if s = ''rc4-md5'' then Inr Rc4Md5
      else if s = ''chacha20'' then Inr ChaCha20
      else if s = ''salsa20'' then Inr Salsa20
      else if s = ''xsalsa20'' then Inr XSalsa20
      else if s = ''chacha20-ietf'' then Inr ChaCha20Ietf
      else if s = ''aes-128-gcm'' then Inr Aes128Gcm
      else if s = ''aes-256-gcm'' then Inr Aes256Gcm
      else if s = ''chacha20-ietf-poly1305'' then Inr ChaCha20IetfPoly1305
      else if s = ''xchacha20-ietf-poly1305'' then Inr XChaCha20IetfPoly1305
      else if s = ''aes-128-pmac-siv'' then Inr Aes128PmacSiv
      else if s = ''aes-256-pmac-siv'' then Inr Aes256PmacSiv
      else Inl UnknownCipherType)"

primrec CipherType_display :: "CipherType \<Rightarrow> string" where
  "CipherType_display Table = ''table''"
| "CipherType_display Plain = ''plain''"
| "CipherType_display Aes128Cfb = ''aes-128-cfb''"
| "CipherType_display Aes128Cfb1 = ''aes-128-cfb1''"
| "CipherType_display Aes128Cfb8 = ''aes-128-cfb8''"
| "CipherType_display Aes128Cfb128 = ''aes-128-cfb128''"
| "CipherType_display Aes192Cfb = ''aes-192-cfb''"
| "CipherType_display Aes192Cfb1 = ''aes-192-cfb1''"
| "CipherType_display Aes192Cfb8 = ''aes-192-cfb8''"
| "CipherType_display Aes192Cfb128 = ''aes-192-cfb128''"
| "CipherType_display Aes256Cfb = ''aes-256-cfb''"
| "CipherType_display Aes256Cfb1 = ''aes-256-cfb1''"
| "CipherType_display Aes256Cfb8 = ''aes-256-cfb8''"
| "CipherType_display Aes256Cfb128 = ''aes-256-cfb128''"
| "CipherType_display Aes128Ctr = ''aes-128-ctr''"
| "CipherType_display Aes192Ctr = ''aes-192-ctr''"
| "CipherType_display Aes256Ctr = ''aes-256-ctr''"
| "CipherType_display Camellia128Cfb = ''camellia-128-cfb''"
| "CipherType_display Camellia128Cfb1 = ''camellia-128-cfb1''"
| "CipherType_display Camellia128Cfb8 = ''camellia-128-cfb8''"
| "CipherType_display Camellia128Cfb128 = ''camellia-128-cfb128''"
| "CipherType_display Camellia192Cfb = ''camellia-192-cfb''"
| "CipherType_display Camellia192Cfb1 = ''camellia-192-cfb1''"
| "CipherType_display Camellia192Cfb8 = ''camellia-192-cfb8''"
| "CipherType_display Camellia192Cfb128 = ''camellia-192-cfb128''"
| "CipherType_display Camellia256Cfb = ''camellia-256-cfb''"
| "CipherType_display Camellia256Cfb1 = ''camellia-256-cfb1''"
| "CipherType_display Camellia256Cfb8 = ''camellia-256-cfb8''"
| "CipherType_display Camellia256Cfb128 = ''camellia-256-cfb128''"
| "CipherType_display Rc4 = ''rc4''"
| "CipherType_display Rc4Md5 = ''rc4-md5''"
| "CipherType_display ChaCha20 = ''chacha20''"
| "CipherType_display Salsa20 = ''salsa20''"
| "CipherType_display XSalsa20 = ''xsalsa20''"
| "CipherType_display ChaCha20Ietf = ''chacha20-ietf''"
| "CipherType_display Aes128Gcm = ''aes-128-gcm''"
| "CipherType_display Aes256Gcm = ''aes-256-gcm''"
| "CipherType_display ChaCha20IetfPoly1305 = ''chacha20-ietf-poly1305''"
| "CipherType_display XChaCha20IetfPoly1305 = ''xchacha20-ietf-poly1305''"
| "CipherType_display Aes128PmacSiv = ''aes-128-pmac-siv''"
| "CipherType_display Aes256PmacSiv = ''aes-256-pmac-siv''"

definition available_ciphers :: "string list" where
  "available_ciphers = map CipherType_display CipherType_iter"

section \<open>Digests and the derivation of keys\<close>

datatype DigestType = Md5Type | Sha1Type | ShaType

text \<open>A running digest is the input it has been fed with.\<close>

datatype DigestVariant = Md5Digest bytes | Sha1Digest bytes

primrec with_type :: "DigestType \<Rightarrow> DigestVariant" where
  "with_type Md5Type = Md5Digest []"
| "with_type Sha1Type = Sha1Digest []"
| "with_type ShaType = Sha1Digest []"

primrec digest_update :: "DigestVariant \<Rightarrow> bytes \<Rightarrow> DigestVariant" where
  "digest_update (Md5Digest d) data = Md5Digest (d @ data)"
| "digest_update (Sha1Digest d) data = Sha1Digest (d @ data)"

primrec digest_digest :: "'c crypto_lib \<Rightarrow> DigestVariant \<Rightarrow> bytes \<Rightarrow> bytes" where
  "digest_digest L (Md5Digest d) buf = buf @ lib_md5 L d"
| "digest_digest L (Sha1Digest d) buf = buf @ lib_sha1 L d"

primrec digest_len :: "'c crypto_lib \<Rightarrow> DigestVariant \<Rightarrow> nat" where
  "digest_len L (Md5Digest d) = md5_output_size L"
| "digest_len L (Sha1Digest d) = md5_output_size L"

primrec digest_reset :: "DigestVariant \<Rightarrow> DigestVariant" where
  "digest_reset (Md5Digest d) = Md5Digest []"
| "digest_reset (Sha1Digest d) = Sha1Digest []"

text \<open>The loop of \<^verbatim>\<open>classic_bytes_to_key\<close>, its iterations counted down.\<close>

primrec bytes_to_key_loop ::
    "'c crypto_lib \<Rightarrow> bytes \<Rightarrow> nat \<Rightarrow> DigestVariant \<Rightarrow> bytes \<Rightarrow> bytes \<Rightarrow> bytes" where
  "bytes_to_key_loop L key 0 digest m result = result"
| "bytes_to_key_loop L key (Suc n) digest m result =
     (let vkey = m @ key;
          digest = digest_update digest vkey;
          m = digest_digest L digest [];
          digest = digest_reset digest
      in bytes_to_key_loop L key n digest m (result @ m))"

definition classic_bytes_to_key :: "'c crypto_lib \<Rightarrow> CipherType \<Rightarrow> bytes \<Rightarrow> bytes rust" where
  "classic_bytes_to_key L t key =
     rust_bind (iv_size L t) (\<lambda>iv_len.
     rust_bind (key_size L t) (\<lambda>key_len.
       if iv_len + key_len = 0 then Ret []
       else
         let digest = with_type Md5Type;
             total_loop = (key_len + iv_len + digest_len L digest - 1) div digest_len L digest;
             result = bytes_to_key_loop L key total_loop digest [] []
         in Ret (take key_len result)))"

definition bytes_to_key :: "'c crypto_lib \<Rightarrow> CipherType \<Rightarrow> bytes \<Rightarrow> bytes rust" where
  "bytes_to_key L t key = classic_bytes_to_key L t key"

section \<open>What the sources rely on\<close>

definition digest_lib_ok :: "'c crypto_lib \<Rightarrow> bool" where
  "digest_lib_ok L \<longleftrightarrow> md5_output_size L = 16 \<and> (\<forall>x. length (lib_md5 L x) = 16)"

definition ring_sizes_ok :: "'c crypto_lib \<Rightarrow> bool" where
  "ring_sizes_ok L \<longleftrightarrow>
     ring_key_len L AES_128_GCM = 16 \<and> ring_key_len L AES_256_GCM = 32
     \<and> ring_key_len L CHACHA20_POLY1305 = 32
     \<and> (\<forall>a. ring_nonce_len L a = 12) \<and> (\<forall>a. ring_tag_len L a = 16)"

text \<open>
  OpenSSL reports no initialisation vector for RC4, which has none. (The sizes of AES and Camellia
  are not relied upon.)
\<close>

definition openssl_rc4_ok :: "'c crypto_lib \<Rightarrow> bool" where
  "openssl_rc4_ok L \<longleftrightarrow> ossl_iv_len L OSSL_rc4 = None"

lemma UNIV_CipherType: "UNIV = set CipherType_iter"
proof (rule UNIV_eq_I)
  fix t :: CipherType
  show "t \<in> set CipherType_iter" by (cases t) (simp_all add: CipherType_iter_def)
qed

instance CipherType :: finite
  by standard (simp add: UNIV_CipherType)

text \<open>
  \<^verbatim>\<open>EVP_BytesToKey\<close> with MD5 and no salt: block \<open>n\<close> of the key stream is the digest of the block
  before and the password.
\<close>

primrec evp_block :: "'c crypto_lib \<Rightarrow> bytes \<Rightarrow> nat \<Rightarrow> bytes" where
  "evp_block L pwd 0 = lib_md5 L pwd"
| "evp_block L pwd (Suc n) = lib_md5 L (evp_block L pwd n @ pwd)"

definition evp_stream :: "'c crypto_lib \<Rightarrow> bytes \<Rightarrow> nat \<Rightarrow> bytes" where
  "evp_stream L pwd n = concat (map (evp_block L pwd) [0..<n])"

lemma length_evp_block: "digest_lib_ok L \<Longrightarrow> length (evp_block L pwd n) = 16"
  by (cases n) (simp_all add: digest_lib_ok_def)

lemma length_evp_stream: "digest_lib_ok L \<Longrightarrow> length (evp_stream L pwd n) = 16 * n"
  by (induction n) (simp_all add: evp_stream_def length_evp_block)

lemma evp_stream_take:
  "\<lbrakk>digest_lib_ok L; k \<le> 16 * n; n \<le> m\<rbrakk> \<Longrightarrow> take k (evp_stream L pwd m) = take k (evp_stream L pwd n)"
proof (induction m)
  case (Suc m)
  show ?case
  proof (cases "n = Suc m")
    case False
    then have "take k (evp_stream L pwd m) = take k (evp_stream L pwd n)" "k \<le> 16 * m"
      using Suc by auto
    moreover have "evp_stream L pwd (Suc m) = evp_stream L pwd m @ evp_block L pwd m"
      by (simp add: evp_stream_def)
    ultimately show ?thesis
      using length_evp_stream [OF Suc.prems(1), of pwd m] by simp
  qed simp
qed simp

lemma evp_stream_take_eq:
  assumes "digest_lib_ok L" and "k \<le> 16 * n" and "k \<le> 16 * m"
  shows "take k (evp_stream L pwd m) = take k (evp_stream L pwd n)"
  using assms evp_stream_take [of L k n m pwd] evp_stream_take [of L k m n pwd]
  by (cases "n \<le> m") auto

lemma bytes_to_key_loop_Suc:
  "bytes_to_key_loop L pwd n (Md5Digest []) (evp_block L pwd i) res =
     res @ concat (map (evp_block L pwd) [Suc i..<Suc i + n])"
proof (induction n arbitrary: i res)
  case (Suc n)
  show ?case
    using upt_conv_Cons [of "Suc i" "Suc i + Suc n"]
      Suc.IH [of "Suc i" "res @ evp_block L pwd (Suc i)"]
    by (simp add: Let_def del: upt_Suc)
qed simp

lemma bytes_to_key_loop_evp:
  "bytes_to_key_loop L pwd n (Md5Digest []) [] [] = evp_stream L pwd n"
proof (cases n)
  case (Suc m)
  have "[0..<n] = 0 # [Suc 0..<Suc 0 + m]"
    using Suc upt_conv_Cons [of 0 "Suc m"] by simp
  with Suc bytes_to_key_loop_Suc [of L pwd m 0] show ?thesis
    by (simp add: Let_def evp_stream_def del: upt_Suc)
qed (simp add: evp_stream_def)

text \<open>
  An instance of the libraries, on which the definitions can be evaluated: a toy digest, a byte
  shift for the ciphers, a constant tag.
\<close>

definition sample_seal :: "bytes \<Rightarrow> bytes \<Rightarrow> bytes \<Rightarrow> bytes" where
  "sample_seal key nonce data =
     map (\<lambda>b. b + of_nat (sum_list (map unat nonce)) + 1) data @ replicate 16 (of_nat (length data))"

definition sample_open :: "bytes \<Rightarrow> bytes \<Rightarrow> bytes \<Rightarrow> bytes option" where
  "sample_open key nonce data =
     (let n = length data - 16;
          plain = map (\<lambda>b. b - of_nat (sum_list (map unat nonce)) - 1) (take n data)
      in if sample_seal key nonce plain = data then Some plain else None)"

definition sample_keystream :: "nat \<Rightarrow> nat \<Rightarrow> bytes" where
  "sample_keystream ic n = map (\<lambda>i. of_nat (ic * 64 + i)) [0..<n]"

definition sample_lib :: "CryptoMode crypto_lib" where
  "sample_lib =
     \<lparr>lib_md5 = \<lambda>x. replicate 16 (of_nat (length x)),
      lib_sha1 = \<lambda>x. replicate 20 (of_nat (length x)),
      md5_output_size = 16,
      ossl_from_nid = \<lambda>n. Some (OSSL_of_nid n),
      ossl_key_len = \<lambda>_. 16,
      ossl_iv_len = \<lambda>c. if c = OSSL_rc4 then None else Some 16,
      ossl_block_size = \<lambda>_. 1,
      crypter_new = \<lambda>_ mode _ _. Some mode,
      crypter_update = \<lambda>c x. Inr (map (\<lambda>b. if c = Encrypt then b + 1 else b - 1) x, c),
      crypter_finalize = \<lambda>c. Inr ([], c),
      ring_key_len = \<lambda>a. case a of AES_128_GCM \<Rightarrow> 16 | _ \<Rightarrow> 32,
      ring_nonce_len = \<lambda>_. 12,
      ring_tag_len = \<lambda>_. 16,
      ring_seal = \<lambda>_. sample_seal,
      ring_open = \<lambda>_. sample_open,
      sodium_xor_ic = \<lambda>_ _ _ ic x. Some (map2 (\<lambda>a b. xor a b) x (sample_keystream ic (length x))),
      xchacha_encrypt = sample_seal,
      xchacha_decrypt = sample_open,
      siv_encrypt = \<lambda>_ k n x. rotate (length x) (sample_seal k n x),
      siv_decrypt = \<lambda>_ k n x. sample_open k n (rotate 16 x),
      hkdf_sha1 = \<lambda>salt key info n. Some (replicate n (of_nat (length salt + length key))),
      feature_sodium = False,
      sodium_increment = \<lambda>n. n\<rparr>"

lemma sample_lib_simps [simp]:
  "lib_md5 sample_lib x = replicate 16 (of_nat (length x))"
  "md5_output_size sample_lib = 16"
  "ossl_from_nid sample_lib n = Some (OSSL_of_nid n)"
  "ossl_key_len sample_lib c = 16"
  "ossl_iv_len sample_lib c = (if c = OSSL_rc4 then None else Some 16)"
  "ossl_block_size sample_lib c = 1"
  "crypter_new sample_lib c mode k iv = Some mode"
  "crypter_update sample_lib m x = Inr (map (\<lambda>b. if m = Encrypt then b + 1 else b - 1) x, m)"
  "crypter_finalize sample_lib m = Inr ([], m)"
  "ring_key_len sample_lib ra = (case ra of AES_128_GCM \<Rightarrow> 16 | _ \<Rightarrow> 32)"
  "ring_nonce_len sample_lib a = 12"
  "ring_tag_len sample_lib a = 16"
  "ring_seal sample_lib a = sample_seal"
  "ring_open sample_lib a = sample_open"
  "sodium_xor_ic sample_lib sa iv k ic x = Some (map2 (\<lambda>a b. xor a b) x (sample_keystream ic (length x)))"
  "xchacha_encrypt sample_lib = sample_seal"
  "xchacha_decrypt sample_lib = sample_open"
  "siv_encrypt sample_lib v k nonce x = rotate (length x) (sample_seal k nonce x)"
  "siv_decrypt sample_lib v k nonce x = sample_open k nonce (rotate 16 x)"
  "hkdf_sha1 sample_lib salt k info len = Some (replicate len (of_nat (length salt + length k)))"
  "feature_sodium sample_lib = False"
  by (simp_all add: sample_lib_def)

lemma sample_lib_ok:
  "digest_lib_ok sample_lib" "ring_sizes_ok sample_lib" "openssl_rc4_ok sample_lib"
  by (simp_all add: digest_lib_ok_def ring_sizes_ok_def openssl_rc4_ok_def)

section \<open>Properties\<close>

text \<open>
  C32. The key of a method is a prefix of the \<^verbatim>\<open>EVP_BytesToKey\<close> stream of the password: it has exactly
  the method's key size, and neither the initialisation vector size nor the number of digest
  rounds influences it.
\<close>

theorem bytes_to_key_evp:
  assumes "digest_lib_ok L" and "iv_size L t = Ret iv_len" and "key_size L t = Ret key_len"
    and "key_len \<le> 16 * n"
  shows "bytes_to_key L t pwd = Ret (take key_len (evp_stream L pwd n))
       \<and> length (take key_len (evp_stream L pwd n)) = key_len"
proof -
  have size: "md5_output_size L = 16" using assms(1) by (simp add: digest_lib_ok_def)
  have "take key_len (evp_stream L pwd ((key_len + iv_len + 16 - 1) div 16)) =
        take key_len (evp_stream L pwd n)"
    using assms by (intro evp_stream_take_eq) auto
  then show ?thesis
    using assms length_evp_stream [OF assms(1), of pwd n]
    by (auto simp: bytes_to_key_def classic_bytes_to_key_def size bytes_to_key_loop_evp Let_def)
qed

theorem bytes_to_key_evp_witness:
  "bytes_to_key sample_lib ChaCha20 [1, 2] = Ret (replicate 16 2 @ replicate 16 18)"
proof -
  have "evp_stream sample_lib [1, 2] 2 = replicate 16 2 @ replicate 16 18"
    by (simp add: evp_stream_def numeral_2_eq_2)
  then show ?thesis
    using bytes_to_key_evp [of sample_lib ChaCha20 8 32 2 "[1, 2]"] by (simp add: sample_lib_ok)
qed

lemma if_Inr_cases:
  assumes "(if P then Inr a else r) = Inr t"
  obtains (yes) P "t = a" | (no) "r = Inr t"
proof (cases P)
  case True
  with assms have "t = a" by simp
  with True show thesis by (rule yes)
next
  case False
  with assms have "r = Inr t" by simp
  then show thesis by (rule no)
qed

lemma CipherType_parse_display [simp]: "CipherType_from_str (CipherType_display t) = Inr t"
  by (cases t) (simp_all add: CipherType_from_str_def)

text \<open>
  Every method's name is read back as the method, and no other text than a method's name is
  accepted, except the empty one, which stands for \<^verbatim>\<open>table\<close>.
\<close>

lemma CipherType_name_round_trip:
  "CipherType_from_str (CipherType_display t) = Inr t
   \<and> (CipherType_from_str s = Inr t \<longleftrightarrow> s = CipherType_display t \<or> s = [] \<and> t = Table)"
proof -
  have "s = CipherType_display t \<or> s = [] \<and> t = Table" if "CipherType_from_str s = Inr t" for s t
    using that unfolding CipherType_from_str_def
    by (elim if_Inr_cases) simp_all
  moreover have "CipherType_from_str [] = Inr Table"
    by (simp add: CipherType_from_str_def)
  ultimately show ?thesis
    using CipherType_parse_display by metis
qed

text \<open>
  The methods divide into stream methods, whose tag and salt sizes are not defined (asking for
  them panics), and AEAD methods, with a 16 byte tag and a salt as long as the key, at most 64
  bytes.
\<close>

lemma cipher_sizes:
  assumes "ring_sizes_ok L"
  shows "case category t of
           StreamCategory \<Rightarrow> tag_size L t = Panic \<and> salt_size L t = Panic
         | AeadCategory \<Rightarrow> \<exists>k. key_size L t = Ret k \<and> salt_size L t = Ret k \<and> tag_size L t = Ret 16
                             \<and> k \<in> {16, 32, 64}"
  using assms
  by (cases t) (simp_all add: tag_size_def salt_size_def rust_assert_def ring_sizes_ok_def)

lemma cipher_sizes_witness:
  "\<exists>k. key_size sample_lib Aes256PmacSiv = Ret k \<and> salt_size sample_lib Aes256PmacSiv = Ret k
     \<and> tag_size sample_lib Aes256PmacSiv = Ret 16 \<and> k \<in> {16, 32, 64}"
  using cipher_sizes [of sample_lib Aes256PmacSiv]
  by (simp add: sample_lib_ok)

text \<open>
  The table method derives an empty key from every password, so that all passwords give the
  same substitution table; and deriving a key for RC4 panics, as its initialisation vector size is
  asked for although OpenSSL reports none.
\<close>

lemma degenerate_keys:
  "bytes_to_key L Table pwd = Ret []
   \<and> (openssl_rc4_ok L \<longrightarrow> bytes_to_key L Rc4 pwd = Panic)"
  by (simp add: bytes_to_key_def classic_bytes_to_key_def openssl_rc4_ok_def)

lemma degenerate_keys_witness: "bytes_to_key sample_lib Rc4 [1] = Panic"
  using degenerate_keys [of sample_lib "[1]"] by (simp add: sample_lib_ok)

end
