(* ===== verification/Aead_Cipher.thy ===== *)
theory Aead_Cipher
  imports Cipher_Type
begin

text \<open>
  The AEAD ciphers of \<^verbatim>\<open>src/crypto/\<close>: session keys and nonces (\<^verbatim>\<open>aead.rs\<close>), the ciphers of ring
  (\<^verbatim>\<open>ring.rs\<close>), libsodium (\<^verbatim>\<open>sodium.rs\<close>) and miscreant (\<^verbatim>\<open>siv.rs\<close>) and their constructors. A
  \<^verbatim>\<open>BoxAeadEncryptor\<close> or \<^verbatim>\<open>BoxAeadDecryptor\<close> is a value of \<open>AeadBox\<close>; the slice an operation fills is
  the result, and its length an argument. The locale \<open>aead_pair\<close> is the interface of an encryptor
  and a decryptor that use the same nonces in the same order.
\<close>

section \<open>Session keys and nonces\<close>

definition SUBKEY_INFO :: bytes where "SUBKEY_INFO = as_bytes ''ss-subkey''"

definition make_skey :: "'c crypto_lib \<Rightarrow> CipherType \<Rightarrow> bytes \<Rightarrow> bytes \<Rightarrow> bytes rust" where
  "make_skey L t key salt =
     rust_assert (category t = AeadCategory) (expect (hkdf_sha1 L salt key SUBKEY_INFO (length key)))"

text \<open>\<^verbatim>\<open>increase_nonce\<close> without libsodium.\<close>

primrec increase_nonce_portable :: "bytes \<Rightarrow> bytes" where
  "increase_nonce_portable [] = []"
| "increase_nonce_portable (i # nonce) =
     (if i = 255 then 0 # increase_nonce_portable nonce else (i + 1) # nonce)"

definition increase_nonce :: "'c crypto_lib \<Rightarrow> bytes \<Rightarrow> bytes" where
  "increase_nonce L nonce =
     (if feature_sodium L then sodium_increment L nonce else increase_nonce_portable nonce)"

section \<open>ring\<close>

definition NONCE_LEN :: nat where "NONCE_LEN = 12"

record RingAeadCipher =
  rac_alg :: ring_alg
  rac_key :: bytes
  rac_nonce :: bytes
  rac_is_seal :: bool
  rac_type :: CipherType

fun ring_alg_of :: "CipherType \<Rightarrow> ring_alg rust" where
  "ring_alg_of Aes128Gcm = Ret AES_128_GCM"
| "ring_alg_of Aes256Gcm = Ret AES_256_GCM"
| "ring_alg_of ChaCha20IetfPoly1305 = Ret CHACHA20_POLY1305"
| "ring_alg_of _ = Panic"

text \<open>\<^verbatim>\<open>UnboundKey::new\<close> rejects a key of the wrong length, which is unwrapped.\<close>

definition RingAeadCipher_new ::
    "'c crypto_lib \<Rightarrow> CipherType \<Rightarrow> bytes \<Rightarrow> bytes \<Rightarrow> bool \<Rightarrow> RingAeadCipher rust" where
  "RingAeadCipher_new L t key salt is_seal =
     rust_bind (iv_size L t) (\<lambda>n. rust_assert (n = NONCE_LEN)
       (rust_bind (make_skey L t key salt) (\<lambda>skey.
        rust_bind (ring_alg_of t) (\<lambda>alg.
          rust_assert (length skey = ring_key_len L alg)
            (Ret \<lparr>rac_alg = alg, rac_key = skey, rac_nonce = replicate NONCE_LEN 0,
                  rac_is_seal = is_seal, rac_type = t\<rparr>)))))"

text \<open>The nonce sequence hands out the current nonce and advances, whether or not the tag verifies.\<close>

definition RingAeadNonceSequence_advance :: "'c crypto_lib \<Rightarrow> bytes \<Rightarrow> bytes \<times> bytes" where
  "RingAeadNonceSequence_advance L nonce = (nonce, increase_nonce L nonce)"

definition RingAeadCipher_encrypt ::
    "'c crypto_lib \<Rightarrow> RingAeadCipher \<Rightarrow> bytes \<Rightarrow> nat \<Rightarrow> (bytes \<times> RingAeadCipher) rust" where
  "RingAeadCipher_encrypt L c input output_len =
     rust_bind (tag_size L (rac_type c)) (\<lambda>tag_len.
       let buf_len = length input + tag_len in
       rust_assert (output_len = buf_len \<and> rac_is_seal c)
         (let (nonce, next) = RingAeadNonceSequence_advance L (rac_nonce c);
              buf = ring_seal L (rac_alg c) (rac_key c) nonce input
          in rust_assert (buf_len \<le> length buf) (Ret (take buf_len buf, c\<lparr>rac_nonce := next\<rparr>))))"

definition RingAeadCipher_decrypt ::
    "'c crypto_lib \<Rightarrow> RingAeadCipher \<Rightarrow> bytes \<Rightarrow> nat \<Rightarrow> ((cipher_error + bytes) \<times> RingAeadCipher) rust" where
  "RingAeadCipher_decrypt L c input output_len =
     rust_bind (tag_size L (rac_type c)) (\<lambda>tag_len.
       rust_assert (output_len + tag_len = length input \<and> \<not> rac_is_seal c)
         (let (nonce, next) = RingAeadNonceSequence_advance L (rac_nonce c); c = c\<lparr>rac_nonce := next\<rparr>
          in case ring_open L (rac_alg c) (rac_key c) nonce input of
               Some obuf \<Rightarrow> rust_assert (length obuf = output_len) (Ret (Inr obuf, c))
             | None \<Rightarrow> Ret (Inl AeadDecryptFailed, c)))"

section \<open>libsodium\<close>

record SodiumAeadCipher =
  sac_type :: CipherType
  sac_key :: bytes
  sac_nonce :: bytes

definition SodiumAeadCipher_new ::
    "'c crypto_lib \<Rightarrow> CipherType \<Rightarrow> bytes \<Rightarrow> bytes \<Rightarrow> SodiumAeadCipher rust" where
  "SodiumAeadCipher_new L t key salt =
     rust_bind (iv_size L t) (\<lambda>nonce_size.
     rust_bind (make_skey L t key salt) (\<lambda>skey.
       Ret \<lparr>sac_type = t, sac_key = skey, sac_nonce = replicate nonce_size 0\<rparr>))"

definition SodiumAeadCipher_reset :: "'c crypto_lib \<Rightarrow> SodiumAeadCipher \<Rightarrow> SodiumAeadCipher" where
  "SodiumAeadCipher_reset L c = c\<lparr>sac_nonce := increase_nonce L (sac_nonce c)\<rparr>"

definition SodiumAeadCipher_encrypt ::
    "'c crypto_lib \<Rightarrow> SodiumAeadCipher \<Rightarrow> bytes \<Rightarrow> nat \<Rightarrow> (bytes \<times> SodiumAeadCipher) rust" where
  "SodiumAeadCipher_encrypt L c input output_len =
     rust_bind (tag_size L (sac_type c)) (\<lambda>tag_len.
       let buf_len = length input + tag_len in
       rust_assert (buf_len \<le> output_len \<and> sac_type c = XChaCha20IetfPoly1305)
         (let output = xchacha_encrypt L (sac_key c) (sac_nonce c) input
          in rust_assert (length output = output_len) (Ret (output, SodiumAeadCipher_reset L c))))"

definition SodiumAeadCipher_decrypt ::
    "'c crypto_lib \<Rightarrow> SodiumAeadCipher \<Rightarrow> bytes \<Rightarrow> nat \<Rightarrow> ((cipher_error + bytes) \<times> SodiumAeadCipher) rust" where
  "SodiumAeadCipher_decrypt L c input output_len =
     rust_bind (tag_size L (sac_type c)) (\<lambda>tag_len.
       rust_assert (tag_len \<le> length input \<and> length input - tag_len \<le> output_len
                    \<and> sac_type c = XChaCha20IetfPoly1305)
         (let c' = SodiumAeadCipher_reset L c
          in case xchacha_decrypt L (sac_key c) (sac_nonce c) input of
               None \<Rightarrow> Ret (Inl SodiumError, c')
             | Some output \<Rightarrow>
                 if length output \<noteq> output_len then Ret (Inl SodiumError, c')
                 else Ret (Inr output, c')))"

section \<open>miscreant\<close>

record MiscreantCipher =
  mc_type :: CipherType
  mc_alg :: siv_alg
  mc_key :: bytes
  mc_nonce :: bytes

definition MiscreantCipher_new_variant :: "CipherType \<Rightarrow> bytes \<Rightarrow> (siv_alg \<times> bytes) rust" where
  "MiscreantCipher_new_variant t key =
     (case t of
        Aes128PmacSiv \<Rightarrow> rust_assert (length key = 32) (Ret (Aes128PmacSivAead, key))
      | Aes256PmacSiv \<Rightarrow> rust_assert (length key = 64) (Ret (Aes256PmacSivAead, key))
      | _ \<Rightarrow> Panic)"

definition MiscreantCipher_new ::
    "'c crypto_lib \<Rightarrow> CipherType \<Rightarrow> bytes \<Rightarrow> bytes \<Rightarrow> MiscreantCipher rust" where
  "MiscreantCipher_new L t key salt =
     rust_bind (iv_size L t) (\<lambda>nonce_size.
     rust_bind (make_skey L t key salt) (\<lambda>skey.
     rust_bind (MiscreantCipher_new_variant t skey) (\<lambda>(alg, k).
       Ret \<lparr>mc_type = t, mc_alg = alg, mc_key = k, mc_nonce = replicate nonce_size 0\<rparr>)))"

text \<open>miscreant puts the tag in front of the text; the output has it behind.\<close>

definition MiscreantCipher_encrypt ::
    "'c crypto_lib \<Rightarrow> MiscreantCipher \<Rightarrow> bytes \<Rightarrow> nat \<Rightarrow> (bytes \<times> MiscreantCipher) rust" where
  "MiscreantCipher_encrypt L c input output_len =
     rust_bind (tag_size L (mc_type c)) (\<lambda>tag_len.
       let buf = siv_encrypt L (mc_alg c) (mc_key c) (mc_nonce c) input;
           text = drop tag_len buf; tag = take tag_len buf
       in rust_assert (length text = length input \<and> length input + length tag = output_len)
            (Ret (text @ tag, c\<lparr>mc_nonce := increase_nonce L (mc_nonce c)\<rparr>)))"

definition MiscreantCipher_decrypt ::
    "'c crypto_lib \<Rightarrow> MiscreantCipher \<Rightarrow> bytes \<Rightarrow> nat \<Rightarrow> ((cipher_error + bytes) \<times> MiscreantCipher) rust" where
  "MiscreantCipher_decrypt L c input output_len =
     rust_bind (tag_size L (mc_type c)) (\<lambda>tag_size.
       rust_assert (tag_size \<le> length input)
         (let text_len = length input - tag_size;
              buf = drop text_len input @ take text_len input
          in case siv_decrypt L (mc_alg c) (mc_key c) (mc_nonce c) buf of
               Some out \<Rightarrow> rust_assert (length out = output_len)
                 (Ret (Inr out, c\<lparr>mc_nonce := increase_nonce L (mc_nonce c)\<rparr>))
             | None \<Rightarrow> Ret (Inl AeadDecryptFailed, c)))"

section \<open>Boxed AEAD ciphers\<close>

datatype AeadBox = RingBox RingAeadCipher | SodiumAeadBox SodiumAeadCipher | MiscreantBox MiscreantCipher

definition new_aead ::
    "'c crypto_lib \<Rightarrow> CipherType \<Rightarrow> bytes \<Rightarrow> bytes \<Rightarrow> bool \<Rightarrow> AeadBox rust" where
  "new_aead L t key nonce is_seal =
     rust_assert (category t = AeadCategory)
       (if t \<in> {Aes128Gcm, Aes256Gcm, ChaCha20IetfPoly1305}
        then rust_bind (RingAeadCipher_new L t key nonce is_seal) (\<lambda>c. Ret (RingBox c))
        else if t = XChaCha20IetfPoly1305
        then rust_bind (SodiumAeadCipher_new L t key nonce) (\<lambda>c. Ret (SodiumAeadBox c))
        else if t \<in> {Aes128PmacSiv, Aes256PmacSiv}
        then rust_bind (MiscreantCipher_new L t key nonce) (\<lambda>c. Ret (MiscreantBox c))
        else Panic)"

definition new_aead_encryptor :: "'c crypto_lib \<Rightarrow> CipherType \<Rightarrow> bytes \<Rightarrow> bytes \<Rightarrow> AeadBox rust" where
  "new_aead_encryptor L t key nonce = new_aead L t key nonce True"

definition new_aead_decryptor :: "'c crypto_lib \<Rightarrow> CipherType \<Rightarrow> bytes \<Rightarrow> bytes \<Rightarrow> AeadBox rust" where
  "new_aead_decryptor L t key nonce = new_aead L t key nonce False"

primrec aead_encrypt :: "'c crypto_lib \<Rightarrow> AeadBox \<Rightarrow> bytes \<Rightarrow> nat \<Rightarrow> (bytes \<times> AeadBox) rust" where
  "aead_encrypt L (RingBox c) input n =
     rust_bind (RingAeadCipher_encrypt L c input n) (\<lambda>(out, c). Ret (out, RingBox c))"
| "aead_encrypt L (SodiumAeadBox c) input n =
     rust_bind (SodiumAeadCipher_encrypt L c input n) (\<lambda>(out, c). Ret (out, SodiumAeadBox c))"
| "aead_encrypt L (MiscreantBox c) input n =
     rust_bind (MiscreantCipher_encrypt L c input n) (\<lambda>(out, c). Ret (out, MiscreantBox c))"

primrec aead_decrypt ::
    "'c crypto_lib \<Rightarrow> AeadBox \<Rightarrow> bytes \<Rightarrow> nat \<Rightarrow> ((cipher_error + bytes) \<times> AeadBox) rust" where
  "aead_decrypt L (RingBox c) input n =
     rust_bind (RingAeadCipher_decrypt L c input n) (\<lambda>(out, c). Ret (out, RingBox c))"
| "aead_decrypt L (SodiumAeadBox c) input n =
     rust_bind (SodiumAeadCipher_decrypt L c input n) (\<lambda>(out, c). Ret (out, SodiumAeadBox c))"
| "aead_decrypt L (MiscreantBox c) input n =
     rust_bind (MiscreantCipher_decrypt L c input n) (\<lambda>(out, c). Ret (out, MiscreantBox c))"

section \<open>Nonces as little-endian counters\<close>

primrec le_value :: "bytes \<Rightarrow> nat" where
  "le_value [] = 0"
| "le_value (b # bs) = unat b + 256 * le_value bs"

lemma le_value_less: "le_value n < 256 ^ length n"
proof (induction n)
  case (Cons b n)
  then have "le_value n + 1 \<le> 256 ^ length n" by simp
  then have "256 * (le_value n + 1) \<le> 256 * 256 ^ length n" by (rule mult_le_mono2)
  moreover have "le_value (b # n) < 256 * (le_value n + 1)"
    by simp
  ultimately have "le_value (b # n) < 256 * 256 ^ length n"
    by (rule less_le_trans [rotated])
  then show ?case by simp
qed simp

lemma le_value_inj: "\<lbrakk>length m = length n; le_value m = le_value n\<rbrakk> \<Longrightarrow> m = n"
proof (induction m n rule: list_induct2)
  case (Cons a m b n)
  then have "unat a + 256 * le_value m = unat b + 256 * le_value n" by simp
  moreover have "(unat a + 256 * le_value m) mod 256 = unat a" "(unat b + 256 * le_value n) mod 256 = unat b"
    using unat_u8_bound [of a] unat_u8_bound [of b] by simp_all
  ultimately have "unat a = unat b" by metis
  with Cons show ?case by (simp add: word_unat_eq_iff)
qed simp

lemma length_increase_nonce_portable [simp]: "length (increase_nonce_portable n) = length n"
  by (induction n) simp_all

lemma unat_Suc_u8: "b \<noteq> 255 \<Longrightarrow> unat (b + 1 :: u8) = unat b + 1"
proof -
  assume "b \<noteq> 255"
  then have "unat b \<noteq> unat (255 :: u8)" by (simp only: word_unat_eq_iff not_False_eq_True)
  then have "unat b \<noteq> 255" by simp
  then have "unat b + 1 < 256" using unat_u8_bound [of b] by linarith
  then show ?thesis by (simp add: unat_word_ariths)
qed

lemma le_value_increase:
  "le_value (increase_nonce_portable n) = (le_value n + 1) mod 256 ^ length n"
proof (induction n)
  case (Cons b n)
  show ?case
  proof (cases "b = 255")
    case True
    then have "le_value (increase_nonce_portable (b # n)) = 256 * ((le_value n + 1) mod 256 ^ length n)"
      using Cons.IH by simp
    also have "\<dots> = (256 * (le_value n + 1)) mod (256 * 256 ^ length n)"
      by (simp add: mult_mod_right)
    also have "256 * (le_value n + 1) = le_value (b # n) + 1"
    proof -
      have "unat b = 255" using True by simp
      then show ?thesis by (simp only: le_value.simps) simp
    qed
    finally show ?thesis by simp
  next
    case False
    then have "le_value (b # n) + 1 = le_value (increase_nonce_portable (b # n))"
      by (simp add: unat_Suc_u8)
    moreover have "\<dots> < 256 ^ length (b # n)"
      using le_value_less [of "increase_nonce_portable (b # n)"] False by simp
    ultimately show ?thesis by (metis mod_less)
  qed
qed simp

lemma le_value_increase_funpow:
  "le_value ((increase_nonce_portable ^^ k) n) = (le_value n + k) mod 256 ^ length n
   \<and> length ((increase_nonce_portable ^^ k) n) = length n"
  by (induction k) (auto simp: le_value_increase mod_Suc_eq le_value_less)

text \<open>
  libsodium, when it is used, documents \<^verbatim>\<open>sodium_increment\<close> as the increment of a little-endian number.
\<close>

definition sodium_increment_ok :: "'c crypto_lib \<Rightarrow> bool" where
  "sodium_increment_ok L \<longleftrightarrow> feature_sodium L \<longrightarrow>
     (\<forall>n. length (sodium_increment L n) = length n
        \<and> le_value (sodium_increment L n) = (le_value n + 1) mod 256 ^ length n)"

lemma increase_nonce_portable_eq:
  "sodium_increment_ok L \<Longrightarrow> increase_nonce L = increase_nonce_portable"
  by (rule ext) (auto simp: increase_nonce_def sodium_increment_ok_def le_value_increase intro: le_value_inj)

section \<open>The interface of an encryptor and a decryptor\<close>

text \<open>
  \<open>synced e d\<close>: the two ciphers have the same key and the same next nonce. The decryptor accepts
  exactly what the encryptor would send next.
\<close>

primrec thread :: "('s \<Rightarrow> bytes \<Rightarrow> (bytes \<times> 's) option) \<Rightarrow> 's \<Rightarrow> bytes list \<Rightarrow> (bytes list \<times> 's) option" where
  "thread f s [] = Some ([], s)"
| "thread f s (x # xs) =
     (case f s x of
        None \<Rightarrow> None
      | Some (y, s') \<Rightarrow> map_option (\<lambda>(ys, s''). (y # ys, s'')) (thread f s' xs))"

locale aead_pair =
  fixes enc :: "'e \<Rightarrow> bytes \<Rightarrow> (bytes \<times> 'e) option"
    and dec :: "'d \<Rightarrow> bytes \<Rightarrow> (bytes \<times> 'd) option"
    and synced :: "'e \<Rightarrow> 'd \<Rightarrow> bool"
    and tag :: nat
  assumes enc_dec: "synced e d \<Longrightarrow>
      \<exists>y e' d'. enc e x = Some (y, e') \<and> length y = length x + tag \<and> dec d y = Some (x, d') \<and> synced e' d'"
    and dec_enc: "\<lbrakk>synced e d; dec d y = Some (x, d')\<rbrakk> \<Longrightarrow> \<exists>e'. enc e x = Some (y, e')"
begin

lemma enc_obtain:
  assumes "synced e d"
  obtains y e' d' where "enc e x = Some (y, e')" "length y = length x + tag" "dec d y = Some (x, d')"
    "synced e' d'"
  using enc_dec [OF assms, of x] by blast

lemma thread_enc_dec:
  "synced e d \<Longrightarrow> \<exists>ys e' d'. thread enc e ms = Some (ys, e') \<and> map length ys = map (\<lambda>m. length m + tag) ms
     \<and> thread dec d ys = Some (ms, d') \<and> synced e' d'"
proof (induction ms arbitrary: e d)
  case (Cons m ms)
  obtain y e1 d1 where y: "enc e m = Some (y, e1)" "length y = length m + tag" "dec d y = Some (m, d1)"
      "synced e1 d1"
    using enc_obtain [OF Cons.prems] by blast
  from Cons.IH [OF y(4)] obtain ys e2 d2 where "thread enc e1 ms = Some (ys, e2)"
      "map length ys = map (\<lambda>m. length m + tag) ms" "thread dec d1 ys = Some (ms, d2)" "synced e2 d2"
    by blast
  with y show ?case by simp
qed simp

lemma dec_other_None: "\<lbrakk>synced e d; enc e x = Some (y, e'); y' \<noteq> y; dec d y' = Some (x', d')\<rbrakk> \<Longrightarrow> x' \<noteq> x"
  using dec_enc by fastforce

end

section \<open>The boxed ciphers implement the interface\<close>

text \<open>
  What the sources rely on of an AEAD algorithm of a library, given by its sealing and opening
  functions with key and nonce: sealing adds the tag, opening undoes sealing, and only a sealed
  text opens.
\<close>

definition aead_fun_ok ::
    "(bytes \<Rightarrow> bytes \<Rightarrow> bytes \<Rightarrow> bytes) \<Rightarrow> (bytes \<Rightarrow> bytes \<Rightarrow> bytes \<Rightarrow> bytes option) \<Rightarrow> bool" where
  "aead_fun_ok seal open \<longleftrightarrow>
     (\<forall>key nonce data. length (seal key nonce data) = length data + 16
        \<and> open key nonce (seal key nonce data) = Some data)
   \<and> (\<forall>key nonce data text. open key nonce text = Some data \<longrightarrow> seal key nonce data = text)"

definition aead_lib_ok :: "'c crypto_lib \<Rightarrow> bool" where
  "aead_lib_ok L \<longleftrightarrow> ring_sizes_ok L
     \<and> (\<forall>a. aead_fun_ok (ring_seal L a) (ring_open L a))
     \<and> aead_fun_ok (xchacha_encrypt L) (xchacha_decrypt L)
     \<and> (\<forall>a. aead_fun_ok (siv_encrypt L a) (siv_decrypt L a))
     \<and> (\<forall>salt key info n. n \<le> 255 * 20 \<longrightarrow> (\<exists>k. hkdf_sha1 L salt key info n = Some k \<and> length k = n))"

abbreviation TAG_LEN :: nat where "TAG_LEN \<equiv> 16"

definition aead_seal :: "'c crypto_lib \<times> AeadBox \<Rightarrow> bytes \<Rightarrow> (bytes \<times> 'c crypto_lib \<times> AeadBox) option" where
  "aead_seal s x =
     (case aead_encrypt (fst s) (snd s) x (length x + TAG_LEN) of
        Ret (y, b) \<Rightarrow> Some (y, fst s, b) | Panic \<Rightarrow> None)"

definition aead_open :: "'c crypto_lib \<times> AeadBox \<Rightarrow> bytes \<Rightarrow> (bytes \<times> 'c crypto_lib \<times> AeadBox) option" where
  "aead_open s y =
     (if length y < TAG_LEN then None
      else case aead_decrypt (fst s) (snd s) y (length y - TAG_LEN) of
             Ret (Inr x, b) \<Rightarrow> Some (x, fst s, b) | _ \<Rightarrow> None)"

fun box_in_step :: "AeadBox \<Rightarrow> AeadBox \<Rightarrow> bool" where
  "box_in_step (RingBox e) (RingBox d) \<longleftrightarrow>
     rac_is_seal e \<and> d = e\<lparr>rac_is_seal := False\<rparr> \<and> ring_alg_of (rac_type e) \<noteq> Panic"
| "box_in_step (SodiumAeadBox e) (SodiumAeadBox d) \<longleftrightarrow> d = e \<and> sac_type e = XChaCha20IetfPoly1305"
| "box_in_step (MiscreantBox e) (MiscreantBox d) \<longleftrightarrow> d = e \<and> mc_type e \<in> {Aes128PmacSiv, Aes256PmacSiv}"
| "box_in_step _ _ \<longleftrightarrow> False"

definition aead_synced :: "'c crypto_lib \<times> AeadBox \<Rightarrow> 'c crypto_lib \<times> AeadBox \<Rightarrow> bool" where
  "aead_synced e d \<longleftrightarrow> fst e = fst d \<and> aead_lib_ok (fst e) \<and> box_in_step (snd e) (snd d)"

lemma tag_size_ok:
  "\<lbrakk>ring_sizes_ok L; category t = AeadCategory\<rbrakk> \<Longrightarrow> tag_size L t = Ret TAG_LEN"
  by (cases t) (simp_all add: tag_size_def rust_assert_def ring_sizes_ok_def)

lemma ring_alg_category: "ring_alg_of t \<noteq> Panic \<Longrightarrow> category t = AeadCategory"
  by (cases t) simp_all

lemma ring_step:
  fixes x :: bytes
  assumes "aead_lib_ok L" and "box_in_step (RingBox e) (RingBox d)"
  defines "y \<equiv> ring_seal L (rac_alg e) (rac_key e) (rac_nonce e) x"
    and "next \<equiv> increase_nonce L (rac_nonce e)"
  shows "aead_encrypt L (RingBox e) x (length x + TAG_LEN) = Ret (y, RingBox (e\<lparr>rac_nonce := next\<rparr>))"
    and "aead_decrypt L (RingBox d) y (length x) = Ret (Inr x, RingBox (d\<lparr>rac_nonce := next\<rparr>))"
    and "length y = length x + TAG_LEN"
  using assms tag_size_ok [of L "rac_type e"] ring_alg_category [of "rac_type e"]
  by (auto simp: aead_lib_ok_def aead_fun_ok_def RingAeadCipher_encrypt_def RingAeadCipher_decrypt_def
      RingAeadNonceSequence_advance_def rust_assert_def Let_def)

lemma sodium_step:
  fixes x :: bytes
  assumes "aead_lib_ok L" and "box_in_step (SodiumAeadBox e) (SodiumAeadBox d)"
  defines "y \<equiv> xchacha_encrypt L (sac_key e) (sac_nonce e) x"
  shows "aead_encrypt L (SodiumAeadBox e) x (length x + TAG_LEN) = Ret (y, SodiumAeadBox (SodiumAeadCipher_reset L e))"
    and "aead_decrypt L (SodiumAeadBox d) y (length x) = Ret (Inr x, SodiumAeadBox (SodiumAeadCipher_reset L e))"
    and "length y = length x + TAG_LEN"
  using assms tag_size_ok [of L XChaCha20IetfPoly1305]
  by (auto simp: aead_lib_ok_def aead_fun_ok_def SodiumAeadCipher_encrypt_def SodiumAeadCipher_decrypt_def
      rust_assert_def Let_def)

lemma miscreant_step:
  fixes x :: bytes
  assumes "aead_lib_ok L" and "box_in_step (MiscreantBox e) (MiscreantBox d)"
  defines "buf \<equiv> siv_encrypt L (mc_alg e) (mc_key e) (mc_nonce e) x"
  defines "y \<equiv> drop TAG_LEN buf @ take TAG_LEN buf"
    and "e' \<equiv> e\<lparr>mc_nonce := increase_nonce L (mc_nonce e)\<rparr>"
  shows "aead_encrypt L (MiscreantBox e) x (length x + TAG_LEN) = Ret (y, MiscreantBox e')"
    and "aead_decrypt L (MiscreantBox d) y (length x) = Ret (Inr x, MiscreantBox e')"
    and "length y = length x + TAG_LEN"
proof -
  have len: "length buf = length x + 16"
    using assms(1) by (simp add: aead_lib_ok_def aead_fun_ok_def buf_def)
  have tag: "tag_size L (mc_type e) = Ret TAG_LEN"
    using assms(1,2) tag_size_ok [of L "mc_type e"] by (auto simp: aead_lib_ok_def)
  have inv: "siv_decrypt L (mc_alg e) (mc_key e) (mc_nonce e) buf = Some x"
    using assms(1) by (simp add: aead_lib_ok_def aead_fun_ok_def buf_def)
  show "length y = length x + TAG_LEN" using len by (simp add: y_def)
  show "aead_encrypt L (MiscreantBox e) x (length x + TAG_LEN) = Ret (y, MiscreantBox e')"
    using len tag by (simp add: MiscreantCipher_encrypt_def Let_def rust_assert_def y_def e'_def
        flip: buf_def)
  show "aead_decrypt L (MiscreantBox d) y (length x) = Ret (Inr x, MiscreantBox e')"
    using len tag inv assms(2)
    by (simp add: MiscreantCipher_decrypt_def Let_def rust_assert_def y_def e'_def)
qed

lemma aead_seal_Some:
  "aead_seal s x = Some (y, s') \<longleftrightarrow>
     fst s' = fst s \<and> aead_encrypt (fst s) (snd s) x (length x + TAG_LEN) = Ret (y, snd s')"
  by (cases s') (auto simp: aead_seal_def split: rust.splits)

lemma aead_open_Some:
  "aead_open s y = Some (x, s') \<longleftrightarrow>
     TAG_LEN \<le> length y \<and> fst s' = fst s
     \<and> aead_decrypt (fst s) (snd s) y (length y - TAG_LEN) = Ret (Inr x, snd s')"
  by (cases s') (auto simp: aead_open_def split: rust.splits sum.splits)

lemma aead_box_enc_dec:
  assumes "aead_lib_ok L" and "box_in_step e d"
  shows "\<exists>y e' d'. aead_encrypt L e x (length x + TAG_LEN) = Ret (y, e') \<and> length y = length x + TAG_LEN
           \<and> aead_decrypt L d y (length x) = Ret (Inr x, d') \<and> box_in_step e' d'"
  using assms(2)
proof (cases "(e, d)" rule: box_in_step.cases)
  case (1 e0 d0)
  have "box_in_step (RingBox (e0\<lparr>rac_nonce := n\<rparr>)) (RingBox (d0\<lparr>rac_nonce := n\<rparr>))" for n
    using assms(2) 1 by simp
  then show ?thesis using ring_step [of L e0 d0 x] assms 1 by blast
next
  case (2 e0 d0)
  have "box_in_step (SodiumAeadBox (SodiumAeadCipher_reset L e0)) (SodiumAeadBox (SodiumAeadCipher_reset L e0))"
    using assms(2) 2 by (simp add: SodiumAeadCipher_reset_def)
  then show ?thesis using sodium_step [of L e0 d0 x] assms 2 by blast
next
  case (3 e0 d0)
  have "box_in_step (MiscreantBox (e0\<lparr>mc_nonce := n\<rparr>)) (MiscreantBox (e0\<lparr>mc_nonce := n\<rparr>))" for n
    using assms(2) 3 by simp
  then show ?thesis using miscreant_step [of L e0 d0 x] assms 3 by blast
qed simp_all

lemma miscreant_dec_enc:
  assumes "aead_lib_ok L" and "mc_type e \<in> {Aes128PmacSiv, Aes256PmacSiv}"
    and "MiscreantCipher_decrypt L e y (length y - TAG_LEN) = Ret (Inr x, e')" and "TAG_LEN \<le> length y"
  shows "\<exists>e'. MiscreantCipher_encrypt L e x (length x + TAG_LEN) = Ret (y, e')"
proof -
  let ?n = "length y - TAG_LEN"
  have tag: "tag_size L (mc_type e) = Ret TAG_LEN"
    using assms(1,2) tag_size_ok [of L "mc_type e"] by (auto simp: aead_lib_ok_def)
  have "siv_decrypt L (mc_alg e) (mc_key e) (mc_nonce e) (drop ?n y @ take ?n y) = Some x" "length x = ?n"
    using assms(3,4) tag
    by (auto simp: MiscreantCipher_decrypt_def rust_assert_def Let_def split: option.splits if_splits)
  moreover from this have "siv_encrypt L (mc_alg e) (mc_key e) (mc_nonce e) x = drop ?n y @ take ?n y"
    using assms(1) by (auto simp: aead_lib_ok_def aead_fun_ok_def)
  ultimately show ?thesis
    using tag assms(4) by (simp add: MiscreantCipher_encrypt_def rust_assert_def Let_def)
qed

lemma aead_box_dec_enc:
  assumes "aead_lib_ok L" and "box_in_step e d"
    and "aead_decrypt L d y (length y - TAG_LEN) = Ret (Inr x, d')" and "TAG_LEN \<le> length y"
  shows "\<exists>e'. aead_encrypt L e x (length x + TAG_LEN) = Ret (y, e')"
  using assms(2)
proof (cases "(e, d)" rule: box_in_step.cases)
  case (1 e0 d0)
  have "ring_open L (rac_alg e0) (rac_key e0) (rac_nonce e0) y = Some x"
    using assms 1 tag_size_ok [of L "rac_type e0"] ring_alg_category [of "rac_type e0"]
    by (auto simp: aead_lib_ok_def RingAeadCipher_decrypt_def RingAeadNonceSequence_advance_def
        rust_assert_def Let_def rust_bind_Ret_iff split: option.splits if_splits)
  then have "ring_seal L (rac_alg e0) (rac_key e0) (rac_nonce e0) x = y"
    using assms(1) by (auto simp: aead_lib_ok_def aead_fun_ok_def)
  with ring_step(1) [of L e0 d0 x] assms(1,2) 1 show ?thesis by auto
next
  case (2 e0 d0)
  have "xchacha_decrypt L (sac_key e0) (sac_nonce e0) y = Some x"
    using assms 2 tag_size_ok [of L XChaCha20IetfPoly1305]
    by (auto simp: aead_lib_ok_def SodiumAeadCipher_decrypt_def rust_assert_def Let_def rust_bind_Ret_iff
        split: option.splits if_splits)
  then have "xchacha_encrypt L (sac_key e0) (sac_nonce e0) x = y"
    using assms(1) by (auto simp: aead_lib_ok_def aead_fun_ok_def)
  with sodium_step(1) [of L e0 d0 x] assms(1,2) 2 show ?thesis by auto
next
  case (3 e0 d0)
  with assms show ?thesis
    using miscreant_dec_enc [of L e0 y x] by (fastforce simp: rust_bind_Ret_iff)
qed simp_all

interpretation aead_box: aead_pair aead_seal aead_open aead_synced TAG_LEN
proof
  show "\<exists>y e' d'. aead_seal e x = Some (y, e') \<and> length y = length x + TAG_LEN \<and> aead_open d y = Some (x, d')
      \<and> aead_synced e' d'"
    if "aead_synced e d" for x and e d :: "'a crypto_lib \<times> AeadBox"
    using that aead_box_enc_dec [of "fst d" "snd e" "snd d" x]
    by (auto simp: aead_synced_def aead_seal_Some aead_open_Some)
  show "\<exists>e'. aead_seal e x = Some (y, e')"
    if "aead_synced e d" "aead_open d y = Some (x, d')" for x y and e d d' :: "'a crypto_lib \<times> AeadBox"
    using that aead_box_dec_enc [of "fst d" "snd e" "snd d" y x]
    by (auto simp: aead_synced_def aead_seal_Some aead_open_Some)
qed

lemma new_aead_synced:
  assumes "aead_lib_ok L" and "new_aead_encryptor L t key salt = Ret e" and "new_aead_decryptor L t key salt = Ret d"
  shows "aead_synced (L, e) (L, d)"
  using assms
  by (auto simp: aead_synced_def new_aead_encryptor_def new_aead_decryptor_def new_aead_def rust_assert_def
      RingAeadCipher_new_def SodiumAeadCipher_new_def MiscreantCipher_new_def MiscreantCipher_new_variant_def
      rust_bind_Ret_iff split: if_splits)

lemma new_aead_total:
  assumes L: "aead_lib_ok L" and t: "category t = AeadCategory" and k: "key_size L t = Ret (length key)"
  shows "\<exists>b. new_aead L t key salt is_seal = Ret b"
proof -
  have "length key \<le> 255 * 20"
    using L t k by (cases t) (auto simp: aead_lib_ok_def ring_sizes_ok_def)
  then obtain sk where sk: "hkdf_sha1 L salt key SUBKEY_INFO (length key) = Some sk" "length sk = length key"
    using L unfolding aead_lib_ok_def by blast
  then show ?thesis
    using L t k
    by (cases t) (simp_all add: new_aead_def rust_assert_def RingAeadCipher_new_def SodiumAeadCipher_new_def
        MiscreantCipher_new_def MiscreantCipher_new_variant_def make_skey_def aead_lib_ok_def
        ring_sizes_ok_def NONCE_LEN_def)
qed

lemma sample_aead_fun_ok: "aead_fun_ok sample_seal sample_open"
proof -
  have "sample_open key nonce (sample_seal key nonce data) = Some data" for key nonce data
    by (simp add: sample_open_def sample_seal_def Let_def comp_def)
  then show ?thesis
    by (auto simp: aead_fun_ok_def sample_seal_def sample_open_def Let_def split: if_splits)
qed

lemma rotate_rotate_inv: "length xs = n + m \<Longrightarrow> rotate m (rotate n xs) = xs"
  by (metis rotate_rotate add.commute rotate_id mod_self)

lemma sample_siv_ok:
  "aead_fun_ok (\<lambda>k n x. rotate (length x) (sample_seal k n x)) (\<lambda>k n x. sample_open k n (rotate 16 x))"
proof -
  have len: "length (sample_seal k n x) = length x + 16" for k n x
    by (simp add: sample_seal_def)
  have "sample_open k n (rotate 16 (rotate (length x) (sample_seal k n x))) = Some x" for k n x
    using sample_aead_fun_ok len by (simp add: rotate_rotate_inv aead_fun_ok_def)
  moreover have "rotate (length x) (sample_seal k n x) = y" if "sample_open k n (rotate 16 y) = Some x" for k n x y
  proof -
    have seal: "sample_seal k n x = rotate 16 y"
      using that sample_aead_fun_ok by (auto simp: aead_fun_ok_def)
    then have "length y = 16 + length x"
      using len [of k n x] by simp
    with seal show ?thesis by (simp add: rotate_rotate_inv)
  qed
  ultimately show ?thesis using len by (simp add: aead_fun_ok_def)
qed

lemma sample_aead_lib_ok: "aead_lib_ok sample_lib"
  using sample_aead_fun_ok sample_siv_ok
  by (simp add: aead_lib_ok_def sample_lib_ok sample_lib_def ring_sizes_ok_def)

primrec box_nonce :: "AeadBox \<Rightarrow> bytes" where
  "box_nonce (RingBox c) = rac_nonce c"
| "box_nonce (SodiumAeadBox c) = sac_nonce c"
| "box_nonce (MiscreantBox c) = mc_nonce c"

lemma aead_seal_nonce:
  "aead_seal s x = Some (y, s') \<Longrightarrow>
     fst s' = fst s \<and> box_nonce (snd s') = increase_nonce (fst s) (box_nonce (snd s))"
  by (cases "snd s"; cases s')
     (auto simp: aead_seal_Some rust_bind_Ret_iff RingAeadCipher_encrypt_def RingAeadNonceSequence_advance_def
       SodiumAeadCipher_encrypt_def SodiumAeadCipher_reset_def MiscreantCipher_encrypt_def Let_def
       rust_assert_def split: if_splits)

lemma thread_seal_nonce:
  "thread aead_seal s ms = Some (ys, s') \<Longrightarrow>
     fst s' = fst s \<and> box_nonce (snd s') = (increase_nonce (fst s) ^^ length ms) (box_nonce (snd s))"
proof (induction ms arbitrary: s ys)
  case (Cons m ms)
  then obtain y s1 ys1 where "aead_seal s m = Some (y, s1)" "thread aead_seal s1 ms = Some (ys1, s')"
    by (auto split: option.splits)
  with aead_seal_nonce [of s m y s1] Cons.IH [of s1 ys1] show ?case
    by (simp add: funpow_Suc_right del: funpow.simps)
qed simp

section \<open>Properties\<close>

text \<open>
  C28. Every AEAD method can be set up for a key of its size, and whatever messages the sender
  encrypts, in order, the receiver decrypts to the same messages; each ciphertext is 16 bytes
  longer than its message.
\<close>

theorem aead_methods_round_trip:
  assumes "aead_lib_ok L" and "category t = AeadCategory" and "key_size L t = Ret (length key)"
  shows "\<exists>e d. new_aead_encryptor L t key salt = Ret e \<and> new_aead_decryptor L t key salt = Ret d
           \<and> (\<forall>ms. \<exists>ys e' d'. thread aead_seal (L, e) ms = Some (ys, e')
                 \<and> map length ys = map (\<lambda>m. length m + 16) ms \<and> thread aead_open (L, d) ys = Some (ms, d'))"
proof -
  obtain e d where ed: "new_aead_encryptor L t key salt = Ret e" "new_aead_decryptor L t key salt = Ret d"
    using new_aead_total [OF assms] unfolding new_aead_encryptor_def new_aead_decryptor_def by metis
  then have "aead_synced (L, e) (L, d)"
    using assms(1) new_aead_synced by blast
  with ed show ?thesis using aead_box.thread_enc_dec by blast
qed

theorem aead_methods_round_trip_witness:
  "\<exists>e d. new_aead_encryptor sample_lib Aes256PmacSiv (replicate 64 7) [1] = Ret e
     \<and> new_aead_decryptor sample_lib Aes256PmacSiv (replicate 64 7) [1] = Ret d
     \<and> (\<forall>ms. \<exists>ys e' d'. thread aead_seal (sample_lib, e) ms = Some (ys, e')
           \<and> map length ys = map (\<lambda>m. length m + 16) ms
           \<and> thread aead_open (sample_lib, d) ys = Some (ms, d'))"
  by (rule aead_methods_round_trip) (simp_all add: sample_aead_lib_ok)

text \<open>
  C29. After any exchange, the receiver accepts a text only when it is exactly what the sender
  would produce for the message it decrypts to: a forged, repeated or reordered text fails unless
  it happens to be that text.
\<close>

theorem aead_accepts_only_sealed:
  assumes "aead_lib_ok L" and "new_aead_encryptor L t key salt = Ret e" and "new_aead_decryptor L t key salt = Ret d"
    and "thread aead_seal (L, e) ms = Some (ys, e')" and "thread aead_open (L, d) ys = Some (ms, d')"
    and "aead_open d' y = Some (x, d'')"
  shows "\<exists>e''. aead_seal e' x = Some (y, e'')"
proof -
  have "aead_synced (L, e) (L, d)"
    using assms(1-3) by (rule new_aead_synced)
  then have "aead_synced e' d'"
    using aead_box.thread_enc_dec [of "(L, e)" "(L, d)" ms] assms(4,5) by auto
  with assms(6) show ?thesis using aead_box.dec_enc by blast
qed

lemma sum_list_replicate_0: "sum_list (replicate n (0 :: nat)) = 0"
  by (induction n) simp_all

theorem aead_accepts_only_sealed_witness:
  "\<exists>e''. aead_seal (sample_lib, RingBox \<lparr>rac_alg = AES_128_GCM, rac_key = replicate 16 17,
         rac_nonce = replicate 12 0, rac_is_seal = True, rac_type = Aes128Gcm\<rparr>) [5] =
         Some (6 # replicate 16 1, e'')"
proof -
  let ?c = "\<lambda>seal. RingBox \<lparr>rac_alg = AES_128_GCM, rac_key = replicate 16 17,
         rac_nonce = replicate 12 0, rac_is_seal = seal, rac_type = Aes128Gcm\<rparr>"
  have new: "new_aead sample_lib Aes128Gcm (replicate 16 0) [1] seal = Ret (?c seal)" for seal
    by (simp add: new_aead_def rust_assert_def RingAeadCipher_new_def NONCE_LEN_def make_skey_def)
  have "\<exists>d. aead_open (sample_lib, ?c False) (6 # replicate 16 1) = Some ([5], d)"
    by (simp add: aead_open_def RingAeadCipher_decrypt_def tag_size_def rust_assert_def
        RingAeadNonceSequence_advance_def sample_open_def sample_seal_def sum_list_replicate_0)
  with aead_accepts_only_sealed [of sample_lib Aes128Gcm "replicate 16 0" "[1]" "?c True" "?c False" "[]" "[]"
      "(sample_lib, ?c True)" "(sample_lib, ?c False)" "6 # replicate 16 1" "[5]"]
  show ?thesis
    by (auto simp: sample_aead_lib_ok new_aead_encryptor_def new_aead_decryptor_def new)
qed



end
