(* ===== verification/Tcp_Aead.thy ===== *)
theory Tcp_Aead
  imports Aead_Cipher
begin

text \<open>
  The AEAD framing of TCP streams, \<^verbatim>\<open>src/relay/tcprelay/aead.rs\<close>: a payload is sent as its encrypted
  two byte length and its encrypted bytes. Reader and writer are poll state machines over an
  underlying stream, whose \<^verbatim>\<open>poll_read\<close> and \<^verbatim>\<open>poll_write\<close> are the arguments \<open>pr\<close> and \<open>pw\<close>. A poll
  returns the result, the new state and the new underlying stream. The loop of
  \<^verbatim>\<open>poll_read_decrypted\<close> is a \<open>partial_function\<close>: \<open>None\<close> would be a poll that never returns.
\<close>

section \<open>Underlying streams\<close>

text \<open>\<open>pr n r\<close>: a read of at most \<open>n\<close> bytes; \<open>pw bs w\<close>: a write, returning the number of bytes taken.\<close>

type_synonym 'r poll_reader = "nat \<Rightarrow> 'r \<Rightarrow> (io_error + bytes) poll \<times> 'r"
type_synonym 'w poll_writer = "bytes \<Rightarrow> 'w \<Rightarrow> (io_error + nat) poll \<times> 'w"

definition unexpected_eof :: io_error where
  "unexpected_eof = IoError UnexpectedEof ''unexpected end of file''"

section \<open>The reader\<close>

datatype DecryptReadStep = LengthStep | DataStep nat

record AeadDecryptedReader =
  adr_buffer :: bytes
  adr_data :: bytes
  adr_cipher :: AeadBox
  adr_pos :: nat
  adr_tag_size :: nat
  adr_steps :: DecryptReadStep
  adr_got_final :: bool

definition AeadDecryptedReader_new ::
    "'c crypto_lib \<Rightarrow> CipherType \<Rightarrow> bytes \<Rightarrow> bytes \<Rightarrow> AeadDecryptedReader rust" where
  "AeadDecryptedReader_new L t key nonce =
     rust_bind (new_aead_decryptor L t key nonce) (\<lambda>cipher.
     rust_bind (tag_size L t) (\<lambda>tag_size.
       Ret \<lparr>adr_buffer = [], adr_data = [], adr_cipher = cipher, adr_pos = 0, adr_tag_size = tag_size,
            adr_steps = LengthStep, adr_got_final = False\<rparr>))"

function poll_read_exact ::
    "'r poll_reader \<Rightarrow> AeadDecryptedReader \<Rightarrow> 'r \<Rightarrow> nat \<Rightarrow> bool \<Rightarrow>
     (io_error + unit) poll \<times> AeadDecryptedReader \<times> 'r" where
  "poll_read_exact pr d r sz allow_eof =
     (if length (adr_buffer d) < sz then
        (case pr (sz - length (adr_buffer d)) r of
           (Pending, r) \<Rightarrow> (Pending, d, r)
         | (Ready (Inl e), r) \<Rightarrow> (Ready (Inl e), d, r)
         | (Ready (Inr bs), r) \<Rightarrow>
             if bs = [] then
               (if adr_buffer d = [] \<and> allow_eof \<and> \<not> adr_got_final d
                then (Ready (Inr ()), d\<lparr>adr_got_final := True\<rparr>, r)
                else (Ready (Inl unexpected_eof), d, r))
             else poll_read_exact pr (d\<lparr>adr_buffer := adr_buffer d @ bs\<rparr>) r sz allow_eof)
      else (Ready (Inr ()), d, r))"
  by pat_completeness auto
termination
proof (relation "measure (\<lambda>(pr, d, r, sz, allow_eof). sz - length (adr_buffer d))", goal_cases)
  case (2 pr d r sz allow_eof x1 x2 x3 x4)
  then show ?case by (cases x4) auto
qed simp

declare poll_read_exact.simps [simp del]

text \<open>An error of the cipher becomes an I/O error; the reader keeps its buffer and step.\<close>

definition poll_read_decrypted_length ::
    "'c crypto_lib \<Rightarrow> 'r poll_reader \<Rightarrow> AeadDecryptedReader \<Rightarrow> 'r \<Rightarrow>
     ((io_error + unit) poll \<times> AeadDecryptedReader \<times> 'r) rust" where
  "poll_read_decrypted_length L pr d r =
     (let buf_len = 2 + adr_tag_size d in
      case poll_read_exact pr d r buf_len True of
        (Pending, d, r) \<Rightarrow> Ret (Pending, d, r)
      | (Ready (Inl e), d, r) \<Rightarrow> Ret (Ready (Inl e), d, r)
      | (Ready (Inr _), d, r) \<Rightarrow>
          if adr_got_final d then Ret (Ready (Inr ()), d, r)
          else
            rust_bind (aead_decrypt L (adr_cipher d) (adr_buffer d) 2) (\<lambda>(res, cipher).
              let d = d\<lparr>adr_cipher := cipher\<rparr> in
              case res of
                Inl e \<Rightarrow> Ret (Ready (Inl (io_error_from_cipher e)), d, r)
              | Inr len_buf \<Rightarrow>
                  let len = unat (get_u16 (len_buf ! 0) (len_buf ! 1)) in
                  Ret (Ready (Inr ()),
                       d\<lparr>adr_buffer := [], adr_data := [], adr_pos := 0, adr_steps := DataStep len\<rparr>, r)))"

definition poll_read_decrypted_data ::
    "'c crypto_lib \<Rightarrow> 'r poll_reader \<Rightarrow> AeadDecryptedReader \<Rightarrow> 'r \<Rightarrow> nat \<Rightarrow>
     ((io_error + unit) poll \<times> AeadDecryptedReader \<times> 'r) rust" where
  "poll_read_decrypted_data L pr d r sz =
     (let buf_len = sz + adr_tag_size d in
      case poll_read_exact pr d r buf_len False of
        (Pending, d, r) \<Rightarrow> Ret (Pending, d, r)
      | (Ready (Inl e), d, r) \<Rightarrow> Ret (Ready (Inl e), d, r)
      | (Ready (Inr _), d, r) \<Rightarrow>
          rust_bind (aead_decrypt L (adr_cipher d) (adr_buffer d) sz) (\<lambda>(res, cipher).
            let d = d\<lparr>adr_cipher := cipher\<rparr> in
            case res of
              Inl e \<Rightarrow> Ret (Ready (Inl (io_error_from_cipher e)), d, r)
            | Inr plain \<Rightarrow>
                Ret (Ready (Inr ()),
                     d\<lparr>adr_data := adr_data d @ plain, adr_buffer := [], adr_pos := 0,
                       adr_steps := LengthStep\<rparr>, r)))"

definition poll_refill ::
    "'c crypto_lib \<Rightarrow> 'r poll_reader \<Rightarrow> AeadDecryptedReader \<Rightarrow> 'r \<Rightarrow>
     ((io_error + unit) poll \<times> AeadDecryptedReader \<times> 'r) rust" where
  "poll_refill L pr d r =
     (case adr_steps d of
        LengthStep \<Rightarrow> poll_read_decrypted_length L pr d r
      | DataStep len \<Rightarrow> poll_read_decrypted_data L pr d r len)"

partial_function (option) poll_read_decrypted ::
    "'c crypto_lib \<Rightarrow> 'r poll_reader \<Rightarrow> AeadDecryptedReader \<Rightarrow> 'r \<Rightarrow> nat \<Rightarrow>
     ((io_error + bytes) poll \<times> AeadDecryptedReader \<times> 'r) rust option" where
  "poll_read_decrypted L pr d r dst_len =
     (if length (adr_data d) \<le> adr_pos d then
        if adr_got_final d then Some (Ret (Ready (Inr []), d, r))
        else
          (case poll_refill L pr d r of
             Panic \<Rightarrow> Some Panic
           | Ret (Pending, d', r') \<Rightarrow> Some (Ret (Pending, d', r'))
           | Ret (Ready (Inl e), d', r') \<Rightarrow> Some (Ret (Ready (Inl e), d', r'))
           | Ret (Ready (Inr _), d', r') \<Rightarrow> poll_read_decrypted L pr d' r' dst_len)
      else
        let remaining_len = length (adr_data d) - adr_pos d; n = min dst_len remaining_len in
        Some (Ret (Ready (Inr (take n (drop (adr_pos d) (adr_data d)))), d\<lparr>adr_pos := adr_pos d + n\<rparr>, r)))"

section \<open>The writer\<close>

definition MAX_PACKET_SIZE :: nat where "MAX_PACKET_SIZE = 0x3FFF"

datatype EncryptWriteStep = NothingStep | WritingStep bytes nat

record AeadEncryptedWriter =
  aew_cipher :: AeadBox
  aew_tag_size :: nat
  aew_steps :: EncryptWriteStep
  aew_nonce :: "bytes option"

definition AeadEncryptedWriter_new ::
    "'c crypto_lib \<Rightarrow> CipherType \<Rightarrow> bytes \<Rightarrow> bytes \<Rightarrow> AeadEncryptedWriter rust" where
  "AeadEncryptedWriter_new L t key nonce =
     rust_bind (new_aead_encryptor L t key nonce) (\<lambda>cipher.
     rust_bind (tag_size L t) (\<lambda>tag_size.
       Ret \<lparr>aew_cipher = cipher, aew_tag_size = tag_size, aew_steps = NothingStep, aew_nonce = Some nonce\<rparr>))"

text \<open>The loop that hands a buffer to the underlying stream, shared by the two writers.\<close>

function poll_write_buf :: "'w poll_writer \<Rightarrow> bytes \<Rightarrow> nat \<Rightarrow> 'w \<Rightarrow> (io_error + unit) poll \<times> nat \<times> 'w" where
  "poll_write_buf pw buf pos w =
     (if pos < length buf then
        (case pw (drop pos buf) w of
           (Pending, w) \<Rightarrow> (Pending, pos, w)
         | (Ready (Inl e), w) \<Rightarrow> (Ready (Inl e), pos, w)
         | (Ready (Inr n), w) \<Rightarrow>
             if n = 0 then (Ready (Inl unexpected_eof), pos, w)
             else poll_write_buf pw buf (pos + n) w)
      else (Ready (Inr ()), pos, w))"
  by pat_completeness auto
termination
  by (relation "measure (\<lambda>(pw, buf, pos, w). length buf - pos)") auto

declare poll_write_buf.simps [simp del]

text \<open>The branch \<^verbatim>\<open>EncryptWriteStep::Nothing\<close>: encrypt the length and the data, the salt in front of the first frame.\<close>

definition aew_make_frame :: "'c crypto_lib \<Rightarrow> AeadEncryptedWriter \<Rightarrow> bytes \<Rightarrow> AeadEncryptedWriter rust" where
  "aew_make_frame L w data =
     (let data_len_buf = put_u16 (of_nat (length data));
          head = (case aew_nonce w of Some n \<Rightarrow> n | None \<Rightarrow> [])
      in rust_bind (aead_encrypt L (aew_cipher w) data_len_buf (2 + aew_tag_size w)) (\<lambda>(b1, cipher).
         rust_bind (aead_encrypt L cipher data (length data + aew_tag_size w)) (\<lambda>(b2, cipher).
           Ret (w\<lparr>aew_cipher := cipher, aew_nonce := None,
                  aew_steps := WritingStep (head @ b1 @ b2) 0\<rparr>))))"

definition poll_write_all_encrypted ::
    "'c crypto_lib \<Rightarrow> 'w poll_writer \<Rightarrow> AeadEncryptedWriter \<Rightarrow> 'w \<Rightarrow> bytes \<Rightarrow>
     ((io_error + unit) poll \<times> AeadEncryptedWriter \<times> 'w) rust" where
  "poll_write_all_encrypted L pw w s data =
     rust_assert (length data \<le> MAX_PACKET_SIZE)
       (rust_bind (if aew_steps w = NothingStep then aew_make_frame L w data else Ret w) (\<lambda>w.
          case aew_steps w of
            NothingStep \<Rightarrow> Panic
          | WritingStep buf pos \<Rightarrow>
              (case poll_write_buf pw buf pos s of
                 (Ready (Inr _), pos, s) \<Rightarrow> Ret (Ready (Inr ()), w\<lparr>aew_steps := NothingStep\<rparr>, s)
               | (res, pos, s) \<Rightarrow> Ret (res, w\<lparr>aew_steps := WritingStep buf pos\<rparr>, s))))"

definition poll_write_encrypted ::
    "'c crypto_lib \<Rightarrow> 'w poll_writer \<Rightarrow> AeadEncryptedWriter \<Rightarrow> 'w \<Rightarrow> bytes \<Rightarrow>
     ((io_error + nat) poll \<times> AeadEncryptedWriter \<times> 'w) rust" where
  "poll_write_encrypted L pw w s data =
     (let data = (if MAX_PACKET_SIZE < length data then take MAX_PACKET_SIZE data else data) in
      rust_bind (poll_write_all_encrypted L pw w s data) (\<lambda>(res, w, s).
        Ret (case res of
               Pending \<Rightarrow> Pending
             | Ready (Inl e) \<Rightarrow> Ready (Inl e)
             | Ready (Inr _) \<Rightarrow> Ready (Inr (length data)), w, s)))"

section \<open>What is asked of the underlying stream\<close>

text \<open>
  \<open>left r\<close> are the bytes the peer has sent and the reader has not yet got, \<open>written w\<close> those that have
  been accepted for sending. A read may be short, pending or fail at any time; reading nothing is
  the end of the stream. A write may be short, pending or fail.
\<close>

definition source_ok :: "'r poll_reader \<Rightarrow> ('r \<Rightarrow> bytes) \<Rightarrow> bool" where
  "source_ok pr left \<longleftrightarrow>
     (\<forall>n r. 0 < n \<longrightarrow>
        (case pr n r of
           (Ready (Inr bs), r') \<Rightarrow> left r = bs @ left r' \<and> length bs \<le> n \<and> (bs = [] \<longrightarrow> left r = [])
         | (_, r') \<Rightarrow> left r' = left r))"

definition sink_ok :: "'w poll_writer \<Rightarrow> ('w \<Rightarrow> bytes) \<Rightarrow> bool" where
  "sink_ok pw written \<longleftrightarrow>
     (\<forall>bs w. bs \<noteq> [] \<longrightarrow>
        (case pw bs w of
           (Ready (Inr n), w') \<Rightarrow> n \<le> length bs \<and> written w' = written w @ take n bs
         | (_, w') \<Rightarrow> written w' = written w))"

lemma source_ok_Ready:
  assumes "source_ok pr left" and "0 < n" and "pr n r = (Ready (Inr bs), r')"
  shows "left r = bs @ left r' \<and> length bs \<le> n \<and> (bs = [] \<longrightarrow> left r = [])"
  using assms(1) [unfolded source_ok_def, rule_format, OF assms(2), of r] assms(3) by auto

lemma source_ok_other:
  assumes "source_ok pr left" and "0 < n" and "pr n r = (res, r')" and "\<forall>bs. res \<noteq> Ready (Inr bs)"
  shows "left r' = left r"
  using assms(1) [unfolded source_ok_def, rule_format, OF assms(2), of r] assms(3,4)
  by (simp split: poll.splits sum.splits)

lemma sink_ok_Ready:
  assumes "sink_ok pw written" and "bs \<noteq> []" and "pw bs w = (Ready (Inr n), w')"
  shows "n \<le> length bs \<and> written w' = written w @ take n bs"
  using assms(1) [unfolded sink_ok_def, rule_format, OF assms(2), of w] assms(3) by simp

lemma sink_ok_other:
  assumes "sink_ok pw written" and "bs \<noteq> []" and "pw bs w = (res, w')" and "\<forall>n. res \<noteq> Ready (Inr n)"
  shows "written w' = written w"
  using assms(1) [unfolded sink_ok_def, rule_format, OF assms(2), of w] assms(3,4)
  by (simp split: poll.splits sum.splits)

section \<open>Reading exactly\<close>

text \<open>
  \<open>poll_read_exact\<close> moves bytes from the stream to the buffer. It reports success with a full
  buffer, or, where that is allowed, with the end of the stream noted and nothing read.
\<close>

definition read_exact_post ::
    "('r \<Rightarrow> bytes) \<Rightarrow> AeadDecryptedReader \<Rightarrow> 'r \<Rightarrow> nat \<Rightarrow> bool \<Rightarrow>
     (io_error + unit) poll \<Rightarrow> AeadDecryptedReader \<Rightarrow> 'r \<Rightarrow> bool" where
  "read_exact_post left d r sz allow_eof res d' r' \<longleftrightarrow>
     (\<exists>bs gf. left r = bs @ left r' \<and> d' = d\<lparr>adr_buffer := adr_buffer d @ bs, adr_got_final := gf\<rparr>
        \<and> (length (adr_buffer d) \<le> sz \<longrightarrow> length (adr_buffer d') \<le> sz)
        \<and> ((\<forall>u. res \<noteq> Ready (Inr u)) \<longrightarrow> gf = adr_got_final d)
        \<and> (res = Ready (Inr ()) \<longrightarrow>
             gf = adr_got_final d \<and> sz \<le> length (adr_buffer d')
           \<or> gf \<and> \<not> adr_got_final d \<and> allow_eof \<and> adr_buffer d' = [] \<and> left r = []))"

lemma read_exact_postI:
  assumes "left r = bs @ left r'" and "d' = d\<lparr>adr_buffer := adr_buffer d @ bs, adr_got_final := gf\<rparr>"
    and "length (adr_buffer d) \<le> sz \<Longrightarrow> length (adr_buffer d') \<le> sz"
    and "(\<forall>u. res \<noteq> Ready (Inr u)) \<Longrightarrow> gf = adr_got_final d"
    and "res = Ready (Inr ()) \<Longrightarrow> gf = adr_got_final d \<and> sz \<le> length (adr_buffer d')
           \<or> gf \<and> \<not> adr_got_final d \<and> ae \<and> adr_buffer d' = [] \<and> left r = []"
  shows "read_exact_post left d r sz ae res d' r'"
  unfolding read_exact_post_def using assms by blast

lemma poll_read_exact_full:
  "sz \<le> length (adr_buffer d) \<Longrightarrow> poll_read_exact pr d r sz ae = (Ready (Inr ()), d, r)"
  by (subst poll_read_exact.simps) simp

lemma poll_read_exact_step:
  assumes "length (adr_buffer d) < sz"
  shows "pr (sz - length (adr_buffer d)) r = (Pending, r1) \<Longrightarrow> poll_read_exact pr d r sz ae = (Pending, d, r1)"
    and "pr (sz - length (adr_buffer d)) r = (Ready (Inl e), r1) \<Longrightarrow>
           poll_read_exact pr d r sz ae = (Ready (Inl e), d, r1)"
    and "pr (sz - length (adr_buffer d)) r = (Ready (Inr []), r1) \<Longrightarrow>
           poll_read_exact pr d r sz ae =
             (if adr_buffer d = [] \<and> ae \<and> \<not> adr_got_final d
              then (Ready (Inr ()), d\<lparr>adr_got_final := True\<rparr>, r1) else (Ready (Inl unexpected_eof), d, r1))"
    and "pr (sz - length (adr_buffer d)) r = (Ready (Inr (b # bs)), r1) \<Longrightarrow>
           poll_read_exact pr d r sz ae = poll_read_exact pr (d\<lparr>adr_buffer := adr_buffer d @ b # bs\<rparr>) r1 sz ae"
  using assms by (subst poll_read_exact.simps; simp)+

lemma poll_read_exact_post:
  assumes "source_ok pr left" and "poll_read_exact pr d r sz ae = (res, d', r')"
  shows "read_exact_post left d r sz ae res d' r'"
  using assms(2)
proof (induction "sz - length (adr_buffer d)" arbitrary: d r rule: less_induct)
  case less
  show ?case
  proof (cases "length (adr_buffer d) < sz")
    case False
    with less.prems show ?thesis
      by (intro read_exact_postI [where bs = "[]" and gf = "adr_got_final d"])
         (auto simp: poll_read_exact_full)
  next
    case True
    let ?n = "sz - length (adr_buffer d)"
    have n: "0 < ?n" using True by simp
    obtain q r1 where q: "pr ?n r = (q, r1)" by (cases "pr ?n r")
    consider "q = Pending" | e where "q = Ready (Inl e)" | "q = Ready (Inr [])"
      | b bs where "q = Ready (Inr (b # bs))"
      by (metis poll.exhaust sum.exhaust list.exhaust)
    then show ?thesis
    proof cases
      case 1
      then have "left r1 = left r" using source_ok_other [OF assms(1) n q] by simp
      with 1 less.prems q True show ?thesis
        by (intro read_exact_postI [where bs = "[]" and gf = "adr_got_final d"])
           (auto simp: poll_read_exact_step)
    next
      case (2 e)
      then have "left r1 = left r" using source_ok_other [OF assms(1) n q] by simp
      with 2 less.prems q True show ?thesis
        by (intro read_exact_postI [where bs = "[]" and gf = "adr_got_final d"])
           (auto simp: poll_read_exact_step)
    next
      case 3
      then have "left r1 = []" "left r = []" using source_ok_Ready [OF assms(1) n] q by force+
      with 3 less.prems q True show ?thesis
        by (intro read_exact_postI [where bs = "[]" and gf = "adr_got_final d'"])
           (auto simp: poll_read_exact_step split: if_splits)
    next
      case (4 b bs)
      let ?d = "d\<lparr>adr_buffer := adr_buffer d @ b # bs\<rparr>"
      have left: "left r = (b # bs) @ left r1" "length (b # bs) \<le> ?n"
        using source_ok_Ready [OF assms(1) n] q 4 by blast+
      have "read_exact_post left ?d r1 sz ae res d' r'"
        using less.prems q 4 True by (intro less.hyps) (auto simp: poll_read_exact_step)
      then obtain bs' gf where post: "left r1 = bs' @ left r'"
          "d' = ?d\<lparr>adr_buffer := adr_buffer ?d @ bs', adr_got_final := gf\<rparr>"
          "length (adr_buffer ?d) \<le> sz \<longrightarrow> length (adr_buffer d') \<le> sz"
          "(\<forall>u. res \<noteq> Ready (Inr u)) \<longrightarrow> gf = adr_got_final ?d"
          "res = Ready (Inr ()) \<longrightarrow> gf = adr_got_final ?d \<and> sz \<le> length (adr_buffer d')
             \<or> gf \<and> \<not> adr_got_final ?d \<and> ae \<and> adr_buffer d' = [] \<and> left r1 = []"
        unfolding read_exact_post_def by blast
      then show ?thesis
        using left True
        by (intro read_exact_postI [where bs = "(b # bs) @ bs'" and gf = gf]) auto
    qed
  qed
qed

section \<open>Frames\<close>

text \<open>The bytes a sender with encryption function \<open>enc\<close> puts on the wire for the payloads \<open>ms\<close>.\<close>

definition frame :: "('e \<Rightarrow> bytes \<Rightarrow> (bytes \<times> 'e) option) \<Rightarrow> 'e \<Rightarrow> bytes \<Rightarrow> (bytes \<times> bytes \<times> 'e) option" where
  "frame enc e m =
     (case enc e (put_u16 (of_nat (length m))) of
        None \<Rightarrow> None
      | Some (l, e1) \<Rightarrow> (case enc e1 m of None \<Rightarrow> None | Some (c, e2) \<Rightarrow> Some (l, c, e2)))"

primrec frames :: "('e \<Rightarrow> bytes \<Rightarrow> (bytes \<times> 'e) option) \<Rightarrow> 'e \<Rightarrow> bytes list \<Rightarrow> (bytes \<times> 'e) option" where
  "frames enc e [] = Some ([], e)"
| "frames enc e (m # ms) =
     (case frame enc e m of
        None \<Rightarrow> None
      | Some (l, c, e') \<Rightarrow> map_option (\<lambda>(bs, e''). (l @ c @ bs, e'')) (frames enc e' ms))"

lemma frames_append:
  "frames enc e (ms @ ms') =
     (case frames enc e ms of
        None \<Rightarrow> None
      | Some (bs, e') \<Rightarrow> map_option (\<lambda>(bs', e''). (bs @ bs', e'')) (frames enc e' ms'))"
  by (induction ms arbitrary: e) (auto split: option.splits simp: option.map_comp comp_def case_prod_unfold option.map_ident)

context aead_pair
begin

lemma frame_obtain:
  assumes "synced e d"
  obtains l c e1 e2 d1 d2 where "frame enc e m = Some (l, c, e2)" "enc e1 m = Some (c, e2)"
    "length l = 2 + tag" "length c = length m + tag"
    "dec d l = Some (put_u16 (of_nat (length m)), d1)" "dec d1 c = Some (m, d2)"
    "synced e1 d1" "synced e2 d2"
proof -
  obtain l e1 d1 where 1: "enc e (put_u16 (of_nat (length m))) = Some (l, e1)" "length l = 2 + tag"
      "dec d l = Some (put_u16 (of_nat (length m)), d1)" "synced e1 d1"
    using enc_obtain [OF assms, of "put_u16 (of_nat (length m))"] by auto
  obtain c e2 d2 where 2: "enc e1 m = Some (c, e2)" "length c = length m + tag" "dec d1 c = Some (m, d2)"
      "synced e2 d2"
    using enc_obtain [OF 1(4), of m] by blast
  show thesis
    using 1 2 by (intro that [of l c e2 e1 d1 d2]) (simp_all add: frame_def)
qed

lemma frames_total: "synced e d \<Longrightarrow> \<exists>bs e'. frames enc e ms = Some (bs, e') \<and> (ms = [] \<longleftrightarrow> bs = [])"
proof (induction ms arbitrary: e d)
  case (Cons m ms)
  obtain l c e2 d2 where "frame enc e m = Some (l, c, e2)" "length l = 2 + tag" "synced e2 d2"
    using frame_obtain [OF Cons.prems] by metis
  with Cons.IH [of e2 d2] show ?case by force
qed simp

lemma frames_Cons:
  assumes "synced e d" and "frames enc e (m # ms) = Some (bs, e')"
  obtains l c bs' e1 e2 d1 d2 where "bs = l @ c @ bs'" "length l = 2 + tag" "length c = length m + tag"
    "dec d l = Some (put_u16 (of_nat (length m)), d1)" "dec d1 c = Some (m, d2)"
    "synced e1 d1" "enc e1 m = Some (c, e2)" "synced e2 d2" "frames enc e2 ms = Some (bs', e')"
proof -
  obtain l c e1 e2 d1 d2 where *: "frame enc e m = Some (l, c, e2)" "enc e1 m = Some (c, e2)"
      "length l = 2 + tag" "length c = length m + tag"
      "dec d l = Some (put_u16 (of_nat (length m)), d1)" "dec d1 c = Some (m, d2)"
      "synced e1 d1" "synced e2 d2"
    using frame_obtain [OF assms(1)] by metis
  with assms(2) obtain bs' where "frames enc e2 ms = Some (bs', e')" "bs = l @ c @ bs'"
    by (auto split: option.splits)
  with * that show thesis by blast
qed

end

section \<open>The reader's invariant\<close>

text \<open>
  \<open>aead_rd_inv L d wire p\<close>: with the bytes \<open>wire\<close> still to come, the reader still has to deliver the
  plaintext \<open>p\<close>. Its cipher is in step with that of a sender who sends the rest of the frames.
\<close>

definition aead_rd_inv :: "'c crypto_lib \<Rightarrow> AeadDecryptedReader \<Rightarrow> bytes \<Rightarrow> bytes \<Rightarrow> bool" where
  "aead_rd_inv L d wire p \<longleftrightarrow>
     adr_tag_size d = TAG_LEN
   \<and> (case adr_steps d of
        LengthStep \<Rightarrow>
          \<exists>e ms e'. aead_synced (L, e) (L, adr_cipher d) \<and> (\<forall>m \<in> set ms. length m < 65536)
            \<and> frames aead_seal (L, e) ms = Some (adr_buffer d @ wire, e')
            \<and> length (adr_buffer d) \<le> 2 + TAG_LEN
            \<and> p = drop (adr_pos d) (adr_data d) @ concat ms
      | DataStep len \<Rightarrow>
          \<exists>e m c e1 ms bs e'. aead_synced (L, e) (L, adr_cipher d) \<and> (\<forall>m \<in> set ms. length m < 65536)
            \<and> length m = len \<and> aead_seal (L, e) m = Some (c, e1)
            \<and> frames aead_seal e1 ms = Some (bs, e') \<and> adr_buffer d @ wire = c @ bs
            \<and> length (adr_buffer d) \<le> len + TAG_LEN \<and> adr_data d = [] \<and> p = m @ concat ms)"

lemma aead_rd_inv_LengthI:
  assumes "adr_steps d = LengthStep" and "adr_tag_size d = TAG_LEN" and "aead_synced (L, e) (L, adr_cipher d)"
    and "\<forall>m \<in> set ms. length m < 65536" and "frames aead_seal (L, e) ms = Some (adr_buffer d @ wire, e')"
    and "length (adr_buffer d) \<le> 2 + TAG_LEN" and "p = drop (adr_pos d) (adr_data d) @ concat ms"
  shows "aead_rd_inv L d wire p"
  unfolding aead_rd_inv_def assms(1) DecryptReadStep.case using assms by blast

lemma aead_rd_inv_DataI:
  assumes "adr_steps d = DataStep (length m)" and "adr_tag_size d = TAG_LEN"
    and "aead_synced (L, e) (L, adr_cipher d)" and "\<forall>m \<in> set ms. length m < 65536"
    and "aead_seal (L, e) m = Some (c, e1)" and "frames aead_seal e1 ms = Some (bs, e')"
    and "adr_buffer d @ wire = c @ bs" and "length (adr_buffer d) \<le> length m + TAG_LEN"
    and "adr_data d = []" and "p = m @ concat ms"
  shows "aead_rd_inv L d wire p"
  unfolding aead_rd_inv_def assms(1) DecryptReadStep.case using assms by blast

lemma aead_open_decrypt:
  "aead_open (L, b) y = Some (x, L', b') \<Longrightarrow> length y = n + TAG_LEN \<Longrightarrow>
     L' = L \<and> aead_decrypt L b y n = Ret (Inr x, b')"
  using aead_open_Some [of "(L, b)" y x "(L', b')"] by simp

lemma len_of_payload:
  "length m < 65536 \<Longrightarrow>
     unat (get_u16 (put_u16 (of_nat (length m)) ! 0) (put_u16 (of_nat (length m)) ! 1)) = length m"
  by (simp add: unat_of_nat_u16)

text \<open>What a refill guarantees: the plaintext still to be delivered stays the same.\<close>

definition refill_post ::
    "'c crypto_lib \<Rightarrow> ('r \<Rightarrow> bytes) \<Rightarrow> bytes \<Rightarrow> bytes \<Rightarrow> (io_error + unit) poll \<Rightarrow> AeadDecryptedReader \<Rightarrow> 'r \<Rightarrow> bool"
where
  "refill_post L left missing p res d' r' \<longleftrightarrow>
     aead_rd_inv L d' (left r' @ missing) p
   \<and> (adr_got_final d' \<longrightarrow> res = Ready (Inr ()) \<and> length (adr_data d') \<le> adr_pos d' \<and> left r' = []
        \<and> (missing = [] \<longrightarrow> p = []))"

lemma refill_length:
  assumes src: "source_ok pr left" and inv: "aead_rd_inv L d (left r @ missing) p"
    and st: "adr_steps d = LengthStep" and empty: "length (adr_data d) \<le> adr_pos d" and nf: "\<not> adr_got_final d"
  shows "\<exists>res d' r'. poll_read_decrypted_length L pr d r = Ret (res, d', r') \<and> refill_post L left missing p res d' r'"
proof -
  obtain e ms e' where e: "aead_synced (L, e) (L, adr_cipher d)" "\<forall>m \<in> set ms. length m < 65536"
      "frames aead_seal (L, e) ms = Some (adr_buffer d @ left r @ missing, e')"
      "length (adr_buffer d) \<le> 2 + TAG_LEN" "p = concat ms" and tag: "adr_tag_size d = TAG_LEN"
    using inv st empty unfolding aead_rd_inv_def by auto
  obtain res d1 r1 where ex: "poll_read_exact pr d r (2 + TAG_LEN) True = (res, d1, r1)"
    using prod_cases3 by blast
  obtain bs gf where post: "left r = bs @ left r1" "d1 = d\<lparr>adr_buffer := adr_buffer d @ bs, adr_got_final := gf\<rparr>"
      "length (adr_buffer d1) \<le> 2 + TAG_LEN" "(\<forall>u. res \<noteq> Ready (Inr u)) \<longrightarrow> gf = adr_got_final d"
      "res = Ready (Inr ()) \<longrightarrow> gf = adr_got_final d \<and> 2 + TAG_LEN \<le> length (adr_buffer d1)
         \<or> gf \<and> \<not> adr_got_final d \<and> adr_buffer d1 = [] \<and> left r = []"
    using poll_read_exact_post [OF src ex, unfolded read_exact_post_def] e(4) by blast
  have wire: "frames aead_seal (L, e) ms = Some (adr_buffer d1 @ left r1 @ missing, e')"
    using e(3) post(1,2) by simp
  have inv1: "aead_rd_inv L d1 (left r1 @ missing) p"
    using e st tag post empty wire
    by (intro aead_rd_inv_LengthI [where e = e and ms = ms and e' = e']) auto
  consider (stop) "\<forall>u. res \<noteq> Ready (Inr u)" | (eof) "res = Ready (Inr ())" "gf"
    | (full) "res = Ready (Inr ())" "\<not> gf" "length (adr_buffer d1) = 2 + TAG_LEN"
    using post(3-5) nf by force
  then show ?thesis
  proof cases
    case stop
    then have "poll_read_decrypted_length L pr d r = Ret (res, d1, r1)"
      using ex tag by (auto simp: poll_read_decrypted_length_def split: poll.splits sum.splits)
    with inv1 stop post nf show ?thesis by (auto simp: refill_post_def)
  next
    case eof
    then have "poll_read_decrypted_length L pr d r = Ret (Ready (Inr ()), d1, r1)"
      using ex tag post(2) by (simp add: poll_read_decrypted_length_def)
    moreover have "adr_buffer d1 = []" "left r1 = []"
      using eof post nf by auto
    moreover from this have "missing = [] \<longrightarrow> p = []"
      using wire aead_box.frames_total [OF e(1), of ms] e(5) by auto
    ultimately show ?thesis using inv1 eof post(2) empty by (auto simp: refill_post_def)
  next
    case full
    then obtain m ms' where ms: "ms = m # ms'"
      using wire by (cases ms) auto
    obtain l c bs' e1 e2 c1 c2 where fr: "adr_buffer d1 @ left r1 @ missing = l @ c @ bs'"
        "length l = 2 + TAG_LEN" "aead_open (L, adr_cipher d) l = Some (put_u16 (of_nat (length m)), c1)"
        "aead_synced e1 c1" "aead_seal e1 m = Some (c, e2)" "frames aead_seal e2 ms' = Some (bs', e')"
      using aead_box.frames_Cons [OF e(1)] wire ms by metis
    then have l: "adr_buffer d1 = l" "left r1 @ missing = c @ bs'"
      using full(3) by (simp_all add: append_eq_append_conv)
    obtain b1 f1 where lib: "c1 = (L, b1)" "e1 = (L, f1)"
      using fr(3,4) aead_open_Some [of "(L, adr_cipher d)" l _ c1]
      by (cases c1; cases e1) (auto simp: aead_synced_def)
    let ?d = "d1\<lparr>adr_cipher := b1, adr_buffer := [], adr_data := [], adr_pos := 0, adr_steps := DataStep (length m)\<rparr>"
    have "aead_decrypt L (adr_cipher d) l 2 = Ret (Inr (put_u16 (of_nat (length m))), b1)"
      using aead_open_decrypt [of L "adr_cipher d" l _ L b1 2] fr(2,3) lib by simp
    then have "poll_read_decrypted_length L pr d r = Ret (Ready (Inr ()), ?d, r1)"
      using ex tag full post(2) l(1) e(2) ms
      by (simp add: poll_read_decrypted_length_def len_of_payload [simplified])
    moreover have "aead_rd_inv L ?d (left r1 @ missing) p"
      using fr l lib tag post(2) e(2,5) ms
      by (intro aead_rd_inv_DataI [where e = f1 and m = m and c = c and ms = ms' and bs = bs']) auto
    ultimately show ?thesis using full post(2) by (auto simp: refill_post_def)
  qed
qed

lemma refill_data:
  assumes src: "source_ok pr left" and inv: "aead_rd_inv L d (left r @ missing) p"
    and st: "adr_steps d = DataStep len" and nf: "\<not> adr_got_final d"
  shows "\<exists>res d' r'. poll_read_decrypted_data L pr d r len = Ret (res, d', r') \<and> refill_post L left missing p res d' r'"
proof -
  obtain e m c e1 ms bs0 e' where e: "aead_synced (L, e) (L, adr_cipher d)" "\<forall>m \<in> set ms. length m < 65536"
      "len = length m" "aead_seal (L, e) m = Some (c, e1)" "frames aead_seal e1 ms = Some (bs0, e')"
      "adr_buffer d @ left r @ missing = c @ bs0" "length (adr_buffer d) \<le> length m + TAG_LEN"
      "adr_data d = []" "p = m @ concat ms" and tag: "adr_tag_size d = TAG_LEN"
    using inv st unfolding aead_rd_inv_def by auto
  obtain res d1 r1 where ex: "poll_read_exact pr d r (length m + TAG_LEN) False = (res, d1, r1)"
    using prod_cases3 by blast
  obtain bs gf where post: "left r = bs @ left r1" "d1 = d\<lparr>adr_buffer := adr_buffer d @ bs, adr_got_final := gf\<rparr>"
      "length (adr_buffer d1) \<le> length m + TAG_LEN" "(\<forall>u. res \<noteq> Ready (Inr u)) \<longrightarrow> gf = adr_got_final d"
      "res = Ready (Inr ()) \<longrightarrow> gf = adr_got_final d \<and> length m + TAG_LEN \<le> length (adr_buffer d1)"
    using poll_read_exact_post [OF src ex, unfolded read_exact_post_def] e(7) by blast
  have gf: "\<not> gf" using post(4,5) nf by (cases "res = Ready (Inr ())") simp_all
  have wire: "adr_buffer d1 @ left r1 @ missing = c @ bs0"
    using e(6) post(1,2) by simp
  have inv1: "aead_rd_inv L d1 (left r1 @ missing) p"
    using e st tag post wire
    by (intro aead_rd_inv_DataI [where e = e and m = m and c = c and ms = ms and bs = bs0]) auto
  show ?thesis
  proof (cases "res = Ready (Inr ())")
    case False
    then have "poll_read_decrypted_data L pr d r len = Ret (res, d1, r1)"
      using ex tag e(3) by (auto simp: poll_read_decrypted_data_def split: poll.splits sum.splits)
    with inv1 gf post(2) show ?thesis by (auto simp: refill_post_def)
  next
    case True
    obtain y f1 c1 where y: "aead_seal (L, e) m = Some (y, f1)" "length y = length m + TAG_LEN"
        "aead_open (L, adr_cipher d) y = Some (m, c1)" "aead_synced f1 c1"
      using aead_box.enc_obtain [OF e(1)] by metis
    have eq: "y = c" "f1 = e1" using y(1) e(4) by auto
    have full: "adr_buffer d1 = c" "left r1 @ missing = bs0"
      using True post(3,5) wire y(2) eq by (simp_all add: append_eq_append_conv)
    obtain b1 f where lib: "c1 = (L, b1)" "e1 = (L, f)"
      using y(3,4) eq aead_open_Some [of "(L, adr_cipher d)" y _ c1]
      by (cases c1; cases e1) (auto simp: aead_synced_def)
    let ?d = "d1\<lparr>adr_cipher := b1, adr_data := m, adr_buffer := [], adr_pos := 0, adr_steps := LengthStep\<rparr>"
    have "aead_decrypt L (adr_cipher d) c (length m) = Ret (Inr m, b1)"
      using aead_open_decrypt [of L "adr_cipher d" c m L b1 "length m"] y(2,3) lib eq by simp
    then have "poll_read_decrypted_data L pr d r len = Ret (Ready (Inr ()), ?d, r1)"
      using ex tag True post(2) full(1) e(3,8) by (simp add: poll_read_decrypted_data_def)
    moreover have "aead_rd_inv L ?d (left r1 @ missing) p"
      using y eq lib tag post(2) e full
      by (intro aead_rd_inv_LengthI [where e = f and ms = ms and e' = e']) auto
    ultimately show ?thesis using gf post(2) by (auto simp: refill_post_def)
  qed
qed

lemma refill_ok:
  assumes "source_ok pr left" and "aead_rd_inv L d (left r @ missing) p"
    and "length (adr_data d) \<le> adr_pos d" and "\<not> adr_got_final d"
  shows "\<exists>res d' r'. poll_refill L pr d r = Ret (res, d', r') \<and> refill_post L left missing p res d' r'"
  using refill_length [OF assms(1,2) _ assms(3,4)] refill_data [OF assms(1,2) _ assms(4)]
  by (cases "adr_steps d") (simp_all add: poll_refill_def)

section \<open>Progress\<close>

lemma length_step_done:
  assumes "poll_read_decrypted_length L pr d r = Ret (Ready (Inr u), d', r')"
  obtains d1 where "poll_read_exact pr d r (2 + adr_tag_size d) True = (Ready (Inr ()), d1, r')"
    "adr_got_final d' = adr_got_final d1" "adr_tag_size d' = adr_tag_size d1"
    "adr_got_final d1 \<and> d' = d1 \<or> adr_buffer d' = []"
proof -
  obtain res d1 r1 where ex: "poll_read_exact pr d r (2 + adr_tag_size d) True = (res, d1, r1)"
    using prod_cases3 by blast
  then have res: "res = Ready (Inr ())"
    using assms by (cases res) (auto simp: poll_read_decrypted_length_def split: sum.splits)
  show thesis
  proof (cases "adr_got_final d1")
    case True
    with that [of d1] assms ex res show ?thesis by (simp add: poll_read_decrypted_length_def)
  next
    case False
    with assms ex res obtain q cipher where q: "aead_decrypt L (adr_cipher d1) (adr_buffer d1) 2 = Ret (q, cipher)"
      by (auto simp: poll_read_decrypted_length_def rust_bind_Ret_iff)
    with assms ex res False that [of d1] show ?thesis
      by (cases q) (auto simp: poll_read_decrypted_length_def)
  qed
qed

lemma data_step_done:
  assumes "poll_read_decrypted_data L pr d r len = Ret (Ready (Inr u), d', r')"
  obtains d1 where "poll_read_exact pr d r (len + adr_tag_size d) False = (Ready (Inr ()), d1, r')"
    "adr_got_final d' = adr_got_final d1" "adr_tag_size d' = adr_tag_size d1" "adr_buffer d' = []"
proof -
  obtain res d1 r1 where ex: "poll_read_exact pr d r (len + adr_tag_size d) False = (res, d1, r1)"
    using prod_cases3 by blast
  then have res: "res = Ready (Inr ())"
    using assms by (cases res) (auto simp: poll_read_decrypted_data_def split: sum.splits)
  with assms ex obtain q cipher where q: "aead_decrypt L (adr_cipher d1) (adr_buffer d1) len = Ret (q, cipher)"
    by (auto simp: poll_read_decrypted_data_def rust_bind_Ret_iff)
  with assms ex res that [of d1] show thesis
    by (cases q) (auto simp: poll_read_decrypted_data_def)
qed

text \<open>Every completed refill uses up buffered or incoming bytes, or notes the end of the stream.\<close>

lemma refill_progress:
  assumes src: "source_ok pr left" and tag: "0 < adr_tag_size d"
    and ok: "poll_refill L pr d r = Ret (Ready (Inr u), d', r')"
  shows "adr_tag_size d' = adr_tag_size d
       \<and> length (adr_buffer d') + length (left r') \<le> length (adr_buffer d) + length (left r)
       \<and> (adr_got_final d' \<or> length (adr_buffer d') + length (left r') < length (adr_buffer d) + length (left r))"
proof -
  obtain d1 need eof where ex: "poll_read_exact pr d r need eof = (Ready (Inr ()), d1, r')" "0 < need"
      "adr_got_final d' = adr_got_final d1" "adr_tag_size d' = adr_tag_size d1"
      "adr_got_final d1 \<and> d' = d1 \<or> adr_buffer d' = []"
  proof (cases "adr_steps d")
    case LengthStep
    with ok have "poll_read_decrypted_length L pr d r = Ret (Ready (Inr u), d', r')"
      by (simp add: poll_refill_def)
    then show thesis by (rule length_step_done) (rule that, assumption, simp, assumption+)
  next
    case (DataStep len)
    with ok have "poll_read_decrypted_data L pr d r len = Ret (Ready (Inr u), d', r')"
      by (simp add: poll_refill_def)
    then show thesis by (rule data_step_done) (rule that, assumption, simp add: tag, assumption+, simp)
  qed
  obtain bs gf where "left r = bs @ left r'" "d1 = d\<lparr>adr_buffer := adr_buffer d @ bs, adr_got_final := gf\<rparr>"
      "gf \<or> need \<le> length (adr_buffer d1)"
    using poll_read_exact_post [OF src ex(1), unfolded read_exact_post_def] by blast
  with ex show ?thesis by auto
qed

section \<open>What a poll delivers\<close>

text \<open>
  \<open>reader_ok L left missing d r p\<close>: of the bytes the peer sent, \<open>missing\<close> never arrive; the reader
  would deliver \<open>p\<close> if they did. Only a stream that ends between two frames is reported as ended.
\<close>

definition reader_ok ::
    "'c crypto_lib \<Rightarrow> ('r \<Rightarrow> bytes) \<Rightarrow> bytes \<Rightarrow> AeadDecryptedReader \<Rightarrow> 'r \<Rightarrow> bytes \<Rightarrow> bool" where
  "reader_ok L left missing d r p \<longleftrightarrow>
     aead_rd_inv L d (left r @ missing) p
   \<and> (adr_got_final d \<longrightarrow> length (adr_data d) \<le> adr_pos d \<and> left r = [] \<and> (missing = [] \<longrightarrow> p = []))"

definition poll_post ::
    "'c crypto_lib \<Rightarrow> ('r \<Rightarrow> bytes) \<Rightarrow> bytes \<Rightarrow> nat \<Rightarrow> bytes \<Rightarrow> (io_error + bytes) poll \<Rightarrow>
     AeadDecryptedReader \<Rightarrow> 'r \<Rightarrow> bool" where
  "poll_post L left missing n p res d' r' \<longleftrightarrow>
     (case res of
        Ready (Inr out) \<Rightarrow>
          length out \<le> n \<and> (\<exists>p'. p = out @ p' \<and> reader_ok L left missing d' r' p')
          \<and> (out = [] \<and> 0 < n \<longrightarrow> left r' = [] \<and> (missing = [] \<longrightarrow> p = []))
      | _ \<Rightarrow> reader_ok L left missing d' r' p)"

lemma reader_ok_deliver:
  assumes "reader_ok L left missing d r p" and "adr_pos d < length (adr_data d)"
    and "k \<le> length (adr_data d) - adr_pos d"
  obtains p' where "p = take k (drop (adr_pos d) (adr_data d)) @ p'"
    "reader_ok L left missing (d\<lparr>adr_pos := adr_pos d + k\<rparr>) r p'"
proof -
  have nf: "\<not> adr_got_final d" and inv: "aead_rd_inv L d (left r @ missing) p"
    using assms(1,2) by (auto simp: reader_ok_def)
  then have st: "adr_steps d = LengthStep"
    using assms(2) by (cases "adr_steps d") (auto simp: aead_rd_inv_def)
  obtain e ms e' where e: "aead_synced (L, e) (L, adr_cipher d)" "\<forall>m \<in> set ms. length m < 65536"
      "frames aead_seal (L, e) ms = Some (adr_buffer d @ left r @ missing, e')"
      "length (adr_buffer d) \<le> 2 + TAG_LEN" "p = drop (adr_pos d) (adr_data d) @ concat ms"
      and tag: "adr_tag_size d = TAG_LEN"
    using inv st unfolding aead_rd_inv_def by auto
  let ?p = "drop (adr_pos d + k) (adr_data d) @ concat ms"
  have "p = take k (drop (adr_pos d) (adr_data d)) @ ?p"
    using e(5) by (metis append.assoc append_take_drop_id drop_drop add.commute)
  moreover have "aead_rd_inv L (d\<lparr>adr_pos := adr_pos d + k\<rparr>) (left r @ missing) ?p"
    using e st tag by (intro aead_rd_inv_LengthI [where e = e and ms = ms and e' = e']) auto
  ultimately show thesis using nf by (intro that [of ?p]) (auto simp: reader_ok_def)
qed

lemma poll_read_decrypted_ok:
  assumes "source_ok pr left"
  shows "reader_ok L left missing d r p \<Longrightarrow>
    \<exists>res d' r'. poll_read_decrypted L pr d r n = Some (Ret (res, d', r')) \<and> poll_post L left missing n p res d' r'"
proof (induction "(length (adr_buffer d) + length (left r)) + (if adr_got_final d then 0 else 1)"
    arbitrary: d r rule: less_induct)
  case less
  have inv: "aead_rd_inv L d (left r @ missing) p" using less.prems by (simp add: reader_ok_def)
  consider (final) "length (adr_data d) \<le> adr_pos d" "adr_got_final d"
    | (refill) "length (adr_data d) \<le> adr_pos d" "\<not> adr_got_final d" | (data) "adr_pos d < length (adr_data d)"
    by linarith
  then show ?case
  proof cases
    case final
    with less.prems show ?thesis
      by (subst poll_read_decrypted.simps) (auto simp: poll_post_def reader_ok_def)
  next
    case data
    let ?k = "min n (length (adr_data d) - adr_pos d)"
    obtain p' where "p = take ?k (drop (adr_pos d) (adr_data d)) @ p'"
        "reader_ok L left missing (d\<lparr>adr_pos := adr_pos d + ?k\<rparr>) r p'"
      using reader_ok_deliver [OF less.prems data, of ?k] by auto
    with data show ?thesis
      by (subst poll_read_decrypted.simps) (auto simp: poll_post_def Let_def)
  next
    case refill
    obtain res d' r' where r: "poll_refill L pr d r = Ret (res, d', r')" "refill_post L left missing p res d' r'"
      using refill_ok [OF assms inv refill] by blast
    then have ok: "reader_ok L left missing d' r' p" by (simp add: refill_post_def reader_ok_def)
    show ?thesis
    proof (cases "res = Ready (Inr ())")
      case True
      have "0 < adr_tag_size d" using inv by (simp add: aead_rd_inv_def)
      then have "(length (adr_buffer d') + length (left r')) + (if adr_got_final d' then 0 else 1)
          < (length (adr_buffer d) + length (left r)) + (if adr_got_final d then 0 else 1)"
        using refill_progress [OF assms _ r(1) [unfolded True]] r(2) refill(2)
        by (auto simp: refill_post_def)
      from less.hyps [OF this ok] show ?thesis
        using refill r(1) True by (subst poll_read_decrypted.simps) simp
    next
      case False
      then consider "res = Pending" | x where "res = Ready (Inl x)"
        by (metis poll.exhaust sum.exhaust old.unit.exhaust)
      then show ?thesis
        using r refill ok by cases (subst poll_read_decrypted.simps, simp add: poll_post_def)+
    qed
  qed
qed

end
