(* ===== verification/Tcp_Aead_Session.thy ===== *)
theory Tcp_Aead_Session
  imports Tcp_Aead "HOL-Library.Sublist"
begin

text \<open>
  Whole sessions of the AEAD framing of TCP streams: any number of polls of the writer of
  \<^verbatim>\<open>src/relay/tcprelay/aead.rs\<close> on one side, any number of polls of the reader on the other.
\<close>

section \<open>The writer\<close>

context aead_pair
begin

lemma frames_synced:
  "synced e d \<Longrightarrow> \<exists>bs e' d'. frames enc e ms = Some (bs, e') \<and> synced e' d'"
proof (induction ms arbitrary: e d)
  case (Cons m ms)
  obtain l c e2 d2 where "frame enc e m = Some (l, c, e2)" "synced e2 d2"
    using frame_obtain [OF Cons.prems] by metis
  with Cons.IH [of e2 d2] show ?case by force
qed auto

lemma frames_snoc:
  assumes "synced e d" and "frames enc e ms = Some (bs, e1)"
  obtains l c e2 where "frame enc e1 m = Some (l, c, e2)" "frames enc e (ms @ [m]) = Some (bs @ l @ c, e2)"
proof -
  obtain d1 where "synced e1 d1" using frames_synced [OF assms(1), of ms] assms(2) by auto
  then obtain l c e2 where "frame enc e1 m = Some (l, c, e2)" using frame_obtain by metis
  with assms(2) that show thesis by (simp add: frames_append)
qed

end

text \<open>
  \<open>writer_ok L e0 salt w sent ms\<close>: the bytes \<open>sent\<close> so far, and those the writer still has to send, are
  the salt and the frames of the payloads \<open>ms\<close> sealed by a cipher that started as \<open>e0\<close>.
\<close>

definition writer_ok ::
    "'c crypto_lib \<Rightarrow> AeadBox \<Rightarrow> bytes \<Rightarrow> AeadEncryptedWriter \<Rightarrow> bytes \<Rightarrow> bytes list \<Rightarrow> bool" where
  "writer_ok L e0 salt w sent ms \<longleftrightarrow>
     aew_tag_size w = TAG_LEN \<and> (\<forall>m \<in> set ms. length m \<le> MAX_PACKET_SIZE)
   \<and> (\<exists>bs. frames aead_seal (L, e0) ms = Some (bs, (L, aew_cipher w))
        \<and> (case aew_nonce w of
             Some n \<Rightarrow> n = salt \<and> ms = [] \<and> sent = [] \<and> aew_steps w = NothingStep
           | None \<Rightarrow>
               (case aew_steps w of
                  NothingStep \<Rightarrow> sent = salt @ bs
                | WritingStep buf pos \<Rightarrow> ms \<noteq> [] \<and> sent @ drop pos buf = salt @ bs)))"

lemma writer_ok_new:
  assumes "aead_lib_ok L" and "category t = AeadCategory" and "AeadEncryptedWriter_new L t key salt = Ret w"
  shows "writer_ok L (aew_cipher w) salt w [] [] \<and> new_aead_encryptor L t key salt = Ret (aew_cipher w)"
  using assms tag_size_ok [of L t]
  by (auto simp: AeadEncryptedWriter_new_def writer_ok_def rust_bind_Ret_iff aead_lib_ok_def)

lemma aead_seal_encrypt:
  "aead_seal (L, b) x = Some (y, L', b') \<longleftrightarrow> L' = L \<and> aead_encrypt L b x (length x + TAG_LEN) = Ret (y, b')"
  by (auto simp: aead_seal_def split: rust.splits)

lemma make_frame:
  assumes "aead_synced (L, e0) d0" and "writer_ok L e0 salt w sent ms" and "aew_steps w = NothingStep"
    and "length m \<le> MAX_PACKET_SIZE"
  shows "\<exists>w' buf. aew_make_frame L w m = Ret w' \<and> aew_steps w' = WritingStep buf 0
           \<and> writer_ok L e0 salt w' sent (ms @ [m])"
proof -
  obtain bs where bs: "frames aead_seal (L, e0) ms = Some (bs, (L, aew_cipher w))"
    using assms(2) by (auto simp: writer_ok_def)
  then obtain l c e2 where fr: "frame aead_seal (L, aew_cipher w) m = Some (l, c, e2)"
      "frames aead_seal (L, e0) (ms @ [m]) = Some (bs @ l @ c, e2)"
    using aead_box.frames_snoc [OF assms(1)] by metis
  then obtain b1 b2 where enc: "aead_encrypt L (aew_cipher w) (put_u16 (of_nat (length m))) (2 + TAG_LEN) = Ret (l, b1)"
      "aead_encrypt L b1 m (length m + TAG_LEN) = Ret (c, b2)" "e2 = (L, b2)"
    by (cases e2) (auto simp: frame_def aead_seal_encrypt split: option.splits)
  show ?thesis
    using assms(2-4) bs fr(2) enc
    by (auto simp: aew_make_frame_def writer_ok_def split: option.splits)
qed

text \<open>The loop that hands the buffer to the stream sends a prefix of it.\<close>

lemma poll_write_buf_ok:
  assumes "sink_ok pw written"
  shows "pos \<le> length buf \<Longrightarrow> poll_write_buf pw buf pos s = (res, pos', s') \<Longrightarrow>
    pos' \<le> length buf \<and> written s' @ drop pos' buf = written s @ drop pos buf \<and> (res = Ready (Inr ()) \<longrightarrow> pos' = length buf)"
proof (induction "length buf - pos" arbitrary: pos s rule: less_induct)
  case less
  show ?case
  proof (cases "pos < length buf")
    case False
    with less.prems show ?thesis by (subst (asm) poll_write_buf.simps) auto
  next
    case True
    then have ne: "drop pos buf \<noteq> []" by simp
    obtain q s1 where q: "pw (drop pos buf) s = (q, s1)" by (cases "pw (drop pos buf) s")
    consider "\<forall>n. q \<noteq> Ready (Inr n)" | "q = Ready (Inr 0)" | n where "q = Ready (Inr (Suc n))"
      by (metis not0_implies_Suc)
    then show ?thesis
    proof cases
      case 1
      then have "written s1 = written s" using sink_ok_other [OF assms ne q] by simp
      with 1 less.prems True q show ?thesis
        by (subst (asm) poll_write_buf.simps) (auto split: poll.splits sum.splits)
    next
      case 2
      then have "written s1 = written s" using sink_ok_Ready [OF assms ne] q by fastforce
      with 2 less.prems True q show ?thesis
        by (subst (asm) poll_write_buf.simps) auto
    next
      case (3 n)
      then have n: "Suc n \<le> length buf - pos" "written s1 = written s @ take (Suc n) (drop pos buf)"
        using sink_ok_Ready [OF assms ne] q by fastforce+
      have "poll_write_buf pw buf (pos + Suc n) s1 = (res, pos', s')"
        using less.prems(2) True q 3 by (subst (asm) poll_write_buf.simps) simp
      from less.hyps [OF _ _ this] n True have
        "pos' \<le> length buf \<and> written s' @ drop pos' buf = written s1 @ drop (pos + Suc n) buf
           \<and> (res = Ready (Inr ()) \<longrightarrow> pos' = length buf)" by auto
      moreover have "written s1 @ drop (pos + Suc n) buf = written s @ drop pos buf"
        using n(2) by (metis append.assoc append_take_drop_id drop_drop add.commute)
      ultimately show ?thesis by simp
    qed
  qed
qed

definition write_poll_post ::
    "'c crypto_lib \<Rightarrow> AeadBox \<Rightarrow> bytes \<Rightarrow> bytes \<Rightarrow> (io_error + nat) poll \<Rightarrow>
     AeadEncryptedWriter \<Rightarrow> bytes \<Rightarrow> bytes list \<Rightarrow> bool" where
  "write_poll_post L e0 salt data res w' sent' ms' \<longleftrightarrow>
     writer_ok L e0 salt w' sent' ms'
   \<and> (case res of Ready (Inr n) \<Rightarrow> n = min MAX_PACKET_SIZE (length data) \<and> aew_steps w' = NothingStep
                | _ \<Rightarrow> aew_steps w' \<noteq> NothingStep)"

lemma writing_step_ok:
  assumes sink: "sink_ok pw written" and w: "writer_ok L e0 salt w (written s) ms"
    and st: "aew_steps w = WritingStep buf pos" and le: "pos \<le> length buf"
    and p: "poll_write_buf pw buf pos s = (res, pos', s')"
  shows "pos' \<le> length buf"
    and "res = Ready (Inr ()) \<Longrightarrow> writer_ok L e0 salt (w\<lparr>aew_steps := NothingStep\<rparr>) (written s') ms"
    and "writer_ok L e0 salt (w\<lparr>aew_steps := WritingStep buf pos'\<rparr>) (written s') ms"
proof -
  have post: "pos' \<le> length buf" "written s' @ drop pos' buf = written s @ drop pos buf"
      "res = Ready (Inr ()) \<longrightarrow> pos' = length buf"
    using poll_write_buf_ok [OF sink le p] by simp_all
  show "pos' \<le> length buf" by (rule post(1))
  show "writer_ok L e0 salt (w\<lparr>aew_steps := WritingStep buf pos'\<rparr>) (written s') ms"
    using w st post by (auto simp: writer_ok_def split: option.splits)
  show "res = Ready (Inr ()) \<Longrightarrow> writer_ok L e0 salt (w\<lparr>aew_steps := NothingStep\<rparr>) (written s') ms"
    using w st post by (auto simp: writer_ok_def split: option.splits)
qed

text \<open>The position in the buffer stays in range.\<close>

definition in_range :: "EncryptWriteStep \<Rightarrow> bool" where
  "in_range st = (case st of NothingStep \<Rightarrow> True | WritingStep buf pos \<Rightarrow> pos \<le> length buf)"

lemma poll_write_all_ok:
  assumes sink: "sink_ok pw written" and sync: "aead_synced (L, e0) d0"
    and w: "writer_ok L e0 salt w (written s) ms" and rg: "in_range (aew_steps w)"
    and len: "length m \<le> MAX_PACKET_SIZE"
    and ms': "ms' = (if aew_steps w = NothingStep then ms @ [m] else ms)"
  shows "\<exists>res w' s'. poll_write_all_encrypted L pw w s m = Ret (res, w', s') \<and> in_range (aew_steps w')
           \<and> writer_ok L e0 salt w' (written s') ms'
           \<and> (aew_steps w' = NothingStep \<longleftrightarrow> res = Ready (Inr ()))"
proof -
  obtain w1 buf pos where w1: "(if aew_steps w = NothingStep then aew_make_frame L w m else Ret w) = Ret w1"
      "aew_steps w1 = WritingStep buf pos" "pos \<le> length buf" "writer_ok L e0 salt w1 (written s) ms'"
  proof (cases "aew_steps w")
    case NothingStep
    from make_frame [OF sync w NothingStep len] show thesis
      using that NothingStep ms' by auto
  next
    case (WritingStep buf pos)
    with w rg ms' show thesis by (intro that [of w buf pos]) (simp_all add: in_range_def)
  qed
  obtain res pos' s' where p: "poll_write_buf pw buf pos s = (res, pos', s')"
    using prod_cases3 by blast
  note ok = writing_step_ok [OF sink w1(4,2,3) p]
  have eq: "poll_write_all_encrypted L pw w s m =
      (case (res, pos', s') of
         (Ready (Inr _), pos, s) \<Rightarrow> Ret (Ready (Inr ()), w1\<lparr>aew_steps := NothingStep\<rparr>, s)
       | (res, pos, s) \<Rightarrow> Ret (res, w1\<lparr>aew_steps := WritingStep buf pos\<rparr>, s))"
    unfolding poll_write_all_encrypted_def w1(1) using len w1(2) p by (simp add: rust_assert_def)
  show ?thesis
  proof (cases "res = Ready (Inr ())")
    case True
    with eq ok show ?thesis by (simp add: in_range_def)
  next
    case False
    then have "poll_write_all_encrypted L pw w s m = Ret (res, w1\<lparr>aew_steps := WritingStep buf pos'\<rparr>, s')"
      using eq by (auto split: poll.splits sum.splits)
    with False ok show ?thesis by (simp add: in_range_def)
  qed
qed

lemma poll_write_encrypted_ok:
  assumes "sink_ok pw written" and "aead_synced (L, e0) d0" and "writer_ok L e0 salt w (written s) ms"
    and "in_range (aew_steps w)"
    and "ms' = (if aew_steps w = NothingStep then ms @ [take MAX_PACKET_SIZE data] else ms)"
  shows "\<exists>res w' s'. poll_write_encrypted L pw w s data = Ret (res, w', s') \<and> in_range (aew_steps w')
           \<and> write_poll_post L e0 salt data res w' (written s') ms'"
proof -
  let ?m = "if MAX_PACKET_SIZE < length data then take MAX_PACKET_SIZE data else data"
  have m: "?m = take MAX_PACKET_SIZE data" "length ?m = min MAX_PACKET_SIZE (length data)"
    by (simp_all add: min_def)
  obtain res w' s' where r: "poll_write_all_encrypted L pw w s (take MAX_PACKET_SIZE data) = Ret (res, w', s')"
      "in_range (aew_steps w')" "writer_ok L e0 salt w' (written s') ms'"
      "aew_steps w' = NothingStep \<longleftrightarrow> res = Ready (Inr ())"
    using poll_write_all_ok [OF assms(1-4) _ assms(5)] by auto
  show ?thesis
    using r(2-4)
    unfolding poll_write_encrypted_def Let_def m r(1)
    by (cases "res = Ready (Inr ())")
       (auto simp: write_poll_post_def m min.commute split: poll.splits sum.splits)
qed

section \<open>Sessions\<close>

text \<open>
  \<open>aead_writes L pw w0 s0 ms w s\<close>: polls that started with writer \<open>w0\<close> and stream \<open>s0\<close> have taken the
  payloads \<open>ms\<close>. As with any \<^verbatim>\<open>AsyncWrite\<close>, a poll that did not succeed is repeated with the same data.
\<close>

inductive aead_writes ::
    "'c crypto_lib \<Rightarrow> 'w poll_writer \<Rightarrow> AeadEncryptedWriter \<Rightarrow> 'w \<Rightarrow> bytes list \<Rightarrow> AeadEncryptedWriter \<Rightarrow> 'w \<Rightarrow> bool"
  for L pw w0 s0 where
  start: "aead_writes L pw w0 s0 [] w0 s0"
| next_payload:
    "\<lbrakk>aead_writes L pw w0 s0 ms w s; aew_steps w = NothingStep;
      poll_write_encrypted L pw w s data = Ret (res, w', s')\<rbrakk>
     \<Longrightarrow> aead_writes L pw w0 s0 (ms @ [take MAX_PACKET_SIZE data]) w' s'"
| again:
    "\<lbrakk>aead_writes L pw w0 s0 (ms @ [m]) w s; aew_steps w \<noteq> NothingStep; take MAX_PACKET_SIZE data = m;
      poll_write_encrypted L pw w s data = Ret (res, w', s')\<rbrakk>
     \<Longrightarrow> aead_writes L pw w0 s0 (ms @ [m]) w' s'"

lemma aead_writes_ok:
  assumes "aead_writes L pw w0 s0 ms w s" and "sink_ok pw written" and "aead_synced (L, e0) d0"
    and "writer_ok L e0 salt w0 (written s0) []" and "in_range (aew_steps w0)"
  shows "writer_ok L e0 salt w (written s) ms \<and> in_range (aew_steps w)"
  using assms(1)
proof induction
  case start
  with assms(4,5) show ?case by simp
next
  case (next_payload ms w s data res w' s')
  then show ?case
    using poll_write_encrypted_ok [OF assms(2,3), of salt w s ms _ data] by (auto simp: write_poll_post_def)
next
  case (again ms m w s data res w' s')
  then show ?case
    using poll_write_encrypted_ok [OF assms(2,3), of salt w s "ms @ [m]" _ data] by (auto simp: write_poll_post_def)
qed

text \<open>Polls of the reader with buffers of the given sizes; the results of all of them.\<close>

primrec aead_reads ::
    "'c crypto_lib \<Rightarrow> 'r poll_reader \<Rightarrow> AeadDecryptedReader \<Rightarrow> 'r \<Rightarrow> nat list \<Rightarrow>
     ((io_error + bytes) poll list \<times> AeadDecryptedReader \<times> 'r) rust option" where
  "aead_reads L pr d r [] = Some (Ret ([], d, r))"
| "aead_reads L pr d r (n # ns) =
     (case poll_read_decrypted L pr d r n of
        None \<Rightarrow> None
      | Some Panic \<Rightarrow> Some Panic
      | Some (Ret (res, d', r')) \<Rightarrow>
          (case aead_reads L pr d' r' ns of
             None \<Rightarrow> None
           | Some Panic \<Rightarrow> Some Panic
           | Some (Ret (rs, d'', r'')) \<Rightarrow> Some (Ret (res # rs, d'', r''))))"

fun delivered :: "(io_error + bytes) poll list \<Rightarrow> bytes" where
  "delivered [] = []"
| "delivered (Ready (Inr out) # rs) = out @ delivered rs"
| "delivered (_ # rs) = delivered rs"

lemma aead_reads_ok:
  assumes "source_ok pr left"
  shows "reader_ok L left missing d r p \<Longrightarrow> \<forall>n \<in> set ns. 0 < n \<Longrightarrow>
    \<exists>rs d' r' p'. aead_reads L pr d r ns = Some (Ret (rs, d', r')) \<and> length rs = length ns
       \<and> p = delivered rs @ p' \<and> reader_ok L left missing d' r' p'
       \<and> (missing = [] \<and> Ready (Inr []) \<in> set rs \<longrightarrow> p' = [])"
proof (induction ns arbitrary: d r p)
  case (Cons n ns)
  obtain res d1 r1 where r: "poll_read_decrypted L pr d r n = Some (Ret (res, d1, r1))"
      "poll_post L left missing n p res d1 r1"
    using poll_read_decrypted_ok [OF assms Cons.prems(1)] by blast
  then obtain p1 where p1: "p = delivered [res] @ p1" "reader_ok L left missing d1 r1 p1"
      "res = Ready (Inr []) \<and> missing = [] \<longrightarrow> p = []"
    using Cons.prems(2) by (auto simp: poll_post_def split: poll.splits sum.splits)
  obtain rs d' r' p' where "aead_reads L pr d1 r1 ns = Some (Ret (rs, d', r'))" "length rs = length ns"
      "p1 = delivered rs @ p'" "reader_ok L left missing d' r' p'"
      "missing = [] \<and> Ready (Inr []) \<in> set rs \<longrightarrow> p' = []"
    using Cons.IH [OF p1(2)] Cons.prems(2) by auto
  moreover have "delivered (res # rs) = delivered [res] @ delivered rs"
    by (cases res; simp; cases "case res of Ready x \<Rightarrow> x"; simp)
  ultimately show ?case using r(1) p1 by auto
qed auto

lemma reader_ok_new:
  assumes "aead_lib_ok L" and "category t = AeadCategory" and "new_aead_encryptor L t key salt = Ret e"
    and "AeadDecryptedReader_new L t key salt = Ret d"
    and "frames aead_seal (L, e) ms = Some (left r @ missing, e')" and "\<forall>m \<in> set ms. length m < 65536"
  shows "reader_ok L left missing d r (concat ms)"
proof -
  obtain c where c: "new_aead_decryptor L t key salt = Ret c"
      "d = \<lparr>adr_buffer = [], adr_data = [], adr_cipher = c, adr_pos = 0, adr_tag_size = TAG_LEN,
            adr_steps = LengthStep, adr_got_final = False\<rparr>"
    using assms(4) tag_size_ok [of L t] assms(1,2)
    by (auto simp: AeadDecryptedReader_new_def rust_bind_Ret_iff aead_lib_ok_def)
  have "aead_synced (L, e) (L, c)" using assms(1,3) c(1) by (rule new_aead_synced)
  with assms(5,6) c(2) show ?thesis
    unfolding reader_ok_def
    by (intro conjI aead_rd_inv_LengthI [where e = e and ms = ms and e' = e']) auto
qed

section \<open>Delivery\<close>

text \<open>What a session leaves on the wire: the salt, frames, and a rest the writer still holds back.\<close>

lemma writer_ok_wire:
  assumes "writer_ok L e salt w sent ms" and "sent = salt @ x"
  obtains rest e' where "frames aead_seal (L, e) ms = Some (x @ rest, e')"
    "aew_steps w = NothingStep \<Longrightarrow> rest = []"
proof -
  obtain bs where bs: "frames aead_seal (L, e) ms = Some (bs, (L, aew_cipher w))"
      "case aew_nonce w of
         Some n \<Rightarrow> n = salt \<and> ms = [] \<and> sent = [] \<and> aew_steps w = NothingStep
       | None \<Rightarrow> (case aew_steps w of NothingStep \<Rightarrow> sent = salt @ bs
                 | WritingStep buf pos \<Rightarrow> ms \<noteq> [] \<and> sent @ drop pos buf = salt @ bs)"
    using assms(1) unfolding writer_ok_def by blast
  show thesis
  proof (cases "aew_nonce w")
    case (Some n)
    with bs assms(2) that [of "[]"] show ?thesis by auto
  next
    case None
    with bs assms(2) that [of "[]"] that [of "drop (case aew_steps w of WritingStep b p \<Rightarrow> p) (case aew_steps w of WritingStep b p \<Rightarrow> b)"]
    show ?thesis by (cases "aew_steps w") auto
  qed
qed

text \<open>
  C5. What the writer of a connection takes, the reader at the other end delivers, in order: for every
  AEAD method, however the two streams cut, delay or fail the transfers, the reader never panics, every
  poll returns, the bytes delivered are a prefix of the payloads taken by the writer, and when the
  reader reports the end of a stream of which nothing is missing, all of them have been delivered.
\<close>

theorem tcp_aead_delivery:
  assumes "aead_lib_ok L" and "category t = AeadCategory"
    and "AeadEncryptedWriter_new L t key salt = Ret w0" and "AeadDecryptedReader_new L t key salt = Ret d0"
    and "sink_ok pw written" and "written s0 = []" and "aead_writes L pw w0 s0 ms w s"
    and "source_ok pr left" and "written s = salt @ left r0 @ missing" and "\<forall>n \<in> set ns. 0 < n"
  shows "\<exists>rs d r. aead_reads L pr d0 r0 ns = Some (Ret (rs, d, r)) \<and> length rs = length ns
           \<and> prefix (delivered rs) (concat ms)
           \<and> (missing = [] \<and> aew_steps w = NothingStep \<and> Ready (Inr []) \<in> set rs \<longrightarrow> delivered rs = concat ms)"
proof -
  let ?e = "aew_cipher w0"
  have w0: "writer_ok L ?e salt w0 (written s0) []" "new_aead_encryptor L t key salt = Ret ?e"
    using writer_ok_new [OF assms(1-3)] assms(6) by simp_all
  have rg: "in_range (aew_steps w0)"
    using assms(3) by (auto simp: AeadEncryptedWriter_new_def rust_bind_Ret_iff in_range_def)
  obtain c where "new_aead_decryptor L t key salt = Ret c"
    using assms(4) by (auto simp: AeadDecryptedReader_new_def rust_bind_Ret_iff)
  then have "aead_synced (L, ?e) (L, c)" using new_aead_synced assms(1) w0(2) by blast
  then have w: "writer_ok L ?e salt w (written s) ms"
    using aead_writes_ok [OF assms(7,5) _ w0(1) rg] by blast
  then obtain rest e' where rest: "frames aead_seal (L, ?e) ms = Some (left r0 @ missing @ rest, e')"
      "aew_steps w = NothingStep \<Longrightarrow> rest = []"
    using writer_ok_wire [OF w assms(9)] by (metis append.assoc)
  have "\<forall>m \<in> set ms. length m < 65536"
    using w by (force simp: writer_ok_def MAX_PACKET_SIZE_def)
  then have "reader_ok L left (missing @ rest) d0 r0 (concat ms)"
    using reader_ok_new [OF assms(1,2) w0(2) assms(4), of ms left r0 "missing @ rest" e'] rest(1) by simp
  from aead_reads_ok [OF assms(8) this assms(10)] rest(2) show ?thesis
    by (auto simp: prefix_def)
qed

section \<open>A sample connection\<close>

text \<open>A pipe that takes and gives everything at once, as a concrete stream.\<close>

definition pipe_write :: "bytes poll_writer" where
  "pipe_write bs s = (Ready (Inr (length bs)), s @ bs)"

definition pipe_read :: "bytes poll_reader" where
  "pipe_read n s = (Ready (Inr (take n s)), drop n s)"

lemma pipe_ok: "sink_ok pipe_write (\<lambda>s. s)" "source_ok pipe_read (\<lambda>s. s)"
  by (auto simp: sink_ok_def pipe_write_def source_ok_def pipe_read_def)

lemma sample_connection:
  obtains w0 d0 w s where
    "AeadEncryptedWriter_new sample_lib Aes128Gcm (replicate 16 7) [9] = Ret w0"
    "AeadDecryptedReader_new sample_lib Aes128Gcm (replicate 16 7) [9] = Ret d0"
    "aead_writes sample_lib pipe_write w0 [] [[1, 2, 3]] w (9 # s)" "aew_steps w = NothingStep" "9 # s = [9] @ s @ []"
proof -
  let ?w0 = "\<lparr>aew_cipher = RingBox \<lparr>rac_alg = AES_128_GCM, rac_key = replicate 16 17, rac_nonce = replicate 12 0,
      rac_is_seal = True, rac_type = Aes128Gcm\<rparr>, aew_tag_size = 16, aew_steps = NothingStep, aew_nonce = Some [9]\<rparr>"
  have w0: "AeadEncryptedWriter_new sample_lib Aes128Gcm (replicate 16 7) [9] = Ret ?w0"
    by (simp add: AeadEncryptedWriter_new_def new_aead_encryptor_def new_aead_def rust_assert_def
        RingAeadCipher_new_def make_skey_def tag_size_def NONCE_LEN_def)
  have "\<exists>w s. poll_write_encrypted sample_lib pipe_write ?w0 [] [1, 2, 3] = Ret (Ready (Inr 3), w, 9 # s)
      \<and> aew_steps w = NothingStep"
    by (simp add: rust_assert_def tag_size_def poll_write_encrypted_def MAX_PACKET_SIZE_def
        poll_write_all_encrypted_def aew_make_frame_def RingAeadCipher_encrypt_def sample_seal_def
        RingAeadNonceSequence_advance_def poll_write_buf.simps pipe_write_def)
  then obtain w s where w: "poll_write_encrypted sample_lib pipe_write ?w0 [] [1, 2, 3] = Ret (Ready (Inr 3), w, 9 # s)"
      "aew_steps w = NothingStep"
    by blast
  have d0: "\<exists>d0. AeadDecryptedReader_new sample_lib Aes128Gcm (replicate 16 7) [9] = Ret d0"
    by (simp add: AeadDecryptedReader_new_def new_aead_decryptor_def new_aead_def rust_assert_def
        RingAeadCipher_new_def make_skey_def tag_size_def NONCE_LEN_def)
  have "aead_writes sample_lib pipe_write ?w0 [] ([] @ [take MAX_PACKET_SIZE [1, 2, 3]]) w (9 # s)"
    by (rule aead_writes.next_payload [OF aead_writes.start _ w(1)]) simp
  then have "aead_writes sample_lib pipe_write ?w0 [] [[1, 2, 3]] w (9 # s)"
    by (simp add: MAX_PACKET_SIZE_def)
  with w0 w(2) d0 that show thesis by (metis append_Cons append_Nil append_Nil2)
qed

theorem tcp_aead_delivery_witness:
  "\<exists>w0 d0 w s rs d r.
     AeadEncryptedWriter_new sample_lib Aes128Gcm (replicate 16 7) [9] = Ret w0
   \<and> AeadDecryptedReader_new sample_lib Aes128Gcm (replicate 16 7) [9] = Ret d0
   \<and> aead_writes sample_lib pipe_write w0 [] [[1, 2, 3]] w (9 # s)
   \<and> aead_reads sample_lib pipe_read d0 s [2, 2, 2] = Some (Ret (rs, d, r))
   \<and> length rs = 3 \<and> prefix (delivered rs) [1, 2, 3]"
proof -
  obtain w0 d0 w s where c:
    "AeadEncryptedWriter_new sample_lib Aes128Gcm (replicate 16 7) [9] = Ret w0"
    "AeadDecryptedReader_new sample_lib Aes128Gcm (replicate 16 7) [9] = Ret d0"
    "aead_writes sample_lib pipe_write w0 [] [[1, 2, 3]] w (9 # s)" "aew_steps w = NothingStep" "9 # s = [9] @ s @ []"
    by (rule sample_connection)
  note ex = tcp_aead_delivery [where written = "\<lambda>s. s" and left = "\<lambda>s. s" and s = "9 # s" and missing = "[]"
      and pr = pipe_read and ?r0.0 = s and ns = "[2, 2, 2]", OF sample_aead_lib_ok _ c(1,2) pipe_ok(1) refl c(3)
      pipe_ok(2) c(5)]
  obtain rs d r where "aead_reads sample_lib pipe_read d0 s [2, 2, 2] = Some (Ret (rs, d, r))"
      "length rs = length [2, 2, 2 :: nat]" "prefix (delivered rs) (concat [[1, 2, 3]])"
    using ex by fastforce
  then have "aead_reads sample_lib pipe_read d0 s [2, 2, 2] = Some (Ret (rs, d, r)) \<and> length rs = 3
      \<and> prefix (delivered rs) [1, 2, 3]"
    by simp
  with c(1-3) show ?thesis by blast
qed

section \<open>Hostile input\<close>

text \<open>A cipher that can be used to decrypt: it is in step with some encryptor.\<close>

fun can_open :: "AeadBox \<Rightarrow> bool" where
  "can_open (RingBox d) \<longleftrightarrow> \<not> rac_is_seal d \<and> ring_alg_of (rac_type d) \<noteq> Panic"
| "can_open (SodiumAeadBox d) \<longleftrightarrow> sac_type d = XChaCha20IetfPoly1305"
| "can_open (MiscreantBox d) \<longleftrightarrow> mc_type d \<in> {Aes128PmacSiv, Aes256PmacSiv}"

lemma can_open_synced: "aead_synced e (L, d) \<Longrightarrow> can_open d"
  by (cases "snd e"; cases d) (auto simp: aead_synced_def)

lemma opened_length:
  assumes "aead_fun_ok seal open" and "open key nonce text = Some data"
  shows "length text = length data + 16"
proof -
  from assms have "seal key nonce data = text" unfolding aead_fun_ok_def by blast
  with assms(1) show ?thesis unfolding aead_fun_ok_def by metis
qed

lemma aead_decrypt_total:
  assumes L: "aead_lib_ok L" and d: "can_open d" and len: "length y = n + TAG_LEN"
  shows "\<exists>res d'. aead_decrypt L d y n = Ret (res, d') \<and> can_open d' \<and> (\<forall>x. res = Inr x \<longrightarrow> length x = n)"
proof (cases d)
  case (RingBox c)
  then have "tag_size L (rac_type c) = Ret TAG_LEN"
    using L d tag_size_ok [of L "rac_type c"] ring_alg_category [of "rac_type c"] by (simp add: aead_lib_ok_def)
  moreover have "length x = n" if "ring_open L (rac_alg c) (rac_key c) (rac_nonce c) y = Some x" for x
    using opened_length [of "ring_seal L (rac_alg c)" "ring_open L (rac_alg c)"] that L len by (fastforce simp: aead_lib_ok_def)
  ultimately show ?thesis
    using RingBox d len
    by (cases "ring_open L (rac_alg c) (rac_key c) (rac_nonce c) y")
       (simp_all add: RingAeadCipher_decrypt_def RingAeadNonceSequence_advance_def rust_assert_def Let_def)
next
  case (SodiumAeadBox c)
  then have "tag_size L (sac_type c) = Ret TAG_LEN"
    using L d tag_size_ok [of L "sac_type c"] by (simp add: aead_lib_ok_def)
  with SodiumAeadBox d len show ?thesis
    by (cases "xchacha_decrypt L (sac_key c) (sac_nonce c) y")
       (simp_all add: SodiumAeadCipher_decrypt_def SodiumAeadCipher_reset_def rust_assert_def Let_def)
next
  case (MiscreantBox c)
  then have "tag_size L (mc_type c) = Ret TAG_LEN"
    using L d tag_size_ok [of L "mc_type c"] by (auto simp: aead_lib_ok_def)
  moreover have "length x = n" if "siv_decrypt L (mc_alg c) (mc_key c) (mc_nonce c) (drop n y @ take n y) = Some x" for x
    using opened_length [of "siv_encrypt L (mc_alg c)" "siv_decrypt L (mc_alg c)"] that L len by (fastforce simp: aead_lib_ok_def)
  ultimately show ?thesis
    using MiscreantBox d len
    by (cases "siv_decrypt L (mc_alg c) (mc_key c) (mc_nonce c) (drop n y @ take n y)")
       (simp_all add: MiscreantCipher_decrypt_def rust_assert_def Let_def)
qed

primrec step_len :: "DecryptReadStep \<Rightarrow> nat" where
  "step_len LengthStep = 2"
| "step_len (DataStep len) = len"

definition rd_wf :: "AeadDecryptedReader \<Rightarrow> bool" where
  "rd_wf d \<longleftrightarrow> adr_tag_size d = TAG_LEN \<and> can_open (adr_cipher d)
     \<and> length (adr_buffer d) \<le> step_len (adr_steps d) + TAG_LEN"

text \<open>One completed read of a length or of data, whatever the bytes are.\<close>

lemma refill_cases:
  assumes L: "aead_lib_ok L" and src: "source_ok pr left" and wf: "rd_wf d" and nf: "\<not> adr_got_final d"
  obtains (stop) res bs r' where "poll_refill L pr d r = Ret (res, d\<lparr>adr_buffer := adr_buffer d @ bs\<rparr>, r')"
      "left r = bs @ left r'" "\<forall>u. res \<noteq> Ready (Inr u)" "rd_wf (d\<lparr>adr_buffer := adr_buffer d @ bs\<rparr>)"
  | (eof) r' where "poll_refill L pr d r = Ret (Ready (Inr ()), d\<lparr>adr_got_final := True\<rparr>, r')"
      "adr_buffer d = []" "left r = []" "left r' = []"
  | (bad) e d' r' bs where "poll_refill L pr d r = Ret (Ready (Inl e), d', r')" "rd_wf d'" "left r = bs @ left r'"
  | (good) bs x c r' d' where "left r = bs @ left r'" "length (adr_buffer d @ bs) = step_len (adr_steps d) + TAG_LEN"
      "aead_decrypt L (adr_cipher d) (adr_buffer d @ bs) (step_len (adr_steps d)) = Ret (Inr x, c)" "can_open c"
      "length x = step_len (adr_steps d)"
      "poll_refill L pr d r = Ret (Ready (Inr ()), d', r')"
      "d' = (case adr_steps d of
               LengthStep \<Rightarrow> d\<lparr>adr_cipher := c, adr_buffer := [], adr_data := [], adr_pos := 0,
                                adr_steps := DataStep (unat (get_u16 (x ! 0) (x ! 1)))\<rparr>
             | DataStep _ \<Rightarrow> d\<lparr>adr_cipher := c, adr_data := adr_data d @ x, adr_buffer := [], adr_pos := 0,
                                adr_steps := LengthStep\<rparr>)"
proof -
  let ?n = "step_len (adr_steps d)" and ?ae = "adr_steps d = LengthStep"
  obtain res d1 r1 where ex: "poll_read_exact pr d r (?n + TAG_LEN) ?ae = (res, d1, r1)"
    using prod_cases3 by blast
  obtain bs gf where post: "left r = bs @ left r1" "d1 = d\<lparr>adr_buffer := adr_buffer d @ bs, adr_got_final := gf\<rparr>"
      "length (adr_buffer d1) \<le> ?n + TAG_LEN" "(\<forall>u. res \<noteq> Ready (Inr u)) \<longrightarrow> gf = adr_got_final d"
      "res = Ready (Inr ()) \<longrightarrow> gf = adr_got_final d \<and> ?n + TAG_LEN \<le> length (adr_buffer d1)
         \<or> gf \<and> \<not> adr_got_final d \<and> ?ae \<and> adr_buffer d1 = [] \<and> left r = []"
    using poll_read_exact_post [OF src ex, unfolded read_exact_post_def] wf unfolding rd_wf_def by blast
  consider (s) "\<forall>u. res \<noteq> Ready (Inr u)" | (e) "res = Ready (Inr ())" "gf"
    | (f) "res = Ready (Inr ())" "\<not> gf" "length (adr_buffer d @ bs) = ?n + TAG_LEN"
    using post nf by force
  then show thesis
  proof cases
    case s
    then have d1: "d1 = d\<lparr>adr_buffer := adr_buffer d @ bs\<rparr>" using post(2,4) nf by simp
    have "poll_refill L pr d r = Ret (res, d1, r1)"
      using s ex wf
      by (cases "adr_steps d")
         (auto simp: poll_refill_def poll_read_decrypted_length_def poll_read_decrypted_data_def rd_wf_def
           split: poll.splits sum.splits)
    with s d1 post(1,3) wf show ?thesis by (intro stop [of res bs r1]) (auto simp: rd_wf_def)
  next
    case e
    with post nf have le: "?ae" "adr_buffer d1 = []" "left r = []" by auto
    then have "d1 = d\<lparr>adr_got_final := True\<rparr>" using e post(2) by simp
    with le e ex wf post show ?thesis
      by (intro eof [of r1]) (auto simp: poll_refill_def poll_read_decrypted_length_def rd_wf_def)
  next
    case f
    then have d1: "d1 = d\<lparr>adr_buffer := adr_buffer d @ bs\<rparr>" using post(2) nf by simp
    obtain q c where q: "aead_decrypt L (adr_cipher d) (adr_buffer d @ bs) ?n = Ret (q, c)" "can_open c"
        "\<forall>x. q = Inr x \<longrightarrow> length x = ?n"
      using aead_decrypt_total [OF L _ f(3), of "adr_cipher d"] wf by (auto simp: rd_wf_def)
    show ?thesis
    proof (cases q)
      case (Inl err)
      then have "poll_refill L pr d r = Ret (Ready (Inl (io_error_from_cipher err)), d1\<lparr>adr_cipher := c\<rparr>, r1)"
        using q ex f d1 nf wf
        by (cases "adr_steps d")
           (simp_all add: poll_refill_def poll_read_decrypted_length_def poll_read_decrypted_data_def rd_wf_def)
      with d1 q f post(1,3) wf show ?thesis by (intro bad [of _ "d1\<lparr>adr_cipher := c\<rparr>" r1 bs]) (auto simp: rd_wf_def)
    next
      case (Inr x)
      let ?d = "case adr_steps d of
               LengthStep \<Rightarrow> d\<lparr>adr_cipher := c, adr_buffer := [], adr_data := [], adr_pos := 0,
                                adr_steps := DataStep (unat (get_u16 (x ! 0) (x ! 1)))\<rparr>
             | DataStep _ \<Rightarrow> d\<lparr>adr_cipher := c, adr_data := adr_data d @ x, adr_buffer := [], adr_pos := 0,
                                adr_steps := LengthStep\<rparr>"
      have "poll_refill L pr d r = Ret (Ready (Inr ()), ?d, r1)"
        using q(1) Inr ex f(1) d1 nf wf
        by (cases "adr_steps d")
           (simp_all add: poll_refill_def poll_read_decrypted_length_def poll_read_decrypted_data_def rd_wf_def)
      moreover have "length x = ?n" using q(3) Inr by simp
      ultimately show ?thesis
        using q(1) Inr by (intro good [OF post(1) f(3) _ q(2), of x ?d]) simp_all
    qed
  qed
qed

text \<open>
  \<open>auth_inv L e d used out\<close>: the bytes \<open>used\<close> the reader has decrypted are exactly the frames a sender
  with the cipher \<open>e\<close> produces for some payloads, of which \<open>out\<close> and the data on hand are what was read.
\<close>

definition auth_inv :: "'c crypto_lib \<Rightarrow> AeadBox \<Rightarrow> AeadDecryptedReader \<Rightarrow> bytes \<Rightarrow> bytes \<Rightarrow> bool" where
  "auth_inv L e d used out \<longleftrightarrow>
     (case adr_steps d of
        LengthStep \<Rightarrow>
          \<exists>ms e1. frames aead_seal (L, e) ms = Some (used, e1) \<and> aead_synced e1 (L, adr_cipher d)
            \<and> concat ms = out @ drop (adr_pos d) (adr_data d)
      | DataStep len \<Rightarrow>
          \<exists>ms bs l e1 e2. frames aead_seal (L, e) ms = Some (bs, e1) \<and> aead_seal e1 (put_u16 (of_nat len)) = Some (l, e2)
            \<and> used = bs @ l \<and> aead_synced e2 (L, adr_cipher d) \<and> adr_data d = [] \<and> concat ms = out)"

lemma opened_sealed:
  assumes "aead_synced e (L, c)" and "aead_decrypt L c y n = Ret (Inr x, c')" and "length y = n + TAG_LEN"
  obtains e' where "aead_seal e x = Some (y, e')" "aead_synced e' (L, c')"
proof -
  have y: "aead_open (L, c) y = Some (x, L, c')" using assms(2,3) by (simp add: aead_open_Some)
  then obtain e' where e': "aead_seal e x = Some (y, e')" using aead_box.dec_enc [OF assms(1)] by blast
  moreover have "aead_synced e' (L, c')"
    using aead_box.enc_dec [OF assms(1), of x] e' y by auto
  ultimately show thesis by (rule that)
qed

lemma put_get_u16_list: "length x = 2 \<Longrightarrow> put_u16 (of_nat (unat (get_u16 (x ! 0) (x ! 1)))) = x"
  by (cases x; cases "tl x") (auto simp: put_get_u16)

lemma auth_good:
  assumes inv: "auth_inv L e d used out" and empty: "length (adr_data d) \<le> adr_pos d"
    and len: "length y = step_len (adr_steps d) + TAG_LEN"
    and dec: "aead_decrypt L (adr_cipher d) y (step_len (adr_steps d)) = Ret (Inr x, c)"
    and x: "length x = step_len (adr_steps d)"
    and d': "d' = (case adr_steps d of
               LengthStep \<Rightarrow> d\<lparr>adr_cipher := c, adr_buffer := [], adr_data := [], adr_pos := 0,
                                adr_steps := DataStep (unat (get_u16 (x ! 0) (x ! 1)))\<rparr>
             | DataStep _ \<Rightarrow> d\<lparr>adr_cipher := c, adr_data := adr_data d @ x, adr_buffer := [], adr_pos := 0,
                                adr_steps := LengthStep\<rparr>)"
  shows "auth_inv L e d' (used @ y) out"
proof (cases "adr_steps d")
  case LengthStep
  with inv empty obtain ms e1 where ms: "frames aead_seal (L, e) ms = Some (used, e1)"
      "aead_synced e1 (L, adr_cipher d)" "concat ms = out"
    by (auto simp: auth_inv_def)
  obtain e2 where "aead_seal e1 x = Some (y, e2)" "aead_synced e2 (L, c)"
    using opened_sealed [OF ms(2) dec len] .
  with ms LengthStep d' x show ?thesis
    by (cases e1; cases e2) (auto simp: auth_inv_def put_get_u16_list [of x, simplified] intro!: exI [of _ ms])
next
  case (DataStep n)
  with inv obtain ms bs l e1 e2 where ms: "frames aead_seal (L, e) ms = Some (bs, e1)"
      "aead_seal e1 (put_u16 (of_nat n)) = Some (l, e2)" "used = bs @ l"
      "aead_synced e2 (L, adr_cipher d)" "adr_data d = []" "concat ms = out"
    by (auto simp: auth_inv_def)
  obtain e3 where e3: "aead_seal e2 x = Some (y, e3)" "aead_synced e3 (L, c)"
    using opened_sealed [OF ms(4) dec len] .
  have "frames aead_seal (L, e) (ms @ [x]) = Some (used @ y, e3)"
    using ms(1-3) e3(1) x DataStep by (simp add: frames_append frame_def)
  with e3(2) ms(5,6) DataStep d' show ?thesis
    by (cases e3) (auto simp: auth_inv_def intro!: exI [of _ "ms @ [x]"])
qed

definition accepted_out :: "(io_error + bytes) poll \<Rightarrow> bytes" where
  "accepted_out res = (case res of Ready (Inr out) \<Rightarrow> out | _ \<Rightarrow> [])"

definition auth_post :: "'c crypto_lib \<Rightarrow> AeadBox \<Rightarrow> bytes \<Rightarrow> bytes \<Rightarrow> (io_error + bytes) poll \<Rightarrow> AeadDecryptedReader \<Rightarrow> bytes \<Rightarrow> bool" where
  "auth_post L e wire out res d' rest \<longleftrightarrow>
     (\<exists>x. res = Ready (Inl x))
   \<or> (\<exists>used. wire = used @ adr_buffer d' @ rest \<and> auth_inv L e d' used (out @ accepted_out res))"

lemma poll_any_input:
  assumes L: "aead_lib_ok L" and src: "source_ok pr left"
  shows "rd_wf d \<Longrightarrow> \<exists>res d' r'. poll_read_decrypted L pr d r n = Some (Ret (res, d', r')) \<and> rd_wf d'
     \<and> (\<forall>e wire used out. auth_inv L e d used out \<and> wire = used @ adr_buffer d @ left r
          \<longrightarrow> auth_post L e wire out res d' (left r'))"
proof (induction "(length (adr_buffer d) + length (left r)) + (if adr_got_final d then 0 else 1)"
    arbitrary: d r rule: less_induct)
  case less
  consider (final) "length (adr_data d) \<le> adr_pos d" "adr_got_final d"
    | (refill) "length (adr_data d) \<le> adr_pos d" "\<not> adr_got_final d" | (data) "adr_pos d < length (adr_data d)"
    by linarith
  then show ?case
  proof cases
    case final
    then have "poll_read_decrypted L pr d r n = Some (Ret (Ready (Inr []), d, r))"
      by (subst poll_read_decrypted.simps) simp
    with less.prems show ?thesis by (auto simp: auth_post_def accepted_out_def)
  next
    case data
    let ?k = "min n (length (adr_data d) - adr_pos d)"
    let ?d = "d\<lparr>adr_pos := adr_pos d + ?k\<rparr>" and ?out = "take ?k (drop (adr_pos d) (adr_data d))"
    have "poll_read_decrypted L pr d r n = Some (Ret (Ready (Inr ?out), ?d, r))"
      using data by (subst poll_read_decrypted.simps) (simp add: Let_def)
    moreover have "rd_wf ?d" using less.prems by (simp add: rd_wf_def)
    moreover have "auth_inv L e ?d used (out @ ?out)" if "auth_inv L e d used out" for e used out
    proof -
      have "?out @ drop (adr_pos d + ?k) (adr_data d) = drop (adr_pos d) (adr_data d)"
        by (metis add.commute append_take_drop_id drop_drop)
      with that data show ?thesis
        by (cases "adr_steps d") (auto simp: auth_inv_def)
    qed
    ultimately show ?thesis by (auto simp: auth_post_def accepted_out_def)
  next
    case refill
    from L src less.prems refill(2) show ?thesis
    proof (cases rule: refill_cases [where r = r])
      case (stop res bs r')
      then consider "res = Pending" | x where "res = Ready (Inl x)"
        by (metis poll.exhaust sum.exhaust)
      then show ?thesis
      proof cases
        case 1
        then have "poll_read_decrypted L pr d r n = Some (Ret (Pending, d\<lparr>adr_buffer := adr_buffer d @ bs\<rparr>, r'))"
          using refill stop(1) by (subst poll_read_decrypted.simps) simp
        with stop show ?thesis
          by (fastforce simp: auth_post_def accepted_out_def auth_inv_def split: DecryptReadStep.splits)
      next
        case (2 x)
        then have "poll_read_decrypted L pr d r n = Some (Ret (Ready (Inl x), d\<lparr>adr_buffer := adr_buffer d @ bs\<rparr>, r'))"
          using refill stop(1) by (subst poll_read_decrypted.simps) simp
        with stop(4) show ?thesis by (auto simp: auth_post_def)
      qed
    next
      case (eof r')
      let ?d = "d\<lparr>adr_got_final := True\<rparr>"
      have "poll_read_decrypted L pr d r n = Some (Ret (Ready (Inr []), ?d, r'))"
        using refill eof(1) by (subst poll_read_decrypted.simps) (simp, subst poll_read_decrypted.simps, simp)
      moreover have "rd_wf ?d" using less.prems by (simp add: rd_wf_def)
      ultimately show ?thesis
        using eof by (auto simp: auth_post_def accepted_out_def auth_inv_def split: DecryptReadStep.splits)
    next
      case (bad e d' r' bs)
      then have "poll_read_decrypted L pr d r n = Some (Ret (Ready (Inl e), d', r'))"
        using refill by (subst poll_read_decrypted.simps) simp
      with bad(2) show ?thesis by (auto simp: auth_post_def)
    next
      case (good bs x c r' d')
      have eq: "poll_read_decrypted L pr d r n = poll_read_decrypted L pr d' r' n"
        using refill good(6) by (subst poll_read_decrypted.simps) simp
      have d': "rd_wf d'" "adr_buffer d' = []" "adr_got_final d' = adr_got_final d"
        using less.prems good by (auto simp: rd_wf_def split: DecryptReadStep.splits)
      have "length (left r') < length (adr_buffer d) + length (left r)" using good(1,2) by auto
      then obtain res d2 r2 where IH: "poll_read_decrypted L pr d' r' n = Some (Ret (res, d2, r2))" "rd_wf d2"
          "\<And>e wire used out. auth_inv L e d' used out \<Longrightarrow> wire = used @ left r' \<Longrightarrow> auth_post L e wire out res d2 (left r2)"
        using less.hyps [OF _ d'(1), of r'] d' by auto
      have "auth_post L e wire out res d2 (left r2)"
        if "auth_inv L e d used out" "wire = used @ adr_buffer d @ left r" for e wire used out
        using IH(3) [OF auth_good [OF that(1) refill(1) good(2,3,5,7)], of wire] that(2) good(1) by simp
      with IH eq show ?thesis by auto
    qed
  qed
qed

lemma new_reader_auth:
  assumes "aead_lib_ok L" and "category t = AeadCategory" and "AeadDecryptedReader_new L t key salt = Ret d"
  shows "rd_wf d" and "adr_buffer d = []"
    and "new_aead_encryptor L t key salt = Ret e \<Longrightarrow> auth_inv L e d [] []"
proof -
  obtain c where c: "new_aead_decryptor L t key salt = Ret c"
      "d = \<lparr>adr_buffer = [], adr_data = [], adr_cipher = c, adr_pos = 0, adr_tag_size = TAG_LEN,
            adr_steps = LengthStep, adr_got_final = False\<rparr>"
    using assms(3) tag_size_ok [of L t] assms(1,2)
    by (auto simp: AeadDecryptedReader_new_def rust_bind_Ret_iff aead_lib_ok_def)
  have "can_open c"
    using c(1) assms(1)
    by (auto simp: new_aead_decryptor_def new_aead_def rust_assert_def RingAeadCipher_new_def
        SodiumAeadCipher_new_def MiscreantCipher_new_def MiscreantCipher_new_variant_def rust_bind_Ret_iff
        split: if_splits)
  with c(2) show "rd_wf d" "adr_buffer d = []" by (simp_all add: rd_wf_def)
  show "auth_inv L e d [] []" if "new_aead_encryptor L t key salt = Ret e"
    using new_aead_synced [OF assms(1) that c(1)] c(2) by (auto simp: auth_inv_def intro!: exI [of _ "[]"])
qed

lemma aead_reads_total:
  assumes "aead_lib_ok L" and "source_ok pr left"
  shows "rd_wf d \<Longrightarrow> \<exists>rs d' r'. aead_reads L pr d r ns = Some (Ret (rs, d', r')) \<and> length rs = length ns"
proof (induction ns arbitrary: d r)
  case (Cons n ns)
  obtain res d1 r1 where "poll_read_decrypted L pr d r n = Some (Ret (res, d1, r1))" "rd_wf d1"
    using poll_any_input [OF assms Cons.prems] by blast
  with Cons.IH [OF \<open>rd_wf d1\<close>, of r1] show ?case by auto
qed simp

definition no_error :: "(io_error + bytes) poll \<Rightarrow> bool" where
  "no_error res = (case res of Ready (Inl _) \<Rightarrow> False | _ \<Rightarrow> True)"

lemma auth_inv_frames:
  assumes "auth_inv L e d used out" and "wire = used @ rest"
  shows "\<exists>ms bs e'. frames aead_seal (L, e) ms = Some (bs, e') \<and> prefix bs wire \<and> prefix out (concat ms)"
  using assms by (cases "adr_steps d") (fastforce simp: auth_inv_def prefix_def)+

lemma delivered_Cons: "delivered (res # rs) = accepted_out res @ delivered rs"
  by (cases res; simp add: accepted_out_def; cases "case res of Ready x \<Rightarrow> x"; simp add: accepted_out_def)

lemma aead_reads_auth:
  assumes "aead_lib_ok L" and "source_ok pr left"
  shows "rd_wf d \<Longrightarrow> auth_inv L e d used out \<Longrightarrow> wire = used @ adr_buffer d @ left r \<Longrightarrow>
    aead_reads L pr d r ns = Some (Ret (rs, d', r')) \<Longrightarrow>
    \<exists>ms bs e'. frames aead_seal (L, e) ms = Some (bs, e') \<and> prefix bs wire
      \<and> prefix (out @ delivered (takeWhile no_error rs)) (concat ms)"
proof (induction ns arbitrary: d r used out rs)
  case Nil
  then show ?case using auth_inv_frames [OF Nil(2,3)] by simp
next
  case (Cons n ns)
  obtain res d1 r1 where p: "poll_read_decrypted L pr d r n = Some (Ret (res, d1, r1))" "rd_wf d1"
      "auth_post L e wire out res d1 (left r1)"
    using poll_any_input [OF assms Cons.prems(1)] Cons.prems(2,3) by blast
  obtain rs' where rs: "rs = res # rs'" "aead_reads L pr d1 r1 ns = Some (Ret (rs', d', r'))"
    using Cons.prems(4) p(1) by (auto split: option.splits rust.splits)
  show ?case
  proof (cases "no_error res")
    case True
    then obtain used' where "wire = used' @ adr_buffer d1 @ left r1" "auth_inv L e d1 used' (out @ accepted_out res)"
      using p(3) by (auto simp: auth_post_def no_error_def)
    from Cons.IH [OF p(2) this(2,1) rs(2)] rs(1) True show ?thesis by (simp add: delivered_Cons)
  next
    case False
    with rs(1) auth_inv_frames [OF Cons.prems(2,3)] show ?thesis by simp
  qed
qed

text \<open>
  C26. Whatever bytes arrive, in whatever pieces, the reader of an AEAD connection does not hang and does
  not panic: each poll returns a result.
\<close>

theorem tcp_aead_reader_total:
  assumes "aead_lib_ok L" and "category t = AeadCategory" and "AeadDecryptedReader_new L t key salt = Ret d0"
    and "source_ok pr left"
  shows "\<exists>rs d r. aead_reads L pr d0 r0 ns = Some (Ret (rs, d, r)) \<and> length rs = length ns"
  using aead_reads_total [OF assms(1,4) new_reader_auth(1) [OF assms(1-3)]] .

theorem tcp_aead_reader_total_witness:
  "\<exists>d0. AeadDecryptedReader_new sample_lib Aes128Gcm (replicate 16 7) [9] = Ret d0
     \<and> (\<exists>rs d r. aead_reads sample_lib pipe_read d0 [1, 2, 3] [5, 6] = Some (Ret (rs, d, r)) \<and> length rs = 2)"
proof -
  obtain d0 where d0: "AeadDecryptedReader_new sample_lib Aes128Gcm (replicate 16 7) [9] = Ret d0"
    by (rule sample_connection)
  show ?thesis
    using tcp_aead_reader_total [OF sample_aead_lib_ok _ d0 pipe_ok(2), of "[1, 2, 3]" "[5, 6]"] d0 by (simp add: numeral_2_eq_2)
qed

text \<open>
  C6. Nothing forged is delivered. Whatever bytes arrive, what the reader of an AEAD connection delivers
  before it reports an error is a prefix of payloads whose frames, sealed with the session's key and
  successive nonces, are the beginning of the bytes that arrived.
\<close>

theorem tcp_aead_authentic:
  assumes "aead_lib_ok L" and "category t = AeadCategory"
    and "new_aead_encryptor L t key salt = Ret e" and "AeadDecryptedReader_new L t key salt = Ret d0"
    and "source_ok pr left" and "aead_reads L pr d0 r0 ns = Some (Ret (rs, d, r))"
  shows "\<exists>ms bs e'. frames aead_seal (L, e) ms = Some (bs, e') \<and> prefix bs (left r0)
           \<and> prefix (delivered (takeWhile no_error rs)) (concat ms)"
proof -
  note new = new_reader_auth [OF assms(1,2,4)]
  show ?thesis
    using aead_reads_auth [OF assms(1,5) new(1) new(3) [OF assms(3)] _ assms(6), of "left r0"] new(2) by simp
qed

theorem tcp_aead_authentic_witness:
  "\<exists>e d0 rs d r ms bs e'. new_aead_encryptor sample_lib Aes128Gcm (replicate 16 7) [9] = Ret e
     \<and> AeadDecryptedReader_new sample_lib Aes128Gcm (replicate 16 7) [9] = Ret d0
     \<and> aead_reads sample_lib pipe_read d0 [1, 2, 3] [5, 6] = Some (Ret (rs, d, r))
     \<and> frames aead_seal (sample_lib, e) ms = Some (bs, e') \<and> prefix bs [1, 2, 3]
     \<and> prefix (delivered (takeWhile no_error rs)) (concat ms)"
proof -
  obtain w0 d0 where d0: "AeadEncryptedWriter_new sample_lib Aes128Gcm (replicate 16 7) [9] = Ret w0"
    "AeadDecryptedReader_new sample_lib Aes128Gcm (replicate 16 7) [9] = Ret d0"
    by (rule sample_connection)
  obtain e where e: "new_aead_encryptor sample_lib Aes128Gcm (replicate 16 7) [9] = Ret e"
    using d0(1) by (auto simp: AeadEncryptedWriter_new_def rust_bind_Ret_iff)
  have wf: "rd_wf d0" using new_reader_auth(1) [OF sample_aead_lib_ok _ d0(2)] by simp
  obtain rs d r where r: "aead_reads sample_lib pipe_read d0 [1, 2, 3] [5, 6] = Some (Ret (rs, d, r))"
    using aead_reads_total [OF sample_aead_lib_ok pipe_ok(2) wf] by blast
  show ?thesis
    using tcp_aead_authentic [OF sample_aead_lib_ok _ e d0(2) pipe_ok(2) r] e d0(2) r by fastforce
qed

end
