(* ===== verification/Stream_Cipher.thy ===== *)
theory Stream_Cipher
  imports Cipher_Type "HOL-Library.Multiset"
begin

text \<open>
  The stream ciphers of \<^verbatim>\<open>src/crypto/\<close>: the substitution table (\<^verbatim>\<open>table.rs\<close>), the identity
  (\<^verbatim>\<open>dummy.rs\<close>), the libsodium ciphers with their byte counter (\<^verbatim>\<open>sodium.rs\<close>), the OpenSSL ciphers
  (\<^verbatim>\<open>openssl.rs\<close>), RC4 with an MD5 key (\<^verbatim>\<open>rc4_md5.rs\<close>) and the constructor \<^verbatim>\<open>new_stream\<close>
  (\<^verbatim>\<open>stream.rs\<close>). A \<^verbatim>\<open>BoxStreamCipher\<close> is a value of \<open>StreamBox\<close>; \<open>stream_update\<close> returns the bytes it
  appends to its output buffer and the new state. The locale \<open>stream_pair\<close> is the interface the
  TCP and UDP relays rely on.
\<close>

section \<open>The table cipher\<close>

record TableCipher =
  tc_table :: bytes

text \<open>\<^verbatim>\<open>ReadBytesExt::read_u64::<LittleEndian>\<close> on the first eight bytes.\<close>

fun read_u64_le :: "bytes \<Rightarrow> nat option" where
  "read_u64_le (a # b # c # d # e # f # g # h # _) =
     Some (unat a + 256 * (unat b + 256 * (unat c + 256 * (unat d + 256 *
           (unat e + 256 * (unat f + 256 * (unat g + 256 * unat h)))))))"
| "read_u64_le _ = None"

definition table_round :: "nat \<Rightarrow> nat \<Rightarrow> nat list \<Rightarrow> nat list" where
  "table_round a i table = sort_key (\<lambda>x. a mod (x + i)) table"

definition table_of :: "nat \<Rightarrow> nat list" where
  "table_of a = fold (table_round a) [1..<1024] [0..<256]"

definition invert_table :: "nat list \<Rightarrow> nat list" where
  "invert_table table = fold (\<lambda>(idx, item) t. t[item := idx]) (enumerate 0 table) (replicate 256 0)"

definition TableCipher_new :: "'c crypto_lib \<Rightarrow> bytes \<Rightarrow> CryptoMode \<Rightarrow> TableCipher rust" where
  "TableCipher_new L key mode =
     (let md5_digest = digest_update (with_type Md5Type) key;
          key_digest = digest_digest L md5_digest []
      in rust_bind (expect (read_u64_le key_digest)) (\<lambda>a.
           let table = table_of a
           in Ret \<lparr>tc_table = map of_nat (case mode of Encrypt \<Rightarrow> table | Decrypt \<Rightarrow> invert_table table)\<rparr>))"

definition TableCipher_process :: "TableCipher \<Rightarrow> bytes \<Rightarrow> bytes" where
  "TableCipher_process c data = map (\<lambda>d. tc_table c ! unat d) data"

section \<open>The libsodium stream ciphers\<close>

record SodiumStreamCipher =
  ssc_type :: CipherType
  ssc_key :: bytes
  ssc_iv :: bytes
  ssc_counter :: nat

definition SODIUM_BLOCK_SIZE :: nat where "SODIUM_BLOCK_SIZE = 64"

definition SodiumStreamCipher_new :: "CipherType \<Rightarrow> bytes \<Rightarrow> bytes \<Rightarrow> SodiumStreamCipher rust" where
  "SodiumStreamCipher_new t key iv =
     rust_assert (t \<in> {ChaCha20, Salsa20, XSalsa20, ChaCha20Ietf})
       (Ret \<lparr>ssc_type = t, ssc_key = key, ssc_iv = iv, ssc_counter = 0\<rparr>)"

definition padding_len :: "SodiumStreamCipher \<Rightarrow> nat" where
  "padding_len c = ssc_counter c mod SODIUM_BLOCK_SIZE"

text \<open>The block counter is cut to 32 bits for the IETF variant of ChaCha20.\<close>

definition crypto_stream_xor_ic ::
    "'c crypto_lib \<Rightarrow> CipherType \<Rightarrow> nat \<Rightarrow> bytes \<Rightarrow> bytes \<Rightarrow> bytes \<Rightarrow> (cipher_error + bytes) rust" where
  "crypto_stream_xor_ic L t ic iv key data =
     (let result = (\<lambda>r. Ret (case r of None \<Rightarrow> Inl SodiumError | Some out \<Rightarrow> Inr out)) in
      case t of
        ChaCha20 \<Rightarrow> result (sodium_xor_ic L Sodium_chacha20 iv key ic data)
      | ChaCha20Ietf \<Rightarrow> result (sodium_xor_ic L Sodium_chacha20_ietf iv key (ic mod 2 ^ 32) data)
      | Salsa20 \<Rightarrow> result (sodium_xor_ic L Sodium_salsa20 iv key ic data)
      | XSalsa20 \<Rightarrow> result (sodium_xor_ic L Sodium_xsalsa20 iv key ic data)
      | _ \<Rightarrow> Panic)"

definition SodiumStreamCipher_process ::
    "'c crypto_lib \<Rightarrow> SodiumStreamCipher \<Rightarrow> bytes \<Rightarrow> (cipher_error + (bytes \<times> SodiumStreamCipher)) rust" where
  "SodiumStreamCipher_process L c data =
     (let padding = padding_len c;
          plain_text = replicate padding 0 @ data
      in rust_bind
           (crypto_stream_xor_ic L (ssc_type c) (ssc_counter c div SODIUM_BLOCK_SIZE) (ssc_iv c) (ssc_key c)
              plain_text)
           (\<lambda>r. Ret (bind_res r (\<lambda>out_buf.
              Inr (take (length data) (drop padding out_buf),
                   c\<lparr>ssc_counter := ssc_counter c + length data\<rparr>)))))"

section \<open>The OpenSSL ciphers\<close>

record 'c OpenSSLCrypto =
  oc_cipher :: openssl_cipher
  oc_inner :: 'c

fun openssl_cipher_of :: "'c crypto_lib \<Rightarrow> CipherType \<Rightarrow> openssl_cipher rust" where
  "openssl_cipher_of L Aes128Cfb = Ret OSSL_aes_128_cfb128"
| "openssl_cipher_of L Aes128Cfb1 = Ret OSSL_aes_128_cfb1"
| "openssl_cipher_of L Aes128Cfb128 = Ret OSSL_aes_128_cfb128"
| "openssl_cipher_of L Aes192Cfb = Ret OSSL_aes_192_cfb128"
| "openssl_cipher_of L Aes192Cfb1 = Ret OSSL_aes_192_cfb1"
| "openssl_cipher_of L Aes192Cfb128 = Ret OSSL_aes_192_cfb128"
| "openssl_cipher_of L Aes256Cfb = Ret OSSL_aes_256_cfb128"
| "openssl_cipher_of L Aes256Cfb1 = Ret OSSL_aes_256_cfb1"
| "openssl_cipher_of L Aes256Cfb128 = Ret OSSL_aes_256_cfb128"
| "openssl_cipher_of L Aes128Ctr = Ret OSSL_aes_128_ctr"
| "openssl_cipher_of L Aes192Ctr = Ret OSSL_aes_192_ctr"
| "openssl_cipher_of L Aes256Ctr = Ret OSSL_aes_256_ctr"
| "openssl_cipher_of L Camellia128Cfb = expect (ossl_from_nid L CAMELLIA_128_CFB128)"
| "openssl_cipher_of L Camellia128Cfb1 = expect (ossl_from_nid L CAMELLIA_128_CFB1)"
| "openssl_cipher_of L Camellia128Cfb8 = expect (ossl_from_nid L CAMELLIA_128_CFB8)"
| "openssl_cipher_of L Camellia128Cfb128 = expect (ossl_from_nid L CAMELLIA_128_CFB128)"
| "openssl_cipher_of L Camellia192Cfb = expect (ossl_from_nid L CAMELLIA_192_CFB128)"
| "openssl_cipher_of L Camellia192Cfb1 = expect (ossl_from_nid L CAMELLIA_192_CFB1)"
| "openssl_cipher_of L Camellia192Cfb8 = expect (ossl_from_nid L CAMELLIA_192_CFB8)"
| "openssl_cipher_of L Camellia192Cfb128 = expect (ossl_from_nid L CAMELLIA_192_CFB128)"
| "openssl_cipher_of L Camellia256Cfb = expect (ossl_from_nid L CAMELLIA_256_CFB128)"
| "openssl_cipher_of L Camellia256Cfb1 = expect (ossl_from_nid L CAMELLIA_256_CFB1)"
| "openssl_cipher_of L Camellia256Cfb8 = expect (ossl_from_nid L CAMELLIA_256_CFB8)"
| "openssl_cipher_of L Camellia256Cfb128 = expect (ossl_from_nid L CAMELLIA_256_CFB128)"
| "openssl_cipher_of L Rc4 = Ret OSSL_rc4"
| "openssl_cipher_of L _ = Panic"

definition OpenSSLCrypto_new ::
    "'c crypto_lib \<Rightarrow> CipherType \<Rightarrow> bytes \<Rightarrow> bytes \<Rightarrow> CryptoMode \<Rightarrow> 'c OpenSSLCrypto rust" where
  "OpenSSLCrypto_new L cipher_type key iv mode =
     rust_bind (openssl_cipher_of L cipher_type) (\<lambda>t.
     rust_bind (expect (crypter_new L t mode key iv)) (\<lambda>cipher.
       Ret \<lparr>oc_cipher = t, oc_inner = cipher\<rparr>))"

definition OpenSSLCrypto_update ::
    "'c crypto_lib \<Rightarrow> 'c OpenSSLCrypto \<Rightarrow> bytes \<Rightarrow> cipher_error + (bytes \<times> 'c OpenSSLCrypto)" where
  "OpenSSLCrypto_update L c data =
     bind_res (map_err OpenSSLError (crypter_update L (oc_inner c) data)) (\<lambda>(buf, inner).
       Inr (buf, c\<lparr>oc_inner := inner\<rparr>))"

definition OpenSSLCrypto_finalize ::
    "'c crypto_lib \<Rightarrow> 'c OpenSSLCrypto \<Rightarrow> cipher_error + (bytes \<times> 'c OpenSSLCrypto)" where
  "OpenSSLCrypto_finalize L c =
     bind_res (map_err OpenSSLError (crypter_finalize L (oc_inner c))) (\<lambda>(buf, inner).
       Inr (buf, c\<lparr>oc_inner := inner\<rparr>))"

definition OpenSSLCrypto_buffer_size :: "'c crypto_lib \<Rightarrow> 'c OpenSSLCrypto \<Rightarrow> bytes \<Rightarrow> nat" where
  "OpenSSLCrypto_buffer_size L c data = ossl_block_size L (oc_cipher c) + length data"

definition Rc4Md5Cipher_new ::
    "'c crypto_lib \<Rightarrow> bytes \<Rightarrow> bytes \<Rightarrow> CryptoMode \<Rightarrow> 'c OpenSSLCrypto rust" where
  "Rc4Md5Cipher_new L key iv mode =
     (let md5_digest = digest_update (digest_update (with_type Md5Type) key) iv;
          key = digest_digest L md5_digest []
      in OpenSSLCrypto_new L Rc4 key [] mode)"

section \<open>Boxed stream ciphers\<close>

datatype 'c StreamBox =
    TableBox TableCipher
  | DummyBox
  | SodiumBox SodiumStreamCipher
  | Rc4Md5Box "'c OpenSSLCrypto"
  | OpenSSLBox "'c OpenSSLCrypto"

definition openssl_stream_types :: "CipherType list" where
  "openssl_stream_types =
     [Aes128Cfb, Aes128Cfb1, Aes128Cfb8, Aes128Cfb128, Aes192Cfb, Aes192Cfb1, Aes192Cfb8, Aes192Cfb128,
      Aes256Cfb, Aes256Cfb1, Aes256Cfb8, Aes256Cfb128, Aes128Ctr, Aes192Ctr, Aes256Ctr,
      Camellia128Cfb, Camellia128Cfb1, Camellia128Cfb8, Camellia128Cfb128,
      Camellia192Cfb, Camellia192Cfb1, Camellia192Cfb8, Camellia192Cfb128,
      Camellia256Cfb, Camellia256Cfb1, Camellia256Cfb8, Camellia256Cfb128]"

definition new_stream ::
    "'c crypto_lib \<Rightarrow> CipherType \<Rightarrow> bytes \<Rightarrow> bytes \<Rightarrow> CryptoMode \<Rightarrow> 'c StreamBox rust" where
  "new_stream L t key iv mode =
     rust_assert (category t = StreamCategory)
       (if t = Table then rust_bind (TableCipher_new L key mode) (\<lambda>c. Ret (TableBox c))
        else if t = Plain then Ret DummyBox
        else if t \<in> {ChaCha20, Salsa20, XSalsa20, ChaCha20Ietf} then
          rust_bind (SodiumStreamCipher_new t key iv) (\<lambda>c. Ret (SodiumBox c))
        else if t = Rc4Md5 then rust_bind (Rc4Md5Cipher_new L key iv mode) (\<lambda>c. Ret (Rc4Md5Box c))
        else if t \<in> set openssl_stream_types then
          rust_bind (OpenSSLCrypto_new L t key iv mode) (\<lambda>c. Ret (OpenSSLBox c))
        else Panic)"

type_synonym 'c stream_result = "(cipher_error + (bytes \<times> 'c StreamBox)) rust"

fun stream_update :: "'c crypto_lib \<Rightarrow> 'c StreamBox \<Rightarrow> bytes \<Rightarrow> 'c stream_result" where
  "stream_update L (TableBox c) data = Ret (Inr (TableCipher_process c data, TableBox c))"
| "stream_update L DummyBox data = Ret (Inr (data, DummyBox))"
| "stream_update L (SodiumBox c) data =
     rust_bind (SodiumStreamCipher_process L c data) (\<lambda>r. Ret (bind_res r (\<lambda>(out, c). Inr (out, SodiumBox c))))"
| "stream_update L (Rc4Md5Box c) data =
     Ret (bind_res (OpenSSLCrypto_update L c data) (\<lambda>(out, c). Inr (out, Rc4Md5Box c)))"
| "stream_update L (OpenSSLBox c) data =
     Ret (bind_res (OpenSSLCrypto_update L c data) (\<lambda>(out, c). Inr (out, OpenSSLBox c)))"

fun stream_finalize :: "'c crypto_lib \<Rightarrow> 'c StreamBox \<Rightarrow> 'c stream_result" where
  "stream_finalize L (Rc4Md5Box c) =
     Ret (bind_res (OpenSSLCrypto_finalize L c) (\<lambda>(out, c). Inr (out, Rc4Md5Box c)))"
| "stream_finalize L (OpenSSLBox c) =
     Ret (bind_res (OpenSSLCrypto_finalize L c) (\<lambda>(out, c). Inr (out, OpenSSLBox c)))"
| "stream_finalize L c = Ret (Inr ([], c))"

fun stream_buffer_size :: "'c crypto_lib \<Rightarrow> 'c StreamBox \<Rightarrow> bytes \<Rightarrow> nat" where
  "stream_buffer_size L (Rc4Md5Box c) data = OpenSSLCrypto_buffer_size L c data"
| "stream_buffer_size L (OpenSSLBox c) data = OpenSSLCrypto_buffer_size L c data"
| "stream_buffer_size L c data = length data"

section \<open>The table is a permutation\<close>

lemma mset_table_fold: "mset (fold (table_round a) is xs) = mset xs"
  by (induction "is" arbitrary: xs) (simp_all add: table_round_def)

lemma mset_table_of: "mset (table_of a) = mset [0..<256]"
  by (simp add: table_of_def mset_table_fold del: upt_Suc)

lemma table_of_perm:
  "distinct (table_of a)" "set (table_of a) = {0..<256}" "length (table_of a) = 256"
  using mset_table_of [of a] mset_eq_imp_distinct_iff [of "table_of a" "[0..<256]"]
    mset_eq_setD [of "table_of a" "[0..<256]"] mset_eq_length [of "table_of a" "[0..<256]"]
  by auto

definition table_store :: "nat \<Rightarrow> nat list \<Rightarrow> nat list \<Rightarrow> nat list" where
  "table_store k xs t = fold (\<lambda>(idx, item) t. t[item := idx]) (enumerate k xs) t"

lemma table_store_simps [simp]:
  "table_store k [] t = t"
  "table_store k (x # xs) t = table_store (Suc k) xs (t[x := k])"
  by (simp_all add: table_store_def)

lemma length_table_store [simp]: "length (table_store k xs t) = length t"
  by (induction xs arbitrary: k t) simp_all

lemma table_store_other: "y \<notin> set xs \<Longrightarrow> table_store k xs t ! y = t ! y"
  by (induction xs arbitrary: k t) simp_all

lemma table_store_nth:
  "\<lbrakk>distinct xs; set xs \<subseteq> {0..<length t}; j < length xs\<rbrakk> \<Longrightarrow> table_store k xs t ! (xs ! j) = k + j"
proof (induction xs arbitrary: k t j)
  case (Cons x xs)
  then show ?case
    by (cases j) (simp_all add: table_store_other)
qed simp

lemma invert_table_nth: "i < 256 \<Longrightarrow> invert_table (table_of a) ! (table_of a ! i) = i"
  using table_store_nth [of "table_of a" "replicate 256 0" i 0] table_of_perm [of a]
  by (simp add: invert_table_def table_store_def)

lemma length_invert_table [simp]: "length (invert_table t) = 256"
  using length_table_store [of 0 t "replicate 256 0"] by (simp add: invert_table_def table_store_def)

lemma table_of_less: "i < 256 \<Longrightarrow> table_of a ! i < 256"
  using table_of_perm [of a] nth_mem [of i "table_of a"] by auto

lemma table_round_trip:
  assumes "TableCipher_new L key Encrypt = Ret e" and "TableCipher_new L key Decrypt = Ret d"
  shows "TableCipher_process d (TableCipher_process e x) = x"
proof -
  obtain a where e: "tc_table e = map of_nat (table_of a)"
    and d: "tc_table d = map of_nat (invert_table (table_of a))"
    using assms by (cases "read_u64_le (lib_md5 L key)") (auto simp: TableCipher_new_def Let_def)
  have "tc_table d ! unat (tc_table e ! unat b) = b" for b :: u8
  proof -
    have "tc_table e ! unat b = of_nat (table_of a ! unat b)"
      by (simp add: e table_of_perm)
    moreover have "unat (of_nat (table_of a ! unat b) :: u8) = table_of a ! unat b"
      using table_of_less [of "unat b" a] by (simp add: unat_of_nat_u8)
    ultimately show ?thesis
      using table_of_less [of "unat b" a] invert_table_nth [of "unat b" a] by (simp add: d)
  qed
  then show ?thesis by (simp add: TableCipher_process_def o_def)
qed

section \<open>The byte counter of the libsodium ciphers\<close>

text \<open>
  libsodium xors the data with a key stream that starts at the given 64 byte block. The IETF
  variant has a 32 bit block counter and is defined up to its end.
\<close>

type_synonym keystream = "sodium_alg \<Rightarrow> bytes \<Rightarrow> bytes \<Rightarrow> nat \<Rightarrow> u8"

definition ks_limit :: "sodium_alg \<Rightarrow> nat" where
  "ks_limit a = (if a = Sodium_chacha20_ietf then 2 ^ 38 else 2 ^ 70)"

definition xor_ks :: "(nat \<Rightarrow> u8) \<Rightarrow> nat \<Rightarrow> bytes \<Rightarrow> bytes" where
  "xor_ks ks from data = map (\<lambda>i. xor (data ! i) (ks (from + i))) [0..<length data]"

definition sodium_keystream :: "'c crypto_lib \<Rightarrow> keystream \<Rightarrow> bool" where
  "sodium_keystream L ks \<longleftrightarrow>
     (\<forall>a iv key ic data. ic * 64 + length data \<le> ks_limit a \<longrightarrow>
        sodium_xor_ic L a iv key ic data = Some (xor_ks (ks a iv key) (ic * 64) data))"

fun sodium_alg_of :: "CipherType \<Rightarrow> sodium_alg" where
  "sodium_alg_of ChaCha20 = Sodium_chacha20"
| "sodium_alg_of ChaCha20Ietf = Sodium_chacha20_ietf"
| "sodium_alg_of Salsa20 = Sodium_salsa20"
| "sodium_alg_of _ = Sodium_xsalsa20"

abbreviation sodium_types :: "CipherType set" where
  "sodium_types \<equiv> {ChaCha20, Salsa20, XSalsa20, ChaCha20Ietf}"

lemma length_xor_ks [simp]: "length (xor_ks ks n x) = length x"
  by (simp add: xor_ks_def)

lemma xor_ks_append: "xor_ks ks n (x @ y) = xor_ks ks n x @ xor_ks ks (n + length x) y"
  by (rule nth_equalityI) (auto simp: xor_ks_def nth_append add.assoc)

lemma xor_ks_xor_ks [simp]: "xor_ks ks n (xor_ks ks n x) = x"
  by (rule nth_equalityI) (auto simp: xor_ks_def ac_simps)

lemma crypto_stream_xor_ic_keystream:
  assumes "sodium_keystream L ks" and "t \<in> sodium_types"
    and "ic * 64 + length data \<le> ks_limit (sodium_alg_of t)" and "ic < 2 ^ 32 \<or> t \<noteq> ChaCha20Ietf"
  shows "crypto_stream_xor_ic L t ic iv key data =
           Ret (Inr (xor_ks (ks (sodium_alg_of t) iv key) (ic * 64) data))"
  using assms by (auto simp: crypto_stream_xor_ic_def sodium_keystream_def)

text \<open>
  With the padding the cipher reaches every byte of the key stream, so that its output depends on
  its position only.
\<close>

lemma sodium_process_keystream:
  assumes ks: "sodium_keystream L ks" and t: "ssc_type c \<in> sodium_types"
    and bound: "ssc_counter c + length data \<le> ks_limit (sodium_alg_of (ssc_type c))"
  shows "SodiumStreamCipher_process L c data =
           Ret (Inr (xor_ks (ks (sodium_alg_of (ssc_type c)) (ssc_iv c) (ssc_key c)) (ssc_counter c) data,
                     c\<lparr>ssc_counter := ssc_counter c + length data\<rparr>))"
proof (cases "ssc_counter c div 64 < 2 ^ 32 \<or> ssc_type c \<noteq> ChaCha20Ietf")
  case True
  let ?n = "ssc_counter c" and ?ks = "ks (sodium_alg_of (ssc_type c)) (ssc_iv c) (ssc_key c)"
  have split: "?n div 64 * 64 + ?n mod 64 = ?n" by simp
  have "?n div 64 * 64 + length (replicate (?n mod 64) 0 @ data) \<le> ks_limit (sodium_alg_of (ssc_type c))"
    using bound split by simp
  then have "crypto_stream_xor_ic L (ssc_type c) (?n div 64) (ssc_iv c) (ssc_key c)
      (replicate (?n mod 64) 0 @ data) =
      Ret (Inr (xor_ks ?ks (?n div 64 * 64) (replicate (?n mod 64) 0 @ data)))"
    using ks t True by (intro crypto_stream_xor_ic_keystream) auto
  then show ?thesis
    using split
    by (simp add: SodiumStreamCipher_process_def padding_len_def SODIUM_BLOCK_SIZE_def Let_def
        xor_ks_append del: mult_div_mod_eq)
next
  case False
  then have "2 ^ 32 * 64 \<le> ssc_counter c" "ssc_type c = ChaCha20Ietf"
    by auto
  moreover from this bound have "ssc_counter c + length data \<le> 2 ^ 32 * 64"
    by (simp add: ks_limit_def)
  ultimately have "length data = 0" "ssc_counter c = 2 ^ 32 * 64" "ssc_type c = ChaCha20Ietf"
    by linarith+
  then have "ssc_counter c = 2 ^ 38" "data = []" "ssc_type c = ChaCha20Ietf"
    by simp_all
  with ks show ?thesis
    by (simp add: SodiumStreamCipher_process_def padding_len_def SODIUM_BLOCK_SIZE_def Let_def
        crypto_stream_xor_ic_def sodium_keystream_def ks_limit_def xor_ks_def)
qed

section \<open>The interface of a pair of stream ciphers\<close>

text \<open>
  \<open>synced n e d\<close>: encryptor and decryptor are in step and good for \<open>n\<close> further bytes. The decryptor
  alone is \<open>valid n\<close>, and its output does not depend on how its input is cut into pieces.
\<close>

primrec feed :: "('s \<Rightarrow> bytes \<Rightarrow> (bytes \<times> 's) option) \<Rightarrow> 's \<Rightarrow> bytes list \<Rightarrow> (bytes \<times> 's) option" where
  "feed f s [] = Some ([], s)"
| "feed f s (x # xs) =
     (case f s x of
        None \<Rightarrow> None
      | Some (y, s') \<Rightarrow> map_option (\<lambda>(ys, s''). (y @ ys, s'')) (feed f s' xs))"

locale stream_pair =
  fixes enc :: "'e \<Rightarrow> bytes \<Rightarrow> (bytes \<times> 'e) option"
    and dec :: "'d \<Rightarrow> bytes \<Rightarrow> (bytes \<times> 'd) option"
    and synced :: "nat \<Rightarrow> 'e \<Rightarrow> 'd \<Rightarrow> bool"
    and valid :: "nat \<Rightarrow> 'd \<Rightarrow> bool"
  assumes synced_valid: "synced n e d \<Longrightarrow> valid n d"
    and synced_step: "\<lbrakk>synced n e d; length x \<le> n\<rbrakk> \<Longrightarrow>
      \<exists>y e' d'. enc e x = Some (y, e') \<and> length y = length x \<and> dec d y = Some (x, d')
              \<and> synced (n - length x) e' d'"
    and valid_step: "\<lbrakk>valid n d; length y \<le> n\<rbrakk> \<Longrightarrow>
      \<exists>x d'. dec d y = Some (x, d') \<and> length x = length y \<and> valid (n - length y) d'"
    and valid_append: "\<lbrakk>valid n d; length (y1 @ y2) \<le> n; dec d y1 = Some (x1, d1); dec d1 y2 = Some (x2, d2)\<rbrakk> \<Longrightarrow>
      dec d (y1 @ y2) = Some (x1 @ x2, d2)"
begin

lemma feed_dec:
  assumes "valid n d" and "length (concat cs) \<le> n"
  shows "\<exists>x d'. feed dec d cs = Some (x, d') \<and> (cs \<noteq> [] \<longrightarrow> dec d (concat cs) = Some (x, d'))
              \<and> length x = length (concat cs) \<and> valid (n - length (concat cs)) d'"
  using assms
proof (induction cs arbitrary: d n)
  case (Cons c cs)
  then obtain x d1 where x: "dec d c = Some (x, d1)" "length x = length c" "valid (n - length c) d1"
    using valid_step [of n d c] by auto
  have "length (concat cs) \<le> n - length c" using Cons.prems by simp
  from Cons.IH [OF x(3) this] obtain xs d2 where xs: "feed dec d1 cs = Some (xs, d2)"
      "cs \<noteq> [] \<longrightarrow> dec d1 (concat cs) = Some (xs, d2)"
      "length xs = length (concat cs)" "valid (n - length c - length (concat cs)) d2"
    by blast
  show ?case
  proof (cases "cs = []")
    case False
    then show ?thesis
      using valid_append [OF Cons.prems(1), of c "concat cs" x d1 xs d2] Cons.prems x xs by auto
  qed (use x xs in auto)
qed simp

lemma feed_enc_dec:
  assumes "synced n e d" and "length (concat ms) \<le> n"
  shows "\<exists>y e' d'. feed enc e ms = Some (y, e') \<and> length y = length (concat ms)
              \<and> dec d y = Some (concat ms, d') \<and> (ms \<noteq> [] \<longrightarrow> synced (n - length y) e' d')"
  using assms
proof (induction ms arbitrary: e d n)
  case Nil
  then show ?case using synced_step [of n e d "[]"] by auto
next
  case (Cons m ms)
  then obtain y e1 d1 where y: "enc e m = Some (y, e1)" "length y = length m" "dec d y = Some (m, d1)"
      "synced (n - length m) e1 d1"
    using synced_step [of n e d m] by auto
  have "length (concat ms) \<le> n - length m" using Cons.prems by simp
  from Cons.IH [OF y(4) this] obtain ys e2 d2 where ys: "feed enc e1 ms = Some (ys, e2)"
      "length ys = length (concat ms)" "dec d1 ys = Some (concat ms, d2)"
      "ms \<noteq> [] \<longrightarrow> synced (n - length m - length ys) e2 d2"
    by blast
  with y ys have "dec d (y @ ys) = Some (m @ concat ms, d2)"
    using valid_append [OF synced_valid [OF Cons.prems(1)], of y ys m d1 "concat ms" d2] Cons.prems by simp
  show ?case
  proof (cases "ms = []")
    case True
    with y Cons.prems show ?thesis by auto
  next
    case False
    with y ys \<open>dec d (y @ ys) = _\<close> show ?thesis by auto
  qed
qed

lemma chunked_round_trip:
  assumes "synced n e d" and "length (concat ms) \<le> n" and "feed enc e ms = Some (y, e')"
    and "concat cs = y"
  shows "\<exists>d'. feed dec d cs = Some (concat ms, d')"
proof -
  obtain d1 where "dec d y = Some (concat ms, d1)" "length y = length (concat ms)"
    using feed_enc_dec [OF assms(1,2)] assms(3) by auto
  moreover from this obtain x d2 where "feed dec d cs = Some (x, d2)"
      "cs \<noteq> [] \<longrightarrow> dec d (concat cs) = Some (x, d2)" "length x = length (concat cs)"
    using feed_dec [OF synced_valid [OF assms(1)], of cs] assms by auto
  ultimately show ?thesis
    using assms(4) by (cases "cs = []") (auto split: option.splits)
qed

end

section \<open>The boxed ciphers implement the interface\<close>

text \<open>
  What the sources rely on of an OpenSSL \<^verbatim>\<open>Crypter\<close> in a stream mode: \<open>R\<close> relates an encryptor and a
  decryptor of the same key and vector that have processed the same bytes, \<open>D\<close> holds of the decryptors.
\<close>

definition crypter_sync :: "'c crypto_lib \<Rightarrow> ('c \<Rightarrow> 'c \<Rightarrow> bool) \<Rightarrow> ('c \<Rightarrow> bool) \<Rightarrow> bool" where
  "crypter_sync L R D \<longleftrightarrow>
     (\<forall>c key iv e d. crypter_new L c Encrypt key iv = Some e \<and> crypter_new L c Decrypt key iv = Some d \<longrightarrow> R e d)
   \<and> (\<forall>e d. R e d \<longrightarrow> D d)
   \<and> (\<forall>e d x. R e d \<longrightarrow> (\<exists>y e' d'. crypter_update L e x = Inr (y, e') \<and> length y = length x
        \<and> crypter_update L d y = Inr (x, d') \<and> R e' d'))
   \<and> (\<forall>d y. D d \<longrightarrow> (\<exists>x d'. crypter_update L d y = Inr (x, d') \<and> length x = length y \<and> D d'))
   \<and> (\<forall>d y1 y2 x1 x2 d1 d2. D d \<and> crypter_update L d y1 = Inr (x1, d1) \<and> crypter_update L d1 y2 = Inr (x2, d2)
        \<longrightarrow> crypter_update L d (y1 @ y2) = Inr (x1 @ x2, d2))"

definition stream_step ::
    "'c crypto_lib \<times> 'c StreamBox \<Rightarrow> bytes \<Rightarrow> (bytes \<times> 'c crypto_lib \<times> 'c StreamBox) option" where
  "stream_step s x =
     (case stream_update (fst s) (snd s) x of Ret (Inr (y, b)) \<Rightarrow> Some (y, fst s, b) | _ \<Rightarrow> None)"

fun box_synced :: "'c crypto_lib \<Rightarrow> nat \<Rightarrow> 'c StreamBox \<Rightarrow> 'c StreamBox \<Rightarrow> bool" where
  "box_synced L n (TableBox e) (TableBox d) \<longleftrightarrow>
     (\<exists>key. TableCipher_new L key Encrypt = Ret e \<and> TableCipher_new L key Decrypt = Ret d)"
| "box_synced L n DummyBox DummyBox \<longleftrightarrow> True"
| "box_synced L n (SodiumBox e) (SodiumBox d) \<longleftrightarrow>
     e = d \<and> ssc_type d \<in> sodium_types \<and> ssc_counter d + n \<le> ks_limit (sodium_alg_of (ssc_type d))
     \<and> (\<exists>ks. sodium_keystream L ks)"
| "box_synced L n (Rc4Md5Box e) (Rc4Md5Box d) \<longleftrightarrow> (\<exists>R D. crypter_sync L R D \<and> R (oc_inner e) (oc_inner d))"
| "box_synced L n (OpenSSLBox e) (OpenSSLBox d) \<longleftrightarrow> (\<exists>R D. crypter_sync L R D \<and> R (oc_inner e) (oc_inner d))"
| "box_synced L n _ _ \<longleftrightarrow> False"

fun box_valid :: "'c crypto_lib \<Rightarrow> nat \<Rightarrow> 'c StreamBox \<Rightarrow> bool" where
  "box_valid L n (TableBox d) \<longleftrightarrow> True"
| "box_valid L n DummyBox \<longleftrightarrow> True"
| "box_valid L n (SodiumBox d) \<longleftrightarrow>
     ssc_type d \<in> sodium_types \<and> ssc_counter d + n \<le> ks_limit (sodium_alg_of (ssc_type d))
     \<and> (\<exists>ks. sodium_keystream L ks)"
| "box_valid L n (Rc4Md5Box d) \<longleftrightarrow> (\<exists>R D. crypter_sync L R D \<and> D (oc_inner d))"
| "box_valid L n (OpenSSLBox d) \<longleftrightarrow> (\<exists>R D. crypter_sync L R D \<and> D (oc_inner d))"

definition stream_synced :: "nat \<Rightarrow> 'c crypto_lib \<times> 'c StreamBox \<Rightarrow> 'c crypto_lib \<times> 'c StreamBox \<Rightarrow> bool" where
  "stream_synced n e d \<longleftrightarrow> fst e = fst d \<and> box_synced (fst e) n (snd e) (snd d)"

definition stream_valid :: "nat \<Rightarrow> 'c crypto_lib \<times> 'c StreamBox \<Rightarrow> bool" where
  "stream_valid n d \<longleftrightarrow> box_valid (fst d) n (snd d)"

lemma crypter_sync_step:
  assumes "crypter_sync L R D" and "R (oc_inner e) (oc_inner d)"
  shows "\<exists>y e' d'. OpenSSLCrypto_update L e x = Inr (y, e') \<and> length y = length x
           \<and> OpenSSLCrypto_update L d y = Inr (x, d') \<and> R (oc_inner e') (oc_inner d')"
proof -
  obtain y e' d' where "crypter_update L (oc_inner e) x = Inr (y, e')" "length y = length x"
      "crypter_update L (oc_inner d) y = Inr (x, d')" "R e' d'"
    using assms unfolding crypter_sync_def by metis
  then show ?thesis
    by (auto simp: OpenSSLCrypto_update_def)
qed

lemma crypter_valid_step:
  assumes "crypter_sync L R D" and "D (oc_inner d)"
  shows "\<exists>x d'. OpenSSLCrypto_update L d y = Inr (x, d') \<and> length x = length y \<and> D (oc_inner d')"
proof -
  obtain x d' where "crypter_update L (oc_inner d) y = Inr (x, d')" "length x = length y" "D d'"
    using assms unfolding crypter_sync_def by metis
  then show ?thesis by (auto simp: OpenSSLCrypto_update_def)
qed

lemma crypter_valid_append:
  assumes "crypter_sync L R D" and "D (oc_inner d)"
    and "OpenSSLCrypto_update L d y1 = Inr (x1, d1)" and "OpenSSLCrypto_update L d1 y2 = Inr (x2, d2)"
  shows "OpenSSLCrypto_update L d (y1 @ y2) = Inr (x1 @ x2, d2)"
proof -
  obtain i1 i2 where i: "crypter_update L (oc_inner d) y1 = Inr (x1, i1)" "d1 = d\<lparr>oc_inner := i1\<rparr>"
      "crypter_update L i1 y2 = Inr (x2, i2)" "d2 = d1\<lparr>oc_inner := i2\<rparr>"
    using assms(3,4) by (auto simp: OpenSSLCrypto_update_def bind_res_Inr_iff elim!: map_err.elims)
  have "crypter_update L (oc_inner d) (y1 @ y2) = Inr (x1 @ x2, i2)"
    using assms(1,2) i(1,3) unfolding crypter_sync_def by blast
  with i show ?thesis by (simp add: OpenSSLCrypto_update_def)
qed

lemma crypter_sync_valid: "crypter_sync L R D \<Longrightarrow> R e d \<Longrightarrow> D d"
  unfolding crypter_sync_def by blast

lemma box_synced_valid: "box_synced L n e d \<Longrightarrow> box_valid L n d"
  by (induction L n e d rule: box_synced.induct) (auto dest: crypter_sync_valid)

lemma box_synced_step:
  assumes "box_synced L n e d" and "length x \<le> n"
  shows "\<exists>y e' d'. stream_update L e x = Ret (Inr (y, e')) \<and> length y = length x
           \<and> stream_update L d y = Ret (Inr (x, d')) \<and> box_synced L (n - length x) e' d'"
  using assms
proof (induction L n e d rule: box_synced.induct)
  case (1 L n e d)
  then have "TableCipher_process d (TableCipher_process e x) = x"
    using table_round_trip by auto
  with 1 show ?case by (auto simp: TableCipher_process_def)
next
  case (3 L n e d)
  then obtain ks where ks: "sodium_keystream L ks" by auto
  let ?y = "xor_ks (ks (sodium_alg_of (ssc_type d)) (ssc_iv d) (ssc_key d)) (ssc_counter d) x"
  have "SodiumStreamCipher_process L d x = Ret (Inr (?y, d\<lparr>ssc_counter := ssc_counter d + length x\<rparr>))"
    using 3 ks by (intro sodium_process_keystream) auto
  moreover have "SodiumStreamCipher_process L d ?y = Ret (Inr (x, d\<lparr>ssc_counter := ssc_counter d + length x\<rparr>))"
    using 3 ks by (subst sodium_process_keystream) auto
  ultimately show ?case using 3 by auto
next
  case (4 L n e d)
  then obtain R D where rd: "crypter_sync L R D" "R (oc_inner e) (oc_inner d)" by auto
  from crypter_sync_step [OF this, of x] obtain y e' d' where
      "OpenSSLCrypto_update L e x = Inr (y, e')" "length y = length x"
      "OpenSSLCrypto_update L d y = Inr (x, d')" "R (oc_inner e') (oc_inner d')" by blast
  with rd(1) show ?case by auto
next
  case (5 L n e d)
  then obtain R D where rd: "crypter_sync L R D" "R (oc_inner e) (oc_inner d)" by auto
  from crypter_sync_step [OF this, of x] obtain y e' d' where
      "OpenSSLCrypto_update L e x = Inr (y, e')" "length y = length x"
      "OpenSSLCrypto_update L d y = Inr (x, d')" "R (oc_inner e') (oc_inner d')" by blast
  with rd(1) show ?case by auto
qed simp_all

lemma box_valid_step:
  assumes "box_valid L n d" and "length y \<le> n"
  shows "\<exists>x d'. stream_update L d y = Ret (Inr (x, d')) \<and> length x = length y \<and> box_valid L (n - length y) d'"
  using assms
proof (induction L n d rule: box_valid.induct)
  case (3 L n d)
  then obtain ks where ks: "sodium_keystream L ks" by auto
  with 3 show ?case by (auto simp: sodium_process_keystream [OF ks])
next
  case (4 L n d)
  then obtain R D where rd: "crypter_sync L R D" "D (oc_inner d)" by auto
  from crypter_valid_step [OF this, of y] obtain x d' where
      "OpenSSLCrypto_update L d y = Inr (x, d')" "length x = length y" "D (oc_inner d')" by blast
  with rd(1) show ?case by auto
next
  case (5 L n d)
  then obtain R D where rd: "crypter_sync L R D" "D (oc_inner d)" by auto
  from crypter_valid_step [OF this, of y] obtain x d' where
      "OpenSSLCrypto_update L d y = Inr (x, d')" "length x = length y" "D (oc_inner d')" by blast
  with rd(1) show ?case by auto
qed (simp_all add: TableCipher_process_def)

lemma box_valid_append:
  assumes "box_valid L n d" and "length (y1 @ y2) \<le> n"
    and "stream_update L d y1 = Ret (Inr (x1, d1))" and "stream_update L d1 y2 = Ret (Inr (x2, d2))"
  shows "stream_update L d (y1 @ y2) = Ret (Inr (x1 @ x2, d2))"
  using assms
proof (induction L n d rule: box_valid.induct)
  case (3 L n d)
  then obtain ks where ks: "sodium_keystream L ks" by auto
  with 3 show ?case by (auto simp: sodium_process_keystream [OF ks] xor_ks_append add.assoc)
next
  case (4 L n d)
  then obtain R D where rd: "crypter_sync L R D" "D (oc_inner d)" by auto
  obtain c1 where "OpenSSLCrypto_update L d y1 = Inr (x1, c1)" "d1 = Rc4Md5Box c1"
    using 4 by (auto simp: bind_res_Inr_iff)
  moreover from this obtain c2 where "OpenSSLCrypto_update L c1 y2 = Inr (x2, c2)" "d2 = Rc4Md5Box c2"
    using 4 by (auto simp: bind_res_Inr_iff)
  ultimately show ?case using crypter_valid_append [OF rd, of y1 x1 c1 y2 x2 c2] by simp
next
  case (5 L n d)
  then obtain R D where rd: "crypter_sync L R D" "D (oc_inner d)" by auto
  obtain c1 where "OpenSSLCrypto_update L d y1 = Inr (x1, c1)" "d1 = OpenSSLBox c1"
    using 5 by (auto simp: bind_res_Inr_iff)
  moreover from this obtain c2 where "OpenSSLCrypto_update L c1 y2 = Inr (x2, c2)" "d2 = OpenSSLBox c2"
    using 5 by (auto simp: bind_res_Inr_iff)
  ultimately show ?case using crypter_valid_append [OF rd, of y1 x1 c1 y2 x2 c2] by simp
qed (auto simp: TableCipher_process_def)

lemma stream_step_Some:
  "stream_step s x = Some (y, s') \<longleftrightarrow>
     fst s' = fst s \<and> stream_update (fst s) (snd s) x = Ret (Inr (y, snd s'))"
  by (cases s') (auto simp: stream_step_def split: rust.splits sum.splits)

interpretation stream_box: stream_pair stream_step stream_step stream_synced stream_valid
proof
  show "stream_valid n d" if "stream_synced n e d" for n and e d :: "'a crypto_lib \<times> 'a StreamBox"
    using that box_synced_valid by (auto simp: stream_synced_def stream_valid_def)
  show "\<exists>y e' d'. stream_step e x = Some (y, e') \<and> length y = length x \<and> stream_step d y = Some (x, d')
      \<and> stream_synced (n - length x) e' d'"
    if "stream_synced n e d" "length x \<le> n" for n x and e d :: "'a crypto_lib \<times> 'a StreamBox"
    using that box_synced_step [of "fst d" n "snd e" "snd d" x]
    by (auto simp: stream_synced_def stream_step_Some)
  show "\<exists>x d'. stream_step d y = Some (x, d') \<and> length x = length y \<and> stream_valid (n - length y) d'"
    if "stream_valid n d" "length y \<le> n" for n y and d :: "'a crypto_lib \<times> 'a StreamBox"
    using that box_valid_step [of "fst d" n "snd d" y]
    by (auto simp: stream_valid_def stream_step_Some)
  show "stream_step d (y1 @ y2) = Some (x1 @ x2, d2)"
    if "stream_valid n d" "length (y1 @ y2) \<le> n" "stream_step d y1 = Some (x1, d1)"
      "stream_step d1 y2 = Some (x2, d2)"
    for n y1 y2 x1 x2 and d d1 d2 :: "'a crypto_lib \<times> 'a StreamBox"
    using that box_valid_append [of "fst d" n "snd d" y1 y2 x1 "snd d1" x2 "snd d2"]
    by (auto simp: stream_valid_def stream_step_Some)
qed

text \<open>Two ciphers built by \<^verbatim>\<open>new_stream\<close> for the same method, key and vector are in step.\<close>

lemma OpenSSLCrypto_new_sync:
  assumes "crypter_sync L R D" and "OpenSSLCrypto_new L t key iv Encrypt = Ret e"
    and "OpenSSLCrypto_new L t key iv Decrypt = Ret d"
  shows "R (oc_inner e) (oc_inner d)"
proof -
  obtain c i j where "crypter_new L c Encrypt key iv = Some i" "e = \<lparr>oc_cipher = c, oc_inner = i\<rparr>"
      "crypter_new L c Decrypt key iv = Some j" "d = \<lparr>oc_cipher = c, oc_inner = j\<rparr>"
    using assms(2,3)
    by (auto simp: OpenSSLCrypto_new_def rust_bind_Ret_iff)
  with assms(1) show ?thesis unfolding crypter_sync_def by auto
qed

lemma new_stream_synced:
  assumes ks: "sodium_keystream L ks" and cs: "crypter_sync L R D"
    and e: "new_stream L t key iv Encrypt = Ret e" and d: "new_stream L t key iv Decrypt = Ret d"
    and n: "n \<le> 2 ^ 38"
  shows "stream_synced n (L, e) (L, d)"
proof -
  consider "t = Table" | "t = Plain" | "t \<in> sodium_types" | "t = Rc4Md5" | "t \<in> set openssl_stream_types"
    using e by (auto simp: new_stream_def rust_assert_def split: if_splits)
  then show ?thesis
  proof cases
    case 1
    with e d show ?thesis
      by (auto simp: new_stream_def rust_assert_def rust_bind_Ret_iff stream_synced_def)
  next
    case 2
    with e d show ?thesis
      by (auto simp: new_stream_def rust_assert_def stream_synced_def)
  next
    case 3
    with e d n have "e = SodiumBox \<lparr>ssc_type = t, ssc_key = key, ssc_iv = iv, ssc_counter = 0\<rparr>" "d = e"
      by (auto simp: new_stream_def rust_assert_def SodiumStreamCipher_new_def)
    moreover have "n \<le> ks_limit (sodium_alg_of t)"
      using n by (simp add: ks_limit_def)
    ultimately show ?thesis using 3 ks by (auto simp: stream_synced_def)
  next
    case 4
    with e d obtain e' d' where "e = Rc4Md5Box e'" "d = Rc4Md5Box d'"
        "Rc4Md5Cipher_new L key iv Encrypt = Ret e'" "Rc4Md5Cipher_new L key iv Decrypt = Ret d'"
      by (auto simp: new_stream_def rust_assert_def rust_bind_Ret_iff)
    with cs OpenSSLCrypto_new_sync [OF cs] show ?thesis
      by (auto simp: stream_synced_def Rc4Md5Cipher_new_def Let_def)
  next
    case 5
    then have "t \<notin> {Table, Plain, Rc4Md5} \<union> sodium_types"
      by (auto simp: openssl_stream_types_def)
    with 5 e d obtain e' d' where "e = OpenSSLBox e'" "d = OpenSSLBox d'"
        "OpenSSLCrypto_new L t key iv Encrypt = Ret e'" "OpenSSLCrypto_new L t key iv Decrypt = Ret d'"
      by (auto simp: new_stream_def rust_assert_def rust_bind_Ret_iff split: if_splits)
    with cs OpenSSLCrypto_new_sync [OF cs] show ?thesis
      by (auto simp: stream_synced_def)
  qed
qed

lemma sample_sodium_keystream: "sodium_keystream sample_lib (\<lambda>_ _ _ p. of_nat p)"
  by (auto simp: sodium_keystream_def xor_ks_def sample_keystream_def intro!: nth_equalityI)

lemma sample_crypter_sync:
  "crypter_sync sample_lib (\<lambda>e d. e = Encrypt \<and> d = Decrypt) (\<lambda>d. d = Decrypt)"
  by (auto simp: crypter_sync_def comp_def)

section \<open>Properties\<close>

text \<open>
  C31. Every stream method decrypts what it encrypts: the sender may encrypt a message of up to
  \<open>2 ^ 38\<close> bytes in any pieces, the ciphertext is as long as the message, and the receiver, which
  decrypts it in whatever pieces the network delivers, recovers the message.
\<close>

theorem stream_methods_round_trip:
  assumes "sodium_keystream L ks" and "crypter_sync L R D"
    and "new_stream L t key iv Encrypt = Ret e" and "new_stream L t key iv Decrypt = Ret d"
    and "length (concat ms) \<le> 2 ^ 38"
  shows "\<exists>y e'. feed stream_step (L, e) ms = Some (y, e') \<and> length y = length (concat ms)
          \<and> (\<forall>cs. concat cs = y \<longrightarrow> (\<exists>d'. feed stream_step (L, d) cs = Some (concat ms, d')))"
proof -
  have sync: "stream_synced (2 ^ 38) (L, e) (L, d)"
    using assms by (intro new_stream_synced) auto
  then obtain y e' where y: "feed stream_step (L, e) ms = Some (y, e')" "length y = length (concat ms)"
    using stream_box.feed_enc_dec assms(5) by blast
  with stream_box.chunked_round_trip [OF sync assms(5)] show ?thesis by auto
qed

theorem stream_methods_round_trip_witness:
  "\<exists>y e'. feed stream_step (sample_lib, SodiumBox \<lparr>ssc_type = ChaCha20, ssc_key = [], ssc_iv = [], ssc_counter = 0\<rparr>)
            [[1, 2], [3]] = Some (y, e') \<and> length y = 3
     \<and> (\<forall>cs. concat cs = y \<longrightarrow> (\<exists>d'. feed stream_step
            (sample_lib, SodiumBox \<lparr>ssc_type = ChaCha20, ssc_key = [], ssc_iv = [], ssc_counter = 0\<rparr>) cs =
            Some ([1, 2, 3], d')))"
  using stream_methods_round_trip [OF sample_sodium_keystream sample_crypter_sync,
      of ChaCha20 "[]" "[]" "SodiumBox \<lparr>ssc_type = ChaCha20, ssc_key = [], ssc_iv = [], ssc_counter = 0\<rparr>"
         "SodiumBox \<lparr>ssc_type = ChaCha20, ssc_key = [], ssc_iv = [], ssc_counter = 0\<rparr>" "[[1, 2], [3]]"]
  by (simp add: new_stream_def rust_assert_def SodiumStreamCipher_new_def numeral_3_eq_3)

text \<open>
  The substitution table of any key is a permutation of the bytes, and the decryption table
  inverts it.
\<close>

lemma table_cipher_inverts:
  assumes "digest_lib_ok L"
  shows "\<exists>e d. TableCipher_new L key Encrypt = Ret e \<and> TableCipher_new L key Decrypt = Ret d
           \<and> distinct (tc_table e) \<and> length (tc_table e) = 256
           \<and> (\<forall>x. TableCipher_process d (TableCipher_process e x) = x)"
proof -
  have "length (lib_md5 L key) = 16" using assms by (simp add: digest_lib_ok_def)
  then obtain a where a: "read_u64_le (lib_md5 L key) = Some a"
    by (cases "lib_md5 L key" rule: read_u64_le.cases) auto
  then have new: "TableCipher_new L key mode = Ret \<lparr>tc_table = map of_nat (case mode of
      Encrypt \<Rightarrow> table_of a | Decrypt \<Rightarrow> invert_table (table_of a))\<rparr>" for mode
    by (simp add: TableCipher_new_def Let_def)
  have "inj_on (of_nat :: nat \<Rightarrow> u8) {0..<256}"
    by (rule inj_on_inverseI [of _ unat]) (simp add: unat_of_nat_u8)
  then have "distinct (map (of_nat :: nat \<Rightarrow> u8) (table_of a))"
    by (simp add: distinct_map table_of_perm)
  then show ?thesis
    using new table_round_trip [OF new new] by (simp add: new table_of_perm)
qed

lemma table_cipher_inverts_witness:
  "\<exists>e d. TableCipher_new sample_lib [7] Encrypt = Ret e \<and> TableCipher_new sample_lib [7] Decrypt = Ret d
     \<and> distinct (tc_table e) \<and> length (tc_table e) = 256
     \<and> (\<forall>x. TableCipher_process d (TableCipher_process e x) = x)"
  by (rule table_cipher_inverts) (rule sample_lib_ok)

text \<open>
  \<^verbatim>\<open>new_stream\<close> rejects the AEAD methods by its assertion, but also panics for four stream methods
  that can be configured: RC4, for which it has no branch, and the three 8 bit AES CFB methods,
  which it hands to an OpenSSL constructor that does not know them. Every other stream method is
  built (OpenSSL providing the cipher).
\<close>

lemma new_stream_panics:
  assumes "digest_lib_ok L" and "\<forall>c m k i. crypter_new L c m k i \<noteq> None" and "\<forall>n. ossl_from_nid L n \<noteq> None"
  shows "new_stream L t key iv mode = Panic \<longleftrightarrow>
           category t = AeadCategory \<or> t \<in> {Rc4, Aes128Cfb8, Aes192Cfb8, Aes256Cfb8}"
proof -
  have "length (lib_md5 L key) = 16" using assms(1) by (simp add: digest_lib_ok_def)
  then have table: "TableCipher_new L key mode \<noteq> Panic"
    by (cases "lib_md5 L key" rule: read_u64_le.cases) (simp_all add: TableCipher_new_def Let_def)
  have ossl: "OpenSSLCrypto_new L u k i mode = Panic \<longleftrightarrow> openssl_cipher_of L u = Panic" for u k i
    using assms(2) by (cases "openssl_cipher_of L u") (simp_all add: OpenSSLCrypto_new_def)
  show ?thesis
    using table assms(3)
    by (cases t) (simp_all add: new_stream_def rust_assert_def openssl_stream_types_def
        SodiumStreamCipher_new_def Rc4Md5Cipher_new_def ossl Let_def)
qed

lemma new_stream_panics_witness: "new_stream sample_lib Aes128Cfb8 [1] [2] Encrypt = Panic"
  using new_stream_panics [of sample_lib Aes128Cfb8 "[1]" "[2]" Encrypt] by (simp add: sample_lib_ok)

end
