(* ===== verification/Tcp_Stream.thy ===== *)
theory Tcp_Stream
  imports Tcp_Aead_Session Stream_Cipher
begin

text \<open>
  TCP streams under a stream cipher, \<^verbatim>\<open>src/relay/tcprelay/stream.rs\<close>: the initialisation vector, then
  the encrypted bytes without framing. Reader and writer are poll state machines like those of the
  AEAD framing; whatever a read returns is decrypted at once.
\<close>

section \<open>Reader and writer\<close>

definition BUFFER_SIZE :: nat where "BUFFER_SIZE = 8 * 1024"

record 'c StreamDecryptedReader =
  sdr_buffer :: bytes
  sdr_cipher :: "'c StreamBox"
  sdr_pos :: nat
  sdr_got_final :: bool

definition StreamDecryptedReader_new ::
    "'c crypto_lib \<Rightarrow> CipherType \<Rightarrow> bytes \<Rightarrow> bytes \<Rightarrow> 'c StreamDecryptedReader rust" where
  "StreamDecryptedReader_new L t key iv =
     rust_bind (new_stream L t key iv Decrypt) (\<lambda>cipher.
       Ret \<lparr>sdr_buffer = [], sdr_cipher = cipher, sdr_pos = 0, sdr_got_final = False\<rparr>)"

text \<open>The refill of the loop: one read of at most \<open>BUFFER_SIZE\<close> bytes, decrypted into the cleared buffer.\<close>

definition stream_refill ::
    "'c crypto_lib \<Rightarrow> 'r poll_reader \<Rightarrow> 'c StreamDecryptedReader \<Rightarrow> 'r \<Rightarrow>
     ((io_error + unit) poll \<times> 'c StreamDecryptedReader \<times> 'r) rust" where
  "stream_refill L pr d r =
     (case pr BUFFER_SIZE r of
        (Pending, r) \<Rightarrow> Ret (Pending, d, r)
      | (Ready (Inl e), r) \<Rightarrow> Ret (Ready (Inl e), d, r)
      | (Ready (Inr data), r) \<Rightarrow>
          let d = d\<lparr>sdr_buffer := [], sdr_pos := 0\<rparr> in
          if data = [] then
            rust_bind (stream_finalize L (sdr_cipher d)) (\<lambda>res.
              case res of
                Inl e \<Rightarrow> Ret (Ready (Inl (io_error_from_cipher e)), d, r)
              | Inr (out, cipher) \<Rightarrow>
                  Ret (Ready (Inr ()), d\<lparr>sdr_buffer := out, sdr_cipher := cipher, sdr_got_final := True\<rparr>, r))
          else
            rust_bind (stream_update L (sdr_cipher d) data) (\<lambda>res.
              case res of
                Inl e \<Rightarrow> Ret (Ready (Inl (io_error_from_cipher e)), d, r)
              | Inr (out, cipher) \<Rightarrow>
                  Ret (Ready (Inr ()), d\<lparr>sdr_buffer := out, sdr_cipher := cipher\<rparr>, r)))"

partial_function (option) stream_poll_read_decrypted ::
    "'c crypto_lib \<Rightarrow> 'r poll_reader \<Rightarrow> 'c StreamDecryptedReader \<Rightarrow> 'r \<Rightarrow> nat \<Rightarrow>
     ((io_error + bytes) poll \<times> 'c StreamDecryptedReader \<times> 'r) rust option" where
  "stream_poll_read_decrypted L pr d r dst_len =
     (if length (sdr_buffer d) \<le> sdr_pos d then
        if sdr_got_final d then Some (Ret (Ready (Inr []), d, r))
        else
          (case stream_refill L pr d r of
             Panic \<Rightarrow> Some Panic
           | Ret (Pending, d', r') \<Rightarrow> Some (Ret (Pending, d', r'))
           | Ret (Ready (Inl e), d', r') \<Rightarrow> Some (Ret (Ready (Inl e), d', r'))
           | Ret (Ready (Inr _), d', r') \<Rightarrow> stream_poll_read_decrypted L pr d' r' dst_len)
      else
        let remaining_len = length (sdr_buffer d) - sdr_pos d; n = min dst_len remaining_len in
        Some (Ret (Ready (Inr (take n (drop (sdr_pos d) (sdr_buffer d)))), d\<lparr>sdr_pos := sdr_pos d + n\<rparr>, r)))"

record 'c StreamEncryptedWriter =
  sew_cipher :: "'c StreamBox"
  sew_steps :: EncryptWriteStep
  sew_iv :: "bytes option"

definition StreamEncryptedWriter_new ::
    "'c crypto_lib \<Rightarrow> CipherType \<Rightarrow> bytes \<Rightarrow> bytes \<Rightarrow> 'c StreamEncryptedWriter rust" where
  "StreamEncryptedWriter_new L t key iv =
     rust_bind (new_stream L t key iv Encrypt) (\<lambda>cipher.
       Ret \<lparr>sew_cipher = cipher, sew_steps = NothingStep, sew_iv = Some iv\<rparr>)"

text \<open>The vector is taken from the writer before the data is encrypted, also when that fails.\<close>

definition sew_make_buf ::
    "'c crypto_lib \<Rightarrow> 'c StreamEncryptedWriter \<Rightarrow> bytes \<Rightarrow> ((io_error + unit) \<times> 'c StreamEncryptedWriter) rust" where
  "sew_make_buf L w data =
     (let head = (case sew_iv w of Some i \<Rightarrow> i | None \<Rightarrow> []); w = w\<lparr>sew_iv := None\<rparr>
      in rust_bind (stream_update L (sew_cipher w) data) (\<lambda>res.
           case res of
             Inl e \<Rightarrow> Ret (Inl (io_error_from_cipher e), w)
           | Inr (out, cipher) \<Rightarrow>
               Ret (Inr (), w\<lparr>sew_cipher := cipher, sew_steps := WritingStep (head @ out) 0\<rparr>)))"

definition sew_write_buf ::
    "'w poll_writer \<Rightarrow> 'c StreamEncryptedWriter \<Rightarrow> 'w \<Rightarrow>
     ((io_error + unit) poll \<times> 'c StreamEncryptedWriter \<times> 'w) rust" where
  "sew_write_buf pw w s =
     (case sew_steps w of
        NothingStep \<Rightarrow> Panic
      | WritingStep buf pos \<Rightarrow>
          (case poll_write_buf pw buf pos s of
             (Ready (Inr _), pos, s) \<Rightarrow> Ret (Ready (Inr ()), w\<lparr>sew_steps := NothingStep\<rparr>, s)
           | (res, pos, s) \<Rightarrow> Ret (res, w\<lparr>sew_steps := WritingStep buf pos\<rparr>, s)))"

definition stream_poll_write_all_encrypted ::
    "'c crypto_lib \<Rightarrow> 'w poll_writer \<Rightarrow> 'c StreamEncryptedWriter \<Rightarrow> 'w \<Rightarrow> bytes \<Rightarrow>
     ((io_error + unit) poll \<times> 'c StreamEncryptedWriter \<times> 'w) rust" where
  "stream_poll_write_all_encrypted L pw w s data =
     (if sew_steps w = NothingStep then
        rust_bind (sew_make_buf L w data) (\<lambda>(res, w).
          case res of
            Inl e \<Rightarrow> Ret (Ready (Inl e), w, s)
          | Inr _ \<Rightarrow> sew_write_buf pw w s)
      else sew_write_buf pw w s)"

definition stream_poll_write_encrypted ::
    "'c crypto_lib \<Rightarrow> 'w poll_writer \<Rightarrow> 'c StreamEncryptedWriter \<Rightarrow> 'w \<Rightarrow> bytes \<Rightarrow>
     ((io_error + nat) poll \<times> 'c StreamEncryptedWriter \<times> 'w) rust" where
  "stream_poll_write_encrypted L pw w s data =
     rust_bind (stream_poll_write_all_encrypted L pw w s data) (\<lambda>(res, w, s).
       Ret (case res of
              Pending \<Rightarrow> Pending
            | Ready (Inl e) \<Rightarrow> Ready (Inl e)
            | Ready (Inr _) \<Rightarrow> Ready (Inr (length data)), w, s))"

section \<open>The reader\<close>

text \<open>What the sources rely on of the end of an OpenSSL stream: no bytes are held back.\<close>

definition crypter_final_ok :: "'c crypto_lib \<Rightarrow> bool" where
  "crypter_final_ok L \<longleftrightarrow> (\<forall>c. \<exists>c'. crypter_finalize L c = Inr ([], c'))"

lemma stream_finalize_ok:
  assumes "crypter_final_ok L"
  shows "\<exists>b'. stream_finalize L b = Ret (Inr ([], b'))"
proof -
  have "\<exists>c'. OpenSSLCrypto_finalize L c = Inr ([], c')" for c
  proof -
    obtain c' where "crypter_finalize L (oc_inner c) = Inr ([], c')"
      using assms unfolding crypter_final_ok_def by blast
    then show ?thesis by (simp add: OpenSSLCrypto_finalize_def)
  qed
  then obtain f where "OpenSSLCrypto_finalize L c = Inr ([], f c)" for c by metis
  then show ?thesis by (cases b) simp_all
qed

text \<open>
  \<open>stream_rd_ok L left missing d r p\<close>: the reader still delivers \<open>p\<close> when \<open>left r\<close> and then \<open>missing\<close>
  arrive; its cipher decrypts those bytes.
\<close>

definition stream_rd_ok ::
    "'c crypto_lib \<Rightarrow> ('r \<Rightarrow> bytes) \<Rightarrow> bytes \<Rightarrow> 'c StreamDecryptedReader \<Rightarrow> 'r \<Rightarrow> bytes \<Rightarrow> bool" where
  "stream_rd_ok L left missing d r p \<longleftrightarrow>
     (if sdr_got_final d then left r = [] \<and> length (sdr_buffer d) \<le> sdr_pos d \<and> (missing = [] \<longrightarrow> p = [])
      else \<exists>q s n. stream_valid n (L, sdr_cipher d) \<and> length (left r @ missing) \<le> n
             \<and> stream_step (L, sdr_cipher d) (left r @ missing) = Some (q, s)
             \<and> p = drop (sdr_pos d) (sdr_buffer d) @ q)"

lemma stream_step_update:
  "stream_step (L, b) x = Some (y, L', b') \<longleftrightarrow> L' = L \<and> stream_update L b x = Ret (Inr (y, b'))"
  by (auto simp: stream_step_def split: rust.splits sum.splits)

context stream_pair
begin

lemma dec_split:
  assumes "valid n d" and "length (y1 @ y2) \<le> n" and "dec d (y1 @ y2) = Some (x, d2)"
  obtains x1 x2 d1 where "dec d y1 = Some (x1, d1)" "length x1 = length y1" "dec d1 y2 = Some (x2, d2)" "x = x1 @ x2"
    "valid (n - length y1) d1" "length y2 \<le> n - length y1"
proof -
  obtain x1 d1 where 1: "dec d y1 = Some (x1, d1)" "length x1 = length y1" "valid (n - length y1) d1"
    using valid_step [OF assms(1), of y1] assms(2) by auto
  have le: "length y2 \<le> n - length y1" using assms(2) by simp
  obtain x2 d2' where 2: "dec d1 y2 = Some (x2, d2')"
    using valid_step [OF 1(3) le] by blast
  show thesis
    using valid_append [OF assms(1,2) 1(1) 2] 1 2 le assms(3) by (intro that [of x1 d1 x2]) auto
qed

end

text \<open>A refill of a reader whose buffer has been delivered.\<close>

lemma stream_refill_ok:
  assumes src: "source_ok pr left" and fin: "crypter_final_ok L" and ok: "stream_rd_ok L left missing d r p"
    and empty: "length (sdr_buffer d) \<le> sdr_pos d" and nf: "\<not> sdr_got_final d"
  obtains res d' r' where "stream_refill L pr d r = Ret (res, d', r')" "stream_rd_ok L left missing d' r' p"
    "res = Ready (Inr ()) \<Longrightarrow> sdr_got_final d' \<and> left r' = [] \<or> \<not> sdr_got_final d' \<and> length (left r') < length (left r)"
proof -
  obtain q s n where v: "stream_valid n (L, sdr_cipher d)" "length (left r @ missing) \<le> n"
      "stream_step (L, sdr_cipher d) (left r @ missing) = Some (q, s)" "p = q"
    using ok nf empty by (auto simp: stream_rd_ok_def)
  have pos: "0 < BUFFER_SIZE" by (simp add: BUFFER_SIZE_def)
  obtain res r1 where pr: "pr BUFFER_SIZE r = (res, r1)" by (cases "pr BUFFER_SIZE r")
  consider (stop) "res = Pending \<or> (\<exists>e. res = Ready (Inl e))" | (eof) "res = Ready (Inr [])"
    | (data) b bs where "res = Ready (Inr (b # bs))"
    by (metis poll.exhaust sum.exhaust list.exhaust)
  then show thesis
  proof cases
    case stop
    then have "left r1 = left r" using source_ok_other [OF src pos pr] by auto
    moreover from stop pr obtain res' where "stream_refill L pr d r = Ret (res', d, r1)" "\<forall>u. res' \<noteq> Ready (Inr u)"
      by (auto simp: stream_refill_def)
    ultimately show ?thesis using ok by (intro that [of res' d r1]) (auto simp: stream_rd_ok_def)
  next
    case eof
    then have l: "left r = []" "left r1 = []" using source_ok_Ready [OF src pos, of r "[]" r1] pr by auto
    obtain b' where b': "stream_finalize L (sdr_cipher d) = Ret (Inr ([], b'))" using stream_finalize_ok [OF fin] ..
    have "missing = [] \<longrightarrow> p = []"
      using v l stream_box.valid_step [OF v(1), of "[]"] by auto
    with b' l eof pr show ?thesis
      by (intro that [of "Ready (Inr ())" "d\<lparr>sdr_buffer := [], sdr_pos := 0, sdr_cipher := b', sdr_got_final := True\<rparr>" r1])
         (simp_all add: stream_refill_def stream_rd_ok_def)
  next
    case (data b bs)
    then have l: "left r = (b # bs) @ left r1" using source_ok_Ready [OF src pos, of r _ r1] pr by auto
    obtain x1 x2 c1 where x: "stream_step (L, sdr_cipher d) (b # bs) = Some (x1, c1)"
        "stream_step c1 (left r1 @ missing) = Some (x2, s)" "q = x1 @ x2" "stream_valid (n - length (b # bs)) c1"
        "length (left r1 @ missing) \<le> n - length (b # bs)"
    proof (rule stream_box.dec_split [OF v(1), of "b # bs" "left r1 @ missing" q s])
      show "length ((b # bs) @ left r1 @ missing) \<le> n" using v(2) l by simp
      show "stream_step (L, sdr_cipher d) ((b # bs) @ left r1 @ missing) = Some (q, s)" using v(3) l by simp
    qed blast
    then obtain b' where b': "c1 = (L, b')" "stream_update L (sdr_cipher d) (b # bs) = Ret (Inr (x1, b'))"
      by (cases c1) (auto simp: stream_step_update)
    show ?thesis
    proof (rule that [of "Ready (Inr ())" "d\<lparr>sdr_buffer := x1, sdr_pos := 0, sdr_cipher := b'\<rparr>" r1])
      show "stream_rd_ok L left missing (d\<lparr>sdr_buffer := x1, sdr_pos := 0, sdr_cipher := b'\<rparr>) r1 p"
        using x b' v(4) nf unfolding stream_rd_ok_def by (cases s) auto
    qed (use data pr b'(2) nf l in \<open>simp_all add: stream_refill_def\<close>)
  qed
qed

definition stream_poll_post ::
    "'c crypto_lib \<Rightarrow> ('r \<Rightarrow> bytes) \<Rightarrow> bytes \<Rightarrow> nat \<Rightarrow> bytes \<Rightarrow> (io_error + bytes) poll \<Rightarrow>
     'c StreamDecryptedReader \<Rightarrow> 'r \<Rightarrow> bool" where
  "stream_poll_post L left missing n p res d' r' \<longleftrightarrow>
     (\<exists>p'. p = accepted_out res @ p' \<and> stream_rd_ok L left missing d' r' p')
   \<and> (res = Ready (Inr []) \<and> 0 < n \<and> missing = [] \<longrightarrow> p = [])"

lemma stream_poll_read_ok:
  assumes src: "source_ok pr left" and fin: "crypter_final_ok L"
  shows "stream_rd_ok L left missing d r p \<Longrightarrow>
    \<exists>res d' r'. stream_poll_read_decrypted L pr d r n = Some (Ret (res, d', r'))
      \<and> stream_poll_post L left missing n p res d' r'"
proof (induction "length (left r) + (if sdr_got_final d then 0 else 1)" arbitrary: d r rule: less_induct)
  case less
  consider (final) "length (sdr_buffer d) \<le> sdr_pos d" "sdr_got_final d"
    | (refill) "length (sdr_buffer d) \<le> sdr_pos d" "\<not> sdr_got_final d" | (data) "sdr_pos d < length (sdr_buffer d)"
    by linarith
  then show ?case
  proof cases
    case final
    with less.prems show ?thesis
      by (subst stream_poll_read_decrypted.simps) (simp add: stream_poll_post_def accepted_out_def stream_rd_ok_def)
  next
    case data
    let ?k = "min n (length (sdr_buffer d) - sdr_pos d)"
    let ?d = "d\<lparr>sdr_pos := sdr_pos d + ?k\<rparr>" and ?out = "take ?k (drop (sdr_pos d) (sdr_buffer d))"
    have nf: "\<not> sdr_got_final d" using less.prems data by (auto simp: stream_rd_ok_def)
    have "?out @ drop (sdr_pos d + ?k) (sdr_buffer d) = drop (sdr_pos d) (sdr_buffer d)"
      by (metis add.commute append_take_drop_id drop_drop)
    then have "\<exists>p'. p = ?out @ p' \<and> stream_rd_ok L left missing ?d r p'"
      using less.prems nf unfolding stream_rd_ok_def by (auto, metis append.assoc)
    moreover have "stream_poll_read_decrypted L pr d r n = Some (Ret (Ready (Inr ?out), ?d, r))"
      using data by (subst stream_poll_read_decrypted.simps) (simp add: Let_def)
    moreover have "?out = [] \<and> 0 < n \<longrightarrow> False" using data by auto
    ultimately show ?thesis by (auto simp: stream_poll_post_def accepted_out_def)
  next
    case refill
    obtain res d' r' where r: "stream_refill L pr d r = Ret (res, d', r')" "stream_rd_ok L left missing d' r' p"
      "res = Ready (Inr ()) \<Longrightarrow> sdr_got_final d' \<and> left r' = [] \<or> \<not> sdr_got_final d' \<and> length (left r') < length (left r)"
      using stream_refill_ok [OF src fin less.prems refill] by metis
    show ?thesis
    proof (cases "res = Ready (Inr ())")
      case True
      then have "length (left r') + (if sdr_got_final d' then 0 else 1) < length (left r) + (if sdr_got_final d then 0 else 1)"
        using r(3) refill(2) by auto
      from less.hyps [OF this r(2)] show ?thesis
        using refill r(1) True by (subst stream_poll_read_decrypted.simps) simp
    next
      case False
      then consider "res = Pending" | x where "res = Ready (Inl x)"
        by (metis poll.exhaust sum.exhaust old.unit.exhaust)
      then show ?thesis
        using r(1,2) refill
        by cases (subst stream_poll_read_decrypted.simps, simp add: stream_poll_post_def accepted_out_def)+
    qed
  qed
qed

section \<open>The writer\<close>

text \<open>
  \<open>stream_wr_ok L e0 iv w sent ms\<close>: what was sent and what the writer still holds is the vector and the
  encryption of \<open>ms\<close> by a cipher that started as \<open>e0\<close>.
\<close>

definition stream_wr_ok ::
    "'c crypto_lib \<Rightarrow> 'c StreamBox \<Rightarrow> bytes \<Rightarrow> 'c StreamEncryptedWriter \<Rightarrow> bytes \<Rightarrow> bytes list \<Rightarrow> bool" where
  "stream_wr_ok L e0 iv w sent ms \<longleftrightarrow>
     (\<exists>y. feed stream_step (L, e0) ms = Some (y, (L, sew_cipher w))
        \<and> (case sew_iv w of
             Some i \<Rightarrow> i = iv \<and> ms = [] \<and> sent = [] \<and> sew_steps w = NothingStep
           | None \<Rightarrow>
               (case sew_steps w of
                  NothingStep \<Rightarrow> sent = iv @ y
                | WritingStep buf pos \<Rightarrow> ms \<noteq> [] \<and> sent @ drop pos buf = iv @ y)))
   \<and> in_range (sew_steps w)"

lemma feed_snoc:
  "feed f s (ms @ [m]) =
     (case feed f s ms of
        None \<Rightarrow> None
      | Some (y, s') \<Rightarrow> map_option (\<lambda>(y', s''). (y @ y', s'')) (f s' m))"
  by (induction ms arbitrary: s) (auto split: option.splits simp: option.map_comp comp_def case_prod_unfold)

context stream_pair
begin

lemma feed_snoc_obtain:
  assumes "synced n e d" and "length (concat (ms @ [m])) \<le> n" and "feed enc e ms = Some (y, e1)"
  obtains y' e2 where "enc e1 m = Some (y', e2)" "feed enc e (ms @ [m]) = Some (y @ y', e2)"
proof -
  obtain z e' where "feed enc e (ms @ [m]) = Some (z, e')" using feed_enc_dec [OF assms(1,2)] by blast
  with assms(3) that show thesis by (auto simp: feed_snoc split: option.splits)
qed

end

lemma sew_make_buf_ok:
  assumes "stream_synced n (L, e0) d0" and "length (concat (ms @ [m])) \<le> n"
    and "stream_wr_ok L e0 iv w sent ms" and "sew_steps w = NothingStep"
  obtains w' buf where "sew_make_buf L w m = Ret (Inr (), w')" "sew_steps w' = WritingStep buf 0"
    "stream_wr_ok L e0 iv w' sent (ms @ [m])"
proof -
  obtain y where y: "feed stream_step (L, e0) ms = Some (y, (L, sew_cipher w))"
    using assms(3) by (auto simp: stream_wr_ok_def)
  then obtain y' e2 where "stream_step (L, sew_cipher w) m = Some (y', e2)"
      "feed stream_step (L, e0) (ms @ [m]) = Some (y @ y', e2)"
    by (rule stream_box.feed_snoc_obtain [OF assms(1,2)])
  then obtain b where b: "stream_update L (sew_cipher w) m = Ret (Inr (y', b))"
      "feed stream_step (L, e0) (ms @ [m]) = Some (y @ y', (L, b))"
    by (cases e2) (auto simp: stream_step_update)
  let ?buf = "(case sew_iv w of Some i \<Rightarrow> i | None \<Rightarrow> []) @ y'"
  have "sent @ ?buf = iv @ y @ y'"
    using assms(3,4) y by (auto simp: stream_wr_ok_def split: option.splits)
  with b show thesis
    by (intro that [of "w\<lparr>sew_iv := None, sew_cipher := b, sew_steps := WritingStep ?buf 0\<rparr>" ?buf])
       (simp_all add: sew_make_buf_def stream_wr_ok_def in_range_def)
qed

lemma sew_write_buf_ok:
  assumes sink: "sink_ok pw written" and w: "stream_wr_ok L e0 iv w (written s) ms"
    and st: "sew_steps w = WritingStep buf pos"
  obtains res w' s' where "sew_write_buf pw w s = Ret (res, w', s')" "stream_wr_ok L e0 iv w' (written s') ms"
    "sew_steps w' = NothingStep \<longleftrightarrow> res = Ready (Inr ())"
proof -
  have le: "pos \<le> length buf" using w st by (simp add: stream_wr_ok_def in_range_def)
  obtain res pos' s' where p: "poll_write_buf pw buf pos s = (res, pos', s')"
    using prod_cases3 by blast
  have post: "pos' \<le> length buf" "written s' @ drop pos' buf = written s @ drop pos buf"
      "res = Ready (Inr ()) \<longrightarrow> pos' = length buf"
    using poll_write_buf_ok [OF sink le p] by simp_all
  show thesis
  proof (cases "res = Ready (Inr ())")
    case True
    with w st post p show ?thesis
      by (intro that [of res "w\<lparr>sew_steps := NothingStep\<rparr>" s'])
         (auto simp: sew_write_buf_def stream_wr_ok_def in_range_def split: option.splits)
  next
    case False
    then have "sew_write_buf pw w s = Ret (res, w\<lparr>sew_steps := WritingStep buf pos'\<rparr>, s')"
      using st p by (auto simp: sew_write_buf_def split: poll.splits sum.splits)
    with False w st post show ?thesis
      by (intro that [of res "w\<lparr>sew_steps := WritingStep buf pos'\<rparr>" s'])
         (auto simp: stream_wr_ok_def in_range_def split: option.splits)
  qed
qed

lemma stream_poll_write_ok:
  assumes "sink_ok pw written" and "stream_synced n (L, e0) d0" and "length (concat ms') \<le> n"
    and "stream_wr_ok L e0 iv w (written s) ms"
    and "ms' = (if sew_steps w = NothingStep then ms @ [data] else ms)"
  shows "\<exists>res w' s'. stream_poll_write_encrypted L pw w s data = Ret (res, w', s')
           \<and> stream_wr_ok L e0 iv w' (written s') ms'
           \<and> (if sew_steps w' = NothingStep then res = Ready (Inr (length data)) else \<forall>n. res \<noteq> Ready (Inr n))"
proof -
  obtain res w' s' where r: "stream_poll_write_all_encrypted L pw w s data = Ret (res, w', s')"
      "stream_wr_ok L e0 iv w' (written s') ms'" "sew_steps w' = NothingStep \<longleftrightarrow> res = Ready (Inr ())"
  proof (cases "sew_steps w")
    case NothingStep
    with assms(5) have ms': "ms' = ms @ [data]" by simp
    obtain w1 buf where w1: "sew_make_buf L w data = Ret (Inr (), w1)" "sew_steps w1 = WritingStep buf 0"
        "stream_wr_ok L e0 iv w1 (written s) ms'"
      using sew_make_buf_ok [OF assms(2) _ assms(4) NothingStep] assms(3) unfolding ms' by metis
    obtain res w' s' where "sew_write_buf pw w1 s = Ret (res, w', s')" "stream_wr_ok L e0 iv w' (written s') ms'"
        "sew_steps w' = NothingStep \<longleftrightarrow> res = Ready (Inr ())"
      by (rule sew_write_buf_ok [OF assms(1) w1(3,2)])
    with w1(1) NothingStep show thesis
      by (intro that [of res w' s']) (simp_all add: stream_poll_write_all_encrypted_def)
  next
    case (WritingStep buf pos)
    obtain res w' s' where "sew_write_buf pw w s = Ret (res, w', s')" "stream_wr_ok L e0 iv w' (written s') ms"
        "sew_steps w' = NothingStep \<longleftrightarrow> res = Ready (Inr ())"
      by (rule sew_write_buf_ok [OF assms(1,4) WritingStep])
    with WritingStep assms(5) show thesis
      by (intro that [of res w' s']) (simp_all add: stream_poll_write_all_encrypted_def)
  qed
  then show ?thesis
    by (cases "res = Ready (Inr ())")
       (auto simp: stream_poll_write_encrypted_def split: poll.splits sum.splits)
qed

section \<open>Sessions\<close>

inductive stream_writes ::
    "'c crypto_lib \<Rightarrow> 'w poll_writer \<Rightarrow> 'c StreamEncryptedWriter \<Rightarrow> 'w \<Rightarrow> bytes list \<Rightarrow>
     'c StreamEncryptedWriter \<Rightarrow> 'w \<Rightarrow> bool"
  for L pw w0 s0 where
  start: "stream_writes L pw w0 s0 [] w0 s0"
| next_payload:
    "\<lbrakk>stream_writes L pw w0 s0 ms w s; sew_steps w = NothingStep;
      stream_poll_write_encrypted L pw w s data = Ret (res, w', s')\<rbrakk>
     \<Longrightarrow> stream_writes L pw w0 s0 (ms @ [data]) w' s'"
| again:
    "\<lbrakk>stream_writes L pw w0 s0 (ms @ [data]) w s; sew_steps w \<noteq> NothingStep;
      stream_poll_write_encrypted L pw w s data = Ret (res, w', s')\<rbrakk>
     \<Longrightarrow> stream_writes L pw w0 s0 (ms @ [data]) w' s'"

lemma stream_writes_ok:
  assumes "stream_writes L pw w0 s0 ms w s" and "sink_ok pw written" and "stream_synced n (L, e0) d0"
    and "stream_wr_ok L e0 iv w0 (written s0) []"
  shows "length (concat ms) \<le> n \<Longrightarrow> stream_wr_ok L e0 iv w (written s) ms"
  using assms(1)
proof induction
  case start
  with assms(4) show ?case by simp
next
  case (next_payload ms w s data res w' s')
  then have "stream_wr_ok L e0 iv w (written s) ms" by simp
  with next_payload show ?case
    using stream_poll_write_ok [OF assms(2,3), of "ms @ [data]" iv w s ms data] by auto
next
  case (again ms data w s res w' s')
  then have "stream_wr_ok L e0 iv w (written s) (ms @ [data])" by simp
  with again show ?case
    using stream_poll_write_ok [OF assms(2,3), of "ms @ [data]" iv w s "ms @ [data]" data] by auto
qed

primrec stream_reads ::
    "'c crypto_lib \<Rightarrow> 'r poll_reader \<Rightarrow> 'c StreamDecryptedReader \<Rightarrow> 'r \<Rightarrow> nat list \<Rightarrow>
     ((io_error + bytes) poll list \<times> 'c StreamDecryptedReader \<times> 'r) rust option" where
  "stream_reads L pr d r [] = Some (Ret ([], d, r))"
| "stream_reads L pr d r (n # ns) =
     (case stream_poll_read_decrypted L pr d r n of
        None \<Rightarrow> None
      | Some Panic \<Rightarrow> Some Panic
      | Some (Ret (res, d', r')) \<Rightarrow>
          (case stream_reads L pr d' r' ns of
             None \<Rightarrow> None
           | Some Panic \<Rightarrow> Some Panic
           | Some (Ret (rs, d'', r'')) \<Rightarrow> Some (Ret (res # rs, d'', r''))))"

lemma stream_reads_ok:
  assumes "source_ok pr left" and "crypter_final_ok L"
  shows "stream_rd_ok L left missing d r p \<Longrightarrow> \<forall>n \<in> set ns. 0 < n \<Longrightarrow>
    \<exists>rs d' r' p'. stream_reads L pr d r ns = Some (Ret (rs, d', r')) \<and> length rs = length ns
       \<and> p = delivered rs @ p' \<and> (missing = [] \<and> Ready (Inr []) \<in> set rs \<longrightarrow> p' = [])"
proof (induction ns arbitrary: d r p)
  case (Cons n ns)
  obtain res d1 r1 p1 where r: "stream_poll_read_decrypted L pr d r n = Some (Ret (res, d1, r1))"
      "p = accepted_out res @ p1" "stream_rd_ok L left missing d1 r1 p1"
      "res = Ready (Inr []) \<and> missing = [] \<longrightarrow> p = []"
    using stream_poll_read_ok [OF assms Cons.prems(1), of n] Cons.prems(2) by (auto simp: stream_poll_post_def)
  obtain rs d' r' p' where "stream_reads L pr d1 r1 ns = Some (Ret (rs, d', r'))" "length rs = length ns"
      "p1 = delivered rs @ p'" "missing = [] \<and> Ready (Inr []) \<in> set rs \<longrightarrow> p' = []"
    using Cons.IH [OF r(3)] Cons.prems(2) by auto
  with r show ?case by (auto simp: delivered_Cons)
qed simp

lemma stream_wr_ok_wire:
  assumes "stream_wr_ok L e iv w sent ms" and "sent = iv @ x"
  obtains rest s where "feed stream_step (L, e) ms = Some (x @ rest, s)" "sew_steps w = NothingStep \<Longrightarrow> rest = []"
proof -
  obtain y where y: "feed stream_step (L, e) ms = Some (y, (L, sew_cipher w))"
      "case sew_iv w of
         Some i \<Rightarrow> i = iv \<and> ms = [] \<and> sent = [] \<and> sew_steps w = NothingStep
       | None \<Rightarrow> (case sew_steps w of NothingStep \<Rightarrow> sent = iv @ y
                 | WritingStep buf pos \<Rightarrow> ms \<noteq> [] \<and> sent @ drop pos buf = iv @ y)"
    using assms(1) unfolding stream_wr_ok_def by blast
  have "\<exists>rest. y = x @ rest \<and> (sew_steps w = NothingStep \<longrightarrow> rest = [])"
    using y assms(2) by (cases "sew_iv w"; cases "sew_steps w") auto
  with y(1) that show thesis by blast
qed

text \<open>
  What the writer of a connection under a stream method takes, the reader at the other end delivers,
  in order, however the two streams cut, delay or fail the transfers: no poll panics or hangs, the bytes
  delivered are a prefix of those taken by the writer, and when the reader reports the end of a stream of
  which nothing is missing, all of them have been delivered.
\<close>

lemma tcp_stream_delivery:
  assumes "sodium_keystream L ks" and "crypter_sync L R D" and "crypter_final_ok L"
    and "StreamEncryptedWriter_new L t key iv = Ret w0" and "StreamDecryptedReader_new L t key iv = Ret d0"
    and "sink_ok pw written" and "written s0 = []" and "stream_writes L pw w0 s0 ms w s"
    and "length (concat ms) \<le> 2 ^ 38"
    and "source_ok pr left" and "written s = iv @ left r0 @ missing" and "\<forall>n \<in> set ns. 0 < n"
  shows "\<exists>rs d r. stream_reads L pr d0 r0 ns = Some (Ret (rs, d, r)) \<and> length rs = length ns
           \<and> prefix (delivered rs) (concat ms)
           \<and> (missing = [] \<and> sew_steps w = NothingStep \<and> Ready (Inr []) \<in> set rs \<longrightarrow> delivered rs = concat ms)"
proof -
  obtain e where e: "new_stream L t key iv Encrypt = Ret e"
      "w0 = \<lparr>sew_cipher = e, sew_steps = NothingStep, sew_iv = Some iv\<rparr>"
    using assms(4) by (auto simp: StreamEncryptedWriter_new_def rust_bind_Ret_iff)
  obtain c where c: "new_stream L t key iv Decrypt = Ret c"
      "d0 = \<lparr>sdr_buffer = [], sdr_cipher = c, sdr_pos = 0, sdr_got_final = False\<rparr>"
    using assms(5) by (auto simp: StreamDecryptedReader_new_def rust_bind_Ret_iff)
  have sync: "stream_synced (2 ^ 38) (L, e) (L, c)"
    using assms(1,2) e(1) c(1) by (intro new_stream_synced) auto
  have "stream_wr_ok L e iv w0 (written s0) []"
    using e(2) assms(7) by (simp add: stream_wr_ok_def in_range_def)
  then have "stream_wr_ok L e iv w (written s) ms"
    using stream_writes_ok [OF assms(8,6) sync _ assms(9)] by blast
  then obtain rest f where rest: "feed stream_step (L, e) ms = Some (left r0 @ missing @ rest, f)"
      "sew_steps w = NothingStep \<Longrightarrow> rest = []"
    using stream_wr_ok_wire [OF _ assms(11)] by (metis append.assoc)
  obtain y f' d' where y: "feed stream_step (L, e) ms = Some (y, f')" "length y = length (concat ms)"
      "stream_step (L, c) y = Some (concat ms, d')"
    using stream_box.feed_enc_dec [OF sync assms(9)] by blast
  then have "y = left r0 @ missing @ rest" using rest(1) by simp
  with y have "stream_rd_ok L left (missing @ rest) d0 r0 (concat ms)"
    using c(2) stream_box.synced_valid [OF sync] assms(9) unfolding stream_rd_ok_def by (cases d') auto
  from stream_reads_ok [OF assms(10,3) this assms(12)] rest(2) show ?thesis
    by (auto simp: prefix_def)
qed

lemma tcp_stream_delivery_witness:
  "\<exists>w0 d0 w s rs d r.
     StreamEncryptedWriter_new sample_lib ChaCha20 [] [9] = Ret w0
   \<and> StreamDecryptedReader_new sample_lib ChaCha20 [] [9] = Ret d0
   \<and> stream_writes sample_lib pipe_write w0 [] [[1, 2, 3]] w (9 # s)
   \<and> stream_reads sample_lib pipe_read d0 s [2, 2, 2] = Some (Ret (rs, d, r))
   \<and> length rs = 3 \<and> prefix (delivered rs) [1, 2, 3]"
proof -
  let ?b = "SodiumBox \<lparr>ssc_type = ChaCha20, ssc_key = [], ssc_iv = [9], ssc_counter = 0\<rparr>"
  let ?w0 = "\<lparr>sew_cipher = ?b, sew_steps = NothingStep, sew_iv = Some [9]\<rparr>"
  let ?d0 = "\<lparr>sdr_buffer = [], sdr_cipher = ?b, sdr_pos = 0, sdr_got_final = False\<rparr>"
  have new: "StreamEncryptedWriter_new sample_lib ChaCha20 [] [9] = Ret ?w0"
      "StreamDecryptedReader_new sample_lib ChaCha20 [] [9] = Ret ?d0"
    by (simp_all add: StreamEncryptedWriter_new_def StreamDecryptedReader_new_def new_stream_def rust_assert_def
        SodiumStreamCipher_new_def)
  have "\<exists>w s. stream_poll_write_encrypted sample_lib pipe_write ?w0 [] [1, 2, 3] = Ret (Ready (Inr 3), w, 9 # s)"
    by (simp add: stream_poll_write_encrypted_def stream_poll_write_all_encrypted_def sew_make_buf_def
        sew_write_buf_def poll_write_buf.simps pipe_write_def SodiumStreamCipher_process_def
        padding_len_def crypto_stream_xor_ic_def Let_def)
  then obtain w s where w: "stream_poll_write_encrypted sample_lib pipe_write ?w0 [] [1, 2, 3] = Ret (Ready (Inr 3), w, 9 # s)"
    by blast
  have wr: "stream_writes sample_lib pipe_write ?w0 [] ([] @ [[1, 2, 3]]) w (9 # s)"
    by (rule stream_writes.next_payload [OF stream_writes.start _ w]) simp
  have fin: "crypter_final_ok sample_lib" by (simp add: crypter_final_ok_def)
  note ex = tcp_stream_delivery [where written = "\<lambda>s. s" and left = "\<lambda>s. s" and s = "9 # s" and missing = "[]"
      and pr = pipe_read and ?r0.0 = s and ns = "[2, 2, 2]", OF sample_sodium_keystream sample_crypter_sync fin new
      pipe_ok(1) refl wr _ pipe_ok(2)]
  obtain rs d r where "stream_reads sample_lib pipe_read ?d0 s [2, 2, 2] = Some (Ret (rs, d, r))"
      "length rs = length [2, 2, 2 :: nat]" "prefix (delivered rs) (concat ([] @ [[1, 2, 3]]))"
    using ex by fastforce
  then have "stream_reads sample_lib pipe_read ?d0 s [2, 2, 2] = Some (Ret (rs, d, r)) \<and> length rs = 3
      \<and> prefix (delivered rs) [1, 2, 3]"
    by simp
  with new wr show ?thesis by (metis append_Nil)
qed

end
