(* ===== verification/Net_Addr.thy ===== *)
theory Net_Addr
  imports SS_Prelude
begin

text \<open>
  The parts of \<^verbatim>\<open>std::net\<close> the sources rely on: IP and socket addresses, their textual form and the
  parsers behind \<^verbatim>\<open>str::parse\<close>. A parser returns the value and the unread rest of the input.
\<close>

section \<open>Addresses\<close>

datatype ipv4_addr = Ipv4Addr u8 u8 u8 u8

datatype ipv6_addr = Ipv6Addr u16 u16 u16 u16 u16 u16 u16 u16

datatype ip_addr = IpV4 ipv4_addr | IpV6 ipv6_addr

datatype socket_addr =
    SocketAddrV4 (v4_ip: ipv4_addr) (sock_port: u16)
  | SocketAddrV6 (v6_ip: ipv6_addr) (sock_port: u16) (v6_flowinfo: u32) (v6_scope_id: u32)

primrec octets :: "ipv4_addr \<Rightarrow> bytes" where
  "octets (Ipv4Addr a b c d) = [a, b, c, d]"

primrec segments :: "ipv6_addr \<Rightarrow> u16 list" where
  "segments (Ipv6Addr a b c d e f g h) = [a, b, c, d, e, f, g, h]"

primrec sock_ip :: "socket_addr \<Rightarrow> ip_addr" where
  "sock_ip (SocketAddrV4 ip _) = IpV4 ip"
| "sock_ip (SocketAddrV6 ip _ _ _) = IpV6 ip"

primrec SocketAddr_new :: "ip_addr \<Rightarrow> u16 \<Rightarrow> socket_addr" where
  "SocketAddr_new (IpV4 ip) = SocketAddrV4 ip"
| "SocketAddr_new (IpV6 ip) = (\<lambda>p. SocketAddrV6 ip p 0 0)"

section \<open>Parsers\<close>

type_synonym 'a parser = "string \<Rightarrow> ('a \<times> string) option"

text \<open>\<^verbatim>\<open>Parser::read_number\<close>: the longest run of digits, bounded in length and value.\<close>

fun read_number_impl :: "nat \<Rightarrow> nat \<Rightarrow> nat \<Rightarrow> nat \<Rightarrow> nat \<Rightarrow> nat parser" where
  "read_number_impl radix maxd lim cnt r [] = (if cnt = 0 then None else Some (r, []))"
| "read_number_impl radix maxd lim cnt r (c # cs) =
     (case to_digit radix c of
        None \<Rightarrow> if cnt = 0 then None else Some (r, c # cs)
      | Some d \<Rightarrow> if maxd < cnt + 1 \<or> lim \<le> r * radix + d then None
                  else read_number_impl radix maxd lim (cnt + 1) (r * radix + d) cs)"

definition read_number :: "nat \<Rightarrow> nat \<Rightarrow> nat \<Rightarrow> nat parser" where
  "read_number radix maxd lim = read_number_impl radix maxd lim 0 0"

definition read_char :: "char \<Rightarrow> unit parser" where
  "read_char c s = (case s of x # xs \<Rightarrow> if x = c then Some ((), xs) else None | [] \<Rightarrow> None)"

fun seq_parser :: "'a parser \<Rightarrow> ('a \<Rightarrow> 'b parser) \<Rightarrow> 'b parser" where
  "seq_parser p f s = (case p s of None \<Rightarrow> None | Some (x, s') \<Rightarrow> f x s')"

definition then_parser :: "unit parser \<Rightarrow> 'b parser \<Rightarrow> 'b parser" where
  "then_parser p q = seq_parser p (\<lambda>_. q)"

definition read_octet :: "u8 parser" where
  "read_octet = seq_parser (read_number 10 3 256) (\<lambda>n s. Some (of_nat n, s))"

definition read_ipv4_addr :: "ipv4_addr parser" where
  "read_ipv4_addr =
     seq_parser read_octet (\<lambda>a.
     seq_parser (then_parser (read_char CHR ''.'') read_octet) (\<lambda>b.
     seq_parser (then_parser (read_char CHR ''.'') read_octet) (\<lambda>c.
     seq_parser (then_parser (read_char CHR ''.'') read_octet) (\<lambda>d s.
       Some (Ipv4Addr a b c d, s)))))"

text \<open>
  \<^verbatim>\<open>read_groups\<close> collects up to \<open>limit\<close> groups, an embedded IPv4 address counting for two and
  ending the list; \<open>i\<close> groups have been read before.
\<close>

definition group_sep :: "nat \<Rightarrow> 'a parser \<Rightarrow> 'a parser" where
  "group_sep i p = (if i = 0 then p else then_parser (read_char CHR '':'') p)"

primrec v4_groups :: "ipv4_addr \<Rightarrow> u16 list" where
  "v4_groups (Ipv4Addr a b c d) = [get_u16 a b, get_u16 c d]"

fun read_groups :: "nat \<Rightarrow> nat \<Rightarrow> string \<Rightarrow> u16 list \<times> bool \<times> string" where
  "read_groups 0 i s = ([], False, s)"
| "read_groups (Suc k) i s =
     (case (if 0 < k then group_sep i read_ipv4_addr s else None) of
        Some (v4, s') \<Rightarrow> (v4_groups v4, True, s')
      | None \<Rightarrow>
          (case group_sep i (read_number 16 4 65536) s of
             None \<Rightarrow> ([], False, s)
           | Some (g, s') \<Rightarrow>
               (let (gs, v4, s'') = read_groups k (i + 1) s' in (of_nat g # gs, v4, s''))))"

fun ipv6_of_list :: "u16 list \<Rightarrow> ipv6_addr option" where
  "ipv6_of_list [a, b, c, d, e, f, g, h] = Some (Ipv6Addr a b c d e f g h)"
| "ipv6_of_list _ = None"

definition read_ipv6_addr :: "ipv6_addr parser" where
  "read_ipv6_addr s =
     (let (head, head_v4, s1) = read_groups 8 0 s in
      if length head = 8 then map_option (\<lambda>a. (a, s1)) (ipv6_of_list head)
      else if head_v4 then None
      else case then_parser (read_char CHR '':'') (read_char CHR '':'') s1 of
             None \<Rightarrow> None
           | Some (_, s2) \<Rightarrow>
               (let (tl6, _, s3) = read_groups (8 - length head) 0 s2 in
                map_option (\<lambda>a. (a, s3))
                  (ipv6_of_list (head @ replicate (8 - length head - length tl6) 0 @ tl6))))"

definition read_port :: "u16 parser" where
  "read_port = seq_parser (read_number 10 5 65536) (\<lambda>n s. Some (of_nat n, s))"

definition read_socket_addr_v4 :: "socket_addr parser" where
  "read_socket_addr_v4 =
     seq_parser read_ipv4_addr (\<lambda>ip.
     seq_parser (then_parser (read_char CHR '':'') read_port) (\<lambda>p s. Some (SocketAddrV4 ip p, s)))"

definition read_socket_addr_v6 :: "socket_addr parser" where
  "read_socket_addr_v6 =
     seq_parser (then_parser (read_char CHR ''['') read_ipv6_addr) (\<lambda>ip.
     seq_parser (then_parser (read_char CHR '']'') (then_parser (read_char CHR '':'') read_port))
       (\<lambda>p s. Some (SocketAddrV6 ip p 0 0, s)))"

definition read_till_eof :: "'a parser \<Rightarrow> string \<Rightarrow> 'a option" where
  "read_till_eof p s = (case p s of Some (x, []) \<Rightarrow> Some x | _ \<Rightarrow> None)"

text \<open>\<open>s.parse::<T>()\<close> at the four address types.\<close>

definition parse_ipv4 :: "string \<Rightarrow> ipv4_addr option" where
  "parse_ipv4 = read_till_eof read_ipv4_addr"

definition parse_ipv6 :: "string \<Rightarrow> ipv6_addr option" where
  "parse_ipv6 = read_till_eof read_ipv6_addr"

definition parse_ip :: "string \<Rightarrow> ip_addr option" where
  "parse_ip s =
     (case read_ipv4_addr s of
        Some (ip, rest) \<Rightarrow> if rest = [] then Some (IpV4 ip) else None
      | None \<Rightarrow> map_option IpV6 (parse_ipv6 s))"

definition parse_socket_addr :: "string \<Rightarrow> socket_addr option" where
  "parse_socket_addr s =
     (case read_socket_addr_v4 s of
        Some (a, rest) \<Rightarrow> if rest = [] then Some a else None
      | None \<Rightarrow> read_till_eof read_socket_addr_v6 s)"

section \<open>Display\<close>

definition show_u8 :: "u8 \<Rightarrow> string" where
  "show_u8 b = show_nat (unat b)"

definition show_u16 :: "u16 \<Rightarrow> string" where
  "show_u16 p = show_nat (unat p)"

primrec show_ipv4 :: "ipv4_addr \<Rightarrow> string" where
  "show_ipv4 (Ipv4Addr a b c d) =
     show_u8 a @ ''.'' @ show_u8 b @ ''.'' @ show_u8 c @ ''.'' @ show_u8 d"

text \<open>
  \<^verbatim>\<open>impl Display for Ipv6Addr\<close>: the addresses that embed an IPv4 address are shown with it, otherwise
  the first longest run of at least two zero segments is written as a double colon.
\<close>

definition show_seg :: "u16 \<Rightarrow> string" where
  "show_seg g = show_radix 16 (unat g)"

fun show_groups :: "u16 list \<Rightarrow> string" where
  "show_groups [] = []"
| "show_groups [g] = show_seg g"
| "show_groups (g # gs) = show_seg g @ '':'' @ show_groups gs"

definition zero_run :: "u16 list \<Rightarrow> nat" where
  "zero_run gs = length (takeWhile (\<lambda>g. g = 0) gs)"

fun find_zero_slice :: "nat \<Rightarrow> u16 list \<Rightarrow> nat \<times> nat" where
  "find_zero_slice i [] = (0, 0)"
| "find_zero_slice i (g # gs) =
     (let (at, len) = find_zero_slice (i + 1) gs; r = zero_run (g # gs)
      in if len \<le> r \<and> 0 < r then (i, r) else (at, len))"

definition show_ipv6 :: "ipv6_addr \<Rightarrow> string" where
  "show_ipv6 a =
     (let gs = segments a;
          v4 = (\<lambda>g h. show_ipv4 (Ipv4Addr (put_u16 g ! 0) (put_u16 g ! 1) (put_u16 h ! 0) (put_u16 h ! 1)))
      in if gs = [0, 0, 0, 0, 0, 0, 0, 0] then ''::''
         else if gs = [0, 0, 0, 0, 0, 0, 0, 1] then ''::1''
         else if take 6 gs = [0, 0, 0, 0, 0, 0] then ''::'' @ v4 (gs ! 6) (gs ! 7)
         else if take 6 gs = [0, 0, 0, 0, 0, 65535] then ''::ffff:'' @ v4 (gs ! 6) (gs ! 7)
         else let (at, len) = find_zero_slice 0 gs
              in if 1 < len then show_groups (take at gs) @ ''::'' @ show_groups (drop (at + len) gs)
                 else show_groups gs)"

primrec show_ip :: "ip_addr \<Rightarrow> string" where
  "show_ip (IpV4 a) = show_ipv4 a"
| "show_ip (IpV6 a) = show_ipv6 a"

primrec show_socket_addr :: "socket_addr \<Rightarrow> string" where
  "show_socket_addr (SocketAddrV4 ip p) = show_ipv4 ip @ '':'' @ show_u16 p"
| "show_socket_addr (SocketAddrV6 ip p _ _) = ''['' @ show_ipv6 ip @ '']:'' @ show_u16 p"

section \<open>Reading back what was shown\<close>

definition stops :: "nat \<Rightarrow> string \<Rightarrow> bool" where
  "stops radix s \<longleftrightarrow> (case s of [] \<Rightarrow> True | c # _ \<Rightarrow> to_digit radix c = None)"

lemma length_show_radix:
  "\<lbrakk>n < r ^ k; 0 < k; 2 \<le> r\<rbrakk> \<Longrightarrow> length (show_radix r n) \<le> k"
proof (induction k arbitrary: n)
  case (Suc k)
  show ?case
  proof (cases "n < r")
    case False
    then have "0 < k" using Suc.prems by (cases k) auto
    moreover have "n div r < r ^ k"
      using Suc.prems by (simp add: div_less_iff_less_mult mult.commute)
    ultimately have "length (show_radix r (n div r)) \<le> k"
      using Suc by blast
    with False Suc.prems show ?thesis by (subst show_radix.simps) auto
  qed (simp add: show_radix.simps)
qed simp

lemma read_number_impl_show:
  "\<lbrakk>n < lim; length (show_radix r n) \<le> maxd; 2 \<le> r; r \<le> 36\<rbrakk> \<Longrightarrow>
     read_number_impl r maxd lim 0 0 (show_radix r n @ rest) =
     read_number_impl r maxd lim (length (show_radix r n)) n rest"
proof (induction n arbitrary: rest rule: less_induct)
  case (less n)
  show ?case
  proof (cases "n < r")
    case True
    with less.prems show ?thesis by (simp add: show_radix.simps)
  next
    case False
    have "n div r < n" using False less.prems by (intro div_less_dividend) auto
    moreover have shown: "show_radix r n = show_radix r (n div r) @ [digit_char (n mod r)]"
      using False less.prems by (subst show_radix.simps) simp
    ultimately show ?thesis
      using less.IH [of "n div r" "digit_char (n mod r) # rest"] less.prems
      by simp
  qed
qed

lemma read_number_impl_stops:
  "\<lbrakk>stops r rest; 0 < cnt\<rbrakk> \<Longrightarrow> read_number_impl r maxd lim cnt n rest = Some (n, rest)"
  by (cases rest) (auto simp: stops_def)

lemma length_show_radix_pos: "0 < length (show_radix r n)"
  by (subst show_radix.simps) simp

lemma read_number_show:
  assumes "n < r ^ k" and "0 < k" and "n < lim" and "2 \<le> r" and "r \<le> 36" and "stops r rest"
  shows "read_number r k lim (show_radix r n @ rest) = Some (n, rest)"
  using assms length_show_radix [of n r k] length_show_radix_pos [of r n]
  by (simp add: read_number_def read_number_impl_show read_number_impl_stops)

lemma stops_simps [simp]:
  "stops 10 []" "stops 10 (CHR ''.'' # s)" "stops 10 (CHR '':'' # s)" "stops 10 (CHR '']'' # s)"
  "stops 16 []" "stops 16 (CHR '':'' # s)" "stops 16 (CHR '']'' # s)"
  by (simp_all add: stops_def to_digit_def)

lemma read_char_simps [simp]:
  "read_char c [] = None" "read_char c (x # s) = (if x = c then Some ((), s) else None)"
  by (simp_all add: read_char_def)

lemma then_read_char [simp]:
  "then_parser (read_char c) p [] = None"
  "then_parser (read_char c) p (x # s) = (if x = c then p s else None)"
  by (simp_all add: then_parser_def)

lemma read_octet_show [simp]: "stops 10 rest \<Longrightarrow> read_octet (show_u8 b @ rest) = Some (b, rest)"
proof -
  assume "stops 10 rest"
  moreover have "unat b < 10 ^ 3" by (rule less_trans [OF unat_u8_bound]) simp
  ultimately show ?thesis
    by (simp add: read_octet_def show_u8_def read_number_show)
qed

lemma read_port_show [simp]: "stops 10 rest \<Longrightarrow> read_port (show_u16 p @ rest) = Some (p, rest)"
proof -
  assume "stops 10 rest"
  moreover have "unat p < 10 ^ 5" by (rule less_trans [OF unat_u16_bound]) simp
  ultimately show ?thesis
    by (simp add: read_port_def show_u16_def read_number_show)
qed

lemma read_ipv4_show [simp]: "stops 10 rest \<Longrightarrow> read_ipv4_addr (show_ipv4 a @ rest) = Some (a, rest)"
  by (cases a) (simp add: read_ipv4_addr_def)

lemma parse_ipv4_show [simp]: "parse_ipv4 (show_ipv4 a) = Some a"
  using read_ipv4_show [of "[]" a] by (simp add: parse_ipv4_def read_till_eof_def)

lemma parse_ip_show_v4 [simp]: "parse_ip (show_ipv4 a) = Some (IpV4 a)"
  using read_ipv4_show [of "[]" a] by (simp add: parse_ip_def)

lemma parse_socket_addr_show_v4 [simp]:
  "parse_socket_addr (show_ipv4 ip @ CHR '':'' # show_u16 p) = Some (SocketAddrV4 ip p)"
  using read_port_show [of "[]" p] by (simp add: parse_socket_addr_def read_socket_addr_v4_def)

end
