(* ===== verification/Socks5.thy ===== *)
theory Socks5
  imports Net_Addr
begin

text \<open>
  The SOCKS5 protocol of \<^verbatim>\<open>src/relay/socks5.rs\<close>: commands, replies, addresses and the five message
  types with their encoders (\<^verbatim>\<open>write_to_buf\<close>, \<^verbatim>\<open>write_to\<close>) and decoders (\<^verbatim>\<open>read_from\<close>). A decoder
  takes the reader's \<^verbatim>\<open>read_exact\<close> as an argument, as the source is generic in the reader; the lemmas
  about it are proved once in the locale \<open>byte_reader\<close>.
\<close>

section \<open>Commands and replies\<close>

definition SOCKS5_VERSION :: u8 where "SOCKS5_VERSION = 5"

definition SOCKS5_AUTH_METHOD_NONE :: u8 where "SOCKS5_AUTH_METHOD_NONE = 0"

definition SOCKS5_AUTH_METHOD_NOT_ACCEPTABLE :: u8 where "SOCKS5_AUTH_METHOD_NOT_ACCEPTABLE = 255"

definition SOCKS5_ADDR_TYPE_IPV4 :: u8 where "SOCKS5_ADDR_TYPE_IPV4 = 1"

definition SOCKS5_ADDR_TYPE_DOMAIN_NAME :: u8 where "SOCKS5_ADDR_TYPE_DOMAIN_NAME = 3"

definition SOCKS5_ADDR_TYPE_IPV6 :: u8 where "SOCKS5_ADDR_TYPE_IPV6 = 4"

lemmas socks5_consts = SOCKS5_VERSION_def SOCKS5_ADDR_TYPE_IPV4_def
  SOCKS5_ADDR_TYPE_DOMAIN_NAME_def SOCKS5_ADDR_TYPE_IPV6_def

datatype Command = TcpConnect | TcpBind | UdpAssociate

primrec Command_as_u8 :: "Command \<Rightarrow> u8" where
  "Command_as_u8 TcpConnect = 1"
| "Command_as_u8 TcpBind = 2"
| "Command_as_u8 UdpAssociate = 3"

definition Command_from_u8 :: "u8 \<Rightarrow> Command option" where
  "Command_from_u8 code =
     (if code = 1 then Some TcpConnect
      else if code = 2 then Some TcpBind
      else if code = 3 then Some UdpAssociate
      else None)"

datatype Reply =
    Succeeded | GeneralFailure | ConnectionNotAllowed | NetworkUnreachable | HostUnreachable
  | ConnectionRefusedReply | TtlExpired | CommandNotSupported | AddressTypeNotSupported
  | OtherReply u8

primrec Reply_as_u8 :: "Reply \<Rightarrow> u8" where
  "Reply_as_u8 Succeeded = 0"
| "Reply_as_u8 GeneralFailure = 1"
| "Reply_as_u8 ConnectionNotAllowed = 2"
| "Reply_as_u8 NetworkUnreachable = 3"
| "Reply_as_u8 HostUnreachable = 4"
| "Reply_as_u8 ConnectionRefusedReply = 5"
| "Reply_as_u8 TtlExpired = 6"
| "Reply_as_u8 CommandNotSupported = 7"
| "Reply_as_u8 AddressTypeNotSupported = 8"
| "Reply_as_u8 (OtherReply c) = c"

definition Reply_from_u8 :: "u8 \<Rightarrow> Reply" where
  "Reply_from_u8 code =
     (if code = 0 then Succeeded
      else if code = 1 then GeneralFailure
      else if code = 2 then ConnectionNotAllowed
      else if code = 3 then NetworkUnreachable
      else if code = 4 then HostUnreachable
      else if code = 5 then ConnectionRefusedReply
      else if code = 6 then TtlExpired
      else if code = 7 then CommandNotSupported
      else if code = 8 then AddressTypeNotSupported
      else OtherReply code)"

primrec Reply_display :: "Reply \<Rightarrow> string" where
  "Reply_display Succeeded = ''Succeeded''"
| "Reply_display AddressTypeNotSupported = ''Address type not supported''"
| "Reply_display CommandNotSupported = ''Command not supported''"
| "Reply_display ConnectionNotAllowed = ''Connection not allowed''"
| "Reply_display ConnectionRefusedReply = ''Connection refused''"
| "Reply_display GeneralFailure = ''General failure''"
| "Reply_display HostUnreachable = ''Host unreachable''"
| "Reply_display NetworkUnreachable = ''Network unreachable''"
| "Reply_display (OtherReply u) = ''Other reply ('' @ show_u8 u @ '')''"
| "Reply_display TtlExpired = ''TTL expired''"

record Socks5Error =
  err_reply :: Reply
  err_message :: string

definition Socks5Error_new :: "Reply \<Rightarrow> string \<Rightarrow> Socks5Error" where
  "Socks5Error_new reply message = \<lparr>err_reply = reply, err_message = message\<rparr>"

text \<open>The two \<^verbatim>\<open>From\<close> conversions between protocol errors and I/O errors.\<close>

definition Socks5Error_from_io :: "io_error \<Rightarrow> Socks5Error" where
  "Socks5Error_from_io err = Socks5Error_new GeneralFailure (io_err_msg err)"

definition io_error_from_Socks5Error :: "Socks5Error \<Rightarrow> io_error" where
  "io_error_from_Socks5Error err = IoError OtherKind (err_message err)"

section \<open>Addresses\<close>

datatype Address =
    SocketAddress socket_addr
  | DomainNameAddress string u16

definition read_exact :: "'r reader \<Rightarrow> nat \<Rightarrow> 'r \<Rightarrow> Socks5Error + (bytes \<times> 'r)" where
  "read_exact rd n r = map_err Socks5Error_from_io (rd n r)"

fun get_u16s :: "bytes \<Rightarrow> u16 list" where
  "get_u16s (hi # lo # bs) = get_u16 hi lo # get_u16s bs"
| "get_u16s _ = []"

definition Address_read_from :: "'r reader \<Rightarrow> 'r \<Rightarrow> Socks5Error + (Address \<times> 'r)" where
  "Address_read_from rd stream =
     bind_res (read_exact rd 1 stream) (\<lambda>(addr_type_buf, stream).
       let addr_type = addr_type_buf ! 0 in
       if addr_type = SOCKS5_ADDR_TYPE_IPV4 then
         bind_res (read_exact rd 6 stream) (\<lambda>(buf, stream).
           let v4addr = Ipv4Addr (buf ! 0) (buf ! 1) (buf ! 2) (buf ! 3);
               port = get_u16 (buf ! 4) (buf ! 5)
           in Inr (SocketAddress (SocketAddrV4 v4addr port), stream))
       else if addr_type = SOCKS5_ADDR_TYPE_IPV6 then
         bind_res (read_exact rd 18 stream) (\<lambda>(buf, stream).
           let g = get_u16s buf;
               v6addr = Ipv6Addr (g ! 0) (g ! 1) (g ! 2) (g ! 3) (g ! 4) (g ! 5) (g ! 6) (g ! 7);
               port = g ! 8
           in Inr (SocketAddress (SocketAddrV6 v6addr port 0 0), stream))
       else if addr_type = SOCKS5_ADDR_TYPE_DOMAIN_NAME then
         bind_res (read_exact rd 1 stream) (\<lambda>(length_buf, stream).
           let len = unat (length_buf ! 0); buf_length = len + 2 in
           bind_res (read_exact rd buf_length stream) (\<lambda>(buf, stream).
             case from_utf8 (take len buf) of
               None \<Rightarrow> Inl (Socks5Error_new GeneralFailure ''invalid address encoding'')
             | Some addr \<Rightarrow>
                 let port = get_u16 (buf ! len) (buf ! (len + 1))
                 in Inr (DomainNameAddress addr port, stream)))
       else Inl (Socks5Error_new AddressTypeNotSupported
                   (''not supported address type '' @ show_hex addr_type)))"

text \<open>Writers append to a growable buffer; a domain name longer than 255 bytes fails an assertion.\<close>

primrec write_ipv4_address :: "ipv4_addr \<times> u16 \<Rightarrow> bytes \<Rightarrow> bytes" where
  "write_ipv4_address (ip, port) buf = buf @ [SOCKS5_ADDR_TYPE_IPV4] @ octets ip @ put_u16 port"

primrec write_ipv6_address :: "ipv6_addr \<times> u16 \<Rightarrow> bytes \<Rightarrow> bytes" where
  "write_ipv6_address (ip, port) buf =
     buf @ [SOCKS5_ADDR_TYPE_IPV6] @ concat (map put_u16 (segments ip)) @ put_u16 port"

definition write_domain_name_address :: "string \<Rightarrow> u16 \<Rightarrow> bytes \<Rightarrow> bytes rust" where
  "write_domain_name_address dnaddr port buf =
     (if length dnaddr \<le> 255
      then Ret (buf @ [SOCKS5_ADDR_TYPE_DOMAIN_NAME] @ [of_nat (length dnaddr)]
                @ as_bytes dnaddr @ put_u16 port)
      else Panic)"

primrec write_socket_address :: "socket_addr \<Rightarrow> bytes \<Rightarrow> bytes" where
  "write_socket_address (SocketAddrV4 ip port) = write_ipv4_address (ip, port)"
| "write_socket_address (SocketAddrV6 ip port flowinfo scope) = write_ipv6_address (ip, port)"

primrec write_address :: "Address \<Rightarrow> bytes \<Rightarrow> bytes rust" where
  "write_address (SocketAddress addr) = (\<lambda>buf. Ret (write_socket_address addr buf))"
| "write_address (DomainNameAddress dnaddr port) = write_domain_name_address dnaddr port"

fun get_addr_len :: "Address \<Rightarrow> nat" where
  "get_addr_len (SocketAddress (SocketAddrV4 _ _)) = 1 + 4 + 2"
| "get_addr_len (SocketAddress (SocketAddrV6 _ _ _ _)) = 1 + 8 * 2 + 2"
| "get_addr_len (DomainNameAddress dmname _) = 1 + 1 + length dmname + 2"

definition Address_write_to_buf :: "Address \<Rightarrow> bytes \<Rightarrow> bytes rust" where
  "Address_write_to_buf = write_address"

definition Address_serialized_len :: "Address \<Rightarrow> nat" where
  "Address_serialized_len = get_addr_len"

text \<open>\<^verbatim>\<open>write_all\<close> of the writer is the argument \<open>wa\<close>; every \<^verbatim>\<open>write_to\<close> serialises first.\<close>

type_synonym 'w writer = "bytes \<Rightarrow> 'w \<Rightarrow> io_error + 'w"

definition Address_write_to :: "'w writer \<Rightarrow> Address \<Rightarrow> 'w \<Rightarrow> (io_error + 'w) rust" where
  "Address_write_to wa addr w = rust_bind (Address_write_to_buf addr []) (\<lambda>buf. Ret (wa buf w))"

primrec Address_port :: "Address \<Rightarrow> u16" where
  "Address_port (SocketAddress addr) = sock_port addr"
| "Address_port (DomainNameAddress _ port) = port"

primrec Address_display :: "Address \<Rightarrow> string" where
  "Address_display (SocketAddress addr) = show_socket_addr addr"
| "Address_display (DomainNameAddress addr port) = addr @ '':'' @ show_u16 port"

text \<open>\<^verbatim>\<open>str::split\<close> at a character; the result is never empty.\<close>

fun split_on :: "char \<Rightarrow> string \<Rightarrow> string list" where
  "split_on sep [] = [[]]"
| "split_on sep (c # cs) =
     (if c = sep then [] # split_on sep cs
      else case split_on sep cs of [] \<Rightarrow> [[c]] | p # ps \<Rightarrow> (c # p) # ps)"

definition Address_from_str :: "string \<Rightarrow> unit + Address" where
  "Address_from_str s =
     (case parse_socket_addr s of
        Some addr \<Rightarrow> Inr (SocketAddress addr)
      | None \<Rightarrow>
          (case split_on CHR '':'' s of
             dn # port # _ \<Rightarrow>
               (case parse_u16 port of
                  Some port \<Rightarrow> Inr (DomainNameAddress dn port)
                | None \<Rightarrow> Inl ())
           | [dn] \<Rightarrow> Inr (DomainNameAddress dn 80)
           | [] \<Rightarrow> Inl ()))"

section \<open>Messages\<close>

record TcpRequestHeader =
  req_command :: Command
  req_address :: Address

definition unsupported_version :: "u8 \<Rightarrow> string" where
  "unsupported_version ver = ''unsupported socks version '' @ show_hex ver"

definition TcpRequestHeader_read_from :: "'r reader \<Rightarrow> 'r \<Rightarrow> Socks5Error + (TcpRequestHeader \<times> 'r)" where
  "TcpRequestHeader_read_from rd r =
     bind_res (read_exact rd 3 r) (\<lambda>(buf, r).
       let ver = buf ! 0 in
       if ver \<noteq> SOCKS5_VERSION
       then Inl (Socks5Error_new ConnectionRefusedReply (unsupported_version ver))
       else
         let cmd = buf ! 1 in
         case Command_from_u8 cmd of
           None \<Rightarrow> Inl (Socks5Error_new CommandNotSupported (''unsupported command '' @ show_hex cmd))
         | Some command \<Rightarrow>
             bind_res (Address_read_from rd r) (\<lambda>(address, r).
               Inr (\<lparr>req_command = command, req_address = address\<rparr>, r)))"

definition TcpRequestHeader_write_to_buf :: "TcpRequestHeader \<Rightarrow> bytes \<Rightarrow> bytes rust" where
  "TcpRequestHeader_write_to_buf h buf =
     Address_write_to_buf (req_address h)
       (buf @ [SOCKS5_VERSION, Command_as_u8 (req_command h), 0])"

definition TcpRequestHeader_serialized_len :: "TcpRequestHeader \<Rightarrow> nat" where
  "TcpRequestHeader_serialized_len h = Address_serialized_len (req_address h) + 3"

definition TcpRequestHeader_write_to ::
    "'w writer \<Rightarrow> TcpRequestHeader \<Rightarrow> 'w \<Rightarrow> (io_error + 'w) rust" where
  "TcpRequestHeader_write_to wa h w =
     rust_bind (TcpRequestHeader_write_to_buf h []) (\<lambda>buf. Ret (wa buf w))"

record TcpResponseHeader =
  resp_reply :: Reply
  resp_address :: Address

definition TcpResponseHeader_read_from :: "'r reader \<Rightarrow> 'r \<Rightarrow> Socks5Error + (TcpResponseHeader \<times> 'r)" where
  "TcpResponseHeader_read_from rd r =
     bind_res (read_exact rd 3 r) (\<lambda>(buf, r).
       let ver = buf ! 0; reply_code = buf ! 1 in
       if ver \<noteq> SOCKS5_VERSION
       then Inl (Socks5Error_new ConnectionRefusedReply (unsupported_version ver))
       else
         bind_res (Address_read_from rd r) (\<lambda>(address, r).
           Inr (\<lparr>resp_reply = Reply_from_u8 reply_code, resp_address = address\<rparr>, r)))"

definition TcpResponseHeader_write_to_buf :: "TcpResponseHeader \<Rightarrow> bytes \<Rightarrow> bytes rust" where
  "TcpResponseHeader_write_to_buf h buf =
     Address_write_to_buf (resp_address h) (buf @ [SOCKS5_VERSION, Reply_as_u8 (resp_reply h), 0])"

definition TcpResponseHeader_serialized_len :: "TcpResponseHeader \<Rightarrow> nat" where
  "TcpResponseHeader_serialized_len h = Address_serialized_len (resp_address h) + 3"

definition TcpResponseHeader_write_to ::
    "'w writer \<Rightarrow> TcpResponseHeader \<Rightarrow> 'w \<Rightarrow> (io_error + 'w) rust" where
  "TcpResponseHeader_write_to wa h w =
     rust_bind (TcpResponseHeader_write_to_buf h []) (\<lambda>buf. Ret (wa buf w))"

record HandshakeRequest =
  hs_methods :: bytes

definition HandshakeRequest_read_from :: "'r reader \<Rightarrow> 'r \<Rightarrow> io_error + (HandshakeRequest \<times> 'r)" where
  "HandshakeRequest_read_from rd r =
     bind_res (rd 2 r) (\<lambda>(buf, r).
       let ver = buf ! 0; nmet = buf ! 1 in
       if ver \<noteq> SOCKS5_VERSION then Inl (IoError InvalidData (unsupported_version ver))
       else bind_res (rd (unat nmet) r) (\<lambda>(methods, r). Inr (\<lparr>hs_methods = methods\<rparr>, r)))"

definition HandshakeRequest_write_to_buf :: "HandshakeRequest \<Rightarrow> bytes \<Rightarrow> bytes" where
  "HandshakeRequest_write_to_buf h buf =
     buf @ [SOCKS5_VERSION, of_nat (length (hs_methods h))] @ hs_methods h"

definition HandshakeRequest_serialized_len :: "HandshakeRequest \<Rightarrow> nat" where
  "HandshakeRequest_serialized_len h = 2 + length (hs_methods h)"

definition HandshakeRequest_write_to :: "'w writer \<Rightarrow> HandshakeRequest \<Rightarrow> 'w \<Rightarrow> io_error + 'w" where
  "HandshakeRequest_write_to wa h w = wa (HandshakeRequest_write_to_buf h []) w"

record HandshakeResponse =
  chosen_method :: u8

definition HandshakeResponse_read_from :: "'r reader \<Rightarrow> 'r \<Rightarrow> io_error + (HandshakeResponse \<times> 'r)" where
  "HandshakeResponse_read_from rd r =
     bind_res (rd 2 r) (\<lambda>(buf, r).
       let ver = buf ! 0; met = buf ! 1 in
       if ver \<noteq> SOCKS5_VERSION then Inl (IoError InvalidData (unsupported_version ver))
       else Inr (\<lparr>chosen_method = met\<rparr>, r))"

definition HandshakeResponse_write_to_buf :: "HandshakeResponse \<Rightarrow> bytes \<Rightarrow> bytes" where
  "HandshakeResponse_write_to_buf h buf = buf @ [SOCKS5_VERSION, chosen_method h]"

definition HandshakeResponse_serialized_len :: "HandshakeResponse \<Rightarrow> nat" where
  "HandshakeResponse_serialized_len h = 2"

definition HandshakeResponse_write_to :: "'w writer \<Rightarrow> HandshakeResponse \<Rightarrow> 'w \<Rightarrow> io_error + 'w" where
  "HandshakeResponse_write_to wa h w = wa (HandshakeResponse_write_to_buf h []) w"

record UdpAssociateHeader =
  udp_frag :: u8
  udp_address :: Address

definition UdpAssociateHeader_read_from :: "'r reader \<Rightarrow> 'r \<Rightarrow> Socks5Error + (UdpAssociateHeader \<times> 'r)" where
  "UdpAssociateHeader_read_from rd r =
     bind_res (read_exact rd 3 r) (\<lambda>(buf, r).
       let frag = buf ! 2 in
       bind_res (Address_read_from rd r) (\<lambda>(address, r).
         Inr (\<lparr>udp_frag = frag, udp_address = address\<rparr>, r)))"

definition UdpAssociateHeader_write_to_buf :: "UdpAssociateHeader \<Rightarrow> bytes \<Rightarrow> bytes rust" where
  "UdpAssociateHeader_write_to_buf h buf =
     Address_write_to_buf (udp_address h) (buf @ [0, 0, udp_frag h])"

definition UdpAssociateHeader_serialized_len :: "UdpAssociateHeader \<Rightarrow> nat" where
  "UdpAssociateHeader_serialized_len h = 3 + Address_serialized_len (udp_address h)"

definition UdpAssociateHeader_write_to ::
    "'w writer \<Rightarrow> UdpAssociateHeader \<Rightarrow> 'w \<Rightarrow> (io_error + 'w) rust" where
  "UdpAssociateHeader_write_to wa h w =
     rust_bind (UdpAssociateHeader_write_to_buf h []) (\<lambda>buf. Ret (wa buf w))"

section \<open>Encoding and decoding\<close>

text \<open>
  A Rust string is valid UTF-8, and a domain name fits a SOCKS5 address when its length fits one
  byte. The wire format has no room for the flow information and the scope of an IPv6 socket
  address: \<open>wire_address\<close> is the address the peer sees.
\<close>

primrec wf_address :: "Address \<Rightarrow> bool" where
  "wf_address (SocketAddress _) = True"
| "wf_address (DomainNameAddress dn _) = (utf8_valid (as_bytes dn) \<and> length dn \<le> 255)"

fun wire_address :: "Address \<Rightarrow> Address" where
  "wire_address (SocketAddress (SocketAddrV6 ip port _ _)) = SocketAddress (SocketAddrV6 ip port 0 0)"
| "wire_address a = a"

definition addr_bytes :: "Address \<Rightarrow> bytes" where
  "addr_bytes a = (case write_address a [] of Ret bs \<Rightarrow> bs | Panic \<Rightarrow> [])"

lemma Command_round_trip [simp]: "Command_from_u8 (Command_as_u8 c) = Some c"
  by (cases c) (simp_all add: Command_from_u8_def)

lemma Command_from_u8_Some: "Command_from_u8 b = Some c \<Longrightarrow> b = Command_as_u8 c"
  by (auto simp: Command_from_u8_def split: if_splits)

lemma Reply_as_from [simp]: "Reply_as_u8 (Reply_from_u8 b) = b"
  by (simp add: Reply_from_u8_def)

lemma write_address_append:
  "write_address a buf = rust_bind (write_address a []) (\<lambda>bs. Ret (buf @ bs))"
proof (cases a)
  case (SocketAddress s)
  then show ?thesis by (cases s) simp_all
qed (simp add: write_domain_name_address_def)

lemma write_address_wf [simp, codec_simps]:
  "wf_address a \<Longrightarrow> write_address a buf = Ret (buf @ addr_bytes a)"
  by (subst write_address_append)
     (cases a; simp add: addr_bytes_def write_domain_name_address_def)

lemma write_address_panics_iff:
  "write_address a buf = Panic \<longleftrightarrow> (\<exists>dn p. a = DomainNameAddress dn p \<and> 255 < length dn)"
  by (cases a) (auto simp: write_domain_name_address_def)

lemma addr_bytes_v4:
  "addr_bytes (SocketAddress (SocketAddrV4 ip p)) = SOCKS5_ADDR_TYPE_IPV4 # octets ip @ put_u16 p"
  by (simp add: addr_bytes_def)

lemma addr_bytes_v6:
  "addr_bytes (SocketAddress (SocketAddrV6 ip p f s)) =
     SOCKS5_ADDR_TYPE_IPV6 # concat (map put_u16 (segments ip)) @ put_u16 p"
  by (simp add: addr_bytes_def)

lemma addr_bytes_domain:
  "length dn \<le> 255 \<Longrightarrow> addr_bytes (DomainNameAddress dn p) =
     SOCKS5_ADDR_TYPE_DOMAIN_NAME # of_nat (length dn) # as_bytes dn @ put_u16 p"
  by (simp add: addr_bytes_def write_domain_name_address_def)

lemmas addr_bytes_simps = addr_bytes_v4 addr_bytes_v6 addr_bytes_domain

lemma length_octets [simp]: "length (octets ip) = 4"
  by (cases ip) simp

lemma length_segments [simp]: "length (segments ip) = 8"
  by (cases ip) simp

lemma length_put_u16s [simp]: "length (concat (map put_u16 gs)) = 2 * length gs"
  by (induction gs) simp_all

lemma length_addr_bytes: "wf_address a \<Longrightarrow> length (addr_bytes a) = get_addr_len a"
  by (cases a rule: get_addr_len.cases) (simp_all add: addr_bytes_simps)

lemma get_u16s_put [simp]: "get_u16s (concat (map put_u16 gs) @ bs) = gs @ get_u16s bs"
  by (induction gs) (simp_all add: put_u16_def)

lemma get_u16s_put_u16 [simp]: "get_u16s (put_u16 p) = [p]"
  by (simp add: put_u16_def)

lemma put_get_u16s: "even (length bs) \<Longrightarrow> concat (map put_u16 (get_u16s bs)) = bs"
  by (induction bs rule: get_u16s.induct) (simp_all add: put_get_u16)

lemma length_get_u16s: "length (get_u16s bs) = length bs div 2"
  by (induction bs rule: get_u16s.induct) simp_all

lemma list_of_length_9:
  "length xs = 9 \<Longrightarrow> xs = [xs!0, xs!1, xs!2, xs!3, xs!4, xs!5, xs!6, xs!7, xs!8]"
  by (auto simp: list_eq_iff_nth_eq nth_Cons' less_Suc_eq numeral_eq_Suc)

lemma list_of_length_6: "length xs = 6 \<Longrightarrow> xs = [xs!0, xs!1, xs!2, xs!3, xs!4, xs!5]"
  by (auto simp: list_eq_iff_nth_eq nth_Cons' less_Suc_eq numeral_eq_Suc)

lemma list_of_length_1: "length xs = 1 \<Longrightarrow> xs = [xs ! 0]"
  by (cases xs) auto

lemma split_last_two:
  "length xs = n + 2 \<Longrightarrow> xs = take n xs @ [xs ! n, xs ! (n + 1)]"
  by (metis Cons_nth_drop_Suc Suc_eq_plus1 add_2_eq_Suc' append_take_drop_id drop_all lessI
      less_Suc_eq order_refl)

lemma v6_reencode:
  assumes "length buf = 18"
  defines "g \<equiv> get_u16s buf"
  shows "concat (map put_u16 (segments (Ipv6Addr (g!0) (g!1) (g!2) (g!3) (g!4) (g!5) (g!6) (g!7))))
           @ put_u16 (g ! 8) = buf"
proof -
  have "length g = 9" using assms by (simp add: length_get_u16s)
  then have "g = [g!0, g!1, g!2, g!3, g!4, g!5, g!6, g!7, g!8]"
    by (rule list_of_length_9)
  then have "concat (map put_u16 g) =
      concat (map put_u16 [g!0, g!1, g!2, g!3, g!4, g!5, g!6, g!7, g!8])"
    by (rule arg_cong)
  moreover have "concat (map put_u16 g) = buf"
    using assms by (simp add: put_get_u16s)
  ultimately show ?thesis by simp
qed

lemma v4_reencode:
  "length buf = 6 \<Longrightarrow>
     octets (Ipv4Addr (buf!0) (buf!1) (buf!2) (buf!3)) @ put_u16 (get_u16 (buf!4) (buf!5)) = buf"
  using list_of_length_6 [of buf] by (simp add: put_get_u16)

lemma domain_reencode:
  "length buf = n + 2 \<Longrightarrow> take n buf @ put_u16 (get_u16 (buf ! n) (buf ! (n + 1))) = buf"
  using split_last_two [of buf n] by (simp add: put_get_u16)

context byte_reader
begin

lemma read_exact_prefix:
  assumes "ready r" and "avail r = xs @ ys" and "length xs = n"
  shows "\<exists>r'. read_exact rd n r = Inr (xs, r') \<and> avail r' = ys \<and> ready r'"
  using rd_prefix [OF assms] by (auto simp: read_exact_def)

lemma read_exact_short:
  assumes "ready r" and "length (avail r) < n"
  shows "\<exists>e. read_exact rd n r = Inl e \<and> err_reply e = GeneralFailure"
  using rd_short [OF assms] by (auto simp: read_exact_def Socks5Error_from_io_def Socks5Error_new_def)

lemma read_exact_Inr:
  assumes "ready r" and "read_exact rd n r = Inr (bs, r')"
  shows "avail r = bs @ avail r' \<and> length bs = n \<and> ready r'"
  using assms(2)
  by (cases rule: rd_cases [OF assms(1), of n]) (auto simp: read_exact_def)

lemma Address_read_from_write:
  assumes "ready r" and "wf_address a" and "avail r = addr_bytes a @ rest"
  shows "\<exists>r'. Address_read_from rd r = Inr (wire_address a, r') \<and> avail r' = rest \<and> ready r'"
proof (cases a rule: get_addr_len.cases)
  case (1 ip p)
  obtain r1 where r1: "read_exact rd 1 r = Inr ([SOCKS5_ADDR_TYPE_IPV4], r1)"
      "avail r1 = (octets ip @ put_u16 p) @ rest" "ready r1"
    using read_exact_prefix [of r "[SOCKS5_ADDR_TYPE_IPV4]" _ 1] assms 1 by (auto simp: addr_bytes_simps)
  obtain r2 where "read_exact rd 6 r1 = Inr (octets ip @ put_u16 p, r2)" "avail r2 = rest" "ready r2"
    using read_exact_prefix [OF r1(3) r1(2), of 6] by auto
  with r1 1 show ?thesis
    by (cases ip) (simp add: Address_read_from_def put_u16_def)
next
  case (2 ip p f s)
  obtain r1 where r1: "read_exact rd 1 r = Inr ([SOCKS5_ADDR_TYPE_IPV6], r1)"
      "avail r1 = (concat (map put_u16 (segments ip)) @ put_u16 p) @ rest" "ready r1"
    using read_exact_prefix [of r "[SOCKS5_ADDR_TYPE_IPV6]" _ 1] assms 2 by (auto simp: addr_bytes_simps)
  obtain r2 where r2: "read_exact rd 18 r1 = Inr (concat (map put_u16 (segments ip)) @ put_u16 p, r2)"
      "avail r2 = rest" "ready r2"
    using read_exact_prefix [OF r1(3) r1(2), of 18] by auto
  have "get_u16s (concat (map put_u16 (segments ip)) @ put_u16 p) = segments ip @ [p]"
    by simp
  with r1 r2 2 show ?thesis
    by (cases ip) (simp add: Address_read_from_def socks5_consts Let_def)
next
  case (3 dn p)
  then have dn: "length dn \<le> 255" "utf8_valid (as_bytes dn)" using assms by auto
  obtain r1 where r1: "read_exact rd 1 r = Inr ([SOCKS5_ADDR_TYPE_DOMAIN_NAME], r1)"
      "avail r1 = [of_nat (length dn)] @ as_bytes dn @ put_u16 p @ rest" "ready r1"
    using read_exact_prefix [of r "[SOCKS5_ADDR_TYPE_DOMAIN_NAME]" _ 1] assms 3 dn
    by (auto simp: addr_bytes_simps)
  obtain r2 where r2: "read_exact rd 1 r1 = Inr ([of_nat (length dn)], r2)"
      "avail r2 = (as_bytes dn @ put_u16 p) @ rest" "ready r2"
    using read_exact_prefix [OF r1(3) r1(2), of 1] by auto
  obtain r3 where r3: "read_exact rd (length dn + 2) r2 = Inr (as_bytes dn @ put_u16 p, r3)"
      "avail r3 = rest" "ready r3"
    using read_exact_prefix [OF r2(3) r2(2), of "length dn + 2"] by auto
  have "unat (of_nat (length dn) :: u8) = length dn"
    using dn by (simp add: unat_of_nat_u8)
  with r1 r2 r3 3 dn show ?thesis
    by (simp add: Address_read_from_def socks5_consts Let_def put_u16_def nth_append)
qed

lemma Address_read_from_Inr:
  assumes "ready r" and "Address_read_from rd r = Inr (a, r')"
  shows "wf_address a \<and> wire_address a = a \<and> avail r = addr_bytes a @ avail r' \<and> ready r'"
proof -
  obtain tb r1 where r1: "read_exact rd 1 r = Inr (tb, r1)"
    using assms(2) by (auto simp: Address_read_from_def bind_res_Inr_iff)
  have tb: "avail r = tb @ avail r1" "tb = [tb ! 0]" "ready r1"
    using read_exact_Inr [OF assms(1) r1] list_of_length_1 by blast+
  consider (v4) "tb ! 0 = SOCKS5_ADDR_TYPE_IPV4" | (v6) "tb ! 0 = SOCKS5_ADDR_TYPE_IPV6"
    | (domain) "tb ! 0 = SOCKS5_ADDR_TYPE_DOMAIN_NAME"
    using assms(2) r1 by (auto simp: Address_read_from_def Let_def split: if_splits)
  then show ?thesis
  proof cases
    case v4
    then obtain buf where buf: "read_exact rd 6 r1 = Inr (buf, r')"
      and a: "a = SocketAddress (SocketAddrV4 (Ipv4Addr (buf!0) (buf!1) (buf!2) (buf!3))
                (get_u16 (buf!4) (buf!5)))"
      using assms(2) r1 by (auto simp: Address_read_from_def Let_def bind_res_Inr_iff)
    from read_exact_Inr [OF tb(3) buf] have "avail r1 = buf @ avail r'" "length buf = 6" "ready r'"
      by auto
    with tb(1) v4 v4_reencode [of buf] show ?thesis
      by (subst tb(1), subst tb(2)) (simp add: a addr_bytes_v4)
  next
    case v6
    then obtain buf where buf: "read_exact rd 18 r1 = Inr (buf, r')"
      and a: "a = (let g = get_u16s buf in SocketAddress (SocketAddrV6
                (Ipv6Addr (g!0) (g!1) (g!2) (g!3) (g!4) (g!5) (g!6) (g!7)) (g!8) 0 0))"
      using assms(2) r1 by (auto simp: Address_read_from_def Let_def bind_res_Inr_iff socks5_consts)
    from read_exact_Inr [OF tb(3) buf] have "avail r1 = buf @ avail r'" "length buf = 18" "ready r'"
      by auto
    with tb(1) v6 v6_reencode [of buf] show ?thesis
      by (subst tb(1), subst tb(2)) (simp add: a Let_def addr_bytes_v6)
  next
    case domain
    then obtain lb r2 buf dn where lb: "read_exact rd 1 r1 = Inr (lb, r2)"
      and buf: "read_exact rd (unat (lb ! 0) + 2) r2 = Inr (buf, r')"
      and dn: "from_utf8 (take (unat (lb ! 0)) buf) = Some dn"
      and a: "a = DomainNameAddress dn (get_u16 (buf ! unat (lb ! 0)) (buf ! (unat (lb ! 0) + 1)))"
      using assms(2) r1
      by (auto simp: Address_read_from_def Let_def bind_res_Inr_iff socks5_consts split: option.splits)
    have lb': "avail r1 = lb @ avail r2" "lb = [lb ! 0]" "ready r2"
      using read_exact_Inr [OF tb(3) lb] list_of_length_1 by blast+
    have buf': "avail r2 = buf @ avail r'" "length buf = unat (lb ! 0) + 2" "ready r'"
      using read_exact_Inr [OF lb'(3) buf] by auto
    have utf: "as_bytes dn = take (unat (lb ! 0)) buf" "utf8_valid (as_bytes dn)"
      using dn by (auto simp: from_utf8_def split: if_splits)
    then have len: "length dn = unat (lb ! 0)"
      using buf'(2) by (metis length_map length_take min.absorb2 le_add1)
    have "addr_bytes a = [SOCKS5_ADDR_TYPE_DOMAIN_NAME] @ lb @ buf"
      using domain_reencode [OF buf'(2)] unat_u8_bound [of "lb ! 0"] utf len
      by (subst lb'(2)) (simp add: a addr_bytes_domain less_Suc_eq_le [symmetric])
    with tb lb' buf' domain utf len unat_u8_bound [of "lb ! 0"] show ?thesis
      by (subst tb(1), subst tb(2)) (simp add: a less_Suc_eq_le [symmetric])
  qed
qed

lemma TcpRequestHeader_read_from_write:
  assumes "ready r" and "wf_address (req_address h)"
    and "avail r = [SOCKS5_VERSION, Command_as_u8 (req_command h), rsv] @ addr_bytes (req_address h) @ rest"
  shows "\<exists>r'. TcpRequestHeader_read_from rd r =
                Inr (h\<lparr>req_address := wire_address (req_address h)\<rparr>, r') \<and> avail r' = rest \<and> ready r'"
proof -
  obtain r1 where r1: "read_exact rd 3 r = Inr ([SOCKS5_VERSION, Command_as_u8 (req_command h), rsv], r1)"
      "avail r1 = addr_bytes (req_address h) @ rest" "ready r1"
    using read_exact_prefix [OF assms(1) assms(3), of 3] by auto
  show ?thesis
    using Address_read_from_write [OF r1(3) assms(2) r1(2)] r1(1)
    by (auto simp: TcpRequestHeader_read_from_def)
qed

lemma TcpResponseHeader_read_from_write:
  assumes "ready r" and "wf_address (resp_address h)"
    and "avail r = [SOCKS5_VERSION, Reply_as_u8 (resp_reply h), rsv] @ addr_bytes (resp_address h) @ rest"
  shows "\<exists>r'. TcpResponseHeader_read_from rd r =
                Inr (\<lparr>resp_reply = Reply_from_u8 (Reply_as_u8 (resp_reply h)),
                      resp_address = wire_address (resp_address h)\<rparr>, r')
              \<and> avail r' = rest \<and> ready r'"
proof -
  obtain r1 where r1: "read_exact rd 3 r = Inr ([SOCKS5_VERSION, Reply_as_u8 (resp_reply h), rsv], r1)"
      "avail r1 = addr_bytes (resp_address h) @ rest" "ready r1"
    using read_exact_prefix [OF assms(1) assms(3), of 3] by auto
  show ?thesis
    using Address_read_from_write [OF r1(3) assms(2) r1(2)] r1(1)
    by (auto simp: TcpResponseHeader_read_from_def)
qed

lemma UdpAssociateHeader_read_from_write:
  assumes "ready r" and "wf_address (udp_address h)"
    and "avail r = [rsva, rsvb, udp_frag h] @ addr_bytes (udp_address h) @ rest"
  shows "\<exists>r'. UdpAssociateHeader_read_from rd r =
                Inr (h\<lparr>udp_address := wire_address (udp_address h)\<rparr>, r') \<and> avail r' = rest \<and> ready r'"
proof -
  obtain r1 where r1: "read_exact rd 3 r = Inr ([rsva, rsvb, udp_frag h], r1)"
      "avail r1 = addr_bytes (udp_address h) @ rest" "ready r1"
    using read_exact_prefix [OF assms(1) assms(3), of 3] by auto
  show ?thesis
    using Address_read_from_write [OF r1(3) assms(2) r1(2)] r1(1)
    by (auto simp: UdpAssociateHeader_read_from_def)
qed

lemma HandshakeRequest_read_from_write:
  assumes "ready r" and "length (hs_methods h) \<le> 255"
    and "avail r = [SOCKS5_VERSION, of_nat (length (hs_methods h))] @ hs_methods h @ rest"
  shows "\<exists>r'. HandshakeRequest_read_from rd r = Inr (h, r') \<and> avail r' = rest \<and> ready r'"
proof -
  obtain r1 where r1: "rd 2 r = Inr ([SOCKS5_VERSION, of_nat (length (hs_methods h))], r1)"
      "avail r1 = hs_methods h @ rest" "ready r1"
    using rd_prefix [OF assms(1) assms(3), of 2] by auto
  have "unat (of_nat (length (hs_methods h)) :: u8) = length (hs_methods h)"
    using assms(2) by (simp add: unat_of_nat_u8)
  then show ?thesis
    using rd_prefix [OF r1(3) r1(2)] r1(1) by (auto simp: HandshakeRequest_read_from_def)
qed

lemma HandshakeResponse_read_from_write:
  assumes "ready r" and "avail r = [SOCKS5_VERSION, chosen_method h] @ rest"
  shows "\<exists>r'. HandshakeResponse_read_from rd r = Inr (h, r') \<and> avail r' = rest \<and> ready r'"
  using rd_prefix [OF assms, of 2] by (auto simp: HandshakeResponse_read_from_def)

text \<open>A decoder that stops inside an encoded address cannot mistake it for a shorter one.\<close>

lemma Address_prefix_free:
  assumes "ready r" and "wf_address a" and "avail r @ missing = addr_bytes a" and "missing \<noteq> []"
    and "ready whole" and "avail whole = addr_bytes a"
  shows "\<exists>e. Address_read_from rd r = Inl e"
proof (rule ccontr)
  assume "\<not> ?thesis"
  then obtain a' r' where "Address_read_from rd r = Inr (a', r')"
    by (metis obj_sumE surj_pair)
  with assms(1) have "wf_address a'" "avail r = addr_bytes a' @ avail r'"
    using Address_read_from_Inr by blast+
  moreover from this have "avail whole = addr_bytes a' @ avail r' @ missing"
    using assms(3,6) by simp
  ultimately obtain r3 where "Address_read_from rd whole = Inr (wire_address a', r3)"
      "avail r3 = avail r' @ missing"
    using Address_read_from_write [OF assms(5)] by blast
  moreover obtain r4 where "Address_read_from rd whole = Inr (wire_address a, r4)" "avail r4 = []"
    using Address_read_from_write [OF assms(5,2), of "[]"] assms(6) by auto
  ultimately show False using assms(4) by simp
qed

end

lemma split_on_absent: "sep \<notin> set s \<Longrightarrow> split_on sep s = [s]"
  by (induction s) auto

lemma split_on_append: "sep \<notin> set s \<Longrightarrow> split_on sep (s @ sep # t) = s # split_on sep t"
  by (induction s) auto

lemma show_radix_chars: "\<lbrakk>2 \<le> r; r \<le> 36\<rbrakk> \<Longrightarrow> c \<in> set (show_radix r n) \<Longrightarrow> \<exists>d < r. c = digit_char d"
proof (induction n rule: less_induct)
  case (less n)
  show ?case
  proof (cases "n < r")
    case True
    with less.prems show ?thesis by (auto simp: show_radix.simps)
  next
    case False
    then have "n div r < n" using less.prems by (intro div_less_dividend) auto
    moreover have "c \<in> set (show_radix r (n div r)) \<or> c = digit_char (n mod r)"
      using False less.prems by (subst (asm) show_radix.simps) (auto split: if_splits)
    moreover have "n mod r < r" using less.prems by simp
    ultimately show ?thesis using less.IH less.prems by blast
  qed
qed

lemma colon_notin_show: "CHR '':'' \<notin> set (show_radix 10 n)"
proof
  assume "CHR '':'' \<in> set (show_radix 10 n)"
  then obtain d where "d < 10" "CHR '':'' = digit_char d"
    using show_radix_chars [of 10 "CHR '':''" n] by auto
  then have "of_char CHR '':'' = 48 + d" by (simp add: of_char_digit_char)
  with \<open>d < 10\<close> show False by simp
qed

section \<open>Properties\<close>

text \<open>
  C27. An address is written in exactly \<^verbatim>\<open>serialized_len()\<close> bytes, and reading these bytes back,
  whatever follows them, yields the address (an IPv6 socket address without its flow information
  and scope) and consumes nothing of what follows.
\<close>

theorem Address_write_read:
  assumes "wf_address a"
  shows "\<exists>bs. Address_write_to_buf a buf = Ret (buf @ bs)
            \<and> length bs = Address_serialized_len a
            \<and> Address_read_from cursor_read_exact (bs @ rest) = Inr (wire_address a, rest)"
  using assms cursor.Address_read_from_write [where a = a and rest = rest]
  by (auto simp: Address_write_to_buf_def Address_serialized_len_def length_addr_bytes)

theorem Address_write_read_witness:
  "\<exists>bs. Address_write_to_buf (DomainNameAddress ''ss.org'' 8388) [7] = Ret ([7] @ bs)
      \<and> length bs = Address_serialized_len (DomainNameAddress ''ss.org'' 8388)
      \<and> Address_read_from cursor_read_exact (bs @ [1, 2]) = Inr (DomainNameAddress ''ss.org'' 8388, [1, 2])"
  using Address_write_read [of "DomainNameAddress ''ss.org'' 8388" "[7]" "[1, 2]"]
  by (simp add: byte_of_char_def utf8_valid_ascii)

text \<open>
  The decoder accepts only canonical encodings: when it returns an address, the bytes it
  consumed are exactly what the encoder writes for that address, and the address is well formed.
\<close>

lemma Address_read_canonical:
  assumes "Address_read_from cursor_read_exact bs = Inr (a, rest)"
  shows "wf_address a \<and> Address_write_to_buf a [] = Ret (take (length bs - length rest) bs)
       \<and> rest = drop (Address_serialized_len a) bs"
  using cursor.Address_read_from_Inr [where r = bs and a = a and r' = rest] assms
  by (auto simp: Address_write_to_buf_def Address_serialized_len_def length_addr_bytes [symmetric])

lemma Address_read_canonical_witness:
  "wf_address (SocketAddress (SocketAddrV4 (Ipv4Addr 127 0 0 1) 80))
   \<and> Address_write_to_buf (SocketAddress (SocketAddrV4 (Ipv4Addr 127 0 0 1) 80)) [] = Ret [1, 127, 0, 0, 1, 0, 80]
   \<and> [9] = drop (Address_serialized_len (SocketAddress (SocketAddrV4 (Ipv4Addr 127 0 0 1) 80)))
             ([1, 127, 0, 0, 1, 0, 80, 9] :: bytes)"
  using Address_read_canonical [of "[1, 127, 0, 0, 1, 0, 80, 9]"
      "SocketAddress (SocketAddrV4 (Ipv4Addr 127 0 0 1) 80)" "[9]"]
  by (simp add: Address_read_from_def read_exact_def cursor_read_exact_def socks5_consts get_u16_def)

text \<open>
  A truncated address is always an error: no strict prefix of an encoded address decodes.
\<close>

lemma Address_read_truncated:
  assumes "wf_address a" and "Address_write_to_buf a [] = Ret bs" and "k < Address_serialized_len a"
  shows "\<exists>e. Address_read_from cursor_read_exact (take k bs) = Inl e"
proof -
  have "take k bs @ drop k bs = addr_bytes a" "drop k bs \<noteq> []"
    using assms by (auto simp: Address_write_to_buf_def Address_serialized_len_def length_addr_bytes)
  then show ?thesis
    using cursor.Address_prefix_free [where r = "take k bs" and a = a] assms(1) by blast
qed

lemma Address_read_truncated_witness:
  "\<exists>e. Address_read_from cursor_read_exact
         (take 5 [1, 127, 0, 0, 1, 0, 80]) = Inl e"
  using Address_read_truncated [of "SocketAddress (SocketAddrV4 (Ipv4Addr 127 0 0 1) 80)"
      "[1, 127, 0, 0, 1, 0, 80]" 5]
  by (simp add: Address_write_to_buf_def Address_serialized_len_def put_u16_def socks5_consts)

text \<open>
  A request header is written in \<^verbatim>\<open>serialized_len()\<close> bytes and read back with the same command
  and the address the peer sees, leaving what follows unread.
\<close>

lemma TcpRequestHeader_write_read:
  assumes "wf_address (req_address h)"
  shows "\<exists>bs. TcpRequestHeader_write_to_buf h buf = Ret (buf @ bs)
            \<and> length bs = TcpRequestHeader_serialized_len h
            \<and> TcpRequestHeader_read_from cursor_read_exact (bs @ rest) =
                Inr (h\<lparr>req_address := wire_address (req_address h)\<rparr>, rest)"
  using assms cursor.TcpRequestHeader_read_from_write [where h = h and rsv = 0 and rest = rest]
  by (auto simp: TcpRequestHeader_write_to_buf_def Address_write_to_buf_def
      TcpRequestHeader_serialized_len_def Address_serialized_len_def length_addr_bytes)

lemma TcpRequestHeader_write_read_witness:
  "\<exists>bs. TcpRequestHeader_write_to_buf
           \<lparr>req_command = UdpAssociate, req_address = DomainNameAddress ''a.b'' 53\<rparr> [] = Ret bs
      \<and> length bs = 10
      \<and> TcpRequestHeader_read_from cursor_read_exact (bs @ [8]) =
          Inr (\<lparr>req_command = UdpAssociate, req_address = DomainNameAddress ''a.b'' 53\<rparr>, [8])"
  using TcpRequestHeader_write_read
    [of "\<lparr>req_command = UdpAssociate, req_address = DomainNameAddress ''a.b'' 53\<rparr>" "[]" "[8]"]
  by (simp add: byte_of_char_def utf8_valid_ascii TcpRequestHeader_serialized_len_def Address_serialized_len_def)

text \<open>
  The request decoder's verdict is decided by the first bytes: fewer than three bytes are a
  general failure, a version other than 5 is refused before the command is looked at, and a
  command other than CONNECT, BIND and UDP ASSOCIATE is answered by \<^verbatim>\<open>CommandNotSupported\<close> without
  reading the address.
\<close>

lemma TcpRequestHeader_read_errors:
  "(length bs < 3 \<longrightarrow> (\<exists>m. TcpRequestHeader_read_from cursor_read_exact bs =
                             Inl \<lparr>err_reply = GeneralFailure, err_message = m\<rparr>))
   \<and> (ver \<noteq> 5 \<longrightarrow> TcpRequestHeader_read_from cursor_read_exact (ver # cmd # rsv # bs) =
        Inl \<lparr>err_reply = ConnectionRefusedReply, err_message = unsupported_version ver\<rparr>)
   \<and> (cmd \<notin> {1, 2, 3} \<longrightarrow> TcpRequestHeader_read_from cursor_read_exact (5 # cmd # rsv # bs) =
        Inl \<lparr>err_reply = CommandNotSupported, err_message = ''unsupported command '' @ show_hex cmd\<rparr>)"
  by (auto simp: TcpRequestHeader_read_from_def read_exact_def cursor_read_exact_def
      SOCKS5_VERSION_def Command_from_u8_def Socks5Error_new_def Socks5Error_from_io_def)

lemma TcpRequestHeader_read_errors_witness:
  "TcpRequestHeader_read_from cursor_read_exact [4, 1, 0] =
     Inl \<lparr>err_reply = ConnectionRefusedReply, err_message = unsupported_version 4\<rparr>"
  using TcpRequestHeader_read_errors [of "[]" 4 1 0] by simp

text \<open>
  A response header is written in \<^verbatim>\<open>serialized_len()\<close> bytes and read back with a reply of the same
  code and the address the peer sees.
\<close>

lemma TcpResponseHeader_write_read:
  assumes "wf_address (resp_address h)"
  shows "\<exists>bs h'. TcpResponseHeader_write_to_buf h buf = Ret (buf @ bs)
            \<and> length bs = TcpResponseHeader_serialized_len h
            \<and> TcpResponseHeader_read_from cursor_read_exact (bs @ rest) = Inr (h', rest)
            \<and> Reply_as_u8 (resp_reply h') = Reply_as_u8 (resp_reply h)
            \<and> resp_address h' = wire_address (resp_address h)"
  using assms cursor.TcpResponseHeader_read_from_write [where h = h and rsv = 0 and rest = rest]
  by (auto simp: TcpResponseHeader_write_to_buf_def Address_write_to_buf_def
      TcpResponseHeader_serialized_len_def Address_serialized_len_def length_addr_bytes)

lemma TcpResponseHeader_write_read_witness:
  "\<exists>bs h'. TcpResponseHeader_write_to_buf
        \<lparr>resp_reply = OtherReply 2, resp_address = SocketAddress (SocketAddrV4 (Ipv4Addr 0 0 0 0) 0)\<rparr> [] = Ret bs
      \<and> length bs = 10
      \<and> TcpResponseHeader_read_from cursor_read_exact bs = Inr (h', [])
      \<and> Reply_as_u8 (resp_reply h') = 2
      \<and> resp_address h' = SocketAddress (SocketAddrV4 (Ipv4Addr 0 0 0 0) 0)"
  using TcpResponseHeader_write_read
    [of "\<lparr>resp_reply = OtherReply 2, resp_address = SocketAddress (SocketAddrV4 (Ipv4Addr 0 0 0 0) 0)\<rparr>" "[]" "[]"]
  by (simp add: TcpResponseHeader_serialized_len_def Address_serialized_len_def)

lemma UdpAssociateHeader_write_read:
  assumes "wf_address (udp_address h)"
  shows "\<exists>bs. UdpAssociateHeader_write_to_buf h buf = Ret (buf @ bs)
            \<and> length bs = UdpAssociateHeader_serialized_len h
            \<and> UdpAssociateHeader_read_from cursor_read_exact (bs @ rest) =
                Inr (h\<lparr>udp_address := wire_address (udp_address h)\<rparr>, rest)"
  using assms cursor.UdpAssociateHeader_read_from_write
    [where h = h and rsva = 0 and rsvb = 0 and rest = rest]
  by (auto simp: UdpAssociateHeader_write_to_buf_def Address_write_to_buf_def
      UdpAssociateHeader_serialized_len_def Address_serialized_len_def length_addr_bytes)

text \<open>
  The method negotiation survives the wire for at most 255 methods; the encoder writes the
  number of methods modulo 256, so that a longer offer is not read back as sent.
\<close>

lemma HandshakeRequest_write_read:
  "(length ms \<le> 255 \<longrightarrow>
      HandshakeRequest_read_from cursor_read_exact (HandshakeRequest_write_to_buf \<lparr>hs_methods = ms\<rparr> [] @ rest) =
        Inr (\<lparr>hs_methods = ms\<rparr>, rest))
   \<and> (255 < length ms \<longrightarrow>
      HandshakeRequest_read_from cursor_read_exact (HandshakeRequest_write_to_buf \<lparr>hs_methods = ms\<rparr> [] @ rest) =
        Inr (\<lparr>hs_methods = take (length ms mod 256) ms\<rparr>, drop (length ms mod 256) ms @ rest))"
proof -
  have "length ms mod 256 \<le> length ms" by simp
  then have "drop (length ms mod 256) (ms @ rest) = drop (length ms mod 256) ms @ rest"
      "take (length ms mod 256) (ms @ rest) = take (length ms mod 256) ms"
    by simp_all
  with \<open>length ms mod 256 \<le> length ms\<close> show ?thesis
    by (auto simp: HandshakeRequest_write_to_buf_def HandshakeRequest_read_from_def
        cursor_read_exact_def unat_of_nat_u8)
qed

lemma HandshakeRequest_write_read_witness:
  "HandshakeRequest_read_from cursor_read_exact (HandshakeRequest_write_to_buf \<lparr>hs_methods = [0, 2]\<rparr> [] @ [9]) =
     Inr (\<lparr>hs_methods = [0, 2]\<rparr>, [9])"
  using HandshakeRequest_write_read [of "[0, 2]" "[9]"] by simp

text \<open>
  The textual form of an IPv4 socket address or of a host name and port parses back to the
  address (the host name has no colon, and the text is not itself a socket address).
\<close>

lemma Address_from_str_display:
  "Address_from_str (Address_display (SocketAddress (SocketAddrV4 ip p))) = Inr (SocketAddress (SocketAddrV4 ip p))
   \<and> (CHR '':'' \<notin> set dn \<and> parse_socket_addr (Address_display (DomainNameAddress dn p)) = None \<longrightarrow>
       Address_from_str (Address_display (DomainNameAddress dn p)) = Inr (DomainNameAddress dn p))"
  by (auto simp: Address_from_str_def split_on_append split_on_absent colon_notin_show show_u16_def
      parse_socket_addr_show_v4 [unfolded show_u16_def])

lemma Address_from_str_display_witness:
  "Address_from_str ''ss.org:8388'' = Inr (DomainNameAddress ''ss.org'' 8388)"
proof -
  have "show_u16 8388 = ''8388''"
    by (simp add: show_u16_def show_radix.simps)
  moreover have "parse_socket_addr ''ss.org:8388'' = None"
    by (simp add: parse_socket_addr_def read_socket_addr_v4_def read_socket_addr_v6_def
        read_ipv4_addr_def read_octet_def read_number_def to_digit_def read_till_eof_def)
  ultimately show ?thesis
    using Address_from_str_display [of undefined 8388 "''ss.org''"] by simp
qed

end
