(* ===== verification/Config_Types.thy ===== *)
theory Config_Types
  imports Socks5
begin

text \<open>
  The small types of \<^verbatim>\<open>src/config.rs\<close>: server and manager addresses, the configuration type, the
  server mode and the kind of transparent proxy, with their parsers and textual forms (on a Linux
  build).
\<close>

section \<open>Addresses\<close>

datatype ServerAddr = SvrSocketAddr socket_addr | SvrDomainName string u16

primrec ServerAddr_host :: "ServerAddr \<Rightarrow> string" where
  "ServerAddr_host (SvrSocketAddr s) = show_ip (sock_ip s)"
| "ServerAddr_host (SvrDomainName dm _) = dm"

primrec ServerAddr_port :: "ServerAddr \<Rightarrow> u16" where
  "ServerAddr_port (SvrSocketAddr s) = sock_port s"
| "ServerAddr_port (SvrDomainName _ p) = p"

definition ServerAddr_from_str :: "string \<Rightarrow> unit + ServerAddr" where
  "ServerAddr_from_str s =
     (case parse_socket_addr s of
        Some addr \<Rightarrow> Inr (SvrSocketAddr addr)
      | None \<Rightarrow>
          (case split_on CHR '':'' s of
             dn # port # _ \<Rightarrow>
               (case parse_u16 port of
                  Some port \<Rightarrow> Inr (SvrDomainName dn port)
                | None \<Rightarrow> Inl ())
           | _ \<Rightarrow> Inl ()))"

primrec ServerAddr_display :: "ServerAddr \<Rightarrow> string" where
  "ServerAddr_display (SvrSocketAddr a) = show_socket_addr a"
| "ServerAddr_display (SvrDomainName d port) = d @ '':'' @ show_u16 port"

datatype ManagerAddr = MgrSocketAddr socket_addr | MgrDomainName string u16 | MgrUnixSocketAddr string

text \<open>\<^verbatim>\<open>str::trim\<close> on the white space of ASCII; \<^verbatim>\<open>str::find\<close> and \<^verbatim>\<open>str::split_at\<close>.\<close>

definition is_space :: "char \<Rightarrow> bool" where
  "is_space c \<longleftrightarrow> of_char c \<in> {9, 10, 11, 12, 13, 32 :: nat}"

definition trim :: "string \<Rightarrow> string" where
  "trim s = rev (dropWhile is_space (rev (dropWhile is_space s)))"

fun find_char :: "char \<Rightarrow> string \<Rightarrow> nat option" where
  "find_char c [] = None"
| "find_char c (x # xs) = (if x = c then Some 0 else map_option Suc (find_char c xs))"

definition ManagerAddr_from_str :: "string \<Rightarrow> unit + ManagerAddr" where
  "ManagerAddr_from_str s =
     (case find_char CHR '':'' s of
        Some pos \<Rightarrow>
          (case parse_socket_addr s of
             Some saddr \<Rightarrow> Inr (MgrSocketAddr saddr)
           | None \<Rightarrow>
               let sdomain = trim (take pos s); sport = trim (drop 1 (drop pos s)) in
               case parse_u16 sport of
                 Some port \<Rightarrow> Inr (MgrDomainName sdomain port)
               | None \<Rightarrow> Inl ())
      | None \<Rightarrow> Inr (MgrUnixSocketAddr s))"

primrec ManagerAddr_display :: "ManagerAddr \<Rightarrow> string" where
  "ManagerAddr_display (MgrSocketAddr saddr) = show_socket_addr saddr"
| "ManagerAddr_display (MgrDomainName dname port) = dname @ '':'' @ show_u16 port"
| "ManagerAddr_display (MgrUnixSocketAddr path) = path"

section \<open>Configuration types\<close>

datatype ConfigType = Socks5Local | HttpLocal | TunnelLocal | RedirLocal | Server | Manager

primrec is_local :: "ConfigType \<Rightarrow> bool" where
  "is_local Socks5Local = True"
| "is_local HttpLocal = True"
| "is_local TunnelLocal = True"
| "is_local RedirLocal = True"
| "is_local Server = False"
| "is_local Manager = False"

primrec is_server :: "ConfigType \<Rightarrow> bool" where
  "is_server Socks5Local = False"
| "is_server HttpLocal = False"
| "is_server TunnelLocal = False"
| "is_server RedirLocal = False"
| "is_server Manager = False"
| "is_server Server = True"

fun is_manager :: "ConfigType \<Rightarrow> bool" where
  "is_manager Manager = True"
| "is_manager _ = False"

datatype Mode = TcpOnly | TcpAndUdp | UdpOnly

fun enable_udp :: "Mode \<Rightarrow> bool" where
  "enable_udp UdpOnly = True"
| "enable_udp TcpAndUdp = True"
| "enable_udp _ = False"

fun enable_tcp :: "Mode \<Rightarrow> bool" where
  "enable_tcp TcpOnly = True"
| "enable_tcp TcpAndUdp = True"
| "enable_tcp _ = False"

primrec Mode_display :: "Mode \<Rightarrow> string" where
  "Mode_display TcpOnly = ''tcp_only''"
| "Mode_display TcpAndUdp = ''tcp_and_udp''"
| "Mode_display UdpOnly = ''udp_only''"

definition Mode_from_str :: "string \<Rightarrow> unit + Mode" where
  "Mode_from_str s =
     (if s = ''tcp_only'' then Inr TcpOnly
      else if s = ''tcp_and_udp'' then Inr TcpAndUdp
      else if s = ''udp_only'' then Inr UdpOnly
      else Inl ())"

datatype RedirType = NotSupported | Netfilter | TProxy

definition tcp_default :: RedirType where "tcp_default = Netfilter"

definition udp_default :: RedirType where "udp_default = TProxy"

definition RedirType_is_supported :: "RedirType \<Rightarrow> bool" where
  "RedirType_is_supported r \<longleftrightarrow> r \<noteq> NotSupported"

primrec RedirType_display :: "RedirType \<Rightarrow> string" where
  "RedirType_display NotSupported = ''not_supported''"
| "RedirType_display Netfilter = ''netfilter''"
| "RedirType_display TProxy = ''tproxy''"

definition RedirType_from_str :: "string \<Rightarrow> unit + RedirType" where
  "RedirType_from_str s =
     (if s = ''netfilter'' then Inr Netfilter
      else if s = ''tproxy'' then Inr TProxy
      else Inl ())"

section \<open>Round trips\<close>

lemma Mode_round_trip [simp]: "Mode_from_str (Mode_display m) = Inr m"
  by (cases m) (simp_all add: Mode_from_str_def)

lemma RedirType_round_trip: "RedirType_is_supported r \<Longrightarrow> RedirType_from_str (RedirType_display r) = Inr r"
  by (cases r) (simp_all add: RedirType_from_str_def RedirType_is_supported_def)

lemma config_type_kinds:
  "is_local t \<or> is_server t \<or> is_manager t"
  "\<not> (is_local t \<and> is_server t)" "\<not> (is_local t \<and> is_manager t)" "\<not> (is_server t \<and> is_manager t)"
  by (cases t; simp)+

lemma ServerAddr_round_trip_v4:
  "ServerAddr_from_str (ServerAddr_display (SvrSocketAddr (SocketAddrV4 ip p))) =
     Inr (SvrSocketAddr (SocketAddrV4 ip p))"
  by (simp add: ServerAddr_from_str_def)

lemma ServerAddr_round_trip_domain:
  "\<lbrakk>CHR '':'' \<notin> set dn; parse_socket_addr (ServerAddr_display (SvrDomainName dn p)) = None\<rbrakk> \<Longrightarrow>
     ServerAddr_from_str (ServerAddr_display (SvrDomainName dn p)) = Inr (SvrDomainName dn p)"
  by (simp add: ServerAddr_from_str_def split_on_append split_on_absent colon_notin_show show_u16_def)

lemma find_char_append: "c \<notin> set s \<Longrightarrow> find_char c (s @ c # t) = Some (length s)"
  by (induction s) auto

lemma find_char_None: "find_char c s = None \<longleftrightarrow> c \<notin> set s"
  by (induction s) auto

end
