(* ===== verification/Nonce_Filter.thy ===== *)
theory Nonce_Filter
  imports Config_Types
begin

text \<open>
  The replay filter of \<^verbatim>\<open>src/context.rs\<close>: two Bloom filters used in turn (\<^verbatim>\<open>PingPongBloom\<close>). The
  Bloom filter itself comes from a library; its operations are the fields of \<open>bloom_ops\<close>, and
  \<open>bloom_ok\<close> states what the code relies on, in terms of the items put into a filter. The locale
  \<open>nonce_filter\<close> is the interface the crypto streams rely on: a nonce that was accepted is
  recognised for a guaranteed number of further acceptances.
\<close>

section \<open>The ping-pong filter\<close>

text \<open>\<open>new_for_fp_rate\<close> takes the number of items and the false positive rate \<open>1e-n\<close>.\<close>

record 'b bloom_ops =
  bloom_new_for_fp_rate :: "nat \<Rightarrow> nat \<Rightarrow> 'b"
  bloom_check :: "'b \<Rightarrow> bytes \<Rightarrow> bool"
  bloom_set :: "'b \<Rightarrow> bytes \<Rightarrow> 'b"
  bloom_clear :: "'b \<Rightarrow> 'b"

definition BF_NUM_ENTRIES_FOR_SERVER :: nat where "BF_NUM_ENTRIES_FOR_SERVER = 1000000"

definition BF_NUM_ENTRIES_FOR_CLIENT :: nat where "BF_NUM_ENTRIES_FOR_CLIENT = 10000"

definition BF_ERROR_RATE_FOR_SERVER :: nat where "BF_ERROR_RATE_FOR_SERVER = 6"

definition BF_ERROR_RATE_FOR_CLIENT :: nat where "BF_ERROR_RATE_FOR_CLIENT = 15"

record 'b PingPongBloom =
  pp_blooms :: "'b list"
  pp_bloom_count :: "nat list"
  pp_item_count :: nat
  pp_current :: nat

definition PingPongBloom_new :: "'b bloom_ops \<Rightarrow> ConfigType \<Rightarrow> 'b PingPongBloom" where
  "PingPongBloom_new B ty =
     (let (item_count, fp_p) =
            (if is_local ty then (BF_NUM_ENTRIES_FOR_CLIENT, BF_ERROR_RATE_FOR_CLIENT)
             else (BF_NUM_ENTRIES_FOR_SERVER, BF_ERROR_RATE_FOR_SERVER));
          item_count = item_count div 2
      in \<lparr>pp_blooms = [bloom_new_for_fp_rate B item_count fp_p, bloom_new_for_fp_rate B item_count fp_p],
          pp_bloom_count = [0, 0], pp_item_count = item_count, pp_current = 0\<rparr>)"

definition check_and_set :: "'b bloom_ops \<Rightarrow> 'b PingPongBloom \<Rightarrow> bytes \<Rightarrow> bool \<times> 'b PingPongBloom" where
  "check_and_set B p buf =
     (if list_ex (\<lambda>bloom. bloom_check B bloom buf) (pp_blooms p) then (True, p)
      else
        let p = (if pp_item_count p \<le> pp_bloom_count p ! pp_current p then
                   let current = (pp_current p + 1) mod 2 in
                   p\<lparr>pp_current := current,
                     pp_bloom_count := (pp_bloom_count p)[current := 0],
                     pp_blooms := (pp_blooms p)[current := bloom_clear B (pp_blooms p ! current)]\<rparr>
                 else p);
            c = pp_current p
        in (False, p\<lparr>pp_blooms := (pp_blooms p)[c := bloom_set B (pp_blooms p ! c) buf],
                     pp_bloom_count := (pp_bloom_count p)[c := pp_bloom_count p ! c + 1]\<rparr>))"

section \<open>The interface of a replay filter\<close>

text \<open>
  \<open>check s x\<close> tells whether \<open>x\<close> is known and records it otherwise; \<open>remembers s x k\<close>: \<open>x\<close> is known
  and stays known for \<open>k\<close> further recordings.
\<close>

primrec filter_run :: "('s \<Rightarrow> bytes \<Rightarrow> bool \<times> 's) \<Rightarrow> 's \<Rightarrow> bytes list \<Rightarrow> bool list \<times> 's" where
  "filter_run check s [] = ([], s)"
| "filter_run check s (x # xs) =
     (let (b, s') = check s x; (bs, s'') = filter_run check s' xs in (b # bs, s''))"

abbreviation accepted :: "bool list \<Rightarrow> nat" where
  "accepted bs \<equiv> length (filter Not bs)"

locale nonce_filter =
  fixes check :: "'s \<Rightarrow> bytes \<Rightarrow> bool \<times> 's"
    and inv :: "'s \<Rightarrow> bool"
    and remembers :: "'s \<Rightarrow> bytes \<Rightarrow> nat \<Rightarrow> bool"
    and window :: "'s \<Rightarrow> nat"
  assumes known: "\<lbrakk>inv s; remembers s x k\<rbrakk> \<Longrightarrow> fst (check s x)"
    and rejects: "\<lbrakk>inv s; fst (check s x)\<rbrakk> \<Longrightarrow> snd (check s x) = s"
    and accepts: "\<lbrakk>inv s; \<not> fst (check s x)\<rbrakk> \<Longrightarrow>
      inv (snd (check s x)) \<and> window (snd (check s x)) = window s
      \<and> remembers (snd (check s x)) x (window s)"
    and ageing: "\<lbrakk>inv s; \<not> fst (check s y); remembers s x (Suc k)\<rbrakk> \<Longrightarrow> remembers (snd (check s y)) x k"
    and remembers_mono: "\<lbrakk>remembers s x k; j \<le> k\<rbrakk> \<Longrightarrow> remembers s x j"
begin

lemma inv_step: "inv s \<Longrightarrow> inv (snd (check s x)) \<and> window (snd (check s x)) = window s"
  using rejects [of s x] accepts [of s x] by (cases "fst (check s x)") auto

lemma inv_run: "inv s \<Longrightarrow> inv (snd (filter_run check s xs)) \<and> window (snd (filter_run check s xs)) = window s"
proof (induction xs arbitrary: s)
  case (Cons x xs)
  from inv_step [OF Cons.prems, of x] Cons.IH [of "snd (check s x)"] show ?case
    by (simp add: case_prod_beta)
qed simp

lemma remembers_run:
  "\<lbrakk>inv s; remembers s x (accepted (fst (filter_run check s ys)) + k)\<rbrakk> \<Longrightarrow>
     remembers (snd (filter_run check s ys)) x k"
proof (induction ys arbitrary: s)
  case (Cons y ys)
  let ?s = "snd (check s y)"
  have inv: "inv ?s" using inv_step [OF Cons.prems(1)] by blast
  have "remembers ?s x (accepted (fst (filter_run check ?s ys)) + k)"
  proof (cases "fst (check s y)")
    case True
    with Cons.prems rejects [of s y] show ?thesis by (simp add: case_prod_beta)
  next
    case False
    with Cons.prems show ?thesis
      by (intro ageing) (simp_all add: case_prod_beta)
  qed
  with Cons.IH [OF inv] show ?case by (simp add: case_prod_beta)
qed simp

lemma replay_rejected:
  assumes "inv s" and "\<not> fst (check s x)" and "filter_run check (snd (check s x)) ys = (bs, s')"
    and "accepted bs \<le> window s"
  shows "fst (check s' x) \<and> snd (check s' x) = s'"
proof -
  let ?s = "snd (check s x)"
  have s: "inv ?s" "remembers ?s x (window s)"
    using accepts [OF assms(1,2)] by blast+
  then have "remembers ?s x (accepted (fst (filter_run check ?s ys)) + 0)"
    using assms(3,4) by (auto intro: remembers_mono)
  then have "remembers s' x 0"
    using remembers_run [OF s(1)] assms(3) by fastforce
  moreover have "inv s'" using inv_run [OF s(1), of ys] assms(3) by simp
  ultimately show ?thesis using known rejects by blast
qed

end

section \<open>The ping-pong filter implements the interface\<close>

text \<open>
  \<open>el\<close> gives the items a filter was fed with since it was cleared. A Bloom filter has no false
  negatives.
\<close>

definition bloom_ok :: "'b bloom_ops \<Rightarrow> ('b \<Rightarrow> bytes set) \<Rightarrow> bool" where
  "bloom_ok B el \<longleftrightarrow>
     (\<forall>b x. x \<in> el b \<longrightarrow> bloom_check B b x)
   \<and> (\<forall>b x. insert x (el b) \<subseteq> el (bloom_set B b x))"

definition pp_wf :: "'b PingPongBloom \<Rightarrow> bool" where
  "pp_wf p \<longleftrightarrow> length (pp_blooms p) = 2 \<and> length (pp_bloom_count p) = 2 \<and> pp_current p < 2
     \<and> 0 < pp_item_count p \<and> (\<forall>i < 2. pp_bloom_count p ! i \<le> pp_item_count p)"

definition pp_remembers :: "('b \<Rightarrow> bytes set) \<Rightarrow> 'b PingPongBloom \<Rightarrow> bytes \<Rightarrow> nat \<Rightarrow> bool" where
  "pp_remembers el p x k \<longleftrightarrow>
     (let c = pp_current p; left = pp_item_count p - pp_bloom_count p ! c in
        x \<in> el (pp_blooms p ! c) \<and> k \<le> left + pp_item_count p
      \<or> x \<in> el (pp_blooms p ! (1 - c)) \<and> k \<le> left)"

type_synonym 'b pp_state = "'b bloom_ops \<times> ('b \<Rightarrow> bytes set) \<times> 'b PingPongBloom"

definition pp_check :: "'b pp_state \<Rightarrow> bytes \<Rightarrow> bool \<times> 'b pp_state" where
  "pp_check s x =
     (case s of (B, el, p) \<Rightarrow> (fst (check_and_set B p x), B, el, snd (check_and_set B p x)))"

definition pp_inv :: "'b pp_state \<Rightarrow> bool" where
  "pp_inv s \<longleftrightarrow> (case s of (B, el, p) \<Rightarrow> bloom_ok B el \<and> pp_wf p)"

lemma pp_wf_cases:
  assumes "pp_wf p"
  obtains b0 b1 c0 c1 n cur where
    "p = \<lparr>pp_blooms = [b0, b1], pp_bloom_count = [c0, c1], pp_item_count = n, pp_current = cur\<rparr>"
    "cur = 0 \<or> cur = 1" "0 < n" "c0 \<le> n" "c1 \<le> n"
proof -
  obtain b0 b1 where b: "pp_blooms p = [b0, b1]"
    using assms by (auto simp: pp_wf_def numeral_2_eq_2 length_Suc_conv)
  obtain c0 c1 where c: "pp_bloom_count p = [c0, c1]"
    using assms by (auto simp: pp_wf_def numeral_2_eq_2 length_Suc_conv)
  have "c0 \<le> pp_item_count p" "c1 \<le> pp_item_count p" "pp_current p = 0 \<or> pp_current p = 1" "0 < pp_item_count p"
    using assms c by (auto simp: pp_wf_def less_2_cases_iff)
  with b c that [of b0 b1 c0 c1 "pp_item_count p" "pp_current p"] show thesis
    by simp
qed

lemma check_and_set_known:
  "fst (check_and_set B p x) \<Longrightarrow> snd (check_and_set B p x) = p"
  by (auto simp: check_and_set_def Let_def split: if_splits)

lemma pp_wf_check_and_set: "pp_wf p \<Longrightarrow> pp_wf (snd (check_and_set B p x))
     \<and> pp_item_count (snd (check_and_set B p x)) = pp_item_count p"
  by (erule pp_wf_cases) (auto simp: check_and_set_def pp_wf_def Let_def less_2_cases_iff nth_Cons')

lemma pp_remembers_new:
  "\<lbrakk>bloom_ok B el; pp_wf p; \<not> fst (check_and_set B p x)\<rbrakk> \<Longrightarrow>
     pp_remembers el (snd (check_and_set B p x)) x (pp_item_count p)"
  by (erule pp_wf_cases) (auto simp: check_and_set_def pp_remembers_def bloom_ok_def Let_def split: if_splits)

lemma pp_remembers_ageing:
  assumes "bloom_ok B el" and "pp_wf p" and "\<not> fst (check_and_set B p y)" and "pp_remembers el p x (Suc k)"
  shows "pp_remembers el (snd (check_and_set B p y)) x k"
proof -
  have set_keeps: "x \<in> el (bloom_set B b y)" if "x \<in> el b" for b
    using assms(1) that unfolding bloom_ok_def by blast
  from assms(2) show ?thesis
  proof (rule pp_wf_cases)
    fix b0 b1 c0 c1 n cur
    assume "p = \<lparr>pp_blooms = [b0, b1], pp_bloom_count = [c0, c1], pp_item_count = n, pp_current = cur\<rparr>"
      and "cur = 0 \<or> cur = 1" and "0 < n" and "c0 \<le> n" and "c1 \<le> n"
    with assms(3,4) set_keeps show ?thesis
      by (auto simp: check_and_set_def pp_remembers_def Let_def split: if_splits)
  qed
qed

lemma pp_remembers_known:
  "\<lbrakk>bloom_ok B el; pp_wf p; pp_remembers el p x k\<rbrakk> \<Longrightarrow> fst (check_and_set B p x)"
  by (erule pp_wf_cases) (auto simp: check_and_set_def pp_remembers_def bloom_ok_def Let_def)

interpretation ppbloom: nonce_filter pp_check pp_inv
  "\<lambda>(B, el, p). pp_remembers el p" "\<lambda>(B, el, p). pp_item_count p"
proof (unfold_locales, goal_cases)
  case (1 s x k)
  then show ?case by (auto simp: pp_check_def pp_inv_def pp_remembers_known split: prod.splits)
next
  case (2 s x)
  then show ?case by (auto simp: pp_check_def check_and_set_known split: prod.splits)
next
  case (3 s x)
  then show ?case
    by (auto simp: pp_check_def pp_inv_def pp_wf_check_and_set pp_remembers_new split: prod.splits)
next
  case (4 s y x k)
  then show ?case
    by (auto simp: pp_check_def pp_inv_def pp_remembers_ageing split: prod.splits)
next
  case (5 s x k j)
  then show ?case by (auto simp: pp_remembers_def Let_def split: prod.splits)
qed

lemma pp_wf_new: "pp_wf (PingPongBloom_new B ty)"
  by (auto simp: pp_wf_def PingPongBloom_new_def Let_def less_2_cases_iff BF_NUM_ENTRIES_FOR_CLIENT_def
      BF_NUM_ENTRIES_FOR_SERVER_def)

lemma filter_run_pp:
  "filter_run pp_check (B, el, p) xs =
     (fst (filter_run (check_and_set B) p xs), B, el, snd (filter_run (check_and_set B) p xs))"
  by (induction xs arbitrary: p) (simp_all add: pp_check_def case_prod_beta)

section \<open>The nonce check of a context\<close>

text \<open>\<^verbatim>\<open>Context::check_nonce_and_set\<close>: the empty nonce of a plain cipher is never a repetition.\<close>

definition check_nonce_and_set :: "'b bloom_ops \<Rightarrow> 'b PingPongBloom \<Rightarrow> bytes \<Rightarrow> bool \<times> 'b PingPongBloom" where
  "check_nonce_and_set B nonce_ppbloom nonce =
     (if nonce = [] then (False, nonce_ppbloom) else check_and_set B nonce_ppbloom nonce)"

lemma filter_run_nonempty:
  "[] \<notin> set xs \<Longrightarrow> filter_run (check_nonce_and_set B) p xs = filter_run (check_and_set B) p xs"
  by (induction xs arbitrary: p) (auto simp: check_nonce_and_set_def case_prod_beta)

lemma pp_wf_check_nonce: "pp_wf p \<Longrightarrow> pp_wf (snd (check_nonce_and_set B p x))"
  using pp_wf_check_and_set [of p B x] by (simp add: check_nonce_and_set_def)

lemma check_nonce_replay:
  assumes "bloom_ok B el" and "pp_wf p" and "nonce \<noteq> []"
    and "check_nonce_and_set B p nonce = (False, p1)"
    and "[] \<notin> set others" and "filter_run (check_nonce_and_set B) p1 others = (bs, p2)"
    and "accepted bs \<le> pp_item_count p"
  shows "check_nonce_and_set B p2 nonce = (True, p2)"
proof -
  have "\<not> fst (pp_check (B, el, p) nonce)" "snd (pp_check (B, el, p) nonce) = (B, el, p1)"
    using assms(3,4) by (simp_all add: pp_check_def check_nonce_and_set_def)
  moreover have "filter_run pp_check (B, el, p1) others = (bs, B, el, p2)"
    using assms(5,6) by (simp add: filter_run_pp filter_run_nonempty)
  ultimately have "fst (pp_check (B, el, p2) nonce) \<and> snd (pp_check (B, el, p2) nonce) = (B, el, p2)"
    using ppbloom.replay_rejected [of "(B, el, p)" nonce others bs "(B, el, p2)"] assms(1,2,7)
    by (simp add: pp_inv_def)
  with assms(3) show ?thesis
    by (simp add: pp_check_def check_nonce_and_set_def prod_eq_iff)
qed

section \<open>Properties\<close>

text \<open>
  Replay protection: once a nonce has been accepted, it is rejected again, without changing
  the filter, as long as at most \<open>item_count\<close> other nonces have been accepted in between; that is
  500000 of them on a server and 5000 on a client.
\<close>

lemma replayed_nonce_rejected:
  assumes "bloom_ok B el" and "pp_wf p" and "nonce \<noteq> []"
    and "check_nonce_and_set B p nonce = (False, p1)"
    and "[] \<notin> set others" and "filter_run (check_nonce_and_set B) p1 others = (bs, p2)"
    and "accepted bs \<le> pp_item_count p"
  shows "check_nonce_and_set B p2 nonce = (True, p2)"
  using assms by (rule check_nonce_replay)

text \<open>A Bloom filter that keeps its items in a list.\<close>

definition sample_bloom :: "bytes list bloom_ops" where
  "sample_bloom = \<lparr>bloom_new_for_fp_rate = \<lambda>_ _. [], bloom_check = \<lambda>b x. x \<in> set b,
     bloom_set = \<lambda>b x. x # b, bloom_clear = \<lambda>_. []\<rparr>"

lemma sample_bloom_ok: "bloom_ok sample_bloom set"
  by (auto simp: bloom_ok_def sample_bloom_def)

lemma replayed_nonce_rejected_witness:
  "check_nonce_and_set sample_bloom
     (snd (filter_run (check_nonce_and_set sample_bloom) (PingPongBloom_new sample_bloom Server) [[1], [2]])) [1] =
   (True, snd (filter_run (check_nonce_and_set sample_bloom) (PingPongBloom_new sample_bloom Server) [[1], [2]]))"
proof -
  let ?p = "PingPongBloom_new sample_bloom Server"
  let ?p1 = "snd (check_nonce_and_set sample_bloom ?p [1])"
  have first: "check_nonce_and_set sample_bloom ?p [1] = (False, ?p1)"
    by (simp add: check_nonce_and_set_def check_and_set_def PingPongBloom_new_def sample_bloom_def Let_def)
  obtain bs p2 where run: "filter_run (check_nonce_and_set sample_bloom) ?p1 [[2]] = (bs, p2)"
    by (cases "filter_run (check_nonce_and_set sample_bloom) ?p1 [[2]]")
  then have "length bs = 1" by (auto simp: case_prod_beta)
  then have "accepted bs \<le> pp_item_count ?p"
    using length_filter_le [of Not bs]
    by (simp add: PingPongBloom_new_def Let_def BF_NUM_ENTRIES_FOR_SERVER_def)
  then show ?thesis
    using replayed_nonce_rejected [OF sample_bloom_ok pp_wf_new _ first _ run] run
    by (simp add: case_prod_beta)
qed

text \<open>
  The filter stays well formed whatever nonces it is asked about: two filters, a current one,
  and never more than \<open>item_count\<close> nonces recorded in either, the number for which their false
  positive rate is set up.
\<close>

lemma filter_stays_bounded:
  "pp_wf (snd (filter_run (check_nonce_and_set B) (PingPongBloom_new B ty) nonces))
   \<and> pp_item_count (snd (filter_run (check_nonce_and_set B) (PingPongBloom_new B ty) nonces)) =
       (if is_local ty then 5000 else 500000)"
proof -
  have "pp_wf p \<Longrightarrow> pp_wf (snd (filter_run (check_nonce_and_set B) p nonces))
      \<and> pp_item_count (snd (filter_run (check_nonce_and_set B) p nonces)) = pp_item_count p" for p
  proof (induction nonces arbitrary: p)
    case (Cons x xs)
    then show ?case
      using pp_wf_check_and_set [of p B x] Cons.IH [of "snd (check_nonce_and_set B p x)"]
      by (simp add: case_prod_beta check_nonce_and_set_def)
  qed simp
  then show ?thesis
    using pp_wf_new [of B ty]
    by (simp add: PingPongBloom_new_def Let_def BF_NUM_ENTRIES_FOR_SERVER_def BF_NUM_ENTRIES_FOR_CLIENT_def)
qed

end
