(* ===== verification/Server_Config.thy ===== *)
theory Server_Config
  imports Config_Types Cipher_Type
begin

text \<open>
  The configuration of one server, \<^verbatim>\<open>ServerConfig\<close> of \<^verbatim>\<open>src/config.rs\<close>, with the plugin configuration of
  \<^verbatim>\<open>src/plugin/mod.rs\<close> and the two forms of \<^verbatim>\<open>ss://\<close> URLs. URL parsing, Base64 and query strings come
  from libraries: they are the fields of \<open>url_lib\<close>, and \<open>url_lib_ok\<close> states what the code relies on.
\<close>

section \<open>Server configurations\<close>

record PluginConfig =
  pc_plugin :: string
  pc_plugin_opt :: "string option"

text \<open>Timeouts are in seconds.\<close>

record ServerConfig =
  sc_addr :: ServerAddr
  sc_password :: string
  sc_method :: CipherType
  sc_timeout :: "nat option"
  sc_enc_key :: bytes
  sc_plugin :: "PluginConfig option"
  sc_plugin_addr :: "ServerAddr option"

definition ServerConfig_new ::
    "'c crypto_lib \<Rightarrow> ServerAddr \<Rightarrow> string \<Rightarrow> CipherType \<Rightarrow> nat option \<Rightarrow> PluginConfig option \<Rightarrow> ServerConfig rust" where
  "ServerConfig_new L addr pwd method timeout plugin =
     rust_bind (bytes_to_key L method (as_bytes pwd)) (\<lambda>enc_key.
       Ret \<lparr>sc_addr = addr, sc_password = pwd, sc_method = method, sc_timeout = timeout, sc_enc_key = enc_key,
            sc_plugin = plugin, sc_plugin_addr = None\<rparr>)"

definition ServerConfig_basic :: "'c crypto_lib \<Rightarrow> socket_addr \<Rightarrow> string \<Rightarrow> CipherType \<Rightarrow> ServerConfig rust" where
  "ServerConfig_basic L addr password method = ServerConfig_new L (SvrSocketAddr addr) password method None None"

definition set_method :: "'c crypto_lib \<Rightarrow> ServerConfig \<Rightarrow> CipherType \<Rightarrow> string \<Rightarrow> ServerConfig rust" where
  "set_method L c t pwd =
     (let c = c\<lparr>sc_password := pwd, sc_method := t\<rparr> in
      rust_bind (bytes_to_key L t (as_bytes (sc_password c))) (\<lambda>enc_key. Ret (c\<lparr>sc_enc_key := enc_key\<rparr>)))"

definition set_plugin :: "ServerConfig \<Rightarrow> PluginConfig \<Rightarrow> ServerConfig" where
  "set_plugin c p = c\<lparr>sc_plugin := Some p\<rparr>"

definition set_addr :: "ServerConfig \<Rightarrow> ServerAddr \<Rightarrow> ServerConfig" where
  "set_addr c a = c\<lparr>sc_addr := a\<rparr>"

definition set_plugin_addr :: "ServerConfig \<Rightarrow> ServerAddr \<Rightarrow> ServerConfig" where
  "set_plugin_addr c a = c\<lparr>sc_plugin_addr := Some a\<rparr>"

definition external_addr :: "ServerConfig \<Rightarrow> ServerAddr" where
  "external_addr c = (case sc_plugin_addr c of Some a \<Rightarrow> a | None \<Rightarrow> sc_addr c)"

section \<open>URLs\<close>

record parsed_url =
  url_scheme :: string
  url_username :: string
  url_host_str :: "string option"
  url_port :: "u16 option"
  url_query :: "string option"

record url_lib =
  url_parse :: "string \<Rightarrow> parsed_url option"
  base64_encode :: "bytes \<Rightarrow> string"
  base64_decode :: "string \<Rightarrow> bytes option"
  urlencoded_to_string :: "(string \<times> string) list \<Rightarrow> string"
  urlencoded_from_bytes :: "string \<Rightarrow> (string \<times> string) list option"

datatype UrlParseError =
    UrlSyntaxError | InvalidScheme | InvalidUserInfo | MissingHost | InvalidAuthInfo | InvalidServerAddr
  | InvalidQueryString

primrec UrlParseError_display :: "UrlParseError \<Rightarrow> string \<Rightarrow> string" where
  "UrlParseError_display UrlSyntaxError err = err"
| "UrlParseError_display InvalidScheme err = ''URL must have \"ss://\" scheme''"
| "UrlParseError_display InvalidUserInfo err = ''invalid user info''"
| "UrlParseError_display MissingHost err = ''missing host''"
| "UrlParseError_display InvalidAuthInfo err = ''invalid authentication info''"
| "UrlParseError_display InvalidServerAddr err = ''invalid server address''"
| "UrlParseError_display InvalidQueryString err = ''invalid query string''"

definition to_qrcode_url :: "url_lib \<Rightarrow> ServerConfig \<Rightarrow> string" where
  "to_qrcode_url U c =
     (let param = CipherType_display (sc_method c) @ '':'' @ sc_password c @ ''@'' @ ServerAddr_display (sc_addr c)
      in ''ss://'' @ base64_encode U (as_bytes param))"

definition to_url :: "url_lib \<Rightarrow> ServerConfig \<Rightarrow> string" where
  "to_url U c =
     (let user_info = CipherType_display (sc_method c) @ '':'' @ sc_password c;
          encoded_user_info = base64_encode U (as_bytes user_info);
          url = ''ss://'' @ encoded_user_info @ ''@'' @ ServerAddr_display (sc_addr c)
      in case sc_plugin c of
           None \<Rightarrow> url
         | Some p \<Rightarrow>
             let plugin = pc_plugin p @ (case pc_plugin_opt p of Some opt \<Rightarrow> '';'' @ opt | None \<Rightarrow> [])
             in url @ ''/?'' @ urlencoded_to_string U [(''plugin'', plugin)])"

text \<open>\<^verbatim>\<open>str::splitn(2, c)\<close>: the first piece and, when \<open>c\<close> occurs, the rest.\<close>

definition splitn2 :: "char \<Rightarrow> string \<Rightarrow> string \<times> string option" where
  "splitn2 c s = (case find_char c s of Some i \<Rightarrow> (take i s, Some (drop (Suc i) s)) | None \<Rightarrow> (s, None))"

text \<open>The loop over the query: the last \<^verbatim>\<open>plugin\<close> parameter counts.\<close>

definition plugin_of_query :: "(string \<times> string) list \<Rightarrow> PluginConfig option" where
  "plugin_of_query query =
     fold (\<lambda>(key, v) plugin.
        if key \<noteq> ''plugin'' then plugin
        else let (p, opt) = splitn2 CHR '';'' v in Some \<lparr>pc_plugin = p, pc_plugin_opt = opt\<rparr>) query None"

definition from_url :: "'c crypto_lib \<Rightarrow> url_lib \<Rightarrow> string \<Rightarrow> (UrlParseError + ServerConfig) rust" where
  "from_url L U encoded =
     (case url_parse U encoded of
        None \<Rightarrow> Ret (Inl UrlSyntaxError)
      | Some parsed \<Rightarrow>
          if url_scheme parsed \<noteq> ''ss'' then Ret (Inl InvalidScheme)
          else
            (case base64_decode U (url_username parsed) of
               None \<Rightarrow> Ret (Inl InvalidUserInfo)
             | Some bytes \<Rightarrow>
                 (case from_utf8 bytes of
                    None \<Rightarrow> Ret (Inl InvalidAuthInfo)
                  | Some account \<Rightarrow>
                      (case url_host_str parsed of
                         None \<Rightarrow> Ret (Inl MissingHost)
                       | Some host \<Rightarrow>
                           let port = (case url_port parsed of Some p \<Rightarrow> p | None \<Rightarrow> 8388);
                               addr = host @ '':'' @ show_u16 port
                           in case splitn2 CHR '':'' account of
                                (_, None) \<Rightarrow> Panic
                              | (method, Some pwd) \<Rightarrow>
                                  (case ServerAddr_from_str addr of
                                     Inl _ \<Rightarrow> Ret (Inl InvalidServerAddr)
                                   | Inr addr \<Rightarrow>
                                       (case (case url_query parsed of
                                                None \<Rightarrow> Some []
                                              | Some q \<Rightarrow> urlencoded_from_bytes U q) of
                                          None \<Rightarrow> Ret (Inl InvalidQueryString)
                                        | Some query \<Rightarrow>
                                            (case CipherType_from_str method of
                                               Inl _ \<Rightarrow> Panic
                                             | Inr t \<Rightarrow>
                                                 rust_bind (ServerConfig_new L addr pwd t None (plugin_of_query query))
                                                   (\<lambda>c. Ret (Inr c)))))))))"

section \<open>What is asked of the libraries\<close>

text \<open>Host names and dotted addresses, which an URL parser leaves as they are.\<close>

definition is_host_char :: "char \<Rightarrow> bool" where
  "is_host_char c \<longleftrightarrow>
     (let n = of_char c :: nat in 97 \<le> n \<and> n \<le> 122 \<or> 48 \<le> n \<and> n \<le> 57 \<or> n = 45 \<or> n = 46)"

definition plain_host :: "string \<Rightarrow> bool" where
  "plain_host h \<longleftrightarrow> h \<noteq> [] \<and> list_all is_host_char h"

definition url_lib_ok :: "url_lib \<Rightarrow> bool" where
  "url_lib_ok U \<longleftrightarrow>
     (\<forall>bs. base64_decode U (base64_encode U bs) = Some bs)
   \<and> (\<forall>kvs. urlencoded_from_bytes U (urlencoded_to_string U kvs) = Some kvs)
   \<and> (\<forall>bs host port. plain_host host \<longrightarrow>
        url_parse U (''ss://'' @ base64_encode U bs @ ''@'' @ host @ '':'' @ show_u16 port) =
          Some \<lparr>url_scheme = ''ss'', url_username = base64_encode U bs, url_host_str = Some host,
                url_port = Some port, url_query = None\<rparr>)
   \<and> (\<forall>bs host port kvs. plain_host host \<longrightarrow>
        url_parse U (''ss://'' @ base64_encode U bs @ ''@'' @ host @ '':'' @ show_u16 port @ ''/?'' @
                     urlencoded_to_string U kvs) =
          Some \<lparr>url_scheme = ''ss'', url_username = base64_encode U bs, url_host_str = Some host,
                url_port = Some port, url_query = Some (urlencoded_to_string U kvs)\<rparr>)
   \<and> (\<forall>bs. bs \<noteq> [] \<longrightarrow>
        url_parse U (''ss://'' @ base64_encode U bs) =
          Some \<lparr>url_scheme = ''ss'', url_username = [], url_host_str = Some (base64_encode U bs),
                url_port = None, url_query = None\<rparr>)
   \<and> base64_encode U [] = []"

section \<open>Round trip\<close>

lemma show_nat_host_chars: "list_all is_host_char (show_nat n)"
proof (induction n rule: less_induct)
  case (less n)
  have d: "is_host_char (digit_char (m mod 10))" for m
    by (auto simp: is_host_char_def of_char_digit_char Let_def)
  show ?case
  proof (cases "n < 10")
    case True
    with d [of n] show ?thesis by (subst show_radix.simps) simp
  next
    case False
    with less [of "n div 10"] d [of n] show ?thesis by (subst show_radix.simps) simp
  qed
qed

lemma show_ipv4_plain: "plain_host (show_ipv4 ip)"
  by (cases ip) (auto simp: plain_host_def show_nat_host_chars show_u8_def is_host_char_def)

lemma CipherType_display_ascii: "list_all (\<lambda>c. of_char c < (128 :: nat) \<and> c \<noteq> CHR '':'') (CipherType_display t)"
  by (cases t) simp_all

lemma utf8_valid_append_ascii: "list_all (\<lambda>b. unat b < 128) bs \<Longrightarrow> utf8_valid (bs @ cs) = utf8_valid cs"
  by (induction bs) auto

lemma splitn2_absent: "c \<notin> set s \<Longrightarrow> splitn2 c s = (s, None)"
  by (simp add: splitn2_def find_char_None [THEN iffD2])

lemma splitn2_append: "c \<notin> set s \<Longrightarrow> splitn2 c (s @ c # t) = (s, Some t)"
  by (simp add: splitn2_def find_char_append)

text \<open>Addresses that an URL carries unchanged: IPv4 addresses and lower case host names.\<close>

primrec url_addr :: "ServerAddr \<Rightarrow> bool" where
  "url_addr (SvrSocketAddr a) = (case a of SocketAddrV4 _ _ \<Rightarrow> True | SocketAddrV6 _ _ _ _ \<Rightarrow> False)"
| "url_addr (SvrDomainName d p) \<longleftrightarrow>
     plain_host d \<and> parse_socket_addr (ServerAddr_display (SvrDomainName d p)) = None"

lemma plain_host_no_colon: "plain_host h \<Longrightarrow> CHR '':'' \<notin> set h"
  by (auto simp: plain_host_def list_all_iff is_host_char_def Let_def)

lemma url_addr_host:
  assumes "url_addr a"
  obtains host port where "plain_host host" "ServerAddr_display a = host @ '':'' @ show_u16 port"
    "ServerAddr_from_str (host @ '':'' @ show_u16 port) = Inr a"
proof (cases a)
  case (SvrSocketAddr s)
  with assms obtain ip p where "s = SocketAddrV4 ip p" by (cases s) auto
  with SvrSocketAddr that [of "show_ipv4 ip" p] show thesis
    using show_ipv4_plain ServerAddr_round_trip_v4 [of ip p] by simp
next
  case (SvrDomainName d p)
  with assms that [of d p] show thesis
    using ServerAddr_round_trip_domain [of d p] plain_host_no_colon by simp
qed

definition plugin_wf :: "PluginConfig \<Rightarrow> bool" where
  "plugin_wf p \<longleftrightarrow> CHR '';'' \<notin> set (pc_plugin p)"

lemma plugin_of_query_one:
  "plugin_wf p \<Longrightarrow>
     plugin_of_query [(''plugin'', pc_plugin p @ (case pc_plugin_opt p of Some opt \<Rightarrow> '';'' @ opt | None \<Rightarrow> []))] = Some p"
  by (auto simp: plugin_of_query_def plugin_wf_def splitn2_absent splitn2_append split: option.splits)


section \<open>A sample of the libraries\<close>

text \<open>Bytes as pairs of letters; query strings of such pairs; and a parser of the URLs in use.\<close>

definition letters :: "bytes \<Rightarrow> string" where
  "letters bs = concat (map (\<lambda>b. [char_of (97 + unat b div 16), char_of (97 + unat b mod 16)]) bs)"

fun unletters :: "string \<Rightarrow> bytes" where
  "unletters (c # d # s) = of_nat (16 * (of_char c - 97) + (of_char d - 97)) # unletters s"
| "unletters _ = []"

definition sample_url_lib :: url_lib where
  "sample_url_lib =
     \<lparr>url_parse = \<lambda>s.
        (case splitn2 CHR ''@'' (drop 5 s) of
           (h, None) \<Rightarrow> Some \<lparr>url_scheme = ''ss'', url_username = [], url_host_str = Some h, url_port = None, url_query = None\<rparr>
         | (u, Some rest) \<Rightarrow>
             (case splitn2 CHR '':'' rest of
                (h, None) \<Rightarrow> None
              | (h, Some pq) \<Rightarrow>
                  (case splitn2 CHR ''/'' pq of
                     (p, q) \<Rightarrow> Some \<lparr>url_scheme = ''ss'', url_username = u, url_host_str = Some h, url_port = parse_u16 p,
                                   url_query = map_option (drop 1) q\<rparr>))),
      base64_encode = letters,
      base64_decode = \<lambda>s. Some (unletters s),
      urlencoded_to_string = \<lambda>kvs. concat (map (\<lambda>(k, v). letters (as_bytes k) @ ''='' @ letters (as_bytes v) @ ''&'') kvs),
      urlencoded_from_bytes = \<lambda>s.
        Some (map (\<lambda>p. case splitn2 CHR ''='' p of
                         (k, v) \<Rightarrow> (of_bytes (unletters k), of_bytes (unletters (case v of Some v \<Rightarrow> v | None \<Rightarrow> []))))
               (butlast (split_on CHR ''&'' s)))\<rparr>"

lemma of_char_letter: "n < 16 \<Longrightarrow> of_char (char_of (97 + n) :: char) = 97 + (n :: nat)"
  by simp

lemma unletters_letters [simp]: "unletters (letters bs) = bs"
proof (induction bs)
  case (Cons b bs)
  have "unat b div 16 < 16" using unat_u8_bound [of b] by linarith
  then have "of_nat (16 * (unat b div 16) + unat b mod 16) = b" by simp
  with \<open>unat b div 16 < 16\<close> Cons show ?case by (simp add: letters_def of_char_letter del: of_char_mod_256)
qed (simp add: letters_def)

lemma letters_chars: "c \<in> set (letters bs) \<Longrightarrow> 97 \<le> (of_char c :: nat)"
proof (induction bs)
  case (Cons b bs)
  have "unat b div 16 < 16" using unat_u8_bound [of b] by linarith
  with Cons show ?case by (auto simp: letters_def of_char_letter simp del: of_char_mod_256)
qed (simp add: letters_def)

lemma letters_absent [simp]:
  "CHR ''@'' \<notin> set (letters bs)" "CHR ''='' \<notin> set (letters bs)" "CHR ''&'' \<notin> set (letters bs)"
  using letters_chars by fastforce+

lemma slash_notin_show: "CHR ''/'' \<notin> set (show_u16 p)"
  using show_nat_host_chars [of "unat p"] by (auto simp: show_u16_def list_all_iff is_host_char_def Let_def)

lemma sample_urlencoded:
  "urlencoded_from_bytes sample_url_lib (urlencoded_to_string sample_url_lib kvs) = Some kvs"
proof (induction kvs)
  case (Cons kv kvs)
  obtain k v where kv: "kv = (k, v)" by (cases kv)
  let ?p = "letters (as_bytes k) @ ''='' @ letters (as_bytes v)"
  have "CHR ''&'' \<notin> set ?p" by simp
  then have "split_on CHR ''&'' (?p @ CHR ''&'' # s) = ?p # split_on CHR ''&'' s" for s
    by (rule split_on_append)
  moreover have "split_on CHR ''&'' s \<noteq> []" for s
    by (induction s) (auto split: list.splits)
  ultimately show ?case
    using Cons kv splitn2_append [of "CHR ''=''" "letters (as_bytes k)" "letters (as_bytes v)"]
    by (simp add: sample_url_lib_def)
qed (simp add: sample_url_lib_def)

lemma sample_url_lib_ok: "url_lib_ok sample_url_lib"
proof -
  have host: "splitn2 CHR ''@'' (letters bs @ CHR ''@'' # host @ CHR '':'' # rest) = (letters bs, Some (host @ CHR '':'' # rest))"
    for bs host rest by (rule splitn2_append) simp
  have port: "splitn2 CHR '':'' (host @ CHR '':'' # rest) = (host, Some rest)" if "plain_host host" for host rest
    by (rule splitn2_append) (use that plain_host_no_colon in simp)
  have p: "splitn2 CHR ''/'' (show_u16 q) = (show_u16 q, None)"
    "splitn2 CHR ''/'' (show_u16 q @ CHR ''/'' # rest) = (show_u16 q, Some rest)" for q rest
    by (simp_all add: splitn2_absent splitn2_append slash_notin_show)
  have url: "url_parse sample_url_lib = (\<lambda>s.
        (case splitn2 CHR ''@'' (drop 5 s) of
           (h, None) \<Rightarrow> Some \<lparr>url_scheme = ''ss'', url_username = [], url_host_str = Some h, url_port = None, url_query = None\<rparr>
         | (u, Some rest) \<Rightarrow>
             (case splitn2 CHR '':'' rest of
                (h, None) \<Rightarrow> None
              | (h, Some pq) \<Rightarrow>
                  (case splitn2 CHR ''/'' pq of
                     (p, q) \<Rightarrow> Some \<lparr>url_scheme = ''ss'', url_username = u, url_host_str = Some h, url_port = parse_u16 p,
                                   url_query = map_option (drop 1) q\<rparr>))))"
    by (simp add: sample_url_lib_def)
  have enc: "base64_encode sample_url_lib = letters" "base64_decode sample_url_lib = (\<lambda>s. Some (unletters s))"
    by (simp_all add: sample_url_lib_def)
  have "letters [] = []" "parse_u16 (show_u16 q) = Some q" for q
    by (simp_all add: letters_def show_u16_def)
  then show ?thesis
    unfolding url_lib_ok_def
    by (intro conjI allI impI) (simp_all add: sample_urlencoded host port p url enc splitn2_absent)
qed


text \<open>
  Parsing an URL that is well formed can panic: when the user information does not contain a colon,
  and on every URL that the program itself writes for a QR code.
\<close>

lemma from_url_panics:
  assumes "url_lib_ok U"
  shows "from_url L U (to_qrcode_url U c) = Panic
       \<and> (plain_host host \<and> utf8_valid (as_bytes info) \<and> CHR '':'' \<notin> set info \<longrightarrow>
            from_url L U (''ss://'' @ base64_encode U (as_bytes info) @ ''@'' @ host @ '':'' @ show_u16 port) = Panic)"
proof (intro conjI impI)
  let ?param = "as_bytes (CipherType_display (sc_method c) @ '':'' @ sc_password c @ ''@'' @ ServerAddr_display (sc_addr c))"
  have "url_parse U (to_qrcode_url U c) =
      Some \<lparr>url_scheme = ''ss'', url_username = [], url_host_str = Some (base64_encode U ?param),
            url_port = None, url_query = None\<rparr>"
    using assms unfolding url_lib_ok_def to_qrcode_url_def by simp
  moreover have "base64_decode U [] = Some []"
    using assms unfolding url_lib_ok_def by metis
  ultimately show "from_url L U (to_qrcode_url U c) = Panic"
    by (simp add: from_url_def from_utf8_def splitn2_def)
next
  assume i: "plain_host host \<and> utf8_valid (as_bytes info) \<and> CHR '':'' \<notin> set info"
  then have "url_parse U (''ss://'' @ base64_encode U (as_bytes info) @ ''@'' @ host @ '':'' @ show_u16 port) =
      Some \<lparr>url_scheme = ''ss'', url_username = base64_encode U (as_bytes info), url_host_str = Some host,
            url_port = Some port, url_query = None\<rparr>"
    using assms unfolding url_lib_ok_def by blast
  moreover have "base64_decode U (base64_encode U (as_bytes info)) = Some (as_bytes info)"
    using assms unfolding url_lib_ok_def by blast
  ultimately show "from_url L U (''ss://'' @ base64_encode U (as_bytes info) @ ''@'' @ host @ '':'' @ show_u16 port) = Panic"
    using i by (simp add: from_url_def splitn2_absent)
qed

lemma from_url_panics_witness:
  "from_url sample_lib sample_url_lib
     (''ss://'' @ base64_encode sample_url_lib (as_bytes ''nocolon'') @ ''@'' @ ''host'' @ '':'' @ show_u16 80) = Panic"
proof -
  have "utf8_valid (as_bytes ''nocolon'')" by (rule utf8_valid_ascii) (simp add: byte_of_char_def)
  moreover have "plain_host ''host''" by (simp add: plain_host_def is_host_char_def)
  moreover have "CHR '':'' \<notin> set ''nocolon''" by simp
  ultimately show ?thesis
    using from_url_panics [OF sample_url_lib_ok] by blast
qed

end
