(* ===== verification/Crypto_Stream.thy ===== *)
theory Crypto_Stream
  imports Tcp_Stream Nonce_Filter Server_Config
begin

text \<open>
  The encrypted TCP stream of \<^verbatim>\<open>src/relay/tcprelay/crypto_io.rs\<close>: a \<^verbatim>\<open>CryptoStream\<close> draws a fresh vector or
  salt, sends it in front of its own data, waits for the peer's, checks that it is not a repetition and
  then reads through the reader of the method's category. The replay filter belongs to the context shared
  by all connections: it is passed to an operation and returned.
\<close>

section \<open>The stream\<close>

datatype 'c DecryptedReader = AeadReader AeadDecryptedReader | StreamReader "'c StreamDecryptedReader"

datatype 'c EncryptedWriter = AeadWriter AeadEncryptedWriter | StreamWriter "'c StreamEncryptedWriter"

text \<open>\<open>WaitIv buf len method key\<close>: \<open>buf\<close> are the bytes already read of the \<open>len\<close> that are expected.\<close>

datatype ReadStatus = WaitIv bytes nat CipherType bytes | Established

record ('c, 's) CryptoStream =
  cs_stream :: 's
  cs_dec :: "'c DecryptedReader option"
  cs_enc :: "'c EncryptedWriter"
  cs_read_status :: ReadStatus

text \<open>
  The loop that draws vectors until one is new; \<open>gen i\<close> is the draw number \<open>i\<close>. \<open>None\<close> would be a loop that
  never ends.
\<close>

partial_function (option) gen_unique_iv ::
    "'b bloom_ops \<Rightarrow> (nat \<Rightarrow> bytes rust) \<Rightarrow> nat \<Rightarrow> 'b PingPongBloom \<Rightarrow> (bytes \<times> 'b PingPongBloom) rust option" where
  "gen_unique_iv B gen i p =
     (case gen i of
        Panic \<Rightarrow> Some Panic
      | Ret iv \<Rightarrow>
          (case check_nonce_and_set B p iv of
             (exist, p') \<Rightarrow> if exist then gen_unique_iv B gen (Suc i) p' else Some (Ret (iv, p'))))"

definition CryptoStream_new ::
    "'c crypto_lib \<Rightarrow> 'b bloom_ops \<Rightarrow> (nat \<Rightarrow> nat \<Rightarrow> bytes) \<Rightarrow> 'b PingPongBloom \<Rightarrow> 's \<Rightarrow> ServerConfig \<Rightarrow>
     (('c, 's) CryptoStream \<times> 'b PingPongBloom) rust option" where
  "CryptoStream_new L B rnd p stream svr_cfg =
     (let method = sc_method svr_cfg in
      case (case category method of StreamCategory \<Rightarrow> iv_size L method | AeadCategory \<Rightarrow> salt_size L method) of
        Panic \<Rightarrow> Some Panic
      | Ret prev_len \<Rightarrow>
          (case gen_unique_iv B
                  (\<lambda>i. case category method of
                         StreamCategory \<Rightarrow> gen_init_vec L (rnd i) method
                       | AeadCategory \<Rightarrow> gen_salt L (rnd i) method) 0 p of
             None \<Rightarrow> None
           | Some Panic \<Rightarrow> Some Panic
           | Some (Ret (iv, p')) \<Rightarrow>
               Some (rust_bind
                 (case category method of
                    StreamCategory \<Rightarrow>
                      rust_bind (StreamEncryptedWriter_new L method (sc_enc_key svr_cfg) iv) (\<lambda>w. Ret (StreamWriter w))
                  | AeadCategory \<Rightarrow>
                      rust_bind (AeadEncryptedWriter_new L method (sc_enc_key svr_cfg) iv) (\<lambda>w. Ret (AeadWriter w)))
                 (\<lambda>enc. Ret (\<lparr>cs_stream = stream, cs_dec = None, cs_enc = enc,
                             cs_read_status = WaitIv [] prev_len method (sc_enc_key svr_cfg)\<rparr>, p')))))"

text \<open>The loop that fills the buffer of the peer's vector.\<close>

function poll_read_iv :: "'s poll_reader \<Rightarrow> bytes \<Rightarrow> nat \<Rightarrow> 's \<Rightarrow> (io_error + unit) poll \<times> bytes \<times> 's" where
  "poll_read_iv pr buf len r =
     (if length buf < len then
        (case pr (len - length buf) r of
           (Pending, r) \<Rightarrow> (Pending, buf, r)
         | (Ready (Inl e), r) \<Rightarrow> (Ready (Inl e), buf, r)
         | (Ready (Inr bs), r) \<Rightarrow>
             if bs = [] then (Ready (Inl unexpected_eof), buf, r) else poll_read_iv pr (buf @ bs) len r)
      else (Ready (Inr ()), buf, r))"
  by pat_completeness auto
termination
  by (relation "measure (\<lambda>(pr, buf, len, r). len - length buf)") (auto, metis Suc_leI diff_less_mono2 length_greater_0_conv less_add_same_cancel1)

declare poll_read_iv.simps [simp del]

definition repeated_iv :: io_error where
  "repeated_iv = IoError OtherKind ''detected repeated iv/salt''"

definition DecryptedReader_new :: "'c crypto_lib \<Rightarrow> CipherType \<Rightarrow> bytes \<Rightarrow> bytes \<Rightarrow> 'c DecryptedReader rust" where
  "DecryptedReader_new L method key buf =
     (case category method of
        StreamCategory \<Rightarrow> rust_bind (StreamDecryptedReader_new L method key buf) (\<lambda>r. Ret (StreamReader r))
      | AeadCategory \<Rightarrow> rust_bind (AeadDecryptedReader_new L method key buf) (\<lambda>r. Ret (AeadReader r)))"

definition poll_read_handshake ::
    "'c crypto_lib \<Rightarrow> 'b bloom_ops \<Rightarrow> 's poll_reader \<Rightarrow> ('c, 's) CryptoStream \<Rightarrow> 'b PingPongBloom \<Rightarrow>
     ((io_error + unit) poll \<times> ('c, 's) CryptoStream \<times> 'b PingPongBloom) rust" where
  "poll_read_handshake L B pr c p =
     (case cs_read_status c of
        Established \<Rightarrow> Ret (Ready (Inr ()), c, p)
      | WaitIv buf len method key \<Rightarrow>
          (case poll_read_iv pr buf len (cs_stream c) of
             (res, buf, r) \<Rightarrow>
               let c = c\<lparr>cs_stream := r, cs_read_status := WaitIv buf len method key\<rparr> in
               case res of
                 Pending \<Rightarrow> Ret (Pending, c, p)
               | Ready (Inl e) \<Rightarrow> Ret (Ready (Inl e), c, p)
               | Ready (Inr _) \<Rightarrow>
                   (case check_nonce_and_set B p buf of
                      (exist, p) \<Rightarrow>
                        if exist then Ret (Ready (Inl repeated_iv), c, p)
                        else
                          rust_bind (DecryptedReader_new L method key buf) (\<lambda>dec.
                            Ret (Ready (Inr ()), c\<lparr>cs_dec := Some dec, cs_read_status := Established\<rparr>, p)))))"

definition priv_poll_read ::
    "'c crypto_lib \<Rightarrow> 'b bloom_ops \<Rightarrow> 's poll_reader \<Rightarrow> ('c, 's) CryptoStream \<Rightarrow> 'b PingPongBloom \<Rightarrow> nat \<Rightarrow>
     ((io_error + bytes) poll \<times> ('c, 's) CryptoStream \<times> 'b PingPongBloom) rust option" where
  "priv_poll_read L B pr c p n =
     (case poll_read_handshake L B pr c p of
        Panic \<Rightarrow> Some Panic
      | Ret (Pending, c, p) \<Rightarrow> Some (Ret (Pending, c, p))
      | Ret (Ready (Inl e), c, p) \<Rightarrow> Some (Ret (Ready (Inl e), c, p))
      | Ret (Ready (Inr _), c, p) \<Rightarrow>
          (case cs_dec c of
             None \<Rightarrow> Some Panic
           | Some (AeadReader d) \<Rightarrow>
               map_option (\<lambda>x. rust_bind x (\<lambda>(res, d, r).
                 Ret (res, c\<lparr>cs_dec := Some (AeadReader d), cs_stream := r\<rparr>, p)))
                 (poll_read_decrypted L pr d (cs_stream c) n)
           | Some (StreamReader d) \<Rightarrow>
               map_option (\<lambda>x. rust_bind x (\<lambda>(res, d, r).
                 Ret (res, c\<lparr>cs_dec := Some (StreamReader d), cs_stream := r\<rparr>, p)))
                 (stream_poll_read_decrypted L pr d (cs_stream c) n)))"

definition priv_poll_write ::
    "'c crypto_lib \<Rightarrow> 's poll_writer \<Rightarrow> ('c, 's) CryptoStream \<Rightarrow> bytes \<Rightarrow>
     ((io_error + nat) poll \<times> ('c, 's) CryptoStream) rust" where
  "priv_poll_write L pw c data =
     (case cs_enc c of
        AeadWriter w \<Rightarrow>
          rust_bind (poll_write_encrypted L pw w (cs_stream c) data) (\<lambda>(res, w, s).
            Ret (res, c\<lparr>cs_enc := AeadWriter w, cs_stream := s\<rparr>))
      | StreamWriter w \<Rightarrow>
          rust_bind (stream_poll_write_encrypted L pw w (cs_stream c) data) (\<lambda>(res, w, s).
            Ret (res, c\<lparr>cs_enc := StreamWriter w, cs_stream := s\<rparr>)))"

section \<open>Fresh vectors\<close>

lemma check_nonce_rejects: "check_nonce_and_set B p x = (True, p') \<Longrightarrow> p' = p"
  using check_and_set_known [of B p x] by (auto simp: check_nonce_and_set_def split: if_splits)

lemma gen_unique_iv_returns:
  assumes "\<forall>j. gen j \<noteq> Panic" and "gen (i + k) = Ret iv" and "\<not> fst (check_nonce_and_set B p iv)"
  shows "\<exists>iv' p'. gen_unique_iv B gen i p = Some (Ret (iv', p')) \<and> check_nonce_and_set B p iv' = (False, p')"
  using assms(2)
proof (induction k arbitrary: i)
  case 0
  with assms(3) show ?case
    by (cases "check_nonce_and_set B p iv") (subst gen_unique_iv.simps, simp)
next
  case (Suc k)
  obtain x where x: "gen i = Ret x" using assms(1) by (metis rust.exhaust)
  obtain b p' where b: "check_nonce_and_set B p x = (b, p')" by (cases "check_nonce_and_set B p x")
  show ?case
  proof (cases b)
    case True
    then have "p' = p" using b check_nonce_rejects by simp
    with True b x Suc show ?thesis by (subst gen_unique_iv.simps) simp
  next
    case False
    with b x show ?thesis by (subst gen_unique_iv.simps) simp
  qed
qed

lemma gen_unique_iv_fresh:
  assumes "gen_unique_iv B gen i p = Some (Ret (iv, p'))"
  shows "check_nonce_and_set B p iv = (False, p') \<and> (\<exists>j. gen j = Ret iv)"
proof -
  have "\<forall>iv p'. y = Ret (iv, p') \<longrightarrow> check_nonce_and_set B p iv = (False, p') \<and> (\<exists>j. gen j = Ret iv)"
    if "gen_unique_iv B gen i p = Some y" for y
    by (rule gen_unique_iv.raw_induct [where P = "\<lambda>B gen i p y. \<forall>iv p'. y = Ret (iv, p') \<longrightarrow>
          check_nonce_and_set B p iv = (False, p') \<and> (\<exists>j. gen j = Ret iv)", OF _ that])
       (auto split: rust.splits prod.splits if_splits dest: check_nonce_rejects)
  with assms show ?thesis by blast
qed

section \<open>The handshake\<close>

lemma poll_read_iv_post:
  assumes "source_ok pr left"
  shows "poll_read_iv pr buf len r = (res, buf', r') \<Longrightarrow> length buf \<le> len \<Longrightarrow>
    length buf' \<le> len \<and> buf' @ left r' = buf @ left r \<and> (res = Ready (Inr ()) \<longrightarrow> length buf' = len)"
proof (induction "len - length buf" arbitrary: buf r rule: less_induct)
  case less
  show ?case
  proof (cases "length buf < len")
    case False
    with less.prems show ?thesis by (subst (asm) poll_read_iv.simps) auto
  next
    case True
    let ?n = "len - length buf"
    have n: "0 < ?n" using True by simp
    obtain q r1 where q: "pr ?n r = (q, r1)" by (cases "pr ?n r")
    consider (stop) "\<forall>bs. q \<noteq> Ready (Inr bs)" | (eof) "q = Ready (Inr [])" | (data) b bs where "q = Ready (Inr (b # bs))"
      by (metis list.exhaust)
    then show ?thesis
    proof cases
      case stop
      then have "left r1 = left r" using source_ok_other [OF assms n q] by simp
      with stop less.prems q True show ?thesis
        by (subst (asm) poll_read_iv.simps) (auto split: poll.splits sum.splits)
    next
      case eof
      then have "left r1 = left r" using source_ok_Ready [OF assms n] q by fastforce
      with eof less.prems q True show ?thesis
        by (subst (asm) poll_read_iv.simps) auto
    next
      case (data b bs)
      then have left: "left r = (b # bs) @ left r1" "length (b # bs) \<le> ?n"
        using source_ok_Ready [OF assms n] q by fastforce+
      have "poll_read_iv pr (buf @ b # bs) len r1 = (res, buf', r')"
        using less.prems(1) q data True by (subst (asm) poll_read_iv.simps) simp
      from less.hyps [OF _ this] left True show ?thesis by auto
    qed
  qed
qed

text \<open>A vector the filter knows ends the handshake, for good.\<close>

lemma handshake_known_iv:
  assumes "cs_read_status c = WaitIv buf len method key" and "poll_read_iv pr buf len (cs_stream c) = (Ready (Inr ()), iv, r)"
    and "check_nonce_and_set B p iv = (True, p')"
  shows "poll_read_handshake L B pr c p =
     Ret (Ready (Inl repeated_iv), c\<lparr>cs_stream := r, cs_read_status := WaitIv iv len method key\<rparr>, p)"
  using assms check_nonce_rejects [OF assms(3)] by (simp add: poll_read_handshake_def)

lemma handshake_accepts:
  assumes "cs_read_status c = WaitIv buf len method key" and "poll_read_iv pr buf len (cs_stream c) = (Ready (Inr ()), iv, r)"
    and "poll_read_handshake L B pr c p = Ret (Ready (Inr ()), c', p')"
  shows "check_nonce_and_set B p iv = (False, p')"
  using assms
  by (auto simp: poll_read_handshake_def rust_bind_Ret_iff Let_def split: prod.splits if_splits)

text \<open>The vector a new stream announces.\<close>

primrec writer_iv :: "'c EncryptedWriter \<Rightarrow> bytes option" where
  "writer_iv (AeadWriter w) = aew_nonce w"
| "writer_iv (StreamWriter w) = sew_iv w"

lemma CryptoStream_new_cases:
  assumes "CryptoStream_new L B rnd p s cfg = Some (Ret (c, p'))"
  obtains iv len where "check_nonce_and_set B p iv = (False, p')" "writer_iv (cs_enc c) = Some iv"
    "cs_read_status c = WaitIv [] len (sc_method cfg) (sc_enc_key cfg)" "cs_dec c = None" "cs_stream c = s"
    "\<exists>i. iv = rnd i len"
    "(case category (sc_method cfg) of
        StreamCategory \<Rightarrow> iv_size L (sc_method cfg) | AeadCategory \<Rightarrow> salt_size L (sc_method cfg)) = Ret len"
    "(case category (sc_method cfg) of
        StreamCategory \<Rightarrow> \<exists>w. cs_enc c = StreamWriter w
          \<and> StreamEncryptedWriter_new L (sc_method cfg) (sc_enc_key cfg) iv = Ret w
      | AeadCategory \<Rightarrow> \<exists>w. cs_enc c = AeadWriter w
          \<and> AeadEncryptedWriter_new L (sc_method cfg) (sc_enc_key cfg) iv = Ret w)"
proof -
  let ?m = "sc_method cfg"
  let ?gen = "\<lambda>i. case category ?m of StreamCategory \<Rightarrow> gen_init_vec L (rnd i) ?m | AeadCategory \<Rightarrow> gen_salt L (rnd i) ?m"
  obtain len iv where len: "(case category ?m of StreamCategory \<Rightarrow> iv_size L ?m | AeadCategory \<Rightarrow> salt_size L ?m) = Ret len"
      and iv: "gen_unique_iv B ?gen 0 p = Some (Ret (iv, p'))"
      and c: "rust_bind
                 (case category ?m of
                    StreamCategory \<Rightarrow>
                      rust_bind (StreamEncryptedWriter_new L ?m (sc_enc_key cfg) iv) (\<lambda>w. Ret (StreamWriter w))
                  | AeadCategory \<Rightarrow>
                      rust_bind (AeadEncryptedWriter_new L ?m (sc_enc_key cfg) iv) (\<lambda>w. Ret (AeadWriter w)))
                 (\<lambda>enc. Ret (\<lparr>cs_stream = s, cs_dec = None, cs_enc = enc,
                             cs_read_status = WaitIv [] len ?m (sc_enc_key cfg)\<rparr>, p')) = Ret (c, p')"
    using assms
    by (auto simp: CryptoStream_new_def Let_def rust_bind_Ret_iff split: rust.splits option.splits)
  obtain i where "?gen i = Ret iv" using gen_unique_iv_fresh [OF iv] by blast
  then have "\<exists>i. iv = rnd i len"
    using len by (cases "category ?m") (auto simp: gen_init_vec_def gen_salt_def gen_random_bytes_def rust_bind_Ret_iff)
  moreover have "check_nonce_and_set B p iv = (False, p')" using gen_unique_iv_fresh [OF iv] by blast
  ultimately show thesis
    using c len that [of iv len]
    by (cases "category ?m")
       (auto simp: rust_bind_Ret_iff StreamEncryptedWriter_new_def AeadEncryptedWriter_new_def)
qed

section \<open>Properties of the handshake\<close>


definition sample_wait :: "bytes \<Rightarrow> (CryptoMode, bytes) CryptoStream" where
  "sample_wait bs = \<lparr>cs_stream = bs, cs_dec = None,
     cs_enc = StreamWriter \<lparr>sew_cipher = DummyBox, sew_steps = NothingStep, sew_iv = None\<rparr>,
     cs_read_status = WaitIv [] 2 ChaCha20 []\<rparr>"

lemma sample_wait_iv: "poll_read_iv pipe_read [] 2 (cs_stream (sample_wait (a # b # s))) = (Ready (Inr ()), [a, b], s)"
  by (subst poll_read_iv.simps, simp add: sample_wait_def pipe_read_def, subst poll_read_iv.simps, simp)


text \<open>
  A stream refuses its own announcement. The vector a new stream draws was unknown to the filter, and
  sent back to any connection of the same context it is taken for a repetition, as long as at most
  \<open>item_count\<close> other vectors were accepted in between.
\<close>

lemma own_iv_reflected:
  assumes "bloom_ok B el" and "pp_wf p"
    and "CryptoStream_new L B rnd p s cfg = Some (Ret (c, p1))" and "writer_iv (cs_enc c) = Some iv" and "iv \<noteq> []"
    and "[] \<notin> set others" and "filter_run (check_nonce_and_set B) p1 others = (bs, p2)"
    and "accepted bs \<le> pp_item_count p"
    and "cs_read_status c2 = WaitIv buf2 len2 t2 key2"
    and "poll_read_iv pr buf2 len2 (cs_stream c2) = (Ready (Inr ()), iv, r2)"
  shows "\<not> fst (check_nonce_and_set B p iv)
       \<and> poll_read_handshake L B pr c2 p2 =
           Ret (Ready (Inl repeated_iv), c2\<lparr>cs_stream := r2, cs_read_status := WaitIv iv len2 t2 key2\<rparr>, p2)"
proof -
  have first: "check_nonce_and_set B p iv = (False, p1)"
    using CryptoStream_new_cases [OF assms(3)] assms(4) by (metis option.inject)
  then have "check_nonce_and_set B p2 iv = (True, p2)"
    using check_nonce_replay [OF assms(1,2,5) _ assms(6-8)] by simp
  with first show ?thesis using handshake_known_iv [OF assms(9,10)] by simp
qed

definition sample_cfg :: "CipherType \<Rightarrow> bytes \<Rightarrow> ServerConfig" where
  "sample_cfg t key = \<lparr>sc_addr = SvrDomainName ''host'' 8388, sc_password = [], sc_method = t, sc_timeout = None,
     sc_enc_key = key, sc_plugin = None, sc_plugin_addr = None\<rparr>"

definition sample_end :: "bytes \<Rightarrow> (CryptoMode, bytes) CryptoStream" where
  "sample_end s = \<lparr>cs_stream = s, cs_dec = None,
     cs_enc = StreamWriter \<lparr>
       sew_cipher = SodiumBox \<lparr>ssc_type = ChaCha20, ssc_key = [], ssc_iv = replicate 8 5, ssc_counter = 0\<rparr>,
       sew_steps = NothingStep, sew_iv = Some (replicate 8 5)\<rparr>,
     cs_read_status = WaitIv [] 8 ChaCha20 []\<rparr>"

lemma sample_new:
  "\<exists>p1. CryptoStream_new sample_lib sample_bloom (\<lambda>i n. replicate n 5) (PingPongBloom_new sample_bloom Server) s
       (sample_cfg ChaCha20 []) = Some (Ret (sample_end s, p1))"
  by (subst CryptoStream_new_def, subst gen_unique_iv.simps)
     (simp add: sample_cfg_def sample_end_def gen_init_vec_def gen_random_bytes_def check_nonce_and_set_def check_and_set_def
        PingPongBloom_new_def sample_bloom_def Let_def StreamEncryptedWriter_new_def new_stream_def rust_assert_def
        SodiumStreamCipher_new_def)

lemma own_iv_reflected_witness:
  "\<exists>p1. CryptoStream_new sample_lib sample_bloom (\<lambda>i n. replicate n 5) (PingPongBloom_new sample_bloom Server) []
       (sample_cfg ChaCha20 []) = Some (Ret (sample_end [], p1))
     \<and> poll_read_handshake sample_lib sample_bloom pipe_read
         ((sample_end [])\<lparr>cs_read_status := WaitIv (replicate 8 5) 8 ChaCha20 []\<rparr>) p1 =
         Ret (Ready (Inl repeated_iv), (sample_end [])\<lparr>cs_read_status := WaitIv (replicate 8 5) 8 ChaCha20 []\<rparr>, p1)"
proof -
  let ?c2 = "(sample_end [])\<lparr>cs_read_status := WaitIv (replicate 8 5) 8 ChaCha20 []\<rparr>"
  obtain p1 where c: "CryptoStream_new sample_lib sample_bloom (\<lambda>i n. replicate n 5) (PingPongBloom_new sample_bloom Server) []
       (sample_cfg ChaCha20 []) = Some (Ret (sample_end [], p1))"
    using sample_new by blast
  have w: "writer_iv (cs_enc (sample_end [])) = Some (replicate 8 5)" by (simp add: sample_end_def)
  have st: "cs_read_status ?c2 = WaitIv (replicate 8 5) 8 ChaCha20 []" by simp
  have iv: "poll_read_iv pipe_read (replicate 8 5) 8 (cs_stream ?c2) = (Ready (Inr ()), replicate 8 5, [])"
    by (subst poll_read_iv.simps) (simp add: sample_end_def)
  show ?thesis
    using own_iv_reflected [OF sample_bloom_ok pp_wf_new c w _ _ _ _ st iv, of "[]" "[]" p1] c
    by (intro exI [of _ p1]) (simp add: sample_end_def)
qed



end
