(* ===== verification/Crypto_Session.thy ===== *)
theory Crypto_Session
  imports Crypto_Stream
begin

text \<open>
  A whole encrypted connection: one end creates a \<^verbatim>\<open>CryptoStream\<close> and writes, the other end creates one
  with the same method and key and reads. The two ends of a category were treated separately; here they
  meet, with the exchange of the vector or salt in front.
\<close>

section \<open>Writing\<close>

primrec idle :: "'c EncryptedWriter \<Rightarrow> bool" where
  "idle (AeadWriter w) \<longleftrightarrow> aew_steps w = NothingStep"
| "idle (StreamWriter w) \<longleftrightarrow> sew_steps w = NothingStep"

text \<open>The part of its argument that one write takes.\<close>

primrec taken :: "'c EncryptedWriter \<Rightarrow> bytes \<Rightarrow> bytes" where
  "taken (AeadWriter w) data = take MAX_PACKET_SIZE data"
| "taken (StreamWriter w) data = data"

inductive crypto_writes ::
    "'c crypto_lib \<Rightarrow> 's poll_writer \<Rightarrow> ('c, 's) CryptoStream \<Rightarrow> bytes list \<Rightarrow> ('c, 's) CryptoStream \<Rightarrow> bool"
  for L pw c0 where
  start: "crypto_writes L pw c0 [] c0"
| next_payload:
    "\<lbrakk>crypto_writes L pw c0 ms c; idle (cs_enc c); priv_poll_write L pw c data = Ret (res, c')\<rbrakk>
     \<Longrightarrow> crypto_writes L pw c0 (ms @ [taken (cs_enc c) data]) c'"
| again:
    "\<lbrakk>crypto_writes L pw c0 (ms @ [m]) c; \<not> idle (cs_enc c); taken (cs_enc c) data = m;
      priv_poll_write L pw c data = Ret (res, c')\<rbrakk>
     \<Longrightarrow> crypto_writes L pw c0 (ms @ [m]) c'"

lemma priv_poll_write_cases:
  assumes "priv_poll_write L pw c data = Ret (res, c')"
  shows "cs_enc c = AeadWriter w \<Longrightarrow>
      \<exists>w'. cs_enc c' = AeadWriter w' \<and> poll_write_encrypted L pw w (cs_stream c) data = Ret (res, w', cs_stream c')"
    and "cs_enc c = StreamWriter v \<Longrightarrow>
      \<exists>v'. cs_enc c' = StreamWriter v' \<and> stream_poll_write_encrypted L pw v (cs_stream c) data = Ret (res, v', cs_stream c')"
  using assms by (auto simp: priv_poll_write_def rust_bind_Ret_iff)

section \<open>Reading\<close>

primrec dec_ok ::
    "'c crypto_lib \<Rightarrow> ('s \<Rightarrow> bytes) \<Rightarrow> bytes \<Rightarrow> 'c DecryptedReader \<Rightarrow> 's \<Rightarrow> bytes \<Rightarrow> bool" where
  "dec_ok L left missing (AeadReader d) r p = reader_ok L left missing d r p"
| "dec_ok L left missing (StreamReader d) r p \<longleftrightarrow> crypter_final_ok L \<and> stream_rd_ok L left missing d r p"

text \<open>
  \<open>conn_ok L left missing c p\<close>: the stream still delivers \<open>p\<close>, possibly after the rest of the handshake.
  The peer's vector \<open>iv\<close> and the encrypted bytes \<open>wire\<close> after it are on their way.
\<close>

definition conn_ok ::
    "'c crypto_lib \<Rightarrow> ('s \<Rightarrow> bytes) \<Rightarrow> bytes \<Rightarrow> ('c, 's) CryptoStream \<Rightarrow> bytes \<Rightarrow> bool" where
  "conn_ok L left missing c p \<longleftrightarrow>
     (case cs_read_status c of
        WaitIv buf len t key \<Rightarrow>
          \<exists>iv wire d. length iv = len \<and> length buf \<le> len \<and> buf @ left (cs_stream c) @ missing = iv @ wire
            \<and> DecryptedReader_new L t key iv = Ret d
            \<and> (\<forall>r rest. left r @ rest = wire \<longrightarrow> dec_ok L left rest d r p)
      | Established \<Rightarrow> \<exists>d. cs_dec c = Some d \<and> dec_ok L left missing d (cs_stream c) p)"

definition conn_post ::
    "'c crypto_lib \<Rightarrow> ('s \<Rightarrow> bytes) \<Rightarrow> bytes \<Rightarrow> bytes \<Rightarrow> (io_error + bytes) poll \<Rightarrow> ('c, 's) CryptoStream \<Rightarrow> bool" where
  "conn_post L left missing p res c' \<longleftrightarrow>
     (\<exists>p'. p = accepted_out res @ p' \<and> conn_ok L left missing c' p')
   \<and> (res = Ready (Inr []) \<and> missing = [] \<longrightarrow> p = [])"

lemma handshake_ok:
  assumes src: "source_ok pr left" and ok: "conn_ok L left missing c p"
  obtains res c' q' where "poll_read_handshake L B pr c q = Ret (res, c', q')" "conn_ok L left missing c' p"
    "res = Ready (Inr ()) \<Longrightarrow> cs_read_status c' = Established"
proof (cases "cs_read_status c")
  case Established
  with ok that [of "Ready (Inr ())" c q] show thesis by (simp add: poll_read_handshake_def)
next
  case (WaitIv buf len t key)
  with ok obtain iv wire d where iv: "length iv = len" "length buf \<le> len" "buf @ left (cs_stream c) @ missing = iv @ wire"
      "DecryptedReader_new L t key iv = Ret d" "\<And>r rest. left r @ rest = wire \<Longrightarrow> dec_ok L left rest d r p"
    by (auto simp: conn_ok_def)
  obtain res buf' r' where rd: "poll_read_iv pr buf len (cs_stream c) = (res, buf', r')"
    using prod_cases3 by blast
  have post: "length buf' \<le> len" "buf' @ left r' = buf @ left (cs_stream c)" "res = Ready (Inr ()) \<longrightarrow> length buf' = len"
    using poll_read_iv_post [OF src rd iv(2)] by auto
  let ?c = "c\<lparr>cs_stream := r', cs_read_status := WaitIv buf' len t key\<rparr>"
  have total: "buf' @ left r' @ missing = iv @ wire" using post(2) iv(3) by (metis append.assoc)
  have wait: "conn_ok L left missing ?c p"
    unfolding conn_ok_def using iv(1,4,5) post(1) total by auto
  obtain exist q' where chk: "check_nonce_and_set B q buf' = (exist, q')" by (cases "check_nonce_and_set B q buf'")
  consider (stop) "\<forall>u. res \<noteq> Ready (Inr u)" | (seen) "res = Ready (Inr ())" exist | (fresh) "res = Ready (Inr ())" "\<not> exist"
    by fastforce
  then show thesis
  proof cases
    case stop
    then have "poll_read_handshake L B pr c q = Ret (res, ?c, q)"
      using WaitIv rd by (auto simp: poll_read_handshake_def Let_def split: poll.splits sum.splits)
    with wait stop that show ?thesis by blast
  next
    case seen
    then have "poll_read_handshake L B pr c q = Ret (Ready (Inl repeated_iv), ?c, q')"
      using WaitIv rd chk by (simp add: poll_read_handshake_def)
    with wait that show ?thesis by blast
  next
    case fresh
    then have "buf' = iv" "left r' @ missing = wire"
      using total post(3) iv(1) by (simp_all add: append_eq_append_conv)
    let ?c' = "?c\<lparr>cs_dec := Some d, cs_read_status := Established\<rparr>"
    have "poll_read_handshake L B pr c q = Ret (Ready (Inr ()), ?c', q')"
      using WaitIv rd chk fresh iv(4) \<open>buf' = iv\<close> by (simp add: poll_read_handshake_def)
    moreover have "conn_ok L left missing ?c' p"
      using iv(5) [OF \<open>left r' @ missing = wire\<close>] by (simp add: conn_ok_def)
    ultimately show ?thesis using that by fastforce
  qed
qed

lemma priv_poll_read_ok:
  assumes src: "source_ok pr left" and ok: "conn_ok L left missing c p" and n: "0 < n"
  shows "\<exists>res c' q'. priv_poll_read L B pr c q n = Some (Ret (res, c', q')) \<and> conn_post L left missing p res c'"
proof -
  obtain res c1 q1 where h: "poll_read_handshake L B pr c q = Ret (res, c1, q1)" "conn_ok L left missing c1 p"
    "res = Ready (Inr ()) \<Longrightarrow> cs_read_status c1 = Established"
    using handshake_ok [OF src ok] by metis
  consider "res = Pending" | e where "res = Ready (Inl e)" | "res = Ready (Inr ())"
    by (metis poll.exhaust sum.exhaust old.unit.exhaust)
  then show ?thesis
  proof cases
    case 3
    with h obtain d where d: "cs_dec c1 = Some d" "dec_ok L left missing d (cs_stream c1) p"
        "cs_read_status c1 = Established"
      by (auto simp: conn_ok_def)
    show ?thesis
    proof (cases d)
      case (AeadReader a)
      then obtain res' a' r' where r: "poll_read_decrypted L pr a (cs_stream c1) n = Some (Ret (res', a', r'))"
          "poll_post L left missing n p res' a' r'"
        using poll_read_decrypted_ok [OF src] d(2) by fastforce
      let ?c = "c1\<lparr>cs_dec := Some (AeadReader a'), cs_stream := r'\<rparr>"
      have "conn_post L left missing p res' ?c"
        using r(2) n d(3) by (auto simp: conn_post_def conn_ok_def poll_post_def accepted_out_def split: poll.splits sum.splits)
      with h(1) 3 d(1) AeadReader r(1) show ?thesis by (simp add: priv_poll_read_def)
    next
      case (StreamReader a)
      then obtain res' a' r' where r: "stream_poll_read_decrypted L pr a (cs_stream c1) n = Some (Ret (res', a', r'))"
          "stream_poll_post L left missing n p res' a' r'"
        using stream_poll_read_ok [OF src] d(2) by fastforce
      let ?c = "c1\<lparr>cs_dec := Some (StreamReader a'), cs_stream := r'\<rparr>"
      have "conn_post L left missing p res' ?c"
        using r(2) n d(2,3) StreamReader by (auto simp: conn_post_def conn_ok_def stream_poll_post_def)
      with h(1) 3 d(1) StreamReader r(1) show ?thesis by (simp add: priv_poll_read_def)
    qed
  qed (use h in \<open>simp_all add: priv_poll_read_def conn_post_def accepted_out_def\<close>)
qed

primrec crypto_reads ::
    "'c crypto_lib \<Rightarrow> 'b bloom_ops \<Rightarrow> 's poll_reader \<Rightarrow> ('c, 's) CryptoStream \<Rightarrow> 'b PingPongBloom \<Rightarrow> nat list \<Rightarrow>
     ((io_error + bytes) poll list \<times> ('c, 's) CryptoStream \<times> 'b PingPongBloom) rust option" where
  "crypto_reads L B pr c q [] = Some (Ret ([], c, q))"
| "crypto_reads L B pr c q (n # ns) =
     (case priv_poll_read L B pr c q n of
        None \<Rightarrow> None
      | Some Panic \<Rightarrow> Some Panic
      | Some (Ret (res, c', q')) \<Rightarrow>
          (case crypto_reads L B pr c' q' ns of
             None \<Rightarrow> None
           | Some Panic \<Rightarrow> Some Panic
           | Some (Ret (rs, c'', q'')) \<Rightarrow> Some (Ret (res # rs, c'', q''))))"

lemma crypto_reads_ok:
  assumes "source_ok pr left"
  shows "conn_ok L left missing c p \<Longrightarrow> \<forall>n \<in> set ns. 0 < n \<Longrightarrow>
    \<exists>rs c' q' p'. crypto_reads L B pr c q ns = Some (Ret (rs, c', q')) \<and> length rs = length ns
       \<and> p = delivered rs @ p' \<and> (missing = [] \<and> Ready (Inr []) \<in> set rs \<longrightarrow> p' = [])"
proof (induction ns arbitrary: c q p)
  case (Cons n ns)
  obtain res c1 q1 p1 where r: "priv_poll_read L B pr c q n = Some (Ret (res, c1, q1))"
      "p = accepted_out res @ p1" "conn_ok L left missing c1 p1" "res = Ready (Inr []) \<and> missing = [] \<longrightarrow> p = []"
    using priv_poll_read_ok [OF assms Cons.prems(1), of n B q] Cons.prems(2) unfolding conn_post_def by fastforce
  obtain rs c' q' p' where "crypto_reads L B pr c1 q1 ns = Some (Ret (rs, c', q'))" "length rs = length ns"
      "p1 = delivered rs @ p'" "missing = [] \<and> Ready (Inr []) \<in> set rs \<longrightarrow> p' = []"
    using Cons.IH [OF r(3), of q1] Cons.prems(2) by auto
  with r show ?case by (auto simp: delivered_Cons)
qed simp

section \<open>Delivery\<close>

text \<open>What the libraries have to provide for the category of a method.\<close>

definition method_lib_ok :: "'c crypto_lib \<Rightarrow> CipherType \<Rightarrow> bool" where
  "method_lib_ok L t \<longleftrightarrow>
     (case category t of
        AeadCategory \<Rightarrow> aead_lib_ok L
      | StreamCategory \<Rightarrow> (\<exists>ks R D. sodium_keystream L ks \<and> crypter_sync L R D) \<and> crypter_final_ok L)"

text \<open>
  \<open>enc_ok L w0 iv w out ms\<close>: the writer \<open>w0\<close>, made with the vector \<open>iv\<close>, has become \<open>w\<close> by writing the chunks \<open>ms\<close>, of which the bytes
  \<open>out\<close> have left it. It speaks of the writer and of \<open>out\<close> only, so whatever else happens to the stream keeps it.
\<close>

definition enc_ok :: "'c crypto_lib \<Rightarrow> 'c EncryptedWriter \<Rightarrow> bytes \<Rightarrow> 'c EncryptedWriter \<Rightarrow> bytes \<Rightarrow> bytes list \<Rightarrow> bool" where
  "enc_ok L w0 iv w out ms \<longleftrightarrow>
     (case (w0, w) of
        (AeadWriter a0, AeadWriter a) \<Rightarrow>
          writer_ok L (aew_cipher a0) iv a out ms \<and> in_range (aew_steps a) \<and> (\<exists>d. aead_synced (L, aew_cipher a0) d)
      | (StreamWriter a0, StreamWriter a) \<Rightarrow>
          stream_wr_ok L (sew_cipher a0) iv a out ms \<and> (\<exists>d. stream_synced (2 ^ 38) (L, sew_cipher a0) d)
      | _ \<Rightarrow> False)"

text \<open>The writer of a new stream.\<close>

definition EncryptedWriter_for :: "'c crypto_lib \<Rightarrow> CipherType \<Rightarrow> bytes \<Rightarrow> bytes \<Rightarrow> 'c EncryptedWriter \<Rightarrow> bool" where
  "EncryptedWriter_for L t key iv w0 \<longleftrightarrow>
     (case category t of
        StreamCategory \<Rightarrow> (\<exists>w. w0 = StreamWriter w \<and> StreamEncryptedWriter_new L t key iv = Ret w)
      | AeadCategory \<Rightarrow> (\<exists>w. w0 = AeadWriter w \<and> AeadEncryptedWriter_new L t key iv = Ret w))"

lemma enc_ok_new:
  assumes "method_lib_ok L t" and "EncryptedWriter_for L t key iv w0" and "DecryptedReader_new L t key iv = Ret d"
  shows "enc_ok L w0 iv w0 [] []"
proof (cases "category t")
  case AeadCategory
  with assms(2) obtain w where w: "w0 = AeadWriter w" "AeadEncryptedWriter_new L t key iv = Ret w" by (auto simp: EncryptedWriter_for_def)
  have L: "aead_lib_ok L" using assms(1) AeadCategory by (simp add: method_lib_ok_def)
  note ok = writer_ok_new [OF L AeadCategory w(2)]
  obtain c where "new_aead_decryptor L t key iv = Ret c"
    using assms(3) AeadCategory by (auto simp: DecryptedReader_new_def AeadDecryptedReader_new_def rust_bind_Ret_iff)
  then have "\<exists>d. aead_synced (L, aew_cipher w) d" using new_aead_synced [OF L] ok by blast
  moreover have "in_range (aew_steps w)"
    using w(2) by (auto simp: AeadEncryptedWriter_new_def rust_bind_Ret_iff in_range_def)
  ultimately show ?thesis using ok w(1) by (simp add: enc_ok_def)
next
  case StreamCategory
  with assms(2) obtain w where w: "w0 = StreamWriter w" "StreamEncryptedWriter_new L t key iv = Ret w" by (auto simp: EncryptedWriter_for_def)
  obtain e where e: "new_stream L t key iv Encrypt = Ret e" "w = \<lparr>sew_cipher = e, sew_steps = NothingStep, sew_iv = Some iv\<rparr>"
    using w(2) by (auto simp: StreamEncryptedWriter_new_def rust_bind_Ret_iff)
  obtain c where "new_stream L t key iv Decrypt = Ret c"
    using assms(3) StreamCategory by (auto simp: DecryptedReader_new_def StreamDecryptedReader_new_def rust_bind_Ret_iff)
  with e(1) assms(1) StreamCategory have "stream_synced (2 ^ 38) (L, e) (L, c)"
    by (auto simp: method_lib_ok_def intro!: new_stream_synced)
  with w(1) e(2) show ?thesis by (auto simp: enc_ok_def stream_wr_ok_def in_range_def)
qed

text \<open>A write takes one more chunk, or goes on with the last one.\<close>

lemma enc_ok_write:
  assumes sink: "sink_ok pw written" and ok: "enc_ok L w0 iv (cs_enc c) (written (cs_stream c)) ms"
    and ms': "ms' = (if idle (cs_enc c) then ms @ [taken (cs_enc c) data] else ms)" and len: "length (concat ms') \<le> 2 ^ 38"
  shows "\<exists>res c'. priv_poll_write L pw c data = Ret (res, c') \<and> enc_ok L w0 iv (cs_enc c') (written (cs_stream c')) ms'
    \<and> taken (cs_enc c') = taken (cs_enc c) \<and> cs_dec c' = cs_dec c \<and> cs_read_status c' = cs_read_status c
    \<and> (if idle (cs_enc c') then res = Ready (Inr (length (taken (cs_enc c) data))) else \<forall>n. res \<noteq> Ready (Inr n))"
proof (cases "cs_enc c")
  case (AeadWriter a)
  with ok obtain a0 d where a0: "w0 = AeadWriter a0" "writer_ok L (aew_cipher a0) iv a (written (cs_stream c)) ms" "in_range (aew_steps a)"
      "aead_synced (L, aew_cipher a0) d"
    by (auto simp: enc_ok_def split: EncryptedWriter.splits)
  have "ms' = (if aew_steps a = NothingStep then ms @ [take MAX_PACKET_SIZE data] else ms)" using ms' AeadWriter by simp
  from poll_write_encrypted_ok [OF sink a0(4,2,3) this] obtain res a' s' where
      p: "poll_write_encrypted L pw a (cs_stream c) data = Ret (res, a', s')" "in_range (aew_steps a')"
        "write_poll_post L (aew_cipher a0) iv data res a' (written s') ms'" by blast
  let ?c = "c\<lparr>cs_enc := AeadWriter a', cs_stream := s'\<rparr>"
  have "priv_poll_write L pw c data = Ret (res, ?c)" using AeadWriter p(1) by (simp add: priv_poll_write_def)
  moreover have "enc_ok L w0 iv (cs_enc ?c) (written (cs_stream ?c)) ms'"
    using a0(1,4) p(2,3) by (cases d) (auto simp: enc_ok_def write_poll_post_def)
  moreover have "if idle (cs_enc ?c) then res = Ready (Inr (length (taken (cs_enc c) data))) else \<forall>n. res \<noteq> Ready (Inr n)"
    using p(3) AeadWriter by (auto simp: write_poll_post_def min.commute split: poll.splits sum.splits)
  ultimately show ?thesis using AeadWriter by (intro exI [of _ res] exI [of _ ?c]) (simp add: fun_eq_iff)
next
  case (StreamWriter a)
  with ok obtain a0 d where a0: "w0 = StreamWriter a0" "stream_wr_ok L (sew_cipher a0) iv a (written (cs_stream c)) ms"
      "stream_synced (2 ^ 38) (L, sew_cipher a0) d"
    by (auto simp: enc_ok_def split: EncryptedWriter.splits)
  have "ms' = (if sew_steps a = NothingStep then ms @ [data] else ms)" using ms' StreamWriter by simp
  from stream_poll_write_ok [OF sink a0(3) len a0(2) this] obtain res a' s' where
      p: "stream_poll_write_encrypted L pw a (cs_stream c) data = Ret (res, a', s')" "stream_wr_ok L (sew_cipher a0) iv a' (written s') ms'"
        "if sew_steps a' = NothingStep then res = Ready (Inr (length data)) else \<forall>n. res \<noteq> Ready (Inr n)" by blast
  let ?c = "c\<lparr>cs_enc := StreamWriter a', cs_stream := s'\<rparr>"
  have "priv_poll_write L pw c data = Ret (res, ?c)" using StreamWriter p(1) by (simp add: priv_poll_write_def)
  moreover have "enc_ok L w0 iv (cs_enc ?c) (written (cs_stream ?c)) ms'"
    using a0(1,3) p(2) by (cases d) (auto simp: enc_ok_def)
  ultimately show ?thesis using StreamWriter p(3) by (intro exI [of _ res] exI [of _ ?c]) (simp add: fun_eq_iff)
qed

lemma crypto_writes_enc_ok:
  assumes "crypto_writes L pw c0 ms c" and "sink_ok pw written" and "enc_ok L (cs_enc c0) iv (cs_enc c0) (written (cs_stream c0)) []"
  shows "length (concat ms) \<le> 2 ^ 38 \<Longrightarrow> enc_ok L (cs_enc c0) iv (cs_enc c) (written (cs_stream c)) ms"
  using assms(1)
proof induction
  case start
  with assms(3) show ?case by simp
next
  case (next_payload ms c data res c')
  then show ?case using enc_ok_write [OF assms(2), of L "cs_enc c0" iv c ms _ data] by fastforce
next
  case (again ms m c data res c')
  then show ?case using enc_ok_write [OF assms(2), of L "cs_enc c0" iv c "ms @ [m]" _ data] by fastforce
qed

text \<open>What has left the writer is the vector and a part of the wire form of the chunks, which the peer decrypts.\<close>

lemma enc_ok_wire:
  assumes lib: "method_lib_ok L t" and w0: "EncryptedWriter_for L t key iv w0" and d: "DecryptedReader_new L t key iv = Ret d"
    and ok: "enc_ok L w0 iv w out ms" and len: "length (concat ms) \<le> 2 ^ 38"
  obtains wire rest where "out @ rest = iv @ wire" "idle w \<and> ms \<noteq> [] \<longrightarrow> rest = []"
    "\<And>left r missing. left r @ missing = wire \<Longrightarrow> dec_ok L left missing d r (concat ms)"
proof (cases "category t")
  case AeadCategory
  with w0 obtain a0 where a0: "w0 = AeadWriter a0" "AeadEncryptedWriter_new L t key iv = Ret a0" by (auto simp: EncryptedWriter_for_def)
  with ok obtain a where a: "w = AeadWriter a" "writer_ok L (aew_cipher a0) iv a out ms" by (auto simp: enc_ok_def split: EncryptedWriter.splits)
  have L: "aead_lib_ok L" using lib AeadCategory by (simp add: method_lib_ok_def)
  obtain b where b: "d = AeadReader b" "AeadDecryptedReader_new L t key iv = Ret b"
    using d AeadCategory by (auto simp: DecryptedReader_new_def rust_bind_Ret_iff)
  obtain bs where bs: "frames aead_seal (L, aew_cipher a0) ms = Some (bs, (L, aew_cipher a))"
      "case aew_nonce a of
         Some n \<Rightarrow> n = iv \<and> ms = [] \<and> out = [] \<and> aew_steps a = NothingStep
       | None \<Rightarrow> (case aew_steps a of NothingStep \<Rightarrow> out = iv @ bs | WritingStep buf pos \<Rightarrow> ms \<noteq> [] \<and> out @ drop pos buf = iv @ bs)"
    using a(2) unfolding writer_ok_def by blast
  have "\<exists>rest. out @ rest = iv @ bs \<and> (idle w \<and> ms \<noteq> [] \<longrightarrow> rest = [])"
    using bs(2) a(1) by (cases "aew_nonce a"; cases "aew_steps a") auto
  moreover have "\<forall>m \<in> set ms. length m < 65536" using a(2) by (force simp: writer_ok_def MAX_PACKET_SIZE_def)
  moreover have "new_aead_encryptor L t key iv = Ret (aew_cipher a0)" using writer_ok_new [OF L AeadCategory a0(2)] by simp
  note reader_ok_new [OF L AeadCategory this b(2)]
  ultimately show thesis using that bs(1) b(1) by (metis dec_ok.simps(1))
next
  case StreamCategory
  with w0 obtain a0 where a0: "w0 = StreamWriter a0" "StreamEncryptedWriter_new L t key iv = Ret a0" by (auto simp: EncryptedWriter_for_def)
  with ok obtain a where a: "w = StreamWriter a" "stream_wr_ok L (sew_cipher a0) iv a out ms" by (auto simp: enc_ok_def split: EncryptedWriter.splits)
  obtain ks R D where lib': "sodium_keystream L ks" "crypter_sync L R D" "crypter_final_ok L"
    using lib StreamCategory by (auto simp: method_lib_ok_def)
  have e: "new_stream L t key iv Encrypt = Ret (sew_cipher a0)"
    using a0(2) by (auto simp: StreamEncryptedWriter_new_def rust_bind_Ret_iff)
  obtain c where c: "new_stream L t key iv Decrypt = Ret c"
      "d = StreamReader \<lparr>sdr_buffer = [], sdr_cipher = c, sdr_pos = 0, sdr_got_final = False\<rparr>"
    using d StreamCategory by (auto simp: DecryptedReader_new_def StreamDecryptedReader_new_def rust_bind_Ret_iff)
  have sync: "stream_synced (2 ^ 38) (L, sew_cipher a0) (L, c)"
    using lib' e c(1) by (intro new_stream_synced) auto
  obtain y where y: "feed stream_step (L, sew_cipher a0) ms = Some (y, (L, sew_cipher a))"
      "case sew_iv a of
         Some i \<Rightarrow> i = iv \<and> ms = [] \<and> out = [] \<and> sew_steps a = NothingStep
       | None \<Rightarrow> (case sew_steps a of NothingStep \<Rightarrow> out = iv @ y | WritingStep buf pos \<Rightarrow> ms \<noteq> [] \<and> out @ drop pos buf = iv @ y)"
    using a(2) unfolding stream_wr_ok_def by blast
  have "\<exists>rest. out @ rest = iv @ y \<and> (idle w \<and> ms \<noteq> [] \<longrightarrow> rest = [])"
    using y(2) a(1) by (cases "sew_iv a"; cases "sew_steps a") auto
  moreover obtain d' where "length y = length (concat ms)" "stream_step (L, c) y = Some (concat ms, d')"
    using stream_box.feed_enc_dec [OF sync len] y(1) by fastforce
  then have "stream_rd_ok L left missing \<lparr>sdr_buffer = [], sdr_cipher = c, sdr_pos = 0, sdr_got_final = False\<rparr> r (concat ms)"
    if "left r @ missing = y" for left r missing
    using that stream_box.synced_valid [OF sync] len unfolding stream_rd_ok_def by (cases d') auto
  ultimately show thesis using that c(2) lib'(3) by (metis dec_ok.simps(2))
qed

lemma CryptoStream_new_writer:
  assumes "CryptoStream_new L B rnd p s0 cfg = Some (Ret (c0, p1))" and "writer_iv (cs_enc c0) = Some iv"
  shows "EncryptedWriter_for L (sc_method cfg) (sc_enc_key cfg) iv (cs_enc c0)"
  by (rule CryptoStream_new_cases [OF assms(1)]) (use assms(2) in \<open>auto simp: EncryptedWriter_for_def split: CipherCategory.splits\<close>)

text \<open>Two ends with the same method and key: what one has written is what the other is about to deliver.\<close>

lemma writers_meet:
  fixes left :: "'e \<Rightarrow> bytes"
  assumes "method_lib_ok L (sc_method cfg)" and "\<forall>i n. length (rnd i n) = n"
    and "CryptoStream_new L B rnd p s0 cfg = Some (Ret (c0, p1))" and "writer_iv (cs_enc c0) = Some iv"
    and "CryptoStream_new L B' rnd' q r0 cfg' = Some (Ret (d0, q1))"
    and "sc_method cfg' = sc_method cfg" and "sc_enc_key cfg' = sc_enc_key cfg"
    and "DecryptedReader_new L (sc_method cfg) (sc_enc_key cfg) iv = Ret rd"
    and "enc_ok L (cs_enc c0) iv w (left r0 @ missing) ms" and "length (concat ms) \<le> 2 ^ 38"
  obtains rest where "conn_ok L left (missing @ rest) d0 (concat ms)" "idle w \<and> ms \<noteq> [] \<longrightarrow> rest = []"
proof -
  let ?t = "sc_method cfg" and ?key = "sc_enc_key cfg"
  obtain iv' len where c0: "writer_iv (cs_enc c0) = Some iv'" "\<exists>i. iv' = rnd i len"
      "(case category ?t of StreamCategory \<Rightarrow> iv_size L ?t | AeadCategory \<Rightarrow> salt_size L ?t) = Ret len"
    by (rule CryptoStream_new_cases [OF assms(3)])
  obtain len' where d0: "cs_read_status d0 = WaitIv [] len' ?t ?key" "cs_stream d0 = r0"
      "(case category ?t of StreamCategory \<Rightarrow> iv_size L ?t | AeadCategory \<Rightarrow> salt_size L ?t) = Ret len'"
    by (rule CryptoStream_new_cases [OF assms(5), unfolded assms(6,7)])
  have len: "length iv = len'" using c0 d0(3) assms(2,4) by auto
  obtain wire rest where wire: "(left r0 @ missing) @ rest = iv @ wire" "idle w \<and> ms \<noteq> [] \<longrightarrow> rest = []"
      "\<And>(left :: 'e \<Rightarrow> bytes) r missing. left r @ missing = wire \<Longrightarrow> dec_ok L left missing rd r (concat ms)"
    by (rule enc_ok_wire [OF assms(1) CryptoStream_new_writer [OF assms(3,4)] assms(8-10)], rule that)
  show thesis
    by (rule that [of rest]) (unfold conn_ok_def d0(1), use len wire d0(2) assms(8) in auto)
qed

lemma streams_meet:
  fixes left :: "'e \<Rightarrow> bytes"
  assumes "method_lib_ok L (sc_method cfg)" and "\<forall>i n. length (rnd i n) = n"
    and "CryptoStream_new L B rnd p s0 cfg = Some (Ret (c0, p1))" and "writer_iv (cs_enc c0) = Some iv"
    and "CryptoStream_new L B' rnd' q r0 cfg' = Some (Ret (d0, q1))"
    and "sc_method cfg' = sc_method cfg" and "sc_enc_key cfg' = sc_enc_key cfg"
    and "DecryptedReader_new L (sc_method cfg) (sc_enc_key cfg) iv = Ret rd"
    and "sink_ok pw written" and "written s0 = []"
    and "crypto_writes L pw c0 ms c" and "length (concat ms) \<le> 2 ^ 38"
    and "written (cs_stream c) = left r0 @ missing"
  obtains rest where "conn_ok L left (missing @ rest) d0 (concat ms)" "idle (cs_enc c) \<and> ms \<noteq> [] \<longrightarrow> rest = []"
proof -
  have "cs_stream c0 = s0" by (rule CryptoStream_new_cases [OF assms(3)])
  with enc_ok_new [OF assms(1) CryptoStream_new_writer [OF assms(3,4)] assms(8)] assms(10)
  have "enc_ok L (cs_enc c0) iv (cs_enc c0) (written (cs_stream c0)) []" by simp
  from crypto_writes_enc_ok [OF assms(11,9) this assms(12)] have "enc_ok L (cs_enc c0) iv (cs_enc c) (left r0 @ missing) ms"
    using assms(13) by simp
  then show thesis by (rule writers_meet [where left = left, OF assms(1-8) _ assms(12)]) (rule that)
qed

text \<open>
  C3. A connection delivers what is written to it. Two streams are created for the same method and key, with
  any random draws and replay filters; one end writes, the other reads. However the underlying streams cut,
  delay or fail the transfers, for stream and AEAD methods alike, no poll panics or hangs, the bytes
  delivered are a prefix of those written, and the end of a stream of which nothing is missing is reported
  only when all of them have been delivered.
\<close>

theorem crypto_connection_delivery:
  fixes left :: "'e \<Rightarrow> bytes"
  assumes "method_lib_ok L (sc_method cfg)" and "\<forall>i n. length (rnd i n) = n"
    and "CryptoStream_new L B rnd p s0 cfg = Some (Ret (c0, p1))" and "writer_iv (cs_enc c0) = Some iv"
    and "CryptoStream_new L B' rnd' q r0 cfg' = Some (Ret (d0, q1))"
    and "sc_method cfg' = sc_method cfg" and "sc_enc_key cfg' = sc_enc_key cfg"
    and "DecryptedReader_new L (sc_method cfg) (sc_enc_key cfg) iv = Ret rd"
    and "sink_ok pw written" and "written s0 = []"
    and "crypto_writes L pw c0 ms c" and "length (concat ms) \<le> 2 ^ 38"
    and "source_ok pr left" and "written (cs_stream c) = left r0 @ missing" and "\<forall>n \<in> set ns. 0 < n"
  shows "\<exists>rs d q'. crypto_reads L B' pr d0 q1 ns = Some (Ret (rs, d, q')) \<and> length rs = length ns
           \<and> prefix (delivered rs) (concat ms)
           \<and> (missing = [] \<and> idle (cs_enc c) \<and> Ready (Inr []) \<in> set rs \<longrightarrow> delivered rs = concat ms)"
proof -
  obtain rest where "conn_ok L left (missing @ rest) d0 (concat ms)" "idle (cs_enc c) \<and> ms \<noteq> [] \<longrightarrow> rest = []"
    by (rule streams_meet [where left = left and missing = missing, OF assms(1-12,14)])
  with crypto_reads_ok [OF assms(13) _ assms(15), of L "missing @ rest" d0 "concat ms" B' q1] show ?thesis
    by (cases "ms = []") (auto simp: prefix_def)
qed

theorem crypto_connection_delivery_witness:
  "\<exists>c p1 rs d q'.
     crypto_writes sample_lib pipe_write (sample_end []) [[1, 2, 3]] c
   \<and> CryptoStream_new sample_lib sample_bloom (\<lambda>i n. replicate n 5) (PingPongBloom_new sample_bloom Server) (cs_stream c)
       (sample_cfg ChaCha20 []) = Some (Ret (sample_end (cs_stream c), p1))
   \<and> crypto_reads sample_lib sample_bloom pipe_read (sample_end (cs_stream c)) p1 [2, 2] = Some (Ret (rs, d, q'))
   \<and> length rs = length [2, 2 :: nat] \<and> prefix (delivered rs) (concat [[1, 2, 3]])"
proof -
  let ?new = "CryptoStream_new sample_lib sample_bloom (\<lambda>i n. replicate n 5) (PingPongBloom_new sample_bloom Server)"
  obtain p1 where p1: "?new [] (sample_cfg ChaCha20 []) = Some (Ret (sample_end [], p1))" using sample_new by blast
  have "\<exists>c. priv_poll_write sample_lib pipe_write (sample_end []) [1, 2, 3] = Ret (Ready (Inr 3), c)"
    by (simp add: sample_end_def priv_poll_write_def stream_poll_write_encrypted_def stream_poll_write_all_encrypted_def
        sew_make_buf_def sew_write_buf_def poll_write_buf.simps pipe_write_def SodiumStreamCipher_process_def
        padding_len_def crypto_stream_xor_ic_def Let_def)
  then obtain c where c: "priv_poll_write sample_lib pipe_write (sample_end []) [1, 2, 3] = Ret (Ready (Inr 3), c)" by blast
  have wr: "crypto_writes sample_lib pipe_write (sample_end []) [[1, 2, 3]] c"
    using crypto_writes.next_payload [OF crypto_writes.start _ c] by (simp add: sample_end_def)
  obtain q1 where q1: "?new (cs_stream c) (sample_cfg ChaCha20 []) = Some (Ret (sample_end (cs_stream c), q1))"
    using sample_new by blast
  have "\<exists>rd. DecryptedReader_new sample_lib ChaCha20 [] (replicate 8 5) = Ret rd"
    by (simp add: DecryptedReader_new_def StreamDecryptedReader_new_def new_stream_def rust_assert_def
        SodiumStreamCipher_new_def)
  then obtain rd where rd: "DecryptedReader_new sample_lib (sc_method (sample_cfg ChaCha20 []))
      (sc_enc_key (sample_cfg ChaCha20 [])) (replicate 8 5) = Ret rd"
    by (auto simp: sample_cfg_def)
  have lib: "method_lib_ok sample_lib (sc_method (sample_cfg ChaCha20 []))"
    using sample_sodium_keystream sample_crypter_sync
    by (auto simp: method_lib_ok_def sample_cfg_def crypter_final_ok_def)
  have iv: "writer_iv (cs_enc (sample_end [])) = Some (replicate 8 5)" by (simp add: sample_end_def)
  note ex = crypto_connection_delivery [where written = "\<lambda>s. s" and left = "\<lambda>s. s" and missing = "[]"
      and ns = "[2, 2]" and pr = pipe_read, OF lib _ p1 iv q1 refl refl rd pipe_ok(1) refl wr _ pipe_ok(2)]
  obtain rs d q' where "crypto_reads sample_lib sample_bloom pipe_read (sample_end (cs_stream c)) q1 [2, 2] = Some (Ret (rs, d, q'))"
      "length rs = length [2, 2 :: nat]" "prefix (delivered rs) (concat [[1, 2, 3]])"
    using ex by fastforce
  with wr q1 show ?thesis by blast
qed

end
