(* ===== verification/Udp_Crypto.thy ===== *)
theory Udp_Crypto
  imports Crypto_Session
begin

text \<open>
  Encrypted UDP packets, \<^verbatim>\<open>src/relay/udprelay/crypto_io.rs\<close>: every packet carries its own vector or salt in
  front, drawn and checked against the replay filter as for a TCP stream, and the payload is encrypted
  by a cipher of its own.
\<close>

section \<open>Encryption\<close>

text \<open>
  A packet is written into an empty buffer with room for exactly the packet, so the AEAD cipher is given
  an output of the length of the payload and the tag.
\<close>

definition encrypt_payload_stream ::
    "'c crypto_lib \<Rightarrow> 'b bloom_ops \<Rightarrow> (nat \<Rightarrow> nat \<Rightarrow> bytes) \<Rightarrow> 'b PingPongBloom \<Rightarrow> CipherType \<Rightarrow> bytes \<Rightarrow> bytes \<Rightarrow>
     ((io_error + bytes) \<times> 'b PingPongBloom) rust option" where
  "encrypt_payload_stream L B rnd p t key payload =
     (case gen_unique_iv B (\<lambda>i. gen_init_vec L (rnd i) t) 0 p of
        None \<Rightarrow> None
      | Some Panic \<Rightarrow> Some Panic
      | Some (Ret (iv, p)) \<Rightarrow>
          Some (rust_bind (new_stream L t key iv Encrypt) (\<lambda>cipher.
                rust_bind (stream_update L cipher payload) (\<lambda>res.
                  case res of
                    Inl e \<Rightarrow> Ret (Inl (io_error_from_cipher e), p)
                  | Inr (data, cipher) \<Rightarrow>
                      rust_bind (stream_finalize L cipher) (\<lambda>res.
                        case res of
                          Inl e \<Rightarrow> Ret (Inl (io_error_from_cipher e), p)
                        | Inr (rest, _) \<Rightarrow> Ret (Inr (iv @ data @ rest), p))))))"

definition encrypt_payload_aead ::
    "'c crypto_lib \<Rightarrow> 'b bloom_ops \<Rightarrow> (nat \<Rightarrow> nat \<Rightarrow> bytes) \<Rightarrow> 'b PingPongBloom \<Rightarrow> CipherType \<Rightarrow> bytes \<Rightarrow> bytes \<Rightarrow>
     ((io_error + bytes) \<times> 'b PingPongBloom) rust option" where
  "encrypt_payload_aead L B rnd p t key payload =
     (case gen_unique_iv B (\<lambda>i. gen_salt L (rnd i) t) 0 p of
        None \<Rightarrow> None
      | Some Panic \<Rightarrow> Some Panic
      | Some (Ret (salt, p)) \<Rightarrow>
          Some (rust_bind (tag_size L t) (\<lambda>tag_size.
                rust_bind (new_aead_encryptor L t key salt) (\<lambda>cipher.
                rust_bind (aead_encrypt L cipher payload (length payload + tag_size)) (\<lambda>(data, _).
                  Ret (Inr (salt @ data), p))))))"

definition encrypt_payload ::
    "'c crypto_lib \<Rightarrow> 'b bloom_ops \<Rightarrow> (nat \<Rightarrow> nat \<Rightarrow> bytes) \<Rightarrow> 'b PingPongBloom \<Rightarrow> CipherType \<Rightarrow> bytes \<Rightarrow> bytes \<Rightarrow>
     ((io_error + bytes) \<times> 'b PingPongBloom) rust option" where
  "encrypt_payload L B rnd p t key payload =
     (case category t of
        StreamCategory \<Rightarrow> encrypt_payload_stream L B rnd p t key payload
      | AeadCategory \<Rightarrow> encrypt_payload_aead L B rnd p t key payload)"

section \<open>Decryption\<close>

definition repeated_udp_iv :: io_error where
  "repeated_udp_iv = IoError OtherKind ''detected repeated iv''"

definition repeated_udp_salt :: io_error where
  "repeated_udp_salt = IoError OtherKind ''detected repeated salt''"

text \<open>\<open>Inr None\<close> is a packet that is too short.\<close>

definition decrypt_payload_stream ::
    "'c crypto_lib \<Rightarrow> 'b bloom_ops \<Rightarrow> 'b PingPongBloom \<Rightarrow> CipherType \<Rightarrow> bytes \<Rightarrow> bytes \<Rightarrow>
     ((io_error + bytes option) \<times> 'b PingPongBloom) rust" where
  "decrypt_payload_stream L B p t key payload =
     rust_bind (iv_size L t) (\<lambda>iv_size.
       if length payload < iv_size then Ret (Inr None, p)
       else
         let iv = take iv_size payload in
         case check_nonce_and_set B p iv of
           (True, p) \<Rightarrow> Ret (Inl repeated_udp_iv, p)
         | (False, p) \<Rightarrow>
             let data = drop iv_size payload in
             rust_bind (new_stream L t key iv Decrypt) (\<lambda>cipher.
             rust_bind (stream_update L cipher data) (\<lambda>res.
               case res of
                 Inl e \<Rightarrow> Ret (Inl (io_error_from_cipher e), p)
               | Inr (recv_payload, cipher) \<Rightarrow>
                   rust_bind (stream_finalize L cipher) (\<lambda>res.
                     case res of
                       Inl e \<Rightarrow> Ret (Inl (io_error_from_cipher e), p)
                     | Inr (rest, _) \<Rightarrow> Ret (Inr (Some (recv_payload @ rest)), p)))))"

definition decrypt_payload_aead ::
    "'c crypto_lib \<Rightarrow> 'b bloom_ops \<Rightarrow> 'b PingPongBloom \<Rightarrow> CipherType \<Rightarrow> bytes \<Rightarrow> bytes \<Rightarrow>
     ((io_error + bytes option) \<times> 'b PingPongBloom) rust" where
  "decrypt_payload_aead L B p t key payload =
     rust_bind (tag_size L t) (\<lambda>tag_size.
     rust_bind (salt_size L t) (\<lambda>salt_size.
       if length payload < tag_size + salt_size then Ret (Inr None, p)
       else
         let salt = take salt_size payload in
         case check_nonce_and_set B p salt of
           (True, p) \<Rightarrow> Ret (Inl repeated_udp_salt, p)
         | (False, p) \<Rightarrow>
             let data = drop salt_size payload; data_length = length payload - tag_size - salt_size in
             rust_bind (new_aead_decryptor L t key salt) (\<lambda>cipher.
             rust_bind (aead_decrypt L cipher data data_length) (\<lambda>(res, _).
               case res of
                 Inl e \<Rightarrow> Ret (Inl (io_error_from_cipher e), p)
               | Inr recv_payload \<Rightarrow> Ret (Inr (Some recv_payload), p)))))"

definition decrypt_payload ::
    "'c crypto_lib \<Rightarrow> 'b bloom_ops \<Rightarrow> 'b PingPongBloom \<Rightarrow> CipherType \<Rightarrow> bytes \<Rightarrow> bytes \<Rightarrow>
     ((io_error + bytes option) \<times> 'b PingPongBloom) rust" where
  "decrypt_payload L B p t key payload =
     (case category t of
        StreamCategory \<Rightarrow> decrypt_payload_stream L B p t key payload
      | AeadCategory \<Rightarrow> decrypt_payload_aead L B p t key payload)"

section \<open>Packets\<close>

text \<open>The length of what stands in front of the encrypted payload.\<close>

definition nonce_len :: "'c crypto_lib \<Rightarrow> CipherType \<Rightarrow> nat rust" where
  "nonce_len L t = (case category t of StreamCategory \<Rightarrow> iv_size L t | AeadCategory \<Rightarrow> salt_size L t)"

text \<open>What OpenSSL promises of its constructor: whether it succeeds does not depend on the direction.\<close>

definition crypter_both_ok :: "'c crypto_lib \<Rightarrow> bool" where
  "crypter_both_ok L \<longleftrightarrow> (\<forall>c key iv. crypter_new L c Encrypt key iv \<noteq> None \<longrightarrow> crypter_new L c Decrypt key iv \<noteq> None)"

lemma OpenSSLCrypto_new_both:
  "\<lbrakk>crypter_both_ok L; OpenSSLCrypto_new L t key iv Encrypt = Ret e\<rbrakk> \<Longrightarrow> \<exists>d. OpenSSLCrypto_new L t key iv Decrypt = Ret d"
  by (fastforce simp: crypter_both_ok_def OpenSSLCrypto_new_def rust_bind_Ret_iff)

lemma new_stream_both:
  assumes "crypter_both_ok L" and "new_stream L t key iv Encrypt = Ret e"
  shows "\<exists>d. new_stream L t key iv Decrypt = Ret d"
proof -
  have table: "\<exists>c'. TableCipher_new L key Decrypt = Ret c'" if "TableCipher_new L key Encrypt = Ret c" for c
    using that by (auto simp: TableCipher_new_def Let_def rust_bind_Ret_iff)
  have rc4: "\<exists>c'. Rc4Md5Cipher_new L key iv Decrypt = Ret c'" if "Rc4Md5Cipher_new L key iv Encrypt = Ret c" for c
    using that OpenSSLCrypto_new_both [OF assms(1)] by (auto simp: Rc4Md5Cipher_new_def Let_def)
  show ?thesis
    using assms(2) table rc4 OpenSSLCrypto_new_both [OF assms(1), of t key iv]
    by (auto simp: new_stream_def rust_assert_def rust_bind_Ret_iff SodiumStreamCipher_new_def split: if_splits)
qed

lemma RingAeadCipher_new_both:
  "RingAeadCipher_new L t key salt True = Ret e \<Longrightarrow> \<exists>d. RingAeadCipher_new L t key salt False = Ret d"
  by (cases "iv_size L t"; cases "make_skey L t key salt"; cases "ring_alg_of t")
     (auto simp: RingAeadCipher_new_def rust_assert_def Let_def split: if_splits)

lemma new_aead_both:
  "new_aead_encryptor L t key salt = Ret e \<Longrightarrow> \<exists>d. new_aead_decryptor L t key salt = Ret d"
  using RingAeadCipher_new_both [of L t key salt]
  by (auto simp: new_aead_encryptor_def new_aead_decryptor_def new_aead_def rust_assert_def
      rust_bind_Ret_iff split: if_splits)

text \<open>
  A packet of the sender starts with a vector its own filter did not know, and a receiver whose filter
  does not know it either decrypts the packet to the payload.
\<close>

lemma encrypt_stream_ok:
  assumes ks: "sodium_keystream L ks" and cs: "crypter_sync L R D" and fin: "crypter_final_ok L" and both: "crypter_both_ok L"
    and t: "category t = StreamCategory" and rnd: "\<forall>i n. length (rnd i n) = n" and len: "length payload \<le> 2 ^ 38"
    and enc: "encrypt_payload_stream L B rnd p t key payload = Some (Ret (res, p1))"
  obtains iv data where "res = Inr (iv @ data)" "iv_size L t = Ret (length iv)" "length data = length payload"
    "check_nonce_and_set B p iv = (False, p1)"
    "\<And>(B' :: 'e bloom_ops) q q'. check_nonce_and_set B' q iv = (False, q') \<Longrightarrow>
       decrypt_payload_stream L B' q t key (iv @ data) = Ret (Inr (Some payload), q')"
proof -
  obtain iv p0 where iv: "gen_unique_iv B (\<lambda>i. gen_init_vec L (rnd i) t) 0 p = Some (Ret (iv, p0))"
    using enc by (auto simp: encrypt_payload_stream_def split: option.splits rust.splits)
  obtain e where e: "new_stream L t key iv Encrypt = Ret e"
    using enc iv by (auto simp: encrypt_payload_stream_def rust_bind_Ret_iff)
  obtain d where d: "new_stream L t key iv Decrypt = Ret d" using new_stream_both [OF both e] by blast
  have size: "iv_size L t = Ret (length iv)"
    using gen_unique_iv_fresh [OF iv] rnd by (auto simp: gen_init_vec_def gen_random_bytes_def rust_bind_Ret_iff)
  have "stream_synced (length payload) (L, e) (L, d)"
    using new_stream_synced [OF ks cs e d len] .
  then obtain y e' d' where y: "stream_update L e payload = Ret (Inr (y, e'))" "length y = length payload"
      "stream_update L d y = Ret (Inr (payload, d'))"
    using stream_box.synced_step [of "length payload" "(L, e)" "(L, d)" payload] by (auto simp: stream_step_Some)
  obtain e2 d2 where "stream_finalize L e' = Ret (Inr ([], e2))" "stream_finalize L d' = Ret (Inr ([], d2))"
    using stream_finalize_ok [OF fin] by blast
  with y e d iv enc size show thesis
    using gen_unique_iv_fresh [OF iv]
    by (intro that [of iv y]) (auto simp: encrypt_payload_stream_def decrypt_payload_stream_def Let_def)
qed

lemma encrypt_aead_ok:
  assumes L: "aead_lib_ok L" and t: "category t = AeadCategory" and rnd: "\<forall>i n. length (rnd i n) = n"
    and enc: "encrypt_payload_aead L B rnd p t key payload = Some (Ret (res, p1))"
  obtains iv data where "res = Inr (iv @ data)" "salt_size L t = Ret (length iv)" "length data = length payload + TAG_LEN"
    "check_nonce_and_set B p iv = (False, p1)"
    "\<And>(B' :: 'e bloom_ops) q q'. check_nonce_and_set B' q iv = (False, q') \<Longrightarrow>
       decrypt_payload_aead L B' q t key (iv @ data) = Ret (Inr (Some payload), q')"
proof -
  obtain iv where iv: "gen_unique_iv B (\<lambda>i. gen_salt L (rnd i) t) 0 p = Some (Ret (iv, p1))"
    using enc by (auto simp: encrypt_payload_aead_def rust_bind_Ret_iff split: option.splits rust.splits)
  obtain e where e: "new_aead_encryptor L t key iv = Ret e"
    using enc iv by (auto simp: encrypt_payload_aead_def rust_bind_Ret_iff)
  obtain d where d: "new_aead_decryptor L t key iv = Ret d" using new_aead_both [OF e] by blast
  have size: "salt_size L t = Ret (length iv)"
    using gen_unique_iv_fresh [OF iv] rnd by (auto simp: gen_salt_def gen_random_bytes_def rust_bind_Ret_iff)
  have tag: "tag_size L t = Ret TAG_LEN" using L t tag_size_ok by (auto simp: aead_lib_ok_def)
  have "box_in_step e d" using new_aead_synced [OF L e d] by (simp add: aead_synced_def)
  then obtain y e' d' where y: "aead_encrypt L e payload (length payload + TAG_LEN) = Ret (y, e')"
      "length y = length payload + TAG_LEN" "aead_decrypt L d y (length payload) = Ret (Inr payload, d')"
    using aead_box_enc_dec [OF L, of e d payload] by blast
  with e d iv enc size tag show thesis
    using gen_unique_iv_fresh [OF iv]
    by (intro that [of iv y]) (auto simp: encrypt_payload_aead_def decrypt_payload_aead_def Let_def)
qed

definition udp_lib_ok :: "'c crypto_lib \<Rightarrow> CipherType \<Rightarrow> bool" where
  "udp_lib_ok L t \<longleftrightarrow> method_lib_ok L t \<and> crypter_both_ok L"

lemma encrypt_payload_ok:
  assumes "udp_lib_ok L t" and "\<forall>i n. length (rnd i n) = n" and "length payload \<le> 2 ^ 38"
    and "encrypt_payload L B rnd p t key payload = Some (Ret (res, p1))"
  obtains iv data where "res = Inr (iv @ data)" "nonce_len L t = Ret (length iv)"
    "check_nonce_and_set B p iv = (False, p1)" "length payload \<le> length data"
    "\<And>(B' :: 'e bloom_ops) q q'. check_nonce_and_set B' q iv = (False, q') \<Longrightarrow>
       decrypt_payload L B' q t key (iv @ data) = Ret (Inr (Some payload), q')"
proof (cases "category t")
  case AeadCategory
  then have L: "aead_lib_ok L" and enc: "encrypt_payload_aead L B rnd p t key payload = Some (Ret (res, p1))"
    using assms by (simp_all add: udp_lib_ok_def method_lib_ok_def encrypt_payload_def)
  show thesis
  proof (rule encrypt_aead_ok [OF L AeadCategory assms(2) enc])
    fix iv data
    assume "res = Inr (iv @ data)" and "salt_size L t = Ret (length iv)" and "length data = length payload + TAG_LEN"
      and "check_nonce_and_set B p iv = (False, p1)"
      and "\<And>(B' :: 'e bloom_ops) q q'. check_nonce_and_set B' q iv = (False, q') \<Longrightarrow>
        decrypt_payload_aead L B' q t key (iv @ data) = Ret (Inr (Some payload), q')"
    then show thesis
      by (intro that [of iv data]) (simp_all add: AeadCategory nonce_len_def decrypt_payload_def)
  qed
next
  case StreamCategory
  then obtain ks R D where L: "sodium_keystream L ks" "crypter_sync L R D" "crypter_final_ok L" "crypter_both_ok L"
      and enc: "encrypt_payload_stream L B rnd p t key payload = Some (Ret (res, p1))"
    using assms by (auto simp: udp_lib_ok_def method_lib_ok_def encrypt_payload_def)
  show thesis
  proof (rule encrypt_stream_ok [OF L StreamCategory assms(2,3) enc])
    fix iv data
    assume "res = Inr (iv @ data)" and "iv_size L t = Ret (length iv)" and "length data = length payload"
      and "check_nonce_and_set B p iv = (False, p1)"
      and "\<And>(B' :: 'e bloom_ops) q q'. check_nonce_and_set B' q iv = (False, q') \<Longrightarrow>
        decrypt_payload_stream L B' q t key (iv @ data) = Ret (Inr (Some payload), q')"
    then show thesis
      by (intro that [of iv data]) (simp_all add: StreamCategory nonce_len_def decrypt_payload_def)
  qed
qed

text \<open>What an accepted packet says about the filter: its vector was not known, and is now.\<close>

lemma decrypt_payload_fresh:
  assumes "decrypt_payload L B p t key pkt = Ret (Inr (Some payload), p')"
  obtains n where "nonce_len L t = Ret n" "n \<le> length pkt" "check_nonce_and_set B p (take n pkt) = (False, p')"
  using assms
  by (cases "category t")
     (auto simp: decrypt_payload_def decrypt_payload_stream_def decrypt_payload_aead_def nonce_len_def
       Let_def split: rust_bind_splits if_splits prod.splits bool.splits sum.splits)

lemma decrypt_payload_known:
  assumes "nonce_len L t = Ret n" and "check_nonce_and_set B p (take n pkt) = (True, p')"
    and "decrypt_payload L B p t key pkt = Ret (res, p'')"
  shows "p'' = p \<and> (\<exists>e. res = Inl e \<or> res = Inr None)"
  using assms check_nonce_rejects [OF assms(2)]
  by (cases "category t")
     (auto simp: decrypt_payload_def decrypt_payload_stream_def decrypt_payload_aead_def nonce_len_def rust_bind_Ret_iff
       Let_def split: if_splits)

lemma decrypt_aead_sealed:
  assumes L: "aead_lib_ok L" and t: "category t = AeadCategory" and n: "salt_size L t = Ret n"
    and dec: "decrypt_payload L B p t key pkt = Ret (Inr (Some payload), p')"
    and e: "new_aead_encryptor L t key (take n pkt) = Ret e"
  shows "\<exists>e'. aead_encrypt L e payload (length payload + TAG_LEN) = Ret (drop n pkt, e')"
proof -
  have tag: "tag_size L t = Ret TAG_LEN" using L t tag_size_ok by (auto simp: aead_lib_ok_def)
  obtain d where d: "new_aead_decryptor L t key (take n pkt) = Ret d" using new_aead_both [OF e] by blast
  then obtain d' where "aead_decrypt L d (drop n pkt) (length pkt - TAG_LEN - n) = Ret (Inr payload, d')" "TAG_LEN + n \<le> length pkt"
    using dec t tag n
    by (auto simp: decrypt_payload_def decrypt_payload_aead_def Let_def
        split: rust_bind_splits if_splits prod.splits bool.splits sum.splits)
  then show ?thesis
    using aead_box_dec_enc [OF L _, of e d "drop n pkt" payload d'] new_aead_synced [OF L e d]
    by (simp add: aead_synced_def add.commute diff_commute)
qed


end
