(* ===== verification/Acl.thy ===== *)
theory Acl
  imports Socks5
begin

text \<open>
  The access control list of \<^verbatim>\<open>src/acl/mod.rs\<close>: the rules of a section, the parser of an ACL file and the
  decisions taken from it. Networks, ranges of networks and sets of regular expressions come from
  libraries, which are parameters of the model.
\<close>

section \<open>The libraries\<close>

text \<open>\<open>'a\<close> is an address family, \<open>'n\<close> its networks (\<^verbatim>\<open>ipnet\<close>) and \<open>'r\<close> a range of networks (\<^verbatim>\<open>iprange\<close>).\<close>

record ('a, 'n, 'r) ip_range_ops =
  net_from :: "'a \<Rightarrow> 'n"
  range_new :: 'r
  range_add :: "'r \<Rightarrow> 'n \<Rightarrow> 'r"
  range_simplify :: "'r \<Rightarrow> 'r"
  range_contains :: "'r \<Rightarrow> 'a \<Rightarrow> bool"

datatype ('n, 'm) ip_net = NetV4 'n | NetV6 'm

record ('n, 'm, 'r, 's, 'x) acl_lib =
  v4_ops :: "(ipv4_addr, 'n, 'r) ip_range_ops"
  v6_ops :: "(ipv6_addr, 'm, 's) ip_range_ops"
  parse_ipnet :: "string \<Rightarrow> ('n, 'm) ip_net option"
  regex_set_new :: "string list \<Rightarrow> string + 'x"
  regex_is_match :: "'x \<Rightarrow> string \<Rightarrow> bool"

section \<open>Rules\<close>

datatype acl_mode = BlackList | WhiteList

record ('r, 's, 'x) Rules =
  rules_ipv4 :: 'r
  rules_ipv6 :: 's
  rules_rule :: 'x

definition Rules_new :: "('n, 'm, 'r, 's, 'x) acl_lib \<Rightarrow> 'r \<Rightarrow> 's \<Rightarrow> 'x \<Rightarrow> ('r, 's, 'x) Rules" where
  "Rules_new A ipv4 ipv6 rule =
     \<lparr>rules_ipv4 = range_simplify (v4_ops A) ipv4, rules_ipv6 = range_simplify (v6_ops A) ipv6, rules_rule = rule\<rparr>"

definition check_ip_matched :: "('n, 'm, 'r, 's, 'x) acl_lib \<Rightarrow> ('r, 's, 'x) Rules \<Rightarrow> socket_addr \<Rightarrow> bool" where
  "check_ip_matched A rules addr =
     (case sock_ip addr of
        IpV4 v4 \<Rightarrow> range_contains (v4_ops A) (rules_ipv4 rules) v4
      | IpV6 v6 \<Rightarrow> range_contains (v6_ops A) (rules_ipv6 rules) v6)"

definition check_host_matched :: "('n, 'm, 'r, 's, 'x) acl_lib \<Rightarrow> ('r, 's, 'x) Rules \<Rightarrow> string \<Rightarrow> bool" where
  "check_host_matched A rules host = regex_is_match A (rules_rule rules) host"

definition check_address_matched :: "('n, 'm, 'r, 's, 'x) acl_lib \<Rightarrow> ('r, 's, 'x) Rules \<Rightarrow> Address \<Rightarrow> bool" where
  "check_address_matched A rules addr =
     (case addr of
        SocketAddress saddr \<Rightarrow> check_ip_matched A rules saddr
      | DomainNameAddress domain _ \<Rightarrow> check_host_matched A rules domain)"

section \<open>The parser\<close>

record ('r, 's, 'x) AccessControl =
  acl_outbound_block :: "('r, 's, 'x) Rules"
  acl_black_list :: "('r, 's, 'x) Rules"
  acl_white_list :: "('r, 's, 'x) Rules"
  acl_mode :: acl_mode

text \<open>
  The state of the loop over the lines. The three mutable references of the source select the
  section that receives the next network of a family, or the next regular expression.
\<close>

datatype acl_section = OutboundBlock | Bypass | Proxy

record ('r, 's) acl_parser =
  ap_mode :: acl_mode
  ap_ipv4 :: "acl_section \<Rightarrow> 'r"
  ap_ipv6 :: "acl_section \<Rightarrow> 's"
  ap_rules :: "acl_section \<Rightarrow> string list"
  curr_ipv4 :: acl_section
  curr_ipv6 :: acl_section
  curr_rules :: acl_section

definition acl_parser_init :: "('n, 'm, 'r, 's, 'x) acl_lib \<Rightarrow> ('r, 's) acl_parser" where
  "acl_parser_init A =
     \<lparr>ap_mode = BlackList, ap_ipv4 = (\<lambda>_. range_new (v4_ops A)), ap_ipv6 = (\<lambda>_. range_new (v6_ops A)),
      ap_rules = (\<lambda>_. []), curr_ipv4 = Bypass, curr_ipv6 = Bypass, curr_rules = Proxy\<rparr>"

definition add_ipv4 :: "('n, 'm, 'r, 's, 'x) acl_lib \<Rightarrow> 'n \<Rightarrow> ('r, 's) acl_parser \<Rightarrow> ('r, 's) acl_parser" where
  "add_ipv4 A net s =
     s\<lparr>ap_ipv4 := (ap_ipv4 s)(curr_ipv4 s := range_add (v4_ops A) (ap_ipv4 s (curr_ipv4 s)) net)\<rparr>"

definition add_ipv6 :: "('n, 'm, 'r, 's, 'x) acl_lib \<Rightarrow> 'm \<Rightarrow> ('r, 's) acl_parser \<Rightarrow> ('r, 's) acl_parser" where
  "add_ipv6 A net s =
     s\<lparr>ap_ipv6 := (ap_ipv6 s)(curr_ipv6 s := range_add (v6_ops A) (ap_ipv6 s (curr_ipv6 s)) net)\<rparr>"

definition push_rule :: "string \<Rightarrow> ('r, 's) acl_parser \<Rightarrow> ('r, 's) acl_parser" where
  "push_rule line s = s\<lparr>ap_rules := (ap_rules s)(curr_rules s := ap_rules s (curr_rules s) @ [line])\<rparr>"

definition select_section :: "acl_section \<Rightarrow> ('r, 's) acl_parser \<Rightarrow> ('r, 's) acl_parser" where
  "select_section c s = s\<lparr>curr_ipv4 := c, curr_ipv6 := c, curr_rules := c\<rparr>"

definition parse_acl_line ::
    "('n, 'm, 'r, 's, 'x) acl_lib \<Rightarrow> string \<Rightarrow> ('r, 's) acl_parser \<Rightarrow> ('r, 's) acl_parser" where
  "parse_acl_line A line s =
     (if line = [] then s
      else if hd line = CHR ''#'' then s
      else if line = ''[reject_all]'' \<or> line = ''[bypass_all]'' then s\<lparr>ap_mode := WhiteList\<rparr>
      else if line = ''[accept_all]'' \<or> line = ''[proxy_all]'' then s\<lparr>ap_mode := BlackList\<rparr>
      else if line = ''[outbound_block_list]'' then select_section OutboundBlock s
      else if line = ''[black_list]'' \<or> line = ''[bypass_list]'' then select_section Bypass s
      else if line = ''[white_list]'' \<or> line = ''[proxy_list]'' then select_section Proxy s
      else
        case parse_ipnet A line of
          Some (NetV4 v4) \<Rightarrow> add_ipv4 A v4 s
        | Some (NetV6 v6) \<Rightarrow> add_ipv6 A v6 s
        | None \<Rightarrow>
            (case parse_ip line of
               Some (IpV4 v4) \<Rightarrow> add_ipv4 A (net_from (v4_ops A) v4) s
             | Some (IpV6 v6) \<Rightarrow> add_ipv6 A (net_from (v6_ops A) v6) s
             | None \<Rightarrow> push_rule line s))"

fun parse_acl_lines ::
    "('n, 'm, 'r, 's, 'x) acl_lib \<Rightarrow> (io_error + string) list \<Rightarrow> ('r, 's) acl_parser \<Rightarrow> io_error + ('r, 's) acl_parser" where
  "parse_acl_lines A [] s = Inr s"
| "parse_acl_lines A (Inl e # lines) s = Inl e"
| "parse_acl_lines A (Inr line # lines) s = parse_acl_lines A lines (parse_acl_line A line s)"

definition regex_error :: "string \<Rightarrow> string \<Rightarrow> io_error" where
  "regex_error sect err = IoError OtherKind (sect @ '' regex error: '' @ err)"

text \<open>The argument is the result of opening the file: an error, or what its lines are read as.\<close>

definition load_from_file ::
    "('n, 'm, 'r, 's, 'x) acl_lib \<Rightarrow> io_error + (io_error + string) list \<Rightarrow> io_error + ('r, 's, 'x) AccessControl" where
  "load_from_file A file =
     bind_res file (\<lambda>lines.
     bind_res (parse_acl_lines A lines (acl_parser_init A)) (\<lambda>s.
     bind_res (map_err (regex_error ''[outbound_block_list]'') (regex_set_new A (ap_rules s OutboundBlock)))
       (\<lambda>outbound_block_regex.
     bind_res (map_err (regex_error ''[black_list] or [bypass_list]'') (regex_set_new A (ap_rules s Bypass)))
       (\<lambda>bypass_regex.
     bind_res (map_err (regex_error ''[white_list] or [proxy_list]'') (regex_set_new A (ap_rules s Proxy)))
       (\<lambda>proxy_regex.
       Inr \<lparr>acl_outbound_block = Rules_new A (ap_ipv4 s OutboundBlock) (ap_ipv6 s OutboundBlock) outbound_block_regex,
            acl_black_list = Rules_new A (ap_ipv4 s Bypass) (ap_ipv6 s Bypass) bypass_regex,
            acl_white_list = Rules_new A (ap_ipv4 s Proxy) (ap_ipv6 s Proxy) proxy_regex,
            acl_mode = ap_mode s\<rparr>)))))"

section \<open>Decisions\<close>

text \<open>The loop over the resolved addresses of a host: \<open>None\<close> when no address decides.\<close>

fun check_resolved ::
    "('n, 'm, 'r, 's, 'x) acl_lib \<Rightarrow> ('r, 's, 'x) AccessControl \<Rightarrow> socket_addr list \<Rightarrow> bool option" where
  "check_resolved A acl [] = None"
| "check_resolved A acl (addr # vaddr) =
     (if check_ip_matched A (acl_black_list acl) addr then Some True
      else if check_ip_matched A (acl_white_list acl) addr then Some False
      else check_resolved A acl vaddr)"

definition acl_default :: "('r, 's, 'x) AccessControl \<Rightarrow> bool" where
  "acl_default acl = (case acl_mode acl of BlackList \<Rightarrow> False | WhiteList \<Rightarrow> True)"

text \<open>\<open>android\<close> is the target platform, \<open>resolve\<close> the resolver of the context.\<close>

definition acl_check_target_bypassed ::
    "('n, 'm, 'r, 's, 'x) acl_lib \<Rightarrow> bool \<Rightarrow> (string \<Rightarrow> u16 \<Rightarrow> io_error + socket_addr list) \<Rightarrow>
     ('r, 's, 'x) AccessControl \<Rightarrow> Address \<Rightarrow> bool" where
  "acl_check_target_bypassed A android resolve acl addr =
     (if android \<and> Address_port addr = 53 then False
      else if check_address_matched A (acl_black_list acl) addr then True
      else if check_address_matched A (acl_white_list acl) addr then False
      else
        case (if android then None
              else case addr of
                     DomainNameAddress host port \<Rightarrow>
                       (case resolve host port of Inr vaddr \<Rightarrow> check_resolved A acl vaddr | Inl _ \<Rightarrow> None)
                   | SocketAddress _ \<Rightarrow> None) of
          Some b \<Rightarrow> b
        | None \<Rightarrow> acl_default acl)"

definition acl_check_client_blocked ::
    "('n, 'm, 'r, 's, 'x) acl_lib \<Rightarrow> ('r, 's, 'x) AccessControl \<Rightarrow> socket_addr \<Rightarrow> bool" where
  "acl_check_client_blocked A acl addr =
     (case acl_mode acl of
        BlackList \<Rightarrow> check_ip_matched A (acl_black_list acl) addr
      | WhiteList \<Rightarrow> \<not> check_ip_matched A (acl_white_list acl) addr)"

definition acl_check_outbound_blocked ::
    "('n, 'm, 'r, 's, 'x) acl_lib \<Rightarrow> ('r, 's, 'x) AccessControl \<Rightarrow> Address \<Rightarrow> bool" where
  "acl_check_outbound_blocked A acl outbound = check_address_matched A (acl_outbound_block acl) outbound"

definition acl_check_resolved_outbound_blocked ::
    "('n, 'm, 'r, 's, 'x) acl_lib \<Rightarrow> ('r, 's, 'x) AccessControl \<Rightarrow> socket_addr \<Rightarrow> bool" where
  "acl_check_resolved_outbound_blocked A acl outbound = check_ip_matched A (acl_outbound_block acl) outbound"
section \<open>What an ACL file means\<close>

text \<open>
  A declarative reading of a file. A line is ignored, sets the mode, opens a section or is a rule of the
  section that is open. The networks that precede every header count for \<^verbatim>\<open>bypass_list\<close> and the regular
  expressions that precede every header count for \<^verbatim>\<open>proxy_list\<close>.
\<close>

definition ignored_line :: "string \<Rightarrow> bool" where
  "ignored_line l \<longleftrightarrow> l = [] \<or> hd l = CHR ''#''"

definition mode_header :: "string \<Rightarrow> acl_mode option" where
  "mode_header l =
     (if l = ''[reject_all]'' \<or> l = ''[bypass_all]'' then Some WhiteList
      else if l = ''[accept_all]'' \<or> l = ''[proxy_all]'' then Some BlackList else None)"

definition section_header :: "string \<Rightarrow> acl_section option" where
  "section_header l =
     (if l = ''[outbound_block_list]'' then Some OutboundBlock
      else if l = ''[black_list]'' \<or> l = ''[bypass_list]'' then Some Bypass
      else if l = ''[white_list]'' \<or> l = ''[proxy_list]'' then Some Proxy else None)"

primrec rules_in :: "acl_section \<Rightarrow> acl_section \<Rightarrow> string list \<Rightarrow> string list" where
  "rules_in c cur [] = []"
| "rules_in c cur (l # ls) =
     (if ignored_line l \<or> mode_header l \<noteq> None then rules_in c cur ls
      else case section_header l of
             Some cur' \<Rightarrow> rules_in c cur' ls
           | None \<Rightarrow> (if c = cur then [l] else []) @ rules_in c cur ls)"

primrec last_mode :: "acl_mode \<Rightarrow> string list \<Rightarrow> acl_mode" where
  "last_mode m [] = m"
| "last_mode m (l # ls) =
     last_mode (if ignored_line l then m else case mode_header l of Some m' \<Rightarrow> m' | None \<Rightarrow> m) ls"

definition host_rule :: "('n, 'm, 'r, 's, 'x) acl_lib \<Rightarrow> string \<Rightarrow> bool" where
  "host_rule A l \<longleftrightarrow> parse_ipnet A l = None \<and> parse_ip l = None"

definition rule_has_ip ::
    "('n, 'm, 'r, 's, 'x) acl_lib \<Rightarrow> ('n \<Rightarrow> ipv4_addr \<Rightarrow> bool) \<Rightarrow> ('m \<Rightarrow> ipv6_addr \<Rightarrow> bool) \<Rightarrow> string \<Rightarrow> ip_addr \<Rightarrow> bool" where
  "rule_has_ip A has4 has6 l ip =
     (case parse_ipnet A l of
        Some (NetV4 n) \<Rightarrow> (case ip of IpV4 a \<Rightarrow> has4 n a | IpV6 _ \<Rightarrow> False)
      | Some (NetV6 n) \<Rightarrow> (case ip of IpV6 a \<Rightarrow> has6 n a | IpV4 _ \<Rightarrow> False)
      | None \<Rightarrow> parse_ip l = Some ip)"

definition ip_listed ::
    "('n, 'm, 'r, 's, 'x) acl_lib \<Rightarrow> ('n \<Rightarrow> ipv4_addr \<Rightarrow> bool) \<Rightarrow> ('m \<Rightarrow> ipv6_addr \<Rightarrow> bool) \<Rightarrow> acl_section \<Rightarrow> string list \<Rightarrow>
     ip_addr \<Rightarrow> bool" where
  "ip_listed A has4 has6 c ls ip \<longleftrightarrow> (\<exists>l \<in> set (rules_in c Bypass ls). rule_has_ip A has4 has6 l ip)"

definition host_listed ::
    "('n, 'm, 'r, 's, 'x) acl_lib \<Rightarrow> (string \<Rightarrow> string \<Rightarrow> bool) \<Rightarrow> acl_section \<Rightarrow> string list \<Rightarrow> string \<Rightarrow> bool" where
  "host_listed A matches c ls host \<longleftrightarrow> (\<exists>l \<in> set (rules_in c Proxy ls). host_rule A l \<and> matches l host)"

text \<open>
  What the libraries document: a range contains the addresses of the networks added to it,
  simplifying it keeps them, the network of an address is the address alone, and a set of regular
  expressions matches when one of them does.
\<close>

definition ip_range_ok :: "('a, 'n, 'r) ip_range_ops \<Rightarrow> ('n \<Rightarrow> 'a \<Rightarrow> bool) \<Rightarrow> bool" where
  "ip_range_ok R has \<longleftrightarrow>
     (\<forall>a. \<not> range_contains R (range_new R) a)
   \<and> (\<forall>r n a. range_contains R (range_add R r n) a \<longleftrightarrow> has n a \<or> range_contains R r a)
   \<and> (\<forall>r a. range_contains R (range_simplify R r) a = range_contains R r a)
   \<and> (\<forall>a b. has (net_from R a) b \<longleftrightarrow> a = b)"

definition acl_lib_ok ::
    "('n, 'm, 'r, 's, 'x) acl_lib \<Rightarrow> ('n \<Rightarrow> ipv4_addr \<Rightarrow> bool) \<Rightarrow> ('m \<Rightarrow> ipv6_addr \<Rightarrow> bool) \<Rightarrow> (string \<Rightarrow> string \<Rightarrow> bool) \<Rightarrow> bool" where
  "acl_lib_ok A has4 has6 matches \<longleftrightarrow>
     ip_range_ok (v4_ops A) has4 \<and> ip_range_ok (v6_ops A) has6
   \<and> (\<forall>ps x s. regex_set_new A ps = Inr x \<longrightarrow> (regex_is_match A x s \<longleftrightarrow> (\<exists>p \<in> set ps. matches p s)))"

definition add_rule :: "('n, 'm, 'r, 's, 'x) acl_lib \<Rightarrow> string \<Rightarrow> ('r, 's) acl_parser \<Rightarrow> ('r, 's) acl_parser" where
  "add_rule A line s =
     (case parse_ipnet A line of
        Some (NetV4 v4) \<Rightarrow> add_ipv4 A v4 s
      | Some (NetV6 v6) \<Rightarrow> add_ipv6 A v6 s
      | None \<Rightarrow>
          (case parse_ip line of
             Some (IpV4 v4) \<Rightarrow> add_ipv4 A (net_from (v4_ops A) v4) s
           | Some (IpV6 v6) \<Rightarrow> add_ipv6 A (net_from (v6_ops A) v6) s
           | None \<Rightarrow> push_rule line s))"

lemma parse_acl_line_cases:
  "parse_acl_line A l s =
     (if ignored_line l then s
      else case mode_header l of
             Some m \<Rightarrow> s\<lparr>ap_mode := m\<rparr>
           | None \<Rightarrow> (case section_header l of Some c \<Rightarrow> select_section c s | None \<Rightarrow> add_rule A l s))"
  by (simp add: parse_acl_line_def ignored_line_def mode_header_def section_header_def add_rule_def)

lemma add_rule_simps:
  "ap_mode (add_rule A l s) = ap_mode s" "curr_ipv4 (add_rule A l s) = curr_ipv4 s"
  "curr_ipv6 (add_rule A l s) = curr_ipv6 s" "curr_rules (add_rule A l s) = curr_rules s"
  by (simp_all add: add_rule_def add_ipv4_def add_ipv6_def push_rule_def
      split: option.splits ip_net.splits ip_addr.splits)

lemma add_rule_rules:
  "ap_rules (add_rule A l s) c = ap_rules s c @ filter (host_rule A) (if c = curr_rules s then [l] else [])"
  by (simp add: add_rule_def add_ipv4_def add_ipv6_def push_rule_def host_rule_def
      split: option.splits ip_net.splits ip_addr.splits)

lemma add_rule_v4:
  assumes "ip_range_ok (v4_ops A) has4"
  shows "range_contains (v4_ops A) (ap_ipv4 (add_rule A l s) c) a \<longleftrightarrow>
           range_contains (v4_ops A) (ap_ipv4 s c) a \<or> c = curr_ipv4 s \<and> rule_has_ip A has4 has6 l (IpV4 a)"
  using assms
  by (auto simp: add_rule_def add_ipv4_def add_ipv6_def push_rule_def rule_has_ip_def ip_range_ok_def
      split: option.splits ip_net.splits ip_addr.splits)

lemma add_rule_v6:
  assumes "ip_range_ok (v6_ops A) has6"
  shows "range_contains (v6_ops A) (ap_ipv6 (add_rule A l s) c) a \<longleftrightarrow>
           range_contains (v6_ops A) (ap_ipv6 s c) a \<or> c = curr_ipv6 s \<and> rule_has_ip A has4 has6 l (IpV6 a)"
  using assms
  by (auto simp: add_rule_def add_ipv4_def add_ipv6_def push_rule_def rule_has_ip_def ip_range_ok_def
      split: option.splits ip_net.splits ip_addr.splits)

lemma parse_acl_lines_mode:
  "parse_acl_lines A (map Inr ls) s = Inr s' \<Longrightarrow> ap_mode s' = last_mode (ap_mode s) ls"
  by (induction ls arbitrary: s)
     (auto simp: parse_acl_line_cases add_rule_simps select_section_def split: option.splits if_splits)

lemma parse_acl_lines_rules:
  "parse_acl_lines A (map Inr ls) s = Inr s' \<Longrightarrow>
     ap_rules s' c = ap_rules s c @ filter (host_rule A) (rules_in c (curr_rules s) ls)"
  by (induction ls arbitrary: s)
     (auto simp: parse_acl_line_cases add_rule_simps add_rule_rules select_section_def split: option.splits if_splits)

lemma parse_acl_lines_v4:
  assumes "ip_range_ok (v4_ops A) has4"
  shows "parse_acl_lines A (map Inr ls) s = Inr s' \<Longrightarrow>
     range_contains (v4_ops A) (ap_ipv4 s' c) a \<longleftrightarrow> range_contains (v4_ops A) (ap_ipv4 s c) a
       \<or> (\<exists>l \<in> set (rules_in c (curr_ipv4 s) ls). rule_has_ip A has4 has6 l (IpV4 a))"
proof (induction ls arbitrary: s)
  case (Cons l ls)
  then show ?case
    using Cons.IH [of "parse_acl_line A l s"] add_rule_v4 [OF assms, of l s c a has6]
    by (auto simp: parse_acl_line_cases add_rule_simps select_section_def split: option.splits if_splits)
qed simp

lemma parse_acl_lines_v6:
  assumes "ip_range_ok (v6_ops A) has6"
  shows "parse_acl_lines A (map Inr ls) s = Inr s' \<Longrightarrow>
     range_contains (v6_ops A) (ap_ipv6 s' c) a \<longleftrightarrow> range_contains (v6_ops A) (ap_ipv6 s c) a
       \<or> (\<exists>l \<in> set (rules_in c (curr_ipv6 s) ls). rule_has_ip A has4 has6 l (IpV6 a))"
proof (induction ls arbitrary: s)
  case (Cons l ls)
  then show ?case
    using Cons.IH [of "parse_acl_line A l s"] add_rule_v6 [OF assms, of l s c a has4]
    by (auto simp: parse_acl_line_cases add_rule_simps select_section_def split: option.splits if_splits)
qed simp

primrec acl_rules :: "acl_section \<Rightarrow> ('r, 's, 'x) AccessControl \<Rightarrow> ('r, 's, 'x) Rules" where
  "acl_rules OutboundBlock acl = acl_outbound_block acl"
| "acl_rules Bypass acl = acl_black_list acl"
| "acl_rules Proxy acl = acl_white_list acl"

lemma parse_acl_lines_ok: "\<exists>s'. parse_acl_lines A (map Inr ls) s = Inr s'"
  by (induction ls arbitrary: s) simp_all

lemma load_from_file_Inr:
  assumes "load_from_file A (Inr (map Inr ls)) = Inr acl"
  obtains s where "parse_acl_lines A (map Inr ls) (acl_parser_init A) = Inr s" "acl_mode acl = ap_mode s"
    "\<And>c. rules_ipv4 (acl_rules c acl) = range_simplify (v4_ops A) (ap_ipv4 s c)"
    "\<And>c. rules_ipv6 (acl_rules c acl) = range_simplify (v6_ops A) (ap_ipv6 s c)"
    "\<And>c. regex_set_new A (ap_rules s c) = Inr (rules_rule (acl_rules c acl))"
proof -
  obtain s where s: "parse_acl_lines A (map Inr ls) (acl_parser_init A) = Inr s" using parse_acl_lines_ok by blast
  obtain x y z where r: "regex_set_new A (ap_rules s OutboundBlock) = Inr x" "regex_set_new A (ap_rules s Bypass) = Inr y"
      "regex_set_new A (ap_rules s Proxy) = Inr z"
    using assms s unfolding load_from_file_def
    by (cases "regex_set_new A (ap_rules s OutboundBlock)"; cases "regex_set_new A (ap_rules s Bypass)";
        cases "regex_set_new A (ap_rules s Proxy)") simp_all
  show thesis
  proof (rule that [OF s])
    show "acl_mode acl = ap_mode s" using assms s r by (auto simp: load_from_file_def)
    fix c
    show "rules_ipv4 (acl_rules c acl) = range_simplify (v4_ops A) (ap_ipv4 s c)"
      "rules_ipv6 (acl_rules c acl) = range_simplify (v6_ops A) (ap_ipv6 s c)"
      "regex_set_new A (ap_rules s c) = Inr (rules_rule (acl_rules c acl))"
      using assms s r by (cases c; auto simp: load_from_file_def Rules_new_def)+
  qed
qed

text \<open>The rules of a loaded file match what the file lists.\<close>

lemma loaded_ip:
  assumes A: "acl_lib_ok A has4 has6 matches" and "load_from_file A (Inr (map Inr ls)) = Inr acl"
  shows "check_ip_matched A (acl_rules c acl) sa \<longleftrightarrow> ip_listed A has4 has6 c ls (sock_ip sa)"
proof -
  obtain s where s: "parse_acl_lines A (map Inr ls) (acl_parser_init A) = Inr s"
    "rules_ipv4 (acl_rules c acl) = range_simplify (v4_ops A) (ap_ipv4 s c)"
    "rules_ipv6 (acl_rules c acl) = range_simplify (v6_ops A) (ap_ipv6 s c)"
    using load_from_file_Inr [OF assms(2)] by metis
  have R: "ip_range_ok (v4_ops A) has4" "ip_range_ok (v6_ops A) has6" using A by (simp_all add: acl_lib_ok_def)
  show ?thesis
  proof (cases "sock_ip sa")
    case (IpV4 a)
    with s R(1) parse_acl_lines_v4 [OF R(1) s(1), of c a has6] show ?thesis
      by (simp add: check_ip_matched_def ip_listed_def acl_parser_init_def ip_range_ok_def)
  next
    case (IpV6 a)
    with s R(2) parse_acl_lines_v6 [OF R(2) s(1), of c a has4] show ?thesis
      by (simp add: check_ip_matched_def ip_listed_def acl_parser_init_def ip_range_ok_def)
  qed
qed

lemma loaded_host:
  assumes "acl_lib_ok A has4 has6 matches" and "load_from_file A (Inr (map Inr ls)) = Inr acl"
  shows "check_host_matched A (acl_rules c acl) host \<longleftrightarrow> host_listed A matches c ls host"
proof -
  obtain s where "parse_acl_lines A (map Inr ls) (acl_parser_init A) = Inr s"
    "regex_set_new A (ap_rules s c) = Inr (rules_rule (acl_rules c acl))"
    using load_from_file_Inr [OF assms(2)] by metis
  then show ?thesis
    using assms(1) parse_acl_lines_rules [of A ls "acl_parser_init A" s c]
    by (auto simp: check_host_matched_def host_listed_def acl_lib_ok_def acl_parser_init_def)
qed

lemma loaded_mode:
  "load_from_file A (Inr (map Inr ls)) = Inr acl \<Longrightarrow> acl_mode acl = last_mode BlackList ls"
  using parse_acl_lines_mode [of A ls "acl_parser_init A"]
  by (auto elim!: load_from_file_Inr simp: acl_parser_init_def)

section \<open>Properties\<close>

text \<open>
  C10. The decisions of a loaded ACL are those of the file's text. A client is blocked when its address
  is listed in the black list, or in reject-all mode when it is not listed in the white list;
  an outbound address is blocked when it is listed in the outbound section; a target address is
  bypassed when it is listed for bypassing, or in bypass-all mode when it is not listed for proxying. The
  last mode header of the file counts, and a file without one accepts and proxies everything.
\<close>

theorem acl_file_semantics:
  assumes "acl_lib_ok A has4 has6 matches" and "load_from_file A (Inr (map Inr ls)) = Inr acl"
  shows "(acl_check_client_blocked A acl sa \<longleftrightarrow>
            (case last_mode BlackList ls of
               BlackList \<Rightarrow> ip_listed A has4 has6 Bypass ls (sock_ip sa)
             | WhiteList \<Rightarrow> \<not> ip_listed A has4 has6 Proxy ls (sock_ip sa)))
       \<and> (acl_check_resolved_outbound_blocked A acl sa \<longleftrightarrow> ip_listed A has4 has6 OutboundBlock ls (sock_ip sa))
       \<and> (acl_check_outbound_blocked A acl (DomainNameAddress host port) \<longleftrightarrow> host_listed A matches OutboundBlock ls host)
       \<and> (acl_check_target_bypassed A False resolve acl (SocketAddress sa) \<longleftrightarrow>
            ip_listed A has4 has6 Bypass ls (sock_ip sa)
            \<or> (last_mode BlackList ls = WhiteList \<and> \<not> ip_listed A has4 has6 Proxy ls (sock_ip sa)))"
  using loaded_ip [OF assms, of Bypass sa] loaded_ip [OF assms, of Proxy sa] loaded_ip [OF assms, of OutboundBlock sa]
    loaded_host [OF assms, of OutboundBlock host] loaded_mode [OF assms(2)]
  by (auto simp: acl_check_client_blocked_def acl_check_resolved_outbound_blocked_def acl_check_outbound_blocked_def
      acl_check_target_bypassed_def check_address_matched_def acl_default_def split: acl_mode.splits)

definition sample_range_ops :: "('a, 'a, 'a list) ip_range_ops" where
  "sample_range_ops =
     \<lparr>net_from = (\<lambda>a. a), range_new = [], range_add = (\<lambda>r n. n # r), range_simplify = (\<lambda>r. r),
      range_contains = (\<lambda>r a. a \<in> set r)\<rparr>"

definition sample_acl_lib :: "(ipv4_addr, ipv6_addr, ipv4_addr list, ipv6_addr list, string list) acl_lib" where
  "sample_acl_lib =
     \<lparr>v4_ops = sample_range_ops, v6_ops = sample_range_ops,
      parse_ipnet = (\<lambda>s. if s = ''10.0.0.1'' then Some (NetV4 (Ipv4Addr 10 0 0 1)) else None),
      regex_set_new = Inr, regex_is_match = (\<lambda>ps s. s \<in> set ps)\<rparr>"

lemma sample_acl_lib_ok: "acl_lib_ok sample_acl_lib (=) (=) (=)"
  by (auto simp: acl_lib_ok_def ip_range_ok_def sample_acl_lib_def sample_range_ops_def)

definition sample_acl_file :: "string list" where
  "sample_acl_file = [''# local'', ''[accept_all]'', ''[black_list]'', ''10.0.0.1'']"

lemma sample_rules_in: "rules_in Bypass cur sample_acl_file = [''10.0.0.1'']"
    "rules_in Proxy Bypass sample_acl_file = []" "rules_in OutboundBlock cur' sample_acl_file = []"
  by (simp_all add: sample_acl_file_def ignored_line_def mode_header_def section_header_def)

lemma sample_last_mode: "last_mode BlackList sample_acl_file = BlackList"
  by (simp add: sample_acl_file_def ignored_line_def mode_header_def)

theorem acl_file_semantics_witness:
  "\<exists>acl. load_from_file sample_acl_lib (Inr (map Inr sample_acl_file)) = Inr acl
     \<and> acl_check_client_blocked sample_acl_lib acl (SocketAddrV4 (Ipv4Addr 10 0 0 1) 80)
     \<and> \<not> acl_check_client_blocked sample_acl_lib acl (SocketAddrV4 (Ipv4Addr 10 0 0 2) 80)
     \<and> \<not> acl_check_resolved_outbound_blocked sample_acl_lib acl (SocketAddrV4 (Ipv4Addr 10 0 0 1) 80)"
proof -
  obtain s where "parse_acl_lines sample_acl_lib (map Inr sample_acl_file) (acl_parser_init sample_acl_lib) = Inr s"
    using parse_acl_lines_ok by blast
  then have "\<exists>acl. load_from_file sample_acl_lib (Inr (map Inr sample_acl_file)) = Inr acl"
    by (simp add: load_from_file_def) (simp add: sample_acl_lib_def)
  then obtain acl where acl: "load_from_file sample_acl_lib (Inr (map Inr sample_acl_file)) = Inr acl" by blast
  show ?thesis
    using acl acl_file_semantics [OF sample_acl_lib_ok acl, of "SocketAddrV4 (Ipv4Addr 10 0 0 1) 80"]
      acl_file_semantics [OF sample_acl_lib_ok acl, of "SocketAddrV4 (Ipv4Addr 10 0 0 2) 80"]
    by (simp add: sample_last_mode ip_listed_def sample_rules_in rule_has_ip_def) (simp add: sample_acl_lib_def)
qed

text \<open>
  C35. How a target that is a domain name is decided: a regular expression of the bypass list sends it
  directly, else one of the proxy list sends it through the proxy, else the first resolved address
  that either list knows decides, with the bypass list first, and else the mode of the file. A failed
  resolution counts as no addresses.
\<close>

theorem acl_domain_semantics:
  assumes "acl_lib_ok A has4 has6 matches" and "load_from_file A (Inr (map Inr ls)) = Inr acl"
  shows "acl_check_target_bypassed A False resolve acl (DomainNameAddress host port) \<longleftrightarrow>
           (if host_listed A matches Bypass ls host then True
            else if host_listed A matches Proxy ls host then False
            else case find (\<lambda>sa. ip_listed A has4 has6 Bypass ls (sock_ip sa) \<or> ip_listed A has4 has6 Proxy ls (sock_ip sa))
                   (case resolve host port of Inr vaddr \<Rightarrow> vaddr | Inl _ \<Rightarrow> []) of
                   Some sa \<Rightarrow> ip_listed A has4 has6 Bypass ls (sock_ip sa)
                 | None \<Rightarrow> last_mode BlackList ls = WhiteList)"
proof -
  have "check_resolved A acl vs =
      map_option (\<lambda>sa. ip_listed A has4 has6 Bypass ls (sock_ip sa))
        (find (\<lambda>sa. ip_listed A has4 has6 Bypass ls (sock_ip sa) \<or> ip_listed A has4 has6 Proxy ls (sock_ip sa)) vs)" for vs
    using loaded_ip [OF assms(1,2), of Bypass] loaded_ip [OF assms(1,2), of Proxy]
    by (induction vs) simp_all
  then show ?thesis
    using loaded_host [OF assms(1,2), of Bypass host] loaded_host [OF assms(1,2), of Proxy host] loaded_mode [OF assms(2)]
    by (cases "resolve host port")
       (auto simp: acl_check_target_bypassed_def check_address_matched_def acl_default_def
         split: acl_mode.splits option.splits)
qed

theorem acl_domain_semantics_witness:
  "\<exists>acl. load_from_file sample_acl_lib (Inr (map Inr sample_acl_file)) = Inr acl
     \<and> acl_check_target_bypassed sample_acl_lib False (\<lambda>_ p. Inr [SocketAddrV4 (Ipv4Addr 9 9 9 9) p, SocketAddrV4 (Ipv4Addr 10 0 0 1) p])
         acl (DomainNameAddress ''ss.org'' 443)"
proof -
  obtain s where "parse_acl_lines sample_acl_lib (map Inr sample_acl_file) (acl_parser_init sample_acl_lib) = Inr s"
    using parse_acl_lines_ok by blast
  then have "\<exists>acl. load_from_file sample_acl_lib (Inr (map Inr sample_acl_file)) = Inr acl"
    by (simp add: load_from_file_def) (simp add: sample_acl_lib_def)
  then obtain acl where acl: "load_from_file sample_acl_lib (Inr (map Inr sample_acl_file)) = Inr acl" by blast
  have "rules_in Proxy Proxy sample_acl_file = []" "rules_in Bypass Proxy sample_acl_file = [''10.0.0.1'']"
    by (simp_all add: sample_acl_file_def ignored_line_def mode_header_def section_header_def)
  then show ?thesis
    using acl acl_domain_semantics [OF sample_acl_lib_ok acl,
        of "\<lambda>_ p. Inr [SocketAddrV4 (Ipv4Addr 9 9 9 9) p, SocketAddrV4 (Ipv4Addr 10 0 0 1) p]" "''ss.org''" 443]
    by (simp add: sample_last_mode ip_listed_def host_listed_def sample_rules_in rule_has_ip_def)
       (simp add: sample_acl_lib_def host_rule_def)
qed


end
