(* ===== verification/Ipv6_Text.thy ===== *)
theory Ipv6_Text
  imports Net_Addr
begin

text \<open>
  The text of an IPv6 address reads back as the address: for each of the forms that \<^verbatim>\<open>Display\<close> writes
  (a double colon for the longest run of zeros, an embedded IPv4 address, or all eight groups) the
  parser of the standard library recovers the eight segments.
\<close>

section \<open>An IPv6 group is not the start of an IPv4 address\<close>

definition no_dot :: "string \<Rightarrow> bool" where
  "no_dot s \<longleftrightarrow> (case s of [] \<Rightarrow> True | c # _ \<Rightarrow> c \<noteq> CHR ''.'')"

lemma read_number_impl_no_dot:
  assumes "no_dot rest" and "stops 10 rest"
  shows "\<lbrakk>CHR ''.'' \<notin> set w; read_number_impl 10 k lim cnt r (w @ rest) = Some (n, s)\<rbrakk> \<Longrightarrow> no_dot s"
proof (induction w arbitrary: cnt r)
  case Nil
  with assms show ?case
    by (cases rest) (auto simp: no_dot_def stops_def split: if_splits)
next
  case (Cons c w)
  show ?case
  proof (cases "to_digit 10 c")
    case None
    with Cons.prems show ?thesis by (auto simp: no_dot_def split: if_splits)
  next
    case (Some d)
    with Cons.prems show ?thesis by (intro Cons.IH) (auto split: if_splits)
  qed
qed

lemma read_ipv4_no_dot:
  assumes "no_dot rest" and "stops 10 rest" and "CHR ''.'' \<notin> set w"
  shows "read_ipv4_addr (w @ rest) = None"
proof (cases "read_octet (w @ rest)")
  case (Some x)
  obtain b s where x: "x = (b, s)" by (cases x)
  have "no_dot s"
    using Some x read_number_impl_no_dot [OF assms(1,2,3), of 3 256 0 0]
    by (auto simp: read_octet_def read_number_def split: option.splits)
  then show ?thesis
    using Some x by (cases s) (simp_all add: read_ipv4_addr_def no_dot_def)
qed (simp add: read_ipv4_addr_def)

lemma dot_notin_show_radix: "\<lbrakk>2 \<le> r; r \<le> 36\<rbrakk> \<Longrightarrow> CHR ''.'' \<notin> set (show_radix r n)"
proof (induction n rule: less_induct)
  case (less n)
  have d: "digit_char d \<noteq> CHR ''.''" if "d < 36" for d
  proof
    assume "digit_char d = CHR ''.''"
    then have "to_digit 36 (digit_char d) = to_digit 36 CHR ''.''" by simp
    with that show False by (simp add: to_digit_def [of _ "CHR ''.''"])
  qed
  have "n mod r < 36" using less.prems mod_less_divisor [of r n] by linarith
  then have dots: "digit_char (n mod r) \<noteq> CHR ''.''" "n < r \<Longrightarrow> digit_char n \<noteq> CHR ''.''"
    using less.prems d [of "n mod r"] d [of n] by auto
  show ?case
  proof (cases "n < r")
    case True
    with dots(2) show ?thesis by (auto simp: show_radix.simps)
  next
    case False
    then have "n div r < n" using less.prems by (intro div_less_dividend) auto
    then have "CHR ''.'' \<notin> set (show_radix r (n div r))" using less.IH less.prems by blast
    with False dots(1) less.prems show ?thesis by (subst show_radix.simps) auto
  qed
qed

section \<open>Groups\<close>

text \<open>What may follow a sequence of groups: the end, or a colon that does not start another group.\<close>

definition groups_end :: "string \<Rightarrow> bool" where
  "groups_end s \<longleftrightarrow> s = [] \<or> (\<exists>t. s = CHR '':'' # CHR '':'' # t)"

lemma read_number_colon [simp]: "read_number r k lim (CHR '':'' # s) = None" if "r \<le> 36"
  using that by (simp add: read_number_def to_digit_def Let_def)

lemma read_number_Nil [simp]: "read_number r k lim [] = None"
  by (simp add: read_number_def)

lemma read_octet_end [simp]: "read_octet [] = None" "read_octet (CHR '':'' # s) = None"
  by (simp_all add: read_octet_def)

lemma read_ipv4_end [simp]: "read_ipv4_addr [] = None" "read_ipv4_addr (CHR '':'' # s) = None"
  by (simp_all add: read_ipv4_addr_def)

lemma read_seg_show:
  "stops 16 rest \<Longrightarrow> read_number 16 4 65536 (show_seg g @ rest) = Some (unat g, rest)"
  using unat_u16_bound [of g] by (simp add: show_seg_def read_number_show)

lemma read_groups_end: "groups_end s \<Longrightarrow> read_groups k i s = ([], False, s)"
  by (cases k) (auto simp: groups_end_def group_sep_def)

lemma read_group_step:
  assumes "rest = [] \<or> hd rest = CHR '':''"
  shows "read_groups (Suc k) i ((if i = 0 then [] else '':'') @ show_seg g @ rest) =
    (let (gs, v4, s) = read_groups k (Suc i) rest in (g # gs, v4, s))"
proof -
  have rest: "no_dot rest" "stops 10 rest" "stops 16 rest"
    using assms by (cases rest; auto simp: no_dot_def)+
  have v4: "read_ipv4_addr (show_seg g @ rest) = None"
    by (rule read_ipv4_no_dot [OF rest(1,2)]) (simp add: show_seg_def dot_notin_show_radix)
  show ?thesis
    using rest(3) v4 by (simp add: group_sep_def read_seg_show)
qed

lemma read_groups_show:
  assumes "groups_end rest"
  shows "length gs \<le> k \<Longrightarrow> (length gs < k \<or> rest = []) \<Longrightarrow>
    read_groups k i ((if i = 0 \<or> gs = [] then [] else '':'') @ show_groups gs @ rest) = (gs, False, rest)"
proof (induction gs arbitrary: k i)
  case Nil
  with assms show ?case by (simp add: read_groups_end)
next
  case (Cons g gs)
  then obtain k' where k: "k = Suc k'" by (cases k) auto
  have split: "show_groups (g # gs) = show_seg g @ (if gs = [] then [] else '':'') @ show_groups gs"
    by (cases gs) simp_all
  let ?r = "(if gs = [] then [] else '':'') @ show_groups gs @ rest"
  have "?r = [] \<or> hd ?r = CHR '':''"
    using assms by (cases gs) (auto simp: groups_end_def)
  from read_group_step [OF this, of k' i g] Cons.IH [of k' "Suc i"] Cons.prems k show ?case
    by (simp add: split)
qed
section \<open>Addresses\<close>

lemma zero_run_takes: "take (zero_run gs) gs = replicate (zero_run gs) 0"
  by (induction gs) (simp_all add: zero_run_def)

lemma zero_run_le: "zero_run gs \<le> length gs"
  by (simp add: zero_run_def length_takeWhile_le)

lemma find_zero_slice_ok:
  "find_zero_slice i gs = (at, len) \<Longrightarrow> 0 < len \<Longrightarrow>
     \<exists>pre post. gs = pre @ replicate len 0 @ post \<and> at = i + length pre"
proof (induction gs arbitrary: i at len)
  case (Cons g gs)
  obtain at' len' where rec: "find_zero_slice (i + 1) gs = (at', len')" by (cases "find_zero_slice (i + 1) gs")
  let ?r = "zero_run (g # gs)"
  show ?case
  proof (cases "len' \<le> ?r \<and> 0 < ?r")
    case True
    then have "at = i" "len = ?r" using Cons.prems(1) rec by simp_all
    then have "g # gs = [] @ replicate len 0 @ drop ?r (g # gs)"
      using zero_run_takes [of "g # gs"] append_take_drop_id [of ?r "g # gs"] by simp
    with \<open>at = i\<close> show ?thesis by (intro exI [of _ "[]"] exI [of _ "drop ?r (g # gs)"]) simp
  next
    case False
    then have "at = at'" "len = len'" using Cons.prems(1) rec by (auto simp: Let_def split: if_splits)
    with Cons.IH [OF rec] Cons.prems(2) obtain pre post where "gs = pre @ replicate len 0 @ post" "at = i + 1 + length pre"
      by auto
    then show ?thesis by (intro exI [of _ "g # pre"] exI [of _ post]) simp
  qed
qed simp

lemma ipv6_of_segments [simp]: "ipv6_of_list (segments a) = Some a"
  by (cases a) simp

lemma length_segments8: "length (segments a) = 8"
  by (cases a) simp

lemma read_ipv6_compressed:
  assumes gs: "segments a = pre @ replicate len 0 @ post" and len: "1 < len"
  shows "read_ipv6_addr (show_groups pre @ ''::'' @ show_groups post) = Some (a, [])"
proof -
  have n: "length pre + len + length post = 8" using gs length_segments8 [of a] by (metis length_append length_replicate add.assoc)
  have "read_groups 8 0 (show_groups pre @ ''::'' @ show_groups post) = (pre, False, ''::'' @ show_groups post)"
    using read_groups_show [of "''::'' @ show_groups post" pre 8 0] n len by (simp add: groups_end_def)
  moreover have "read_groups (8 - length pre) 0 (show_groups post) = (post, False, [])"
    using read_groups_show [of "[]" post "8 - length pre" 0] n by (simp add: groups_end_def)
  moreover have "8 - length pre - length post = len" "length pre \<noteq> 8" using n len by simp_all
  ultimately show ?thesis
    using gs [symmetric] by (simp add: read_ipv6_addr_def)
qed

lemma read_ipv6_full: "read_ipv6_addr (show_groups (segments a)) = Some (a, [])"
  using read_groups_show [of "[]" "segments a" 8 0] length_segments8 [of a]
  by (simp add: groups_end_def read_ipv6_addr_def)

lemma v4_groups_put:
  "v4_groups (Ipv4Addr (put_u16 g ! 0) (put_u16 g ! 1) (put_u16 h ! 0) (put_u16 h ! 1)) = [g, h]"
  by (simp add: put_u16_def)

lemma read_ipv6_double_colon:
  assumes "read_groups 8 0 s = (gs, b, [])" and "ipv6_of_list (replicate (8 - length gs) 0 @ gs) = Some a"
  shows "read_ipv6_addr (''::'' @ s) = Some (a, [])"
  using assms read_groups_end [of "''::'' @ s" 8 0] by (simp add: read_ipv6_addr_def groups_end_def)

lemma read_groups_v4: "1 < k \<Longrightarrow> read_groups k i ((if i = 0 then [] else '':'') @ show_ipv4 v) = (v4_groups v, True, [])"
  using read_ipv4_show [of "[]" v] by (cases k) (simp_all add: group_sep_def)

lemma read_show_ipv6_v4:
  assumes "segments a = [0, 0, 0, 0, 0, 0, g, h]"
  shows "read_ipv6_addr (''::'' @ show_ipv4 (Ipv4Addr (put_u16 g ! 0) (put_u16 g ! 1) (put_u16 h ! 0) (put_u16 h ! 1))) = Some (a, [])"
proof (rule read_ipv6_double_colon)
  show "read_groups 8 0 (show_ipv4 (Ipv4Addr (put_u16 g ! 0) (put_u16 g ! 1) (put_u16 h ! 0) (put_u16 h ! 1))) = ([g, h], True, [])"
    using read_groups_v4 [of 8 0 "(Ipv4Addr (put_u16 g ! 0) (put_u16 g ! 1) (put_u16 h ! 0) (put_u16 h ! 1))"] unfolding v4_groups_put
    by (simp del: show_ipv4.simps)
  show "ipv6_of_list (replicate (8 - length [g, h]) 0 @ [g, h]) = Some a"
    using ipv6_of_segments [of a] assms by (simp add: eval_nat_numeral)
qed

lemma read_show_ipv6_mapped:
  assumes "segments a = [0, 0, 0, 0, 0, 65535, g, h]"
  shows "read_ipv6_addr (''::ffff:'' @ show_ipv4 (Ipv4Addr (put_u16 g ! 0) (put_u16 g ! 1) (put_u16 h ! 0) (put_u16 h ! 1))) = Some (a, [])"
proof -
  let ?v = "show_ipv4 (Ipv4Addr (put_u16 g ! 0) (put_u16 g ! 1) (put_u16 h ! 0) (put_u16 h ! 1))"
  have ffff: "show_seg 65535 = ''ffff''"
    by (simp add: show_seg_def show_radix.simps digit_char_def char_of_def bit_0)
  have "read_groups 7 1 ('':'' @ ?v) = ([g, h], True, [])"
    using read_groups_v4 [of 7 1 "(Ipv4Addr (put_u16 g ! 0) (put_u16 g ! 1) (put_u16 h ! 0) (put_u16 h ! 1))"] unfolding v4_groups_put
    by (simp del: show_ipv4.simps)
  then have "read_groups (Suc 7) 0 (show_seg 65535 @ '':'' @ ?v) = ([65535, g, h], True, [])"
    using read_group_step [of "'':'' @ ?v" 7 0 65535] by (simp del: read_groups.simps show_ipv4.simps)
  then have "read_groups 8 0 (show_seg 65535 @ '':'' @ ?v) = ([65535, g, h], True, [])"
    by (simp del: show_ipv4.simps)
  moreover have "ipv6_of_list (replicate (8 - length [65535, g, h]) 0 @ [65535, g, h]) = Some a"
    using ipv6_of_segments [of a] assms by (simp add: eval_nat_numeral)
  ultimately have "read_ipv6_addr (''::'' @ show_seg 65535 @ '':'' @ ?v) = Some (a, [])"
    by (rule read_ipv6_double_colon)
  then show ?thesis by (simp add: ffff del: show_ipv4.simps)
qed
lemma segments_expand: "\<exists>b c d e f g h i. segments a = [b, c, d, e, f, g, h, i]"
  by (cases a) simp

text \<open>What is written always reads back, and never reads as an IPv4 address.\<close>

lemma read_ipv6_show: "read_ipv6_addr (show_ipv6 a) = Some (a, [])"
proof -
  obtain b c d e f g h i where seg: "segments a = [b, c, d, e, f, g, h, i]" using segments_expand by blast
  have shown_unspec: "read_ipv6_addr ''::'' = Some (a, [])" if "segments a = [0, 0, 0, 0, 0, 0, 0, 0]"
    using read_ipv6_compressed [of a "[]" 8 "[]"] that by (simp add: eval_nat_numeral)
  have shown_loop: "read_ipv6_addr ''::1'' = Some (a, [])" if "segments a = [0, 0, 0, 0, 0, 0, 0, 1]"
  proof -
    have "show_seg 1 = ''1''" by (simp add: show_seg_def show_radix.simps digit_char_def char_of_def bit_0)
    then show ?thesis using read_ipv6_compressed [of a "[]" 7 "[1]"] that by (simp add: eval_nat_numeral)
  qed
  obtain at len where z: "find_zero_slice 0 (segments a) = (at, len)" by (cases "find_zero_slice 0 (segments a)")
  have shown_run: "read_ipv6_addr (show_groups (take at (segments a)) @ ''::'' @ show_groups (drop (at + len) (segments a))) = Some (a, [])"
    if "1 < len"
  proof -
    obtain pre post where p: "segments a = pre @ replicate len 0 @ post" "at = length pre"
      using find_zero_slice_ok [OF z] \<open>1 < len\<close> by auto
    then show ?thesis using read_ipv6_compressed [OF p(1) that] by simp
  qed
  show ?thesis
    unfolding show_ipv6_def Let_def z prod.case
    using shown_unspec shown_loop shown_run read_ipv6_full [of a] seg
      read_show_ipv6_v4 [of a h i] read_show_ipv6_mapped [of a h i]
    by (simp del: show_ipv4.simps show_groups.simps)
qed

lemma read_ipv4_groups: "1 < length gs \<or> gs \<noteq> [] \<and> rest \<noteq> [] \<and> hd rest = CHR '':'' \<Longrightarrow> read_ipv4_addr (show_groups gs @ rest) = None"
proof -
  assume gs: "1 < length gs \<or> gs \<noteq> [] \<and> rest \<noteq> [] \<and> hd rest = CHR '':''"
  then obtain g r where "show_groups gs @ rest = show_seg g @ CHR '':'' # r"
    by (cases gs rule: show_groups.cases) (auto simp: neq_Nil_conv)
  then show ?thesis
    by (simp add: read_ipv4_no_dot no_dot_def show_seg_def dot_notin_show_radix)
qed

lemma read_ipv4_show_ipv6: "read_ipv4_addr (show_ipv6 a) = None"
proof -
  obtain at len where z: "find_zero_slice 0 (segments a) = (at, len)" by (cases "find_zero_slice 0 (segments a)")
  have "read_ipv4_addr (show_groups gs @ CHR '':'' # s) = None" for gs s
    using read_ipv4_groups [of gs "CHR '':'' # s"] by (cases "gs = []") simp_all
  moreover have "read_ipv4_addr (show_groups (segments a)) = None"
    using read_ipv4_groups [of "segments a" "[]"] by (simp add: length_segments8)
  ultimately show ?thesis
    unfolding show_ipv6_def Let_def z prod.case by (simp del: show_ipv4.simps show_groups.simps)
qed

lemma parse_ipv6_show [simp]: "parse_ipv6 (show_ipv6 a) = Some a"
  by (simp add: parse_ipv6_def read_till_eof_def read_ipv6_show)

lemma parse_ipv4_show_ipv6 [simp]: "parse_ipv4 (show_ipv6 a) = None"
  by (simp add: parse_ipv4_def read_till_eof_def read_ipv4_show_ipv6)

lemma parse_ip_show [simp]: "parse_ip (show_ip ip) = Some ip"
  by (cases ip) (simp_all add: parse_ip_def [of "show_ipv6 _"] read_ipv4_show_ipv6)

text \<open>\<^verbatim>\<open>IpAddr\<close> accepts what one of the two families accepts.\<close>

lemma parse_ip_None: "parse_ip s = None \<Longrightarrow> parse_ipv4 s = None"
  by (auto simp: parse_ip_def parse_ipv4_def read_till_eof_def split: option.splits list.splits)

text \<open>A text that starts with neither a digit nor a colon is no address.\<close>

lemma parse_ip_other:
  assumes "to_digit 10 c = None" and "to_digit 16 c = None" and "c \<noteq> CHR '':''"
  shows "parse_ip (c # s) = None" "parse_ipv4 (c # s) = None" "parse_ipv6 (c # s) = None"
proof -
  have v4: "read_ipv4_addr (c # s) = None"
    using assms(1) by (simp add: read_ipv4_addr_def read_octet_def read_number_def)
  have "read_groups 8 0 (c # s) = ([], False, c # s)"
    using assms v4 by (subst read_groups.simps(2) [of 7, simplified]) (simp add: group_sep_def read_number_def)
  then have "read_ipv6_addr (c # s) = None"
    using assms(3) by (simp add: read_ipv6_addr_def)
  with v4 show "parse_ip (c # s) = None" "parse_ipv4 (c # s) = None" "parse_ipv6 (c # s) = None"
    by (simp_all add: parse_ip_def parse_ipv4_def parse_ipv6_def read_till_eof_def)
qed


end
