(* ===== verification/Config_File.thy ===== *)
theory Config_File
  imports Server_Config Acl Ipv6_Text
begin

text \<open>
  The configuration file, \<^verbatim>\<open>src/config.rs\<close>: the JSON structure \<^verbatim>\<open>SSConfig\<close>, the \<^verbatim>\<open>Config\<close> it is loaded into,
  the checks and the text a configuration is written as. JSON itself is read and written by a
  library. Timeouts are in seconds.
\<close>

section \<open>The JSON structure\<close>

record SSServerExtConfig =
  ext_address :: string
  ext_port :: u16
  ext_password :: string
  ext_method :: string
  ext_plugin :: "string option"
  ext_plugin_opts :: "string option"
  ext_timeout :: "nat option"

record SSConfig =
  ss_server :: "string option"
  ss_server_port :: "u16 option"
  ss_local_address :: "string option"
  ss_local_port :: "u16 option"
  ss_manager_address :: "string option"
  ss_manager_port :: "u16 option"
  ss_password :: "string option"
  ss_method :: "string option"
  ss_plugin :: "string option"
  ss_plugin_opts :: "string option"
  ss_timeout :: "nat option"
  ss_udp_timeout :: "nat option"
  ss_servers :: "SSServerExtConfig list option"
  ss_dns :: "string option"
  ss_mode :: "string option"
  ss_no_delay :: "bool option"
  ss_nofile :: "nat option"

definition SSConfig_default :: SSConfig where
  "SSConfig_default =
     \<lparr>ss_server = None, ss_server_port = None, ss_local_address = None, ss_local_port = None,
      ss_manager_address = None, ss_manager_port = None, ss_password = None, ss_method = None, ss_plugin = None,
      ss_plugin_opts = None, ss_timeout = None, ss_udp_timeout = None, ss_servers = None, ss_dns = None,
      ss_mode = None, ss_no_delay = None, ss_nofile = None\<rparr>"

section \<open>Configurations\<close>

record ('r, 's, 'x) Config =
  cfg_server :: "ServerConfig list"
  cfg_local :: "ServerAddr option"
  cfg_forward :: "Address option"
  cfg_dns :: "string option"
  cfg_mode :: Mode
  cfg_no_delay :: bool
  cfg_manager_address :: "ManagerAddr option"
  cfg_manager_method :: "CipherType option"
  cfg_config_type :: ConfigType
  cfg_udp_timeout :: "nat option"
  cfg_nofile :: "nat option"
  cfg_timeout :: "nat option"
  cfg_acl :: "('r, 's, 'x) AccessControl option"
  cfg_tcp_redir :: RedirType
  cfg_udp_redir :: RedirType
  cfg_stat_path :: "string option"
  cfg_protect_path :: "string option"
  cfg_local_dns_path :: "string option"
  cfg_dns_relay_addr :: "socket_addr option"
  cfg_local_dns_addr :: "socket_addr option"
  cfg_remote_dns_addr :: "socket_addr option"

datatype ErrorKind = MissingField | Malformed | Invalid | JsonParsingError | IoErrorKind

record ConfigError =
  ce_kind :: ErrorKind
  ce_desc :: string
  ce_detail :: "string option"

definition Error_new :: "ErrorKind \<Rightarrow> string \<Rightarrow> string option \<Rightarrow> ConfigError" where
  "Error_new kind desc detail = \<lparr>ce_kind = kind, ce_desc = desc, ce_detail = detail\<rparr>"

definition Error_debug :: "ConfigError \<Rightarrow> string" where
  "Error_debug e = (case ce_detail e of None \<Rightarrow> ce_desc e | Some det \<Rightarrow> ce_desc e @ '' '' @ det)"

definition Error_display :: "ConfigError \<Rightarrow> string" where
  "Error_display e = (case ce_detail e of None \<Rightarrow> ce_desc e | Some d \<Rightarrow> ce_desc e @ '', '' @ d)"

definition Config_new :: "ConfigType \<Rightarrow> ('r, 's, 'x) Config" where
  "Config_new config_type =
     \<lparr>cfg_server = [], cfg_local = None, cfg_forward = None, cfg_dns = None, cfg_mode = TcpOnly, cfg_no_delay = False,
      cfg_manager_address = None, cfg_manager_method = None, cfg_config_type = config_type, cfg_udp_timeout = None,
      cfg_nofile = None, cfg_timeout = None, cfg_acl = None, cfg_tcp_redir = tcp_default, cfg_udp_redir = udp_default,
      cfg_stat_path = None, cfg_protect_path = None, cfg_local_dns_path = None, cfg_dns_relay_addr = None,
      cfg_local_dns_addr = None, cfg_remote_dns_addr = None\<rparr>"

section \<open>Loading\<close>

text \<open>The question mark of Rust, for a function that may also panic.\<close>

definition try_bind :: "('e + 'a) rust \<Rightarrow> ('a \<Rightarrow> ('e + 'b) rust) \<Rightarrow> ('e + 'b) rust" where
  "try_bind m f = rust_bind m (\<lambda>r. case r of Inl e \<Rightarrow> Ret (Inl e) | Inr x \<Rightarrow> f x)"

definition load_local :: "SSConfig \<Rightarrow> ConfigType \<Rightarrow> ConfigError + ServerAddr option" where
  "load_local config config_type =
     (case ss_local_address config of
        None \<Rightarrow> Inr None
      | Some la \<Rightarrow>
          (case ss_local_port config of
             None \<Rightarrow> Inl (Error_new MissingField ''missing `local_port`'' None)
           | Some p \<Rightarrow>
               let port = if is_server config_type then 0 else p
               in Inr (Some (case parse_ip la of
                               Some ip \<Rightarrow> SvrSocketAddr (SocketAddr_new ip port)
                             | None \<Rightarrow> SvrDomainName la port))))"

definition server_addr_of :: "string \<Rightarrow> u16 \<Rightarrow> ServerAddr" where
  "server_addr_of address port =
     (case parse_ipv4 address of
        Some v4 \<Rightarrow> SvrSocketAddr (SocketAddrV4 v4 port)
      | None \<Rightarrow>
          (case parse_ipv6 address of
             Some v6 \<Rightarrow> SvrSocketAddr (SocketAddrV6 v6 port 0 0)
           | None \<Rightarrow> SvrDomainName address port))"

definition unsupported_method :: "string \<Rightarrow> ConfigError" where
  "unsupported_method m = Error_new Invalid ''unsupported method'' (Some (''`'' @ m @ ''` is not a supported method''))"

definition plugin_of :: "string option \<Rightarrow> string option \<Rightarrow> PluginConfig option" where
  "plugin_of plugin opts = map_option (\<lambda>p. \<lparr>pc_plugin = p, pc_plugin_opt = opts\<rparr>) plugin"

definition load_server :: "'c crypto_lib \<Rightarrow> SSConfig \<Rightarrow> (ConfigError + ServerConfig list) rust" where
  "load_server L config =
     (case (ss_server config, ss_server_port config, ss_password config, ss_method config) of
        (Some address, Some port, Some pwd, Some m) \<Rightarrow>
          (let addr = server_addr_of address port in
           case CipherType_from_str m of
             Inl _ \<Rightarrow> Ret (Inl (unsupported_method m))
           | Inr m \<Rightarrow>
               rust_bind (ServerConfig_new L addr pwd m (ss_timeout config) (plugin_of (ss_plugin config) (ss_plugin_opts config)))
                 (\<lambda>nsvr. Ret (Inr [nsvr])))
      | (None, None, None, None) \<Rightarrow> Ret (Inr [])
      | _ \<Rightarrow> Ret (Inl (Error_new Malformed ''`server`, `server_port`, `method`, `password` must be provided together'' None)))"

definition load_ext_server :: "'c crypto_lib \<Rightarrow> nat option \<Rightarrow> SSServerExtConfig \<Rightarrow> (ConfigError + ServerConfig) rust" where
  "load_ext_server L timeout svr =
     (let addr = server_addr_of (ext_address svr) (ext_port svr) in
      case CipherType_from_str (ext_method svr) of
        Inl _ \<Rightarrow> Ret (Inl (unsupported_method (ext_method svr)))
      | Inr m \<Rightarrow>
          rust_bind (ServerConfig_new L addr (ext_password svr) m
                       (case ext_timeout svr of Some t \<Rightarrow> Some t | None \<Rightarrow> timeout)
                       (plugin_of (ext_plugin svr) (ext_plugin_opts svr)))
            (\<lambda>nsvr. Ret (Inr nsvr)))"

fun load_ext_servers ::
    "'c crypto_lib \<Rightarrow> nat option \<Rightarrow> SSServerExtConfig list \<Rightarrow> ServerConfig list \<Rightarrow> (ConfigError + ServerConfig list) rust" where
  "load_ext_servers L timeout [] acc = Ret (Inr acc)"
| "load_ext_servers L timeout (svr # svrs) acc =
     try_bind (load_ext_server L timeout svr) (\<lambda>nsvr. load_ext_servers L timeout svrs (acc @ [nsvr]))"

definition load_manager :: "SSConfig \<Rightarrow> ManagerAddr option" where
  "load_manager config =
     (case ss_manager_address config of
        None \<Rightarrow> None
      | Some ma \<Rightarrow>
          Some (case ss_manager_port config of
                  Some port \<Rightarrow>
                    (case parse_ip ma of
                       Some ip \<Rightarrow> MgrSocketAddr (SocketAddr_new ip port)
                     | None \<Rightarrow> MgrDomainName ma port)
                | None \<Rightarrow> MgrUnixSocketAddr ma))"

definition load_mode :: "SSConfig \<Rightarrow> ConfigError + Mode" where
  "load_mode config =
     (case ss_mode config of
        None \<Rightarrow> Inr TcpOnly
      | Some m \<Rightarrow>
          map_err (\<lambda>_. Error_new Malformed
            ''malformed `mode`, must be one of `tcp_only`, `udp_only` and `tcp_and_udp`'' None) (Mode_from_str m))"

definition load_from_ssconfig ::
    "'c crypto_lib \<Rightarrow> SSConfig \<Rightarrow> ConfigType \<Rightarrow> (ConfigError + ('r, 's, 'x) Config) rust" where
  "load_from_ssconfig L config config_type =
     (let nconfig = Config_new config_type in
      try_bind (Ret (load_local config config_type)) (\<lambda>local.
      let nconfig = (case local of None \<Rightarrow> nconfig | Some _ \<Rightarrow> nconfig\<lparr>cfg_local := local\<rparr>) in
      try_bind (load_server L config) (\<lambda>server.
      try_bind (case ss_servers config of
                  None \<Rightarrow> Ret (Inr server)
                | Some servers \<Rightarrow> load_ext_servers L (ss_timeout config) servers server) (\<lambda>server.
      let nconfig = nconfig\<lparr>cfg_server := server\<rparr>;
          nconfig = nconfig\<lparr>cfg_manager_address := load_manager config\<rparr>;
          nconfig = nconfig\<lparr>cfg_dns := ss_dns config\<rparr> in
      try_bind (Ret (load_mode config)) (\<lambda>mode.
      let nconfig = nconfig\<lparr>cfg_mode := mode\<rparr>;
          nconfig = (case ss_no_delay config of Some b \<Rightarrow> nconfig\<lparr>cfg_no_delay := b\<rparr> | None \<Rightarrow> nconfig)
      in Ret (Inr (nconfig\<lparr>cfg_udp_timeout := ss_udp_timeout config, cfg_nofile := ss_nofile config,
                           cfg_timeout := ss_timeout config\<rparr>)))))))"

text \<open>\<open>from_str\<close> and \<open>to_string\<close> of \<^verbatim>\<open>json5\<close>; an error is shown by its debug text.\<close>

record json_lib =
  json_from_str :: "string \<Rightarrow> string + SSConfig"
  json_to_string :: "SSConfig \<Rightarrow> string + string"

definition load_from_str ::
    "'c crypto_lib \<Rightarrow> json_lib \<Rightarrow> string \<Rightarrow> ConfigType \<Rightarrow> (ConfigError + ('r, 's, 'x) Config) rust" where
  "load_from_str L J s config_type =
     (case json_from_str J s of
        Inl err \<Rightarrow> Ret (Inl (Error_new JsonParsingError ''json parse error'' (Some err)))
      | Inr c \<Rightarrow> load_from_ssconfig L c config_type)"

text \<open>The argument is the outcome of opening and reading the file; an I/O error is shown by its debug text.\<close>

definition config_load_from_file ::
    "'c crypto_lib \<Rightarrow> json_lib \<Rightarrow> string + string \<Rightarrow> ConfigType \<Rightarrow> (ConfigError + ('r, 's, 'x) Config) rust" where
  "config_load_from_file L J content config_type =
     (case content of
        Inl err \<Rightarrow> Ret (Inl (Error_new IoErrorKind ''error while reading file'' (Some err)))
      | Inr s \<Rightarrow> load_from_str L J s config_type)"
section \<open>Checks\<close>

text \<open>The resolver configurations are constructors of the DNS library.\<close>

datatype dns_config =
    DnsGoogle | DnsCloudflare | DnsCloudflareTls | DnsCloudflareHttps | DnsQuad9 | DnsQuad9Tls
  | DnsFromIps "ip_addr list" u16

definition get_dns_config :: "('r, 's, 'x) Config \<Rightarrow> dns_config option" where
  "get_dns_config c =
     Option.bind (cfg_dns c) (\<lambda>ds.
       if ds = ''google'' then Some DnsGoogle
       else if ds = ''cloudflare'' then Some DnsCloudflare
       else if ds = ''cloudflare_tls'' then Some DnsCloudflareTls
       else if ds = ''cloudflare_https'' then Some DnsCloudflareHttps
       else if ds = ''quad9'' then Some DnsQuad9
       else if ds = ''quad9_tls'' then Some DnsQuad9Tls
       else map_option (\<lambda>ip. DnsFromIps [ip] 53) (parse_ip ds))"

definition has_server_plugins :: "('r, 's, 'x) Config \<Rightarrow> bool" where
  "has_server_plugins c = list_ex (\<lambda>server. sc_plugin server \<noteq> None) (cfg_server c)"

definition check_integrity :: "('r, 's, 'x) Config \<Rightarrow> ConfigError + unit" where
  "check_integrity c =
     (if is_local (cfg_config_type c) then
        (if cfg_local c \<noteq> None then Inr ()
         else Inl (Error_new MissingField ''missing `local_address` and `local_port` for client configuration'' None))
      else if is_server (cfg_config_type c) then
        (if cfg_server c \<noteq> [] then Inr ()
         else Inl (Error_new MissingField ''missing any valid servers in configuration'' None))
      else if is_manager (cfg_config_type c) then
        (if cfg_manager_address c \<noteq> None then Inr ()
         else Inl (Error_new MissingField ''missing `manager_address` and `manager_port` in configuration'' None))
      else Inr ())"

section \<open>Writing\<close>

primrec svr_host_text :: "ServerAddr \<Rightarrow> string" where
  "svr_host_text (SvrSocketAddr sa) = show_ip (sock_ip sa)"
| "svr_host_text (SvrDomainName dm _) = dm"

definition ext_of_server :: "ServerConfig \<Rightarrow> SSServerExtConfig" where
  "ext_of_server svr =
     \<lparr>ext_address = svr_host_text (sc_addr svr), ext_port = ServerAddr_port (sc_addr svr),
      ext_password = sc_password svr, ext_method = CipherType_display (sc_method svr),
      ext_plugin = map_option pc_plugin (sc_plugin svr),
      ext_plugin_opts = Option.bind (sc_plugin svr) pc_plugin_opt,
      ext_timeout = sc_timeout svr\<rparr>"

definition ss_of_local :: "ServerAddr option \<Rightarrow> SSConfig \<Rightarrow> SSConfig" where
  "ss_of_local local jconf =
     (case local of
        None \<Rightarrow> jconf
      | Some client \<Rightarrow>
          jconf\<lparr>ss_local_address := Some (svr_host_text client), ss_local_port := Some (ServerAddr_port client)\<rparr>)"

definition ss_of_servers :: "('r, 's, 'x) Config \<Rightarrow> SSConfig \<Rightarrow> SSConfig" where
  "ss_of_servers c jconf =
     (case cfg_server c of
        [] \<Rightarrow> jconf
      | [svr] \<Rightarrow>
          jconf\<lparr>ss_server := Some (svr_host_text (sc_addr svr)),
                ss_server_port := Some (ServerAddr_port (sc_addr svr)),
                ss_method := Some (CipherType_display (sc_method svr)),
                ss_password := Some (sc_password svr),
                ss_plugin := map_option pc_plugin (sc_plugin svr),
                ss_plugin_opts := Option.bind (sc_plugin svr) pc_plugin_opt,
                ss_timeout := (case sc_timeout svr of Some t \<Rightarrow> Some t | None \<Rightarrow> cfg_timeout c)\<rparr>
      | vsvr \<Rightarrow> jconf\<lparr>ss_servers := Some (map ext_of_server vsvr), ss_timeout := cfg_timeout c\<rparr>)"

definition ss_of_manager :: "ManagerAddr option \<Rightarrow> SSConfig \<Rightarrow> SSConfig" where
  "ss_of_manager m jconf =
     (case m of
        None \<Rightarrow> jconf
      | Some ma \<Rightarrow>
          jconf\<lparr>ss_manager_address := Some (case ma of
                   MgrSocketAddr saddr \<Rightarrow> show_ip (sock_ip saddr)
                 | MgrDomainName dname _ \<Rightarrow> dname
                 | MgrUnixSocketAddr path \<Rightarrow> path),
                ss_manager_port := (case ma of
                   MgrSocketAddr saddr \<Rightarrow> Some (sock_port saddr)
                 | MgrDomainName _ port \<Rightarrow> Some port
                 | MgrUnixSocketAddr _ \<Rightarrow> None)\<rparr>)"

definition config_to_ssconfig :: "('r, 's, 'x) Config \<Rightarrow> SSConfig" where
  "config_to_ssconfig c =
     (let jconf = SSConfig_default;
          jconf = ss_of_local (cfg_local c) jconf;
          jconf = ss_of_servers c jconf;
          jconf = ss_of_manager (cfg_manager_address c) jconf;
          jconf = jconf\<lparr>ss_mode := Some (Mode_display (cfg_mode c))\<rparr>;
          jconf = (if cfg_no_delay c then jconf\<lparr>ss_no_delay := Some (cfg_no_delay c)\<rparr> else jconf);
          jconf = (case cfg_dns c of None \<Rightarrow> jconf | Some dns \<Rightarrow> jconf\<lparr>ss_dns := Some dns\<rparr>)
      in jconf\<lparr>ss_udp_timeout := cfg_udp_timeout c, ss_nofile := cfg_nofile c\<rparr>)"

definition Config_display :: "json_lib \<Rightarrow> ('r, 's, 'x) Config \<Rightarrow> string rust" where
  "Config_display J c =
     (case json_to_string J (config_to_ssconfig c) of Inr s \<Rightarrow> Ret s | Inl _ \<Rightarrow> Panic)"

section \<open>Loading a written configuration\<close>

lemma try_bind_simps [simp]:
  "try_bind (Ret (Inr x)) f = f x" "try_bind (Ret (Inl e)) f = Ret (Inl e)" "try_bind Panic f = Panic"
  by (simp_all add: try_bind_def)

lemma try_bind_Inr: "try_bind m f = Ret (Inr y) \<longleftrightarrow> (\<exists>x. m = Ret (Inr x) \<and> f x = Ret (Inr y))"
  by (cases m) (auto simp: try_bind_def split: sum.splits)

text \<open>Server addresses and plugins as the loader builds them.\<close>

definition loaded_addr :: "ServerAddr \<Rightarrow> bool" where
  "loaded_addr a \<longleftrightarrow> (\<exists>address port. a = server_addr_of address port)"

lemma loaded_addr_of [simp]: "loaded_addr (server_addr_of address port)"
  unfolding loaded_addr_def by blast

lemma server_addr_of_text: "loaded_addr a \<Longrightarrow> server_addr_of (svr_host_text a) (ServerAddr_port a) = a"
  by (auto simp: loaded_addr_def server_addr_of_def split: option.splits)

lemma plugin_of_text [simp]: "plugin_of (map_option pc_plugin p) (Option.bind p pc_plugin_opt) = p"
  by (cases p) (simp_all add: plugin_of_def)

text \<open>A server as the loader builds it, and what it is loaded from again.\<close>

definition loaded_server :: "'c crypto_lib \<Rightarrow> ServerConfig \<Rightarrow> bool" where
  "loaded_server L s \<longleftrightarrow> loaded_addr (sc_addr s)
     \<and> ServerConfig_new L (sc_addr s) (sc_password s) (sc_method s) (sc_timeout s) (sc_plugin s) = Ret s"

definition loaded_with :: "'c crypto_lib \<Rightarrow> nat option \<Rightarrow> ServerConfig \<Rightarrow> bool" where
  "loaded_with L t s \<longleftrightarrow> loaded_server L s \<and> (sc_timeout s = None \<longrightarrow> t = None)"

lemma ServerConfig_new_loaded:
  "ServerConfig_new L (server_addr_of a port) pwd m t pl = Ret s \<Longrightarrow> loaded_server L s \<and> sc_timeout s = t"
  by (auto simp: ServerConfig_new_def loaded_server_def rust_bind_Ret_iff)

lemma load_ext_of_server:
  "loaded_with L t s \<Longrightarrow> load_ext_server L t (ext_of_server s) = Ret (Inr s)"
  by (auto simp: load_ext_server_def ext_of_server_def loaded_with_def loaded_server_def server_addr_of_text split: option.splits)

lemma load_ext_servers_of:
  "\<forall>s \<in> set ss. loaded_with L t s \<Longrightarrow>
     load_ext_servers L t (map ext_of_server ss) acc = Ret (Inr (acc @ ss))"
proof (induction ss arbitrary: acc)
  case (Cons s ss)
  then have "load_ext_server L t (ext_of_server s) = Ret (Inr s)" by (intro load_ext_of_server) simp_all
  with Cons show ?case by simp
qed simp

lemma load_ext_server_loaded:
  "load_ext_server L t svr = Ret (Inr s) \<Longrightarrow> loaded_with L t s"
  using ServerConfig_new_loaded
  by (fastforce simp: load_ext_server_def loaded_with_def rust_bind_Ret_iff split: sum.splits option.splits)

lemma load_ext_servers_loaded:
  "load_ext_servers L t svrs acc = Ret (Inr ss) \<Longrightarrow> \<forall>s \<in> set acc. loaded_with L t s \<Longrightarrow>
     \<forall>s \<in> set ss. loaded_with L t s"
proof (induction svrs arbitrary: acc)
  case (Cons svr svrs)
  then obtain s where s: "load_ext_server L t svr = Ret (Inr s)" "load_ext_servers L t svrs (acc @ [s]) = Ret (Inr ss)"
    by (auto simp: try_bind_Inr)
  from Cons.IH [OF s(2)] load_ext_server_loaded [OF s(1)] Cons.prems(2) show ?case by simp
qed simp

lemma load_server_loaded:
  assumes "load_server L config = Ret (Inr ss)"
  shows "\<forall>s \<in> set ss. loaded_with L (ss_timeout config) s"
proof (cases "ss = []")
  case False
  with assms obtain a port pwd m pl s where s: "ss = [s]"
      "ServerConfig_new L (server_addr_of a port) pwd m (ss_timeout config) pl = Ret s"
    by (auto simp: load_server_def rust_bind_Ret_iff Let_def split: option.splits sum.splits)
  with ServerConfig_new_loaded [OF s(2)] show ?thesis by (simp add: loaded_with_def)
qed simp

lemma sock_ip_new [simp]: "sock_ip (SocketAddr_new ip p) = ip" "sock_port (SocketAddr_new ip p) = p"
  by (cases ip; simp)+

text \<open>Every configuration that is loaded, field by field.\<close>

lemma load_from_ssconfig_Inr:
  assumes "load_from_ssconfig L sc ty = Ret (Inr c)"
  obtains m where "load_mode sc = Inr m" "load_local sc ty = Inr (cfg_local c)"
    "\<forall>s \<in> set (cfg_server c). loaded_with L (ss_timeout sc) s"
    "c = (Config_new ty)\<lparr>cfg_local := cfg_local c, cfg_server := cfg_server c, cfg_manager_address := load_manager sc,
        cfg_dns := ss_dns sc, cfg_mode := m, cfg_no_delay := (ss_no_delay sc = Some True),
        cfg_udp_timeout := ss_udp_timeout sc, cfg_nofile := ss_nofile sc, cfg_timeout := ss_timeout sc\<rparr>"
proof -
  obtain local where local: "load_local sc ty = Inr local"
    using assms by (cases "load_local sc ty") (simp_all add: load_from_ssconfig_def Let_def)
  obtain ss0 where ss0: "load_server L sc = Ret (Inr ss0)"
    using assms local by (auto simp: load_from_ssconfig_def Let_def try_bind_Inr)
  obtain ss where ss: "(case ss_servers sc of None \<Rightarrow> Ret (Inr ss0) | Some servers \<Rightarrow> load_ext_servers L (ss_timeout sc) servers ss0) = Ret (Inr ss)"
    using assms local ss0 by (auto simp: load_from_ssconfig_def Let_def try_bind_Inr)
  obtain m where m: "load_mode sc = Inr m"
    using assms local ss0 ss by (cases "load_mode sc") (auto simp: load_from_ssconfig_def Let_def try_bind_Inr)
  have c: "c = (Config_new ty)\<lparr>cfg_local := local, cfg_server := ss, cfg_manager_address := load_manager sc,
        cfg_dns := ss_dns sc, cfg_mode := m, cfg_no_delay := (ss_no_delay sc = Some True),
        cfg_udp_timeout := ss_udp_timeout sc, cfg_nofile := ss_nofile sc, cfg_timeout := ss_timeout sc\<rparr>"
    using assms local ss0 ss m
    by (cases local; cases "ss_no_delay sc") (auto simp: load_from_ssconfig_def Let_def Config_new_def)
  have "\<forall>s \<in> set ss. loaded_with L (ss_timeout sc) s"
    using ss load_server_loaded [OF ss0] load_ext_servers_loaded [of L "ss_timeout sc" _ ss0 ss]
    by (auto split: option.splits)
  with m local c show thesis by (intro that [of m]) simp_all
qed
lemma config_to_ssconfig_fields:
  "ss_local_address (config_to_ssconfig c) = map_option svr_host_text (cfg_local c)"
  "ss_local_port (config_to_ssconfig c) = map_option ServerAddr_port (cfg_local c)"
  "ss_mode (config_to_ssconfig c) = Some (Mode_display (cfg_mode c))"
  "(ss_no_delay (config_to_ssconfig c) = Some True) = cfg_no_delay c"
  "ss_dns (config_to_ssconfig c) = cfg_dns c"
  "ss_udp_timeout (config_to_ssconfig c) = cfg_udp_timeout c"
  "ss_nofile (config_to_ssconfig c) = cfg_nofile c"
  by (simp_all add: config_to_ssconfig_def ss_of_local_def ss_of_servers_def ss_of_manager_def SSConfig_default_def
      Let_def split: option.splits list.splits)

lemma config_to_ssconfig_manager:
  "load_manager (config_to_ssconfig c) = load_manager (ss_of_manager (cfg_manager_address c) SSConfig_default)"
  by (simp add: config_to_ssconfig_def ss_of_local_def ss_of_servers_def ss_of_manager_def SSConfig_default_def
      Let_def load_manager_def split: option.splits list.splits)

lemma load_manager_text:
  "load_manager (ss_of_manager (load_manager sc) SSConfig_default) = load_manager sc"
  by (simp add: load_manager_def ss_of_manager_def SSConfig_default_def split: option.splits)

lemma load_local_text:
  assumes "load_local sc ty = Inr (cfg_local c)"
  shows "load_local (config_to_ssconfig c) ty = Inr (cfg_local c)"
  using assms by (auto simp: load_local_def config_to_ssconfig_fields Let_def split: option.splits)

definition written_timeout :: "('r, 's, 'x) Config \<Rightarrow> nat option" where
  "written_timeout c = (case cfg_server c of [] \<Rightarrow> None | [s] \<Rightarrow> sc_timeout s | _ \<Rightarrow> cfg_timeout c)"

lemma config_to_ssconfig_servers:
  assumes "\<forall>s \<in> set (cfg_server c). loaded_with L (cfg_timeout c) s"
  shows "ss_timeout (config_to_ssconfig c) = written_timeout c
    \<and> try_bind (load_server L (config_to_ssconfig c)) (\<lambda>server.
        case ss_servers (config_to_ssconfig c) of
          None \<Rightarrow> Ret (Inr server)
        | Some servers \<Rightarrow> load_ext_servers L (ss_timeout (config_to_ssconfig c)) servers server) = Ret (Inr (cfg_server c))"
proof -
  note defs = config_to_ssconfig_def ss_of_local_def ss_of_servers_def ss_of_manager_def SSConfig_default_def
    Let_def written_timeout_def
  consider (none) "cfg_server c = []" | (one) s where "cfg_server c = [s]" | (more) s s' ss where "cfg_server c = s # s' # ss"
    by (metis list.exhaust)
  then show ?thesis
  proof cases
    case none
    then show ?thesis by (simp add: defs load_server_def split: option.splits)
  next
    case one
    then have s: "loaded_with L (cfg_timeout c) s" using assms by simp
    have f: "ss_server (config_to_ssconfig c) = Some (svr_host_text (sc_addr s))"
        "ss_server_port (config_to_ssconfig c) = Some (ServerAddr_port (sc_addr s))"
        "ss_method (config_to_ssconfig c) = Some (CipherType_display (sc_method s))"
        "ss_password (config_to_ssconfig c) = Some (sc_password s)"
        "ss_plugin (config_to_ssconfig c) = map_option pc_plugin (sc_plugin s)"
        "ss_plugin_opts (config_to_ssconfig c) = Option.bind (sc_plugin s) pc_plugin_opt"
        "ss_timeout (config_to_ssconfig c) = sc_timeout s" "ss_servers (config_to_ssconfig c) = None"
      using one s by (simp_all add: defs loaded_with_def split: option.splits)
    then show ?thesis
      using s one by (simp add: written_timeout_def load_server_def loaded_with_def loaded_server_def server_addr_of_text Let_def)
  next
    case more
    then have f: "ss_server (config_to_ssconfig c) = None" "ss_server_port (config_to_ssconfig c) = None"
        "ss_method (config_to_ssconfig c) = None" "ss_password (config_to_ssconfig c) = None"
        "ss_timeout (config_to_ssconfig c) = cfg_timeout c"
        "ss_servers (config_to_ssconfig c) = Some (map ext_of_server (cfg_server c))"
      by (simp_all add: defs split: option.splits)
    then show ?thesis
      using load_ext_servers_of [OF assms, of "[]"] more by (simp add: written_timeout_def load_server_def)
  qed
qed

lemma try_bind_assoc: "try_bind (try_bind m f) g = try_bind m (\<lambda>x. try_bind (f x) g)"
  by (cases m) (auto simp: try_bind_def split: sum.splits)

lemma load_from_ssconfig_eq:
  assumes "load_local sc ty = Inr local" and "load_mode sc = Inr m"
    and "try_bind (load_server L sc) (\<lambda>server.
        case ss_servers sc of
          None \<Rightarrow> Ret (Inr server)
        | Some servers \<Rightarrow> load_ext_servers L (ss_timeout sc) servers server) = Ret (Inr ss)"
  shows "load_from_ssconfig L sc ty = Ret (Inr ((Config_new ty)\<lparr>cfg_local := local, cfg_server := ss,
      cfg_manager_address := load_manager sc, cfg_dns := ss_dns sc, cfg_mode := m,
      cfg_no_delay := (ss_no_delay sc = Some True), cfg_udp_timeout := ss_udp_timeout sc,
      cfg_nofile := ss_nofile sc, cfg_timeout := ss_timeout sc\<rparr>))"
proof -
  obtain ss0 where "load_server L sc = Ret (Inr ss0)" "(case ss_servers sc of None \<Rightarrow> Ret (Inr ss0)
      | Some servers \<Rightarrow> load_ext_servers L (ss_timeout sc) servers ss0) = Ret (Inr ss)"
    using assms(3) by (auto simp: try_bind_Inr)
  with assms(1,2) show ?thesis
    by (cases local; cases "ss_no_delay sc") (auto simp: load_from_ssconfig_def Let_def Config_new_def)
qed

lemma reload_written:
  fixes c :: "('r, 's, 'x) Config"
  assumes "load_from_ssconfig L sc ty = Ret (Inr c)"
  shows "load_from_ssconfig L (config_to_ssconfig c) ty = Ret (Inr (c\<lparr>cfg_timeout := written_timeout c\<rparr>))"
proof -
  obtain m where m: "load_mode sc = Inr m" "load_local sc ty = Inr (cfg_local c)"
    "\<forall>s \<in> set (cfg_server c). loaded_with L (ss_timeout sc) s"
    "c = (Config_new ty)\<lparr>cfg_local := cfg_local c, cfg_server := cfg_server c, cfg_manager_address := load_manager sc,
        cfg_dns := ss_dns sc, cfg_mode := m, cfg_no_delay := (ss_no_delay sc = Some True),
        cfg_udp_timeout := ss_udp_timeout sc, cfg_nofile := ss_nofile sc, cfg_timeout := ss_timeout sc\<rparr>"
    by (rule load_from_ssconfig_Inr [OF assms], rule that)
  have f: "cfg_timeout c = ss_timeout sc" "cfg_manager_address c = load_manager sc" "cfg_mode c = m"
    by (subst m(4), simp)+
  have servers: "\<forall>s \<in> set (cfg_server c). loaded_with L (cfg_timeout c) s" using m(3) f by simp
  have mode: "load_mode (config_to_ssconfig c) = Inr (cfg_mode c)"
    by (simp add: load_mode_def config_to_ssconfig_fields)
  note eq = load_from_ssconfig_eq [OF load_local_text [OF m(2)] mode conjunct2 [OF config_to_ssconfig_servers [OF servers]]]
  have "load_manager (config_to_ssconfig c) = cfg_manager_address c"
    by (simp add: config_to_ssconfig_manager f load_manager_text)
  with eq have "load_from_ssconfig L (config_to_ssconfig c) ty =
      Ret (Inr ((Config_new ty :: ('r, 's, 'x) Config)\<lparr>cfg_local := cfg_local c,
      cfg_server := cfg_server c, cfg_manager_address := cfg_manager_address c, cfg_dns := cfg_dns c,
      cfg_mode := cfg_mode c, cfg_no_delay := cfg_no_delay c, cfg_udp_timeout := cfg_udp_timeout c,
      cfg_nofile := cfg_nofile c, cfg_timeout := written_timeout c\<rparr>))"
    using config_to_ssconfig_servers [OF servers] by (simp add: config_to_ssconfig_fields)
  moreover obtain l ss where "c = (Config_new ty)\<lparr>cfg_local := l, cfg_server := ss, cfg_manager_address := load_manager sc,
        cfg_dns := ss_dns sc, cfg_mode := m, cfg_no_delay := (ss_no_delay sc = Some True),
        cfg_udp_timeout := ss_udp_timeout sc, cfg_nofile := ss_nofile sc, cfg_timeout := ss_timeout sc\<rparr>"
    using m(4) by blast
  then have "(Config_new ty :: ('r, 's, 'x) Config)\<lparr>cfg_local := cfg_local c, cfg_server := cfg_server c,
      cfg_manager_address := cfg_manager_address c, cfg_dns := cfg_dns c, cfg_mode := cfg_mode c,
      cfg_no_delay := cfg_no_delay c, cfg_udp_timeout := cfg_udp_timeout c, cfg_nofile := cfg_nofile c,
      cfg_timeout := t\<rparr> = c\<lparr>cfg_timeout := t\<rparr>" for t
    by (simp add: Config_new_def)
  ultimately show ?thesis by simp
qed
section \<open>Properties\<close>

text \<open>
  C15. A configuration that was loaded and is written out loads again, with every field as before except
  the global timeout: with several servers it is kept, with one server it becomes the timeout of
  that server, and without servers it is lost. JSON is assumed to read back what it writes.
\<close>

theorem written_config_reloads:
  assumes "\<forall>sc txt. json_to_string J sc = Inr txt \<longrightarrow> json_from_str J txt = Inr sc"
    and "load_from_str L J s ty = Ret (Inr c)" and "Config_display J c = Ret txt"
  shows "load_from_str L J txt ty = Ret (Inr (c\<lparr>cfg_timeout := written_timeout c\<rparr>))"
proof -
  obtain sc where sc: "load_from_ssconfig L sc ty = Ret (Inr c)"
    using assms(2) by (auto simp: load_from_str_def split: sum.splits)
  have "json_from_str J txt = Inr (config_to_ssconfig c)"
    using assms(1,3) by (auto simp: Config_display_def split: sum.splits)
  then show ?thesis using reload_written [OF sc] by (simp add: load_from_str_def)
qed

text \<open>A JSON library that knows the two structures of an example.\<close>

definition sample_ss :: SSConfig where
  "sample_ss = SSConfig_default\<lparr>ss_local_address := Some ''localhost'', ss_local_port := Some 1080, ss_timeout := Some 60\<rparr>"

definition sample_json :: json_lib where
  "sample_json =
     \<lparr>json_from_str = (\<lambda>s. if s = ''a'' then Inr sample_ss
        else if s = ''b'' then Inr (config_to_ssconfig (((Config_new Socks5Local) :: (unit, unit, unit) Config)\<lparr>cfg_local := Some (SvrDomainName ''localhost'' 1080)\<rparr>))
        else Inl ''unexpected''),
      json_to_string = (\<lambda>sc.
        if sc = config_to_ssconfig (((Config_new Socks5Local) :: (unit, unit, unit) Config)\<lparr>cfg_local := Some (SvrDomainName ''localhost'' 1080)\<rparr>)
        then Inr ''b'' else Inl ''unsupported'')\<rparr>"

lemma parse_ip_localhost: "parse_ip ''localhost'' = None"
  by (rule parse_ip_other) (simp_all add: to_digit_def)

theorem written_config_reloads_witness:
  "\<exists>c :: (unit, unit, unit) Config. load_from_str sample_lib sample_json ''a'' Socks5Local = Ret (Inr c) \<and> cfg_timeout c = Some 60
     \<and> Config_display sample_json c = Ret ''b''
     \<and> load_from_str sample_lib sample_json ''b'' Socks5Local = Ret (Inr (c\<lparr>cfg_timeout := None\<rparr>))"
proof -
  let ?c = "((Config_new Socks5Local) :: (unit, unit, unit) Config)\<lparr>cfg_local := Some (SvrDomainName ''localhost'' 1080), cfg_timeout := Some 60\<rparr>"
  have load: "load_from_str sample_lib sample_json ''a'' Socks5Local = Ret (Inr ?c)"
    by (simp add: load_from_str_def sample_json_def sample_ss_def SSConfig_default_def load_from_ssconfig_def load_local_def
        load_server_def load_manager_def load_mode_def Config_new_def parse_ip_localhost)
  have "config_to_ssconfig ?c = config_to_ssconfig (((Config_new Socks5Local) :: (unit, unit, unit) Config)\<lparr>cfg_local := Some (SvrDomainName ''localhost'' 1080)\<rparr>)"
    by (simp add: config_to_ssconfig_def ss_of_local_def ss_of_servers_def ss_of_manager_def Config_new_def)
  then have display: "Config_display sample_json ?c = Ret ''b''"
    by (simp add: Config_display_def sample_json_def)
  have json: "\<forall>sc txt. json_to_string sample_json sc = Inr txt \<longrightarrow> json_from_str sample_json txt = Inr sc"
    by (auto simp: sample_json_def split: if_splits)
  have "cfg_timeout ?c = Some 60" "written_timeout ?c = None" by (simp_all add: written_timeout_def Config_new_def)
  with load display written_config_reloads [OF json load display] show ?thesis by (intro exI [of _ ?c]) simp
qed

text \<open>
  C36. Exactly which configuration structures are refused: a local address without a port, some but not
  all of \<^verbatim>\<open>server\<close>, \<^verbatim>\<open>server_port\<close>, \<^verbatim>\<open>password\<close> and \<^verbatim>\<open>method\<close>, a method that is not supported for some
  server, or an unknown mode. Everything else is loaded, unless the derivation of a key panics.
\<close>

definition server_fields_ok :: "SSConfig \<Rightarrow> bool" where
  "server_fields_ok sc \<longleftrightarrow>
     (ss_server sc = None \<and> ss_server_port sc = None \<and> ss_password sc = None \<and> ss_method sc = None)
   \<or> (ss_server sc \<noteq> None \<and> ss_server_port sc \<noteq> None \<and> ss_password sc \<noteq> None
      \<and> (case ss_method sc of None \<Rightarrow> False | Some m \<Rightarrow> \<exists>t. CipherType_from_str m = Inr t))"

definition ss_acceptable :: "SSConfig \<Rightarrow> bool" where
  "ss_acceptable sc \<longleftrightarrow>
     (ss_local_address sc \<noteq> None \<longrightarrow> ss_local_port sc \<noteq> None)
   \<and> server_fields_ok sc
   \<and> (\<forall>svr \<in> set (case ss_servers sc of None \<Rightarrow> [] | Some svrs \<Rightarrow> svrs). \<exists>t. CipherType_from_str (ext_method svr) = Inr t)
   \<and> (case ss_mode sc of None \<Rightarrow> True | Some m \<Rightarrow> \<exists>x. Mode_from_str m = Inr x)"

lemma load_local_iff: "(\<exists>l. load_local sc ty = Inr l) \<longleftrightarrow> (ss_local_address sc \<noteq> None \<longrightarrow> ss_local_port sc \<noteq> None)"
  by (auto simp: load_local_def Let_def split: option.splits)

lemma load_mode_iff: "(\<exists>m. load_mode sc = Inr m) \<longleftrightarrow> (case ss_mode sc of None \<Rightarrow> True | Some m \<Rightarrow> \<exists>x. Mode_from_str m = Inr x)"
proof (cases "ss_mode sc")
  case (Some m)
  then show ?thesis by (cases "Mode_from_str m") (auto simp: load_mode_def)
qed (simp add: load_mode_def)

lemma load_server_iff:
  assumes "load_server L sc \<noteq> Panic"
  shows "(\<exists>ss. load_server L sc = Ret (Inr ss)) \<longleftrightarrow> server_fields_ok sc"
proof -
  have "(\<exists>ss. rust_bind x (\<lambda>s. Ret (Inr [s])) = Ret (Inr ss)) \<longleftrightarrow> x \<noteq> Panic" for x :: "ServerConfig rust"
    by (cases x) auto
  with assms show ?thesis
    by (auto simp: load_server_def server_fields_ok_def Let_def split: option.splits sum.splits)
qed

lemma load_ext_servers_iff:
  "load_ext_servers L t svrs acc \<noteq> Panic \<Longrightarrow>
     (\<exists>ss. load_ext_servers L t svrs acc = Ret (Inr ss)) \<longleftrightarrow> (\<forall>svr \<in> set svrs. \<exists>m. CipherType_from_str (ext_method svr) = Inr m)"
proof (induction svrs arbitrary: acc)
  case (Cons svr svrs)
  consider (bad) e where "CipherType_from_str (ext_method svr) = Inl e"
    | (good) m where "CipherType_from_str (ext_method svr) = Inr m"
    by (cases "CipherType_from_str (ext_method svr)")
  then show ?case
  proof cases
    case bad
    then show ?thesis by (simp add: load_ext_server_def)
  next
    case good
    with Cons.prems obtain s where "load_ext_server L t svr = Ret (Inr s)"
      by (cases "load_ext_server L t svr") (auto simp: load_ext_server_def rust_bind_Ret_iff)
    with Cons good show ?thesis by simp
  qed
qed simp



text \<open>The check of a loaded configuration in terms of the structure it was loaded from.\<close>

lemma loaded_config_integrity:
  assumes "load_from_ssconfig L sc ty = Ret (Inr c)"
  shows "check_integrity c = Inr () \<longleftrightarrow>
    (is_local ty \<longrightarrow> ss_local_address sc \<noteq> None) \<and> (is_server ty \<longrightarrow> cfg_server c \<noteq> [])
    \<and> (is_manager ty \<longrightarrow> ss_manager_address sc \<noteq> None)"
proof -
  obtain m where m: "load_local sc ty = Inr (cfg_local c)"
    "c = (Config_new ty)\<lparr>cfg_local := cfg_local c, cfg_server := cfg_server c, cfg_manager_address := load_manager sc,
        cfg_dns := ss_dns sc, cfg_mode := m, cfg_no_delay := (ss_no_delay sc = Some True),
        cfg_udp_timeout := ss_udp_timeout sc, cfg_nofile := ss_nofile sc, cfg_timeout := ss_timeout sc\<rparr>"
    by (rule load_from_ssconfig_Inr [OF assms], rule that)
  have "cfg_config_type c = ty" "cfg_manager_address c = load_manager sc"
    by (subst m(2), simp add: Config_new_def)+
  moreover have "cfg_local c = None \<longleftrightarrow> ss_local_address sc = None"
    using m(1) by (cases "cfg_local c") (auto simp: load_local_def Let_def split: option.splits)
  moreover have "load_manager sc = None \<longleftrightarrow> ss_manager_address sc = None"
    by (simp add: load_manager_def split: option.splits)
  ultimately show ?thesis by (cases ty) (auto simp: check_integrity_def)
qed


end
