(* ===== verification/Flow_Stat.thy ===== *)
theory Flow_Stat
  imports Config_File "HOL-Library.Multiset"
begin

text \<open>
  Traffic counters, \<^verbatim>\<open>src/relay/flow.rs\<close>. The atomic counters are 64 bit words and wrap around; an update
  is one atomic step, so a history of concurrent updates is a sequence of steps.
\<close>

section \<open>Counters\<close>

record FlowStatistic =
  fs_tx :: u64
  fs_rx :: u64

definition FlowStatistic_new :: FlowStatistic where
  "FlowStatistic_new = \<lparr>fs_tx = 0, fs_rx = 0\<rparr>"

definition incr_tx :: "FlowStatistic \<Rightarrow> u64 \<Rightarrow> FlowStatistic" where
  "incr_tx s n = s\<lparr>fs_tx := fs_tx s + n\<rparr>"

definition incr_rx :: "FlowStatistic \<Rightarrow> u64 \<Rightarrow> FlowStatistic" where
  "incr_rx s n = s\<lparr>fs_rx := fs_rx s + n\<rparr>"

record ServerFlowStatistic =
  sfs_tcp :: FlowStatistic
  sfs_udp :: FlowStatistic

definition ServerFlowStatistic_new :: ServerFlowStatistic where
  "ServerFlowStatistic_new = \<lparr>sfs_tcp = FlowStatistic_new, sfs_udp = FlowStatistic_new\<rparr>"

text \<open>The sum wraps around, as in a release build.\<close>

definition trans_stat :: "ServerFlowStatistic \<Rightarrow> u64" where
  "trans_stat s = fs_tx (sfs_tcp s) + fs_rx (sfs_tcp s) + fs_tx (sfs_udp s) + fs_rx (sfs_udp s)"

text \<open>
  The statistics of all servers, by port. Every holder of a server's statistic holds a reference to the
  same counters, which are the entry of the map.
\<close>

type_synonym MultiServerFlowStatistic = "u16 \<rightharpoonup> ServerFlowStatistic"

definition MultiServerFlowStatistic_new :: "('r, 's, 'x) Config \<Rightarrow> MultiServerFlowStatistic" where
  "MultiServerFlowStatistic_new config =
     fold (\<lambda>svr_cfg servers. servers(ServerAddr_port (sc_addr svr_cfg) \<mapsto> ServerFlowStatistic_new)) (cfg_server config) Map.empty"

definition MultiServerFlowStatistic_get :: "MultiServerFlowStatistic \<Rightarrow> u16 \<Rightarrow> ServerFlowStatistic option" where
  "MultiServerFlowStatistic_get m port = m port"

section \<open>Histories\<close>

datatype flow_step = TcpTx u64 | TcpRx u64 | UdpTx u64 | UdpRx u64

primrec flow_apply :: "flow_step \<Rightarrow> ServerFlowStatistic \<Rightarrow> ServerFlowStatistic" where
  "flow_apply (TcpTx n) s = s\<lparr>sfs_tcp := incr_tx (sfs_tcp s) n\<rparr>"
| "flow_apply (TcpRx n) s = s\<lparr>sfs_tcp := incr_rx (sfs_tcp s) n\<rparr>"
| "flow_apply (UdpTx n) s = s\<lparr>sfs_udp := incr_tx (sfs_udp s) n\<rparr>"
| "flow_apply (UdpRx n) s = s\<lparr>sfs_udp := incr_rx (sfs_udp s) n\<rparr>"

primrec step_size :: "flow_step \<Rightarrow> u64" where
  "step_size (TcpTx n) = n" | "step_size (TcpRx n) = n" | "step_size (UdpTx n) = n" | "step_size (UdpRx n) = n"

lemma flow_apply_commute: "flow_apply a (flow_apply b s) = flow_apply b (flow_apply a s)"
  by (cases a; cases b) (simp_all add: incr_tx_def incr_rx_def add.commute add.left_commute)

lemma trans_stat_apply: "trans_stat (flow_apply a s) = trans_stat s + step_size a"
  by (cases a) (simp_all add: trans_stat_def incr_tx_def incr_rx_def)

lemma trans_stat_fold: "trans_stat (fold flow_apply evs s) = trans_stat s + sum_list (map step_size evs)"
  by (induction evs arbitrary: s) (simp_all add: trans_stat_apply add.assoc)

lemma fold_flow_mset: "mset xs = mset ys \<Longrightarrow> fold flow_apply xs = fold flow_apply ys"
  by (rule fold_multiset_equiv) (auto simp: fun_eq_iff flow_apply_commute)

lemma unat_sum_list:
  "sum_list (map unat (ws :: u64 list)) < 2 ^ 64 \<Longrightarrow> unat (sum_list ws) = sum_list (map unat ws)"
proof (induction ws)
  case (Cons w ws)
  then have "unat (sum_list ws) = sum_list (map unat ws)" by simp
  then show ?case using Cons.prems by (simp add: unat_add_lem [THEN iffD1])
qed simp

lemma fold_servers_new:
  "fold (\<lambda>c m. m(f c \<mapsto> v)) cs m p = (if p \<in> f ` set cs then Some v else m p)"
  by (induction cs arbitrary: m) auto

section \<open>Properties\<close>

text \<open>
  C37. Concurrent updates lose no traffic: the counters after a history of updates do not depend on the
  order of the updates, and the total reported to the manager is the number of bytes of all
  updates as long as that number is below \<open>2 ^ 64\<close>.
\<close>

theorem flow_counts_all:
  assumes "mset evs' = mset evs" and "(\<Sum>e \<leftarrow> evs. unat (step_size e)) < 2 ^ 64"
  shows "fold flow_apply evs' ServerFlowStatistic_new = fold flow_apply evs ServerFlowStatistic_new
       \<and> unat (trans_stat (fold flow_apply evs' ServerFlowStatistic_new)) = (\<Sum>e \<leftarrow> evs. unat (step_size e))"
proof -
  have "trans_stat ServerFlowStatistic_new = 0"
    by (simp add: trans_stat_def ServerFlowStatistic_new_def FlowStatistic_new_def)
  then have "unat (trans_stat (fold flow_apply evs ServerFlowStatistic_new)) = (\<Sum>e \<leftarrow> evs. unat (step_size e))"
    using assms(2) unat_sum_list [of "map step_size evs"] by (simp add: trans_stat_fold comp_def)
  then show ?thesis using fold_flow_mset [OF assms(1)] by simp
qed

theorem flow_counts_all_witness:
  "unat (trans_stat (fold flow_apply [UdpRx 5, TcpTx 7] ServerFlowStatistic_new)) = 12"
  using flow_counts_all [of "[UdpRx 5, TcpTx 7]" "[TcpTx 7, UdpRx 5]"] by simp

text \<open>
  Every configured server finds its counters, so the look-ups that expect them never panic.
\<close>

lemma flow_of_every_server:
  "svr \<in> set (cfg_server config) \<Longrightarrow>
     MultiServerFlowStatistic_get (MultiServerFlowStatistic_new config) (ServerAddr_port (sc_addr svr)) = Some ServerFlowStatistic_new"
  by (simp add: MultiServerFlowStatistic_get_def MultiServerFlowStatistic_new_def fold_servers_new)

end
