(* ===== verification/Ss_Context.thy ===== *)
theory Ss_Context
  imports Flow_Stat Nonce_Filter
begin

text \<open>
  The context shared by all tasks of a server, \<^verbatim>\<open>src/context.rs\<close>, and the resolver loops of
  \<^verbatim>\<open>src/relay/dns_resolver/mod.rs\<close>. The resolver itself and the least-recently-used cache are libraries: parameters.
\<close>

section \<open>The context\<close>

record ('k, 'v, 'l) lru_ops =
  lru_with_capacity :: "nat \<Rightarrow> 'l"
  lru_insert :: "'l \<Rightarrow> 'k \<Rightarrow> 'v \<Rightarrow> 'l"
  lru_get :: "'l \<Rightarrow> 'k \<Rightarrow> 'v option \<times> 'l"

record ('b, 'r, 's, 'x, 'l) Context =
  ctx_config :: "('r, 's, 'x) Config"
  ctx_server_running :: bool
  ctx_nonce_ppbloom :: "'b PingPongBloom"
  ctx_local_flow_statistic :: ServerFlowStatistic
  ctx_reverse_lookup_cache :: 'l

definition Context_new ::
    "'b bloom_ops \<Rightarrow> (ip_addr, string, 'l) lru_ops \<Rightarrow> ('r, 's, 'x) Config \<Rightarrow> ('b, 'r, 's, 'x, 'l) Context" where
  "Context_new B C config =
     \<lparr>ctx_config = config, ctx_server_running = True,
      ctx_nonce_ppbloom = PingPongBloom_new B (cfg_config_type config),
      ctx_local_flow_statistic = ServerFlowStatistic_new, ctx_reverse_lookup_cache = lru_with_capacity C 8192\<rparr>"

text \<open>Indexing out of range panics.\<close>

definition ctx_server_config :: "('b, 'r, 's, 'x, 'l) Context \<Rightarrow> nat \<Rightarrow> ServerConfig rust" where
  "ctx_server_config ctx idx =
     (if idx < length (cfg_server (ctx_config ctx)) then Ret (cfg_server (ctx_config ctx) ! idx) else Panic)"

definition set_server_stopped :: "('b, 'r, 's, 'x, 'l) Context \<Rightarrow> ('b, 'r, 's, 'x, 'l) Context" where
  "set_server_stopped ctx = ctx\<lparr>ctx_server_running := False\<rparr>"

definition ctx_check_nonce_and_set ::
    "'b bloom_ops \<Rightarrow> ('b, 'r, 's, 'x, 'l) Context \<Rightarrow> bytes \<Rightarrow> bool \<times> ('b, 'r, 's, 'x, 'l) Context" where
  "ctx_check_nonce_and_set B ctx nonce =
     (let (exist, p) = check_nonce_and_set B (ctx_nonce_ppbloom ctx) nonce in (exist, ctx\<lparr>ctx_nonce_ppbloom := p\<rparr>))"

definition ctx_check_client_blocked ::
    "('n, 'm, 'r, 's, 'x) acl_lib \<Rightarrow> ('b, 'r, 's, 'x, 'l) Context \<Rightarrow> socket_addr \<Rightarrow> bool" where
  "ctx_check_client_blocked A ctx addr =
     (case cfg_acl (ctx_config ctx) of None \<Rightarrow> False | Some a \<Rightarrow> acl_check_client_blocked A a addr)"

definition ctx_check_outbound_blocked ::
    "('n, 'm, 'r, 's, 'x) acl_lib \<Rightarrow> ('b, 'r, 's, 'x, 'l) Context \<Rightarrow> Address \<Rightarrow> bool" where
  "ctx_check_outbound_blocked A ctx addr =
     (case cfg_acl (ctx_config ctx) of None \<Rightarrow> False | Some a \<Rightarrow> acl_check_outbound_blocked A a addr)"

definition ctx_check_resolved_outbound_blocked ::
    "('n, 'm, 'r, 's, 'x) acl_lib \<Rightarrow> ('b, 'r, 's, 'x, 'l) Context \<Rightarrow> socket_addr \<Rightarrow> bool" where
  "ctx_check_resolved_outbound_blocked A ctx addr =
     (case cfg_acl (ctx_config ctx) of None \<Rightarrow> False | Some a \<Rightarrow> acl_check_resolved_outbound_blocked A a addr)"

definition add_to_reverse_lookup_cache ::
    "(ip_addr, string, 'l) lru_ops \<Rightarrow> ('b, 'r, 's, 'x, 'l) Context \<Rightarrow> ip_addr \<Rightarrow> string \<Rightarrow> ('b, 'r, 's, 'x, 'l) Context" where
  "add_to_reverse_lookup_cache C ctx addr qname =
     ctx\<lparr>ctx_reverse_lookup_cache := lru_insert C (ctx_reverse_lookup_cache ctx) addr qname\<rparr>"

text \<open>
  \<open>dns_relay\<close> and \<open>android\<close> are compile-time choices; \<open>resolve\<close> is the resolver.
\<close>

definition ctx_check_target_bypassed ::
    "('n, 'm, 'r, 's, 'x) acl_lib \<Rightarrow> (ip_addr, string, 'l) lru_ops \<Rightarrow> bool \<Rightarrow> bool \<Rightarrow> (string \<Rightarrow> u16 \<Rightarrow> io_error + socket_addr list) \<Rightarrow>
     ('b, 'r, 's, 'x, 'l) Context \<Rightarrow> Address \<Rightarrow> bool \<times> ('b, 'r, 's, 'x, 'l) Context" where
  "ctx_check_target_bypassed A C dns_relay android resolve ctx target =
     (case cfg_acl (ctx_config ctx) of
        None \<Rightarrow> (False, ctx)
      | Some a \<Rightarrow>
          let check = acl_check_target_bypassed A android resolve a;
              (reverse, ctx) =
                (if dns_relay then
                   (case target of
                      SocketAddress saddr \<Rightarrow>
                        (let (qname, cache) = lru_get C (ctx_reverse_lookup_cache ctx) (sock_ip saddr)
                         in (case qname of Some q \<Rightarrow> check (DomainNameAddress q 0) | None \<Rightarrow> False,
                             ctx\<lparr>ctx_reverse_lookup_cache := cache\<rparr>))
                    | _ \<Rightarrow> (False, ctx))
                 else (False, ctx))
          in if reverse then (True, ctx) else (check target, ctx))"

section \<open>Resolving\<close>

text \<open>
  The two macros. \<open>body\<close> tries one address and works on a state \<open>'w\<close>; the result is that of the first
  success, else the last error. An empty list of addresses panics.
\<close>

fun lookup_loop ::
    "(socket_addr \<Rightarrow> 'w \<Rightarrow> (io_error + 'a) \<times> 'w) \<Rightarrow> (io_error + (socket_addr \<times> 'a)) option \<Rightarrow> socket_addr list \<Rightarrow> 'w \<Rightarrow>
     (io_error + (socket_addr \<times> 'a)) option \<times> 'w" where
  "lookup_loop body result [] w = (result, w)"
| "lookup_loop body result (addr # addrs) w =
     (case body addr w of
        (Inr r, w) \<Rightarrow> (Some (Inr (addr, r)), w)
      | (Inl e, w) \<Rightarrow> lookup_loop body (Some (Inl e)) addrs w)"

definition lookup_then ::
    "(string \<Rightarrow> u16 \<Rightarrow> io_error + socket_addr list) \<Rightarrow> string \<Rightarrow> u16 \<Rightarrow> (socket_addr \<Rightarrow> 'w \<Rightarrow> (io_error + 'a) \<times> 'w) \<Rightarrow> 'w \<Rightarrow>
     ((io_error + (socket_addr \<times> 'a)) \<times> 'w) rust" where
  "lookup_then resolve addr port body w =
     (case resolve addr port of
        Inl e \<Rightarrow> Ret (Inl e, w)
      | Inr addrs \<Rightarrow>
          (case lookup_loop body None addrs w of
             (Some result, w) \<Rightarrow> Ret (result, w)
           | (None, w) \<Rightarrow> Panic))"

definition outbound_blocked_error :: "string \<Rightarrow> u16 \<Rightarrow> socket_addr \<Rightarrow> io_error" where
  "outbound_blocked_error addr port resolved =
     IoError OtherKind (''outbound '' @ addr @ '':'' @ show_u16 port @ '' resolved to '' @ show_socket_addr resolved
       @ '' is blocked by ACL rules'')"

definition lookup_outbound_then ::
    "('n, 'm, 'r, 's, 'x) acl_lib \<Rightarrow> ('b, 'r, 's, 'x, 'l) Context \<Rightarrow> (string \<Rightarrow> u16 \<Rightarrow> io_error + socket_addr list) \<Rightarrow>
     string \<Rightarrow> u16 \<Rightarrow> (socket_addr \<Rightarrow> 'w \<Rightarrow> (io_error + 'a) \<times> 'w) \<Rightarrow> 'w \<Rightarrow> ((io_error + (socket_addr \<times> 'a)) \<times> 'w) rust" where
  "lookup_outbound_then A ctx resolve addr port body w =
     lookup_then resolve addr port
       (\<lambda>resolved w. if ctx_check_resolved_outbound_blocked A ctx resolved
                     then (Inl (outbound_blocked_error addr port resolved), w) else body resolved w) w"

text \<open>Binding takes the first address of a domain name; indexing an empty list panics.\<close>

definition resolve_bind_addr ::
    "(string \<Rightarrow> u16 \<Rightarrow> io_error + socket_addr list) \<Rightarrow> ServerAddr \<Rightarrow> (io_error + socket_addr) rust" where
  "resolve_bind_addr resolve addr =
     (case addr of
        SvrSocketAddr a \<Rightarrow> Ret (Inr a)
      | SvrDomainName dname port \<Rightarrow>
          (case resolve dname port of
             Inl e \<Rightarrow> Ret (Inl e)
           | Inr addrs \<Rightarrow> (case addrs of [] \<Rightarrow> Panic | a # _ \<Rightarrow> Ret (Inr a))))"

section \<open>The loop over the addresses\<close>

text \<open>
  Which addresses are tried and how it ends: the addresses before the first success all failed, and the
  result is that success, or the error of the last address.
\<close>

lemma lookup_loop_success:
  "lookup_loop body result addrs w = (Some (Inr (a, r)), w') \<Longrightarrow> (\<forall>x. result \<noteq> Some (Inr x)) \<Longrightarrow>
     a \<in> set addrs \<and> (\<exists>w0 w1. body a w0 = (Inr r, w1))"
proof (induction addrs arbitrary: result w)
  case (Cons b addrs)
  show ?case
  proof (cases "body b w")
    case (Pair res w1)
    with Cons show ?thesis by (cases res) (fastforce split: sum.splits)+
  qed
qed simp

lemma lookup_loop_None: "lookup_loop body result addrs w = (None, w') \<Longrightarrow> addrs = [] \<and> result = None"
proof (induction addrs arbitrary: result w)
  case (Cons b addrs)
  then show ?case by (auto split: sum.splits prod.splits)
qed simp

lemma lookup_then_returns:
  "resolve addr port \<noteq> Inr [] \<Longrightarrow> lookup_then resolve addr port body w \<noteq> Panic"
  using lookup_loop_None [of body None _ w] by (auto simp: lookup_then_def split: sum.splits prod.splits option.splits)

text \<open>An invariant of the state that every attempt keeps holds at the end.\<close>

lemma lookup_loop_inv:
  assumes "\<And>a w. a \<in> set addrs \<Longrightarrow> I w \<Longrightarrow> I (snd (body a w))" and "I w"
  shows "I (snd (lookup_loop body result addrs w))"
  using assms
proof (induction addrs arbitrary: result w)
  case (Cons b addrs)
  then have b: "I (snd (body b w))" by simp
  show ?case
  proof (cases "body b w")
    case (Pair res w1)
    with b Cons.IH [of w1] Cons.prems(1) show ?thesis by (cases res) simp_all
  qed
qed simp

lemma lookup_then_inv:
  assumes "lookup_then resolve addr port body w = Ret (res, w')" and "\<And>a w. I w \<Longrightarrow> I (snd (body a w))" and "I w"
  shows "I w'"
proof (cases "resolve addr port")
  case (Inl e)
  with assms show ?thesis by (simp add: lookup_then_def)
next
  case (Inr addrs)
  with assms(1) have "snd (lookup_loop body None addrs w) = w'"
    by (auto simp: lookup_then_def split: prod.splits option.splits)
  with lookup_loop_inv [of addrs I body w None] assms(2,3) show ?thesis by simp
qed

text \<open>Only addresses that are not blocked reach the body.\<close>

lemma lookup_outbound_inv:
  assumes "lookup_outbound_then A ctx resolve addr port body w = Ret (res, w')"
    and "\<And>a w. \<not> ctx_check_resolved_outbound_blocked A ctx a \<Longrightarrow> I w \<Longrightarrow> I (snd (body a w))" and "I w"
  shows "I w'"
  by (rule lookup_then_inv [where I = I, OF assms(1) [unfolded lookup_outbound_then_def]]) (use assms(2,3) in auto)

text \<open>For an IP address the two checks agree.\<close>

lemma outbound_unblocked_socket:
  "\<not> ctx_check_outbound_blocked A ctx (SocketAddress a) \<Longrightarrow> \<not> ctx_check_resolved_outbound_blocked A ctx a"
  by (auto simp: ctx_check_outbound_blocked_def ctx_check_resolved_outbound_blocked_def acl_check_outbound_blocked_def
      acl_check_resolved_outbound_blocked_def check_address_matched_def split: option.splits)

end
