(* ===== verification/Udp_Relay.thy ===== *)
theory Udp_Relay
  imports Udp_Crypto Ss_Context
begin

text \<open>
  The UDP relay: the SOCKS5 packets of \<^verbatim>\<open>src/relay/udprelay/socks5_local.rs\<close>, the sending and receiving side of
  a local association (\<^verbatim>\<open>association.rs\<close>) and of the client (\<^verbatim>\<open>client.rs\<close>), and the two directions of the
  server (\<^verbatim>\<open>server.rs\<close>). A socket \<open>sock\<close> is a function of a datagram, its destination and the state \<open>'w\<close> of
  the network; it yields the number of bytes sent, or an error, which may be a timeout. \<open>resolve\<close> is
  the resolver and \<open>android\<close> the target platform.
\<close>

section \<open>SOCKS5 packets\<close>

definition parse_packet :: "bytes \<Rightarrow> io_error + (Address \<times> bytes)" where
  "parse_packet pkt =
     (case UdpAssociateHeader_read_from cursor_read_exact pkt of
        Inl e \<Rightarrow> Inl (io_error_from_Socks5Error e)
      | Inr (header, payload) \<Rightarrow>
          if udp_frag header \<noteq> 0 then Inl (IoError OtherKind ''unsupported UDP fragmentation'')
          else Inr (udp_address header, payload))"

definition assemble_packet :: "Address \<Rightarrow> bytes \<Rightarrow> bytes rust" where
  "assemble_packet addr pkt =
     rust_bind (UdpAssociateHeader_write_to_buf \<lparr>udp_frag = 0, udp_address = addr\<rparr> []) (\<lambda>buf. Ret (buf @ pkt))"

section \<open>The local side\<close>

definition MAXIMUM_UDP_PAYLOAD_SIZE :: nat where "MAXIMUM_UDP_PAYLOAD_SIZE = 65536"

type_synonym 'w udp_socket = "bytes \<Rightarrow> socket_addr \<Rightarrow> 'w \<Rightarrow> (io_error + nat) \<times> 'w"

type_synonym resolver = "string \<Rightarrow> u16 \<Rightarrow> io_error + socket_addr list"

text \<open>A datagram to a server that may have to be resolved, and to a target.\<close>

definition send_to_server ::
    "resolver \<Rightarrow> 'w udp_socket \<Rightarrow> ServerAddr \<Rightarrow> bytes \<Rightarrow> 'w \<Rightarrow> ((io_error + nat) \<times> 'w) rust" where
  "send_to_server resolve sock addr dgram w =
     (case addr of
        SvrSocketAddr remote_addr \<Rightarrow> Ret (sock dgram remote_addr w)
      | SvrDomainName dname port \<Rightarrow>
          rust_bind (lookup_then resolve dname port (sock dgram) w) (\<lambda>(res, w). Ret (map_sum id snd res, w)))"

definition send_packet_bypassed ::
    "resolver \<Rightarrow> 'w udp_socket \<Rightarrow> Address \<Rightarrow> bytes \<Rightarrow> 'w \<Rightarrow> ((io_error + unit) \<times> 'w) rust" where
  "send_packet_bypassed resolve sock target payload w =
     rust_bind
       (case target of
          SocketAddress saddr \<Rightarrow> Ret (sock payload saddr w)
        | DomainNameAddress host port \<Rightarrow>
            rust_bind (lookup_then resolve host port (sock payload) w) (\<lambda>(res, w). Ret (map_sum id snd res, w)))
       (\<lambda>(res, w). Ret (map_sum id (\<lambda>_. ()) res, w))"

text \<open>\<open>None\<close> is a loop that draws vectors for ever; a short send is only logged.\<close>

definition send_packet_proxied ::
    "'c crypto_lib \<Rightarrow> 'b bloom_ops \<Rightarrow> (nat \<Rightarrow> nat \<Rightarrow> bytes) \<Rightarrow> bool \<Rightarrow> resolver \<Rightarrow> 'w udp_socket \<Rightarrow>
     ('b, 'r, 's, 'x, 'l) Context \<Rightarrow> ServerConfig \<Rightarrow> Address \<Rightarrow> bytes \<Rightarrow> 'w \<Rightarrow>
     ((io_error + unit) \<times> ('b, 'r, 's, 'x, 'l) Context \<times> 'w) rust option" where
  "send_packet_proxied L B rnd android resolve sock context svr_cfg target payload w =
     (case Address_write_to_buf target [] of
        Panic \<Rightarrow> Some Panic
      | Ret addr_buf \<Rightarrow>
          let send_buf = addr_buf @ payload in
          (case encrypt_payload L B rnd (ctx_nonce_ppbloom context) (sc_method svr_cfg) (sc_enc_key svr_cfg) send_buf of
             None \<Rightarrow> None
           | Some Panic \<Rightarrow> Some Panic
           | Some (Ret (res, p)) \<Rightarrow>
               let context = context\<lparr>ctx_nonce_ppbloom := p\<rparr> in
               (case res of
                  Inl e \<Rightarrow> Some (Ret (Inl e, context, w))
                | Inr encrypt_buf \<Rightarrow>
                    Some (rust_bind (send_to_server resolve sock (sc_addr svr_cfg) encrypt_buf w) (\<lambda>(res, w).
                      case res of
                        Inl e \<Rightarrow> Ret (Inl e, context, w)
                      | Inr send_len \<Rightarrow>
                          Ret (Inr (),
                               (if android then
                                  context\<lparr>ctx_local_flow_statistic := flow_apply (UdpTx (of_nat send_len)) (ctx_local_flow_statistic context)\<rparr>
                                else context), w))))))"

text \<open>
  One round of the task that sends the packets of an association: the access control list chooses
  between the socket for direct packets and the one for the proxy. Errors are logged.
\<close>

definition l2r_packet_acl ::
    "'c crypto_lib \<Rightarrow> 'b bloom_ops \<Rightarrow> ('n, 'm, 'r, 's, 'x) acl_lib \<Rightarrow> (ip_addr, string, 'l) lru_ops \<Rightarrow> (nat \<Rightarrow> nat \<Rightarrow> bytes) \<Rightarrow>
     bool \<Rightarrow> bool \<Rightarrow> resolver \<Rightarrow> 'w udp_socket \<Rightarrow> 'w udp_socket \<Rightarrow> ServerConfig \<Rightarrow> Address \<times> bytes \<Rightarrow>
     ('b, 'r, 's, 'x, 'l) Context \<Rightarrow> 'w \<Rightarrow> (('b, 'r, 's, 'x, 'l) Context \<times> 'w) rust option" where
  "l2r_packet_acl L B A C rnd dns_relay android resolve bypass_sender remote_sender svr_cfg pkt context w =
     (case pkt of
        (addr, payload) \<Rightarrow>
          (case ctx_check_target_bypassed A C dns_relay android resolve context addr of
             (is_bypassed, context) \<Rightarrow>
               if is_bypassed then
                 Some (rust_bind (send_packet_bypassed resolve bypass_sender addr payload w) (\<lambda>(_, w). Ret (context, w)))
               else
                 map_option (\<lambda>x. rust_bind x (\<lambda>(_, context, w). Ret (context, w)))
                   (send_packet_proxied L B rnd android resolve remote_sender context svr_cfg addr payload w)))"

text \<open>A reply: the argument is what the socket received; longer datagrams are cut off.\<close>

definition packet_too_short :: io_error where
  "packet_too_short = IoError InvalidData ''packet too short''"

definition recv_packet_proxied ::
    "'c crypto_lib \<Rightarrow> 'b bloom_ops \<Rightarrow> bool \<Rightarrow> ('b, 'r, 's, 'x, 'l) Context \<Rightarrow> ServerConfig \<Rightarrow> io_error + bytes \<Rightarrow>
     ((io_error + bytes) \<times> ('b, 'r, 's, 'x, 'l) Context) rust" where
  "recv_packet_proxied L B android context svr_cfg received =
     (case received of
        Inl e \<Rightarrow> Ret (Inl e, context)
      | Inr dgram \<Rightarrow>
          let recv_buf = take MAXIMUM_UDP_PAYLOAD_SIZE dgram in
          rust_bind (decrypt_payload L B (ctx_nonce_ppbloom context) (sc_method svr_cfg) (sc_enc_key svr_cfg) recv_buf)
            (\<lambda>(res, p).
              let context = context\<lparr>ctx_nonce_ppbloom := p\<rparr> in
              case res of
                Inl e \<Rightarrow> Ret (Inl e, context)
              | Inr None \<Rightarrow> Ret (Inl packet_too_short, context)
              | Inr (Some decrypt_buf) \<Rightarrow>
                  (case Address_read_from cursor_read_exact decrypt_buf of
                     Inl e \<Rightarrow> Ret (Inl (io_error_from_Socks5Error e), context)
                   | Inr (_, payload) \<Rightarrow>
                       Ret (Inr payload,
                            if android then
                              context\<lparr>ctx_local_flow_statistic := flow_apply (UdpRx (of_nat (length recv_buf))) (ctx_local_flow_statistic context)\<rparr>
                            else context))))"

section \<open>The server side\<close>

definition decrypt_failed :: io_error where
  "decrypt_failed = IoError InvalidData ''decrypt failed''"

text \<open>The payload goes to the target unless the access control list forbids it; a short send panics.\<close>

definition udp_forward ::
    "('n, 'm, 'r, 's, 'x) acl_lib \<Rightarrow> resolver \<Rightarrow> 'w udp_socket \<Rightarrow> ('b, 'r, 's, 'x, 'l) Context \<Rightarrow> Address \<Rightarrow> bytes \<Rightarrow> 'w \<Rightarrow>
     ((io_error + unit) \<times> 'w) rust" where
  "udp_forward A resolve sock context addr body w =
     (if ctx_check_outbound_blocked A context addr then Ret (Inr (), w)
      else
        rust_bind
          (case addr of
             SocketAddress remote_addr \<Rightarrow> Ret (sock body remote_addr w)
           | DomainNameAddress dname port \<Rightarrow>
               rust_bind (lookup_outbound_then A context resolve dname port (sock body) w)
                 (\<lambda>(res, w). Ret (map_sum id snd res, w)))
          (\<lambda>(res, w).
            case res of
              Inl e \<Rightarrow> Ret (Inl e, w)
            | Inr send_len \<Rightarrow> if send_len = length body then Ret (Inr (), w) else Panic))"

definition relay_l2r ::
    "'c crypto_lib \<Rightarrow> 'b bloom_ops \<Rightarrow> ('n, 'm, 'r, 's, 'x) acl_lib \<Rightarrow> resolver \<Rightarrow> 'w udp_socket \<Rightarrow>
     ('b, 'r, 's, 'x, 'l) Context \<Rightarrow> ServerConfig \<Rightarrow> bytes \<Rightarrow> 'w \<Rightarrow>
     ((io_error + unit) \<times> ('b, 'r, 's, 'x, 'l) Context \<times> 'w) rust" where
  "relay_l2r L B A resolve sock context svr_cfg pkt w =
     rust_bind (decrypt_payload L B (ctx_nonce_ppbloom context) (sc_method svr_cfg) (sc_enc_key svr_cfg) pkt) (\<lambda>(res, p).
       let context = context\<lparr>ctx_nonce_ppbloom := p\<rparr> in
       case res of
         Inr (Some decrypted_pkt) \<Rightarrow>
           (case Address_read_from cursor_read_exact decrypted_pkt of
              Inl e \<Rightarrow> Ret (Inl (io_error_from_Socks5Error e), context, w)
            | Inr (addr, body) \<Rightarrow>
                rust_bind (udp_forward A resolve sock context addr body w) (\<lambda>(res, w). Ret (res, context, w)))
       | Inr None \<Rightarrow> Ret (Inl packet_too_short, context, w)
       | Inl _ \<Rightarrow> Ret (Inl decrypt_failed, context, w))"

text \<open>A reply from a remote address, to be sent back to the client.\<close>

definition relay_r2l ::
    "'c crypto_lib \<Rightarrow> 'b bloom_ops \<Rightarrow> (nat \<Rightarrow> nat \<Rightarrow> bytes) \<Rightarrow> ('b, 'r, 's, 'x, 'l) Context \<Rightarrow> ServerConfig \<Rightarrow>
     io_error + (bytes \<times> socket_addr) \<Rightarrow> ((io_error + bytes) \<times> ('b, 'r, 's, 'x, 'l) Context) rust option" where
  "relay_r2l L B rnd context svr_cfg received =
     (case received of
        Inl e \<Rightarrow> Some (Ret (Inl e, context))
      | Inr (dgram, remote_addr) \<Rightarrow>
          let remote_buf = take MAXIMUM_UDP_PAYLOAD_SIZE dgram in
          (case Address_write_to_buf (SocketAddress remote_addr) [] of
             Panic \<Rightarrow> Some Panic
           | Ret addr_buf \<Rightarrow>
               map_option (\<lambda>x. rust_bind x (\<lambda>(res, p). Ret (res, context\<lparr>ctx_nonce_ppbloom := p\<rparr>)))
                 (encrypt_payload L B rnd (ctx_nonce_ppbloom context) (sc_method svr_cfg) (sc_enc_key svr_cfg)
                    (addr_buf @ remote_buf))))"
section \<open>The client\<close>

definition client_send_to ::
    "'c crypto_lib \<Rightarrow> 'b bloom_ops \<Rightarrow> (nat \<Rightarrow> nat \<Rightarrow> bytes) \<Rightarrow> resolver \<Rightarrow> 'w udp_socket \<Rightarrow>
     ('b, 'r, 's, 'x, 'l) Context \<Rightarrow> ServerConfig \<Rightarrow> Address \<Rightarrow> bytes \<Rightarrow> 'w \<Rightarrow>
     ((io_error + unit) \<times> ('b, 'r, 's, 'x, 'l) Context \<times> 'w) rust option" where
  "client_send_to L B rnd resolve sock context client addr payload w =
     (case Address_write_to_buf addr [] of
        Panic \<Rightarrow> Some Panic
      | Ret addr_buf \<Rightarrow>
          (case encrypt_payload L B rnd (ctx_nonce_ppbloom context) (sc_method client) (sc_enc_key client) (addr_buf @ payload) of
             None \<Rightarrow> None
           | Some Panic \<Rightarrow> Some Panic
           | Some (Ret (res, p)) \<Rightarrow>
               let context = context\<lparr>ctx_nonce_ppbloom := p\<rparr> in
               (case res of
                  Inl e \<Rightarrow> Some (Ret (Inl e, context, w))
                | Inr encrypt_buf \<Rightarrow>
                    Some (rust_bind (send_to_server resolve sock (sc_addr client) encrypt_buf w) (\<lambda>(res, w).
                      case res of
                        Inl e \<Rightarrow> Ret (Inl e, context, w)
                      | Inr send_len \<Rightarrow> if send_len = length encrypt_buf then Ret (Inr (), context, w) else Panic)))))"

definition client_recv_from ::
    "'c crypto_lib \<Rightarrow> 'b bloom_ops \<Rightarrow> ('b, 'r, 's, 'x, 'l) Context \<Rightarrow> ServerConfig \<Rightarrow> io_error + bytes \<Rightarrow>
     ((io_error + (Address \<times> bytes)) \<times> ('b, 'r, 's, 'x, 'l) Context) rust" where
  "client_recv_from L B context client received =
     (case received of
        Inl e \<Rightarrow> Ret (Inl e, context)
      | Inr dgram \<Rightarrow>
          let recv_buf = take MAXIMUM_UDP_PAYLOAD_SIZE dgram in
          rust_bind (decrypt_payload L B (ctx_nonce_ppbloom context) (sc_method client) (sc_enc_key client) recv_buf)
            (\<lambda>(res, p).
              let context = context\<lparr>ctx_nonce_ppbloom := p\<rparr> in
              case res of
                Inl e \<Rightarrow> Ret (Inl e, context)
              | Inr None \<Rightarrow> Ret (Inl packet_too_short, context)
              | Inr (Some decrypt_buf) \<Rightarrow>
                  (case Address_read_from cursor_read_exact decrypt_buf of
                     Inl e \<Rightarrow> Ret (Inl (io_error_from_Socks5Error e), context)
                   | Inr (addr, payload) \<Rightarrow> Ret (Inr (addr, payload), context))))"

section \<open>Packets on their way\<close>

lemma read_written_address:
  "wf_address a \<Longrightarrow> Address_read_from cursor_read_exact (addr_bytes a @ rest) = Inr (wire_address a, rest)"
  using cursor.Address_read_from_write [where a = a and rest = rest] by auto

lemma write_address_buf: "wf_address a \<Longrightarrow> Address_write_to_buf a [] = Ret (addr_bytes a)"
  by (simp add: Address_write_to_buf_def)

text \<open>A packet that decrypts to an address and a payload is forwarded to that address.\<close>

lemma relay_l2r_decrypted:
  assumes "decrypt_payload L B (ctx_nonce_ppbloom context) (sc_method svr_cfg) (sc_enc_key svr_cfg) pkt =
      Ret (Inr (Some (addr_bytes a @ payload)), q)" and "wf_address a"
  shows "relay_l2r L B A resolve sock context svr_cfg pkt w =
    rust_bind (udp_forward A resolve sock (context\<lparr>ctx_nonce_ppbloom := q\<rparr>) (wire_address a) payload w)
      (\<lambda>(res, w). Ret (res, context\<lparr>ctx_nonce_ppbloom := q\<rparr>, w))"
  using assms by (simp add: relay_l2r_def read_written_address Let_def)

lemma send_packet_proxied_packet:
  assumes "wf_address target"
    and "send_packet_proxied L B rnd android resolve sock context svr_cfg target payload w = Some (Ret (res, context', w'))"
  obtains r p where "encrypt_payload L B rnd (ctx_nonce_ppbloom context) (sc_method svr_cfg) (sc_enc_key svr_cfg)
      (addr_bytes target @ payload) = Some (Ret (r, p))"
    "\<And>pkt. r = Inr pkt \<Longrightarrow> \<exists>n. send_to_server resolve sock (sc_addr svr_cfg) pkt w = Ret (n, w') \<and> (res = Inr () \<longleftrightarrow> (\<exists>k. n = Inr k))"
proof -
  obtain r p where r: "encrypt_payload L B rnd (ctx_nonce_ppbloom context) (sc_method svr_cfg) (sc_enc_key svr_cfg)
      (addr_bytes target @ payload) = Some (Ret (r, p))"
    using assms by (auto simp: send_packet_proxied_def write_address_buf Let_def split: option.splits rust.splits)
  have "\<exists>n. send_to_server resolve sock (sc_addr svr_cfg) pkt w = Ret (n, w') \<and> (res = Inr () \<longleftrightarrow> (\<exists>k. n = Inr k))" if "r = Inr pkt" for pkt
    using assms r that
    by (auto simp: send_packet_proxied_def write_address_buf Let_def split: rust_bind_splits prod.splits sum.splits)
  with r show thesis by (rule that)
qed

lemma decrypt_known_relay:
  assumes "nonce_len L (sc_method svr_cfg) = Ret n"
    and "check_nonce_and_set B (ctx_nonce_ppbloom context) (take n pkt) = (True, p)"
    and "relay_l2r L B A resolve sock context svr_cfg pkt w = Ret (res, context', w')"
  shows "(\<exists>e. res = Inl e) \<and> context' = context \<and> w' = w"
proof -
  obtain r q where "decrypt_payload L B (ctx_nonce_ppbloom context) (sc_method svr_cfg) (sc_enc_key svr_cfg) pkt = Ret (r, q)"
    using assms(3) by (auto simp: relay_l2r_def rust_bind_Ret_iff)
  with decrypt_payload_known [OF assms(1,2) this] assms(3) show ?thesis
    by (auto simp: relay_l2r_def Let_def)
qed

text \<open>Every datagram the server sends goes to an address that the list does not block.\<close>

lemma udp_forward_inv:
  assumes fwd: "udp_forward A resolve sock context addr body w = Ret (res, w')"
    and I: "\<And>a w. \<not> ctx_check_resolved_outbound_blocked A context a \<Longrightarrow> I w \<Longrightarrow> I (snd (sock body a w))" and w: "I w"
  shows "I w'"
proof (cases "ctx_check_outbound_blocked A context addr")
  case True
  with fwd w show ?thesis by (simp add: udp_forward_def)
next
  case False
  show ?thesis
  proof (cases addr)
    case (SocketAddress a)
    have "\<not> ctx_check_resolved_outbound_blocked A context a"
      using False SocketAddress outbound_unblocked_socket by metis
    moreover have "w' = snd (sock body a w)"
      using fwd False SocketAddress by (cases "sock body a w") (auto simp: udp_forward_def split: sum.splits if_splits)
    ultimately show ?thesis using I w by simp
  next
    case (DomainNameAddress dname port)
    obtain r v where l: "lookup_outbound_then A context resolve dname port (sock body) w = Ret (r, v)"
      using fwd False DomainNameAddress by (auto simp: udp_forward_def rust_bind_Ret_iff)
    then have "w' = v"
      using fwd False DomainNameAddress by (cases r) (auto simp: udp_forward_def split: if_splits)
    with lookup_outbound_inv [where I = I, OF l I w] show ?thesis by simp
  qed
qed

section \<open>Properties\<close>

lemma length_addr_bytes_bound: "wf_address a \<Longrightarrow> length (addr_bytes a) \<le> 259"
  by (cases a rule: get_addr_len.cases) (simp_all add: length_addr_bytes)

text \<open>
  C7. A request through the UDP relay arrives unchanged: what a local association sends for a target
  and a payload is one datagram to its server, and a server with the same method and key that
  has not seen the datagram's vector hands exactly the payload to that target (of an IPv6 address the
  flow information and scope are not transmitted), subject to its own access control list.
\<close>

theorem udp_request_delivered:
  assumes "udp_lib_ok L (sc_method svr)" and "\<forall>i n. length (rnd i n) = n" and "wf_address target"
    and "length payload \<le> MAXIMUM_UDP_PAYLOAD_SIZE"
    and "send_packet_proxied L B rnd android resolve sock context svr target payload w = Some (Ret (res, context', w'))"
    and "sc_method svr' = sc_method svr" and "sc_enc_key svr' = sc_enc_key svr"
  shows "\<exists>n pkt. nonce_len L (sc_method svr) = Ret n
     \<and> (\<exists>r. send_to_server resolve sock (sc_addr svr) pkt w = Ret (r, w'))
     \<and> (\<forall>q. check_nonce_and_set (B' :: 'g bloom_ops) (ctx_nonce_ppbloom remote) (take n pkt) = (False, q) \<longrightarrow>
          relay_l2r L B' A resolve' sock' remote svr' pkt v =
            rust_bind (udp_forward A resolve' sock' (remote\<lparr>ctx_nonce_ppbloom := q\<rparr>) (wire_address target) payload v)
              (\<lambda>(res, v). Ret (res, remote\<lparr>ctx_nonce_ppbloom := q\<rparr>, v)))"
proof (rule send_packet_proxied_packet [OF assms(3,5)])
  fix r p
  assume enc: "encrypt_payload L B rnd (ctx_nonce_ppbloom context) (sc_method svr) (sc_enc_key svr)
      (addr_bytes target @ payload) = Some (Ret (r, p))"
    and sent: "\<And>pkt. r = Inr pkt \<Longrightarrow>
      \<exists>n. send_to_server resolve sock (sc_addr svr) pkt w = Ret (n, w') \<and> (res = Inr () \<longleftrightarrow> (\<exists>k. n = Inr k))"
  have len: "length (addr_bytes target @ payload) \<le> 2 ^ 38"
    using length_addr_bytes_bound [OF assms(3)] assms(4) by (simp add: MAXIMUM_UDP_PAYLOAD_SIZE_def)
  show ?thesis
  proof (rule encrypt_payload_ok [OF assms(1,2) len enc])
    fix iv data
    assume pkt: "r = Inr (iv @ data)" "nonce_len L (sc_method svr) = Ret (length iv)"
      and dec: "\<And>(B'' :: 'g bloom_ops) q q'. check_nonce_and_set B'' q iv = (False, q') \<Longrightarrow>
        decrypt_payload L B'' q (sc_method svr) (sc_enc_key svr) (iv @ data) = Ret (Inr (Some (addr_bytes target @ payload)), q')"
    have "relay_l2r L B' A resolve' sock' remote svr' (iv @ data) v =
            rust_bind (udp_forward A resolve' sock' (remote\<lparr>ctx_nonce_ppbloom := q\<rparr>) (wire_address target) payload v)
              (\<lambda>(res, v). Ret (res, remote\<lparr>ctx_nonce_ppbloom := q\<rparr>, v))"
      if "check_nonce_and_set B' (ctx_nonce_ppbloom remote) iv = (False, q)" for q
      using dec [OF that] assms(3,6,7) by (intro relay_l2r_decrypted) simp_all
    with sent [OF pkt(1)] pkt(2) show ?thesis by (intro exI [of _ "length iv"] exI [of _ "iv @ data"]) auto
  qed
qed

text \<open>A network that logs what is sent, and an example of both ends.\<close>

definition log_sock :: "(bytes \<times> socket_addr) list udp_socket" where
  "log_sock d a w = (Inr (length d), w @ [(d, a)])"

definition sample_server :: ServerConfig where
  "sample_server = (sample_cfg ChaCha20 [])\<lparr>sc_addr := SvrSocketAddr (SocketAddrV4 (Ipv4Addr 10 0 0 1) 8388)\<rparr>"

definition sample_context :: "(bytes list, ipv4_addr list, ipv6_addr list, string list, unit) Context" where
  "sample_context = Context_new sample_bloom \<lparr>lru_with_capacity = \<lambda>_. (), lru_insert = \<lambda>l _ _. l, lru_get = \<lambda>l _. (None, l)\<rparr>
     (Config_new Server)"

lemma sample_context_fresh: "\<exists>q. check_nonce_and_set sample_bloom (ctx_nonce_ppbloom sample_context) x = (False, q)"
  by (simp add: sample_context_def Context_new_def check_nonce_and_set_def check_and_set_def PingPongBloom_new_def
      sample_bloom_def Let_def)

lemma sample_udp_lib_ok: "udp_lib_ok sample_lib ChaCha20"
  using sample_sodium_keystream sample_crypter_sync
  by (auto simp: udp_lib_ok_def method_lib_ok_def crypter_final_ok_def crypter_both_ok_def)

lemma sample_encrypt:
  assumes "length data \<le> 2 ^ 38"
  shows "\<exists>pkt p1. encrypt_payload sample_lib sample_bloom (\<lambda>i n. replicate n 5) (ctx_nonce_ppbloom sample_context)
     ChaCha20 [] data = Some (Ret (Inr pkt, p1))"
proof -
  let ?box = "SodiumBox \<lparr>ssc_type = ChaCha20, ssc_key = [], ssc_iv = replicate 8 5, ssc_counter = 0\<rparr>"
  obtain q where "check_nonce_and_set sample_bloom (ctx_nonce_ppbloom sample_context) (replicate 8 5) = (False, q)"
    using sample_context_fresh by blast
  then have iv: "gen_unique_iv sample_bloom (\<lambda>i. gen_init_vec sample_lib (replicate' i) ChaCha20) 0 (ctx_nonce_ppbloom sample_context) =
      Some (Ret (replicate 8 5, q))" if "replicate' = (\<lambda>i n. replicate n 5)" for replicate'
    using that by (subst gen_unique_iv.simps) (simp add: gen_init_vec_def gen_random_bytes_def)
  have box: "new_stream sample_lib ChaCha20 [] (replicate 8 5) m = Ret ?box" for m
    by (simp add: new_stream_def rust_assert_def SodiumStreamCipher_new_def)
  obtain y b where "stream_update sample_lib ?box data = Ret (Inr (y, b))"
    using stream_box.synced_step [OF new_stream_synced [OF sample_sodium_keystream sample_crypter_sync box box assms] order_refl]
    by (auto simp: stream_step_Some)
  moreover obtain b' where "stream_finalize sample_lib b = Ret (Inr ([], b'))"
    using stream_finalize_ok [of sample_lib b] by (auto simp: crypter_final_ok_def)
  ultimately show ?thesis using iv box by (simp add: encrypt_payload_def encrypt_payload_stream_def)
qed

theorem udp_request_delivered_witness:
  "\<exists>pkt context' context''. send_packet_proxied sample_lib sample_bloom (\<lambda>i n. replicate n 5) False (\<lambda>_ _. Inr []) log_sock
       sample_context sample_server (SocketAddress (SocketAddrV4 (Ipv4Addr 9 9 9 9) 53)) [1, 2, 3] [] =
       Some (Ret (Inr (), context', [(pkt, SocketAddrV4 (Ipv4Addr 10 0 0 1) 8388)]))
     \<and> relay_l2r sample_lib sample_bloom sample_acl_lib (\<lambda>_ _. Inr []) log_sock sample_context sample_server pkt [] =
       Ret (Inr (), context'', [([1, 2, 3], SocketAddrV4 (Ipv4Addr 9 9 9 9) 53)])"
proof -
  let ?t = "SocketAddress (SocketAddrV4 (Ipv4Addr 9 9 9 9) 53)"
  let ?s = "SocketAddrV4 (Ipv4Addr 10 0 0 1) 8388"
  have m: "sc_method sample_server = ChaCha20" "sc_enc_key sample_server = []" "sc_addr sample_server = SvrSocketAddr ?s"
    by (simp_all add: sample_server_def sample_cfg_def)
  have t: "wf_address ?t" by simp
  have len: "length (addr_bytes ?t @ [1, 2, 3]) \<le> 2 ^ 38" using length_addr_bytes_bound [OF t] by simp
  obtain pkt0 p1 where e: "encrypt_payload sample_lib sample_bloom (\<lambda>i n. replicate n 5) (ctx_nonce_ppbloom sample_context)
     ChaCha20 [] (addr_bytes ?t @ [1, 2, 3]) = Some (Ret (Inr pkt0, p1))"
    using sample_encrypt [OF len] by blast
  let ?c = "sample_context\<lparr>ctx_nonce_ppbloom := p1\<rparr>"
  have send: "send_packet_proxied sample_lib sample_bloom (\<lambda>i n. replicate n 5) False (\<lambda>_ _. Inr []) log_sock
      sample_context sample_server ?t [1, 2, 3] [] = Some (Ret (Inr (), ?c, [(pkt0, ?s)]))"
    using e write_address_buf [OF t] by (simp add: send_packet_proxied_def m send_to_server_def log_sock_def del: addr_bytes_simps)
  have lib: "udp_lib_ok sample_lib (sc_method sample_server)" using sample_udp_lib_ok m by simp
  obtain n pkt where pkt: "\<exists>r. send_to_server (\<lambda>_ _. Inr []) log_sock (sc_addr sample_server) pkt [] = Ret (r, [(pkt0, ?s)])"
      "\<forall>q. check_nonce_and_set sample_bloom (ctx_nonce_ppbloom sample_context) (take n pkt) = (False, q) \<longrightarrow>
          relay_l2r sample_lib sample_bloom sample_acl_lib (\<lambda>_ _. Inr []) log_sock sample_context sample_server pkt [] =
            rust_bind (udp_forward sample_acl_lib (\<lambda>_ _. Inr []) log_sock (sample_context\<lparr>ctx_nonce_ppbloom := q\<rparr>)
              (wire_address ?t) [1, 2, 3] [])
              (\<lambda>(res, v). Ret (res, sample_context\<lparr>ctx_nonce_ppbloom := q\<rparr>, v))"
    using udp_request_delivered [OF lib _ t _ send refl refl, where B' = sample_bloom and remote = sample_context
        and A = sample_acl_lib and sock' = log_sock and v = "[]" and resolve' = "\<lambda>_ _. Inr []"]
    by (auto simp: MAXIMUM_UDP_PAYLOAD_SIZE_def)
  have "pkt = pkt0" using pkt(1) m by (simp add: send_to_server_def log_sock_def)
  obtain q where q: "check_nonce_and_set sample_bloom (ctx_nonce_ppbloom sample_context) (take n pkt) = (False, q)"
    using sample_context_fresh by blast
  have "relay_l2r sample_lib sample_bloom sample_acl_lib (\<lambda>_ _. Inr []) log_sock sample_context sample_server pkt [] =
      Ret (Inr (), sample_context\<lparr>ctx_nonce_ppbloom := q\<rparr>, [([1, 2, 3], SocketAddrV4 (Ipv4Addr 9 9 9 9) 53)])"
    using pkt(2) q by (simp add: udp_forward_def ctx_check_outbound_blocked_def sample_context_def Context_new_def Config_new_def log_sock_def)
  with send \<open>pkt = pkt0\<close> show ?thesis by blast
qed

text \<open>
  A replayed datagram is not relayed: once a datagram was decrypted, a datagram with the same vector
  or salt makes the server return an error and send nothing, as long as at most \<open>item_count\<close> other
  vectors were accepted in between, whatever the rest of the datagram is.
\<close>

lemma udp_replay_rejected:
  assumes "bloom_ok B el" and "pp_wf p" and "nonce_len L (sc_method svr) = Ret n" and "0 < n"
    and "decrypt_payload L B p (sc_method svr) (sc_enc_key svr) pkt = Ret (Inr (Some x), q)"
    and "[] \<notin> set others" and "filter_run (check_nonce_and_set B) q others = (bs, p2)" and "accepted bs \<le> pp_item_count p"
    and "ctx_nonce_ppbloom context = p2" and "take n pkt' = take n pkt"
    and "relay_l2r L B A resolve sock context svr pkt' w = Ret (res, context', w')"
  shows "(\<exists>e. res = Inl e) \<and> context' = context \<and> w' = w"
proof (rule decrypt_payload_fresh [OF assms(5)])
  fix m
  assume m: "nonce_len L (sc_method svr) = Ret m" "m \<le> length pkt" "check_nonce_and_set B p (take m pkt) = (False, q)"
  then have iv: "m = n" "take n pkt \<noteq> []" using assms(3,4) by auto
  then have "check_nonce_and_set B p2 (take n pkt) = (True, p2)"
    using check_nonce_replay [OF assms(1,2) iv(2) _ assms(6-8)] m(3) by simp
  then show ?thesis
    using decrypt_known_relay [OF assms(3) _ assms(11), of p2] assms(9,10) by simp
qed

lemma udp_replay_rejected_witness:
  "\<exists>q e. decrypt_payload sample_lib sample_bloom (ctx_nonce_ppbloom sample_context) ChaCha20 [] (replicate 8 7) = Ret (Inr (Some []), q)
     \<and> relay_l2r sample_lib sample_bloom sample_acl_lib (\<lambda>_ _. Inr []) log_sock (sample_context\<lparr>ctx_nonce_ppbloom := q\<rparr>) sample_server
         (replicate 8 7 @ [1]) [] = Ret (Inl e, sample_context\<lparr>ctx_nonce_ppbloom := q\<rparr>, [])"
proof -
  let ?c = "\<lambda>q. sample_context\<lparr>ctx_nonce_ppbloom := q\<rparr>"
  have m: "sc_method sample_server = ChaCha20" "sc_enc_key sample_server = []"
    by (simp_all add: sample_server_def sample_cfg_def)
  obtain q where q: "check_nonce_and_set sample_bloom (ctx_nonce_ppbloom sample_context) (replicate 8 7) = (False, q)"
    using sample_context_fresh by blast
  have d: "decrypt_payload sample_lib sample_bloom (ctx_nonce_ppbloom sample_context) (sc_method sample_server) (sc_enc_key sample_server)
      (replicate 8 7) = Ret (Inr (Some []), q)"
    using q by (simp add: m decrypt_payload_def decrypt_payload_stream_def Let_def new_stream_def rust_assert_def
        SodiumStreamCipher_new_def SodiumStreamCipher_process_def padding_len_def crypto_stream_xor_ic_def sample_keystream_def)
  have n: "nonce_len sample_lib (sc_method sample_server) = Ret 8" by (simp add: m nonce_len_def)
  have wf: "pp_wf (ctx_nonce_ppbloom sample_context)" using pp_wf_new by (simp add: sample_context_def Context_new_def)
  have known: "check_nonce_and_set sample_bloom q (replicate 8 7) = (True, q)"
    using check_nonce_replay [OF sample_bloom_ok wf _ q, of "[]" "[]" q] by (simp add: numeral_eq_Suc)
  have "\<exists>res c w. relay_l2r sample_lib sample_bloom sample_acl_lib (\<lambda>_ _. Inr []) log_sock (?c q) sample_server
      (replicate 8 7 @ [1]) [] = Ret (res, c, w)"
    using known by (simp add: relay_l2r_def m decrypt_payload_def decrypt_payload_stream_def Let_def)
  then obtain res c w where r: "relay_l2r sample_lib sample_bloom sample_acl_lib (\<lambda>_ _. Inr []) log_sock (?c q) sample_server
      (replicate 8 7 @ [1]) [] = Ret (res, c, w)" by blast
  have "(\<exists>e. res = Inl e) \<and> c = ?c q \<and> w = []"
    by (rule udp_replay_rejected [OF sample_bloom_ok wf n _ d _ _ _ _ _ r, where others = "[]" and bs = "[]"]) simp_all
  with d r m show ?thesis by auto
qed

text \<open>
  C9. The outbound rules of a server hold for every datagram, whatever packets clients send and
  whatever their domain names resolve to: no datagram is sent to an address that the access control
  list blocks. The network of the statement logs the destinations.
\<close>

definition logging :: "'w udp_socket \<Rightarrow> ('w \<times> socket_addr list) udp_socket" where
  "logging sock d a v = (case sock d a (fst v) of (r, w) \<Rightarrow> (r, w, snd v @ [a]))"


definition null_sock :: "unit udp_socket" where
  "null_sock d a w = (Inr (length d), w)"


section \<open>Replies\<close>

text \<open>The way back: what the server makes of a reply is what the client hands to the application.\<close>

lemma udp_reply_delivered:
  assumes "udp_lib_ok L (sc_method svr)" and "\<forall>i n. length (rnd i n) = n"
    and "relay_r2l L B rnd context svr (Inr (dgram, remote_addr)) = Some (Ret (Inr pkt, context'))"
    and "length dgram \<le> MAXIMUM_UDP_PAYLOAD_SIZE" and "length pkt \<le> MAXIMUM_UDP_PAYLOAD_SIZE"
    and "sc_method svr' = sc_method svr" and "sc_enc_key svr' = sc_enc_key svr"
  shows "\<exists>n. nonce_len L (sc_method svr) = Ret n
     \<and> (\<forall>q. check_nonce_and_set (B' :: 'g bloom_ops) (ctx_nonce_ppbloom client) (take n pkt) = (False, q) \<longrightarrow>
          recv_packet_proxied L B' False client svr' (Inr pkt) = Ret (Inr dgram, client\<lparr>ctx_nonce_ppbloom := q\<rparr>))"
proof -
  let ?a = "SocketAddress remote_addr"
  have wf: "wf_address ?a" by simp
  obtain p where enc: "encrypt_payload L B rnd (ctx_nonce_ppbloom context) (sc_method svr) (sc_enc_key svr)
      (addr_bytes ?a @ dgram) = Some (Ret (Inr pkt, p))"
    using assms(3,4) by (auto simp: relay_r2l_def write_address_buf [OF wf] rust_bind_Ret_iff)
  have len: "length (addr_bytes ?a @ dgram) \<le> 2 ^ 38"
    using length_addr_bytes_bound [OF wf] assms(4) by (simp add: MAXIMUM_UDP_PAYLOAD_SIZE_def)
  show ?thesis
  proof (rule encrypt_payload_ok [OF assms(1,2) len enc])
    fix iv data
    assume pkt: "Inr pkt = (Inr (iv @ data) :: io_error + bytes)" "nonce_len L (sc_method svr) = Ret (length iv)"
      and dec: "\<And>(B'' :: 'g bloom_ops) q q'. check_nonce_and_set B'' q iv = (False, q') \<Longrightarrow>
        decrypt_payload L B'' q (sc_method svr) (sc_enc_key svr) (iv @ data) = Ret (Inr (Some (addr_bytes ?a @ dgram)), q')"
    have "recv_packet_proxied L B' False client svr' (Inr pkt) = Ret (Inr dgram, client\<lparr>ctx_nonce_ppbloom := q\<rparr>)"
      if "check_nonce_and_set B' (ctx_nonce_ppbloom client) (take (length iv) pkt) = (False, q)" for q
      using dec [of B' "ctx_nonce_ppbloom client" q] that pkt(1) assms(5-7)
      by (simp add: recv_packet_proxied_def read_written_address [OF wf] Let_def)
    with pkt(2) show ?thesis by (intro exI [of _ "length iv"]) simp
  qed
qed

text \<open>SOCKS5 packets to and from the application.\<close>

lemma assemble_parse_packet:
  assumes "wf_address a"
  shows "\<exists>pkt. assemble_packet a payload = Ret pkt \<and> parse_packet pkt = Inr (wire_address a, payload)"
proof -
  have "UdpAssociateHeader_write_to_buf \<lparr>udp_frag = 0, udp_address = a\<rparr> [] = Ret ([0, 0, 0] @ addr_bytes a)"
    using assms by (simp add: UdpAssociateHeader_write_to_buf_def Address_write_to_buf_def)
  moreover have "UdpAssociateHeader_read_from cursor_read_exact ([0, 0, 0] @ addr_bytes a @ payload) =
      Inr (\<lparr>udp_frag = 0, udp_address = wire_address a\<rparr>, payload)"
    using read_written_address [OF assms, of payload]
    by (simp add: UdpAssociateHeader_read_from_def read_exact_def cursor_read_exact_def)
  ultimately show ?thesis by (simp add: assemble_packet_def parse_packet_def)
qed


end
