(* ===== verification/Udp_Server.thy ===== *)
theory Udp_Server
  imports Udp_Relay
begin

text \<open>
  The listener of the UDP server, \<^verbatim>\<open>listen\<close> of \<^verbatim>\<open>src/relay/udprelay/server.rs\<close>, and the tasks of its
  associations, as a state machine. Every client address has an association with a queue of the packets
  to relay; the associations are found through a cache that expires them, which is a library. The tasks
  run concurrently: a history is any sequence of their steps.
\<close>

section \<open>The listener\<close>

text \<open>
  \<open>ul_queues\<close> are the channels of the associations ever created: the client's address and the packets
  sent into the channel that its task has not taken yet. The cache maps the text of an address to a
  channel. \<open>ul_responding\<close> tells whether the task that sends responses still runs. A packet is a
  datagram at the server, and a target with a payload at the local end, which keeps no flow counters.
\<close>

record ('l, 'p) udp_listener =
  ul_assoc :: 'l
  ul_queues :: "nat \<Rightarrow> (socket_addr \<times> 'p list) option"
  ul_next :: nat
  ul_flow :: ServerFlowStatistic
  ul_responding :: bool

definition listen_start :: "'l \<Rightarrow> ('l, 'p) udp_listener" where
  "listen_start cache =
     \<lparr>ul_assoc = cache, ul_queues = (\<lambda>_. None), ul_next = 0, ul_flow = ServerFlowStatistic_new, ul_responding = True\<rparr>"

text \<open>The association of a client; creating its socket may fail, which panics.\<close>

definition get_or_associate ::
    "(string, nat, 'l) lru_ops \<Rightarrow> io_error + unit \<Rightarrow> socket_addr \<Rightarrow> ('l, 'p) udp_listener \<Rightarrow> (nat \<times> ('l, 'p) udp_listener) rust" where
  "get_or_associate C created src s =
     (case lru_get C (ul_assoc s) (show_socket_addr src) of
        (Some assoc, cache) \<Rightarrow> Ret (assoc, s\<lparr>ul_assoc := cache\<rparr>)
      | (None, cache) \<Rightarrow>
          (case created of
             Inl _ \<Rightarrow> Panic
           | Inr _ \<Rightarrow>
               Ret (ul_next s,
                    s\<lparr>ul_assoc := lru_insert C cache (show_socket_addr src) (ul_next s),
                      ul_queues := (ul_queues s)(ul_next s := Some (src, [])), ul_next := ul_next s + 1\<rparr>)))"

definition assoc_send :: "nat \<Rightarrow> 'p \<Rightarrow> ('l, 'p) udp_listener \<Rightarrow> ('l, 'p) udp_listener rust" where
  "assoc_send assoc pkt s =
     (case ul_queues s assoc of
        None \<Rightarrow> Panic
      | Some (src, pkts) \<Rightarrow> Ret (s\<lparr>ul_queues := (ul_queues s)(assoc := Some (src, pkts @ [pkt]))\<rparr>))"

text \<open>One round of the receiving loop, for a datagram \<open>dgram\<close> from \<open>src\<close>.\<close>

definition listen_recv ::
    "('n, 'm, 'r, 's, 'x) acl_lib \<Rightarrow> (string, nat, 'l) lru_ops \<Rightarrow> ('b, 'r, 's, 'x, 'k) Context \<Rightarrow> io_error + unit \<Rightarrow>
     bytes \<Rightarrow> socket_addr \<Rightarrow> ('l, bytes) udp_listener \<Rightarrow> ('l, bytes) udp_listener rust" where
  "listen_recv A C context created dgram src s =
     (let pkt = take MAXIMUM_UDP_PAYLOAD_SIZE dgram;
          s = s\<lparr>ul_flow := flow_apply (UdpRx (of_nat (length pkt))) (ul_flow s)\<rparr>
      in if length pkt = 0 then Ret s
         else if ctx_check_client_blocked A context src then Ret s
         else rust_bind (get_or_associate C created src s) (\<lambda>(assoc, s). assoc_send assoc pkt s))"

text \<open>The task that sends responses: \<open>sent\<close> is the outcome of the socket.\<close>

definition listen_respond ::
    "(string, nat, 'l) lru_ops \<Rightarrow> io_error + unit \<Rightarrow> socket_addr \<Rightarrow> bytes \<Rightarrow> ('l, bytes) udp_listener \<Rightarrow> ('l, bytes) udp_listener" where
  "listen_respond C sent src pkt s =
     (case lru_get C (ul_assoc s) (show_socket_addr src) of
        (None, cache) \<Rightarrow> s\<lparr>ul_assoc := cache\<rparr>
      | (Some _, cache) \<Rightarrow>
          (case sent of
             Inl _ \<Rightarrow> s\<lparr>ul_assoc := cache, ul_responding := False\<rparr>
           | Inr _ \<Rightarrow> s\<lparr>ul_assoc := cache, ul_flow := flow_apply (UdpTx (of_nat (length pkt))) (ul_flow s)\<rparr>))"

section \<open>The local listener\<close>

text \<open>
  The loop of the local end, \<^verbatim>\<open>run\<close> of \<^verbatim>\<open>socks5_local.rs\<close>: packets that do not parse are dropped.
\<close>

definition local_recv ::
    "(string, nat, 'l) lru_ops \<Rightarrow> io_error + unit \<Rightarrow> bytes \<Rightarrow> socket_addr \<Rightarrow> ('l, Address \<times> bytes) udp_listener \<Rightarrow>
     ('l, Address \<times> bytes) udp_listener rust" where
  "local_recv C created dgram src s =
     (let pkt = take MAXIMUM_UDP_PAYLOAD_SIZE dgram
      in if length pkt = 0 then Ret s
         else
           case parse_packet pkt of
             Inl _ \<Rightarrow> Ret s
           | Inr (target, payload) \<Rightarrow>
               rust_bind (get_or_associate C created src s) (\<lambda>(assoc, s). assoc_send assoc (target, payload) s))"

text \<open>
  A response: the datagram for the client, if its association is still cached. \<open>sent\<close> is the outcome of the
  socket; a failure ends the task.
\<close>

definition local_respond ::
    "(string, nat, 'l) lru_ops \<Rightarrow> io_error + nat \<Rightarrow> socket_addr \<Rightarrow> bytes \<Rightarrow> ('l, Address \<times> bytes) udp_listener \<Rightarrow>
     (bytes option \<times> ('l, Address \<times> bytes) udp_listener) rust" where
  "local_respond C sent src pkt s =
     (case lru_get C (ul_assoc s) (show_socket_addr src) of
        (None, cache) \<Rightarrow> Ret (None, s\<lparr>ul_assoc := cache\<rparr>)
      | (Some _, cache) \<Rightarrow>
          rust_bind (assemble_packet (SocketAddress src) pkt) (\<lambda>payload.
            Ret (Some payload,
                 s\<lparr>ul_assoc := cache, ul_responding := (case sent of Inl _ \<Rightarrow> False | Inr _ \<Rightarrow> ul_responding s)\<rparr>)))"

section \<open>Histories\<close>

text \<open>
  \<open>listen_run A C purge ctx rcvd done s\<close>: \<open>s\<close> is reached after the datagrams \<open>rcvd\<close> arrived, each with its
  source, and the tasks of the associations took the packets \<open>done\<close>, each with the client's address
  that their association was created for. \<open>purge\<close> is what a timeout does to the cache.
\<close>

inductive listen_run ::
    "('n, 'm, 'r, 's, 'x) acl_lib \<Rightarrow> (string, nat, 'l) lru_ops \<Rightarrow> ('l \<Rightarrow> 'l) \<Rightarrow> ('b, 'r, 's, 'x, 'k) Context \<Rightarrow> 'l \<Rightarrow>
     (bytes \<times> socket_addr) list \<Rightarrow> (bytes \<times> socket_addr) list \<Rightarrow> ('l, bytes) udp_listener \<Rightarrow> bool"
  for A C purge ctx cache where
  start: "listen_run A C purge ctx cache [] [] (listen_start cache)"
| receive: "\<lbrakk>listen_run A C purge ctx cache rcvd dn s; listen_recv A C ctx created dgram src s = Ret s'\<rbrakk>
    \<Longrightarrow> listen_run A C purge ctx cache (rcvd @ [(dgram, src)]) dn s'"
| timeout: "listen_run A C purge ctx cache rcvd dn s \<Longrightarrow>
    listen_run A C purge ctx cache rcvd dn (s\<lparr>ul_assoc := purge (ul_assoc s)\<rparr>)"
| relay: "\<lbrakk>listen_run A C purge ctx cache rcvd dn s; ul_queues s assoc = Some (src, pkt # pkts)\<rbrakk>
    \<Longrightarrow> listen_run A C purge ctx cache rcvd (dn @ [(pkt, src)]) (s\<lparr>ul_queues := (ul_queues s)(assoc := Some (src, pkts))\<rparr>)"
| respond: "\<lbrakk>listen_run A C purge ctx cache rcvd dn s; ul_responding s\<rbrakk>
    \<Longrightarrow> listen_run A C purge ctx cache rcvd dn (listen_respond C sent src pkt s)"

text \<open>
  What the code relies on of the cache: \<open>content\<close> are its entries. A look-up finds entries only, insertion
  adds one, and anything else only removes entries.
\<close>

definition lru_ok :: "('k, 'v, 'l) lru_ops \<Rightarrow> ('l \<Rightarrow> 'k \<rightharpoonup> 'v) \<Rightarrow> ('l \<Rightarrow> 'l) \<Rightarrow> bool" where
  "lru_ok C content purge \<longleftrightarrow>
     (\<forall>l k v l'. lru_get C l k = (Some v, l') \<longrightarrow> content l k = Some v)
   \<and> (\<forall>l k. content (snd (lru_get C l k)) \<subseteq>\<^sub>m content l)
   \<and> (\<forall>l k v. content (lru_insert C l k v) \<subseteq>\<^sub>m (content l)(k \<mapsto> v))
   \<and> (\<forall>l. content (purge l) \<subseteq>\<^sub>m content l)"

lemma lru_okD:
  assumes "lru_ok C content purge"
  shows "lru_get C l k = (Some v, l') \<Longrightarrow> content l k = Some v"
    "lru_get C l k = (r, l') \<Longrightarrow> content l' j = Some u \<Longrightarrow> content l j = Some u"
    "content (lru_insert C l k v) j = Some u \<Longrightarrow> (if j = k then u = v else content l j = Some u)"
    "content (purge l) j = Some u \<Longrightarrow> content l j = Some u"
proof -
  note D = assms [unfolded lru_ok_def map_le_def]
  show "lru_get C l k = (Some v, l') \<Longrightarrow> content l k = Some v" using D by blast
  show "content l j = Some u" if "lru_get C l k = (r, l')" "content l' j = Some u"
    using D that by (metis domI snd_conv)
  show "if j = k then u = v else content l j = Some u" if "content (lru_insert C l k v) j = Some u"
  proof -
    have "((content l)(k \<mapsto> v)) j = Some u" using D that by (metis domI)
    then show ?thesis by (auto split: if_splits)
  qed
  show "content l j = Some u" if "content (purge l) j = Some u" using D that by (metis domI)
qed

section \<open>The invariant\<close>

text \<open>
  A cached association exists and belongs to a client with that text, a queue holds packets of
  its client only, and so do the packets already taken.
\<close>

definition of_client :: "(bytes \<times> socket_addr) list \<Rightarrow> bytes \<times> socket_addr \<Rightarrow> bool" where
  "of_client rcvd ps \<longleftrightarrow> (\<exists>dgram src'. (dgram, src') \<in> set rcvd \<and> fst ps = take MAXIMUM_UDP_PAYLOAD_SIZE dgram
     \<and> show_socket_addr src' = show_socket_addr (snd ps))"

definition assoc_ok :: "('l \<Rightarrow> string \<rightharpoonup> nat) \<Rightarrow> (bytes \<times> socket_addr) list \<Rightarrow> (bytes \<times> socket_addr) list \<Rightarrow> ('l, bytes) udp_listener \<Rightarrow> bool" where
  "assoc_ok content rcvd dn s \<longleftrightarrow>
     (\<forall>k i. content (ul_assoc s) k = Some i \<longrightarrow> (\<exists>src pkts. ul_queues s i = Some (src, pkts) \<and> show_socket_addr src = k))
   \<and> (\<forall>i src pkts. ul_queues s i = Some (src, pkts) \<longrightarrow> i < ul_next s \<and> (\<forall>p \<in> set pkts. of_client rcvd (p, src)))
   \<and> (\<forall>ps \<in> set dn. of_client rcvd ps)"

lemma of_client_mono: "of_client rcvd ps \<Longrightarrow> of_client (rcvd @ new) ps"
  by (auto simp: of_client_def)

lemma assoc_ok_more: "assoc_ok content rcvd dn s \<Longrightarrow> assoc_ok content (rcvd @ new) dn (s\<lparr>ul_flow := f\<rparr>)"
  by (auto simp: assoc_ok_def intro: of_client_mono)

lemma assoc_ok_cache:
  assumes "assoc_ok content rcvd dn s" and "\<And>k i. content cache k = Some i \<Longrightarrow> content (ul_assoc s) k = Some i"
  shows "assoc_ok content rcvd dn (s\<lparr>ul_assoc := cache\<rparr>)"
  using assms unfolding assoc_ok_def by simp

lemma get_or_associate_ok:
  assumes C: "lru_ok C content purge" and s: "assoc_ok content rcvd dn s"
    and g: "get_or_associate C created src s = Ret (assoc, s')"
  shows "assoc_ok content rcvd dn s'
    \<and> (\<exists>src' pkts. ul_queues s' assoc = Some (src', pkts) \<and> show_socket_addr src' = show_socket_addr src)"
proof -
  obtain r cache where get: "lru_get C (ul_assoc s) (show_socket_addr src) = (r, cache)"
    by (cases "lru_get C (ul_assoc s) (show_socket_addr src)")
  have sub: "content cache k = Some i \<Longrightarrow> content (ul_assoc s) k = Some i" for k i
    by (rule lru_okD(2) [OF C get])
  show ?thesis
  proof (cases r)
    case (Some i)
    with g get have r: "assoc = i" "s' = s\<lparr>ul_assoc := cache\<rparr>" by (simp_all add: get_or_associate_def)
    have "content (ul_assoc s) (show_socket_addr src) = Some i" using lru_okD(1) [OF C] get Some by blast
    then have "\<exists>src' pkts. ul_queues s i = Some (src', pkts) \<and> show_socket_addr src' = show_socket_addr src"
      using s by (simp add: assoc_ok_def)
    moreover have "assoc_ok content rcvd dn s'" using assoc_ok_cache [OF s sub] r by simp
    ultimately show ?thesis using r by simp
  next
    case None
    with g get obtain u where r: "created = Inr u" "assoc = ul_next s"
        "s' = s\<lparr>ul_assoc := lru_insert C cache (show_socket_addr src) (ul_next s),
                ul_queues := (ul_queues s)(ul_next s := Some (src, [])), ul_next := ul_next s + 1\<rparr>"
      by (auto simp: get_or_associate_def split: sum.splits)
    have old: "ul_queues s i = Some q \<Longrightarrow> i \<noteq> ul_next s" for i q
      using s unfolding assoc_ok_def by (cases q) (metis less_irrefl)
    have "\<exists>src' pkts. ul_queues s' i = Some (src', pkts) \<and> show_socket_addr src' = k"
      if "content (ul_assoc s') k = Some i" for k i
    proof (cases "k = show_socket_addr src")
      case True
      then have "i = ul_next s" using lru_okD(3) [OF C, of cache "show_socket_addr src" "ul_next s" k i] that r(3) by simp
      with True r(3) show ?thesis by simp
    next
      case False
      then have "content cache k = Some i" using lru_okD(3) [OF C, of cache "show_socket_addr src" "ul_next s" k i] that r(3) by simp
      then have "content (ul_assoc s) k = Some i" by (rule sub)
      then obtain src' pkts where "ul_queues s i = Some (src', pkts)" "show_socket_addr src' = k"
        using s unfolding assoc_ok_def by blast
      with old r(3) show ?thesis by auto
    qed
    moreover have "\<forall>i src' pkts. ul_queues s' i = Some (src', pkts) \<longrightarrow>
        i < ul_next s' \<and> (\<forall>p \<in> set pkts. of_client rcvd (p, src'))"
      using s r(3) by (auto simp: assoc_ok_def less_Suc_eq)
    ultimately show ?thesis using s r by (simp add: assoc_ok_def)
  qed
qed
lemma assoc_ok_queue:
  assumes s: "assoc_ok content rcvd dn s" and q: "ul_queues s i = Some (src, pkts)"
    and new: "\<forall>p \<in> set pkts'. of_client rcvd (p, src)"
  shows "assoc_ok content rcvd dn (s\<lparr>ul_queues := (ul_queues s)(i := Some (src, pkts'))\<rparr>)"
proof -
  have "\<exists>src' ps. ((ul_queues s)(i := Some (src, pkts'))) j = Some (src', ps) \<and> show_socket_addr src' = k"
    if entry: "content (ul_assoc s) k = Some j" for k j
  proof -
    obtain src' ps where "ul_queues s j = Some (src', ps)" "show_socket_addr src' = k"
      using s entry unfolding assoc_ok_def by blast
    with q show ?thesis by (cases "j = i") auto
  qed
  moreover have "i < ul_next s" using s q by (simp add: assoc_ok_def)
  ultimately show ?thesis using s new by (simp add: assoc_ok_def)
qed

lemma assoc_send_ok:
  assumes s: "assoc_ok content rcvd dn s" and "assoc_send assoc pkt s = Ret s'"
    and q: "ul_queues s assoc = Some (src, pkts)" and "of_client rcvd (pkt, src)"
  shows "assoc_ok content rcvd dn s'"
proof -
  have "s' = s\<lparr>ul_queues := (ul_queues s)(assoc := Some (src, pkts @ [pkt]))\<rparr>"
    using assms(2,3) by (simp add: assoc_send_def)
  moreover have "\<forall>p \<in> set (pkts @ [pkt]). of_client rcvd (p, src)"
    using s q assms(4) by (simp add: assoc_ok_def)
  ultimately show ?thesis using assoc_ok_queue [OF s q] by simp
qed

lemma listen_recv_ok:
  assumes C: "lru_ok C content purge" and s: "assoc_ok content rcvd dn s"
    and r: "listen_recv A C ctx created dgram src s = Ret s'"
  shows "assoc_ok content (rcvd @ [(dgram, src)]) dn s'"
proof -
  let ?pkt = "take MAXIMUM_UDP_PAYLOAD_SIZE dgram"
  let ?s = "s\<lparr>ul_flow := flow_apply (UdpRx (of_nat (length ?pkt))) (ul_flow s)\<rparr>"
  have s1: "assoc_ok content (rcvd @ [(dgram, src)]) dn ?s" using s by (rule assoc_ok_more)
  consider "s' = ?s" | assoc s2 where "get_or_associate C created src ?s = Ret (assoc, s2)" "assoc_send assoc ?pkt s2 = Ret s'"
    using r by (auto simp: listen_recv_def Let_def rust_bind_Ret_iff split: if_splits)
  then show ?thesis
  proof cases
    case 2
    obtain src' pkts where q: "assoc_ok content (rcvd @ [(dgram, src)]) dn s2" "ul_queues s2 assoc = Some (src', pkts)"
        "show_socket_addr src' = show_socket_addr src"
      using get_or_associate_ok [OF C s1 2(1)] by blast
    have "of_client (rcvd @ [(dgram, src)]) (?pkt, src')" using q(3) by (auto simp: of_client_def)
    with assoc_send_ok [OF q(1) 2(2) q(2)] show ?thesis by blast
  qed (use s1 in simp)
qed

lemma listen_respond_ok:
  assumes C: "lru_ok C content purge" and s: "assoc_ok content rcvd dn s"
  shows "assoc_ok content rcvd dn (listen_respond C sent src pkt s)"
proof -
  obtain r cache where get: "lru_get C (ul_assoc s) (show_socket_addr src) = (r, cache)"
    by (cases "lru_get C (ul_assoc s) (show_socket_addr src)")
  have "content cache k = Some i \<Longrightarrow> content (ul_assoc s) k = Some i" for k i
    by (rule lru_okD(2) [OF C get])
  with s get show ?thesis
    by (auto simp: listen_respond_def assoc_ok_def split: option.splits sum.splits)
qed

lemma listen_run_ok:
  assumes C: "lru_ok C content purge" and "content cache = Map.empty"
  shows "listen_run A C purge ctx cache rcvd dn s \<Longrightarrow> assoc_ok content rcvd dn s"
proof (induction rule: listen_run.induct)
  case start
  then show ?case using assms(2) by (simp add: assoc_ok_def listen_start_def)
next
  case (receive rcvd dn s created dgram src s')
  then show ?case using listen_recv_ok [OF C] by blast
next
  case (timeout rcvd dn s)
  show ?case by (rule assoc_ok_cache [OF timeout.IH lru_okD(4) [OF C]])
next
  case (relay rcvd dn s assoc src pkt pkts)
  then have new: "\<forall>p \<in> set pkts. of_client rcvd (p, src)" and "of_client rcvd (pkt, src)"
    unfolding assoc_ok_def by fastforce+
  then show ?case using assoc_ok_queue [OF relay.IH relay.hyps(2) new] by (simp add: assoc_ok_def)
next
  case (respond rcvd dn s sent src pkt)
  then show ?case using listen_respond_ok [OF C] by blast
qed

section \<open>Properties\<close>

text \<open>
  C12. The server keeps clients apart: in every history of received datagrams, timeouts, responses and
  steps of the associations, whatever the cache expires, a packet that an association relays was
  received, cut to the maximal size, from a client with the address that the association was
  created for and to which it sends its replies.
\<close>

theorem udp_clients_isolated:
  assumes "lru_ok C content purge" and "content cache = Map.empty"
    and "listen_run A C purge ctx cache rcvd dn s"
  shows "list_all (of_client rcvd) dn
       \<and> (\<forall>i src pkts. ul_queues s i = Some (src, pkts) \<longrightarrow> list_all (\<lambda>p. of_client rcvd (p, src)) pkts)"
  using listen_run_ok [OF assms] by (auto simp: assoc_ok_def list_all_iff)

definition sample_lru :: "(string, nat, string \<rightharpoonup> nat) lru_ops" where
  "sample_lru = \<lparr>lru_with_capacity = \<lambda>_. Map.empty, lru_insert = \<lambda>l k v. l(k \<mapsto> v), lru_get = \<lambda>l k. (l k, l)\<rparr>"

lemma sample_lru_ok: "lru_ok sample_lru (\<lambda>l. l) (\<lambda>_. Map.empty)"
  by (simp add: lru_ok_def sample_lru_def)

theorem udp_clients_isolated_witness:
  "\<exists>s. listen_run sample_acl_lib sample_lru (\<lambda>_. Map.empty) sample_context Map.empty
      [([1, 2], SocketAddrV4 (Ipv4Addr 127 0 0 1) 5353)] [([1, 2], SocketAddrV4 (Ipv4Addr 127 0 0 1) 5353)] s
    \<and> list_all (of_client [([1, 2], SocketAddrV4 (Ipv4Addr 127 0 0 1) 5353)]) [([1, 2], SocketAddrV4 (Ipv4Addr 127 0 0 1) 5353)]"
proof -
  let ?a = "SocketAddrV4 (Ipv4Addr 127 0 0 1) 5353"
  have allowed: "\<not> ctx_check_client_blocked sample_acl_lib sample_context ?a"
    by (simp add: ctx_check_client_blocked_def sample_context_def Context_new_def Config_new_def)
  have "\<exists>s. listen_recv sample_acl_lib sample_lru sample_context (Inr ()) [1, 2] ?a (listen_start Map.empty) = Ret s
      \<and> ul_queues s 0 = Some (?a, [[1, 2]])"
    using allowed
    by (simp add: listen_recv_def get_or_associate_def assoc_send_def sample_lru_def listen_start_def
        MAXIMUM_UDP_PAYLOAD_SIZE_def Let_def)
  then obtain s where s: "listen_recv sample_acl_lib sample_lru sample_context (Inr ()) [1, 2] ?a (listen_start Map.empty) = Ret s"
      "ul_queues s 0 = Some (?a, [[1, 2]])" by blast
  have "listen_run sample_acl_lib sample_lru (\<lambda>_. Map.empty) sample_context Map.empty [([1, 2], ?a)] [] s"
    using receive [OF start s(1)] by simp
  from relay [OF this s(2)] have run: "listen_run sample_acl_lib sample_lru (\<lambda>_. Map.empty) sample_context Map.empty [([1, 2], ?a)]
      [([1, 2], ?a)] (s\<lparr>ul_queues := (ul_queues s)(0 := Some (?a, []))\<rparr>)" by simp
  have cache: "(\<lambda>l. l) Map.empty = (Map.empty :: string \<rightharpoonup> nat)" by simp
  from run udp_clients_isolated [OF sample_lru_ok cache run] show ?thesis by blast
qed

text \<open>
  A response to the application carries the application's own address in its header, not the address of
  the remote end that RFC 1928 asks for.
\<close>

lemma local_response_names_client:
  assumes "local_respond C sent src pkt s = Ret (Some dgram, s')"
  shows "parse_packet dgram = Inr (wire_address (SocketAddress src), pkt)"
proof -
  have "assemble_packet (SocketAddress src) pkt = Ret dgram"
    using assms by (auto simp: local_respond_def rust_bind_Ret_iff split: prod.splits option.splits)
  with assemble_parse_packet [of "SocketAddress src" pkt] show ?thesis by auto
qed


end
