(* ===== verification/Udp_Local.thy ===== *)
theory Udp_Local
  imports Udp_Server
begin

text \<open>
  The local side of the UDP relay as a whole: the associations of \<^verbatim>\<open>association.rs\<close> in their three variants, with the tasks that
  serve them, and the listeners of \<^verbatim>\<open>tunnel_local.rs\<close> and \<^verbatim>\<open>redir_local.rs\<close>. A history is any sequence of steps of the
  listener and of the tasks.
\<close>

section \<open>Environment and associations\<close>

record ('c, 'b, 'n, 'm, 'r, 's, 'x, 'k, 'l) udp_env =
  ue_lib :: "'c crypto_lib"
  ue_bloom :: "'b bloom_ops"
  ue_acl :: "('n, 'm, 'r, 's, 'x) acl_lib"
  ue_reverse :: "(ip_addr, string, 'k) lru_ops"
  ue_rnd :: "nat \<Rightarrow> nat \<Rightarrow> bytes"
  ue_dns_relay :: bool
  ue_android :: bool
  ue_resolve :: resolver
  ue_cache :: "(string, nat, 'l) lru_ops"

text \<open>
  An association: the task that sends takes its packets from a queue. Which task that is was decided when the association
  was created.
\<close>

datatype l2r_task = L2rProxied | L2rBypassed | L2rAcl

record ProxyAssociation =
  pa_src :: socket_addr
  pa_server :: ServerConfig
  pa_task :: l2r_task
  pa_rx :: "(Address \<times> bytes) list"

text \<open>The outcome of each \<^verbatim>\<open>create_udp_socket_with_context\<close> is an argument.\<close>

definition new_association :: "socket_addr \<Rightarrow> ServerConfig \<Rightarrow> l2r_task \<Rightarrow> ProxyAssociation" where
  "new_association src server task = \<lparr>pa_src = src, pa_server = server, pa_task = task, pa_rx = []\<rparr>"

definition associate_proxied :: "io_error + unit \<Rightarrow> socket_addr \<Rightarrow> ServerConfig \<Rightarrow> io_error + ProxyAssociation" where
  "associate_proxied remote_udp src server = bind_res remote_udp (\<lambda>_. Inr (new_association src server L2rProxied))"

definition associate_bypassed :: "io_error + unit \<Rightarrow> socket_addr \<Rightarrow> ServerConfig \<Rightarrow> io_error + ProxyAssociation" where
  "associate_bypassed remote_udp src server = bind_res remote_udp (\<lambda>_. Inr (new_association src server L2rBypassed))"

definition associate_with_acl ::
    "io_error + unit \<Rightarrow> io_error + unit \<Rightarrow> socket_addr \<Rightarrow> ServerConfig \<Rightarrow> io_error + ProxyAssociation" where
  "associate_with_acl remote_udp bypass_udp src server =
     bind_res remote_udp (\<lambda>_. bind_res bypass_udp (\<lambda>_. Inr (new_association src server L2rAcl)))"

definition pa_send :: "Address \<Rightarrow> bytes \<Rightarrow> ProxyAssociation \<Rightarrow> ProxyAssociation" where
  "pa_send target payload a = a\<lparr>pa_rx := pa_rx a @ [(target, payload)]\<rparr>"

text \<open>One round of each sending task; errors are logged.\<close>

definition l2r_packet_proxied ::
    "('c, 'b, 'n, 'm, 'r, 's, 'x, 'k, 'l) udp_env \<Rightarrow> 'w udp_socket \<Rightarrow> ServerConfig \<Rightarrow> Address \<times> bytes \<Rightarrow>
     ('b, 'r, 's, 'x, 'k) Context \<Rightarrow> 'w \<Rightarrow> (('b, 'r, 's, 'x, 'k) Context \<times> 'w) rust option" where
  "l2r_packet_proxied E remote_sender svr_cfg pkt context w =
     (case pkt of
        (addr, payload) \<Rightarrow>
          map_option (\<lambda>x. rust_bind x (\<lambda>(_, context, w). Ret (context, w)))
            (send_packet_proxied (ue_lib E) (ue_bloom E) (ue_rnd E) (ue_android E) (ue_resolve E) remote_sender context svr_cfg addr payload w))"

definition l2r_packet_bypassed ::
    "('c, 'b, 'n, 'm, 'r, 's, 'x, 'k, 'l) udp_env \<Rightarrow> 'w udp_socket \<Rightarrow> Address \<times> bytes \<Rightarrow> 'w \<Rightarrow> 'w rust" where
  "l2r_packet_bypassed E remote_sender pkt w =
     (case pkt of (addr, payload) \<Rightarrow> rust_bind (send_packet_bypassed (ue_resolve E) remote_sender addr payload w) (\<lambda>(_, w). Ret w))"

definition l2r_packet ::
    "('c, 'b, 'n, 'm, 'r, 's, 'x, 'k, 'l) udp_env \<Rightarrow> 'w udp_socket \<Rightarrow> 'w udp_socket \<Rightarrow> ProxyAssociation \<Rightarrow> Address \<times> bytes \<Rightarrow>
     ('b, 'r, 's, 'x, 'k) Context \<Rightarrow> 'w \<Rightarrow> (('b, 'r, 's, 'x, 'k) Context \<times> 'w) rust option" where
  "l2r_packet E bypass_sender remote_sender a pkt context w =
     (case pa_task a of
        L2rProxied \<Rightarrow> l2r_packet_proxied E remote_sender (pa_server a) pkt context w
      | L2rBypassed \<Rightarrow> Some (rust_bind (l2r_packet_bypassed E bypass_sender pkt w) (\<lambda>w. Ret (context, w)))
      | L2rAcl \<Rightarrow>
          l2r_packet_acl (ue_lib E) (ue_bloom E) (ue_acl E) (ue_reverse E) (ue_rnd E) (ue_dns_relay E) (ue_android E) (ue_resolve E)
            bypass_sender remote_sender (pa_server a) pkt context w)"

text \<open>
  One round of a receiving task: the payload for the client, if any. Every association runs this task on each of its
  sockets, also on the one that talks to targets directly.
\<close>

definition r2l_packet ::
    "('c, 'b, 'n, 'm, 'r, 's, 'x, 'k, 'l) udp_env \<Rightarrow> ProxyAssociation \<Rightarrow> io_error + bytes \<Rightarrow> ('b, 'r, 's, 'x, 'k) Context \<Rightarrow>
     (bytes option \<times> ('b, 'r, 's, 'x, 'k) Context) rust" where
  "r2l_packet E a received context =
     rust_bind (recv_packet_proxied (ue_lib E) (ue_bloom E) (ue_android E) context (pa_server a) received) (\<lambda>(res, context).
       Ret (case res of Inl _ \<Rightarrow> None | Inr payload \<Rightarrow> Some payload, context))"

section \<open>The listeners\<close>

record ('b, 'r, 's, 'x, 'k, 'l, 'w) udp_local =
  lo_assoc_map :: 'l
  lo_assocs :: "nat \<Rightarrow> ProxyAssociation option"
  lo_next :: nat
  lo_context :: "('b, 'r, 's, 'x, 'k) Context"
  lo_net :: 'w

definition local_start :: "'l \<Rightarrow> ('b, 'r, 's, 'x, 'k) Context \<Rightarrow> 'w \<Rightarrow> ('b, 'r, 's, 'x, 'k, 'l, 'w) udp_local" where
  "local_start cache context w =
     \<lparr>lo_assoc_map = cache, lo_assocs = (\<lambda>_. None), lo_next = 0, lo_context = context, lo_net = w\<rparr>"

text \<open>
  The association under a key of the map. A new one is \<open>Ret (Inl ())\<close> when the listener goes on without it, and a panic
  when its sockets cannot be created.
\<close>

definition local_entry ::
    "('c, 'b, 'n, 'm, 'r, 's, 'x, 'k, 'l) udp_env \<Rightarrow> string \<Rightarrow> (unit + (io_error + ProxyAssociation)) \<Rightarrow>
     ('b, 'r, 's, 'x, 'k, 'l, 'w) udp_local \<Rightarrow> ((unit + nat) \<times> ('b, 'r, 's, 'x, 'k, 'l, 'w) udp_local) rust" where
  "local_entry E key new s =
     (case lru_get (ue_cache E) (lo_assoc_map s) key of
        (Some assoc, cache) \<Rightarrow> Ret (Inr assoc, s\<lparr>lo_assoc_map := cache\<rparr>)
      | (None, cache) \<Rightarrow>
          (case new of
             Inl _ \<Rightarrow> Ret (Inl (), s\<lparr>lo_assoc_map := cache\<rparr>)
           | Inr (Inl _) \<Rightarrow> Panic
           | Inr (Inr a) \<Rightarrow>
               Ret (Inr (lo_next s),
                    s\<lparr>lo_assoc_map := lru_insert (ue_cache E) cache key (lo_next s), lo_assocs := (lo_assocs s)(lo_next s \<mapsto> a),
                      lo_next := lo_next s + 1\<rparr>)))"

definition local_send ::
    "nat \<Rightarrow> Address \<Rightarrow> bytes \<Rightarrow> ('b, 'r, 's, 'x, 'k, 'l, 'w) udp_local \<Rightarrow> ('b, 'r, 's, 'x, 'k, 'l, 'w) udp_local rust" where
  "local_send assoc target payload s =
     (case lo_assocs s assoc of
        None \<Rightarrow> Panic
      | Some a \<Rightarrow> Ret (s\<lparr>lo_assocs := (lo_assocs s)(assoc \<mapsto> pa_send target payload a)\<rparr>))"

text \<open>One round of the receiving loop of the tunnel, for a datagram \<open>dgram\<close> from \<open>src\<close>; \<open>server\<close> is the picked server.\<close>

definition tunnel_recv ::
    "('c, 'b, 'n, 'm, 'r, 's, 'x, 'k, 'l) udp_env \<Rightarrow> io_error + unit \<Rightarrow> io_error + unit \<Rightarrow> ServerConfig \<Rightarrow> Address \<Rightarrow> bytes \<Rightarrow> socket_addr \<Rightarrow>
     ('b, 'r, 's, 'x, 'k, 'l, 'w) udp_local \<Rightarrow> ('b, 'r, 's, 'x, 'k, 'l, 'w) udp_local rust" where
  "tunnel_recv E remote_udp bypass_udp server forward_target dgram src s =
     (let pkt = take MAXIMUM_UDP_PAYLOAD_SIZE dgram in
      if length pkt = 0 then Ret s
      else
        rust_bind (local_entry E (show_socket_addr src) (Inr (associate_with_acl remote_udp bypass_udp src server)) s) (\<lambda>(r, s).
          case r of Inl _ \<Rightarrow> Ret s | Inr assoc \<Rightarrow> local_send assoc forward_target pkt s))"

text \<open>A response of the tunnel: the datagram for the client, while its association is cached.\<close>

definition tunnel_respond ::
    "('c, 'b, 'n, 'm, 'r, 's, 'x, 'k, 'l) udp_env \<Rightarrow> socket_addr \<Rightarrow> bytes \<Rightarrow> ('b, 'r, 's, 'x, 'k, 'l, 'w) udp_local \<Rightarrow>
     bytes option \<times> ('b, 'r, 's, 'x, 'k, 'l, 'w) udp_local" where
  "tunnel_respond E src pkt s =
     (case lru_get (ue_cache E) (lo_assoc_map s) (show_socket_addr src) of
        (None, cache) \<Rightarrow> (None, s\<lparr>lo_assoc_map := cache\<rparr>)
      | (Some _, cache) \<Rightarrow> (Some pkt, s\<lparr>lo_assoc_map := cache\<rparr>))"

text \<open>One round of the redirecting listener: \<open>bound\<close> is the outcome of binding a socket to the original destination.\<close>

definition redir_key :: "socket_addr \<Rightarrow> socket_addr \<Rightarrow> string" where
  "redir_key src dst = show_socket_addr src @ ''-'' @ show_socket_addr dst"

definition redir_recv ::
    "('c, 'b, 'n, 'm, 'r, 's, 'x, 'k, 'l) udp_env \<Rightarrow> io_error + unit \<Rightarrow> io_error + unit \<Rightarrow> ServerConfig \<Rightarrow> bytes \<Rightarrow> socket_addr \<Rightarrow> socket_addr \<Rightarrow>
     ('b, 'r, 's, 'x, 'k, 'l, 'w) udp_local \<Rightarrow> ('b, 'r, 's, 'x, 'k, 'l, 'w) udp_local rust" where
  "redir_recv E bound remote_udp server dgram src dst s =
     (let pkt = take MAXIMUM_UDP_PAYLOAD_SIZE dgram in
      if length pkt = 0 then Ret s
      else
        let target = SocketAddress dst in
        case ctx_check_target_bypassed (ue_acl E) (ue_reverse E) (ue_dns_relay E) (ue_android E) (ue_resolve E) (lo_context s) target of
          (is_bypassed, context) \<Rightarrow>
            let s = s\<lparr>lo_context := context\<rparr>;
                new = (case bound of
                         Inl _ \<Rightarrow> Inl ()
                       | Inr _ \<Rightarrow> Inr (if is_bypassed then associate_bypassed remote_udp src server else associate_proxied remote_udp src server))
            in rust_bind (local_entry E (redir_key src dst) new s) (\<lambda>(r, s).
                 case r of Inl _ \<Rightarrow> Ret s | Inr assoc \<Rightarrow> local_send assoc target pkt s))"

text \<open>A payload for the client of a redirected association: the socket sends it, and the entry is renewed.\<close>

definition redir_send_packet ::
    "('c, 'b, 'n, 'm, 'r, 's, 'x, 'k, 'l) udp_env \<Rightarrow> io_error + nat \<Rightarrow> string \<Rightarrow> ('b, 'r, 's, 'x, 'k, 'l, 'w) udp_local \<Rightarrow>
     (io_error + unit) \<times> ('b, 'r, 's, 'x, 'k, 'l, 'w) udp_local" where
  "redir_send_packet E sent cache_key s =
     (case sent of
        Inl e \<Rightarrow> (Inl e, s)
      | Inr _ \<Rightarrow> (Inr (), s\<lparr>lo_assoc_map := snd (lru_get (ue_cache E) (lo_assoc_map s) cache_key)\<rparr>))"

section \<open>Keys\<close>

text \<open>The text of a socket address determines its address and port, and the key of a redirected flow both texts.\<close>

lemma digit_char_plain: "d < 16 \<Longrightarrow> digit_char d \<noteq> CHR ''-'' \<and> digit_char d \<noteq> CHR '']'' \<and> digit_char d \<noteq> CHR ''[''"
proof -
  assume "d < 16"
  then have "of_char (digit_char d) = (if d < 10 then 48 + d else 87 + d)" by (simp add: digit_char_def)
  then have "of_char (digit_char d) \<noteq> (45 :: nat)" "of_char (digit_char d) \<noteq> (91 :: nat)" "of_char (digit_char d) \<noteq> (93 :: nat)"
    using \<open>d < 16\<close> by (auto split: if_splits)
  then show ?thesis by auto
qed

definition addr_text :: "string \<Rightarrow> bool" where
  "addr_text s \<longleftrightarrow> CHR ''-'' \<notin> set s \<and> CHR '']'' \<notin> set s \<and> CHR ''['' \<notin> set s"

lemma addr_text_simps [simp]:
  "addr_text []" "addr_text (s @ t) \<longleftrightarrow> addr_text s \<and> addr_text t"
  "addr_text (c # s) \<longleftrightarrow> c \<noteq> CHR ''-'' \<and> c \<noteq> CHR '']'' \<and> c \<noteq> CHR ''['' \<and> addr_text s"
  by (auto simp: addr_text_def)

lemma addr_text_radix:
  assumes "2 \<le> r" and "r \<le> 16"
  shows "addr_text (show_radix r n)"
proof -
  have "c \<noteq> CHR ''-'' \<and> c \<noteq> CHR '']'' \<and> c \<noteq> CHR ''[''" if c: "c \<in> set (show_radix r n)" for c
  proof -
    obtain d where "d < r" "c = digit_char d" using show_radix_chars [of r c n] c assms by auto
    then show ?thesis using digit_char_plain [of d] assms by simp
  qed
  then show ?thesis by (auto simp: addr_text_def)
qed

lemma addr_text_u8 [simp]: "addr_text (show_u8 b)" and addr_text_u16 [simp]: "addr_text (show_u16 p)"
  by (simp_all add: show_u8_def show_u16_def addr_text_radix)

lemma addr_text_ipv4 [simp]: "addr_text (show_ipv4 a)"
  by (cases a) simp

lemma addr_text_groups: "addr_text (show_groups gs)"
  by (induction gs rule: show_groups.induct) (simp_all add: show_seg_def addr_text_radix)

lemma addr_text_ipv6 [simp]: "addr_text (show_ipv6 a)"
  by (simp add: show_ipv6_def Let_def addr_text_groups split: prod.split)

lemma no_dash_socket_addr: "CHR ''-'' \<notin> set (show_socket_addr a)"
  using addr_text_ipv4 addr_text_ipv6 addr_text_u16 by (cases a) (auto simp: addr_text_def)

lemma append_sep_inj: "\<lbrakk>c \<notin> set s; c \<notin> set s'; s @ c # t = s' @ c # t'\<rbrakk> \<Longrightarrow> s = s' \<and> t = t'"
proof (induction s arbitrary: s')
  case Nil
  then show ?case by (cases s') auto
next
  case (Cons a s)
  then show ?case by (cases s') auto
qed

lemma show_u16_inj: "show_u16 p = show_u16 q \<Longrightarrow> p = q"
  using parse_socket_addr_show_v4 [of _ p] parse_socket_addr_show_v4 [of _ q] by (metis option.inject socket_addr.inject(1))

lemma v4_text_not_v6: "show_socket_addr (SocketAddrV4 ip p) \<noteq> show_socket_addr (SocketAddrV6 ip' p' f s)"
proof -
  have "CHR ''['' \<notin> set (show_socket_addr (SocketAddrV4 ip p))"
    using addr_text_ipv4 [of ip] addr_text_u16 [of p] by (simp add: addr_text_def)
  then show ?thesis by (metis list.set_intros(1) append_Cons show_socket_addr.simps(2))
qed

lemma show_socket_addr_inj:
  assumes "show_socket_addr a = show_socket_addr b"
  shows "sock_ip a = sock_ip b \<and> sock_port a = sock_port b"
proof (cases a; cases b)
  fix ip p ip' p' assume "a = SocketAddrV4 ip p" "b = SocketAddrV4 ip' p'"
  moreover have "parse_socket_addr (show_socket_addr a) = parse_socket_addr (show_socket_addr b)" using assms by simp
  ultimately show ?thesis by simp
next
  fix ip p f s ip' p' f' s' assume ab: "a = SocketAddrV6 ip p f s" "b = SocketAddrV6 ip' p' f' s'"
  have "show_ipv6 ip = show_ipv6 ip' \<and> CHR '':'' # show_u16 p = CHR '':'' # show_u16 p'"
    using addr_text_ipv6 [of ip] addr_text_ipv6 [of ip'] assms ab
    by (intro append_sep_inj [of "CHR '']''"]) (simp_all add: addr_text_def)
  then have "parse_ipv6 (show_ipv6 ip) = parse_ipv6 (show_ipv6 ip')" "p = p'" using show_u16_inj by simp_all
  then show ?thesis using ab by simp
next
  fix ip p ip' p' f s assume "a = SocketAddrV4 ip p" "b = SocketAddrV6 ip' p' f s"
  then show ?thesis using assms v4_text_not_v6 by metis
next
  fix ip p ip' p' f s assume "a = SocketAddrV6 ip' p' f s" "b = SocketAddrV4 ip p"
  then show ?thesis using assms v4_text_not_v6 by metis
qed

lemma redir_key_inj:
  assumes "redir_key src dst = redir_key src' dst'"
  shows "show_socket_addr src = show_socket_addr src' \<and> show_socket_addr dst = show_socket_addr dst'"
  using append_sep_inj [OF no_dash_socket_addr no_dash_socket_addr, of src "show_socket_addr dst" src' "show_socket_addr dst'"] assms
  by (simp add: redir_key_def)

section \<open>Histories of the redirecting listener\<close>

text \<open>A network that logs what is sent, and whether it is sent directly; \<open>out\<close> is the outcome of each send.\<close>

type_synonym udp_log = "(bool \<times> bytes \<times> socket_addr) list"

definition log_socket :: "(bytes \<Rightarrow> socket_addr \<Rightarrow> nat \<Rightarrow> io_error + nat) \<Rightarrow> bool \<Rightarrow> udp_log udp_socket" where
  "log_socket out direct dgram addr log = (out dgram addr (length log), log @ [(direct, dgram, addr)])"

inductive redir_run ::
    "('c, 'b, 'n, 'm, 'r, 's, 'x, 'k, 'l) udp_env \<Rightarrow> (bytes \<Rightarrow> socket_addr \<Rightarrow> nat \<Rightarrow> io_error + nat) \<Rightarrow> ('l \<Rightarrow> 'l) \<Rightarrow> 'l \<Rightarrow> ('b, 'r, 's, 'x, 'k) Context \<Rightarrow>
     (bytes \<times> socket_addr \<times> socket_addr) list \<Rightarrow> ('b, 'r, 's, 'x, 'k, 'l, udp_log) udp_local \<Rightarrow> bool"
  for E out purge cache ctx where
  start: "redir_run E out purge cache ctx [] (local_start cache ctx [])"
| receive: "\<lbrakk>redir_run E out purge cache ctx rcvd s; redir_recv E bound created server dgram src dst s = Ret s'\<rbrakk>
    \<Longrightarrow> redir_run E out purge cache ctx (rcvd @ [(take MAXIMUM_UDP_PAYLOAD_SIZE dgram, src, dst)]) s'"
| timeout: "redir_run E out purge cache ctx rcvd s \<Longrightarrow>
    redir_run E out purge cache ctx rcvd (s\<lparr>lo_assoc_map := purge (lo_assoc_map s)\<rparr>)"
| relay: "\<lbrakk>redir_run E out purge cache ctx rcvd s; lo_assocs s i = Some a; pa_rx a = pkt # pkts;
      l2r_packet E (log_socket out True) (log_socket out False) a pkt (lo_context s) (lo_net s) = Some (Ret (ctx', log'))\<rbrakk>
    \<Longrightarrow> redir_run E out purge cache ctx rcvd
          (s\<lparr>lo_assocs := (lo_assocs s)(i \<mapsto> a\<lparr>pa_rx := pkts\<rparr>), lo_context := ctx', lo_net := log'\<rparr>)"
| reply: "\<lbrakk>redir_run E out purge cache ctx rcvd s; lo_assocs s i = Some a; r2l_packet E a received (lo_context s) = Ret (None, ctx')\<rbrakk>
    \<Longrightarrow> redir_run E out purge cache ctx rcvd (s\<lparr>lo_context := ctx'\<rparr>)"
| deliver: "\<lbrakk>redir_run E out purge cache ctx rcvd s; lo_assocs s i = Some a; r2l_packet E a received (lo_context s) = Ret (Some payload, ctx')\<rbrakk>
    \<Longrightarrow> redir_run E out purge cache ctx rcvd (snd (redir_send_packet E sent key (s\<lparr>lo_context := ctx'\<rparr>)))"

text \<open>Sending and receiving leave the configuration alone, and without the DNS relay so does the access control list.\<close>

lemma send_packet_proxied_config:
  "send_packet_proxied L B rnd android resolve sock ctx cfg target payload w = Some (Ret (res, ctx', w')) \<Longrightarrow> ctx_config ctx' = ctx_config ctx"
  by (auto simp: send_packet_proxied_def Let_def split: rust.splits option.splits sum.splits prod.splits rust_bind_splits if_splits)

lemma recv_packet_proxied_config:
  "recv_packet_proxied L B android ctx cfg received = Ret (res, ctx') \<Longrightarrow> ctx_config ctx' = ctx_config ctx"
  by (auto simp: recv_packet_proxied_def Let_def split: option.splits sum.splits prod.splits rust_bind_splits if_splits)

lemma r2l_packet_config: "r2l_packet E a received ctx = Ret (res, ctx') \<Longrightarrow> ctx_config ctx' = ctx_config ctx"
  by (auto simp: r2l_packet_def rust_bind_Ret_iff dest: recv_packet_proxied_config)

definition redir_bypassed ::
    "('c, 'b, 'n, 'm, 'r, 's, 'x, 'k, 'l) udp_env \<Rightarrow> ('b, 'r, 's, 'x, 'k) Context \<Rightarrow> socket_addr \<Rightarrow> bool" where
  "redir_bypassed E ctx dst \<longleftrightarrow>
     (case cfg_acl (ctx_config ctx) of
        None \<Rightarrow> False
      | Some acl \<Rightarrow> acl_check_target_bypassed (ue_acl E) (ue_android E) (ue_resolve E) acl (SocketAddress dst))"

lemma ctx_check_redir:
  "\<not> ue_dns_relay E \<Longrightarrow> ctx_check_target_bypassed (ue_acl E) (ue_reverse E) (ue_dns_relay E) (ue_android E) (ue_resolve E) ctx (SocketAddress dst)
     = (redir_bypassed E ctx dst, ctx)"
  by (auto simp: ctx_check_target_bypassed_def redir_bypassed_def split: option.split)

lemma redir_bypassed_config: "ctx_config ctx' = ctx_config ctx \<Longrightarrow> redir_bypassed E ctx' = redir_bypassed E ctx"
  by (intro ext) (simp add: redir_bypassed_def)

lemma redir_bypassed_text:
  assumes "show_socket_addr dst = show_socket_addr dst'"
  shows "redir_bypassed E ctx dst = redir_bypassed E ctx dst'"
  using show_socket_addr_inj [OF assms]
  by (simp add: redir_bypassed_def acl_check_target_bypassed_def check_address_matched_def check_ip_matched_def split: option.split)

lemma send_to_server_direct:
  assumes "send_to_server resolve (log_socket out False) addr dgram log = Ret (res, log')" and "(True, d, x) \<in> set log'"
  shows "(True, d, x) \<in> set log"
proof -
  let ?I = "\<lambda>w. (True, d, x) \<in> set w \<longrightarrow> (True, d, x) \<in> set log"
  have step: "?I w \<Longrightarrow> ?I (snd (log_socket out False dgram a w))" for a w
    by (simp add: log_socket_def)
  show ?thesis
  proof (cases addr)
    case (SvrSocketAddr a)
    then have "log' = snd (log_socket out False dgram a log)" using assms(1) by (simp add: send_to_server_def prod_eq_iff)
    with step [of log a] assms(2) show ?thesis by simp
  next
    case (SvrDomainName dname port)
    then obtain r where "lookup_then resolve dname port (log_socket out False dgram) log = Ret (r, log')"
      using assms(1) by (auto simp: send_to_server_def rust_bind_Ret_iff)
    from lookup_then_inv [where I = ?I, OF this step] assms(2) show ?thesis by simp
  qed
qed

lemma send_packet_proxied_direct:
  assumes "send_packet_proxied L B rnd android resolve (log_socket out False) ctx cfg target payload log = Some (Ret (res, ctx', log'))"
    and "(True, d, x) \<in> set log'"
  shows "(True, d, x) \<in> set log"
  using assms
  by (auto simp: send_packet_proxied_def Let_def split: rust.splits option.splits sum.splits prod.splits rust_bind_splits if_splits
      intro: send_to_server_direct)

section \<open>The invariant\<close>

definition redir_task :: "('c, 'b, 'n, 'm, 'r, 's, 'x, 'k, 'l) udp_env \<Rightarrow> ('b, 'r, 's, 'x, 'k) Context \<Rightarrow> socket_addr \<Rightarrow> l2r_task" where
  "redir_task E ctx dst = (if redir_bypassed E ctx dst then L2rBypassed else L2rProxied)"

definition flow_ok ::
    "('c, 'b, 'n, 'm, 'r, 's, 'x, 'k, 'l) udp_env \<Rightarrow> ('b, 'r, 's, 'x, 'k) Context \<Rightarrow> (bytes \<times> socket_addr \<times> socket_addr) list \<Rightarrow>
     ProxyAssociation \<Rightarrow> bool" where
  "flow_ok E ctx rcvd a \<longleftrightarrow>
     (\<forall>t p. (t, p) \<in> set (pa_rx a) \<longrightarrow> (\<exists>src dst. t = SocketAddress dst \<and> (p, src, dst) \<in> set rcvd \<and> pa_task a = redir_task E ctx dst))"

definition redir_ok ::
    "('c, 'b, 'n, 'm, 'r, 's, 'x, 'k, 'l) udp_env \<Rightarrow> ('b, 'r, 's, 'x, 'k) Context \<Rightarrow> ('l \<Rightarrow> string \<rightharpoonup> nat) \<Rightarrow>
     (bytes \<times> socket_addr \<times> socket_addr) list \<Rightarrow> ('b, 'r, 's, 'x, 'k, 'l, udp_log) udp_local \<Rightarrow> bool" where
  "redir_ok E ctx content rcvd s \<longleftrightarrow>
     ctx_config (lo_context s) = ctx_config ctx
   \<and> (\<forall>k i. content (lo_assoc_map s) k = Some i \<longrightarrow>
        (\<exists>a src dst. lo_assocs s i = Some a \<and> k = redir_key src dst \<and> pa_task a = redir_task E ctx dst))
   \<and> (\<forall>i a. lo_assocs s i = Some a \<longrightarrow> i < lo_next s \<and> flow_ok E ctx rcvd a)
   \<and> (\<forall>d x. (True, d, x) \<in> set (lo_net s) \<longrightarrow> redir_bypassed E ctx x \<and> (\<exists>src. (d, src, x) \<in> set rcvd))"

lemma flow_ok_mono: "flow_ok E ctx rcvd a \<Longrightarrow> flow_ok E ctx (rcvd @ new) a"
  unfolding flow_ok_def by (metis UnI1 set_append)

lemma redir_ok_mono: "redir_ok E ctx content rcvd s \<Longrightarrow> redir_ok E ctx content (rcvd @ new) s"
  unfolding redir_ok_def using flow_ok_mono by (metis UnI1 set_append)

lemma redir_ok_cache:
  assumes "redir_ok E ctx content rcvd s" and "\<And>k i. content cache k = Some i \<Longrightarrow> content (lo_assoc_map s) k = Some i"
  shows "redir_ok E ctx content rcvd (s\<lparr>lo_assoc_map := cache\<rparr>)"
  using assms unfolding redir_ok_def by simp

lemma redir_ok_assoc:
  assumes "redir_ok E ctx content rcvd s" and "lo_assocs s i = Some a" and "flow_ok E ctx rcvd a'" and "pa_task a' = pa_task a"
  shows "redir_ok E ctx content rcvd (s\<lparr>lo_assocs := (lo_assocs s)(i \<mapsto> a')\<rparr>)"
proof -
  have "\<exists>b src dst. ((lo_assocs s)(i \<mapsto> a')) j = Some b \<and> k = redir_key src dst \<and> pa_task b = redir_task E ctx dst"
    if "content (lo_assoc_map s) k = Some j" for k j
    using assms(1,2,4) that unfolding redir_ok_def by (cases "j = i") fastforce+
  then show ?thesis using assms unfolding redir_ok_def by simp
qed

lemma local_entry_ok:
  assumes C: "lru_ok (ue_cache E) content purge" and s: "redir_ok E ctx content rcvd s"
    and r: "local_entry E (redir_key src dst) new s = Ret (Inr i, s')"
    and new: "\<And>a. new = Inr (Inr a) \<Longrightarrow> pa_task a = redir_task E ctx dst \<and> pa_rx a = []"
  shows "redir_ok E ctx content rcvd s' \<and> (\<exists>a. lo_assocs s' i = Some a \<and> pa_task a = redir_task E ctx dst)"
proof -
  obtain g cache where get: "lru_get (ue_cache E) (lo_assoc_map s) (redir_key src dst) = (g, cache)"
    by (cases "lru_get (ue_cache E) (lo_assoc_map s) (redir_key src dst)")
  have sub: "content cache k = Some j \<Longrightarrow> content (lo_assoc_map s) k = Some j" for k j
    by (rule lru_okD(2) [OF C get])
  have cached: "redir_ok E ctx content rcvd (s\<lparr>lo_assoc_map := cache\<rparr>)" by (rule redir_ok_cache [OF s sub])
  show ?thesis
  proof (cases g)
    case (Some j)
    with r get have s': "i = j" "s' = s\<lparr>lo_assoc_map := cache\<rparr>" by (simp_all add: local_entry_def)
    have "content (lo_assoc_map s) (redir_key src dst) = Some j" using lru_okD(1) [OF C] get Some by blast
    then obtain a src' dst' where "lo_assocs s j = Some a" "redir_key src dst = redir_key src' dst'" "pa_task a = redir_task E ctx dst'"
      using s unfolding redir_ok_def by blast
    moreover from this have "redir_task E ctx dst' = redir_task E ctx dst"
      using redir_key_inj redir_bypassed_text by (metis redir_task_def)
    ultimately show ?thesis using cached s' by simp
  next
    case None
    with r get obtain a where a: "new = Inr (Inr a)" "i = lo_next s"
        "s' = s\<lparr>lo_assoc_map := lru_insert (ue_cache E) cache (redir_key src dst) (lo_next s), lo_assocs := (lo_assocs s)(lo_next s \<mapsto> a),
                lo_next := lo_next s + 1\<rparr>"
      by (auto simp: local_entry_def split: sum.splits)
    note t = new [OF a(1)]
    have old: "lo_assocs s j = Some b \<Longrightarrow> j \<noteq> lo_next s" for j b
      using s unfolding redir_ok_def by (metis less_irrefl)
    have "\<exists>b src' dst'. lo_assocs s' j = Some b \<and> k = redir_key src' dst' \<and> pa_task b = redir_task E ctx dst'"
      if e: "content (lo_assoc_map s') k = Some j" for k j
    proof (cases "k = redir_key src dst")
      case True
      then have "j = lo_next s" using lru_okD(3) [OF C, of cache "redir_key src dst" "lo_next s" k j] e a(3) by simp
      with True t a(3) show ?thesis by auto
    next
      case False
      then have "content (lo_assoc_map s) k = Some j"
        using lru_okD(3) [OF C, of cache "redir_key src dst" "lo_next s" k j] e a(3) sub by simp
      then obtain b src' dst' where "lo_assocs s j = Some b" "k = redir_key src' dst'" "pa_task b = redir_task E ctx dst'"
        using s unfolding redir_ok_def by blast
      with old a(3) show ?thesis by auto
    qed
    moreover have "\<forall>j b. lo_assocs s' j = Some b \<longrightarrow> j < lo_next s' \<and> flow_ok E ctx rcvd b"
      using s a(3) t by (auto simp: redir_ok_def flow_ok_def less_Suc_eq)
    ultimately show ?thesis using s a t by (simp add: redir_ok_def)
  qed
qed

lemma redir_recv_ok:
  assumes C: "lru_ok (ue_cache E) content purge" and nodns: "\<not> ue_dns_relay E" and s: "redir_ok E ctx content rcvd s"
    and r: "redir_recv E bound created server dgram src dst s = Ret s'"
  shows "redir_ok E ctx content (rcvd @ [(take MAXIMUM_UDP_PAYLOAD_SIZE dgram, src, dst)]) s'"
proof (cases "take MAXIMUM_UDP_PAYLOAD_SIZE dgram = []")
  case True
  with r s show ?thesis by (auto simp: redir_recv_def intro: redir_ok_mono)
next
  case False
  let ?pkt = "take MAXIMUM_UDP_PAYLOAD_SIZE dgram" and ?by = "redir_bypassed E (lo_context s) dst"
  let ?new = "case bound of Inl _ \<Rightarrow> Inl ()
     | Inr _ \<Rightarrow> Inr (if ?by then associate_bypassed created src server else associate_proxied created src server)"
  have by_eq: "?by = redir_bypassed E ctx dst" using s redir_bypassed_config unfolding redir_ok_def by metis
  obtain q s1 where e: "local_entry E (redir_key src dst) ?new s = Ret (q, s1)"
      "(case q of Inl _ \<Rightarrow> Ret s1 | Inr i \<Rightarrow> local_send i (SocketAddress dst) ?pkt s1) = Ret s'"
    using r False by (auto simp: redir_recv_def Let_def ctx_check_redir [OF nodns] rust_bind_Ret_iff)
  let ?rcvd = "rcvd @ [(?pkt, src, dst)]"
  have s0: "redir_ok E ctx content ?rcvd s" using s by (rule redir_ok_mono)
  show ?thesis
  proof (cases q)
    case (Inl u)
    then have "\<exists>cache. s' = s\<lparr>lo_assoc_map := cache\<rparr> \<and> lru_get (ue_cache E) (lo_assoc_map s) (redir_key src dst) = (None, cache)"
      using e by (auto simp: local_entry_def split: prod.splits option.splits sum.splits)
    then show ?thesis using redir_ok_cache [OF s0] lru_okD(2) [OF C] by blast
  next
    case (Inr i)
    have "redir_ok E ctx content ?rcvd s1 \<and> (\<exists>a. lo_assocs s1 i = Some a \<and> pa_task a = redir_task E ctx dst)"
      using e(1) Inr
      by (intro local_entry_ok [OF C s0, of src dst ?new])
         (auto simp: by_eq redir_task_def associate_bypassed_def associate_proxied_def new_association_def bind_res_Inr_iff
            split: sum.splits if_splits)
    then obtain a where a: "redir_ok E ctx content ?rcvd s1" "lo_assocs s1 i = Some a" "pa_task a = redir_task E ctx dst" by blast
    have s': "s' = s1\<lparr>lo_assocs := (lo_assocs s1)(i \<mapsto> pa_send (SocketAddress dst) ?pkt a)\<rparr>"
      using e(2) Inr a(2) by (simp add: local_send_def)
    have "flow_ok E ctx ?rcvd a" using a(1,2) by (simp add: redir_ok_def)
    then have "flow_ok E ctx ?rcvd (pa_send (SocketAddress dst) ?pkt a)"
      using a(3) by (auto simp: flow_ok_def pa_send_def)
    then show ?thesis using redir_ok_assoc [OF a(1,2)] s' by (simp add: pa_send_def)
  qed
qed

lemma l2r_redir_ok:
  assumes s: "redir_ok E ctx content rcvd s" and a: "lo_assocs s i = Some a" "pa_rx a = pkt # pkts"
    and r: "l2r_packet E (log_socket out True) (log_socket out False) a pkt (lo_context s) (lo_net s) = Some (Ret (ctx', log'))"
  shows "redir_ok E ctx content rcvd (s\<lparr>lo_assocs := (lo_assocs s)(i \<mapsto> a\<lparr>pa_rx := pkts\<rparr>), lo_context := ctx', lo_net := log'\<rparr>)"
proof -
  obtain t p where pkt: "pkt = (t, p)" by (cases pkt)
  have fl: "flow_ok E ctx rcvd a" using s a(1) by (simp add: redir_ok_def)
  then obtain src dst where dst: "t = SocketAddress dst" "(p, src, dst) \<in> set rcvd" "pa_task a = redir_task E ctx dst"
    using a(2) pkt unfolding flow_ok_def by (metis list.set_intros(1))
  have kept: "ctx_config ctx' = ctx_config (lo_context s) \<and>
      (\<forall>d x. (True, d, x) \<in> set log' \<longrightarrow> (True, d, x) \<in> set (lo_net s) \<or> (redir_bypassed E ctx dst \<and> d = p \<and> x = dst))"
  proof (cases "redir_bypassed E ctx dst")
    case True
    then show ?thesis using r dst pkt
      by (auto simp: l2r_packet_def redir_task_def l2r_packet_bypassed_def send_packet_bypassed_def log_socket_def)
  next
    case False
    then obtain res where "send_packet_proxied (ue_lib E) (ue_bloom E) (ue_rnd E) (ue_android E) (ue_resolve E) (log_socket out False) (lo_context s)
        (pa_server a) t p (lo_net s) = Some (Ret (res, ctx', log'))"
      using r dst(3) pkt by (auto simp: l2r_packet_def redir_task_def l2r_packet_proxied_def rust_bind_Ret_iff)
    then show ?thesis using send_packet_proxied_direct send_packet_proxied_config by metis
  qed
  have sent: "redir_bypassed E ctx x \<and> (\<exists>src. (d, src, x) \<in> set rcvd)" if "(True, d, x) \<in> set log'" for d x
    using that kept dst(2) s unfolding redir_ok_def by blast
  have "flow_ok E ctx rcvd (a\<lparr>pa_rx := pkts\<rparr>)" using fl a(2) by (auto simp: flow_ok_def)
  then have "redir_ok E ctx content rcvd (s\<lparr>lo_assocs := (lo_assocs s)(i \<mapsto> a\<lparr>pa_rx := pkts\<rparr>)\<rparr>)"
    using redir_ok_assoc [OF s a(1)] by simp
  then show ?thesis using kept sent unfolding redir_ok_def by simp
qed

lemma redir_run_ok:
  assumes C: "lru_ok (ue_cache E) content purge" and nodns: "\<not> ue_dns_relay E" and "content cache = Map.empty"
  shows "redir_run E out purge cache ctx rcvd s \<Longrightarrow> redir_ok E ctx content rcvd s"
proof (induction rule: redir_run.induct)
  case start
  then show ?case using assms(3) by (simp add: redir_ok_def local_start_def)
next
  case (receive rcvd s bound created server dgram src dst s')
  then show ?case using redir_recv_ok [OF C nodns] by blast
next
  case (timeout rcvd s)
  show ?case by (rule redir_ok_cache [OF timeout.IH lru_okD(4) [OF C]])
next
  case (relay rcvd s i a pkt pkts ctx' log')
  then show ?case using l2r_redir_ok by blast
next
  case (reply rcvd s i a received ctx')
  then show ?case using r2l_packet_config [OF reply.hyps(3)] by (simp add: redir_ok_def)
next
  case (deliver rcvd s i a received payload ctx' sent key)
  have s1: "redir_ok E ctx content rcvd (s\<lparr>lo_context := ctx'\<rparr>)"
    using deliver.IH r2l_packet_config [OF deliver.hyps(3)] by (simp add: redir_ok_def)
  show ?case
  proof (cases sent)
    case (Inr n)
    show ?thesis
      using redir_ok_cache [OF s1, of "snd (lru_get (ue_cache E) (lo_assoc_map s) key)"] lru_okD(2) [OF C] Inr
      by (simp add: redir_send_packet_def) (metis prod.collapse)
  qed (use s1 in \<open>simp add: redir_send_packet_def\<close>)
qed

section \<open>Properties\<close>


text \<open>
  The receiving task of an association decrypts every datagram with the key of the server, also what a bypassed target sent:
  under an AEAD method no reply shorter than a salt and a tag reaches the client.
\<close>

lemma short_direct_reply_lost:
  assumes "category (sc_method (pa_server a)) = AeadCategory" and "tag_size (ue_lib E) (sc_method (pa_server a)) = Ret t"
    and "salt_size (ue_lib E) (sc_method (pa_server a)) = Ret n" and "length reply < t + n"
  shows "r2l_packet E a (Inr reply) ctx = Ret (None, ctx)"
proof -
  have "length (take MAXIMUM_UDP_PAYLOAD_SIZE reply) < t + n" using assms(4) by simp
  then have "decrypt_payload (ue_lib E) (ue_bloom E) p (sc_method (pa_server a)) key (take MAXIMUM_UDP_PAYLOAD_SIZE reply) = Ret (Inr None, p)" for p key
    using assms(1-3) by (simp add: decrypt_payload_def decrypt_payload_aead_def del: length_take)
  then show ?thesis by (simp add: r2l_packet_def recv_packet_proxied_def Let_def)
qed

text \<open>An example: the flow of one datagram to a bypassed address.\<close>

definition sample_udp_env ::
    "(CryptoMode, bytes list, ipv4_addr, ipv6_addr, ipv4_addr list, ipv6_addr list, string list, unit, string \<rightharpoonup> nat) udp_env" where
  "sample_udp_env =
     \<lparr>ue_lib = sample_lib, ue_bloom = sample_bloom, ue_acl = sample_acl_lib,
      ue_reverse = \<lparr>lru_with_capacity = \<lambda>_. (), lru_insert = \<lambda>l _ _. l, lru_get = \<lambda>l _. (None, l)\<rparr>, ue_rnd = \<lambda>i n. replicate n 5,
      ue_dns_relay = False, ue_android = False, ue_resolve = \<lambda>_ _. Inr [], ue_cache = sample_lru\<rparr>"

definition sample_redir_context :: "(bytes list, ipv4_addr list, ipv6_addr list, string list, unit) Context" where
  "sample_redir_context = sample_context\<lparr>ctx_config := (Config_new RedirLocal)\<lparr>cfg_acl := Some
     (let none = Rules_new sample_acl_lib [] [] [] in
      \<lparr>acl_outbound_block = none, acl_black_list = Rules_new sample_acl_lib [Ipv4Addr 1 2 3 4] [] [], acl_white_list = none,
       acl_mode = BlackList\<rparr>)\<rparr>\<rparr>"

definition sample_dst :: socket_addr where "sample_dst = SocketAddrV4 (Ipv4Addr 1 2 3 4) 80"
definition sample_src :: socket_addr where "sample_src = SocketAddrV4 (Ipv4Addr 127 0 0 1) 5"

lemma sample_redir_bypassed: "redir_bypassed sample_udp_env sample_redir_context sample_dst"
  by (simp add: redir_bypassed_def sample_udp_env_def sample_redir_context_def sample_dst_def acl_check_target_bypassed_def
      check_address_matched_def check_ip_matched_def Rules_new_def sample_acl_lib_def sample_range_ops_def Let_def)

lemma sample_redir_run:
  "\<exists>s. redir_run sample_udp_env (\<lambda>d a n. Inr (length d)) (\<lambda>_. Map.empty) Map.empty sample_redir_context [([9], sample_src, sample_dst)] s
     \<and> lo_net s = [(True, [9], sample_dst)]"
proof -
  let ?run = "redir_run sample_udp_env (\<lambda>d a n. Inr (length d)) (\<lambda>_. Map.empty) Map.empty sample_redir_context"
  let ?a = "\<lparr>pa_src = sample_src, pa_server = sample_server, pa_task = L2rBypassed, pa_rx = [(SocketAddress sample_dst, [9])]\<rparr>"
  let ?s1 = "\<lparr>lo_assoc_map = [redir_key sample_src sample_dst \<mapsto> 0], lo_assocs = [0 \<mapsto> ?a], lo_next = 1,
     lo_context = sample_redir_context, lo_net = []\<rparr>"
  have env: "\<not> ue_dns_relay sample_udp_env" "ue_cache sample_udp_env = sample_lru" by (simp_all add: sample_udp_env_def)
  have c: "ctx_check_target_bypassed (ue_acl sample_udp_env) (ue_reverse sample_udp_env) False (ue_android sample_udp_env) (ue_resolve sample_udp_env)
      sample_redir_context (SocketAddress sample_dst) = (True, sample_redir_context)"
    using ctx_check_redir [OF env(1), of sample_redir_context sample_dst] sample_redir_bypassed env(1) by simp
  have "redir_recv sample_udp_env (Inr ()) (Inr ()) sample_server [9] sample_src sample_dst (local_start Map.empty sample_redir_context []) = Ret ?s1"
    by (simp add: redir_recv_def MAXIMUM_UDP_PAYLOAD_SIZE_def local_start_def local_entry_def c env associate_bypassed_def
        new_association_def local_send_def pa_send_def sample_lru_def Let_def)
  from redir_run.receive [OF redir_run.start this] have r1: "?run [([9], sample_src, sample_dst)] ?s1"
    by (simp add: MAXIMUM_UDP_PAYLOAD_SIZE_def)
  have "l2r_packet sample_udp_env (log_socket (\<lambda>d a n. Inr (length d)) True) (log_socket (\<lambda>d a n. Inr (length d)) False) ?a
      (SocketAddress sample_dst, [9]) (lo_context ?s1) (lo_net ?s1) = Some (Ret (sample_redir_context, [(True, [9], sample_dst)]))"
    by (simp add: l2r_packet_def l2r_packet_bypassed_def send_packet_bypassed_def log_socket_def)
  from redir_run.relay [OF r1 _ _ this, of 0 "[]"] show ?thesis by auto
qed


end
