(* ===== verification/Server_Manager.thy ===== *)
theory Server_Manager
  imports Udp_Relay
begin

text \<open>
  The server manager, \<^verbatim>\<open>src/relay/manager.rs\<close>: a datagram protocol that adds, removes, lists and measures
  servers. JSON and the iteration order of the hash map are parameters; the tasks of a running server
  only show through the traffic counters of its instance.
\<close>

section \<open>Datagram sockets\<close>

text \<open>
  The address of a peer on a Unix socket as the standard library shows it, and the operations of the
  operating system as parameters over a state \<open>'w\<close>.
\<close>

datatype unix_addr = UnixUnnamed | UnixPathname string | UnixAbstract string

datatype ManagerSocketAddr = PeerSocketAddr socket_addr | PeerUnixSocketAddr unix_addr

datatype ManagerDatagram = UdpDatagram | UnixDatagram

record 'w mgr_os =
  os_set_nofile :: "nat \<Rightarrow> 'w \<Rightarrow> (io_error + unit) \<times> 'w"
  os_udp_bind :: "socket_addr \<Rightarrow> 'w \<Rightarrow> (io_error + unit) \<times> 'w"
  os_udp_send :: "'w udp_socket"
  os_remove_file :: "string \<Rightarrow> 'w \<Rightarrow> (io_error + unit) \<times> 'w"
  os_unix_bind :: "string \<Rightarrow> 'w \<Rightarrow> (io_error + unit) \<times> 'w"
  os_unix_unbound :: "'w \<Rightarrow> (io_error + unit) \<times> 'w"
  os_unix_send :: "bytes \<Rightarrow> string \<Rightarrow> 'w \<Rightarrow> (io_error + nat) \<times> 'w"

primrec is_unnamed :: "ManagerSocketAddr \<Rightarrow> bool" where
  "is_unnamed (PeerSocketAddr _) = False"
| "is_unnamed (PeerUnixSocketAddr s) = (s = UnixUnnamed)"

definition ManagerDatagram_bind ::
    "'w mgr_os \<Rightarrow> resolver \<Rightarrow> ManagerAddr \<Rightarrow> 'w \<Rightarrow> ((io_error + ManagerDatagram) \<times> 'w) rust" where
  "ManagerDatagram_bind OS resolve bind_addr w =
     (case bind_addr of
        MgrSocketAddr saddr \<Rightarrow> Ret (map_prod (map_sum id (\<lambda>_. UdpDatagram)) id (os_udp_bind OS saddr w))
      | MgrDomainName dname port \<Rightarrow>
          rust_bind (lookup_then resolve dname port (os_udp_bind OS) w)
            (\<lambda>(res, w). Ret (map_sum id (\<lambda>_. UdpDatagram) res, w))
      | MgrUnixSocketAddr path \<Rightarrow>
          (case os_remove_file OS path w of
             (_, w) \<Rightarrow> Ret (map_prod (map_sum id (\<lambda>_. UnixDatagram)) id (os_unix_bind OS path w))))"

definition ManagerDatagram_bind_for ::
    "'w mgr_os \<Rightarrow> ManagerAddr \<Rightarrow> 'w \<Rightarrow> (io_error + ManagerDatagram) \<times> 'w" where
  "ManagerDatagram_bind_for OS bind_addr w =
     (case bind_addr of
        MgrUnixSocketAddr _ \<Rightarrow> map_prod (map_sum id (\<lambda>_. UnixDatagram)) id (os_unix_unbound OS w)
      | _ \<Rightarrow> map_prod (map_sum id (\<lambda>_. UdpDatagram)) id (os_udp_bind OS (SocketAddrV4 (Ipv4Addr 0 0 0 0) 0) w))"

definition ManagerDatagram_send_to ::
    "'w mgr_os \<Rightarrow> ManagerDatagram \<Rightarrow> bytes \<Rightarrow> ManagerSocketAddr \<Rightarrow> 'w \<Rightarrow> (io_error + nat) \<times> 'w" where
  "ManagerDatagram_send_to OS socket buf target w =
     (case socket of
        UdpDatagram \<Rightarrow>
          (case target of
             PeerSocketAddr saddr \<Rightarrow> os_udp_send OS buf saddr w
           | PeerUnixSocketAddr _ \<Rightarrow> (Inl (IoError InvalidInput ''udp datagram requires IP address target''), w))
      | UnixDatagram \<Rightarrow>
          (case target of
             PeerUnixSocketAddr saddr \<Rightarrow>
               (case saddr of
                  UnixPathname paddr \<Rightarrow> os_unix_send OS buf paddr w
                | _ \<Rightarrow> (Inl (IoError InvalidInput ''target address must not be unnamed''), w))
           | PeerSocketAddr _ \<Rightarrow> (Inl (IoError InvalidInput ''unix datagram requires path address target''), w)))"

definition send_to_manager ::
    "'w mgr_os \<Rightarrow> resolver \<Rightarrow> ManagerDatagram \<Rightarrow> bytes \<Rightarrow> ManagerAddr \<Rightarrow> 'w \<Rightarrow> ((io_error + nat) \<times> 'w) rust" where
  "send_to_manager OS resolve socket buf target w =
     (case socket of
        UdpDatagram \<Rightarrow>
          (case target of
             MgrSocketAddr saddr \<Rightarrow> Ret (os_udp_send OS buf saddr w)
           | MgrDomainName dname port \<Rightarrow>
               rust_bind (lookup_then resolve dname port (os_udp_send OS buf) w) (\<lambda>(res, w). Ret (map_sum id snd res, w))
           | MgrUnixSocketAddr _ \<Rightarrow> Ret (Inl (IoError InvalidInput ''udp datagram requires IP address target''), w))
      | UnixDatagram \<Rightarrow>
          (case target of
             MgrUnixSocketAddr paddr \<Rightarrow> Ret (os_unix_send OS buf paddr w)
           | _ \<Rightarrow> Ret (Inl (IoError InvalidInput ''unix datagram requires path address target''), w)))"

section \<open>State\<close>

record MgrServerConfig =
  mp_server_port :: u16
  mp_password :: string
  mp_method :: "string option"
  mp_no_delay :: "bool option"
  mp_plugin :: "string option"
  mp_plugin_opt :: "string option"
  mp_mode :: "string option"

record RemoveRequest =
  rr_server_port :: u16

text \<open>The readers and writers of \<^verbatim>\<open>serde_json\<close>; an error is shown by its text.\<close>

record mgr_json =
  json_add :: "string \<Rightarrow> string + MgrServerConfig"
  json_remove :: "string \<Rightarrow> string + RemoveRequest"
  json_stat :: "string \<Rightarrow> string + (string \<times> u64) list"
  json_server :: "MgrServerConfig \<Rightarrow> string option"

record ('r, 's, 'x) ServerInstance =
  inst_config :: "('r, 's, 'x) Config"
  inst_flow_stat :: ServerFlowStatistic

record ('b, 'r, 's, 'x, 'l) ManagerService =
  ms_socket :: ManagerDatagram
  ms_servers :: "u16 \<rightharpoonup> ('r, 's, 'x) ServerInstance"
  ms_context :: "('b, 'r, 's, 'x, 'l) Context"

definition start_server :: "('r, 's, 'x) Config \<Rightarrow> ('r, 's, 'x) ServerInstance rust" where
  "start_server config =
     (case cfg_server config of
        [] \<Rightarrow> Panic
      | svr # _ \<Rightarrow>
          (case MultiServerFlowStatistic_get (MultiServerFlowStatistic_new config) (ServerAddr_port (sc_addr svr)) of
             None \<Rightarrow> Panic
           | Some flow_stat \<Rightarrow> Ret \<lparr>inst_config = config, inst_flow_stat = flow_stat\<rparr>))"

definition flow_trans_stat :: "('r, 's, 'x) ServerInstance \<Rightarrow> u64" where
  "flow_trans_stat inst = trans_stat (inst_flow_stat inst)"

section \<open>Commands\<close>

definition quoted :: "string \<Rightarrow> string" where
  "quoted s = CHR 0x22 # s @ [CHR 0x22]"

definition newline :: string where
  "newline = [CHR 0x0A]"

type_synonym mgr_result = "io_error + string option"

definition start_server_with_config ::
    "u16 \<Rightarrow> ('r, 's, 'x) Config \<Rightarrow> ('b, 'r, 's, 'x, 'l) ManagerService \<Rightarrow> ('b, 'r, 's, 'x, 'l) ManagerService rust" where
  "start_server_with_config server_port config m =
     rust_bind (start_server config) (\<lambda>server. Ret (m\<lparr>ms_servers := (ms_servers m)(server_port \<mapsto> server)\<rparr>))"

definition handle_add ::
    "'c crypto_lib \<Rightarrow> MgrServerConfig \<Rightarrow> ('b, 'r, 's, 'x, 'l) ManagerService \<Rightarrow>
     (mgr_result \<times> ('b, 'r, 's, 'x, 'l) ManagerService) rust" where
  "handle_add L p m =
     (let server_port = mp_server_port p; mgr = ctx_config (ms_context m) in
      case (case mp_method p of
              None \<Rightarrow> Inr (case cfg_manager_method mgr of Some t \<Rightarrow> t | None \<Rightarrow> ChaCha20IetfPoly1305)
            | Some meth \<Rightarrow>
                map_err (\<lambda>_. IoError OtherKind (''unrecognized method '' @ quoted meth)) (CipherType_from_str meth)) of
        Inl e \<Rightarrow> Ret (Inl e, m)
      | Inr meth \<Rightarrow>
          rust_bind (ServerConfig_new L (SvrSocketAddr (SocketAddrV4 (Ipv4Addr 0 0 0 0) server_port)) (mp_password p) meth None
                       (plugin_of (mp_plugin p) (mp_plugin_opt p))) (\<lambda>svr_cfg.
            let config = (Config_new Server)\<lparr>cfg_server := [svr_cfg], cfg_local := cfg_local mgr\<rparr> in
            case (case mp_mode p of
                    None \<Rightarrow> Inr config
                  | Some mode \<Rightarrow>
                      (case Mode_from_str mode of
                         Inr mo \<Rightarrow> Inr (config\<lparr>cfg_mode := mo\<rparr>)
                       | Inl _ \<Rightarrow> Inl (IoError OtherKind (''unrecognized mode '' @ quoted mode)))) of
              Inl e \<Rightarrow> Ret (Inl e, m)
            | Inr config \<Rightarrow>
                let config = config\<lparr>cfg_no_delay := (case mp_no_delay p of Some b \<Rightarrow> b | None \<Rightarrow> cfg_no_delay mgr)\<rparr>;
                    config = config\<lparr>cfg_udp_timeout := cfg_udp_timeout mgr, cfg_timeout := cfg_timeout mgr\<rparr>;
                    config = config\<lparr>cfg_mode := cfg_mode mgr\<rparr>;
                    config = config\<lparr>cfg_acl := cfg_acl mgr\<rparr>;
                    m = m\<lparr>ms_servers := (ms_servers m)(server_port := None)\<rparr>
                in rust_bind (start_server_with_config server_port config m) (\<lambda>m. Ret (Inr (Some (''ok'' @ newline)), m))))"

definition handle_remove ::
    "RemoveRequest \<Rightarrow> ('b, 'r, 's, 'x, 'l) ManagerService \<Rightarrow> mgr_result \<times> ('b, 'r, 's, 'x, 'l) ManagerService" where
  "handle_remove p m = (Inr (Some (''ok'' @ newline)), m\<lparr>ms_servers := (ms_servers m)(rr_server_port p := None)\<rparr>)"

fun join_comma :: "string list \<Rightarrow> string" where
  "join_comma [] = []"
| "join_comma [s] = s"
| "join_comma (s # ss) = s @ '','' @ join_comma ss"

text \<open>\<open>keys\<close> are the ports in the iteration order of the hash map.\<close>

definition list_entry :: "mgr_json \<Rightarrow> ('r, 's, 'x) ServerInstance \<Rightarrow> string rust" where
  "list_entry J inst =
     (case cfg_server (inst_config inst) of
        [] \<Rightarrow> Panic
      | svr_cfg # _ \<Rightarrow>
          expect (json_server J
            \<lparr>mp_server_port = ServerAddr_port (sc_addr svr_cfg), mp_password = sc_password svr_cfg,
             mp_method = Some (CipherType_display (sc_method svr_cfg)), mp_no_delay = None, mp_plugin = None,
             mp_plugin_opt = None, mp_mode = None\<rparr>))"

fun list_entries :: "mgr_json \<Rightarrow> ('r, 's, 'x) ServerInstance list \<Rightarrow> string list rust" where
  "list_entries J [] = Ret []"
| "list_entries J (inst # insts) =
     rust_bind (list_entry J inst) (\<lambda>e. rust_bind (list_entries J insts) (\<lambda>es. Ret (e # es)))"

definition instances :: "((u16 \<rightharpoonup> ('r, 's, 'x) ServerInstance) \<Rightarrow> u16 list) \<Rightarrow> ('b, 'r, 's, 'x, 'l) ManagerService \<Rightarrow>
    (u16 \<times> ('r, 's, 'x) ServerInstance) list" where
  "instances keys m = List.map_filter (\<lambda>port. map_option (\<lambda>inst. (port, inst)) (ms_servers m port)) (keys (ms_servers m))"

definition handle_list ::
    "mgr_json \<Rightarrow> ((u16 \<rightharpoonup> ('r, 's, 'x) ServerInstance) \<Rightarrow> u16 list) \<Rightarrow> ('b, 'r, 's, 'x, 'l) ManagerService \<Rightarrow> mgr_result rust" where
  "handle_list J keys m =
     rust_bind (list_entries J (map snd (instances keys m))) (\<lambda>es. Ret (Inr (Some (''['' @ join_comma es @ '']'' @ newline))))"

definition handle_ping ::
    "((u16 \<rightharpoonup> ('r, 's, 'x) ServerInstance) \<Rightarrow> u16 list) \<Rightarrow> ('b, 'r, 's, 'x, 'l) ManagerService \<Rightarrow> mgr_result" where
  "handle_ping keys m =
     Inr (Some (''stat: {'' @ join_comma (map (\<lambda>(port, inst).
       quoted (show_u16 port) @ '':'' @ show_nat (unat (flow_trans_stat inst))) (instances keys m)) @ ''}'' @ newline))"

definition handle_stat :: "(string \<times> u64) list \<Rightarrow> mgr_result" where
  "handle_stat pmap = Inr None"

definition dispatch_command ::
    "'c crypto_lib \<Rightarrow> mgr_json \<Rightarrow> ((u16 \<rightharpoonup> ('r, 's, 'x) ServerInstance) \<Rightarrow> u16 list) \<Rightarrow> string \<Rightarrow> string \<Rightarrow>
     ('b, 'r, 's, 'x, 'l) ManagerService \<Rightarrow> (mgr_result \<times> ('b, 'r, 's, 'x, 'l) ManagerService) rust" where
  "dispatch_command L J keys action param m =
     (if action = ''add'' then
        (case json_add J param of
           Inl err \<Rightarrow> Ret (Inl (IoError InvalidData err), m)
         | Inr p \<Rightarrow> handle_add L p m)
      else if action = ''remove'' then
        (case json_remove J param of
           Inl err \<Rightarrow> Ret (Inl (IoError InvalidData err), m)
         | Inr p \<Rightarrow> Ret (handle_remove p m))
      else if action = ''list'' then rust_bind (handle_list J keys m) (\<lambda>r. Ret (r, m))
      else if action = ''ping'' then Ret (handle_ping keys m, m)
      else if action = ''stat'' then
        (case json_stat J param of
           Inl err \<Rightarrow> Ret (Inl (IoError InvalidData err), m)
         | Inr pmap \<Rightarrow> Ret (handle_stat pmap, m))
      else Ret (Inl (IoError InvalidData (''unrecognized command '' @ quoted action)), m))"

text \<open>A request and its response, if there is one.\<close>

definition split_command :: "string \<Rightarrow> string \<times> string" where
  "split_command pkt =
     (case find_char CHR '':'' pkt of
        None \<Rightarrow> (trim pkt, [])
      | Some idx \<Rightarrow> (trim (take idx pkt), trim (drop (idx + 1) pkt)))"

definition handle_packet ::
    "'c crypto_lib \<Rightarrow> mgr_json \<Rightarrow> ((u16 \<rightharpoonup> ('r, 's, 'x) ServerInstance) \<Rightarrow> u16 list) \<Rightarrow> bytes \<Rightarrow>
     ('b, 'r, 's, 'x, 'l) ManagerService \<Rightarrow> (string option \<times> ('b, 'r, 's, 'x, 'l) ManagerService) rust" where
  "handle_packet L J keys pkt m =
     (case from_utf8 pkt of
        None \<Rightarrow> Ret (Some ''invalid encoding'', m)
      | Some pkt \<Rightarrow>
          (case split_command pkt of
             (action, param) \<Rightarrow>
               rust_bind (dispatch_command L J keys action param m) (\<lambda>(res, m).
                 Ret (case res of Inr v \<Rightarrow> v | Inl err \<Rightarrow> Some (io_err_msg err), m))))"

section \<open>Serving\<close>

text \<open>One round of the loop: a short or failed send of the response is only logged.\<close>

definition serve_packet ::
    "'c crypto_lib \<Rightarrow> mgr_json \<Rightarrow> ((u16 \<rightharpoonup> ('r, 's, 'x) ServerInstance) \<Rightarrow> u16 list) \<Rightarrow> 'w mgr_os \<Rightarrow> bytes \<Rightarrow> ManagerSocketAddr \<Rightarrow>
     ('b, 'r, 's, 'x, 'l) ManagerService \<Rightarrow> 'w \<Rightarrow> (('b, 'r, 's, 'x, 'l) ManagerService \<times> 'w) rust" where
  "serve_packet L J keys OS pkt src_addr m w =
     rust_bind (handle_packet L J keys pkt m) (\<lambda>(resp, m).
       case resp of
         None \<Rightarrow> Ret (m, w)
       | Some resp_pkt \<Rightarrow>
           if is_unnamed src_addr then Ret (m, w)
           else Ret (m, snd (ManagerDatagram_send_to OS (ms_socket m) (as_bytes resp_pkt) src_addr w)))"

text \<open>
  The loop over the results of \<open>recv_from\<close>: it ends with the first error; \<open>None\<close> is a loop that waits for the
  next datagram.
\<close>

fun serve ::
    "'c crypto_lib \<Rightarrow> mgr_json \<Rightarrow> ((u16 \<rightharpoonup> ('r, 's, 'x) ServerInstance) \<Rightarrow> u16 list) \<Rightarrow> 'w mgr_os \<Rightarrow>
     (io_error + bytes \<times> ManagerSocketAddr) list \<Rightarrow> ('b, 'r, 's, 'x, 'l) ManagerService \<Rightarrow> 'w \<Rightarrow>
     (io_error option \<times> ('b, 'r, 's, 'x, 'l) ManagerService \<times> 'w) rust" where
  "serve L J keys OS [] m w = Ret (None, m, w)"
| "serve L J keys OS (Inl e # _) m w = Ret (Some e, m, w)"
| "serve L J keys OS (Inr (pkt, src_addr) # rs) m w =
     rust_bind (serve_packet L J keys OS pkt src_addr m w) (\<lambda>(m, w). serve L J keys OS rs m w)"

section \<open>Starting\<close>

definition clean_config :: "('r, 's, 'x) Config \<Rightarrow> ServerConfig \<Rightarrow> ('r, 's, 'x) Config" where
  "clean_config config svr_cfg =
     (Config_new Server)\<lparr>cfg_local := cfg_local config, cfg_mode := cfg_mode config, cfg_no_delay := cfg_no_delay config,
        cfg_udp_timeout := cfg_udp_timeout config, cfg_server := [svr_cfg]\<rparr>"

fun start_known_servers ::
    "('r, 's, 'x) Config \<Rightarrow> ServerConfig list \<Rightarrow> ('b, 'r, 's, 'x, 'l) ManagerService \<Rightarrow> ('b, 'r, 's, 'x, 'l) ManagerService rust" where
  "start_known_servers config [] m = Ret m"
| "start_known_servers config (svr_cfg # svrs) m =
     rust_bind (start_server_with_config (ServerAddr_port (sc_addr svr_cfg)) (clean_config config svr_cfg) m)
       (start_known_servers config svrs)"

text \<open>\<open>run\<close> up to its call of \<open>serve\<close>.\<close>

definition manager_start ::
    "'w mgr_os \<Rightarrow> resolver \<Rightarrow> ('b, 'r, 's, 'x, 'l) Context \<Rightarrow> 'w \<Rightarrow>
     ((io_error + ('b, 'r, 's, 'x, 'l) ManagerService) \<times> 'w) rust" where
  "manager_start OS resolve context w =
     (let config = ctx_config context in
      if \<not> is_manager (cfg_config_type config) then Panic
      else
        case (case cfg_nofile config of None \<Rightarrow> (Inr (), w) | Some nofile \<Rightarrow> os_set_nofile OS nofile w) of
          (Inl err, w) \<Rightarrow> Ret (Inl err, w)
        | (Inr _, w) \<Rightarrow>
            (case cfg_manager_address config of
               None \<Rightarrow> Ret (Inl (IoError OtherKind ''missing `manager_address` in configuration''), w)
             | Some bind_addr \<Rightarrow>
                 rust_bind (ManagerDatagram_bind OS resolve bind_addr w) (\<lambda>(res, w).
                   case res of
                     Inl e \<Rightarrow> Ret (Inl e, w)
                   | Inr socket \<Rightarrow>
                       rust_bind (start_known_servers config (cfg_server config)
                                    \<lparr>ms_socket = socket, ms_servers = Map.empty, ms_context = context\<rparr>)
                         (\<lambda>m. Ret (Inr m, w)))))"

section \<open>Histories\<close>

text \<open>
  \<open>mgr_run\<close>: the manager that was started in \<open>ctx\<close> reaches \<open>m\<close> by serving packets, while its servers
  count traffic.
\<close>

inductive mgr_run ::
    "'c crypto_lib \<Rightarrow> mgr_json \<Rightarrow> ((u16 \<rightharpoonup> ('r, 's, 'x) ServerInstance) \<Rightarrow> u16 list) \<Rightarrow> 'w mgr_os \<Rightarrow> resolver \<Rightarrow>
     ('b, 'r, 's, 'x, 'l) Context \<Rightarrow> ('b, 'r, 's, 'x, 'l) ManagerService \<Rightarrow> 'w \<Rightarrow> bool"
  for L J keys OS resolve ctx where
  start: "manager_start OS resolve ctx w0 = Ret (Inr m, w) \<Longrightarrow> mgr_run L J keys OS resolve ctx m w"
| packet: "\<lbrakk>mgr_run L J keys OS resolve ctx m w; serve_packet L J keys OS pkt src_addr m w = Ret (m', w')\<rbrakk> \<Longrightarrow>
    mgr_run L J keys OS resolve ctx m' w'"
| traffic: "\<lbrakk>mgr_run L J keys OS resolve ctx m w; ms_servers m port = Some inst\<rbrakk> \<Longrightarrow>
    mgr_run L J keys OS resolve ctx
      (m\<lparr>ms_servers := (ms_servers m)(port \<mapsto> inst\<lparr>inst_flow_stat := flow_apply step (inst_flow_stat inst)\<rparr>)\<rparr>) w"

text \<open>An instance runs one server, on the port it is registered for.\<close>

definition inst_ok :: "u16 \<Rightarrow> ('r, 's, 'x) ServerInstance \<Rightarrow> bool" where
  "inst_ok port inst \<longleftrightarrow> cfg_config_type (inst_config inst) = Server
     \<and> (\<exists>svr. cfg_server (inst_config inst) = [svr] \<and> ServerAddr_port (sc_addr svr) = port)"

definition mgr_inv :: "('b, 'r, 's, 'x, 'l) ManagerService \<Rightarrow> bool" where
  "mgr_inv m \<longleftrightarrow> (\<forall>port inst. ms_servers m port = Some inst \<longrightarrow> inst_ok port inst)"

lemma start_server_eq:
  "cfg_server config = [svr] \<Longrightarrow> start_server config = Ret \<lparr>inst_config = config, inst_flow_stat = ServerFlowStatistic_new\<rparr>"
  using flow_of_every_server [of svr config] by (simp add: start_server_def)

lemma mgr_inv_update: "\<lbrakk>mgr_inv m; inst_ok port inst\<rbrakk> \<Longrightarrow> mgr_inv (m\<lparr>ms_servers := (ms_servers m)(port \<mapsto> inst)\<rparr>)"
  by (simp add: mgr_inv_def)

lemma mgr_inv_remove: "mgr_inv m \<Longrightarrow> mgr_inv (m\<lparr>ms_servers := (ms_servers m)(port := None)\<rparr>)"
  by (simp add: mgr_inv_def)

text \<open>What \<^verbatim>\<open>add\<close> does: nothing when it fails, else the port gets a new instance.\<close>

definition added_config :: "('r, 's, 'x) Config \<Rightarrow> MgrServerConfig \<Rightarrow> ServerConfig \<Rightarrow> ('r, 's, 'x) Config" where
  "added_config mgr p svr_cfg =
     (Config_new Server)\<lparr>cfg_server := [svr_cfg], cfg_local := cfg_local mgr,
        cfg_no_delay := (case mp_no_delay p of Some b \<Rightarrow> b | None \<Rightarrow> cfg_no_delay mgr),
        cfg_udp_timeout := cfg_udp_timeout mgr, cfg_timeout := cfg_timeout mgr, cfg_mode := cfg_mode mgr, cfg_acl := cfg_acl mgr\<rparr>"

lemma start_added:
  "start_server_with_config port (added_config mgr p svr) m =
     Ret (m\<lparr>ms_servers := (ms_servers m)(port \<mapsto> \<lparr>inst_config = added_config mgr p svr, inst_flow_stat = ServerFlowStatistic_new\<rparr>)\<rparr>)"
  using start_server_eq [of "added_config mgr p svr" svr] by (simp add: start_server_with_config_def added_config_def)

lemma added_update:
  "(Config_new Server)\<lparr>cfg_server := [svr], cfg_local := cfg_local mgr, cfg_mode := mo,
     cfg_no_delay := (case mp_no_delay p of Some b \<Rightarrow> b | None \<Rightarrow> cfg_no_delay mgr),
     cfg_udp_timeout := cfg_udp_timeout mgr, cfg_timeout := cfg_timeout mgr, cfg_mode := cfg_mode mgr, cfg_acl := cfg_acl mgr\<rparr>
   = added_config mgr p svr"
  "(Config_new Server)\<lparr>cfg_server := [svr], cfg_local := cfg_local mgr,
     cfg_no_delay := (case mp_no_delay p of Some b \<Rightarrow> b | None \<Rightarrow> cfg_no_delay mgr),
     cfg_udp_timeout := cfg_udp_timeout mgr, cfg_timeout := cfg_timeout mgr, cfg_mode := cfg_mode mgr, cfg_acl := cfg_acl mgr\<rparr>
   = added_config mgr p svr"
  by (simp_all add: added_config_def Config_new_def)

text \<open>The server an \<^verbatim>\<open>add\<close> request asks for: \<open>None\<close> when its method or its mode is unknown.\<close>

definition requested_method :: "('r, 's, 'x) Config \<Rightarrow> MgrServerConfig \<Rightarrow> CipherType option" where
  "requested_method mgr p =
     (case mp_method p of
        None \<Rightarrow> Some (case cfg_manager_method mgr of Some t \<Rightarrow> t | None \<Rightarrow> ChaCha20IetfPoly1305)
      | Some name \<Rightarrow> (case CipherType_from_str name of Inr t \<Rightarrow> Some t | Inl _ \<Rightarrow> None))"

definition mode_known :: "MgrServerConfig \<Rightarrow> bool" where
  "mode_known p \<longleftrightarrow> (case mp_mode p of None \<Rightarrow> True | Some mode \<Rightarrow> \<not> isl (Mode_from_str mode))"

definition requested_server :: "'c crypto_lib \<Rightarrow> ('r, 's, 'x) Config \<Rightarrow> MgrServerConfig \<Rightarrow> ServerConfig option rust" where
  "requested_server L mgr p =
     (case requested_method mgr p of
        None \<Rightarrow> Ret None
      | Some meth \<Rightarrow>
          rust_bind (ServerConfig_new L (SvrSocketAddr (SocketAddrV4 (Ipv4Addr 0 0 0 0) (mp_server_port p))) (mp_password p) meth None
                       (plugin_of (mp_plugin p) (mp_plugin_opt p)))
            (\<lambda>svr. Ret (if mode_known p then Some svr else None)))"

lemma requested_server_fields:
  "requested_server L mgr p = Ret (Some svr) \<Longrightarrow>
     sc_addr svr = SvrSocketAddr (SocketAddrV4 (Ipv4Addr 0 0 0 0) (mp_server_port p)) \<and> sc_password svr = mp_password p
     \<and> requested_method mgr p = Some (sc_method svr)"
  by (auto simp: requested_server_def ServerConfig_new_def rust_bind_Ret_iff split: option.splits if_splits)

lemma add_refused_method:
  "requested_method (ctx_config (ms_context m)) p = None \<Longrightarrow> \<exists>e. handle_add L p m = Ret (Inl e, m)"
  by (auto simp: requested_method_def handle_add_def Let_def split: option.splits sum.splits)

lemma add_method_known:
  assumes "requested_method (ctx_config (ms_context m)) p = Some meth"
  shows "handle_add L p m =
     rust_bind (ServerConfig_new L (SvrSocketAddr (SocketAddrV4 (Ipv4Addr 0 0 0 0) (mp_server_port p))) (mp_password p) meth None
                  (plugin_of (mp_plugin p) (mp_plugin_opt p)))
       (\<lambda>svr. if mode_known p
              then Ret (Inr (Some (''ok'' @ newline)), m\<lparr>ms_servers := (ms_servers m)(mp_server_port p \<mapsto>
                \<lparr>inst_config = added_config (ctx_config (ms_context m)) p svr, inst_flow_stat = ServerFlowStatistic_new\<rparr>)\<rparr>)
              else Ret (Inl (IoError OtherKind (''unrecognized mode '' @ quoted (the (mp_mode p)))), m))"
proof -
  let ?mgr = "ctx_config (ms_context m)"
  have meth: "(case mp_method p of
        None \<Rightarrow> Inr (case cfg_manager_method ?mgr of Some t \<Rightarrow> t | None \<Rightarrow> ChaCha20IetfPoly1305)
      | Some name \<Rightarrow> map_err (\<lambda>_. IoError OtherKind (''unrecognized method '' @ quoted name)) (CipherType_from_str name)) = Inr meth"
    using assms by (auto simp: requested_method_def split: option.splits sum.splits)
  show ?thesis
  proof (cases "mp_mode p")
    case None
    with meth show ?thesis
      by (simp add: handle_add_def Let_def mode_known_def added_update start_added)
  next
    case (Some mode)
    with meth show ?thesis
      by (cases "Mode_from_str mode") (simp_all add: handle_add_def Let_def mode_known_def added_update start_added)
  qed
qed

lemma handle_add_cases:
  assumes "handle_add L p m = Ret (res, m')"
  obtains (refused) e where "res = Inl e" "m' = m" "requested_server L (ctx_config (ms_context m)) p = Ret None"
  | (added) svr where "res = Inr (Some (''ok'' @ newline))" "requested_server L (ctx_config (ms_context m)) p = Ret (Some svr)"
      "m' = m\<lparr>ms_servers := (ms_servers m)(mp_server_port p \<mapsto>
         \<lparr>inst_config = added_config (ctx_config (ms_context m)) p svr, inst_flow_stat = ServerFlowStatistic_new\<rparr>)\<rparr>"
proof (cases "requested_method (ctx_config (ms_context m)) p")
  case None
  from add_refused_method [OF this, of L] obtain e where "handle_add L p m = Ret (Inl e, m)" ..
  with None assms show thesis by (intro refused [of e]) (simp_all add: requested_server_def)
next
  case (Some meth)
  from assms obtain svr where svr: "ServerConfig_new L (SvrSocketAddr (SocketAddrV4 (Ipv4Addr 0 0 0 0) (mp_server_port p)))
      (mp_password p) meth None (plugin_of (mp_plugin p) (mp_plugin_opt p)) = Ret svr"
    by (auto simp: add_method_known [OF Some] rust_bind_Ret_iff)
  show thesis
  proof (cases "mode_known p")
    case True
    with assms svr Some show thesis by (intro added [of svr]) (simp_all add: add_method_known [OF Some] requested_server_def)
  next
    case False
    with assms svr Some show thesis
      by (intro refused [of "projl res"]) (auto simp: add_method_known [OF Some] requested_server_def)
  qed
qed

lemma inst_ok_added: "ServerAddr_port (sc_addr svr) = port \<Longrightarrow> inst_ok port \<lparr>inst_config = added_config mgr p svr, inst_flow_stat = f\<rparr>"
  by (simp add: inst_ok_def added_config_def Config_new_def)

text \<open>A command changes at most one port.\<close>

lemma dispatch_command_cases:
  assumes "dispatch_command L J keys action param m = Ret (res, m')"
  obtains (same) "m' = m" "\<not> (action = ''add'' \<and> (\<exists>p. json_add J param = Inr p))"
      "\<not> (action = ''remove'' \<and> (\<exists>p. json_remove J param = Inr p))"
  | (added) p where "action = ''add''" "json_add J param = Inr p" "handle_add L p m = Ret (res, m')"
  | (removed) p where "action = ''remove''" "json_remove J param = Inr p" "m' = m\<lparr>ms_servers := (ms_servers m)(rr_server_port p := None)\<rparr>"
proof -
  consider "action = ''add''" | "action = ''remove''" | "action \<noteq> ''add''" "action \<noteq> ''remove''" by blast
  then show thesis
  proof cases
    case 1
    show thesis
    proof (cases "json_add J param")
      case (Inl e)
      with 1 assms show thesis by (intro same) (simp_all add: dispatch_command_def)
    next
      case (Inr p)
      with 1 assms show thesis by (intro added [of p]) (simp_all add: dispatch_command_def)
    qed
  next
    case 2
    show thesis
    proof (cases "json_remove J param")
      case (Inl e)
      with 2 assms show thesis by (intro same) (simp_all add: dispatch_command_def)
    next
      case (Inr p)
      with 2 assms show thesis by (intro removed [of p]) (simp_all add: dispatch_command_def handle_remove_def)
    qed
  next
    case 3
    with assms show thesis
      by (intro same) (auto simp: dispatch_command_def rust_bind_Ret_iff split: if_splits sum.splits)
  qed
qed

section \<open>The registry\<close>

text \<open>
  What the manager promises: a table of one server per port, changed by \<^verbatim>\<open>add\<close> and \<^verbatim>\<open>remove\<close> only.
\<close>

definition registry :: "('b, 'r, 's, 'x, 'l) ManagerService \<Rightarrow> u16 \<rightharpoonup> ServerConfig" where
  "registry m = (\<lambda>port. map_option (\<lambda>inst. hd (cfg_server (inst_config inst))) (ms_servers m port))"

definition registry_step ::
    "'c crypto_lib \<Rightarrow> mgr_json \<Rightarrow> ('r, 's, 'x) Config \<Rightarrow> bytes \<Rightarrow> (u16 \<rightharpoonup> ServerConfig) \<Rightarrow> (u16 \<rightharpoonup> ServerConfig)" where
  "registry_step L J mgr pkt R =
     (case map_option split_command (from_utf8 pkt) of
        None \<Rightarrow> R
      | Some (action, param) \<Rightarrow>
          if action = ''add'' then
            (case json_add J param of
               Inl _ \<Rightarrow> R
             | Inr p \<Rightarrow> (case requested_server L mgr p of Ret (Some svr) \<Rightarrow> R(mp_server_port p \<mapsto> svr) | _ \<Rightarrow> R))
          else if action = ''remove'' then
            (case json_remove J param of Inl _ \<Rightarrow> R | Inr p \<Rightarrow> R(rr_server_port p := None))
          else R)"

lemma registry_update:
  "registry (m\<lparr>ms_servers := (ms_servers m)(port \<mapsto> inst)\<rparr>) = (registry m)(port \<mapsto> hd (cfg_server (inst_config inst)))"
  "registry (m\<lparr>ms_servers := (ms_servers m)(port := None)\<rparr>) = (registry m)(port := None)"
  by (auto simp: registry_def fun_eq_iff)

lemma added_config_server [simp]: "cfg_server (added_config mgr p svr) = [svr]"
  by (simp add: added_config_def)

lemma handle_packet_step:
  assumes "handle_packet L J keys pkt m = Ret (resp, m')"
  shows "registry m' = registry_step L J (ctx_config (ms_context m)) pkt (registry m) \<and> ms_context m' = ms_context m
       \<and> (mgr_inv m \<longrightarrow> mgr_inv m')"
proof (cases "from_utf8 pkt")
  case None
  with assms show ?thesis by (simp add: handle_packet_def registry_step_def)
next
  case (Some cmd)
  obtain action param where ap: "split_command cmd = (action, param)" by (cases "split_command cmd")
  with Some assms obtain res where d: "dispatch_command L J keys action param m = Ret (res, m')"
    by (auto simp: handle_packet_def rust_bind_Ret_iff)
  from d show ?thesis
  proof (cases rule: dispatch_command_cases)
    case same
    with Some ap show ?thesis by (cases "json_add J param"; cases "json_remove J param") (auto simp: registry_step_def)
  next
    case (added p)
    from added(3) show ?thesis
    proof (cases rule: handle_add_cases)
      case (refused e)
      with added Some ap show ?thesis by (simp add: registry_step_def)
    next
      case (added svr)
      with \<open>action = ''add''\<close> \<open>json_add J param = Inr p\<close> Some ap requested_server_fields [OF added(2)] show ?thesis
        by (simp add: registry_step_def registry_update mgr_inv_update inst_ok_added ServerAddr_port_def sock_port_def)
    qed
  next
    case (removed p)
    with Some ap show ?thesis by (simp add: registry_step_def registry_update mgr_inv_remove)
  qed
qed

lemma start_known_servers_eq:
  "start_known_servers config svrs m = Ret (m\<lparr>ms_servers := fold (\<lambda>svr M. M(ServerAddr_port (sc_addr svr) \<mapsto>
     \<lparr>inst_config = clean_config config svr, inst_flow_stat = ServerFlowStatistic_new\<rparr>)) svrs (ms_servers m)\<rparr>)"
proof (induction svrs arbitrary: m)
  case (Cons svr svrs)
  have "cfg_server (clean_config config svr) = [svr]" by (simp add: clean_config_def)
  from start_server_eq [OF this] Cons.IH show ?case by (simp add: start_server_with_config_def)
qed simp

lemma clean_instances_ok:
  "\<forall>port inst. M port = Some inst \<longrightarrow> inst_ok port inst \<Longrightarrow>
   \<forall>port inst. fold (\<lambda>svr M. M(ServerAddr_port (sc_addr svr) \<mapsto>
     \<lparr>inst_config = clean_config config svr, inst_flow_stat = ServerFlowStatistic_new\<rparr>)) svrs M port = Some inst \<longrightarrow> inst_ok port inst"
proof (induction svrs arbitrary: M)
  case (Cons svr svrs)
  from Cons.prems show ?case
    unfolding fold_simps comp_apply
    by (intro Cons.IH) (simp add: inst_ok_def clean_config_def Config_new_def)
qed simp

lemma manager_start_ok:
  assumes "manager_start OS resolve ctx w0 = Ret (Inr m, w)"
  shows "mgr_inv m \<and> ms_context m = ctx"
proof -
  from assms obtain socket where "m = \<lparr>ms_socket = socket, ms_servers = fold (\<lambda>svr M. M(ServerAddr_port (sc_addr svr) \<mapsto>
     \<lparr>inst_config = clean_config (ctx_config ctx) svr, inst_flow_stat = ServerFlowStatistic_new\<rparr>))
       (cfg_server (ctx_config ctx)) Map.empty, ms_context = ctx\<rparr>"
    by (auto simp: manager_start_def Let_def start_known_servers_eq split: rust_bind_splits if_splits prod.splits sum.splits option.splits)
  then show ?thesis using clean_instances_ok [of Map.empty] by (simp add: mgr_inv_def)
qed

lemma serve_packet_step:
  assumes "serve_packet L J keys OS pkt src_addr m w = Ret (m', w')"
  shows "registry m' = registry_step L J (ctx_config (ms_context m)) pkt (registry m) \<and> ms_context m' = ms_context m
       \<and> (mgr_inv m \<longrightarrow> mgr_inv m')"
proof -
  from assms obtain resp where "handle_packet L J keys pkt m = Ret (resp, m')"
    by (auto simp: serve_packet_def rust_bind_Ret_iff split: option.splits if_splits)
  then show ?thesis by (rule handle_packet_step)
qed

lemma mgr_run_inv: "mgr_run L J keys OS resolve ctx m w \<Longrightarrow> mgr_inv m \<and> ms_context m = ctx"
proof (induction rule: mgr_run.induct)
  case (start w0 m w)
  then show ?case by (rule manager_start_ok)
next
  case (packet m w pkt src_addr m' w')
  then show ?case using serve_packet_step [OF packet.hyps(2)] by simp
next
  case (traffic m w port inst step)
  then have "inst_ok port inst" by (simp add: mgr_inv_def)
  with traffic.IH show ?case by (auto intro!: mgr_inv_update simp: inst_ok_def)
qed

text \<open>How a registered server is listed.\<close>

definition listed :: "u16 \<Rightarrow> ServerConfig \<Rightarrow> MgrServerConfig" where
  "listed port svr = \<lparr>mp_server_port = port, mp_password = sc_password svr, mp_method = Some (CipherType_display (sc_method svr)),
     mp_no_delay = None, mp_plugin = None, mp_plugin_opt = None, mp_mode = None\<rparr>"

definition hash_keys :: "((u16 \<rightharpoonup> ('r, 's, 'x) ServerInstance) \<Rightarrow> u16 list) \<Rightarrow> bool" where
  "hash_keys keys \<longleftrightarrow> (\<forall>M. set (keys M) = dom M \<and> distinct (keys M))"

lemma list_entries_eq:
  assumes "\<forall>p. json_server J p \<noteq> None" and "\<forall>(port, inst) \<in> set xs. inst_ok port inst"
  shows "list_entries J (map snd xs) =
     Ret (map (\<lambda>(port, inst). the (json_server J (listed port (hd (cfg_server (inst_config inst)))))) xs)"
  using assms(2)
proof (induction xs)
  case (Cons x xs)
  obtain port inst where x: "x = (port, inst)" by (cases x)
  with Cons.prems obtain svr where "cfg_server (inst_config inst) = [svr]" "ServerAddr_port (sc_addr svr) = port"
    by (auto simp: inst_ok_def)
  moreover obtain e where "json_server J (listed port svr) = Some e" using assms(1) by blast
  ultimately have "list_entry J inst = Ret (the (json_server J (listed port (hd (cfg_server (inst_config inst))))))"
    by (simp add: list_entry_def listed_def)
  with Cons x show ?case by simp
qed simp

lemma instances_eq:
  assumes "hash_keys keys"
  shows "instances keys m = map (\<lambda>port. (port, the (ms_servers m port))) (keys (ms_servers m))"
proof -
  have "set (keys (ms_servers m)) = dom (ms_servers m)" using assms by (simp add: hash_keys_def)
  then have "\<forall>port \<in> set ps. ms_servers m port \<noteq> None" if "set ps \<subseteq> set (keys (ms_servers m))" for ps
    using that by auto
  then have "set ps \<subseteq> set (keys (ms_servers m)) \<Longrightarrow> List.map_filter (\<lambda>port. map_option (\<lambda>inst. (port, inst)) (ms_servers m port)) ps =
      map (\<lambda>port. (port, the (ms_servers m port))) ps" for ps
    by (induction ps) (auto simp: List.map_filter_simps split: option.splits)
  then show ?thesis by (simp add: instances_def)
qed

section \<open>Properties\<close>

lemma serve_refines:
  "serve L J keys OS (map Inr rs) m w = Ret (e, m', w') \<Longrightarrow>
     e = None \<and> registry m' = fold (\<lambda>(pkt, src_addr). registry_step L J (ctx_config (ms_context m)) pkt) rs (registry m)"
proof (induction rs arbitrary: m w)
  case (Cons r rs)
  obtain pkt src_addr where r: "r = (pkt, src_addr)" by (cases r)
  with Cons.prems obtain m1 w1 where step: "serve_packet L J keys OS pkt src_addr m w = Ret (m1, w1)"
      and rest: "serve L J keys OS (map Inr rs) m1 w1 = Ret (e, m', w')"
    by (auto simp: rust_bind_Ret_iff)
  from serve_packet_step [OF step] Cons.IH [OF rest] r show ?case by simp
qed simp

lemma registry_start:
  assumes "manager_start OS resolve ctx w0 = Ret (Inr m, w)"
  shows "registry m = fold (\<lambda>svr R. R(ServerAddr_port (sc_addr svr) \<mapsto> svr)) (cfg_server (ctx_config ctx)) Map.empty"
proof -
  let ?inst = "\<lambda>svr. \<lparr>inst_config = clean_config (ctx_config ctx) svr, inst_flow_stat = ServerFlowStatistic_new\<rparr>"
  have fold: "(\<lambda>port. map_option (\<lambda>inst. hd (cfg_server (inst_config inst)))
        (fold (\<lambda>svr M. M(ServerAddr_port (sc_addr svr) \<mapsto> ?inst svr)) svrs M port)) =
      fold (\<lambda>svr R. R(ServerAddr_port (sc_addr svr) \<mapsto> svr)) svrs (\<lambda>port. map_option (\<lambda>inst. hd (cfg_server (inst_config inst))) (M port))"
    for svrs M
  proof (induction svrs arbitrary: M)
    case (Cons svr svrs)
    have "(\<lambda>port. map_option (\<lambda>inst. hd (cfg_server (inst_config inst))) ((M(ServerAddr_port (sc_addr svr) \<mapsto> ?inst svr)) port)) =
        (\<lambda>port. map_option (\<lambda>inst. hd (cfg_server (inst_config inst))) (M port))(ServerAddr_port (sc_addr svr) \<mapsto> svr)"
      by (auto simp: fun_eq_iff clean_config_def)
    then show ?case by (simp only: fold_simps Cons.IH)
  qed simp
  from assms obtain socket where "m = \<lparr>ms_socket = socket, ms_servers = fold (\<lambda>svr M. M(ServerAddr_port (sc_addr svr) \<mapsto> ?inst svr))
       (cfg_server (ctx_config ctx)) Map.empty, ms_context = ctx\<rparr>"
    by (auto simp: manager_start_def Let_def start_known_servers_eq split: rust_bind_splits if_splits prod.splits sum.splits option.splits)
  then show ?thesis by (simp add: registry_def fold)
qed

text \<open>
  C11. The manager refines a table of servers by port: it starts as the table of the configured servers, and after any
  sequence of packets it is the table to which each \<^verbatim>\<open>add\<close> of a known method and mode has put its
  server and from which each \<^verbatim>\<open>remove\<close> has taken its port. Packets that are not understood change nothing.
\<close>

theorem manager_refines_registry:
  assumes "manager_start OS resolve ctx w0 = Ret (Inr m0, w1)"
    and "serve L J keys OS (map Inr rs) m0 w1 = Ret (e, m, w)"
  shows "e = None \<and> registry m =
     fold (\<lambda>(pkt, src_addr). registry_step L J (ctx_config ctx) pkt) rs
       (fold (\<lambda>svr R. R(ServerAddr_port (sc_addr svr) \<mapsto> svr)) (cfg_server (ctx_config ctx)) Map.empty)"
  using serve_refines [OF assms(2)] registry_start [OF assms(1)] manager_start_ok [OF assms(1)] by simp

text \<open>
  C38. Whatever the manager was sent before and whatever traffic its servers had, \<^verbatim>\<open>list\<close> does not panic
  and names every port of the table once, with the password and method of its server.
\<close>

theorem manager_lists_registry:
  assumes "mgr_run L J keys OS resolve ctx m w" and "hash_keys keys" and "\<forall>p. json_server J p \<noteq> None"
  shows "\<exists>ports. set ports = dom (registry m) \<and> distinct ports \<and>
     handle_list J keys m = Ret (Inr (Some (''['' @ join_comma (map (\<lambda>port.
       the (json_server J (listed port (the (registry m port))))) ports) @ '']'' @ newline)))"
proof -
  let ?ports = "keys (ms_servers m)"
  from assms(2) have ports: "set ?ports = dom (ms_servers m)" "distinct ?ports" by (simp_all add: hash_keys_def)
  have inv: "mgr_inv m" using mgr_run_inv [OF assms(1)] by simp
  have ok: "\<forall>(port, inst) \<in> set (instances keys m). inst_ok port inst"
    using inv ports by (auto simp: instances_eq [OF assms(2)] mgr_inv_def)
  have "map (\<lambda>(port, inst). the (json_server J (listed port (hd (cfg_server (inst_config inst)))))) (instances keys m) =
      map (\<lambda>port. the (json_server J (listed port (the (registry m port))))) ?ports"
    using ports by (auto simp: instances_eq [OF assms(2)] registry_def)
  then have "handle_list J keys m = Ret (Inr (Some (''['' @ join_comma (map (\<lambda>port.
       the (json_server J (listed port (the (registry m port))))) ?ports) @ '']'' @ newline)))"
    by (simp add: handle_list_def list_entries_eq [OF assms(3) ok])
  moreover have "dom (registry m) = dom (ms_servers m)" by (auto simp: registry_def dom_def)
  ultimately show ?thesis using ports by (intro exI [of _ ?ports]) simp
qed

text \<open>
  The mode of an \<^verbatim>\<open>add\<close> request has no effect once it is recognised, and a server of the configuration
  file runs without the manager's access control list and timeout.
\<close>

lemma add_ignores_mode: "cfg_mode (added_config mgr p svr) = cfg_mode mgr"
  by (simp add: added_config_def)

lemma known_servers_without_acl:
  "cfg_acl (clean_config config svr) = None \<and> cfg_timeout (clean_config config svr) = None"
  by (simp add: clean_config_def Config_new_def)

text \<open>An example: a manager with one configured server.\<close>

definition sample_mgr_os :: "unit mgr_os" where
  "sample_mgr_os = \<lparr>os_set_nofile = \<lambda>_ w. (Inr (), w), os_udp_bind = \<lambda>_ w. (Inr (), w), os_udp_send = \<lambda>d _ w. (Inr (length d), w),
     os_remove_file = \<lambda>_ w. (Inr (), w), os_unix_bind = \<lambda>_ w. (Inr (), w), os_unix_unbound = \<lambda>w. (Inr (), w),
     os_unix_send = \<lambda>d _ w. (Inr (length d), w)\<rparr>"

definition sample_mgr_json :: mgr_json where
  "sample_mgr_json = \<lparr>json_add = \<lambda>_. Inl ''no'', json_remove = \<lambda>_. Inr \<lparr>rr_server_port = 8388\<rparr>, json_stat = \<lambda>_. Inl ''no'',
     json_server = \<lambda>p. Some (show_u16 (mp_server_port p))\<rparr>"

definition sample_mgr_context :: "(bytes list, ipv4_addr list, ipv6_addr list, string list, unit) Context" where
  "sample_mgr_context = sample_context\<lparr>ctx_config := (Config_new Manager)\<lparr>cfg_server := [sample_server],
     cfg_manager_address := Some (MgrUnixSocketAddr ''/tmp/m.sock'')\<rparr>\<rparr>"

definition sample_keys :: "(u16 \<rightharpoonup> 'v) \<Rightarrow> u16 list" where
  "sample_keys M = filter (\<lambda>port. M port \<noteq> None) (map of_nat [0..<2 ^ 16])"

definition sample_manager :: "(bytes list, ipv4_addr list, ipv6_addr list, string list, unit) ManagerService" where
  "sample_manager = \<lparr>ms_socket = UnixDatagram, ms_servers = [8388 \<mapsto>
     \<lparr>inst_config = clean_config (ctx_config sample_mgr_context) sample_server, inst_flow_stat = ServerFlowStatistic_new\<rparr>],
     ms_context = sample_mgr_context\<rparr>"

lemma sample_manager_start:
  "manager_start sample_mgr_os (\<lambda>_ _. Inr []) sample_mgr_context () = Ret (Inr sample_manager, ())"
  by (simp add: manager_start_def sample_mgr_context_def Config_new_def start_known_servers_eq ManagerDatagram_bind_def
      sample_mgr_os_def sample_server_def sample_manager_def clean_config_def)

lemma sample_hash_keys: "hash_keys (sample_keys :: (u16 \<rightharpoonup> ('r, 's, 'x) ServerInstance) \<Rightarrow> u16 list)"
proof -
  have "\<exists>n < 2 ^ 16. port = of_nat n" for port :: u16
    by (intro exI [of _ "unat port"]) (use unsigned_less [of port] in simp)
  then have "set (sample_keys M) = dom M" for M :: "u16 \<rightharpoonup> ('r, 's, 'x) ServerInstance" by (fastforce simp: sample_keys_def image_iff)
  moreover have "inj_on (of_nat :: nat \<Rightarrow> u16) {0..<2 ^ 16}"
  proof (rule inj_onI)
    fix a b :: nat
    assume ab: "a \<in> {0..<2 ^ 16}" "b \<in> {0..<2 ^ 16}" and "(of_nat a :: u16) = of_nat b"
    then have "unat (of_nat a :: u16) = unat (of_nat b :: u16)" by simp
    with ab show "a = b" by (simp only: unat_of_nat_u16) simp
  qed
  ultimately show ?thesis
    by (simp add: hash_keys_def sample_keys_def distinct_map)
qed

definition sample_packet :: bytes where "sample_packet = as_bytes ''remove:1''"

lemma sample_remove: "from_utf8 sample_packet = Some ''remove:1''" "split_command ''remove:1'' = (''remove'', ''1'')"
  by code_simp+

theorem manager_refines_registry_witness:
  "\<exists>m. serve sample_lib sample_mgr_json sample_keys sample_mgr_os (map Inr [(sample_packet, PeerUnixSocketAddr UnixUnnamed)])
        sample_manager () = Ret (None, m, ()) \<and> registry m = Map.empty"
proof -
  obtain e m where run: "serve sample_lib sample_mgr_json sample_keys sample_mgr_os
      (map Inr [(sample_packet, PeerUnixSocketAddr UnixUnnamed)]) sample_manager () = Ret (e, m, ())"
    using sample_remove
    by (auto simp: serve_packet_def handle_packet_def dispatch_command_def handle_remove_def sample_mgr_json_def)
  from manager_refines_registry [OF sample_manager_start run] have "e = None \<and> registry m = Map.empty"
    using sample_remove by (simp add: registry_step_def sample_mgr_context_def sample_mgr_json_def sample_server_def)
  with run show ?thesis by blast
qed

theorem manager_lists_registry_witness:
  "handle_list sample_mgr_json sample_keys sample_manager =
     Ret (Inr (Some (''['' @ show_u16 8388 @ '']'' @ newline)))"
proof -
  have run: "mgr_run sample_lib sample_mgr_json sample_keys sample_mgr_os (\<lambda>_ _. Inr []) sample_mgr_context sample_manager ()"
    using sample_manager_start by (rule mgr_run.start)
  have "dom (registry sample_manager) = {8388}" by (auto simp: registry_def sample_manager_def dom_def)
  moreover have "\<forall>p. json_server sample_mgr_json p = Some (show_u16 (mp_server_port p))" by (simp add: sample_mgr_json_def)
  moreover have "ports = [8388]" if "set ports = {8388}" "distinct ports" for ports :: "u16 list"
    using that by (cases ports rule: list.exhaust; cases "tl ports") (auto simp: insert_eq_iff)
  ultimately show ?thesis using manager_lists_registry [OF run sample_hash_keys] by (force simp: listed_def)
qed

end
