(* ===== verification/Tcp_Connection.thy ===== *)
theory Tcp_Connection
  imports Flow_Stat Tcp_Aead
begin

text \<open>
  The layers between a socket and the encryption: \<^verbatim>\<open>Connection\<close> of \<^verbatim>\<open>src/relay/tcprelay/connection.rs\<close> adds a timeout
  and delays the choice of \<^verbatim>\<open>TCP_NODELAY\<close>, \<^verbatim>\<open>TcpMonStream\<close> of \<^verbatim>\<open>monitor.rs\<close> counts bytes. The stream below is
  given by its polls; its state includes the clock, read by \<open>clock\<close>, and the read buffer of \<^verbatim>\<open>BufReader\<close>.
\<close>

section \<open>Timeout\<close>

record 's Connection =
  cn_stream :: 's
  cn_timer :: "nat option"
  cn_timeout :: "nat option"
  cn_nodelay :: bool
  cn_written_first_packet :: bool

text \<open>\<open>nd\<close> sets \<^verbatim>\<open>TCP_NODELAY\<close> of the socket.\<close>

type_synonym 's nodelay_op = "bool \<Rightarrow> 's \<Rightarrow> (io_error + unit) \<times> 's"

definition Connection_new :: "'s nodelay_op \<Rightarrow> 's \<Rightarrow> nat option \<Rightarrow> 's Connection" where
  "Connection_new nd stream timeout =
     \<lparr>cn_stream = snd (nd True stream), cn_timer = None, cn_timeout = timeout, cn_nodelay = False,
      cn_written_first_packet = False\<rparr>"

definition conn_set_nodelay :: "'s nodelay_op \<Rightarrow> bool \<Rightarrow> 's Connection \<Rightarrow> (io_error + unit) \<times> 's Connection" where
  "conn_set_nodelay nd nodelay c =
     (let c = c\<lparr>cn_nodelay := nodelay\<rparr> in
      if cn_written_first_packet c
      then (case nd nodelay (cn_stream c) of (res, s) \<Rightarrow> (res, c\<lparr>cn_stream := s\<rparr>))
      else (Inr (), c))"

definition make_timeout_error :: io_error where
  "make_timeout_error = IoError TimedOut ''timed out''"

text \<open>A timer is ready once the clock has reached its deadline.\<close>

function poll_timeout :: "nat \<Rightarrow> 's Connection \<Rightarrow> (io_error + unit) poll \<times> 's Connection" where
  "poll_timeout now c =
     (case cn_timer c of
        Some deadline \<Rightarrow> (if now < deadline then (Pending, c) else (Ready (Inl make_timeout_error), c))
      | None \<Rightarrow>
          (case cn_timeout c of
             Some timeout \<Rightarrow> poll_timeout now (c\<lparr>cn_timer := Some (now + timeout)\<rparr>)
           | None \<Rightarrow> (Ready (Inr ()), c)))"
  by pat_completeness auto
termination
  by (relation "measure (\<lambda>(now, c). if cn_timer c = None then 1 else 0)") auto

declare poll_timeout.simps [simp del]

definition cancel_timeout :: "'s Connection \<Rightarrow> 's Connection" where
  "cancel_timeout c = c\<lparr>cn_timer := None\<rparr>"

text \<open>\<open>wait\<close> is the branch of a pending stream, common to reading, writing and flushing.\<close>

definition conn_wait :: "nat \<Rightarrow> 's Connection \<Rightarrow> (io_error + 'a) poll \<times> 's Connection" where
  "conn_wait now c =
     (case poll_timeout now c of
        (Pending, c) \<Rightarrow> (Pending, c)
      | (Ready (Inl e), c) \<Rightarrow> (Ready (Inl e), c)
      | (Ready (Inr _), c) \<Rightarrow> (Pending, c))"

definition conn_poll_read :: "('s \<Rightarrow> nat) \<Rightarrow> 's poll_reader \<Rightarrow> 's Connection poll_reader" where
  "conn_poll_read clock pr n c =
     (case pr n (cn_stream c) of
        (Ready r, s) \<Rightarrow> (Ready r, cancel_timeout (c\<lparr>cn_stream := s\<rparr>))
      | (Pending, s) \<Rightarrow> conn_wait (clock s) (c\<lparr>cn_stream := s\<rparr>))"

definition conn_poll_write :: "('s \<Rightarrow> nat) \<Rightarrow> 's nodelay_op \<Rightarrow> 's poll_writer \<Rightarrow> 's Connection poll_writer" where
  "conn_poll_write clock nd pw buf c =
     (case pw buf (cn_stream c) of
        (Ready r, s) \<Rightarrow>
          let c = cancel_timeout (c\<lparr>cn_stream := s\<rparr>);
              c = (if \<not> cn_written_first_packet c then
                     let c = c\<lparr>cn_written_first_packet := True\<rparr> in
                     if \<not> cn_nodelay c then c\<lparr>cn_stream := snd (nd False (cn_stream c))\<rparr> else c
                   else c)
          in (Ready r, c)
      | (Pending, s) \<Rightarrow> conn_wait (clock s) (c\<lparr>cn_stream := s\<rparr>))"

definition conn_poll_flush ::
    "('s \<Rightarrow> nat) \<Rightarrow> ('s \<Rightarrow> (io_error + unit) poll \<times> 's) \<Rightarrow> 's Connection \<Rightarrow> (io_error + unit) poll \<times> 's Connection" where
  "conn_poll_flush clock pf c =
     (case pf (cn_stream c) of
        (Ready r, s) \<Rightarrow> (Ready r, cancel_timeout (c\<lparr>cn_stream := s\<rparr>))
      | (Pending, s) \<Rightarrow> conn_wait (clock s) (c\<lparr>cn_stream := s\<rparr>))"

section \<open>Monitor\<close>

record 's TcpMonStream =
  mon_stream :: 's
  mon_flow_stat :: ServerFlowStatistic

definition TcpMonStream_new :: "ServerFlowStatistic \<Rightarrow> 's \<Rightarrow> 's TcpMonStream" where
  "TcpMonStream_new flow_stat stream = \<lparr>mon_stream = stream, mon_flow_stat = flow_stat\<rparr>"

definition mon_poll_read :: "'s poll_reader \<Rightarrow> 's TcpMonStream poll_reader" where
  "mon_poll_read pr n m =
     (case pr n (mon_stream m) of
        (Ready (Inl e), s) \<Rightarrow> (Ready (Inl e), m\<lparr>mon_stream := s\<rparr>)
      | (Pending, s) \<Rightarrow> (Pending, m\<lparr>mon_stream := s\<rparr>)
      | (Ready (Inr bs), s) \<Rightarrow>
          (Ready (Inr bs), m\<lparr>mon_stream := s, mon_flow_stat := (mon_flow_stat m)\<lparr>
             sfs_tcp := incr_rx (sfs_tcp (mon_flow_stat m)) (of_nat (length bs))\<rparr>\<rparr>))"

definition mon_poll_write :: "'s poll_writer \<Rightarrow> 's TcpMonStream poll_writer" where
  "mon_poll_write pw buf m =
     (case pw buf (mon_stream m) of
        (Ready (Inl e), s) \<Rightarrow> (Ready (Inl e), m\<lparr>mon_stream := s\<rparr>)
      | (Pending, s) \<Rightarrow> (Pending, m\<lparr>mon_stream := s\<rparr>)
      | (Ready (Inr n), s) \<Rightarrow>
          (Ready (Inr n), m\<lparr>mon_stream := s, mon_flow_stat := (mon_flow_stat m)\<lparr>
             sfs_tcp := incr_tx (sfs_tcp (mon_flow_stat m)) (of_nat n)\<rparr>\<rparr>))"

section \<open>Streams stay streams\<close>

lemma poll_timeout_stream: "cn_stream (snd (poll_timeout now c)) = cn_stream c"
  by (induction now c rule: poll_timeout.induct) (subst poll_timeout.simps, auto split: option.splits)

lemma conn_wait_stream: "conn_wait now c = (res, c') \<Longrightarrow> cn_stream c' = cn_stream c \<and> (\<forall>a. res \<noteq> Ready (Inr a))"
  using poll_timeout_stream [of now c]
  by (cases "poll_timeout now c") (auto simp: conn_wait_def split: poll.splits sum.splits)

text \<open>Setting \<^verbatim>\<open>TCP_NODELAY\<close> moves no bytes.\<close>

definition nodelay_ok :: "'s nodelay_op \<Rightarrow> ('s \<Rightarrow> bytes) \<Rightarrow> bool" where
  "nodelay_ok nd content \<longleftrightarrow> (\<forall>b s. content (snd (nd b s)) = content s)"

lemma conn_source_ok:
  assumes "source_ok pr left"
  shows "source_ok (conn_poll_read clock pr) (\<lambda>c. left (cn_stream c))"
  unfolding source_ok_def
proof (intro allI impI)
  fix n :: nat and c :: "'a Connection"
  assume n: "0 < n"
  obtain res s where p: "pr n (cn_stream c) = (res, s)" by (cases "pr n (cn_stream c)")
  show "case conn_poll_read clock pr n c of
      (Ready (Inr bs), c') \<Rightarrow> left (cn_stream c) = bs @ left (cn_stream c') \<and> length bs \<le> n \<and> (bs = [] \<longrightarrow> left (cn_stream c) = [])
    | (_, c') \<Rightarrow> left (cn_stream c') = left (cn_stream c)"
  proof (cases res)
    case Pending
    have "left s = left (cn_stream c)" using source_ok_other [OF assms n p] Pending by simp
    with Pending p show ?thesis
      by (auto simp: conn_poll_read_def split: prod.splits poll.splits sum.splits dest: conn_wait_stream)
  next
    case (Ready r)
    with source_ok_Ready [OF assms n, of "cn_stream c" _ s] source_ok_other [OF assms n p] p show ?thesis
      by (cases r) (auto simp: conn_poll_read_def cancel_timeout_def)
  qed
qed

lemma conn_sink_ok:
  assumes "sink_ok pw written" and "nodelay_ok nd written"
  shows "sink_ok (conn_poll_write clock nd pw) (\<lambda>c. written (cn_stream c))"
  unfolding sink_ok_def
proof (intro allI impI)
  fix bs :: bytes and c :: "'a Connection"
  assume bs: "bs \<noteq> []"
  obtain res s where p: "pw bs (cn_stream c) = (res, s)" by (cases "pw bs (cn_stream c)")
  show "case conn_poll_write clock nd pw bs c of
      (Ready (Inr n), c') \<Rightarrow> n \<le> length bs \<and> written (cn_stream c') = written (cn_stream c) @ take n bs
    | (_, c') \<Rightarrow> written (cn_stream c') = written (cn_stream c)"
  proof (cases res)
    case Pending
    have "written s = written (cn_stream c)" using sink_ok_other [OF assms(1) bs p] Pending by simp
    with Pending p show ?thesis
      by (auto simp: conn_poll_write_def split: prod.splits poll.splits sum.splits dest: conn_wait_stream)
  next
    case (Ready r)
    with sink_ok_Ready [OF assms(1) bs, of "cn_stream c" _ s] sink_ok_other [OF assms(1) bs p] p assms(2) show ?thesis
      by (cases r) (auto simp: conn_poll_write_def cancel_timeout_def nodelay_ok_def Let_def)
  qed
qed

lemma mon_source_ok:
  assumes "source_ok pr left"
  shows "source_ok (mon_poll_read pr) (\<lambda>m. left (mon_stream m))"
  unfolding source_ok_def
proof (intro allI impI)
  fix n :: nat and m :: "'a TcpMonStream"
  assume n: "0 < n"
  obtain res s where p: "pr n (mon_stream m) = (res, s)" by (cases "pr n (mon_stream m)")
  show "case mon_poll_read pr n m of
      (Ready (Inr bs), m') \<Rightarrow> left (mon_stream m) = bs @ left (mon_stream m') \<and> length bs \<le> n \<and> (bs = [] \<longrightarrow> left (mon_stream m) = [])
    | (_, m') \<Rightarrow> left (mon_stream m') = left (mon_stream m)"
  proof (cases res)
    case Pending
    with source_ok_other [OF assms n p] p show ?thesis by (simp add: mon_poll_read_def)
  next
    case (Ready r)
    with source_ok_Ready [OF assms n, of "mon_stream m" _ s] source_ok_other [OF assms n p] p show ?thesis
      by (cases r) (auto simp: mon_poll_read_def)
  qed
qed

lemma mon_sink_ok:
  assumes "sink_ok pw written"
  shows "sink_ok (mon_poll_write pw) (\<lambda>m. written (mon_stream m))"
  unfolding sink_ok_def
proof (intro allI impI)
  fix bs :: bytes and m :: "'a TcpMonStream"
  assume bs: "bs \<noteq> []"
  obtain res s where p: "pw bs (mon_stream m) = (res, s)" by (cases "pw bs (mon_stream m)")
  show "case mon_poll_write pw bs m of
      (Ready (Inr n), m') \<Rightarrow> n \<le> length bs \<and> written (mon_stream m') = written (mon_stream m) @ take n bs
    | (_, m') \<Rightarrow> written (mon_stream m') = written (mon_stream m)"
  proof (cases res)
    case Pending
    with sink_ok_other [OF assms bs p] p show ?thesis by (simp add: mon_poll_write_def)
  next
    case (Ready r)
    with sink_ok_Ready [OF assms bs, of "mon_stream m" _ s] sink_ok_other [OF assms bs p] p show ?thesis
      by (cases r) (auto simp: mon_poll_write_def)
  qed
qed

section \<open>Properties\<close>

text \<open>
  The layers below the encryption keep the contract that the encrypted stream relies on: over a socket
  that delivers and takes bytes in order, the monitored connection with a timeout does so too,
  whatever the clock says.
\<close>

lemma monitored_connection_ok:
  assumes "source_ok pr left" and "sink_ok pw written" and "nodelay_ok nd written"
  shows "source_ok (mon_poll_read (conn_poll_read clock pr)) (\<lambda>m. left (cn_stream (mon_stream m)))
       \<and> sink_ok (mon_poll_write (conn_poll_write clock nd pw)) (\<lambda>m. written (cn_stream (mon_stream m)))"
  using mon_source_ok [OF conn_source_ok [OF assms(1)]] mon_sink_ok [OF conn_sink_ok [OF assms(2,3)]] by blast

text \<open>
  C25. A connection that is silent times out, and not before: when a read first finds nothing at time \<open>t0\<close>, every
  later read or write that finds nothing either still waits before \<open>t0 + timeout\<close> and reports the timeout from then on,
  while anything the socket does report is passed on and stops the timer.
\<close>

theorem silent_connection_times_out:
  assumes "cn_timer c = None" and "cn_timeout c = Some timeout" and "0 < timeout"
    and "pr n (cn_stream c) = (Pending, s)" and "clock s = t0"
  shows "\<exists>c1. conn_poll_read clock pr n c = (Pending, c1) \<and> cn_stream c1 = s
    \<and> (\<forall>n' s1 s2. pr n' s1 = (Pending, s2) \<longrightarrow>
         conn_poll_read clock pr n' (c1\<lparr>cn_stream := s1\<rparr>) =
           (if clock s2 < t0 + timeout then Pending else Ready (Inl make_timeout_error), c1\<lparr>cn_stream := s2\<rparr>))
    \<and> (\<forall>bs s1 s2. pw bs s1 = (Pending, s2) \<longrightarrow>
         conn_poll_write clock nd pw bs (c1\<lparr>cn_stream := s1\<rparr>) =
           (if clock s2 < t0 + timeout then Pending else Ready (Inl make_timeout_error), c1\<lparr>cn_stream := s2\<rparr>))
    \<and> (\<forall>n' s1 s2 r. pr n' s1 = (Ready r, s2) \<longrightarrow>
         conn_poll_read clock pr n' (c1\<lparr>cn_stream := s1\<rparr>) = (Ready r, c\<lparr>cn_stream := s2\<rparr>))"
proof -
  let ?c1 = "c\<lparr>cn_stream := s, cn_timer := Some (t0 + timeout)\<rparr>"
  have new: "poll_timeout t0 (c\<lparr>cn_stream := s\<rparr>) = (Pending, ?c1)"
    using assms(1-3) by (subst poll_timeout.simps, simp, subst poll_timeout.simps, simp)
  have old: "poll_timeout now (?c1\<lparr>cn_stream := s2\<rparr>) =
      (if now < t0 + timeout then Pending else Ready (Inl make_timeout_error), ?c1\<lparr>cn_stream := s2\<rparr>)" for now s2
    by (subst poll_timeout.simps) simp
  have idle: "c\<lparr>cn_stream := s2, cn_timer := None\<rparr> = c\<lparr>cn_stream := s2\<rparr>" for s2 using assms(1) by (cases c) simp
  have start: "conn_poll_read clock pr n c = (Pending, ?c1)"
    using assms(4,5) new by (simp add: conn_poll_read_def conn_wait_def)
  show ?thesis
    by (intro exI [of _ ?c1] conjI allI impI, rule start)
      (use old in \<open>simp_all add: conn_poll_read_def conn_poll_write_def conn_wait_def cancel_timeout_def idle\<close>)
qed

theorem silent_connection_times_out_witness:
  "let poll = conn_poll_read (\<lambda>s. s) (\<lambda>n s. (Pending, s + 3));
       c = \<lparr>cn_stream = 0 :: nat, cn_timer = None, cn_timeout = Some 5, cn_nodelay = False, cn_written_first_packet = False\<rparr>
   in \<exists>c1. poll 1 c = (Pending, c1) \<and> poll 1 c1 = (Pending, c1\<lparr>cn_stream := 6\<rparr>)
        \<and> poll 1 (c1\<lparr>cn_stream := 6\<rparr>) = (Ready (Inl make_timeout_error), c1\<lparr>cn_stream := 9\<rparr>)"
proof -
  let ?pr = "\<lambda>(n :: nat) s. (Pending, s + 3) :: (io_error + bytes) poll \<times> nat"
  let ?c = "\<lparr>cn_stream = 0 :: nat, cn_timer = None, cn_timeout = Some 5, cn_nodelay = False, cn_written_first_packet = False\<rparr>"
  from silent_connection_times_out [of ?c 5 ?pr 1 3 "\<lambda>s. s" 3 "\<lambda>bs s. (Pending, s)" "\<lambda>b s. (Inr (), s)"]
  obtain c1 where c1: "conn_poll_read (\<lambda>s. s) ?pr 1 ?c = (Pending, c1)" "cn_stream c1 = 3"
      "\<And>n' s1. conn_poll_read (\<lambda>s. s) ?pr n' (c1\<lparr>cn_stream := s1\<rparr>) =
         (if s1 + 3 < 8 then Pending else Ready (Inl make_timeout_error), c1\<lparr>cn_stream := s1 + 3\<rparr>)"
    by auto
  have "c1\<lparr>cn_stream := 3\<rparr> = c1" using c1(2) by (cases c1) simp
  with c1(3) [of 1 3] c1(3) [of 1 6] c1(1) show ?thesis by (auto simp: Let_def)
qed

end
