(* ===== verification/Load_Balancer.thy ===== *)
theory Load_Balancer
  imports Ss_Context
begin

text \<open>
  The choice of a server, \<^verbatim>\<open>src/relay/loadbalancing/server.rs\<close>: the statistic of one server, its score, and the
  tasks that probe the servers and choose the best one. Arithmetic on \<^verbatim>\<open>f64\<close> is a parameter, so nothing below
  depends on rounding; 64 bit integers are words and wrap around as in a release build.
\<close>

section \<open>Statistic of a server\<close>

definition MAX_LATENCY_QUEUE_SIZE :: nat where "MAX_LATENCY_QUEUE_SIZE = 99"
definition DEFAULT_CHECK_TIMEOUT_SEC :: u64 where "DEFAULT_CHECK_TIMEOUT_SEC = 2"
definition MAX_SERVER_RTT :: u64 where "MAX_SERVER_RTT = DEFAULT_CHECK_TIMEOUT_SEC * 1000"

datatype Score = Latency u64 | Errored

record 'f f64_ops =
  f_of_u64 :: "u64 \<Rightarrow> 'f"
  f_add :: "'f \<Rightarrow> 'f \<Rightarrow> 'f"
  f_sub :: "'f \<Rightarrow> 'f \<Rightarrow> 'f"
  f_mul :: "'f \<Rightarrow> 'f \<Rightarrow> 'f"
  f_div :: "'f \<Rightarrow> 'f \<Rightarrow> 'f"
  f_sqrt :: "'f \<Rightarrow> 'f"
  f_to_u64 :: "'f \<Rightarrow> u64"

record 'f ServerStatisticData =
  sd_rtt :: u64
  sd_fail_rate :: 'f
  sd_latency_queue :: "Score list"
  sd_latency_stdev :: 'f
  sd_latency_mean :: 'f

definition max_latency_stdev :: "'f f64_ops \<Rightarrow> 'f" where
  "max_latency_stdev F =
     (let zero = f_of_u64 F 0;
          mrtt = f_of_u64 F MAX_SERVER_RTT;
          avg = f_div F (f_add F zero mrtt) (f_of_u64 F 2);
          diff1 = f_mul F (f_sub F zero avg) (f_sub F zero avg);
          diff2 = f_mul F (f_sub F mrtt avg) (f_sub F mrtt avg)
      in f_sqrt F (f_add F diff1 diff2))"

definition ServerStatisticData_new :: "'f f64_ops \<Rightarrow> 'f ServerStatisticData" where
  "ServerStatisticData_new F =
     \<lparr>sd_rtt = MAX_SERVER_RTT, sd_fail_rate = f_of_u64 F 1, sd_latency_queue = [], sd_latency_stdev = f_of_u64 F 0,
      sd_latency_mean = f_of_u64 F 0\<rparr>"

definition score :: "'f f64_ops \<Rightarrow> 'f ServerStatisticData \<Rightarrow> u64" where
  "score F d =
     (let nrtt = f_div F (f_of_u64 F (sd_rtt d)) (f_of_u64 F MAX_SERVER_RTT);
          nstdev = f_div F (sd_latency_stdev d) (max_latency_stdev F);
          SCORE_RTT_WEIGHT = f_of_u64 F 1;
          SCORE_FAIL_WEIGHT = f_of_u64 F 3;
          SCORE_STDEV_WEIGHT = f_of_u64 F 1;
          score = f_div F
            (f_add F (f_add F (f_mul F nrtt SCORE_RTT_WEIGHT) (f_mul F (sd_fail_rate d) SCORE_FAIL_WEIGHT)) (f_mul F nstdev SCORE_STDEV_WEIGHT))
            (f_add F (f_add F SCORE_RTT_WEIGHT SCORE_FAIL_WEIGHT) SCORE_STDEV_WEIGHT)
      in f_to_u64 F (f_mul F score (f_of_u64 F 1000)))"

fun count_scores :: "Score list \<Rightarrow> u64 list \<times> nat" where
  "count_scores [] = ([], 0)"
| "count_scores (Errored # ss) = (case count_scores ss of (vlat, cerr) \<Rightarrow> (vlat, cerr + 1))"
| "count_scores (Latency lat # ss) = (case count_scores ss of (vlat, cerr) \<Rightarrow> (lat # vlat, cerr))"

definition median_latency :: "u64 list \<Rightarrow> u64" where
  "median_latency vlat =
     (let mid = length vlat div 2 in
      if length vlat mod 2 = 0 then (vlat ! mid + vlat ! (mid - 1)) div 2 else vlat ! mid)"

definition recalculate_score :: "'f f64_ops \<Rightarrow> 'f ServerStatisticData \<Rightarrow> u64 \<times> 'f ServerStatisticData" where
  "recalculate_score F d =
     (if sd_latency_queue d = [] then (score F d, d)
      else
        let (vlat, cerr) = count_scores (sd_latency_queue d);
            d = d\<lparr>sd_fail_rate := f_div F (f_of_u64 F (of_nat cerr)) (f_of_u64 F (of_nat (length (sd_latency_queue d))))\<rparr>;
            d = (if vlat = [] then d
                 else
                   let vlat = sort vlat;
                       d = d\<lparr>sd_rtt := median_latency vlat\<rparr>
                   in if length vlat > 1 then
                        let n = f_of_u64 F (of_nat (length vlat));
                            total_lat = fold (\<lambda>s total_lat. total_lat + s) vlat 0;
                            d = d\<lparr>sd_latency_mean := f_div F (f_of_u64 F total_lat) n\<rparr>;
                            acc_diff = fold (\<lambda>s acc_diff.
                              let diff = f_sub F (f_of_u64 F s) (sd_latency_mean d) in f_add F acc_diff (f_mul F diff diff)) vlat (f_of_u64 F 0)
                        in d\<lparr>sd_latency_stdev := f_sqrt F (f_mul F (f_div F (f_of_u64 F 1) (f_sub F n (f_of_u64 F 1))) acc_diff)\<rparr>
                      else d)
        in (score F d, d))"

definition push_score :: "'f f64_ops \<Rightarrow> Score \<Rightarrow> 'f ServerStatisticData \<Rightarrow> u64 \<times> 'f ServerStatisticData" where
  "push_score F s d =
     (let d = d\<lparr>sd_latency_queue := sd_latency_queue d @ [s]\<rparr>;
          d = (if length (sd_latency_queue d) > MAX_LATENCY_QUEUE_SIZE then d\<lparr>sd_latency_queue := tl (sd_latency_queue d)\<rparr> else d)
      in recalculate_score F d)"

definition report_failure :: "'f f64_ops \<Rightarrow> 'f ServerStatisticData \<Rightarrow> u64 \<times> 'f ServerStatisticData" where
  "report_failure F d = push_score F Errored d"

text \<open>
  What a probe gives, within the timeout or not, and the time it took in seconds and milliseconds: a server that
  answers too slowly counts with the time that was waited, one that fails counts as an error.
\<close>

datatype probe = Answered "io_error + unit" | Unanswered

definition check_delay :: "probe \<Rightarrow> u64 \<Rightarrow> u32 \<Rightarrow> io_error + u64" where
  "check_delay res secs subsec_millis =
     (let elapsed = secs * 1000 + ucast subsec_millis in
      case res of
        Answered (Inr _) \<Rightarrow> Inr elapsed
      | Answered (Inl err) \<Rightarrow> Inl err
      | Unanswered \<Rightarrow> Inr elapsed)"

definition check_update_score :: "'f f64_ops \<Rightarrow> probe \<Rightarrow> u64 \<Rightarrow> u32 \<Rightarrow> 'f ServerStatisticData \<Rightarrow> 'f ServerStatisticData" where
  "check_update_score F res secs subsec_millis d =
     snd (case check_delay res secs subsec_millis of
            Inr lat \<Rightarrow> push_score F (Latency lat) d
          | Inl _ \<Rightarrow> push_score F Errored d)"

section \<open>The best server\<close>

record 'f BestServer =
  bs_servers :: "'f ServerStatisticData list"
  bs_best_idx :: nat

definition BestServer_new :: "'f ServerStatisticData list \<Rightarrow> 'f BestServer" where
  "BestServer_new servers = \<lparr>bs_servers = servers, bs_best_idx = 0\<rparr>"

text \<open>The index of the server that is picked; indexing outside of the list panics.\<close>

definition pick_server :: "'f BestServer \<Rightarrow> nat rust" where
  "pick_server b = (let idx = bs_best_idx b in if idx < length (bs_servers b) then Ret idx else Panic)"

fun best_of :: "nat \<Rightarrow> u64 list \<Rightarrow> nat \<times> u64 \<Rightarrow> nat \<times> u64" where
  "best_of idx [] best = best"
| "best_of idx (s # ss) (best_idx, best_score) =
     best_of (idx + 1) ss (if s < best_score then (idx, s) else (best_idx, best_score))"

text \<open>
  \<open>scores\<close> are the scores of the servers in their order, each as it was read: the probing tasks may run
  between two reads.
\<close>

definition recalculate_best_server :: "u64 list \<Rightarrow> 'f BestServer \<Rightarrow> (nat \<times> nat) option \<times> 'f BestServer" where
  "recalculate_best_server scores b =
     (let current_best_idx = bs_best_idx b;
          (best_idx, best_score) = best_of 0 scores (0, - 1)
      in if best_idx \<noteq> current_best_idx
         then (Some (current_best_idx, best_idx), b\<lparr>bs_best_idx := best_idx\<rparr>)
         else (None, b))"

section \<open>The balancer\<close>

text \<open>
  The probing tasks and the choosing task. \<open>pb_read\<close> are the scores the choosing task has read in its present
  round; \<open>pb_ready\<close> says that \<open>new\<close> has returned: at once with less than two servers, else after the first round of
  choosing, which waits for a probe of every server.
\<close>

record 'f PingBalancer =
  pb_best :: "'f BestServer"
  pb_read :: "u64 list"
  pb_ready :: bool

definition PingBalancer_new :: "'f f64_ops \<Rightarrow> nat \<Rightarrow> 'f PingBalancer" where
  "PingBalancer_new F server_count =
     \<lparr>pb_best = BestServer_new (replicate server_count (ServerStatisticData_new F)), pb_read = [],
      pb_ready = (server_count \<le> 1)\<rparr>"

definition check_required :: "'f PingBalancer \<Rightarrow> bool" where
  "check_required p \<longleftrightarrow> length (bs_servers (pb_best p)) > 1"

definition set_server_data :: "nat \<Rightarrow> ('f ServerStatisticData \<Rightarrow> 'f ServerStatisticData) \<Rightarrow> 'f PingBalancer \<Rightarrow> 'f PingBalancer" where
  "set_server_data idx f p =
     p\<lparr>pb_best := (pb_best p)\<lparr>bs_servers := (bs_servers (pb_best p))[idx := f (bs_servers (pb_best p) ! idx)]\<rparr>\<rparr>"

inductive balancer_step :: "'f f64_ops \<Rightarrow> 'f PingBalancer \<Rightarrow> 'f PingBalancer \<Rightarrow> bool" for F where
  probe: "\<lbrakk>check_required p; idx < length (bs_servers (pb_best p))\<rbrakk> \<Longrightarrow>
    balancer_step F p (set_server_data idx (check_update_score F res secs subsec_millis) p)"
| failure: "\<lbrakk>pb_ready p; idx < length (bs_servers (pb_best p))\<rbrakk> \<Longrightarrow>
    balancer_step F p (set_server_data idx (\<lambda>d. snd (report_failure F d)) p)"
| read: "\<lbrakk>check_required p; \<forall>d \<in> set (bs_servers (pb_best p)). sd_latency_queue d \<noteq> [];
      length (pb_read p) < length (bs_servers (pb_best p))\<rbrakk> \<Longrightarrow>
    balancer_step F p (p\<lparr>pb_read := pb_read p @ [score F (bs_servers (pb_best p) ! length (pb_read p))]\<rparr>)"
| choose: "\<lbrakk>check_required p; length (pb_read p) = length (bs_servers (pb_best p))\<rbrakk> \<Longrightarrow>
    balancer_step F p (p\<lparr>pb_best := snd (recalculate_best_server (pb_read p) (pb_best p)), pb_read := [], pb_ready := True\<rparr>)"

inductive balancer_run :: "'f f64_ops \<Rightarrow> nat \<Rightarrow> 'f PingBalancer \<Rightarrow> bool" for F n where
  start: "balancer_run F n (PingBalancer_new F n)"
| step: "\<lbrakk>balancer_run F n p; balancer_step F p p'\<rbrakk> \<Longrightarrow> balancer_run F n p'"

section \<open>The statistic\<close>

definition latencies :: "Score list \<Rightarrow> u64 list" where
  "latencies ss = fst (count_scores ss)"

lemma latencies_simps [simp]:
  "latencies [] = []" "latencies (Errored # ss) = latencies ss" "latencies (Latency l # ss) = l # latencies ss"
  by (auto simp: latencies_def split: prod.splits)

lemma count_scores_errors: "snd (count_scores ss) = count_list ss Errored"
proof (induction ss)
  case (Cons s ss)
  then show ?case by (cases s) (auto split: prod.splits)
qed simp

lemma count_scores_eq: "count_scores ss = (latencies ss, count_list ss Errored)"
  using count_scores_errors [of ss] by (metis latencies_def prod.collapse)

lemma filter_first: "\<lbrakk>k \<le> length xs; \<forall>j < k. P (xs ! j)\<rbrakk> \<Longrightarrow> k \<le> length (filter P xs)"
proof -
  assume k: "k \<le> length xs" "\<forall>j < k. P (xs ! j)"
  then have "filter P (take k xs) = take k xs" by (auto simp: filter_id_conv set_conv_nth)
  moreover have "filter P xs = filter P (take k xs) @ filter P (drop k xs)"
    by (simp flip: filter_append)
  ultimately show "k \<le> length (filter P xs)" using k(1) by simp
qed

lemma filter_rest: "\<lbrakk>k \<le> length xs; \<forall>j. k \<le> j \<and> j < length xs \<longrightarrow> P (xs ! j)\<rbrakk> \<Longrightarrow> length xs - k \<le> length (filter P xs)"
proof -
  assume k: "k \<le> length xs" "\<forall>j. k \<le> j \<and> j < length xs \<longrightarrow> P (xs ! j)"
  then have "filter P (drop k xs) = drop k xs" by (auto simp: filter_id_conv set_conv_nth)
  moreover have "filter P xs = filter P (take k xs) @ filter P (drop k xs)"
    by (simp flip: filter_append)
  ultimately show "length xs - k \<le> length (filter P xs)" by simp
qed

lemma length_filter_sort: "length (filter P (sort xs)) = length (filter P xs)"
  by (metis mset_filter mset_sort size_mset)

lemma mean_between:
  fixes a b :: u64
  assumes "a \<le> b" and "unat b < 2 ^ 63"
  shows "a \<le> (b + a) div 2 \<and> (b + a) div 2 \<le> b"
proof -
  have ab: "unat a \<le> unat b" using assms(1) by (simp add: word_le_nat_alt)
  with assms(2) have "unat (b + a) = unat b + unat a" by (simp add: unat_add_lem [THEN iffD1])
  then have "unat ((b + a) div 2) = (unat b + unat a) div 2" by (simp add: unat_div_distrib)
  with ab show ?thesis unfolding word_le_nat_alt by linarith
qed

lemma median_latency_sorted:
  assumes "sorted v" and "v \<noteq> []" and "\<forall>l \<in> set v. unat l < 2 ^ 63"
  shows "length v \<le> 2 * length (filter (\<lambda>l. l \<le> median_latency v) v) \<and> length v \<le> 2 * length (filter (\<lambda>l. median_latency v \<le> l) v)"
proof -
  let ?k = "length v div 2" and ?m = "median_latency v"
  have k: "?k < length v" using assms(2) by simp
  show ?thesis
  proof (cases "length v mod 2 = 0")
    case True
    then have "2 * ?k = length v" by auto
    with assms(2) have pos: "0 < ?k" "?k - 1 < length v" using k length_greater_0_conv [of v] by linarith+
    have m: "v ! (?k - 1) \<le> ?m" "?m \<le> v ! ?k"
      using mean_between [of "v ! (?k - 1)" "v ! ?k"] sorted_nth_mono [OF assms(1), of "?k - 1" ?k] k True assms(3)
      by (auto simp: median_latency_def Let_def)
    have "\<forall>j < ?k. v ! j \<le> ?m"
      using sorted_nth_mono [OF assms(1), of _ "?k - 1"] m(1) pos by (metis Suc_diff_1 less_Suc_eq_le order_trans)
    moreover have "\<forall>j. ?k \<le> j \<and> j < length v \<longrightarrow> ?m \<le> v ! j"
      using sorted_nth_mono [OF assms(1), of ?k] m(2) by (metis order_trans)
    ultimately have "?k \<le> length (filter (\<lambda>l. l \<le> ?m) v)" "length v - ?k \<le> length (filter (\<lambda>l. ?m \<le> l) v)"
      using filter_first [of ?k v "\<lambda>l. l \<le> ?m"] filter_rest [of ?k v "\<lambda>l. ?m \<le> l"] k by auto
    with \<open>2 * ?k = length v\<close> show ?thesis by linarith
  next
    case False
    then have m: "?m = v ! ?k" and len: "length v = 2 * ?k + 1" by (auto simp: median_latency_def Let_def) presburger
    have "\<forall>j < Suc ?k. v ! j \<le> ?m" using sorted_nth_mono [OF assms(1), of _ ?k] k m by auto
    moreover have "\<forall>j. ?k \<le> j \<and> j < length v \<longrightarrow> ?m \<le> v ! j" using sorted_nth_mono [OF assms(1), of ?k] m by auto
    ultimately have "Suc ?k \<le> length (filter (\<lambda>l. l \<le> ?m) v)" "length v - ?k \<le> length (filter (\<lambda>l. ?m \<le> l) v)"
      using filter_first [of "Suc ?k" v "\<lambda>l. l \<le> ?m"] filter_rest [of ?k v "\<lambda>l. ?m \<le> l"] k by auto
    with len show ?thesis by linarith
  qed
qed

lemma recalculate_score_fields:
  "sd_latency_queue (snd (recalculate_score F d)) = sd_latency_queue d"
  "sd_latency_queue d \<noteq> [] \<Longrightarrow> sd_fail_rate (snd (recalculate_score F d)) =
     f_div F (f_of_u64 F (of_nat (count_list (sd_latency_queue d) Errored))) (f_of_u64 F (of_nat (length (sd_latency_queue d))))"
  "latencies (sd_latency_queue d) \<noteq> [] \<Longrightarrow>
     sd_rtt (snd (recalculate_score F d)) = median_latency (sort (latencies (sd_latency_queue d)))"
  "latencies (sd_latency_queue d) = [] \<Longrightarrow> sd_rtt (snd (recalculate_score F d)) = sd_rtt d"
  by (auto simp: recalculate_score_def count_scores_eq Let_def)

lemma recalculate_score_value: "fst (recalculate_score F d) = score F (snd (recalculate_score F d))"
  by (simp add: recalculate_score_def Let_def split: prod.splits)

lemma push_score_queue:
  "length (sd_latency_queue d) \<le> MAX_LATENCY_QUEUE_SIZE \<Longrightarrow>
   sd_latency_queue (snd (push_score F s d)) = drop (length (sd_latency_queue d) + 1 - MAX_LATENCY_QUEUE_SIZE) (sd_latency_queue d @ [s])"
proof -
  assume len: "length (sd_latency_queue d) \<le> MAX_LATENCY_QUEUE_SIZE"
  show ?thesis
  proof (cases "length (sd_latency_queue d) = MAX_LATENCY_QUEUE_SIZE")
    case True
    then show ?thesis
      by (cases "sd_latency_queue d") (simp_all add: push_score_def Let_def recalculate_score_fields drop_Suc MAX_LATENCY_QUEUE_SIZE_def)
  next
    case False
    with len show ?thesis by (auto simp: push_score_def Let_def recalculate_score_fields)
  qed
qed

text \<open>The scores of a server one after the other.\<close>

definition push_all :: "'f f64_ops \<Rightarrow> Score list \<Rightarrow> 'f ServerStatisticData" where
  "push_all F ss = fold (\<lambda>s d. snd (push_score F s d)) ss (ServerStatisticData_new F)"

lemma push_all_snoc: "push_all F (ss @ [s]) = snd (push_score F s (push_all F ss))"
  by (simp add: push_all_def)

lemma push_all_queue: "sd_latency_queue (push_all F ss) = drop (length ss - MAX_LATENCY_QUEUE_SIZE) ss"
proof (induction ss rule: rev_induct)
  case Nil
  then show ?case by (simp add: push_all_def ServerStatisticData_new_def)
next
  case (snoc s ss)
  have "length (sd_latency_queue (push_all F ss)) \<le> MAX_LATENCY_QUEUE_SIZE" using snoc by simp
  moreover have "n - (n - 99 + 98) + (n - 99) = n - (98 :: nat)" for n by arith
  ultimately show ?case
    using push_score_queue [of "push_all F ss" F s] snoc by (simp add: push_all_snoc MAX_LATENCY_QUEUE_SIZE_def)
qed

lemma push_all_recalculated:
  assumes "ss \<noteq> []"
  obtains d where "push_all F ss = snd (recalculate_score F d)"
  using assms by (cases ss rule: rev_cases) (auto simp: push_all_snoc push_score_def Let_def)

section \<open>Properties\<close>

text \<open>
  C39. The statistic of a server is that of its latest 99 probes: the failure rate is the share of errors in them, and
  the round trip time is a median of the latencies in them - at least half of them are not larger, at
  least half are not smaller - for latencies below \<open>2 ^ 63\<close> milliseconds.
\<close>

theorem statistic_of_recent_probes:
  assumes "ss \<noteq> []" and "recent = drop (length ss - 99) ss" and "\<forall>l \<in> set (latencies recent). unat l < 2 ^ 63"
  shows "sd_latency_queue (push_all F ss) = recent
    \<and> sd_fail_rate (push_all F ss) = f_div F (f_of_u64 F (of_nat (count_list recent Errored))) (f_of_u64 F (of_nat (length recent)))
    \<and> (latencies recent \<noteq> [] \<longrightarrow>
        length (latencies recent) \<le> 2 * length (filter (\<lambda>l. l \<le> sd_rtt (push_all F ss)) (latencies recent))
      \<and> length (latencies recent) \<le> 2 * length (filter (\<lambda>l. sd_rtt (push_all F ss) \<le> l) (latencies recent)))"
proof -
  obtain d where d: "push_all F ss = snd (recalculate_score F d)" using push_all_recalculated [OF assms(1)] .
  have q: "sd_latency_queue (push_all F ss) = recent" using assms(2) by (simp add: push_all_queue MAX_LATENCY_QUEUE_SIZE_def)
  then have dq: "sd_latency_queue d = recent" by (simp add: d recalculate_score_fields)
  have "length ss - 99 < length ss" using assms(1) by (intro diff_less) simp_all
  then have "recent \<noteq> []" using assms(2) by simp
  then have rate: "sd_fail_rate (push_all F ss) =
      f_div F (f_of_u64 F (of_nat (count_list recent Errored))) (f_of_u64 F (of_nat (length recent)))"
    using recalculate_score_fields(2) [of d F] dq d by simp
  have "length (latencies recent) \<le> 2 * length (filter (\<lambda>l. l \<le> sd_rtt (push_all F ss)) (latencies recent))
      \<and> length (latencies recent) \<le> 2 * length (filter (\<lambda>l. sd_rtt (push_all F ss) \<le> l) (latencies recent))"
    if ne: "latencies recent \<noteq> []"
  proof -
    have "sd_rtt (push_all F ss) = median_latency (sort (latencies recent))"
      using recalculate_score_fields(3) [of d F] dq d ne by simp
    moreover have "sort (latencies recent) \<noteq> []" using ne by (metis length_0_conv length_sort)
    ultimately show ?thesis using median_latency_sorted [of "sort (latencies recent)"] assms(3) by (simp add: length_filter_sort)
  qed
  with q rate show ?thesis by blast
qed

text \<open>An arithmetic of thousandths.\<close>

definition sample_f64 :: "int f64_ops" where
  "sample_f64 = \<lparr>f_of_u64 = \<lambda>w. 1000 * uint w, f_add = (+), f_sub = (-), f_mul = \<lambda>a b. a * b div 1000,
     f_div = \<lambda>a b. a * 1000 div b, f_sqrt = id, f_to_u64 = \<lambda>a. of_int (a div 1000)\<rparr>"

theorem statistic_of_recent_probes_witness:
  "let rtt = sd_rtt (push_all sample_f64 [Latency 30, Errored, Latency 10, Latency 20])
   in 3 \<le> 2 * length (filter (\<lambda>l. l \<le> rtt) [30, 10, 20]) \<and> 3 \<le> 2 * length (filter (\<lambda>l. rtt \<le> l) [30, 10, 20])"
  using statistic_of_recent_probes [of "[Latency 30, Errored, Latency 10, Latency 20]" _ sample_f64, OF _ refl]
  by (simp add: Let_def)

text \<open>A server that only fails keeps its last round trip time.\<close>

lemma failures_keep_rtt:
  "latencies (sd_latency_queue (snd (push_score F s d))) = [] \<Longrightarrow> sd_rtt (snd (push_score F s d)) = sd_rtt d"
  by (auto simp: push_score_def Let_def recalculate_score_fields split: if_splits)

section \<open>Choosing\<close>

lemma best_of_least:
  assumes "best_of idx ss (bi, b) = (i, s)" and "bi \<le> idx"
  shows "(i = bi \<and> s = b \<or> idx \<le> i \<and> i < idx + length ss \<and> s = ss ! (i - idx) \<and> s < b)
       \<and> s \<le> b \<and> (\<forall>j < length ss. s \<le> ss ! j) \<and> (\<forall>j < length ss. idx + j < i \<longrightarrow> s < ss ! j)"
  using assms
proof (induction ss arbitrary: idx bi b)
  case (Cons c ss)
  show ?case
  proof (cases "c < b")
    case True
    with Cons.prems have "best_of (Suc idx) ss (idx, c) = (i, s)" by simp
    from Cons.IH [OF this] have ih: "(i = idx \<and> s = c \<or> Suc idx \<le> i \<and> i < Suc idx + length ss \<and> s = ss ! (i - Suc idx) \<and> s < c)
        \<and> s \<le> c \<and> (\<forall>j < length ss. s \<le> ss ! j) \<and> (\<forall>j < length ss. Suc idx + j < i \<longrightarrow> s < ss ! j)" by simp
    then have "idx < i \<longrightarrow> s < c" by auto
    moreover have "(c # ss) ! (i - idx) = ss ! (i - Suc idx)" if "Suc idx \<le> i" using that by (simp add: nth_Cons' Suc_diff_le)
    ultimately show ?thesis using ih True by (auto simp: All_less_Suc2)
  next
    case False
    with Cons.prems have "best_of (Suc idx) ss (bi, b) = (i, s)" by simp
    from Cons.IH [OF this] Cons.prems(2) have ih: "(i = bi \<and> s = b \<or> Suc idx \<le> i \<and> i < Suc idx + length ss \<and> s = ss ! (i - Suc idx) \<and> s < b)
        \<and> s \<le> b \<and> (\<forall>j < length ss. s \<le> ss ! j) \<and> (\<forall>j < length ss. Suc idx + j < i \<longrightarrow> s < ss ! j)" by simp
    then have "idx < i \<longrightarrow> s < c" using False Cons.prems(2) by auto
    moreover have "(c # ss) ! (i - idx) = ss ! (i - Suc idx)" if "Suc idx \<le> i" using that by (simp add: nth_Cons' Suc_diff_le)
    ultimately show ?thesis using ih False by (auto simp: All_less_Suc2)
  qed
qed simp

text \<open>The first server of the least score.\<close>

lemma recalculate_least:
  assumes "scores \<noteq> []"
  shows "\<exists>i < length scores. bs_best_idx (snd (recalculate_best_server scores b)) = i
       \<and> (\<forall>j < length scores. scores ! i \<le> scores ! j) \<and> (\<forall>j < i. scores ! i < scores ! j)"
proof -
  obtain i s where best: "best_of 0 scores (0, - 1) = (i, s)" by (cases "best_of 0 scores (0, - 1)")
  from best_of_least [OF this] have *: "(i = 0 \<and> s = - 1 \<or> i < length scores \<and> s = scores ! i)
      \<and> (\<forall>j < length scores. s \<le> scores ! j) \<and> (\<forall>j < length scores. j < i \<longrightarrow> s < scores ! j)" by auto
  have len: "0 < length scores" using assms by simp
  then have i: "i < length scores" using * by auto
  have "scores ! i = s"
  proof (cases "s = - 1")
    case True
    from * i have "s \<le> scores ! i" by blast
    moreover have "scores ! i \<le> s" unfolding True by (rule word_order.extremum)
    ultimately show ?thesis by (rule antisym [rotated])
  next
    case False
    with * show ?thesis by blast
  qed
  with * i best show ?thesis by (intro exI [of _ i]) (auto simp: recalculate_best_server_def Let_def)
qed

lemma recalculate_servers [simp]: "bs_servers (snd (recalculate_best_server scores b)) = bs_servers b"
  by (auto simp: recalculate_best_server_def Let_def split: prod.splits)

lemma set_server_data_simps [simp]:
  "length (bs_servers (pb_best (set_server_data idx f p))) = length (bs_servers (pb_best p))"
  "bs_best_idx (pb_best (set_server_data idx f p)) = bs_best_idx (pb_best p)"
  "pb_read (set_server_data idx f p) = pb_read p" "pb_ready (set_server_data idx f p) = pb_ready p"
  by (simp_all add: set_server_data_def)

definition balancer_inv :: "nat \<Rightarrow> 'f PingBalancer \<Rightarrow> bool" where
  "balancer_inv n p \<longleftrightarrow> length (bs_servers (pb_best p)) = n \<and> (0 < n \<longrightarrow> bs_best_idx (pb_best p) < n) \<and> length (pb_read p) \<le> n
     \<and> (\<forall>d \<in> set (bs_servers (pb_best p)). length (sd_latency_queue d) \<le> MAX_LATENCY_QUEUE_SIZE)"

lemma push_score_bounded:
  "length (sd_latency_queue d) \<le> MAX_LATENCY_QUEUE_SIZE \<Longrightarrow> length (sd_latency_queue (snd (push_score F s d))) \<le> MAX_LATENCY_QUEUE_SIZE"
  by (simp add: push_score_queue MAX_LATENCY_QUEUE_SIZE_def)

lemma balancer_inv_data:
  assumes "balancer_inv n p" and "idx < length (bs_servers (pb_best p))"
    and "\<And>d. length (sd_latency_queue d) \<le> MAX_LATENCY_QUEUE_SIZE \<Longrightarrow> length (sd_latency_queue (f d)) \<le> MAX_LATENCY_QUEUE_SIZE"
  shows "balancer_inv n (set_server_data idx f p)"
proof -
  let ?old = "bs_servers (pb_best p) ! idx"
  have "length (sd_latency_queue d) \<le> MAX_LATENCY_QUEUE_SIZE"
    if d: "d \<in> set (bs_servers (pb_best (set_server_data idx f p)))" for d
  proof -
    from d have "d \<in> insert (f ?old) (set (bs_servers (pb_best p)))"
      using set_update_subset_insert by (fastforce simp: set_server_data_def)
    moreover have "length (sd_latency_queue ?old) \<le> MAX_LATENCY_QUEUE_SIZE"
      using assms(1,2) by (simp add: balancer_inv_def)
    ultimately show ?thesis using assms(1) assms(3) [of ?old] by (auto simp: balancer_inv_def)
  qed
  with assms(1) show ?thesis by (simp add: balancer_inv_def)
qed

lemma balancer_step_inv: "balancer_step F p p' \<Longrightarrow> balancer_inv n p \<Longrightarrow> balancer_inv n p'"
proof (induction rule: balancer_step.induct)
  case (probe p idx res secs subsec_millis)
  then show ?case
    by (intro balancer_inv_data) (auto simp: check_update_score_def push_score_bounded split: sum.splits)
next
  case (failure p idx)
  then show ?case by (intro balancer_inv_data) (auto simp: report_failure_def push_score_bounded)
next
  case (read p)
  then show ?case by (simp add: balancer_inv_def)
next
  case (choose p)
  then have "pb_read p \<noteq> []" by (auto simp: check_required_def)
  with recalculate_least [of "pb_read p" "pb_best p"] choose show ?case by (auto simp: balancer_inv_def)
qed

lemma balancer_run_inv: "balancer_run F n p \<Longrightarrow> balancer_inv n p"
proof (induction rule: balancer_run.induct)
  case start
  then show ?case by (simp add: balancer_inv_def PingBalancer_new_def BestServer_new_def ServerStatisticData_new_def)
next
  case (step p p')
  then show ?case using balancer_step_inv by blast
qed

text \<open>
  C14. The balancer always has a server to offer: however probes, reported failures and rounds of choosing
  interleave, picking a server does not panic, and when a round of choosing ends the picked server is the
  first of those with the least score that the round has read. No statistic holds more than 99 probes.
\<close>

theorem balancer_picks_best:
  assumes "balancer_run F n p" and "0 < n"
  shows "(\<exists>i < n. pick_server (pb_best p) = Ret i)
    \<and> (1 < n \<and> length (pb_read p) = n \<longrightarrow>
        (\<exists>i < n. pick_server (snd (recalculate_best_server (pb_read p) (pb_best p))) = Ret i
           \<and> (\<forall>j < n. pb_read p ! i \<le> pb_read p ! j) \<and> (\<forall>j < i. pb_read p ! i < pb_read p ! j)))
    \<and> (\<forall>d \<in> set (bs_servers (pb_best p)). length (sd_latency_queue d) \<le> 99)"
proof -
  have inv: "balancer_inv n p" using balancer_run_inv [OF assms(1)] .
  then have pick: "\<exists>i < n. pick_server (pb_best p) = Ret i"
    using assms(2) by (auto simp: balancer_inv_def pick_server_def Let_def)
  have "\<exists>i < n. pick_server (snd (recalculate_best_server (pb_read p) (pb_best p))) = Ret i
           \<and> (\<forall>j < n. pb_read p ! i \<le> pb_read p ! j) \<and> (\<forall>j < i. pb_read p ! i < pb_read p ! j)"
    if len: "length (pb_read p) = n"
  proof -
    from len assms(2) have "pb_read p \<noteq> []" by auto
    from recalculate_least [OF this, of "pb_best p"] len inv show ?thesis
      by (auto simp: pick_server_def Let_def balancer_inv_def)
  qed
  with pick inv show ?thesis by (simp add: balancer_inv_def MAX_LATENCY_QUEUE_SIZE_def)
qed

text \<open>Two servers, of which the second answers faster.\<close>

definition sample_balancer :: "int PingBalancer" where
  "sample_balancer =
     set_server_data 1 (check_update_score sample_f64 (Answered (Inr ())) 0 40)
       (set_server_data 0 (check_update_score sample_f64 (Answered (Inr ())) 1 0) (PingBalancer_new sample_f64 2))"

definition sample_read :: "int PingBalancer \<Rightarrow> int PingBalancer" where
  "sample_read p = p\<lparr>pb_read := pb_read p @ [score sample_f64 (bs_servers (pb_best p) ! length (pb_read p))]\<rparr>"

lemma sample_scores: "pb_read (sample_read (sample_read sample_balancer)) = [100, 4]"
  by code_simp

lemma sample_probed: "\<forall>d \<in> set (bs_servers (pb_best sample_balancer)). sd_latency_queue d \<noteq> []"
  by code_simp

lemma sample_balancer_run: "balancer_run sample_f64 2 (sample_read (sample_read sample_balancer))"
proof -
  have "balancer_run sample_f64 2 (set_server_data 0 (check_update_score sample_f64 (Answered (Inr ())) 1 0) (PingBalancer_new sample_f64 2))"
    by (rule balancer_run.step [OF balancer_run.start balancer_step.probe])
      (simp_all add: check_required_def PingBalancer_new_def BestServer_new_def)
  then have start: "balancer_run sample_f64 2 sample_balancer"
    unfolding sample_balancer_def
    by (rule balancer_run.step [OF _ balancer_step.probe])
      (simp_all add: check_required_def PingBalancer_new_def BestServer_new_def)
  have len: "length (bs_servers (pb_best sample_balancer)) = 2" "pb_read sample_balancer = []"
    by (simp_all add: sample_balancer_def PingBalancer_new_def BestServer_new_def)
  have "balancer_run sample_f64 2 (sample_read sample_balancer)"
    unfolding sample_read_def
    by (rule balancer_run.step [OF start balancer_step.read]) (use sample_probed in \<open>simp_all add: check_required_def len\<close>)
  then show ?thesis
    unfolding sample_read_def
    by (rule balancer_run.step [OF _ balancer_step.read]) (use sample_probed in \<open>simp_all add: check_required_def len\<close>)
qed

theorem balancer_picks_best_witness:
  "\<exists>i < 2. pick_server (snd (recalculate_best_server [100, 4] (pb_best sample_balancer))) = Ret i \<and> [100, 4 :: u64] ! i \<le> 4"
proof -
  have "pb_best (sample_read (sample_read sample_balancer)) = pb_best sample_balancer" by (simp add: sample_read_def)
  with balancer_picks_best [OF sample_balancer_run] sample_scores obtain i where i: "i < 2"
      "pick_server (snd (recalculate_best_server [100, 4] (pb_best sample_balancer))) = Ret i" "\<forall>j < 2. [100, 4 :: u64] ! i \<le> [100, 4] ! j"
    by (auto simp del: nth_Cons_numeral)
  have "[100, 4 :: u64] ! i \<le> [100, 4] ! 1" by (rule i(3) [rule_format]) simp
  then have "[100, 4 :: u64] ! i \<le> 4" by simp
  with i(1,2) show ?thesis by (intro exI [of _ i] conjI)
qed

end
