(* ===== verification/Tcp_Relay.thy ===== *)
theory Tcp_Relay
  imports Crypto_Session Tcp_Connection Udp_Relay Load_Balancer
begin

text \<open>
  The TCP relay: \<^verbatim>\<open>proxy_stream.rs\<close> and \<^verbatim>\<open>server.rs\<close> of \<^verbatim>\<open>src/relay/tcprelay\<close>, up to the open tunnel. The
  local servers are in \<open>Socks5_Local\<close> and \<open>Http_Local\<close>, what a tunnel moves is the subject of \<open>Tunnel\<close>.
\<close>

section \<open>Environment\<close>

text \<open>
  The libraries and the operating system as a task sees them. \<open>te_connect\<close> opens a socket \<open>'k\<close>, from a local address if
  one is given, and says how long that took; \<open>'w\<close> is the state of the network.
\<close>

record ('c, 'b, 'n, 'm, 'r, 'q, 'x, 'l, 'k, 'w) tcp_env =
  te_lib :: "'c crypto_lib"
  te_bloom :: "'b bloom_ops"
  te_acl :: "('n, 'm, 'r, 'q, 'x) acl_lib"
  te_cache :: "(ip_addr, string, 'l) lru_ops"
  te_dns_relay :: bool
  te_android :: bool
  te_rnd :: "nat \<Rightarrow> nat \<Rightarrow> bytes"
  te_resolve :: resolver
  te_connect :: "socket_addr option \<Rightarrow> socket_addr \<Rightarrow> 'w \<Rightarrow> ((io_error + 'k) \<times> nat) \<times> 'w"
  te_nodelay :: "'k nodelay_op"
  te_clock :: "'k \<Rightarrow> nat"
  te_read :: "'k poll_reader"
  te_write :: "'k poll_writer"
  te_local_addr :: "'k \<Rightarrow> io_error + socket_addr"

definition try_timeout :: "(io_error + 'a) \<times> nat \<Rightarrow> nat option \<Rightarrow> io_error + 'a" where
  "try_timeout fut timeout =
     (case timeout of
        Some t \<Rightarrow> if t < snd fut then Inl (IoError TimedOut ''deadline has elapsed'') else fst fut
      | None \<Rightarrow> fst fut)"

definition connect_timeout ::
    "('c, 'b, 'n, 'm, 'r, 'q, 'x, 'l, 'k, 'w) tcp_env \<Rightarrow> socket_addr option \<Rightarrow> nat option \<Rightarrow> socket_addr \<Rightarrow> 'w \<Rightarrow>
     (io_error + 'k) \<times> 'w" where
  "connect_timeout E bind_addr timeout saddr w =
     (case te_connect E bind_addr saddr w of (fut, w) \<Rightarrow> (try_timeout fut timeout, w))"

text \<open>The polls of a stream with a timeout, on the side of the client, and of a monitored one, on the side of the server.\<close>

definition st_write :: "('c, 'b, 'n, 'm, 'r, 'q, 'x, 'l, 'k, 'w) tcp_env \<Rightarrow> 'k Connection poll_writer" where
  "st_write E = conn_poll_write (te_clock E) (te_nodelay E) (te_write E)"

definition st_read :: "('c, 'b, 'n, 'm, 'r, 'q, 'x, 'l, 'k, 'w) tcp_env \<Rightarrow> 'k Connection TcpMonStream poll_reader" where
  "st_read E = mon_poll_read (conn_poll_read (te_clock E) (te_read E))"

text \<open>\<^verbatim>\<open>write_all\<close>: \<open>None\<close> is a stream that stays pending for ever.\<close>

partial_function (option) write_all ::
    "'c crypto_lib \<Rightarrow> 's poll_writer \<Rightarrow> bytes \<Rightarrow> ('c, 's) CryptoStream \<Rightarrow>
     ((io_error + unit) \<times> ('c, 's) CryptoStream) rust option" where
  "write_all L pw buf c =
     (if buf = [] then Some (Ret (Inr (), c))
      else
        (case priv_poll_write L pw c buf of
           Panic \<Rightarrow> Some Panic
         | Ret (Pending, c) \<Rightarrow> write_all L pw buf c
         | Ret (Ready (Inl e), c) \<Rightarrow> Some (Ret (Inl e, c))
         | Ret (Ready (Inr n), c) \<Rightarrow>
             if n = 0 then Some (Ret (Inl (IoError WriteZero ''write zero byte into writer''), c))
             else write_all L pw (drop n buf) c))"

section \<open>Streams to a proxy server or a target\<close>

datatype ('c, 'k) ProxyStream = Direct "'k Connection" | Proxied "('c, 'k Connection) CryptoStream"

record ProxyStreamError =
  pse_inner :: io_error
  pse_bypassed :: bool

definition ProxyStreamError_is_proxied :: "ProxyStreamError \<Rightarrow> bool" where
  "ProxyStreamError_is_proxied err = pse_bypassed err"

primrec ProxyStream_is_proxied :: "('c, 'k) ProxyStream \<Rightarrow> bool" where
  "ProxyStream_is_proxied (Proxied _) = True"
| "ProxyStream_is_proxied (Direct _) = False"

definition ProxyStream_local_addr ::
    "('c, 'b, 'n, 'm, 'r, 'q, 'x, 'l, 'k, 'w) tcp_env \<Rightarrow> ('c, 'k) ProxyStream \<Rightarrow> io_error + socket_addr" where
  "ProxyStream_local_addr E s =
     (case s of Direct stream \<Rightarrow> te_local_addr E (cn_stream stream) | Proxied stream \<Rightarrow> te_local_addr E (cn_stream (cs_stream stream)))"

definition connect_direct ::
    "('c, 'b, 'n, 'm, 'r, 'q, 'x, 'l, 'k, 'w) tcp_env \<Rightarrow> ('b, 'r, 'q, 'x, 'l) Context \<Rightarrow> Address \<Rightarrow> 'w \<Rightarrow>
     ((io_error + ('c, 'k) ProxyStream) \<times> 'w) rust" where
  "connect_direct E context addr w =
     (let timeout = cfg_timeout (ctx_config context) in
      rust_bind
        (case addr of
           SocketAddress saddr \<Rightarrow> Ret (connect_timeout E None timeout saddr w)
         | DomainNameAddress domain port \<Rightarrow>
             rust_bind (lookup_then (te_resolve E) domain port (connect_timeout E None timeout) w) (\<lambda>(res, w). Ret (map_sum id snd res, w)))
        (\<lambda>(res, w). Ret (map_sum id (\<lambda>stream. Direct (Connection_new (te_nodelay E) stream timeout)) res, w)))"

definition connect_proxy_server_internal ::
    "('c, 'b, 'n, 'm, 'r, 'q, 'x, 'l, 'k, 'w) tcp_env \<Rightarrow> ServerAddr \<Rightarrow> nat option \<Rightarrow> 'w \<Rightarrow> ((io_error + 'k Connection) \<times> 'w) rust" where
  "connect_proxy_server_internal E svr_addr timeout w =
     (let new = (\<lambda>s. Connection_new (te_nodelay E) s timeout) in
      case svr_addr of
        SvrSocketAddr addr \<Rightarrow> Ret (map_prod (map_sum id new) id (connect_timeout E None timeout addr w))
      | SvrDomainName domain port \<Rightarrow>
          rust_bind (lookup_then (te_resolve E) domain port
                       (\<lambda>addr w. map_prod (map_sum id new) id (connect_timeout E None timeout addr w)) w)
            (\<lambda>(res, w). Ret (map_sum id snd res, w)))"

definition RETRY_TIMES :: nat where "RETRY_TIMES = 3"

fun connect_retry ::
    "('c, 'b, 'n, 'm, 'r, 'q, 'x, 'l, 'k, 'w) tcp_env \<Rightarrow> bool \<Rightarrow> ServerAddr \<Rightarrow> nat option \<Rightarrow> nat \<Rightarrow> io_error option \<Rightarrow> 'w \<Rightarrow>
     ((io_error + 'k Connection) \<times> 'w) rust" where
  "connect_retry E no_delay svr_addr timeout 0 last_err w =
     (case last_err of None \<Rightarrow> Panic | Some err \<Rightarrow> Ret (Inl err, w))"
| "connect_retry E no_delay svr_addr timeout (Suc retries) last_err w =
     rust_bind (connect_proxy_server_internal E svr_addr timeout w) (\<lambda>(res, w).
       case res of
         Inr s \<Rightarrow> Ret (Inr (snd (conn_set_nodelay (te_nodelay E) no_delay s)), w)
       | Inl err \<Rightarrow> connect_retry E no_delay svr_addr timeout retries (Some err) w)"

definition or_else :: "'a option \<Rightarrow> 'a option \<Rightarrow> 'a option" where
  "or_else a b = (case a of Some x \<Rightarrow> Some x | None \<Rightarrow> b)"

definition connect_proxy_server ::
    "('c, 'b, 'n, 'm, 'r, 'q, 'x, 'l, 'k, 'w) tcp_env \<Rightarrow> ('b, 'r, 'q, 'x, 'l) Context \<Rightarrow> ServerConfig \<Rightarrow> 'w \<Rightarrow>
     ((io_error + 'k Connection) \<times> 'w) rust" where
  "connect_proxy_server E context svr_cfg w =
     (let timeout = or_else (sc_timeout svr_cfg) (cfg_timeout (ctx_config context)) in
      rust_bind
        (case cfg_config_type (ctx_config context) of
           Server \<Rightarrow> Ret (sc_addr svr_cfg)
         | Manager \<Rightarrow> Panic
         | _ \<Rightarrow> Ret (external_addr svr_cfg))
        (\<lambda>svr_addr. connect_retry E (cfg_no_delay (ctx_config context)) svr_addr timeout RETRY_TIMES None w))"

definition proxy_server_handshake ::
    "('c, 'b, 'n, 'm, 'r, 'q, 'x, 'l, 'k, 'w) tcp_env \<Rightarrow> ('b, 'r, 'q, 'x, 'l) Context \<Rightarrow> 'k Connection \<Rightarrow> ServerConfig \<Rightarrow> Address \<Rightarrow>
     ((io_error + ('c, 'k Connection) CryptoStream) \<times> ('b, 'r, 'q, 'x, 'l) Context) rust option" where
  "proxy_server_handshake E context remote_stream svr_cfg relay_addr =
     (case CryptoStream_new (te_lib E) (te_bloom E) (te_rnd E) (ctx_nonce_ppbloom context) remote_stream svr_cfg of
        None \<Rightarrow> None
      | Some Panic \<Rightarrow> Some Panic
      | Some (Ret (stream, p)) \<Rightarrow>
          let context = context\<lparr>ctx_nonce_ppbloom := p\<rparr> in
          (case Address_write_to_buf relay_addr [] of
             Panic \<Rightarrow> Some Panic
           | Ret addr_buf \<Rightarrow>
               map_option (\<lambda>x. rust_bind x (\<lambda>(res, stream). Ret (map_sum id (\<lambda>_. stream) res, context)))
                 (write_all (te_lib E) (st_write E) addr_buf stream)))"

definition connect_proxied ::
    "('c, 'b, 'n, 'm, 'r, 'q, 'x, 'l, 'k, 'w) tcp_env \<Rightarrow> ('b, 'r, 'q, 'x, 'l) Context \<Rightarrow> ServerConfig \<Rightarrow> Address \<Rightarrow> 'w \<Rightarrow>
     ((io_error + ('c, 'k) ProxyStream) \<times> ('b, 'r, 'q, 'x, 'l) Context \<times> 'w) rust option" where
  "connect_proxied E context svr_cfg addr w =
     (case connect_proxy_server E context svr_cfg w of
        Panic \<Rightarrow> Some Panic
      | Ret (Inl err, w) \<Rightarrow> Some (Ret (Inl err, context, w))
      | Ret (Inr server_stream, w) \<Rightarrow>
          map_option (\<lambda>x. rust_bind x (\<lambda>(res, context). Ret (map_sum id Proxied res, context, w)))
            (proxy_server_handshake E context server_stream svr_cfg addr))"

definition ProxyStream_connect ::
    "('c, 'b, 'n, 'm, 'r, 'q, 'x, 'l, 'k, 'w) tcp_env \<Rightarrow> ('b, 'r, 'q, 'x, 'l) Context \<Rightarrow> ServerConfig \<Rightarrow> Address \<Rightarrow> 'w \<Rightarrow>
     ((ProxyStreamError + ('c, 'k) ProxyStream) \<times> ('b, 'r, 'q, 'x, 'l) Context \<times> 'w) rust option" where
  "ProxyStream_connect E context svr_cfg addr w =
     (case ctx_check_target_bypassed (te_acl E) (te_cache E) (te_dns_relay E) (te_android E) (te_resolve E) context addr of
        (bypassed, context) \<Rightarrow>
          if bypassed then
            Some (rust_bind (connect_direct E context addr w) (\<lambda>(res, w).
              Ret (map_err (\<lambda>err. \<lparr>pse_inner = err, pse_bypassed = True\<rparr>) res, context, w)))
          else
            map_option (\<lambda>x. rust_bind x (\<lambda>(res, context, w).
                Ret (map_err (\<lambda>err. \<lparr>pse_inner = err, pse_bypassed = False\<rparr>) res, context, w)))
              (connect_proxied E context svr_cfg addr w))"

section \<open>Reading addresses from an encrypted stream\<close>

text \<open>
  A decoder as a plan of exact reads. The same plan runs over a reader in memory and over a stream that is polled.
\<close>

datatype 'a plan = Done 'a | Need nat "bytes \<Rightarrow> 'a plan"

definition address_plan :: "(Socks5Error + Address) plan" where
  "address_plan =
     Need 1 (\<lambda>addr_type_buf.
       let addr_type = addr_type_buf ! 0 in
       if addr_type = SOCKS5_ADDR_TYPE_IPV4 then
         Need 6 (\<lambda>buf. Done (Inr (SocketAddress
           (SocketAddrV4 (Ipv4Addr (buf ! 0) (buf ! 1) (buf ! 2) (buf ! 3)) (get_u16 (buf ! 4) (buf ! 5))))))
       else if addr_type = SOCKS5_ADDR_TYPE_IPV6 then
         Need 18 (\<lambda>buf. let g = get_u16s buf in Done (Inr (SocketAddress
           (SocketAddrV6 (Ipv6Addr (g ! 0) (g ! 1) (g ! 2) (g ! 3) (g ! 4) (g ! 5) (g ! 6) (g ! 7)) (g ! 8) 0 0))))
       else if addr_type = SOCKS5_ADDR_TYPE_DOMAIN_NAME then
         Need 1 (\<lambda>length_buf.
           let len = unat (length_buf ! 0) in
           Need (len + 2) (\<lambda>buf.
             case from_utf8 (take len buf) of
               None \<Rightarrow> Done (Inl (Socks5Error_new GeneralFailure ''invalid address encoding''))
             | Some addr \<Rightarrow> Done (Inr (DomainNameAddress addr (get_u16 (buf ! len) (buf ! (len + 1)))))))
       else Done (Inl (Socks5Error_new AddressTypeNotSupported (''not supported address type '' @ show_hex addr_type))))"

primrec run_reader :: "'r reader \<Rightarrow> (Socks5Error + 'a) plan \<Rightarrow> 'r \<Rightarrow> Socks5Error + ('a \<times> 'r)" where
  "run_reader rd (Done x) r = (case x of Inl e \<Rightarrow> Inl e | Inr a \<Rightarrow> Inr (a, r))"
| "run_reader rd (Need n f) r = bind_res (read_exact rd n r) (\<lambda>(bs, r). run_reader rd (f bs) r)"

text \<open>The plan is that of \<open>Address_read_from\<close>.\<close>

lemma Address_read_from_plan: "Address_read_from rd r = run_reader rd address_plan r"
  unfolding Address_read_from_def address_plan_def run_reader.simps
  by (auto simp: Let_def split: option.splits intro!: arg_cong [where f = "bind_res _"] ext)

text \<open>\<^verbatim>\<open>read_exact\<close> over a stream that is polled; \<open>None\<close> is a stream that stays pending for ever.\<close>

partial_function (option) crypto_read_exact ::
    "'c crypto_lib \<Rightarrow> 'b bloom_ops \<Rightarrow> 's poll_reader \<Rightarrow> nat \<Rightarrow> bytes \<Rightarrow> ('c, 's) CryptoStream \<Rightarrow> 'b PingPongBloom \<Rightarrow>
     ((io_error + bytes) \<times> ('c, 's) CryptoStream \<times> 'b PingPongBloom) rust option" where
  "crypto_read_exact L B pr n buf c p =
     (if n \<le> length buf then Some (Ret (Inr buf, c, p))
      else
        (case priv_poll_read L B pr c p (n - length buf) of
           None \<Rightarrow> None
         | Some Panic \<Rightarrow> Some Panic
         | Some (Ret (Pending, c, p)) \<Rightarrow> crypto_read_exact L B pr n buf c p
         | Some (Ret (Ready (Inl e), c, p)) \<Rightarrow> Some (Ret (Inl e, c, p))
         | Some (Ret (Ready (Inr bs), c, p)) \<Rightarrow>
             if bs = [] then Some (Ret (Inl (IoError UnexpectedEof ''early eof''), c, p))
             else crypto_read_exact L B pr n (buf @ bs) c p))"

primrec run_crypto ::
    "'c crypto_lib \<Rightarrow> 'b bloom_ops \<Rightarrow> 's poll_reader \<Rightarrow> (Socks5Error + 'a) plan \<Rightarrow> ('c, 's) CryptoStream \<Rightarrow> 'b PingPongBloom \<Rightarrow>
     ((Socks5Error + 'a) \<times> ('c, 's) CryptoStream \<times> 'b PingPongBloom) rust option" where
  "run_crypto L B pr (Done x) c p = Some (Ret (x, c, p))"
| "run_crypto L B pr (Need n f) c p =
     (case crypto_read_exact L B pr n [] c p of
        None \<Rightarrow> None
      | Some Panic \<Rightarrow> Some Panic
      | Some (Ret (Inl e, c, p)) \<Rightarrow> Some (Ret (Inl (Socks5Error_from_io e), c, p))
      | Some (Ret (Inr bs, c, p)) \<Rightarrow> run_crypto L B pr (f bs) c p)"

section \<open>The server\<close>

definition check_bind_addr :: "resolver \<Rightarrow> ServerAddr option \<Rightarrow> (io_error + socket_addr option) rust" where
  "check_bind_addr resolve local_addr =
     (case local_addr of
        None \<Rightarrow> Ret (Inr None)
      | Some addr \<Rightarrow> rust_bind (resolve_bind_addr resolve addr) (\<lambda>res. Ret (map_sum id Some res)))"

text \<open>From a decoded address to the socket of the target; the access control list is asked before and after resolving.\<close>

definition server_connect ::
    "('c, 'b, 'n, 'm, 'r, 'q, 'x, 'l, 'k, 'w) tcp_env \<Rightarrow> ('b, 'r, 'q, 'x, 'l) Context \<Rightarrow> nat option \<Rightarrow> Address \<Rightarrow> 'w \<Rightarrow>
     ((io_error + 'k option) \<times> 'w) rust" where
  "server_connect E context timeout remote_addr w =
     (if ctx_check_outbound_blocked (te_acl E) context remote_addr then Ret (Inr None, w)
      else
        rust_bind (check_bind_addr (te_resolve E) (cfg_local (ctx_config context))) (\<lambda>ba.
          case ba of
            Inl e \<Rightarrow> Ret (Inl e, w)
          | Inr bind_addr \<Rightarrow>
              (case remote_addr of
                 SocketAddress saddr \<Rightarrow> Ret (map_prod (map_sum id Some) id (connect_timeout E bind_addr timeout saddr w))
               | DomainNameAddress dname port \<Rightarrow>
                   rust_bind (lookup_outbound_then (te_acl E) context (te_resolve E) dname port (connect_timeout E bind_addr timeout) w)
                     (\<lambda>(res, w). Ret (map_sum id (\<lambda>(_, s). Some s) res, w)))))"

text \<open>
  The result of a served client: the stream to the client, the address and the socket of the target, between which the
  tunnel is then opened, or \<open>None\<close> when the target is blocked.
\<close>

definition handle_client ::
    "('c, 'b, 'n, 'm, 'r, 'q, 'x, 'l, 'k, 'w) tcp_env \<Rightarrow> ('b, 'r, 'q, 'x, 'l) Context \<Rightarrow> ServerFlowStatistic \<Rightarrow> ServerConfig \<Rightarrow> 'k \<Rightarrow> 'w \<Rightarrow>
     ((io_error + (('c, 'k Connection TcpMonStream) CryptoStream \<times> Address \<times> 'k) option) \<times> ('b, 'r, 'q, 'x, 'l) Context \<times> 'w)
       rust option" where
  "handle_client E context flow_stat svr_cfg socket w =
     (let timeout = or_else (sc_timeout svr_cfg) (cfg_timeout (ctx_config context)) in
      case conn_set_nodelay (te_nodelay E) (cfg_no_delay (ctx_config context)) (Connection_new (te_nodelay E) socket timeout) of
        (Inl e, _) \<Rightarrow> Some (Ret (Inl e, context, w))
      | (Inr _, stream) \<Rightarrow>
          (case CryptoStream_new (te_lib E) (te_bloom E) (te_rnd E) (ctx_nonce_ppbloom context) (TcpMonStream_new flow_stat stream) svr_cfg of
             None \<Rightarrow> None
           | Some Panic \<Rightarrow> Some Panic
           | Some (Ret (stream, p)) \<Rightarrow>
               (case run_crypto (te_lib E) (te_bloom E) (st_read E) address_plan stream p of
                  None \<Rightarrow> None
                | Some Panic \<Rightarrow> Some Panic
                | Some (Ret (res, stream, p)) \<Rightarrow>
                    let context = context\<lparr>ctx_nonce_ppbloom := p\<rparr> in
                    (case res of
                       Inl err \<Rightarrow> Some (Ret (Inl (io_error_from_Socks5Error err), context, w))
                     | Inr remote_addr \<Rightarrow>
                         Some (rust_bind (server_connect E context timeout remote_addr w) (\<lambda>(res, w).
                           Ret (map_sum id (map_option (\<lambda>remote. (stream, remote_addr, remote))) res, context, w)))))))"

text \<open>A listener of the server: clients that are blocked are not served.\<close>

definition server_accept ::
    "('c, 'b, 'n, 'm, 'r, 'q, 'x, 'l, 'k, 'w) tcp_env \<Rightarrow> ('b, 'r, 'q, 'x, 'l) Context \<Rightarrow> ServerFlowStatistic \<Rightarrow> nat \<Rightarrow> 'k \<Rightarrow> socket_addr \<Rightarrow> 'w \<Rightarrow>
     ((io_error + (('c, 'k Connection TcpMonStream) CryptoStream \<times> Address \<times> 'k) option) \<times> ('b, 'r, 'q, 'x, 'l) Context \<times> 'w)
       rust option" where
  "server_accept E context flow_stat idx socket peer_addr w =
     (if ctx_check_client_blocked (te_acl E) context peer_addr then Some (Ret (Inr None, context, w))
      else
        (case ctx_server_config context idx of
           Panic \<Rightarrow> Some Panic
         | Ret svr_cfg \<Rightarrow> handle_client E context flow_stat svr_cfg socket w))"

section \<open>Writing\<close>

lemma aead_write_step:
  assumes "poll_write_encrypted L pw w s data = Ret (res, w', s')"
  shows "(\<forall>n. res = Ready (Inr n) \<longrightarrow> aew_steps w' = NothingStep \<and> n = length (take MAX_PACKET_SIZE data))
       \<and> (res = Pending \<longrightarrow> aew_steps w' \<noteq> NothingStep)"
proof -
  let ?data = "if MAX_PACKET_SIZE < length data then take MAX_PACKET_SIZE data else data"
  have len: "length ?data = length (take MAX_PACKET_SIZE data)" by simp
  from assms obtain r where r: "poll_write_all_encrypted L pw w s ?data = Ret (r, w', s')"
      "res = (case r of Pending \<Rightarrow> Pending | Ready (Inl e) \<Rightarrow> Ready (Inl e) | Ready (Inr _) \<Rightarrow> Ready (Inr (length ?data)))"
    by (auto simp: poll_write_encrypted_def Let_def rust_bind_Ret_iff simp del: length_take)
  from r(1) have "(r = Ready (Inr ()) \<longrightarrow> aew_steps w' = NothingStep) \<and> (r = Pending \<longrightarrow> aew_steps w' \<noteq> NothingStep)"
    by (auto simp: poll_write_all_encrypted_def rust_assert_def rust_bind_Ret_iff
        split: if_splits EncryptWriteStep.splits prod.splits poll.splits sum.splits)
  with r(2) len show ?thesis by (auto split: poll.splits sum.splits)
qed

lemma stream_write_step:
  assumes "stream_poll_write_encrypted L pw w s data = Ret (res, w', s')"
  shows "(\<forall>n. res = Ready (Inr n) \<longrightarrow> sew_steps w' = NothingStep \<and> n = length data) \<and> (res = Pending \<longrightarrow> sew_steps w' \<noteq> NothingStep)"
proof -
  from assms obtain r where r: "stream_poll_write_all_encrypted L pw w s data = Ret (r, w', s')"
      "res = (case r of Pending \<Rightarrow> Pending | Ready (Inl e) \<Rightarrow> Ready (Inl e) | Ready (Inr _) \<Rightarrow> Ready (Inr (length data)))"
    by (auto simp: stream_poll_write_encrypted_def rust_bind_Ret_iff)
  from r(1) have "(r = Ready (Inr ()) \<longrightarrow> sew_steps w' = NothingStep) \<and> (r = Pending \<longrightarrow> sew_steps w' \<noteq> NothingStep)"
    by (auto simp: stream_poll_write_all_encrypted_def sew_write_buf_def
        split: rust_bind_splits if_splits EncryptWriteStep.splits prod.splits poll.splits sum.splits)
  with r(2) show ?thesis by (auto split: poll.splits sum.splits)
qed

lemma crypto_write_step:
  assumes "priv_poll_write L pw c data = Ret (res, c')"
  shows "(\<forall>n. res = Ready (Inr n) \<longrightarrow> idle (cs_enc c') \<and> n = length (taken (cs_enc c) data))
       \<and> (res = Pending \<longrightarrow> \<not> idle (cs_enc c')) \<and> taken (cs_enc c') = taken (cs_enc c)"
proof (cases "cs_enc c")
  case (AeadWriter w)
  with priv_poll_write_cases(1) [OF assms AeadWriter] show ?thesis by (auto dest: aead_write_step)
next
  case (StreamWriter w)
  with priv_poll_write_cases(2) [OF assms StreamWriter] show ?thesis by (auto dest: stream_write_step)
qed

text \<open>Between two polls of a \<open>write_all\<close>: \<open>sent\<close> is done, \<open>buf\<close> remains and may be half taken.\<close>

definition writing ::
    "'c crypto_lib \<Rightarrow> 's poll_writer \<Rightarrow> ('c, 's) CryptoStream \<Rightarrow> bytes \<Rightarrow> bytes \<Rightarrow> ('c, 's) CryptoStream \<Rightarrow> bool" where
  "writing L pw c0 sent buf c \<longleftrightarrow> (\<exists>ms. crypto_writes L pw c0 ms c \<and>
     (idle (cs_enc c) \<and> concat ms = sent \<or> \<not> idle (cs_enc c) \<and> (\<exists>ms0. ms = ms0 @ [taken (cs_enc c) buf] \<and> concat ms0 = sent)))"

lemma taken_prefix: "take (length (taken w buf)) buf = taken w buf" "buf \<noteq> [] \<Longrightarrow> taken w buf \<noteq> []"
proof -
  have "0 < MAX_PACKET_SIZE" by (simp add: MAX_PACKET_SIZE_def)
  then show "take (length (taken w buf)) buf = taken w buf" "buf \<noteq> [] \<Longrightarrow> taken w buf \<noteq> []"
    by (cases w; simp add: min_def)+
qed

lemma writing_step:
  assumes "writing L pw c0 sent buf c" and "priv_poll_write L pw c buf = Ret (res, c')"
  shows "\<exists>ms. crypto_writes L pw c0 ms c' \<and> concat ms = sent @ taken (cs_enc c) buf"
    and "res = Pending \<Longrightarrow> writing L pw c0 sent buf c'"
    and "res = Ready (Inr n) \<Longrightarrow> writing L pw c0 (sent @ take n buf) (drop n buf) c' \<and> (buf \<noteq> [] \<longrightarrow> n \<noteq> 0)"
proof -
  from assms(1) obtain ms0 where ms: "concat ms0 = sent" "crypto_writes L pw c0 (ms0 @ [taken (cs_enc c) buf]) c'"
    unfolding writing_def
    using crypto_writes.next_payload [OF _ _ assms(2)] crypto_writes.again [OF _ _ refl assms(2)] by fastforce
  then show "\<exists>ms. crypto_writes L pw c0 ms c' \<and> concat ms = sent @ taken (cs_enc c) buf" by (intro exI conjI) auto
  note step = crypto_write_step [OF assms(2)]
  show "writing L pw c0 sent buf c'" if "res = Pending"
    unfolding writing_def using ms step that by auto
  show "writing L pw c0 (sent @ take n buf) (drop n buf) c' \<and> (buf \<noteq> [] \<longrightarrow> n \<noteq> 0)" if "res = Ready (Inr n)"
  proof -
    have n: "n = length (taken (cs_enc c) buf)" and "idle (cs_enc c')" using step that by auto
    then have "take n buf = taken (cs_enc c) buf" using taken_prefix(1) by simp
    with ms \<open>idle (cs_enc c')\<close> n taken_prefix(2) [of buf "cs_enc c"] show ?thesis
      unfolding writing_def by (intro conjI exI [of _ "ms0 @ [taken (cs_enc c) buf]"]) auto
  qed
qed

lemma write_all_writes:
  assumes "write_all L pw buf c = Some (Ret (Inr (), c'))" and "writing L pw c0 sent buf c" and "buf = [] \<longrightarrow> idle (cs_enc c)"
  shows "\<exists>ms. crypto_writes L pw c0 ms c' \<and> concat ms = sent @ buf \<and> idle (cs_enc c')"
proof -
  let ?P = "\<lambda>L pw buf c y. \<forall>sent c'. y = Ret (Inr () :: io_error + unit, c') \<longrightarrow> writing L pw c0 sent buf c \<longrightarrow> (buf = [] \<longrightarrow> idle (cs_enc c)) \<longrightarrow>
      (\<exists>ms. crypto_writes L pw c0 ms c' \<and> concat ms = sent @ buf \<and> idle (cs_enc c'))"
  have "?P L pw buf c (Ret (Inr (), c'))"
  proof (rule write_all.raw_induct [where P = ?P, OF _ assms(1)], intro allI impI)
    fix wa :: "'a crypto_lib \<Rightarrow> 'b poll_writer \<Rightarrow> bytes \<Rightarrow> ('a, 'b) CryptoStream \<Rightarrow> ((io_error + unit) \<times> ('a, 'b) CryptoStream) rust option"
      and L pw buf c y sent c'
    assume IH: "\<And>L pw buf c y. wa L pw buf c = Some y \<Longrightarrow> ?P L pw buf c y"
      and body: "(if buf = [] then Some (Ret (Inr (), c))
        else case priv_poll_write L pw c buf of
               Panic \<Rightarrow> Some Panic
             | Ret (Pending, c) \<Rightarrow> wa L pw buf c
             | Ret (Ready (Inl e), c) \<Rightarrow> Some (Ret (Inl e, c))
             | Ret (Ready (Inr n), c) \<Rightarrow>
                 if n = 0 then Some (Ret (Inl (IoError WriteZero ''write zero byte into writer''), c))
                 else wa L pw (drop n buf) c) = Some y"
      and y: "y = Ret (Inr (), c')" and inv: "writing L pw c0 sent buf c" and idle: "buf = [] \<longrightarrow> idle (cs_enc c)"
    show "\<exists>ms. crypto_writes L pw c0 ms c' \<and> concat ms = sent @ buf \<and> idle (cs_enc c')"
    proof (cases "buf = []")
      case True
      with body y inv idle show ?thesis by (auto simp: writing_def)
    next
      case False
      then obtain res c1 where p: "priv_poll_write L pw c buf = Ret (res, c1)"
        using body y by (auto split: rust.splits)
      note step = writing_step [OF inv p]
      consider "res = Pending" "wa L pw buf c1 = Some y" | n where "res = Ready (Inr n)" "wa L pw (drop n buf) c1 = Some y"
        using body y p False by (auto split: poll.splits sum.splits if_splits)
      then show ?thesis
      proof cases
        case 1
        with IH [OF 1(2)] y step(2) False show ?thesis by simp
      next
        case (2 n)
        have "idle (cs_enc c1)" using crypto_write_step [OF p] 2(1) by blast
        with IH [OF 2(2)] y step(3) [OF 2(1)] show ?thesis by fastforce
      qed
    qed
  qed
  with assms(2,3) show ?thesis by blast
qed

section \<open>Reading\<close>

lemma poll_read_decrypted_length_le:
  assumes "poll_read_decrypted L pr d r n = Some (Ret (Ready (Inr bs), d', r'))"
  shows "length bs \<le> n"
proof -
  let ?P = "\<lambda>L pr d r n y. \<forall>bs d' r'. y = Ret (Ready (Inr bs :: io_error + bytes), d', r') \<longrightarrow> length bs \<le> n"
  have "?P L pr d r n (Ret (Ready (Inr bs), d', r'))"
    by (rule poll_read_decrypted.raw_induct [where P = ?P, OF _ assms])
      (auto simp: Let_def split: if_splits rust.splits poll.splits sum.splits prod.splits)
  then show ?thesis by blast
qed

lemma stream_poll_read_length_le:
  assumes "stream_poll_read_decrypted L pr d r n = Some (Ret (Ready (Inr bs), d', r'))"
  shows "length bs \<le> n"
proof -
  let ?P = "\<lambda>L pr d r n y. \<forall>bs d' r'. y = Ret (Ready (Inr bs :: io_error + bytes), d', r') \<longrightarrow> length bs \<le> n"
  have "?P L pr d r n (Ret (Ready (Inr bs), d', r'))"
    by (rule stream_poll_read_decrypted.raw_induct [where P = ?P, OF _ assms])
      (auto simp: Let_def split: if_splits rust.splits poll.splits sum.splits prod.splits)
  then show ?thesis by blast
qed

lemma priv_poll_read_length_le:
  "priv_poll_read L B pr c q n = Some (Ret (Ready (Inr bs), c', q')) \<Longrightarrow> length bs \<le> n"
  by (auto simp: priv_poll_read_def rust_bind_Ret_iff dest: poll_read_decrypted_length_le stream_poll_read_length_le
      split: rust.splits prod.splits poll.splits sum.splits option.splits DecryptedReader.splits)

text \<open>
  What an exact read of an encrypted stream gives: no panic, and bytes in their order. \<open>p\<close> is what the peer has
  written and the stream has not yet delivered.
\<close>

definition read_post ::
    "'c crypto_lib \<Rightarrow> ('s \<Rightarrow> bytes) \<Rightarrow> bytes \<Rightarrow> nat \<Rightarrow> bytes \<Rightarrow> bytes \<Rightarrow>
     ((io_error + bytes) \<times> ('c, 's) CryptoStream \<times> 'b PingPongBloom) rust \<Rightarrow> bool" where
  "read_post L left missing n buf p y \<longleftrightarrow>
     (\<exists>res c' q'. y = Ret (res, c', q') \<and>
        (\<forall>out. res = Inr out \<longrightarrow> (\<exists>bs p'. out = buf @ bs \<and> p = bs @ p' \<and> length out = n \<and> conn_ok L left missing c' p')))"

lemma crypto_read_exact_ok:
  assumes src: "source_ok pr left"
    and rd: "crypto_read_exact L B pr n buf c q = Some y" and len: "length buf \<le> n" and ok: "conn_ok L left missing c p"
  shows "read_post L left missing n buf p y"
proof -
  let ?P = "\<lambda>L B pr n buf c q y. \<forall>p. source_ok pr left \<longrightarrow> length buf \<le> n \<longrightarrow> conn_ok L left missing c p \<longrightarrow>
      read_post L left missing n buf p y"
  have "?P L B pr n buf c q y"
  proof (rule crypto_read_exact.raw_induct [where P = ?P, OF _ rd], intro allI impI)
    fix rx L pr n buf c q y p and B :: "'c bloom_ops"
    assume IH: "\<And>L B pr n buf c q y. rx L B pr n buf c q = Some y \<Longrightarrow> ?P L B pr n buf c q y"
      and body: "(if n \<le> length buf then Some (Ret (Inr buf, c, q))
      else
        (case priv_poll_read L B pr c q (n - length buf) of
           None \<Rightarrow> None
         | Some Panic \<Rightarrow> Some Panic
         | Some (Ret (Pending, c, q)) \<Rightarrow> rx L B pr n buf c q
         | Some (Ret (Ready (Inl e), c, q)) \<Rightarrow> Some (Ret (Inl e, c, q))
         | Some (Ret (Ready (Inr bs), c, q)) \<Rightarrow>
             if bs = [] then Some (Ret (Inl (IoError UnexpectedEof ''early eof''), c, q))
             else rx L B pr n (buf @ bs) c q)) = Some y"
      and src: "source_ok pr left" and len: "length buf \<le> n" and ok: "conn_ok L left missing c p"
    show "read_post L left missing n buf p y"
    proof (cases "n \<le> length buf")
      case True
      with body len ok show ?thesis by (auto simp: read_post_def)
    next
      case False
      then have pos: "0 < n - length buf" by simp
      obtain res c1 q1 p1 where r: "priv_poll_read L B pr c q (n - length buf) = Some (Ret (res, c1, q1))"
          "p = accepted_out res @ p1" "conn_ok L left missing c1 p1"
        using priv_poll_read_ok [OF src ok pos, of B q] unfolding conn_post_def by blast
      consider "res = Pending" "rx L B pr n buf c1 q1 = Some y" | e where "y = Ret (Inl e, c1, q1)"
        | bs where "res = Ready (Inr bs)" "rx L B pr n (buf @ bs) c1 q1 = Some y"
        using body r(1) False by (auto split: poll.splits sum.splits if_splits)
      then show ?thesis
      proof cases
        case 1
        with IH [OF 1(2)] src len r show ?thesis by (simp add: accepted_out_def)
      next
        case (2 e)
        then show ?thesis by (simp add: read_post_def)
      next
        case (3 bs)
        have "length (buf @ bs) \<le> n" using priv_poll_read_length_le r(1) 3(1) False by fastforce
        with IH [OF 3(2)] src r have "read_post L left missing n (buf @ bs) p1 y" by simp
        moreover have "p = bs @ p1" using r(2) 3(1) by (simp add: accepted_out_def)
        ultimately show ?thesis by (fastforce simp: read_post_def)
      qed
    qed
  qed
  with src len ok show ?thesis by blast
qed

lemma run_crypto_ok:
  assumes "source_ok pr left"
  shows "run_crypto L B pr plan c q = Some y \<Longrightarrow> conn_ok L left missing c p \<Longrightarrow>
    \<exists>res c' q'. y = Ret (res, c', q') \<and>
      (\<forall>a. res = Inr a \<longrightarrow> (\<exists>p'. run_reader cursor_read_exact plan p = Inr (a, p') \<and> conn_ok L left missing c' p'))"
proof (induction plan arbitrary: c q p)
  case (Done x)
  then show ?case by auto
next
  case (Need n f)
  obtain r where r: "crypto_read_exact L B pr n [] c q = Some r" "read_post L left missing n [] p r"
    using Need.prems crypto_read_exact_ok [OF assms, of L B n "[]" c q] by (cases "crypto_read_exact L B pr n [] c q") auto
  then obtain res c1 q1 where res: "r = Ret (res, c1, q1)"
      "\<And>out. res = Inr out \<Longrightarrow> \<exists>p'. p = out @ p' \<and> length out = n \<and> conn_ok L left missing c1 p'"
    unfolding read_post_def by fastforce
  show ?case
  proof (cases res)
    case (Inl e)
    with Need.prems(1) r(1) res(1) show ?thesis by auto
  next
    case (Inr out)
    then obtain p' where p': "p = out @ p'" "length out = n" "conn_ok L left missing c1 p'" using res(2) by blast
    have "run_crypto L B pr (f out) c1 q1 = Some y" using Need.prems(1) r(1) res(1) Inr by simp
    from Need.IH [OF _ this p'(3)] obtain res2 c2 q2 where "y = Ret (res2, c2, q2)"
        "\<forall>a. res2 = Inr a \<longrightarrow> (\<exists>p''. run_reader cursor_read_exact (f out) p' = Inr (a, p'') \<and> conn_ok L left missing c2 p'')"
      by auto
    moreover have "read_exact cursor_read_exact n p = Inr (out, p')" using p'(1,2) by (simp add: read_exact_def cursor_read_exact_def)
    ultimately show ?thesis by auto
  qed
qed

lemma crypto_writes_trans:
  assumes "crypto_writes L pw c1 ms2 c2" and "crypto_writes L pw c0 ms1 c1"
  shows "crypto_writes L pw c0 (ms1 @ ms2) c2"
  using assms(1)
proof induction
  case start
  with assms(2) show ?case by simp
next
  case (next_payload ms c data res c')
  then show ?case using crypto_writes.next_payload [of L pw c0 "ms1 @ ms" c data res c'] by simp
next
  case (again ms m c data res c')
  then show ?case using crypto_writes.again [of L pw c0 "ms1 @ ms" m c data res c'] by simp
qed

text \<open>Every stream to a proxy server stands on a socket that was just connected.\<close>

definition fresh_connection :: "('c, 'b, 'n, 'm, 'r, 'q, 'x, 'l, 'k, 'w) tcp_env \<Rightarrow> 'k Connection \<Rightarrow> bool" where
  "fresh_connection E s \<longleftrightarrow> (\<exists>ba a w k d w'. te_connect E ba a w = ((Inr k, d), w') \<and> cn_stream s = snd (te_nodelay E True k)
     \<and> \<not> cn_written_first_packet s)"

lemma connect_timeout_fresh:
  "connect_timeout E ba timeout a w = (Inr k, w') \<Longrightarrow> fresh_connection E (Connection_new (te_nodelay E) k timeout')"
  by (force simp: connect_timeout_def try_timeout_def fresh_connection_def Connection_new_def split: prod.splits option.splits if_splits)

lemma lookup_then_success:
  "lookup_then resolve addr port body w = Ret (Inr (a, r), w') \<Longrightarrow> \<exists>w0 w1. body a w0 = (Inr r, w1)"
  using lookup_loop_success [of body None] by (fastforce simp: lookup_then_def split: sum.splits prod.splits option.splits)

lemma connect_internal_fresh:
  assumes "connect_proxy_server_internal E svr_addr timeout w = Ret (Inr s, w')"
  shows "fresh_connection E s"
proof (cases svr_addr)
  case (SvrSocketAddr a)
  with assms show ?thesis
    by (cases "connect_timeout E None timeout a w"; cases "fst (connect_timeout E None timeout a w)")
      (auto simp: connect_proxy_server_internal_def dest: connect_timeout_fresh)
next
  case (SvrDomainName dname port)
  let ?body = "\<lambda>addr w. map_prod (map_sum id (\<lambda>s. Connection_new (te_nodelay E) s timeout)) id (connect_timeout E None timeout addr w)"
  from SvrDomainName assms obtain res where res: "lookup_then (te_resolve E) dname port ?body w = Ret (res, w')" "map_sum id snd res = Inr s"
    by (auto simp: connect_proxy_server_internal_def Let_def rust_bind_Ret_iff)
  from res(2) obtain a where "res = Inr (a, s)" by (cases res) auto
  with res(1) have "lookup_then (te_resolve E) dname port ?body w = Ret (Inr (a, s), w')" by simp
  from lookup_then_success [OF this] obtain w0 w1 where
    "map_prod (map_sum id (\<lambda>s. Connection_new (te_nodelay E) s timeout)) id (connect_timeout E None timeout a w0) = (Inr s, w1)" by blast
  then show ?thesis
    by (cases "connect_timeout E None timeout a w0"; cases "fst (connect_timeout E None timeout a w0)")
      (auto dest: connect_timeout_fresh)
qed

lemma fresh_set_nodelay: "fresh_connection E s \<Longrightarrow> fresh_connection E (snd (conn_set_nodelay nd b s))"
proof -
  assume s: "fresh_connection E s"
  then have "snd (conn_set_nodelay nd b s) = s\<lparr>cn_nodelay := b\<rparr>" by (auto simp: fresh_connection_def conn_set_nodelay_def)
  with s show "fresh_connection E (snd (conn_set_nodelay nd b s))" by (simp add: fresh_connection_def)
qed

lemma connect_retry_fresh: "connect_retry E nd addr timeout k last_err w = Ret (Inr s, w') \<Longrightarrow> fresh_connection E s"
proof (induction k arbitrary: last_err w)
  case (Suc k)
  from Suc.prems obtain res w1 where r: "connect_proxy_server_internal E addr timeout w = Ret (res, w1)"
    by (auto simp: rust_bind_Ret_iff)
  with Suc show ?case
    by (cases res) (auto intro: fresh_set_nodelay connect_internal_fresh)
qed (auto split: option.splits)

lemma connect_proxy_server_fresh: "connect_proxy_server E ctx cfg w = Ret (Inr s, w') \<Longrightarrow> fresh_connection E s"
  by (auto simp: connect_proxy_server_def rust_bind_Ret_iff dest: connect_retry_fresh)

lemma connect_proxied_cases:
  assumes "connect_proxied E context cfg addr w = Some (Ret (Inr (Proxied c), context', w'))"
  obtains s c0 p1 buf where "fresh_connection E s"
    "CryptoStream_new (te_lib E) (te_bloom E) (te_rnd E) (ctx_nonce_ppbloom context) s cfg = Some (Ret (c0, p1))"
    "Address_write_to_buf addr [] = Ret buf" "write_all (te_lib E) (st_write E) buf c0 = Some (Ret (Inr (), c))"
proof -
  from assms obtain s w1 where s: "connect_proxy_server E context cfg w = Ret (Inr s, w1)"
      and h: "map_option (\<lambda>x. rust_bind x (\<lambda>(res, context). Ret (map_sum id Proxied res, context, w1)))
        (proxy_server_handshake E context s cfg addr) = Some (Ret (Inr (Proxied c), context', w'))"
    by (auto simp: connect_proxied_def split: rust.splits prod.splits sum.splits)
  from h obtain res c1 where res: "proxy_server_handshake E context s cfg addr = Some (Ret (res, c1))" "map_sum id Proxied res = Inr (Proxied c)"
    by (auto simp: rust_bind_Ret_iff)
  from res(2) have "res = Inr c" by (cases res) auto
  with res(1) obtain c0 p1 buf where new: "CryptoStream_new (te_lib E) (te_bloom E) (te_rnd E) (ctx_nonce_ppbloom context) s cfg = Some (Ret (c0, p1))"
      and buf: "Address_write_to_buf addr [] = Ret buf"
      and wr: "map_option (\<lambda>x. rust_bind x (\<lambda>(res, stream). Ret (map_sum id (\<lambda>_. stream) res, context\<lparr>ctx_nonce_ppbloom := p1\<rparr>)))
                 (write_all (te_lib E) (st_write E) buf c0) = Some (Ret (Inr c, c1))"
    by (auto simp: proxy_server_handshake_def Let_def split: option.splits rust.splits prod.splits)
  from wr obtain r c2 where r: "write_all (te_lib E) (st_write E) buf c0 = Some (Ret (r, c2))" "map_sum id (\<lambda>_. c2) r = Inr c"
    by (auto simp: rust_bind_Ret_iff)
  from r(2) have "r = Inr ()" "c2 = c" by (cases r; simp)+
  with r(1) that [OF connect_proxy_server_fresh [OF s] new buf] show thesis by simp
qed

lemma handle_client_cases:
  assumes "handle_client E context flow_stat cfg socket w = Some (Ret (Inr (Some (stream, address, remote)), context', w'))"
  obtains m d0 q1 where "cn_stream (mon_stream m) = snd (te_nodelay E True socket)"
    "CryptoStream_new (te_lib E) (te_bloom E) (te_rnd E) (ctx_nonce_ppbloom context) m cfg = Some (Ret (d0, q1))"
    "run_crypto (te_lib E) (te_bloom E) (st_read E) address_plan d0 q1 = Some (Ret (Inr address, stream, ctx_nonce_ppbloom context'))"
    "\<exists>w0. server_connect E context' (or_else (sc_timeout cfg) (cfg_timeout (ctx_config context))) address w0 = Ret (Inr (Some remote), w')"
proof -
  let ?timeout = "or_else (sc_timeout cfg) (cfg_timeout (ctx_config context))"
  let ?conn = "(Connection_new (te_nodelay E) socket ?timeout)\<lparr>cn_nodelay := cfg_no_delay (ctx_config context)\<rparr>"
  have nd: "conn_set_nodelay (te_nodelay E) (cfg_no_delay (ctx_config context)) (Connection_new (te_nodelay E) socket ?timeout) = (Inr (), ?conn)"
    by (simp add: conn_set_nodelay_def Connection_new_def)
  let ?m = "TcpMonStream_new flow_stat ?conn"
  from assms obtain d0 q1 where new: "CryptoStream_new (te_lib E) (te_bloom E) (te_rnd E) (ctx_nonce_ppbloom context) ?m cfg = Some (Ret (d0, q1))"
    by (auto simp: handle_client_def nd Let_def split: option.splits rust.splits prod.splits)
  with assms obtain res stream' q2 where run: "run_crypto (te_lib E) (te_bloom E) (st_read E) address_plan d0 q1 = Some (Ret (res, stream', q2))"
    by (auto simp: handle_client_def nd Let_def split: option.splits rust.splits prod.splits)
  with new assms obtain a where a: "res = Inr a" by (cases res) (auto simp: handle_client_def nd Let_def)
  let ?ctx = "context\<lparr>ctx_nonce_ppbloom := q2\<rparr>"
  from new run a assms obtain res2 w1 where conn: "server_connect E ?ctx ?timeout a w = Ret (res2, w1)"
      "Inr (Some (stream, address, remote)) = map_sum id (map_option (\<lambda>remote. (stream', a, remote))) res2" "context' = ?ctx" "w' = w1"
    by (auto simp: handle_client_def nd Let_def rust_bind_Ret_iff)
  from conn(2) obtain opt where opt: "res2 = Inr opt" by (cases res2) simp_all
  with conn(2) have "map_option (\<lambda>remote. (stream', a, remote)) opt = Some (stream, address, remote)" by simp
  with opt have eq: "res2 = Inr (Some remote)" "stream' = stream" "a = address" by auto
  show thesis
  proof (rule that [of ?m d0 q1])
    show "cn_stream (mon_stream ?m) = snd (te_nodelay E True socket)" by (simp add: TcpMonStream_new_def Connection_new_def)
    show "\<exists>w0. server_connect E context' ?timeout address w0 = Ret (Inr (Some remote), w')" using conn(1,3,4) eq by auto
  qed (use new run a eq conn(3) in simp_all)
qed


text \<open>A method that can encrypt with a key can decrypt with it.\<close>

definition can_decrypt :: "'c crypto_lib \<Rightarrow> CipherType \<Rightarrow> bytes \<Rightarrow> bool" where
  "can_decrypt L t key \<longleftrightarrow> (\<forall>iv.
     (case category t of
        StreamCategory \<Rightarrow> StreamEncryptedWriter_new L t key iv \<noteq> Panic
      | AeadCategory \<Rightarrow> AeadEncryptedWriter_new L t key iv \<noteq> Panic) \<longrightarrow> DecryptedReader_new L t key iv \<noteq> Panic)"

lemma new_stream_writing:
  assumes "CryptoStream_new L B rnd p s cfg = Some (Ret (c, p1))" and "can_decrypt L (sc_method cfg) (sc_enc_key cfg)"
  obtains iv rd where "writer_iv (cs_enc c) = Some iv" "cs_stream c = s" "idle (cs_enc c)"
    "DecryptedReader_new L (sc_method cfg) (sc_enc_key cfg) iv = Ret rd"
proof -
  let ?t = "sc_method cfg" and ?key = "sc_enc_key cfg"
  obtain iv where iv: "writer_iv (cs_enc c) = Some iv" "cs_stream c = s"
      "(case category ?t of
          StreamCategory \<Rightarrow> \<exists>w. cs_enc c = StreamWriter w \<and> StreamEncryptedWriter_new L ?t ?key iv = Ret w
        | AeadCategory \<Rightarrow> \<exists>w. cs_enc c = AeadWriter w \<and> AeadEncryptedWriter_new L ?t ?key iv = Ret w)"
    by (rule CryptoStream_new_cases [OF assms(1)])
  from iv(3) have idle: "idle (cs_enc c)"
    by (auto simp: StreamEncryptedWriter_new_def AeadEncryptedWriter_new_def rust_bind_Ret_iff split: CipherCategory.splits)
  from iv(3) assms(2) have "DecryptedReader_new L ?t ?key iv \<noteq> Panic"
    by (auto simp: can_decrypt_def split: CipherCategory.splits)
  then obtain rd where "DecryptedReader_new L ?t ?key iv = Ret rd" by (cases "DecryptedReader_new L ?t ?key iv") auto
  with that iv idle show thesis by blast
qed

lemma st_read_ok: "source_ok (te_read E) left \<Longrightarrow> source_ok (st_read E) (\<lambda>m. left (cn_stream (mon_stream m)))"
  unfolding st_read_def by (rule mon_source_ok, rule conn_source_ok)

lemma st_write_ok:
  "\<lbrakk>sink_ok (te_write E) written; nodelay_ok (te_nodelay E) written\<rbrakk> \<Longrightarrow> sink_ok (st_write E) (\<lambda>c. written (cn_stream c))"
  unfolding st_write_def by (rule conn_sink_ok)

lemma connect_proxied_writes:
  assumes "connect_proxied E context cfg addr w = Some (Ret (Inr (Proxied c), context1, w1))" and "wf_address addr"
    and "can_decrypt (te_lib E) (sc_method cfg) (sc_enc_key cfg)" and "nodelay_ok (te_nodelay E) written"
    and "\<forall>ba a w k d w'. te_connect E ba a w = ((Inr k, d), w') \<longrightarrow> written k = []"
  obtains s c0 p1 iv rd ms0 where "written (cn_stream s) = []"
    "CryptoStream_new (te_lib E) (te_bloom E) (te_rnd E) (ctx_nonce_ppbloom context) s cfg = Some (Ret (c0, p1))"
    "writer_iv (cs_enc c0) = Some iv" "DecryptedReader_new (te_lib E) (sc_method cfg) (sc_enc_key cfg) iv = Ret rd"
    "crypto_writes (te_lib E) (st_write E) c0 ms0 c" "concat ms0 = addr_bytes addr" "ms0 \<noteq> []" "idle (cs_enc c)"
proof -
  let ?L = "te_lib E"
  obtain s c0 p1 buf where cl: "fresh_connection E s"
      "CryptoStream_new ?L (te_bloom E) (te_rnd E) (ctx_nonce_ppbloom context) s cfg = Some (Ret (c0, p1))"
      "Address_write_to_buf addr [] = Ret buf" "write_all ?L (st_write E) buf c0 = Some (Ret (Inr (), c))"
    by (rule connect_proxied_cases [OF assms(1)])
  have buf: "buf = addr_bytes addr" using cl(3) write_address_buf [OF assms(2)] by simp
  obtain iv rd where c0: "writer_iv (cs_enc c0) = Some iv" "cs_stream c0 = s" "idle (cs_enc c0)"
      "DecryptedReader_new ?L (sc_method cfg) (sc_enc_key cfg) iv = Ret rd"
    by (rule new_stream_writing [OF cl(2) assms(3)])
  have "writing ?L (st_write E) c0 [] buf c0"
    unfolding writing_def using crypto_writes.start [of ?L "st_write E" c0] c0(3) by (intro exI [of _ "[]"]) simp
  from write_all_writes [OF cl(4) this] c0(3) obtain ms0 where ms0: "crypto_writes ?L (st_write E) c0 ms0 c" "concat ms0 = buf"
      "idle (cs_enc c)" by auto
  have "addr_bytes addr \<noteq> []"
    using read_written_address [OF assms(2), of "[]"] by (auto simp: Address_read_from_def read_exact_def cursor_read_exact_def)
  then have ne: "ms0 \<noteq> []" using ms0(2) buf by auto
  obtain ba a w' k d w'' where k: "te_connect E ba a w' = ((Inr k, d), w'')" "cn_stream s = snd (te_nodelay E True k)"
    using cl(1) unfolding fresh_connection_def by blast
  have "written k = []" using assms(5) k(1) by blast
  then have "written (cn_stream s) = []" using k(2) assms(4) by (simp add: nodelay_ok_def)
  with that [of s c0 p1 iv rd ms0] cl(2) c0 ms0 ne buf show thesis by simp
qed

section \<open>Properties\<close>

text \<open>
  C4. A proxied request reaches the server as it was made. When the local side has connected to a server and sent the
  address of a target, and has written more, a server with the same method and key that serves this
  connection reads exactly this address, connects there, and what it then reads is a prefix of what was written
  after the address; all of it, once the end of a complete connection is reported. Sockets may cut, delay or
  fail transfers at will, and timeouts may strike at any time.
\<close>

theorem proxied_request_reaches_server:
  assumes "method_lib_ok (te_lib E) (sc_method cfg)" and "can_decrypt (te_lib E) (sc_method cfg) (sc_enc_key cfg)"
    and "\<forall>i n. length (te_rnd E i n) = n" and "te_lib E' = te_lib E"
    and "sc_method cfg' = sc_method cfg" and "sc_enc_key cfg' = sc_enc_key cfg"
    and "connect_proxied E context cfg addr w = Some (Ret (Inr (Proxied c), context1, w1))" and "wf_address addr"
    and "crypto_writes (te_lib E) (st_write E) c ms c1" and "length (concat ms) + 259 \<le> 2 ^ 38"
    and "sink_ok (te_write E) written" and "nodelay_ok (te_nodelay E) written"
    and "\<forall>ba a w k d w'. te_connect E ba a w = ((Inr k, d), w') \<longrightarrow> written k = []"
    and "source_ok (te_read E') left" and "nodelay_ok (te_nodelay E') left"
    and "written (cn_stream (cs_stream c1)) = left socket @ missing"
    and "handle_client E' context2 flow_stat cfg' socket w2 = Some (Ret (Inr (Some (stream, address, remote)), context3, w3))"
    and "\<forall>n \<in> set ns. 0 < n"
  shows "address = wire_address addr
    \<and> (\<exists>timeout w0. server_connect E' context3 timeout (wire_address addr) w0 = Ret (Inr (Some remote), w3))
    \<and> (\<exists>rs d q. crypto_reads (te_lib E') (te_bloom E') (st_read E') stream (ctx_nonce_ppbloom context3) ns = Some (Ret (rs, d, q))
         \<and> prefix (delivered rs) (concat ms)
         \<and> (missing = [] \<and> idle (cs_enc c1) \<and> Ready (Inr []) \<in> set rs \<longrightarrow> delivered rs = concat ms))"
proof -
  let ?L = "te_lib E" and ?left = "\<lambda>m. left (cn_stream (mon_stream m))" and ?wr = "\<lambda>c. written (cn_stream c)"
  obtain s c0 p1 iv rd ms0 where cl: "?wr s = []"
      "CryptoStream_new ?L (te_bloom E) (te_rnd E) (ctx_nonce_ppbloom context) s cfg = Some (Ret (c0, p1))"
      "writer_iv (cs_enc c0) = Some iv" "DecryptedReader_new ?L (sc_method cfg) (sc_enc_key cfg) iv = Ret rd"
      "crypto_writes ?L (st_write E) c0 ms0 c" "concat ms0 = addr_bytes addr" "ms0 \<noteq> []"
    by (rule connect_proxied_writes [OF assms(7,8,2,12,13)])
  have wr: "crypto_writes ?L (st_write E) c0 (ms0 @ ms) c1" by (rule crypto_writes_trans [OF assms(9) cl(5)])
  obtain m d0 q1 where sv: "cn_stream (mon_stream m) = snd (te_nodelay E' True socket)"
      "CryptoStream_new (te_lib E') (te_bloom E') (te_rnd E') (ctx_nonce_ppbloom context2) m cfg' = Some (Ret (d0, q1))"
      "run_crypto (te_lib E') (te_bloom E') (st_read E') address_plan d0 q1 = Some (Ret (Inr address, stream, ctx_nonce_ppbloom context3))"
      "\<exists>w0. server_connect E' context3 (or_else (sc_timeout cfg') (cfg_timeout (ctx_config context2))) address w0 = Ret (Inr (Some remote), w3)"
    by (rule handle_client_cases [OF assms(17)])
  have left: "?wr (cs_stream c1) = ?left m @ missing" using assms(15,16) sv(1) by (simp add: nodelay_ok_def)
  have len: "length (concat (ms0 @ ms)) \<le> 2 ^ 38" using cl(6) length_addr_bytes_bound [OF assms(8)] assms(10) by simp
  obtain rest where rest: "conn_ok ?L ?left (missing @ rest) d0 (concat (ms0 @ ms))" "idle (cs_enc c1) \<and> ms0 @ ms \<noteq> [] \<longrightarrow> rest = []"
    by (rule streams_meet [where left = ?left and missing = missing and written = ?wr,
          OF assms(1,3) cl(2,3) sv(2) [unfolded assms(4)] assms(5,6) cl(4) st_write_ok [OF assms(11,12)] cl(1) wr len left])
  from run_crypto_ok [OF st_read_ok [OF assms(14)] sv(3) rest(1) [folded assms(4)]] obtain p' where
      p': "run_reader cursor_read_exact address_plan (concat (ms0 @ ms)) = Inr (address, p')" "conn_ok (te_lib E') ?left (missing @ rest) stream p'"
    by auto
  have "run_reader cursor_read_exact address_plan (concat (ms0 @ ms)) = Inr (wire_address addr, concat ms)"
    using read_written_address [OF assms(8), of "concat ms"] cl(6) by (simp flip: Address_read_from_plan)
  with p'(1) have eq: "address = wire_address addr" "p' = concat ms" by simp_all
  from crypto_reads_ok [OF st_read_ok [OF assms(14)] p'(2) assms(18), of "te_bloom E'" "ctx_nonce_ppbloom context3"]
  obtain rs d q rem where rs: "crypto_reads (te_lib E') (te_bloom E') (st_read E') stream (ctx_nonce_ppbloom context3) ns = Some (Ret (rs, d, q))"
      "concat ms = delivered rs @ rem" "missing @ rest = [] \<and> Ready (Inr []) \<in> set rs \<longrightarrow> rem = []"
    unfolding eq(2) by blast
  have "\<exists>rs d q. crypto_reads (te_lib E') (te_bloom E') (st_read E') stream (ctx_nonce_ppbloom context3) ns = Some (Ret (rs, d, q))
         \<and> prefix (delivered rs) (concat ms)
         \<and> (missing = [] \<and> idle (cs_enc c1) \<and> Ready (Inr []) \<in> set rs \<longrightarrow> delivered rs = concat ms)"
    using rs rest(2) cl(7) by (intro exI [of _ rs] exI [of _ d] exI [of _ q]) (auto simp: prefix_def)
  with eq sv(4) show ?thesis by blast
qed

text \<open>Every socket the server opens leads to an address that the list does not block.\<close>

lemma server_connect_inv:
  assumes conn: "server_connect E context timeout addr w = Ret (res, w')"
    and I: "\<And>ba a w. \<not> ctx_check_resolved_outbound_blocked (te_acl E) context a \<Longrightarrow> I w \<Longrightarrow> I (snd (te_connect E ba a w))" and w: "I w"
  shows "I w'"
proof (cases "ctx_check_outbound_blocked (te_acl E) context addr")
  case True
  with conn w show ?thesis by (simp add: server_connect_def)
next
  case False
  have step: "I (snd (connect_timeout E ba timeout a w))" if "\<not> ctx_check_resolved_outbound_blocked (te_acl E) context a" "I w" for ba a w
    using I [OF that, of ba] by (cases "te_connect E ba a w") (simp add: connect_timeout_def)
  obtain ba where ba: "check_bind_addr (te_resolve E) (cfg_local (ctx_config context)) = Ret ba"
    using conn False by (auto simp: server_connect_def rust_bind_Ret_iff)
  show ?thesis
  proof (cases ba)
    case (Inl e)
    with conn False ba w show ?thesis by (simp add: server_connect_def)
  next
    case (Inr bind_addr)
    show ?thesis
    proof (cases addr)
      case (SocketAddress a)
      with False have "\<not> ctx_check_resolved_outbound_blocked (te_acl E) context a" using outbound_unblocked_socket by metis
      moreover have "w' = snd (connect_timeout E bind_addr timeout a w)"
        using conn False ba Inr SocketAddress by (cases "connect_timeout E bind_addr timeout a w") (simp add: server_connect_def)
      ultimately show ?thesis using step w by simp
    next
      case (DomainNameAddress dname port)
      then obtain r where "lookup_outbound_then (te_acl E) context (te_resolve E) dname port (connect_timeout E bind_addr timeout) w = Ret (r, w')"
        using conn False ba Inr by (auto simp: server_connect_def rust_bind_Ret_iff)
      from lookup_outbound_inv [where I = I, OF this step w] show ?thesis by simp
    qed
  qed
qed

text \<open>
  C8. The rules of a server hold for every connection: a client that the access control list blocks opens no socket, and
  no other client makes the server connect to an address that the list blocks, whatever the client sends and
  whatever domain names resolve to. The network of the statement logs the destinations.
\<close>

definition logging_env ::
    "('c, 'b, 'n, 'm, 'r, 'q, 'x, 'l, 'k, 'w) tcp_env \<Rightarrow> ('c, 'b, 'n, 'm, 'r, 'q, 'x, 'l, 'k, 'w \<times> socket_addr list) tcp_env" where
  "logging_env E =
     \<lparr>te_lib = te_lib E, te_bloom = te_bloom E, te_acl = te_acl E, te_cache = te_cache E, te_dns_relay = te_dns_relay E,
      te_android = te_android E, te_rnd = te_rnd E, te_resolve = te_resolve E,
      te_connect = \<lambda>ba a (w, log). case te_connect E ba a w of (fut, w') \<Rightarrow> (fut, w', log @ [a]),
      te_nodelay = te_nodelay E, te_clock = te_clock E, te_read = te_read E, te_write = te_write E, te_local_addr = te_local_addr E\<rparr>"

theorem tcp_server_rules:
  assumes "server_accept (logging_env E) context flow_stat idx socket peer_addr (w, []) = Some (Ret (res, context', w', log))"
  shows "list_all (\<lambda>a. \<not> ctx_check_resolved_outbound_blocked (te_acl E) context a) log
       \<and> (ctx_check_client_blocked (te_acl E) context peer_addr \<longrightarrow> log = [])"
proof -
  let ?I = "\<lambda>v :: 'h \<times> socket_addr list. list_all (\<lambda>a. \<not> ctx_check_resolved_outbound_blocked (te_acl E) context a) (snd v)"
  have A: "te_acl (logging_env E) = te_acl E" by (simp add: logging_env_def)
  consider (none) "log = []" | (conn) q timeout addr r where "\<not> ctx_check_client_blocked (te_acl E) context peer_addr"
    "server_connect (logging_env E) (context\<lparr>ctx_nonce_ppbloom := q\<rparr>) timeout addr (w, []) = Ret (r, w', log)"
    using assms by (auto simp: server_accept_def handle_client_def Let_def A
        split: if_splits rust.splits option.splits prod.splits sum.splits rust_bind_splits)
  then show ?thesis
  proof cases
    case conn
    have same: "ctx_check_resolved_outbound_blocked (te_acl E) (context\<lparr>ctx_nonce_ppbloom := q\<rparr>) = ctx_check_resolved_outbound_blocked (te_acl E) context"
      by (simp add: ctx_check_resolved_outbound_blocked_def fun_eq_iff)
    have "?I (w', log)"
      by (rule server_connect_inv [where I = ?I, OF conn(2)]) (auto simp: same A logging_env_def split: prod.splits)
    with conn(1) show ?thesis by simp
  qed simp
qed

text \<open>An example of both ends: a network of byte queues and the method without encryption.\<close>

definition sample_tcp_env ::
    "(CryptoMode, bytes list, ipv4_addr, ipv6_addr, ipv4_addr list, ipv6_addr list, string list, unit, bytes, unit) tcp_env" where
  "sample_tcp_env =
     \<lparr>te_lib = sample_lib, te_bloom = sample_bloom, te_acl = sample_acl_lib,
      te_cache = \<lparr>lru_with_capacity = \<lambda>_. (), lru_insert = \<lambda>l _ _. l, lru_get = \<lambda>l _. (None, l)\<rparr>, te_dns_relay = False,
      te_android = False, te_rnd = \<lambda>i n. replicate n 5, te_resolve = \<lambda>_ _. Inr [], te_connect = \<lambda>_ _ w. ((Inr [], 0), w),
      te_nodelay = \<lambda>_ s. (Inr (), s), te_clock = \<lambda>_. 0, te_read = pipe_read, te_write = pipe_write,
      te_local_addr = \<lambda>_. Inr (SocketAddrV4 (Ipv4Addr 127 0 0 1) 1)\<rparr>"

definition plain_server :: ServerConfig where
  "plain_server = (sample_cfg Plain [])\<lparr>sc_addr := SvrSocketAddr (SocketAddrV4 (Ipv4Addr 10 0 0 1) 8388)\<rparr>"

definition sample_target :: Address where
  "sample_target = SocketAddress (SocketAddrV4 (Ipv4Addr 1 2 3 4) 80)"

definition plain_end :: "'s \<Rightarrow> (CryptoMode, 's) CryptoStream" where
  "plain_end s = \<lparr>cs_stream = s, cs_dec = None,
     cs_enc = StreamWriter \<lparr>sew_cipher = DummyBox, sew_steps = NothingStep, sew_iv = Some []\<rparr>, cs_read_status = WaitIv [] 0 Plain []\<rparr>"

lemma plain_new: "\<exists>p1. CryptoStream_new sample_lib sample_bloom (\<lambda>i n. replicate n 5) p s plain_server = Some (Ret (plain_end s, p1))"
  by (subst CryptoStream_new_def, subst gen_unique_iv.simps)
     (simp add: plain_server_def sample_cfg_def plain_end_def gen_init_vec_def gen_random_bytes_def check_nonce_and_set_def
        Let_def StreamEncryptedWriter_new_def new_stream_def rust_assert_def)

lemma sample_target_bytes: "Address_write_to_buf sample_target [] = Ret [1, 1, 2, 3, 4, 0, 80]"
  by (simp add: sample_target_def Address_write_to_buf_def SOCKS5_ADDR_TYPE_IPV4_def put_u16_def)

definition sample_socket :: "bytes Connection" where
  "sample_socket = \<lparr>cn_stream = [], cn_timer = None, cn_timeout = None, cn_nodelay = False, cn_written_first_packet = False\<rparr>"

definition sample_proxied :: "(CryptoMode, bytes Connection) CryptoStream" where
  "sample_proxied = \<lparr>cs_stream = sample_socket\<lparr>cn_stream := [1, 1, 2, 3, 4, 0, 80], cn_written_first_packet := True\<rparr>, cs_dec = None,
     cs_enc = StreamWriter \<lparr>sew_cipher = DummyBox, sew_steps = NothingStep, sew_iv = None\<rparr>, cs_read_status = WaitIv [] 0 Plain []\<rparr>"

lemma sample_write:
  "write_all sample_lib (st_write sample_tcp_env) [1, 1, 2, 3, 4, 0, 80] (plain_end sample_socket) = Some (Ret (Inr (), sample_proxied))"
  apply (subst write_all.simps)
  apply (simp add: plain_end_def priv_poll_write_def stream_poll_write_encrypted_def stream_poll_write_all_encrypted_def
        sew_make_buf_def sew_write_buf_def poll_write_buf.simps st_write_def sample_tcp_env_def conn_poll_write_def
        pipe_write_def sample_socket_def cancel_timeout_def Let_def)
  apply (subst write_all.simps)
  apply (simp add: sample_proxied_def sample_socket_def)
  done

lemma sample_connect_proxied:
  "\<exists>context. connect_proxied sample_tcp_env sample_context plain_server sample_target () = Some (Ret (Inr (Proxied sample_proxied), context, ()))"
proof -
  obtain p1 where new: "CryptoStream_new sample_lib sample_bloom (\<lambda>i n. replicate n 5) (ctx_nonce_ppbloom sample_context) sample_socket plain_server
      = Some (Ret (plain_end sample_socket, p1))" using plain_new [of "ctx_nonce_ppbloom sample_context" sample_socket] by fastforce
  have "connect_proxy_server sample_tcp_env sample_context plain_server () = Ret (Inr sample_socket, ())"
    by (simp add: connect_proxy_server_def sample_context_def Context_new_def Config_new_def plain_server_def RETRY_TIMES_def
        connect_proxy_server_internal_def numeral_3_eq_3 connect_timeout_def sample_tcp_env_def try_timeout_def Connection_new_def
        conn_set_nodelay_def sample_socket_def or_else_def sample_cfg_def)
  with new sample_write sample_target_bytes show ?thesis
    by (simp add: connect_proxied_def proxy_server_handshake_def) (simp add: sample_tcp_env_def)
qed

definition plain_open :: "'s \<Rightarrow> bytes \<Rightarrow> nat \<Rightarrow> (CryptoMode, 's) CryptoStream" where
  "plain_open s buf pos = \<lparr>cs_stream = s, cs_dec = Some (StreamReader \<lparr>sdr_buffer = buf, sdr_cipher = DummyBox, sdr_pos = pos, sdr_got_final = False\<rparr>),
     cs_enc = StreamWriter \<lparr>sew_cipher = DummyBox, sew_steps = NothingStep, sew_iv = Some []\<rparr>, cs_read_status = Established\<rparr>"

lemma plain_read_first:
  assumes "st_read E BUFFER_SIZE m = (Ready (Inr bs), m')" and "bs \<noteq> []"
  shows "priv_poll_read sample_lib sample_bloom (st_read E) (plain_end m) p n = Some (Ret (Ready (Inr (take n bs)), plain_open m' bs (min n (length bs)), p))"
proof -
  have "poll_read_handshake sample_lib sample_bloom (st_read E) (plain_end m) p = Ret (Ready (Inr ()), plain_open m [] 0, p)"
    by (simp add: poll_read_handshake_def plain_end_def plain_open_def poll_read_iv.simps check_nonce_and_set_def DecryptedReader_new_def
        StreamDecryptedReader_new_def new_stream_def rust_assert_def)
  moreover have "stream_refill sample_lib (st_read E) \<lparr>sdr_buffer = [], sdr_cipher = DummyBox, sdr_pos = 0, sdr_got_final = False\<rparr> m =
      Ret (Ready (Inr ()), \<lparr>sdr_buffer = bs, sdr_cipher = DummyBox, sdr_pos = 0, sdr_got_final = False\<rparr>, m')"
    using assms by (simp add: stream_refill_def)
  ultimately show ?thesis
    using assms(2) by (simp add: priv_poll_read_def plain_open_def stream_poll_read_decrypted.simps [of _ _ _ m] stream_poll_read_decrypted.simps [of _ _ _ m'] Let_def min_def)
qed

lemma plain_read_more:
  assumes "pos < length bs"
  shows "priv_poll_read sample_lib sample_bloom (st_read E) (plain_open m bs pos) p n =
     Some (Ret (Ready (Inr (take n (drop pos bs))), plain_open m bs (pos + min n (length bs - pos)), p))"
  using assms by (simp add: priv_poll_read_def poll_read_handshake_def plain_open_def stream_poll_read_decrypted.simps Let_def min_def)

lemma plain_read_address:
  assumes "st_read E BUFFER_SIZE m = (Ready (Inr [1, 1, 2, 3, 4, 0, 80]), m')"
  shows "run_crypto sample_lib sample_bloom (st_read E) address_plan (plain_end m) p = Some (Ret (Inr sample_target, plain_open m' [1, 1, 2, 3, 4, 0, 80] 7, p))"
proof -
  let ?bs = "[1, 1, 2, 3, 4, 0, 80] :: bytes"
  have first: "crypto_read_exact sample_lib sample_bloom (st_read E) 1 [] (plain_end m) p = Some (Ret (Inr [1], plain_open m' ?bs 1, p))"
    by (subst crypto_read_exact.simps, simp add: plain_read_first [OF assms], subst crypto_read_exact.simps, simp)
  have rest: "crypto_read_exact sample_lib sample_bloom (st_read E) 6 [] (plain_open m' ?bs 1) p = Some (Ret (Inr [1, 2, 3, 4, 0, 80], plain_open m' ?bs 7, p))"
    by (subst crypto_read_exact.simps, simp add: plain_read_more, subst crypto_read_exact.simps, simp add: numeral_eq_Suc)
  show ?thesis
    using first rest
    by (simp add: address_plan_def SOCKS5_ADDR_TYPE_IPV4_def sample_target_def get_u16_def)
qed

definition sample_flow :: ServerFlowStatistic where "sample_flow = ServerFlowStatistic_new"

definition sample_tcp_context :: "(bytes list, ipv4_addr list, ipv6_addr list, string list, unit) Context" where
  "sample_tcp_context = sample_context\<lparr>ctx_config := (Config_new Server)\<lparr>cfg_server := [plain_server]\<rparr>\<rparr>"

lemma sample_tcp_config:
  "cfg_local (ctx_config sample_tcp_context) = None" "cfg_acl (ctx_config sample_tcp_context) = None"
  "cfg_timeout (ctx_config sample_tcp_context) = None" "cfg_no_delay (ctx_config sample_tcp_context) = False"
  "cfg_server (ctx_config sample_tcp_context) = [plain_server]"
  by (simp_all add: sample_tcp_context_def Config_new_def)

lemma sample_handle_client:
  assumes "te_lib E = sample_lib" and "te_bloom E = sample_bloom" and "te_rnd E = (\<lambda>i n. replicate n 5)"
    and "te_nodelay E = (\<lambda>_ s. (Inr (), s))" and "te_read E = pipe_read"
    and "te_connect E None (SocketAddrV4 (Ipv4Addr 1 2 3 4) 80) w = ((Inr [], 0), w')"
  shows "\<exists>stream context. handle_client E sample_tcp_context sample_flow plain_server [1, 1, 2, 3, 4, 0, 80] w =
     Some (Ret (Inr (Some (stream, sample_target, [])), context, w'))"
proof -
  let ?bs = "[1, 1, 2, 3, 4, 0, 80] :: bytes"
  let ?m = "TcpMonStream_new sample_flow (sample_socket\<lparr>cn_stream := ?bs\<rparr>)"
  obtain p1 where new: "CryptoStream_new sample_lib sample_bloom (\<lambda>i n. replicate n 5) (ctx_nonce_ppbloom sample_tcp_context) ?m plain_server
      = Some (Ret (plain_end ?m, p1))" using plain_new [of "ctx_nonce_ppbloom sample_tcp_context" ?m] by fastforce
  have "\<exists>m'. st_read E BUFFER_SIZE ?m = (Ready (Inr ?bs), m')"
    by (simp add: st_read_def assms mon_poll_read_def conn_poll_read_def pipe_read_def TcpMonStream_new_def BUFFER_SIZE_def)
  then obtain m' where m': "st_read E BUFFER_SIZE ?m = (Ready (Inr ?bs), m')" ..
  have conn: "server_connect E (sample_tcp_context\<lparr>ctx_nonce_ppbloom := p1\<rparr>) None sample_target w = Ret (Inr (Some []), w')"
    by (simp add: server_connect_def ctx_check_outbound_blocked_def check_bind_addr_def sample_target_def connect_timeout_def
        sample_tcp_config assms try_timeout_def)
  have nd: "conn_set_nodelay (te_nodelay E) False (Connection_new (te_nodelay E) ?bs None) = (Inr (), sample_socket\<lparr>cn_stream := ?bs\<rparr>)"
    by (simp add: conn_set_nodelay_def Connection_new_def assms sample_socket_def)
  have timeout: "or_else (sc_timeout plain_server) None = None"
    by (simp add: or_else_def plain_server_def sample_cfg_def)
  show ?thesis
    using new conn plain_read_address [OF m', of p1] nd
    by (simp add: handle_client_def sample_tcp_config timeout) (simp add: assms(1-3))
qed

theorem proxied_request_reaches_server_witness:
  "\<exists>stream context rs d q. handle_client sample_tcp_env sample_tcp_context sample_flow plain_server [1, 1, 2, 3, 4, 0, 80] () =
       Some (Ret (Inr (Some (stream, wire_address sample_target, [])), context, ()))
     \<and> crypto_reads sample_lib sample_bloom (st_read sample_tcp_env) stream (ctx_nonce_ppbloom context) [1] = Some (Ret (rs, d, q))
     \<and> delivered rs = []"
proof -
  obtain ctx1 where c: "connect_proxied sample_tcp_env sample_context plain_server sample_target () = Some (Ret (Inr (Proxied sample_proxied), ctx1, ()))"
    using sample_connect_proxied by blast
  obtain stream ctx where h: "handle_client sample_tcp_env sample_tcp_context sample_flow plain_server [1, 1, 2, 3, 4, 0, 80] () =
      Some (Ret (Inr (Some (stream, sample_target, [])), ctx, ()))"
    using sample_handle_client [of sample_tcp_env "()" "()"] by (auto simp: sample_tcp_env_def)
  have env: "te_lib sample_tcp_env = sample_lib" "te_bloom sample_tcp_env = sample_bloom" by (simp_all add: sample_tcp_env_def)
  have lib: "method_lib_ok (te_lib sample_tcp_env) (sc_method plain_server)"
    using sample_sodium_keystream sample_crypter_sync
    by (auto simp: env method_lib_ok_def plain_server_def sample_cfg_def crypter_final_ok_def)
  have dec: "can_decrypt (te_lib sample_tcp_env) (sc_method plain_server) (sc_enc_key plain_server)"
    by (auto simp: can_decrypt_def env plain_server_def sample_cfg_def DecryptedReader_new_def StreamDecryptedReader_new_def
        StreamEncryptedWriter_new_def new_stream_def rust_assert_def split: if_splits)
  have "sample_target = wire_address sample_target
    \<and> (\<exists>timeout w0. server_connect sample_tcp_env ctx timeout (wire_address sample_target) w0 = Ret (Inr (Some []), ()))
    \<and> (\<exists>rs d q. crypto_reads (te_lib sample_tcp_env) (te_bloom sample_tcp_env) (st_read sample_tcp_env) stream (ctx_nonce_ppbloom ctx) [1]
           = Some (Ret (rs, d, q))
         \<and> prefix (delivered rs) (concat [])
         \<and> ([] = ([] :: bytes) \<and> idle (cs_enc sample_proxied) \<and> Ready (Inr []) \<in> set rs \<longrightarrow> delivered rs = concat []))"
    by (rule proxied_request_reaches_server [where written = "\<lambda>s. s" and left = "\<lambda>s. s" and ms = "[]", OF lib dec _ refl refl refl c _
          crypto_writes.start _ _ _ _ _ _ _ h])
      (auto simp: sample_tcp_env_def sample_target_def pipe_ok nodelay_ok_def sample_proxied_def)
  with h show ?thesis by (auto simp: env)
qed

theorem tcp_server_rules_witness:
  "\<exists>res context. server_accept (logging_env sample_tcp_env) sample_tcp_context sample_flow 0 [1, 1, 2, 3, 4, 0, 80]
       (SocketAddrV4 (Ipv4Addr 127 0 0 1) 5) ((), []) = Some (Ret (res, context, (), [SocketAddrV4 (Ipv4Addr 1 2 3 4) 80]))
     \<and> list_all (\<lambda>a. \<not> ctx_check_resolved_outbound_blocked sample_acl_lib sample_tcp_context a) [SocketAddrV4 (Ipv4Addr 1 2 3 4) 80]"
proof -
  obtain res ctx where r: "server_accept (logging_env sample_tcp_env) sample_tcp_context sample_flow 0 [1, 1, 2, 3, 4, 0, 80]
      (SocketAddrV4 (Ipv4Addr 127 0 0 1) 5) ((), []) = Some (Ret (res, ctx, (), [SocketAddrV4 (Ipv4Addr 1 2 3 4) 80]))"
    using sample_handle_client [of "logging_env sample_tcp_env" "((), [])" "((), [SocketAddrV4 (Ipv4Addr 1 2 3 4) 80])"]
    by (auto simp: logging_env_def sample_tcp_env_def server_accept_def ctx_check_client_blocked_def ctx_server_config_def sample_tcp_config)
  have "te_acl sample_tcp_env = sample_acl_lib" by (simp add: sample_tcp_env_def)
  with r tcp_server_rules [OF r] show ?thesis by auto
qed

end
