(* ===== verification/Socks5_Local.thy ===== *)
theory Socks5_Local
  imports Tcp_Relay
begin

text \<open>
  The local side of the TCP relay: \<^verbatim>\<open>socks5_local.rs\<close> and \<^verbatim>\<open>tunnel_local.rs\<close>, which accept clients, and the SOCKS5 client of
  \<^verbatim>\<open>client.rs\<close>. A handler is modelled up to the tunnel it opens.
\<close>

section \<open>Clients\<close>

text \<open>The stream to a client of the local server.\<close>

record 'j client_io =
  ci_read_exact :: "'j reader"
  ci_read :: "'j reader"
  ci_write :: "'j writer"
  ci_peer_addr :: "'j \<Rightarrow> io_error + socket_addr"

record UdpConfig =
  uc_enable_udp :: bool
  uc_client_addr :: socket_addr

partial_function (option) ignore_until_end :: "'j reader \<Rightarrow> 'j \<Rightarrow> u64 \<Rightarrow> ((io_error + u64) \<times> 'j) option" where
  "ignore_until_end read r amt =
     (case read BUFFER_SIZE r of
        Inl e \<Rightarrow> Some (Inl e, r)
      | Inr (buf, r) \<Rightarrow> if buf = [] then Some (Inr amt, r) else ignore_until_end read r (amt + of_nat (length buf)))"

text \<open>A response header, and the failure to write it.\<close>

definition reply_to ::
    "'j client_io \<Rightarrow> Reply \<Rightarrow> Address \<Rightarrow> 'j \<Rightarrow> ((io_error + unit) \<times> 'j) rust" where
  "reply_to I reply addr s =
     rust_bind (TcpResponseHeader_write_to (ci_write I) \<lparr>resp_reply = reply, resp_address = addr\<rparr> s)
       (\<lambda>r. Ret (case r of Inl e \<Rightarrow> (Inl e, s) | Inr s \<Rightarrow> (Inr (), s)))"

definition connect_reply :: "io_error \<Rightarrow> Reply" where
  "connect_reply err =
     (case io_err_kind err of
        ConnectionRefused \<Rightarrow> ConnectionRefusedReply
      | ConnectionAborted \<Rightarrow> HostUnreachable
      | _ \<Rightarrow> NetworkUnreachable)"

definition dummy_address :: Address where
  "dummy_address = SocketAddress (SocketAddrV4 (Ipv4Addr 0 0 0 0) 0)"

section \<open>The SOCKS5 server\<close>

text \<open>How a handler ends: with the stream to the remote side, to which the tunnel is then opened, or without one.\<close>

datatype ('c, 'k) served = Tunnel "('c, 'k) ProxyStream" | Closed

definition handle_socks5_connect ::
    "('c, 'b, 'n, 'm, 'r, 'q, 'x, 'l, 'k, 'w) tcp_env \<Rightarrow> 'f f64_ops \<Rightarrow> 'j client_io \<Rightarrow> ServerConfig \<Rightarrow> Address \<Rightarrow>
     'j \<Rightarrow> ('b, 'r, 'q, 'x, 'l) Context \<Rightarrow> 'f ServerStatisticData \<Rightarrow> 'w \<Rightarrow>
     ((io_error + ('c, 'k) ProxyStream) \<times> 'j \<times> ('b, 'r, 'q, 'x, 'l) Context \<times> 'f ServerStatisticData \<times> 'w) rust option" where
  "handle_socks5_connect E F I svr_cfg addr stream context stat w =
     (case ProxyStream_connect E context svr_cfg addr w of
        None \<Rightarrow> None
      | Some Panic \<Rightarrow> Some Panic
      | Some (Ret (Inr svr_s, context, w)) \<Rightarrow>
          (case ProxyStream_local_addr E svr_s of
             Inl e \<Rightarrow> Some (Ret (Inl e, stream, context, stat, w))
           | Inr local_addr \<Rightarrow>
               Some (rust_bind (reply_to I Succeeded (SocketAddress local_addr) stream) (\<lambda>(res, stream).
                 Ret (map_sum id (\<lambda>_. svr_s) res, stream, context, stat, w))))
      | Some (Ret (Inl perr, context, w)) \<Rightarrow>
          let stat = (if ProxyStreamError_is_proxied perr then snd (report_failure F stat) else stat);
              err = pse_inner perr
          in Some (rust_bind (reply_to I (connect_reply err) dummy_address stream) (\<lambda>(res, stream).
               Ret (case res of Inl e \<Rightarrow> Inl e | Inr _ \<Rightarrow> Inl err, stream, context, stat, w))))"

definition connect_failed :: "Address \<Rightarrow> io_error \<Rightarrow> io_error" where
  "connect_failed addr err =
     IoError (io_err_kind err) (''CONNECT '' @ Address_display addr @ '' failed with error '' @ [CHR 0x22] @ io_err_msg err @ [CHR 0x22])"

text \<open>The part after the greeting: the command of the client.\<close>

definition handle_socks5_command ::
    "('c, 'b, 'n, 'm, 'r, 'q, 'x, 'l, 'k, 'w) tcp_env \<Rightarrow> 'f f64_ops \<Rightarrow> 'j client_io \<Rightarrow> UdpConfig \<Rightarrow> ServerConfig \<Rightarrow> TcpRequestHeader \<Rightarrow>
     'j \<Rightarrow> ('b, 'r, 'q, 'x, 'l) Context \<Rightarrow> 'f ServerStatisticData \<Rightarrow> 'w \<Rightarrow>
     ((io_error + ('c, 'k) served) \<times> 'j \<times> ('b, 'r, 'q, 'x, 'l) Context \<times> 'f ServerStatisticData \<times> 'w) rust option" where
  "handle_socks5_command E F I udp_conf svr_cfg header s context stat w =
     (let addr = req_address header;
          not_supported = Some (rust_bind (reply_to I CommandNotSupported addr s) (\<lambda>(res, s).
            Ret (map_sum id (\<lambda>_. Closed) res, s, context, stat, w)))
      in case req_command header of
           TcpConnect \<Rightarrow>
             if enable_tcp (cfg_mode (ctx_config context)) then
               map_option (\<lambda>x. rust_bind x (\<lambda>(res, s, context, stat, w).
                   Ret (map_sum (connect_failed addr) Tunnel res, s, context, stat, w)))
                 (handle_socks5_connect E F I svr_cfg addr s context stat w)
             else not_supported
         | TcpBind \<Rightarrow> not_supported
         | UdpAssociate \<Rightarrow>
             if uc_enable_udp udp_conf then
               (case reply_to I Succeeded (SocketAddress (uc_client_addr udp_conf)) s of
                  Panic \<Rightarrow> Some Panic
                | Ret (Inl e, s) \<Rightarrow> Some (Ret (Inl e, s, context, stat, w))
                | Ret (Inr _, s) \<Rightarrow>
                    map_option (\<lambda>(res, s). Ret (map_sum id (\<lambda>_. Closed) res, s, context, stat, w))
                      (ignore_until_end (ci_read I) s 0))
             else not_supported)"

definition auth_not_supported :: io_error where
  "auth_not_supported = IoError OtherKind ''currently shadowsocks-rust does not support authentication''"

definition handle_socks5_client ::
    "('c, 'b, 'n, 'm, 'r, 'q, 'x, 'l, 'k, 'w) tcp_env \<Rightarrow> 'f f64_ops \<Rightarrow> 'j client_io \<Rightarrow> UdpConfig \<Rightarrow> ServerConfig \<Rightarrow>
     'j \<Rightarrow> ('b, 'r, 'q, 'x, 'l) Context \<Rightarrow> 'f ServerStatisticData \<Rightarrow> 'w \<Rightarrow>
     ((io_error + ('c, 'k) served) \<times> 'j \<times> ('b, 'r, 'q, 'x, 'l) Context \<times> 'f ServerStatisticData \<times> 'w) rust option" where
  "handle_socks5_client E F I udp_conf svr_cfg s context stat w =
     (let fail = (\<lambda>e s. Some (Ret (Inl e, s, context, stat, w))) in
      case ci_peer_addr I s of
        Inl e \<Rightarrow> fail e s
      | Inr client_addr \<Rightarrow>
          (case HandshakeRequest_read_from (ci_read_exact I) s of
             Inl e \<Rightarrow> fail e s
           | Inr (handshake_req, s) \<Rightarrow>
               if SOCKS5_AUTH_METHOD_NONE \<notin> set (hs_methods handshake_req) then
                 (case HandshakeResponse_write_to (ci_write I) \<lparr>chosen_method = SOCKS5_AUTH_METHOD_NOT_ACCEPTABLE\<rparr> s of
                    Inl e \<Rightarrow> fail e s
                  | Inr s \<Rightarrow> fail auth_not_supported s)
               else
                 (case HandshakeResponse_write_to (ci_write I) \<lparr>chosen_method = SOCKS5_AUTH_METHOD_NONE\<rparr> s of
                    Inl e \<Rightarrow> fail e s
                  | Inr s \<Rightarrow>
                      (case TcpRequestHeader_read_from (ci_read_exact I) s of
                         Inl err \<Rightarrow>
                           (case reply_to I (err_reply err) (SocketAddress client_addr) s of
                              Panic \<Rightarrow> Some Panic
                            | Ret (Inl e, s) \<Rightarrow> fail e s
                            | Ret (Inr _, s) \<Rightarrow> fail (io_error_from_Socks5Error err) s)
                       | Inr (header, s) \<Rightarrow> handle_socks5_command E F I udp_conf svr_cfg header s context stat w))))"

section \<open>Tunnels\<close>

text \<open>A tunnel forwards every client to the address of the configuration; the access control list is not asked.\<close>

definition handle_tunnel_client ::
    "('c, 'b, 'n, 'm, 'r, 'q, 'x, 'l, 'k, 'w) tcp_env \<Rightarrow> 'j client_io \<Rightarrow> ServerConfig \<Rightarrow> 'j \<Rightarrow> ('b, 'r, 'q, 'x, 'l) Context \<Rightarrow> 'w \<Rightarrow>
     ((io_error + ('c, 'k) ProxyStream) \<times> ('b, 'r, 'q, 'x, 'l) Context \<times> 'w) rust option" where
  "handle_tunnel_client E I svr_cfg s context w =
     (case ci_peer_addr I s of
        Inl e \<Rightarrow> Some (Ret (Inl e, context, w))
      | Inr client_addr \<Rightarrow>
          (case cfg_forward (ctx_config context) of
             None \<Rightarrow> Some Panic
           | Some target_addr \<Rightarrow> connect_proxied E context svr_cfg target_addr w))"

section \<open>The SOCKS5 client\<close>

text \<open>The greeting and the request of a client on a connected stream, as both commands send them. To flush a TCP stream does nothing.\<close>

definition socks5_request :: "'j client_io \<Rightarrow> Command \<Rightarrow> Address \<Rightarrow> 'j \<Rightarrow> (io_error + 'j \<times> Address) rust" where
  "socks5_request I cmd addr s =
     (case HandshakeRequest_write_to (ci_write I) \<lparr>hs_methods = [SOCKS5_AUTH_METHOD_NONE]\<rparr> s of
        Inl e \<Rightarrow> Ret (Inl e)
      | Inr s \<Rightarrow>
          (case HandshakeResponse_read_from (ci_read_exact I) s of
             Inl e \<Rightarrow> Ret (Inl e)
           | Inr (hsp, s) \<Rightarrow>
               if chosen_method hsp \<noteq> SOCKS5_AUTH_METHOD_NONE then Panic
               else
                 rust_bind (TcpRequestHeader_write_to (ci_write I) \<lparr>req_command = cmd, req_address = addr\<rparr> s) (\<lambda>r.
                   case r of
                     Inl e \<Rightarrow> Ret (Inl e)
                   | Inr s \<Rightarrow>
                       (case TcpResponseHeader_read_from (ci_read_exact I) s of
                          Inl e \<Rightarrow> Ret (Inl (io_error_from_Socks5Error e))
                        | Inr (hp, s) \<Rightarrow>
                            if resp_reply hp = Succeeded then Ret (Inr (s, resp_address hp))
                            else Ret (Inl (IoError OtherKind (Reply_display (resp_reply hp))))))))"

definition Socks5Client_connect ::
    "(socket_addr \<Rightarrow> io_error + 'j) \<Rightarrow> 'j client_io \<Rightarrow> Address \<Rightarrow> socket_addr \<Rightarrow> (io_error + 'j) rust" where
  "Socks5Client_connect tcp_connect I addr proxy =
     (case tcp_connect proxy of
        Inl e \<Rightarrow> Ret (Inl e)
      | Inr s \<Rightarrow> rust_bind (socks5_request I TcpConnect addr s) (\<lambda>r. Ret (map_sum id fst r)))"

definition Socks5Client_udp_associate ::
    "(socket_addr \<Rightarrow> io_error + 'j) \<Rightarrow> 'j client_io \<Rightarrow> Address \<Rightarrow> socket_addr \<Rightarrow> (io_error + 'j \<times> Address) rust" where
  "Socks5Client_udp_associate tcp_connect I addr proxy =
     (case tcp_connect proxy of
        Inl e \<Rightarrow> Ret (Inl e)
      | Inr s \<Rightarrow> socks5_request I UdpAssociate addr s)"

definition ServerClient_connect ::
    "('c, 'b, 'n, 'm, 'r, 'q, 'x, 'l, 'k, 'w) tcp_env \<Rightarrow> ('b, 'r, 'q, 'x, 'l) Context \<Rightarrow> Address \<Rightarrow> ServerConfig \<Rightarrow> 'w \<Rightarrow>
     ((io_error + ('c, 'k) ProxyStream) \<times> ('b, 'r, 'q, 'x, 'l) Context \<times> 'w) rust option" where
  "ServerClient_connect E context addr svr_cfg w = connect_proxied E context svr_cfg addr w"

section \<open>Both sides of a connection\<close>

text \<open>One end of a connection in memory: what is still to be read, and what was written.\<close>

definition pipe_io :: "socket_addr \<Rightarrow> (bytes \<times> bytes) client_io" where
  "pipe_io peer =
     \<lparr>ci_read_exact = (\<lambda>n (i, out). map_sum id (\<lambda>(bs, i). (bs, i, out)) (cursor_read_exact n i)),
      ci_read = (\<lambda>n (i, out). Inr (take n i, drop n i, out)),
      ci_write = (\<lambda>bs (i, out). Inr (i, out @ bs)),
      ci_peer_addr = (\<lambda>_. Inr peer)\<rparr>"

interpretation pipe: byte_reader "ci_read_exact (pipe_io peer)" fst "\<lambda>(i, out'). out' = out"
  by unfold_locales (auto simp: pipe_io_def cursor_read_exact_def)

lemma pipe_write [simp]: "ci_write (pipe_io peer) bs (i, out) = Inr (i, out @ bs)"
  by (simp add: pipe_io_def)

lemma pipe_peer [simp]: "ci_peer_addr (pipe_io peer) s = Inr peer"
  by (simp add: pipe_io_def)

lemma pipe_reply_to: "wf_address a \<Longrightarrow> reply_to (pipe_io peer) r a (i, out) =
    Ret (Inr (), i, out @ [SOCKS5_VERSION, Reply_as_u8 r, 0] @ addr_bytes a)"
  by (simp add: reply_to_def TcpResponseHeader_write_to_def TcpResponseHeader_write_to_buf_def Address_write_to_buf_def)

lemma wf_dummy_address [simp]: "wf_address dummy_address"
  by (simp add: dummy_address_def)

lemma wf_wire_address [simp]: "wf_address (wire_address a) = wf_address a"
  by (cases a rule: wire_address.cases) simp_all

lemma addr_bytes_wire [simp]: "addr_bytes (wire_address a) = addr_bytes a"
  by (cases a rule: wire_address.cases) (simp_all add: addr_bytes_def)

text \<open>What a client sends, up to the command.\<close>

definition client_greeting :: bytes where
  "client_greeting = [SOCKS5_VERSION, 1, SOCKS5_AUTH_METHOD_NONE]"

definition client_hello :: "Command \<Rightarrow> Address \<Rightarrow> bytes" where
  "client_hello cmd a = client_greeting @ [SOCKS5_VERSION, Command_as_u8 cmd, 0] @ addr_bytes a"

definition server_hello :: "Reply \<Rightarrow> Address \<Rightarrow> bytes" where
  "server_hello r a = [SOCKS5_VERSION, SOCKS5_AUTH_METHOD_NONE] @ [SOCKS5_VERSION, Reply_as_u8 r, 0] @ addr_bytes a"

lemma pipe_server_reads:
  assumes "wf_address a"
  shows "handle_socks5_client E F (pipe_io peer) udp cfg (client_hello cmd a @ rest, []) ctx stat w =
    handle_socks5_command E F (pipe_io peer) udp cfg \<lparr>req_command = cmd, req_address = wire_address a\<rparr>
      (rest, [SOCKS5_VERSION, SOCKS5_AUTH_METHOD_NONE]) ctx stat w"
proof -
  let ?req = "[SOCKS5_VERSION, Command_as_u8 cmd, 0] @ addr_bytes a @ rest"
  have "HandshakeRequest_read_from (ci_read_exact (pipe_io peer)) (client_hello cmd a @ rest, []) =
      Inr (\<lparr>hs_methods = [SOCKS5_AUTH_METHOD_NONE]\<rparr>, ?req, [])"
    using pipe.HandshakeRequest_read_from_write [where r = "(client_hello cmd a @ rest, [])" and out = "[]"
        and h = "\<lparr>hs_methods = [SOCKS5_AUTH_METHOD_NONE]\<rparr>" and rest = ?req]
    by (auto simp: client_hello_def client_greeting_def)
  moreover have "TcpRequestHeader_read_from (ci_read_exact (pipe_io peer)) (?req, out) =
      Inr (\<lparr>req_command = cmd, req_address = wire_address a\<rparr>, rest, out)" for out
    using pipe.TcpRequestHeader_read_from_write [where r = "(?req, out)" and out = out and rest = rest
        and h = "\<lparr>req_command = cmd, req_address = a\<rparr>" and rsv = 0] assms
    by auto
  ultimately show ?thesis
    by (simp add: handle_socks5_client_def Let_def HandshakeResponse_write_to_def HandshakeResponse_write_to_buf_def)
qed

lemma pipe_client_reads:
  assumes "wf_address a" and "wf_address b" and "Reply_from_u8 (Reply_as_u8 r) = r"
  shows "socks5_request (pipe_io peer) cmd a (server_hello r b, []) =
    (if r = Succeeded then Ret (Inr (([], client_hello cmd a), wire_address b))
     else Ret (Inl (IoError OtherKind (Reply_display r))))"
proof -
  let ?resp = "[SOCKS5_VERSION, Reply_as_u8 r, 0] @ addr_bytes b"
  have "HandshakeResponse_read_from (ci_read_exact (pipe_io peer)) (server_hello r b, out) =
      Inr (\<lparr>chosen_method = SOCKS5_AUTH_METHOD_NONE\<rparr>, ?resp, out)" for out
    using pipe.HandshakeResponse_read_from_write [where r = "(server_hello r b, out)" and out = out
        and h = "\<lparr>chosen_method = SOCKS5_AUTH_METHOD_NONE\<rparr>" and rest = ?resp]
    by (auto simp: server_hello_def)
  moreover have "TcpResponseHeader_read_from (ci_read_exact (pipe_io peer)) (?resp, out) =
      Inr (\<lparr>resp_reply = r, resp_address = wire_address b\<rparr>, [], out)" for out
    using pipe.TcpResponseHeader_read_from_write [where r = "(?resp, out)" and out = out and rest = "[]"
        and h = "\<lparr>resp_reply = r, resp_address = b\<rparr>" and rsv = 0] assms
    by auto
  ultimately show ?thesis
    using assms(1)
    by (simp add: socks5_request_def HandshakeRequest_write_to_def HandshakeRequest_write_to_buf_def client_hello_def
        client_greeting_def TcpRequestHeader_write_to_def TcpRequestHeader_write_to_buf_def Address_write_to_buf_def)
qed

lemma pipe_client_eof: "\<exists>e. socks5_request (pipe_io peer) cmd a ([SOCKS5_VERSION, SOCKS5_AUTH_METHOD_NONE], []) = Ret (Inl e)"
  if "wf_address a"
proof -
  have "HandshakeResponse_read_from (ci_read_exact (pipe_io peer)) ([SOCKS5_VERSION, SOCKS5_AUTH_METHOD_NONE], out) =
      Inr (\<lparr>chosen_method = SOCKS5_AUTH_METHOD_NONE\<rparr>, [], out)" for out
    using pipe.HandshakeResponse_read_from_write [where r = "([SOCKS5_VERSION, SOCKS5_AUTH_METHOD_NONE], out)" and out = out
        and h = "\<lparr>chosen_method = SOCKS5_AUTH_METHOD_NONE\<rparr>" and rest = "[]"]
    by auto
  moreover obtain e where "TcpResponseHeader_read_from (ci_read_exact (pipe_io peer)) ([], client_hello cmd a) = Inl e"
    using pipe.read_exact_short [where r = "([], client_hello cmd a)" and out = "client_hello cmd a" and n = 3 and peer = peer]
    by (auto simp: TcpResponseHeader_read_from_def)
  ultimately show ?thesis
    using that
    by (simp add: socks5_request_def HandshakeRequest_write_to_def HandshakeRequest_write_to_buf_def client_hello_def
        client_greeting_def TcpRequestHeader_write_to_def TcpRequestHeader_write_to_buf_def Address_write_to_buf_def)
qed

lemma connect_reply_is_failure: "connect_reply e \<noteq> Succeeded" "Reply_from_u8 (Reply_as_u8 (connect_reply e)) = connect_reply e"
  by (simp_all add: connect_reply_def Reply_from_u8_def split: io_kind.split)

lemma connect_cases:
  assumes "handle_socks5_connect E F (pipe_io peer) cfg addr (rest, out) ctx stat w = Some (Ret (res, s, ctx', stat', w'))"
  obtains (ok) svr_s a where "ProxyStream_connect E ctx cfg addr w = Some (Ret (Inr svr_s, ctx', w'))" "res = Inr svr_s" "stat' = stat"
      "s = (rest, out @ [SOCKS5_VERSION, Reply_as_u8 Succeeded, 0] @ addr_bytes (SocketAddress a))"
    | (no_addr) e where "res = Inl e" "s = (rest, out)"
    | (failed) e where "res = Inl e" "s = (rest, out @ [SOCKS5_VERSION, Reply_as_u8 (connect_reply e), 0] @ addr_bytes dummy_address)"
  using assms
  by (auto simp: handle_socks5_connect_def Let_def pipe_reply_to split: option.splits rust.splits prod.splits sum.splits)

lemma map_err_Inl_iff: "map_err f r = Inl e \<longleftrightarrow> (\<exists>x. r = Inl x \<and> e = f x)"
  by (cases r) auto

section \<open>Properties\<close>

text \<open>
  C13. The SOCKS5 client and the SOCKS5 server of the program agree. When a client asks to connect, the server takes
  exactly the greeting and the request from the stream and connects to the requested address; the client accepts the
  answer if and only if the server opened a tunnel, after the client sent exactly the bytes the server consumed.
\<close>

theorem socks5_sides_agree:
  assumes "wf_address addr"
    and "handle_socks5_client E F (pipe_io peer) udp cfg (client_hello TcpConnect addr @ rest, []) ctx stat w =
      Some (Ret (res, (left, out), ctx', stat', w'))"
  shows "left = rest \<and>
    (case res of
       Inr (Tunnel svr_s) \<Rightarrow>
         ProxyStream_connect E ctx cfg (wire_address addr) w = Some (Ret (Inr svr_s, ctx', w')) \<and> stat' = stat \<and>
         Socks5Client_connect (\<lambda>_. Inr (out, [])) (pipe_io peer') addr proxy = Ret (Inr ([], client_hello TcpConnect addr))
     | _ \<Rightarrow> \<exists>e. Socks5Client_connect (\<lambda>_. Inr (out, [])) (pipe_io peer') addr proxy = Ret (Inl e))"
proof (cases "enable_tcp (cfg_mode (ctx_config ctx))")
  case True
  then obtain res' where con: "handle_socks5_connect E F (pipe_io peer) cfg (wire_address addr) (rest, [SOCKS5_VERSION, SOCKS5_AUTH_METHOD_NONE]) ctx stat w =
      Some (Ret (res', (left, out), ctx', stat', w'))" and res: "res = map_sum (connect_failed (wire_address addr)) Tunnel res'"
    using assms by (auto simp: pipe_server_reads handle_socks5_command_def Let_def rust_bind_Ret_iff)
  from con show ?thesis
  proof (cases rule: connect_cases)
    case (ok svr_s a)
    then show ?thesis
      using pipe_client_reads [of addr "SocketAddress a" Succeeded peer' TcpConnect] assms(1) res
      by (simp add: Socks5Client_connect_def server_hello_def Reply_from_u8_def)
  next
    case (no_addr e)
    then show ?thesis
      using pipe_client_eof [OF assms(1), of peer' TcpConnect] res by (auto simp: Socks5Client_connect_def)
  next
    case (failed e)
    then show ?thesis
      using pipe_client_reads [OF assms(1) wf_dummy_address connect_reply_is_failure(2) [of e], of peer' TcpConnect] res
      by (simp add: Socks5Client_connect_def server_hello_def connect_reply_is_failure)
  qed
next
  case False
  then have "res = Inr Closed \<and> left = rest \<and> out = server_hello CommandNotSupported (wire_address addr)"
    using assms by (auto simp: pipe_server_reads handle_socks5_command_def Let_def pipe_reply_to server_hello_def)
  then show ?thesis
    using pipe_client_reads [of addr "wire_address addr" CommandNotSupported peer' TcpConnect] assms(1)
    by (simp add: Socks5Client_connect_def Reply_from_u8_def)
qed


text \<open>Examples: a tunnel to the target through the server without encryption, and a target that is not reached around it.\<close>

lemma sample_not_bypassed: "ctx_check_target_bypassed A C d a r sample_context addr = (False, sample_context)"
  by (simp add: ctx_check_target_bypassed_def sample_context_def Context_new_def Config_new_def)

definition sample_peer :: socket_addr where "sample_peer = SocketAddrV4 (Ipv4Addr 127 0 0 1) 5"
definition sample_udp :: UdpConfig where "sample_udp = \<lparr>uc_enable_udp = False, uc_client_addr = sample_peer\<rparr>"
definition sample_stat :: "int ServerStatisticData" where "sample_stat = ServerStatisticData_new sample_f64"

lemma sample_serves:
  "\<exists>ctx out. handle_socks5_client sample_tcp_env sample_f64 (pipe_io sample_peer) sample_udp plain_server
     (client_hello TcpConnect sample_target @ [7], []) sample_context sample_stat () =
       Some (Ret (Inr (Tunnel (Proxied sample_proxied)), ([7], out), ctx, sample_stat, ()))"
proof -
  have target: "wf_address sample_target" "wire_address sample_target = sample_target" by (simp_all add: sample_target_def)
  obtain ctx where c: "connect_proxied sample_tcp_env sample_context plain_server sample_target () = Some (Ret (Inr (Proxied sample_proxied), ctx, ()))"
    using sample_connect_proxied by blast
  then have c': "ProxyStream_connect sample_tcp_env sample_context plain_server sample_target () = Some (Ret (Inr (Proxied sample_proxied), ctx, ()))"
    by (simp add: ProxyStream_connect_def sample_not_bypassed)
  have mode: "enable_tcp (cfg_mode (ctx_config sample_context))"
    by (simp add: sample_context_def Context_new_def Config_new_def)
  have addr: "ProxyStream_local_addr sample_tcp_env (Proxied sample_proxied) = Inr (SocketAddrV4 (Ipv4Addr 127 0 0 1) 1)"
    by (simp add: ProxyStream_local_addr_def sample_tcp_env_def)
  show ?thesis
    using c' mode by (simp add: pipe_server_reads target handle_socks5_command_def handle_socks5_connect_def pipe_reply_to addr)
qed

theorem socks5_sides_agree_witness:
  "\<exists>out ctx. handle_socks5_client sample_tcp_env sample_f64 (pipe_io sample_peer) sample_udp plain_server
       (client_hello TcpConnect sample_target @ [7], []) sample_context sample_stat () =
         Some (Ret (Inr (Tunnel (Proxied sample_proxied)), ([7], out), ctx, sample_stat, ()))
     \<and> Socks5Client_connect (\<lambda>_. Inr (out, [])) (pipe_io sample_peer) sample_target sample_peer =
         Ret (Inr ([], client_hello TcpConnect sample_target))"
proof -
  have target: "wf_address sample_target" by (simp add: sample_target_def)
  obtain ctx out where h: "handle_socks5_client sample_tcp_env sample_f64 (pipe_io sample_peer) sample_udp plain_server
     (client_hello TcpConnect sample_target @ [7], []) sample_context sample_stat () =
       Some (Ret (Inr (Tunnel (Proxied sample_proxied)), ([7], out), ctx, sample_stat, ()))"
    using sample_serves by blast
  from h socks5_sides_agree [OF target h, of sample_peer sample_peer] show ?thesis by auto
qed

definition bypassing_context :: "(bytes list, ipv4_addr list, ipv6_addr list, string list, unit) Context" where
  "bypassing_context = sample_context\<lparr>ctx_config := (Config_new Socks5Local)\<lparr>cfg_acl := Some
     (let none = Rules_new sample_acl_lib [] [] [] in
      \<lparr>acl_outbound_block = none, acl_black_list = Rules_new sample_acl_lib [Ipv4Addr 1 2 3 4] [] [], acl_white_list = none,
       acl_mode = BlackList\<rparr>)\<rparr>\<rparr>"

definition unreachable_env ::
    "(CryptoMode, bytes list, ipv4_addr, ipv6_addr, ipv4_addr list, ipv6_addr list, string list, unit, bytes, unit) tcp_env" where
  "unreachable_env = sample_tcp_env\<lparr>te_connect := \<lambda>_ _ w. ((Inl (IoError ConnectionRefused ''refused''), 0), w)\<rparr>"

lemma sample_bypassed:
  "ctx_check_target_bypassed (te_acl unreachable_env) (te_cache unreachable_env) (te_dns_relay unreachable_env) (te_android unreachable_env)
     (te_resolve unreachable_env) bypassing_context sample_target = (True, bypassing_context)"
  by (simp add: ctx_check_target_bypassed_def bypassing_context_def unreachable_env_def sample_tcp_env_def sample_target_def
      acl_check_target_bypassed_def check_address_matched_def check_ip_matched_def Rules_new_def sample_acl_lib_def sample_range_ops_def Let_def)

lemma sample_unreachable:
  "ProxyStream_connect unreachable_env bypassing_context plain_server sample_target () =
     Some (Ret (Inl \<lparr>pse_inner = IoError ConnectionRefused ''refused'', pse_bypassed = True\<rparr>, bypassing_context, ()))"
  by (simp add: ProxyStream_connect_def sample_bypassed)
     (simp add: sample_target_def connect_direct_def connect_timeout_def unreachable_env_def try_timeout_def bypassing_context_def Config_new_def)


end
