(* ===== verification/Http_Local.thy ===== *)
theory Http_Local
  imports Socks5_Local
begin

text \<open>
  The HTTP proxy of \<^verbatim>\<open>src/relay/tcprelay/http_local.rs\<close>. Header maps, URIs and the HTTP client are libraries (the crates
  \<^verbatim>\<open>http\<close> and \<^verbatim>\<open>hyper\<close>) and parameters; a client is a function of the connector that the source gives to it.
\<close>

section \<open>Messages\<close>

record 'h header_ops =
  hdr_get_all :: "'h \<Rightarrow> string \<Rightarrow> bytes list"
  hdr_get :: "'h \<Rightarrow> string \<Rightarrow> bytes option"
  hdr_insert :: "'h \<Rightarrow> string \<Rightarrow> bytes \<Rightarrow> 'h"
  hdr_remove :: "'h \<Rightarrow> string \<Rightarrow> bytes option \<times> 'h"
  hdr_new :: 'h
  hdr_to_str :: "bytes \<Rightarrow> string option"

record 'a uri_parts =
  up_scheme :: "string option"
  up_authority :: "'a option"
  up_path_and_query :: "string option"

record ('u, 'a) uri_ops =
  uri_into_parts :: "'u \<Rightarrow> 'a uri_parts"
  uri_from_parts :: "'a uri_parts \<Rightarrow> 'u option"
  auth_port_u16 :: "'a \<Rightarrow> u16 option"
  auth_host :: "'a \<Rightarrow> string"
  auth_from_str :: "string \<Rightarrow> 'a option"

definition uri_authority :: "('u, 'a) uri_ops \<Rightarrow> 'u \<Rightarrow> 'a option" where
  "uri_authority U uri = up_authority (uri_into_parts U uri)"

definition uri_scheme_str :: "('u, 'a) uri_ops \<Rightarrow> 'u \<Rightarrow> string option" where
  "uri_scheme_str U uri = up_scheme (uri_into_parts U uri)"

datatype Version = HTTP_09 | HTTP_10 | HTTP_11 | HTTP_2 | HTTP_3

record ('u, 'h) Request =
  rq_method :: string
  rq_uri :: 'u
  rq_version :: Version
  rq_headers :: 'h
  rq_body :: bytes

record 'h Response =
  rs_status :: nat
  rs_version :: Version
  rs_headers :: 'h
  rs_body :: bytes

section \<open>Addresses\<close>

definition authority_addr :: "('u, 'a) uri_ops \<Rightarrow> string option \<Rightarrow> 'a \<Rightarrow> Address option" where
  "authority_addr U scheme_str authority =
     (let port =
        (case auth_port_u16 U authority of
           Some port \<Rightarrow> Some port
         | None \<Rightarrow>
             (case scheme_str of
                None \<Rightarrow> Some 80
              | Some s \<Rightarrow> if s = ''http'' then Some 80 else if s = ''https'' then Some 443 else None))
      in case port of
           None \<Rightarrow> None
         | Some port \<Rightarrow>
             let host_str = auth_host U authority in
             if host_str \<noteq> [] \<and> hd host_str = CHR ''['' \<and> last host_str = CHR '']'' then
               (case parse_ipv6 (take (length host_str - 2) (drop 1 host_str)) of
                  Some a \<Rightarrow> Some (SocketAddress (SocketAddrV6 a port 0 0))
                | None \<Rightarrow> None)
             else
               (case parse_ipv4 host_str of
                  Some a \<Rightarrow> Some (SocketAddress (SocketAddrV4 a port))
                | None \<Rightarrow> Some (DomainNameAddress host_str port)))"

definition host_addr :: "('u, 'a) uri_ops \<Rightarrow> 'u \<Rightarrow> Address option" where
  "host_addr U uri =
     (case uri_authority U uri of
        None \<Rightarrow> None
      | Some authority \<Rightarrow> authority_addr U (uri_scheme_str U uri) authority)"

text \<open>The address in the \<^verbatim>\<open>Host\<close> header, and the request with the URI reassembled; a URI that cannot be reassembled panics.\<close>

definition get_addr_from_header ::
    "'h header_ops \<Rightarrow> ('u, 'a) uri_ops \<Rightarrow> ('u, 'h) Request \<Rightarrow> (unit + Address \<times> ('u, 'h) Request) rust" where
  "get_addr_from_header H U req =
     (case hdr_get H (rq_headers req) ''Host'' of
        None \<Rightarrow> Ret (Inl ())
      | Some hhost \<Rightarrow>
          (case hdr_to_str H hhost of
             None \<Rightarrow> Ret (Inl ())
           | Some shost \<Rightarrow>
               (case auth_from_str U shost of
                  None \<Rightarrow> Ret (Inl ())
                | Some authority \<Rightarrow>
                    (case authority_addr U (uri_scheme_str U (rq_uri req)) authority of
                       None \<Rightarrow> Ret (Inl ())
                     | Some host \<Rightarrow>
                         let parts = uri_into_parts U (rq_uri req);
                             parts = (if up_scheme parts = None then parts\<lparr>up_scheme := Some ''http''\<rparr> else parts);
                             parts = parts\<lparr>up_authority := Some authority\<rparr>
                         in case uri_from_parts U parts of
                              None \<Rightarrow> Panic
                            | Some uri \<Rightarrow> Ret (Inr (host, req\<lparr>rq_uri := uri\<rparr>))))))"

section \<open>Headers\<close>

definition ascii_lower :: "char \<Rightarrow> char" where
  "ascii_lower c = (if of_char c \<in> {65 :: nat .. 90} then char_of (of_char c + 32 :: nat) else c)"

definition to_ascii_lowercase :: "string \<Rightarrow> string" where
  "to_ascii_lowercase = map ascii_lower"

definition eq_ignore_ascii_case :: "string \<Rightarrow> string \<Rightarrow> bool" where
  "eq_ignore_ascii_case a b \<longleftrightarrow> to_ascii_lowercase a = to_ascii_lowercase b"

definition value_parts :: "string \<Rightarrow> string list" where
  "value_parts v = map trim (split_on CHR '','' v)"

text \<open>One value of \<^verbatim>\<open>Connection\<close> or \<^verbatim>\<open>Proxy-Connection\<close>.\<close>

definition value_keep_alive :: "'h header_ops \<Rightarrow> bytes \<Rightarrow> bool \<Rightarrow> bool" where
  "value_keep_alive H v conn_keep_alive =
     (case hdr_to_str H v of
        None \<Rightarrow> conn_keep_alive
      | Some value \<Rightarrow>
          if eq_ignore_ascii_case value ''close'' then False
          else if list_ex (\<lambda>part. eq_ignore_ascii_case part ''keep-alive'') (value_parts value) then True
          else conn_keep_alive)"

definition check_keep_alive :: "'h header_ops \<Rightarrow> Version \<Rightarrow> 'h \<Rightarrow> bool \<Rightarrow> bool rust" where
  "check_keep_alive H version headers check_proxy =
     rust_bind (case version of HTTP_10 \<Rightarrow> Ret False | HTTP_11 \<Rightarrow> Ret True | _ \<Rightarrow> Panic) (\<lambda>conn_keep_alive.
       let conn_keep_alive =
             (if check_proxy then fold (value_keep_alive H) (hdr_get_all H headers ''Proxy-Connection'') conn_keep_alive
              else conn_keep_alive)
       in Ret (fold (value_keep_alive H) (hdr_get_all H headers ''Connection'') conn_keep_alive))"

definition extra_headers_of :: "'h header_ops \<Rightarrow> bytes \<Rightarrow> string list" where
  "extra_headers_of H v =
     (case hdr_to_str H v of
        None \<Rightarrow> []
      | Some conn \<Rightarrow>
          if eq_ignore_ascii_case conn ''close'' then []
          else filter (\<lambda>header. \<not> eq_ignore_ascii_case header ''keep-alive'') (value_parts conn))"

text \<open>The loop \<^verbatim>\<open>while let Some(..) = headers.remove(header) {}\<close>.\<close>

partial_function (option) remove_header :: "'h header_ops \<Rightarrow> string \<Rightarrow> 'h \<Rightarrow> 'h option" where
  "remove_header H header headers =
     (case hdr_remove H headers header of
        (Some _, headers) \<Rightarrow> remove_header H header headers
      | (None, headers) \<Rightarrow> Some headers)"

fun remove_headers :: "'h header_ops \<Rightarrow> string list \<Rightarrow> 'h \<Rightarrow> 'h option" where
  "remove_headers H [] headers = Some headers"
| "remove_headers H (header # hs) headers =
     (case remove_header H header headers of None \<Rightarrow> None | Some headers \<Rightarrow> remove_headers H hs headers)"

definition HOP_BY_HOP_HEADERS :: "string list" where
  "HOP_BY_HOP_HEADERS = [''Keep-Alive'', ''Transfer-Encoding'', ''TE'', ''Connection'', ''Trailer'', ''Upgrade'',
     ''Proxy-Authorization'', ''Proxy-Authenticate'', ''Proxy-Connection'']"

definition clear_hop_headers :: "'h header_ops \<Rightarrow> 'h \<Rightarrow> 'h option" where
  "clear_hop_headers H headers =
     (let extra_headers = concat (map (extra_headers_of H) (hdr_get_all H headers ''Connection'' @ hdr_get_all H headers ''Proxy-Connection''))
      in case remove_headers H extra_headers headers of
           None \<Rightarrow> None
         | Some headers \<Rightarrow> remove_headers H HOP_BY_HOP_HEADERS headers)"

definition set_conn_keep_alive :: "'h header_ops \<Rightarrow> Version \<Rightarrow> 'h \<Rightarrow> bool \<Rightarrow> 'h rust" where
  "set_conn_keep_alive H version headers keep_alive =
     (case version of
        HTTP_10 \<Rightarrow> Ret (if keep_alive then hdr_insert H headers ''Connection'' (as_bytes ''keep-alive'') else headers)
      | HTTP_11 \<Rightarrow> Ret (if \<not> keep_alive then hdr_insert H headers ''Connection'' (as_bytes ''close'') else headers)
      | _ \<Rightarrow> Panic)"

section \<open>Connectors\<close>

text \<open>What a request may change: the context with its filters, the statistic of the server and the network.\<close>

type_synonym ('b, 'r, 'q, 'x, 'l, 'f, 'w) http_state = "('b, 'r, 'q, 'x, 'l) Context \<times> 'f ServerStatisticData \<times> 'w"

definition invalid_uri :: io_error where
  "invalid_uri = IoError OtherKind ''URI must be a valid Address''"

definition ShadowSocksConnector_call ::
    "('c, 'b, 'n, 'm, 'r, 'q, 'x, 'l, 'k, 'w) tcp_env \<Rightarrow> 'f f64_ops \<Rightarrow> ('u, 'a) uri_ops \<Rightarrow> nat \<Rightarrow> 'u \<Rightarrow> ('b, 'r, 'q, 'x, 'l, 'f, 'w) http_state \<Rightarrow>
     ((io_error + ('c, 'k) ProxyStream) \<times> ('b, 'r, 'q, 'x, 'l, 'f, 'w) http_state) rust option" where
  "ShadowSocksConnector_call E F U svr_idx dst st =
     (case st of
        (context, stat, w) \<Rightarrow>
          (case ctx_server_config context svr_idx of
             Panic \<Rightarrow> Some Panic
           | Ret svr_cfg \<Rightarrow>
               (case host_addr U dst of
                  None \<Rightarrow> Some (Ret (Inl invalid_uri, context, stat, w))
                | Some addr \<Rightarrow>
                    map_option (\<lambda>x. rust_bind x (\<lambda>(res, context, w).
                        case res of
                          Inr s \<Rightarrow> Ret (Inr s, context, stat, w)
                        | Inl err \<Rightarrow> Ret (Inl err, context, snd (report_failure F stat), w)))
                      (connect_proxied E context svr_cfg addr w))))"

definition DirectConnector_call ::
    "('c, 'b, 'n, 'm, 'r, 'q, 'x, 'l, 'k, 'w) tcp_env \<Rightarrow> ('u, 'a) uri_ops \<Rightarrow> 'u \<Rightarrow> ('b, 'r, 'q, 'x, 'l, 'f, 'w) http_state \<Rightarrow>
     ((io_error + ('c, 'k) ProxyStream) \<times> ('b, 'r, 'q, 'x, 'l, 'f, 'w) http_state) rust option" where
  "DirectConnector_call E U dst st =
     (case st of
        (context, stat, w) \<Rightarrow>
          (case host_addr U dst of
             None \<Rightarrow> Some (Ret (Inl invalid_uri, context, stat, w))
           | Some addr \<Rightarrow> Some (rust_bind (connect_direct E context addr w) (\<lambda>(res, w). Ret (res, context, stat, w)))))"

text \<open>A client of the library: it uses its connector and yields a response or an error message.\<close>

type_synonym ('u, 'h, 't, 's) http_client =
  "('u \<Rightarrow> 's \<Rightarrow> ((io_error + 't) \<times> 's) rust option) \<Rightarrow> ('u, 'h) Request \<Rightarrow> 's \<Rightarrow> ((string + 'h Response) \<times> 's) rust option"

section \<open>The proxy\<close>

definition Response_new :: "'h header_ops \<Rightarrow> nat \<Rightarrow> bytes \<Rightarrow> 'h Response" where
  "Response_new H status body = \<lparr>rs_status = status, rs_version = HTTP_11, rs_headers = hdr_new H, rs_body = body\<rparr>"

definition make_bad_request :: "'h header_ops \<Rightarrow> 'h Response" where
  "make_bad_request H = Response_new H 400 []"

definition relay_failed :: "'h header_ops \<Rightarrow> Address \<Rightarrow> 'h Response" where
  "relay_failed H host = Response_new H 500 (as_bytes (''relay failed to '' @ Address_display host))"

text \<open>The request as it is forwarded, and the response as it is returned.\<close>

definition forwarded_request :: "'h header_ops \<Rightarrow> ('u, 'h) Request \<Rightarrow> (bool \<times> ('u, 'h) Request) rust option" where
  "forwarded_request H req =
     (case check_keep_alive H (rq_version req) (rq_headers req) True of
        Panic \<Rightarrow> Some Panic
      | Ret conn_keep_alive \<Rightarrow>
          map_option (\<lambda>headers. rust_bind (set_conn_keep_alive H (rq_version req) headers conn_keep_alive)
              (\<lambda>headers. Ret (conn_keep_alive, req\<lparr>rq_headers := headers\<rparr>)))
            (clear_hop_headers H (rq_headers req)))"

definition returned_response :: "'h header_ops \<Rightarrow> bool \<Rightarrow> 'h Response \<Rightarrow> 'h Response rust option" where
  "returned_response H conn_keep_alive res =
     (case (if conn_keep_alive then check_keep_alive H (rs_version res) (rs_headers res) False else Ret False) of
        Panic \<Rightarrow> Some Panic
      | Ret res_keep_alive \<Rightarrow>
          map_option (\<lambda>headers. rust_bind (set_conn_keep_alive H (rs_version res) headers res_keep_alive)
              (\<lambda>headers. Ret (res\<lparr>rs_headers := headers\<rparr>)))
            (clear_hop_headers H (rs_headers res)))"

text \<open>The result is the response and, for a tunnel, the stream to which the connection is then upgraded.\<close>

definition dispatch_connect ::
    "('c, 'b, 'n, 'm, 'r, 'q, 'x, 'l, 'k, 'w) tcp_env \<Rightarrow> 'f f64_ops \<Rightarrow> 'h header_ops \<Rightarrow> ServerConfig \<Rightarrow> Address \<Rightarrow> ('b, 'r, 'q, 'x, 'l, 'f, 'w) http_state \<Rightarrow>
     ((io_error + 'h Response \<times> ('c, 'k) ProxyStream option) \<times> ('b, 'r, 'q, 'x, 'l, 'f, 'w) http_state) rust option" where
  "dispatch_connect E F H svr_cfg host st =
     (case st of
        (context, stat, w) \<Rightarrow>
          map_option (\<lambda>x. rust_bind x (\<lambda>(res, context, w).
              case res of
                Inr stream \<Rightarrow> Ret (Inr (Response_new H 200 [], Some stream), context, stat, w)
              | Inl err \<Rightarrow>
                  Ret (Inl (pse_inner err), context, if ProxyStreamError_is_proxied err then snd (report_failure F stat) else stat, w)))
            (ProxyStream_connect E context svr_cfg host w))"

definition dispatch_forward ::
    "('c, 'b, 'n, 'm, 'r, 'q, 'x, 'l, 'k, 'w) tcp_env \<Rightarrow> 'f f64_ops \<Rightarrow> 'h header_ops \<Rightarrow> ('u, 'a) uri_ops \<Rightarrow>
     ('u, 'h, ('c, 'k) ProxyStream, ('b, 'r, 'q, 'x, 'l, 'f, 'w) http_state) http_client \<Rightarrow> nat \<Rightarrow> ('u, 'h) Request \<Rightarrow> Address \<Rightarrow>
     ('b, 'r, 'q, 'x, 'l, 'f, 'w) http_state \<Rightarrow>
     ((io_error + 'h Response \<times> ('c, 'k) ProxyStream option) \<times> ('b, 'r, 'q, 'x, 'l, 'f, 'w) http_state) rust option" where
  "dispatch_forward E F H U client svr_idx req host st =
     (case forwarded_request H req of
        None \<Rightarrow> None
      | Some Panic \<Rightarrow> Some Panic
      | Some (Ret (conn_keep_alive, req)) \<Rightarrow>
          (case st of
             (context, stat, w) \<Rightarrow>
               (case ctx_check_target_bypassed (te_acl E) (te_cache E) (te_dns_relay E) (te_android E) (te_resolve E) context host of
                  (is_bypassed, context) \<Rightarrow>
                    (case client (if is_bypassed then DirectConnector_call E U else ShadowSocksConnector_call E F U svr_idx) req (context, stat, w) of
                       None \<Rightarrow> None
                     | Some Panic \<Rightarrow> Some Panic
                     | Some (Ret (Inl err, st)) \<Rightarrow> Some (Ret (Inr (relay_failed H host, None), st))
                     | Some (Ret (Inr res, st)) \<Rightarrow>
                         map_option (\<lambda>x. rust_bind x (\<lambda>res. Ret (Inr (res, None), st))) (returned_response H conn_keep_alive res)))))"

definition server_dispatch ::
    "('c, 'b, 'n, 'm, 'r, 'q, 'x, 'l, 'k, 'w) tcp_env \<Rightarrow> 'f f64_ops \<Rightarrow> 'h header_ops \<Rightarrow> ('u, 'a) uri_ops \<Rightarrow>
     ('u, 'h, ('c, 'k) ProxyStream, ('b, 'r, 'q, 'x, 'l, 'f, 'w) http_state) http_client \<Rightarrow> nat \<Rightarrow> ('u, 'h) Request \<Rightarrow>
     ('b, 'r, 'q, 'x, 'l, 'f, 'w) http_state \<Rightarrow>
     ((io_error + 'h Response \<times> ('c, 'k) ProxyStream option) \<times> ('b, 'r, 'q, 'x, 'l, 'f, 'w) http_state) rust option" where
  "server_dispatch E F H U client svr_idx req st =
     (case (case host_addr U (rq_uri req) of
              Some h \<Rightarrow> Ret (Inr (h, req))
            | None \<Rightarrow> if uri_authority U (rq_uri req) \<noteq> None then Ret (Inl ()) else get_addr_from_header H U req) of
        Panic \<Rightarrow> Some Panic
      | Ret (Inl _) \<Rightarrow> Some (Ret (Inr (make_bad_request H, None), st))
      | Ret (Inr (host, req)) \<Rightarrow>
          (case ctx_server_config (fst st) svr_idx of
             Panic \<Rightarrow> Some Panic
           | Ret svr_cfg \<Rightarrow>
               if rq_method req = ''CONNECT'' then dispatch_connect E F H svr_cfg host st
               else dispatch_forward E F H U client svr_idx req host st))"

section \<open>Headers that are not forwarded\<close>

text \<open>
  What the library documents of a header map: \<open>content\<close> are the values under the lower-case form of a name, in their order.
  Removing a name removes all of its values and yields the first.
\<close>

definition hdr_ok :: "'h header_ops \<Rightarrow> ('h \<Rightarrow> string \<Rightarrow> bytes list) \<Rightarrow> bool" where
  "hdr_ok H content \<longleftrightarrow>
     (\<forall>h n. hdr_get_all H h n = content h (to_ascii_lowercase n))
   \<and> (\<forall>h n. hdr_get H h n = (case content h (to_ascii_lowercase n) of [] \<Rightarrow> None | v # _ \<Rightarrow> Some v))
   \<and> (\<forall>h n. fst (hdr_remove H h n) = (case content h (to_ascii_lowercase n) of [] \<Rightarrow> None | v # _ \<Rightarrow> Some v))
   \<and> (\<forall>h n. content (snd (hdr_remove H h n)) = (content h)(to_ascii_lowercase n := []))
   \<and> (\<forall>h v. content (hdr_insert H h ''Connection'' v) = (content h)(''connection'' := [v]))"

lemma hdr_okD:
  assumes "hdr_ok H content"
  shows "hdr_get_all H h n = content h (to_ascii_lowercase n)"
    "hdr_remove H h n = (r, h') \<Longrightarrow> content h' = (content h)(to_ascii_lowercase n := [])"
    "hdr_remove H h n = (Some v, h') \<Longrightarrow> content h (to_ascii_lowercase n) \<noteq> []"
    "content (hdr_insert H h ''Connection'' v) = (content h)(''connection'' := [v])"
proof -
  note D = assms [unfolded hdr_ok_def]
  show "hdr_get_all H h n = content h (to_ascii_lowercase n)" using D by simp
  show "content h' = (content h)(to_ascii_lowercase n := [])" if "hdr_remove H h n = (r, h')" using D that by (metis snd_conv)
  have "fst (hdr_remove H h n) = (case content h (to_ascii_lowercase n) of [] \<Rightarrow> None | v # _ \<Rightarrow> Some v)" using D by simp
  then show "content h (to_ascii_lowercase n) \<noteq> []" if "hdr_remove H h n = (Some v, h')" using that by auto
  show "content (hdr_insert H h ''Connection'' v) = (content h)(''connection'' := [v])" using D by simp
qed

text \<open>The removal loop ends after at most two rounds.\<close>

lemma remove_header_ok:
  assumes "hdr_ok H content"
  shows "\<exists>h'. remove_header H n h = Some h' \<and> content h' = (content h)(to_ascii_lowercase n := [])"
proof -
  obtain r h1 where r1: "hdr_remove H h n = (r, h1)" by (cases "hdr_remove H h n")
  note c1 = hdr_okD(2) [OF assms r1]
  show ?thesis
  proof (cases r)
    case None
    with r1 c1 show ?thesis by (subst remove_header.simps) simp
  next
    case (Some v)
    obtain r2 h2 where r2: "hdr_remove H h1 n = (r2, h2)" by (cases "hdr_remove H h1 n")
    have "r2 = None" using hdr_okD(3) [OF assms, of h1 n _ h2] r2 c1 by (cases r2) auto
    moreover have "content h2 = (content h)(to_ascii_lowercase n := [])" using hdr_okD(2) [OF assms r2] c1 by simp
    ultimately show ?thesis
      using r1 r2 Some by (subst remove_header.simps, simp, subst remove_header.simps, simp)
  qed
qed

lemma remove_headers_ok:
  assumes "hdr_ok H content"
  shows "\<exists>h'. remove_headers H ns h = Some h' \<and> content h' = (\<lambda>m. if m \<in> to_ascii_lowercase ` set ns then [] else content h m)"
proof (induction ns arbitrary: h)
  case (Cons n ns)
  obtain h1 where h1: "remove_header H n h = Some h1" "content h1 = (content h)(to_ascii_lowercase n := [])"
    using remove_header_ok [OF assms] by blast
  obtain h2 where "remove_headers H ns h1 = Some h2" "content h2 = (\<lambda>m. if m \<in> to_ascii_lowercase ` set ns then [] else content h1 m)"
    using Cons.IH by blast
  with h1 show ?case by (auto simp: fun_eq_iff)
qed simp

text \<open>The names that a message lists itself: the parts of its \<^verbatim>\<open>Connection\<close> and \<^verbatim>\<open>Proxy-Connection\<close> headers.\<close>

definition listed_headers :: "'h header_ops \<Rightarrow> ('h \<Rightarrow> string \<Rightarrow> bytes list) \<Rightarrow> 'h \<Rightarrow> string set" where
  "listed_headers H content h =
     {p. \<exists>v t. v \<in> set (content h ''connection'') \<union> set (content h ''proxy-connection'') \<and> hdr_to_str H v = Some t
          \<and> \<not> eq_ignore_ascii_case t ''close'' \<and> p \<in> set (value_parts t) \<and> \<not> eq_ignore_ascii_case p ''keep-alive''}"

definition hop_names :: "'h header_ops \<Rightarrow> ('h \<Rightarrow> string \<Rightarrow> bytes list) \<Rightarrow> 'h \<Rightarrow> string set" where
  "hop_names H content h = to_ascii_lowercase ` (listed_headers H content h \<union> set HOP_BY_HOP_HEADERS)"

lemma lowercase_names [simp]:
  "to_ascii_lowercase ''Connection'' = ''connection''" "to_ascii_lowercase ''Proxy-Connection'' = ''proxy-connection''"
  by (simp_all add: to_ascii_lowercase_def ascii_lower_def) code_simp+

lemma extra_headers_iff:
  "p \<in> set (extra_headers_of H v) \<longleftrightarrow>
     (\<exists>t. hdr_to_str H v = Some t \<and> \<not> eq_ignore_ascii_case t ''close'' \<and> p \<in> set (value_parts t) \<and> \<not> eq_ignore_ascii_case p ''keep-alive'')"
  by (cases "hdr_to_str H v") (auto simp: extra_headers_of_def)

lemma listed_extra:
  assumes "hdr_ok H content"
  shows "set (concat (map (extra_headers_of H) (hdr_get_all H h ''Connection'' @ hdr_get_all H h ''Proxy-Connection''))) = listed_headers H content h"
proof (rule set_eqI)
  fix p show "p \<in> set (concat (map (extra_headers_of H) (hdr_get_all H h ''Connection'' @ hdr_get_all H h ''Proxy-Connection'')))
      \<longleftrightarrow> p \<in> listed_headers H content h"
    unfolding listed_headers_def by (simp add: hdr_okD(1) [OF assms] extra_headers_iff) blast
qed

lemma clear_hop_headers_ok:
  assumes "hdr_ok H content"
  shows "\<exists>h'. clear_hop_headers H h = Some h' \<and> content h' = (\<lambda>n. if n \<in> hop_names H content h then [] else content h n)"
proof -
  let ?extra = "concat (map (extra_headers_of H) (hdr_get_all H h ''Connection'' @ hdr_get_all H h ''Proxy-Connection''))"
  obtain h1 where h1: "remove_headers H ?extra h = Some h1"
      "content h1 = (\<lambda>m. if m \<in> to_ascii_lowercase ` listed_headers H content h then [] else content h m)"
    using remove_headers_ok [OF assms, of ?extra h] listed_extra [OF assms, of h] by auto
  obtain h2 where "remove_headers H HOP_BY_HOP_HEADERS h1 = Some h2"
      "content h2 = (\<lambda>m. if m \<in> to_ascii_lowercase ` set HOP_BY_HOP_HEADERS then [] else content h1 m)"
    using remove_headers_ok [OF assms] by blast
  with h1 show ?thesis by (auto simp: clear_hop_headers_def Let_def hop_names_def fun_eq_iff)
qed

section \<open>Where requests go\<close>

text \<open>The socket addresses of a target and of a proxy server.\<close>

definition resolved :: "resolver \<Rightarrow> string \<Rightarrow> u16 \<Rightarrow> socket_addr set" where
  "resolved resolve dname port = (case resolve dname port of Inl _ \<Rightarrow> {} | Inr addrs \<Rightarrow> set addrs)"

definition address_targets :: "resolver \<Rightarrow> Address \<Rightarrow> socket_addr set" where
  "address_targets resolve addr = (case addr of SocketAddress a \<Rightarrow> {a} | DomainNameAddress dname port \<Rightarrow> resolved resolve dname port)"

definition server_targets :: "resolver \<Rightarrow> ServerAddr \<Rightarrow> socket_addr set" where
  "server_targets resolve addr = (case addr of SvrSocketAddr a \<Rightarrow> {a} | SvrDomainName dname port \<Rightarrow> resolved resolve dname port)"

definition proxy_addr :: "('b, 'r, 'q, 'x, 'l) Context \<Rightarrow> ServerConfig \<Rightarrow> ServerAddr" where
  "proxy_addr context svr_cfg = (if cfg_config_type (ctx_config context) = Server then sc_addr svr_cfg else external_addr svr_cfg)"

lemma lookup_then_targets:
  assumes "lookup_then resolve dname port body w = Ret (res, w')"
    and "\<And>a w. a \<in> resolved resolve dname port \<Longrightarrow> I w \<Longrightarrow> I (snd (body a w))" and "I w"
  shows "I w'"
proof (cases "resolve dname port")
  case (Inl e)
  with assms show ?thesis by (simp add: lookup_then_def)
next
  case (Inr addrs)
  with assms(1) have "snd (lookup_loop body None addrs w) = w'"
    by (auto simp: lookup_then_def split: prod.splits option.splits)
  with lookup_loop_inv [of addrs I body w None] assms(2,3) Inr show ?thesis by (simp add: resolved_def)
qed

lemma connect_timeout_snd: "snd (connect_timeout E ba timeout a w) = snd (te_connect E ba a w)"
  by (simp add: connect_timeout_def split: prod.split)

lemma connect_direct_inv:
  assumes "connect_direct E ctx addr w = Ret (res, w')"
    and I: "\<And>ba a w. a \<in> address_targets (te_resolve E) addr \<Longrightarrow> I w \<Longrightarrow> I (snd (te_connect E ba a w))" and "I w"
  shows "I w'"
proof (cases addr)
  case (SocketAddress a)
  then have "w' = snd (connect_timeout E None (cfg_timeout (ctx_config ctx)) a w)"
    using assms(1) by (auto simp: connect_direct_def Let_def split: prod.splits)
  with I [of a w None] assms(3) SocketAddress show ?thesis by (simp add: connect_timeout_snd address_targets_def)
next
  case (DomainNameAddress dname port)
  then obtain r where "lookup_then (te_resolve E) dname port (connect_timeout E None (cfg_timeout (ctx_config ctx))) w = Ret (r, w')"
    using assms(1) by (auto simp: connect_direct_def Let_def rust_bind_Ret_iff)
  from lookup_then_targets [where I = I, OF this] I assms(3) DomainNameAddress show ?thesis
    by (simp add: connect_timeout_snd address_targets_def)
qed

lemma connect_internal_inv:
  assumes "connect_proxy_server_internal E addr timeout w = Ret (res, w')"
    and I: "\<And>ba a w. a \<in> server_targets (te_resolve E) addr \<Longrightarrow> I w \<Longrightarrow> I (snd (te_connect E ba a w))" and "I w"
  shows "I w'"
proof (cases addr)
  case (SvrSocketAddr a)
  then have "w' = snd (connect_timeout E None timeout a w)"
    using assms(1) by (auto simp: connect_proxy_server_internal_def Let_def map_prod_def split: prod.splits)
  with I [of a w None] assms(3) SvrSocketAddr show ?thesis by (simp add: connect_timeout_snd server_targets_def)
next
  case (SvrDomainName dname port)
  let ?body = "\<lambda>addr w. map_prod (map_sum id (\<lambda>s. Connection_new (te_nodelay E) s timeout)) id (connect_timeout E None timeout addr w)"
  obtain r where r: "lookup_then (te_resolve E) dname port ?body w = Ret (r, w')"
    using assms(1) SvrDomainName by (auto simp: connect_proxy_server_internal_def Let_def rust_bind_Ret_iff)
  show ?thesis
    by (rule lookup_then_targets [where I = I, OF r])
       (use I assms(3) SvrDomainName in \<open>simp_all add: snd_map_prod connect_timeout_snd server_targets_def\<close>)
qed

lemma connect_retry_inv:
  assumes "connect_retry E nd addr timeout k last_err w = Ret (res, w')"
    and I: "\<And>ba a w. a \<in> server_targets (te_resolve E) addr \<Longrightarrow> I w \<Longrightarrow> I (snd (te_connect E ba a w))" and "I w"
  shows "I w'"
  using assms(1,3)
proof (induction k arbitrary: last_err w)
  case 0
  then show ?case by (simp split: option.splits)
next
  case (Suc k)
  then obtain r w1 where r: "connect_proxy_server_internal E addr timeout w = Ret (r, w1)"
      "(case r of Inr s \<Rightarrow> Ret (Inr (snd (conn_set_nodelay (te_nodelay E) nd s)), w1)
        | Inl err \<Rightarrow> connect_retry E nd addr timeout k (Some err) w1) = Ret (res, w')"
    by (auto simp: rust_bind_Ret_iff)
  have "I w1" by (rule connect_internal_inv [where I = I, OF r(1) I Suc.prems(2)])
  with r(2) Suc.IH show ?case by (auto split: sum.splits)
qed

lemma connect_proxied_inv:
  assumes "connect_proxied E ctx cfg addr w = Some (Ret (res, ctx', w'))"
    and I: "\<And>ba a w. a \<in> server_targets (te_resolve E) (proxy_addr ctx cfg) \<Longrightarrow> I w \<Longrightarrow> I (snd (te_connect E ba a w))" and "I w"
  shows "I w' \<and> ctx_config ctx' = ctx_config ctx"
proof -
  obtain r where r: "connect_proxy_server E ctx cfg w = Ret (r, w')"
    using assms(1) by (auto simp: connect_proxied_def rust_bind_Ret_iff split: rust.splits prod.splits sum.splits)
  then have "\<exists>timeout. connect_retry E (cfg_no_delay (ctx_config ctx)) (proxy_addr ctx cfg) timeout RETRY_TIMES None w = Ret (r, w')"
    by (auto simp: connect_proxy_server_def proxy_addr_def Let_def split: ConfigType.splits)
  then have "I w'" using connect_retry_inv [where I = I] I assms(3) by blast
  moreover have "ctx_config ctx' = ctx_config ctx"
    using assms(1) by (auto simp: connect_proxied_def proxy_server_handshake_def Let_def rust_bind_Ret_iff
        split: rust.splits prod.splits sum.splits option.splits)
  ultimately show ?thesis by simp
qed

lemma ctx_check_target_config: "ctx_config (snd (ctx_check_target_bypassed A C d an r ctx addr)) = ctx_config ctx"
  by (auto simp: ctx_check_target_bypassed_def Let_def split: option.splits prod.splits Address.splits if_splits)

text \<open>
  What the libraries document: a reassembled URI has the scheme and the authority it was made from, and a client changes
  nothing but through its connector, which it calls for the host of the request.
\<close>

definition uri_ok :: "('u, 'a) uri_ops \<Rightarrow> bool" where
  "uri_ok U \<longleftrightarrow>
     (\<forall>parts u. uri_from_parts U parts = Some u \<longrightarrow>
        up_scheme (uri_into_parts U u) = up_scheme parts \<and> up_authority (uri_into_parts U u) = up_authority parts)"

definition client_ok :: "('u, 'a) uri_ops \<Rightarrow> ('u, 'h, 't, 's) http_client \<Rightarrow> bool" where
  "client_ok U client \<longleftrightarrow>
     (\<forall>conn req I st r st'.
        (\<forall>dst s t s'. host_addr U dst = host_addr U (rq_uri req) \<longrightarrow> I s \<longrightarrow> conn dst s = Some (Ret (t, s')) \<longrightarrow> I s') \<longrightarrow>
        I st \<longrightarrow> client conn req st = Some (Ret (r, st')) \<longrightarrow> I st')"

lemma client_okD:
  assumes "client_ok U client" and "client conn req st = Some (Ret (r, st'))" and "I st"
    and "\<And>dst s t s'. \<lbrakk>host_addr U dst = host_addr U (rq_uri req); I s; conn dst s = Some (Ret (t, s'))\<rbrakk> \<Longrightarrow> I s'"
  shows "I st'"
  using assms unfolding client_ok_def by blast

text \<open>The host of a request.\<close>

definition request_host :: "'h header_ops \<Rightarrow> ('u, 'a) uri_ops \<Rightarrow> ('u, 'h) Request \<Rightarrow> (unit + Address \<times> ('u, 'h) Request) rust" where
  "request_host H U req =
     (case host_addr U (rq_uri req) of
        Some h \<Rightarrow> Ret (Inr (h, req))
      | None \<Rightarrow> if uri_authority U (rq_uri req) \<noteq> None then Ret (Inl ()) else get_addr_from_header H U req)"

lemma authority_addr_default: "authority_addr U (Some ''http'') a = authority_addr U None a"
  by (cases "auth_port_u16 U a") (simp_all add: authority_addr_def)

lemma request_host_addr:
  assumes "uri_ok U" and "request_host H U req = Ret (Inr (host, req'))"
  shows "host_addr U (rq_uri req') = Some host"
proof (cases "host_addr U (rq_uri req)")
  case (Some h)
  with assms(2) show ?thesis by (simp add: request_host_def)
next
  case None
  then have "get_addr_from_header H U req = Ret (Inr (host, req'))"
    using assms(2) by (auto simp: request_host_def split: if_splits)
  then obtain auth parts where p: "authority_addr U (uri_scheme_str U (rq_uri req)) auth = Some host"
      "uri_from_parts U parts = Some (rq_uri req')" "up_authority parts = Some auth"
      "up_scheme parts = (if uri_scheme_str U (rq_uri req) = None then Some ''http'' else uri_scheme_str U (rq_uri req))"
    by (auto simp: get_addr_from_header_def Let_def uri_scheme_str_def split: option.splits if_splits)
  have "uri_authority U (rq_uri req') = Some auth" "uri_scheme_str U (rq_uri req') = up_scheme parts"
    using assms(1) p(2,3) by (simp_all add: uri_ok_def uri_authority_def uri_scheme_str_def)
  with p(1,4) show ?thesis by (auto simp: host_addr_def authority_addr_default split: if_splits)
qed

lemma connector_inv:
  assumes "ShadowSocksConnector_call E F U idx dst st = Some (Ret (t, st'))" and "ctx_server_config ctx idx = Ret cfg"
    and "ctx_config (fst st) = ctx_config ctx" and "J (snd (snd st))"
    and J: "\<And>ba a w. a \<in> server_targets (te_resolve E) (proxy_addr ctx cfg) \<Longrightarrow> J w \<Longrightarrow> J (snd (te_connect E ba a w))"
  shows "ctx_config (fst st') = ctx_config ctx \<and> J (snd (snd st'))"
proof -
  obtain c s w where st: "st = (c, s, w)" by (cases st)
  have cfg: "ctx_server_config c idx = Ret cfg" "proxy_addr c cfg = proxy_addr ctx cfg"
    using assms(2,3) st by (simp_all add: ctx_server_config_def proxy_addr_def split: if_splits)
  show ?thesis
  proof (cases "host_addr U dst")
    case None
    with assms(1,3,4) st cfg(1) show ?thesis by (auto simp: ShadowSocksConnector_call_def)
  next
    case (Some addr)
    then obtain res c' w' where p: "connect_proxied E c cfg addr w = Some (Ret (res, c', w'))"
        "(case res of Inr s' \<Rightarrow> Ret (Inr s', c', s, w') | Inl err \<Rightarrow> Ret (Inl err, c', snd (report_failure F s), w')) = Ret (t, st')"
      using assms(1) st cfg(1) by (auto simp: ShadowSocksConnector_call_def rust_bind_Ret_iff)
    then have "fst st' = c'" "snd (snd st') = w'" by (auto split: sum.splits)
    with connect_proxied_inv [where I = J, OF p(1)] J assms(3,4) st cfg(2) show ?thesis by simp
  qed
qed

lemma direct_connector_inv:
  assumes "DirectConnector_call E U dst st = Some (Ret (t, st'))" and "host_addr U dst = Some host"
    and "J (snd (snd st))" and J: "\<And>ba a w. a \<in> address_targets (te_resolve E) host \<Longrightarrow> J w \<Longrightarrow> J (snd (te_connect E ba a w))"
  shows "J (snd (snd st'))"
proof -
  obtain c s w where st: "st = (c, s, w)" by (cases st)
  then obtain res w' where "connect_direct E c host w = Ret (res, w')" "snd (snd st') = w'"
    using assms(1,2) by (auto simp: DirectConnector_call_def rust_bind_Ret_iff)
  with connect_direct_inv [where I = J] J assms(3) st show ?thesis by (metis snd_conv)
qed

text \<open>What the access control list decides for a host, and the addresses that the decision allows.\<close>

definition http_targets ::
    "('c, 'b, 'n, 'm, 'r, 'q, 'x, 'l, 'k, 'w) tcp_env \<Rightarrow> ('b, 'r, 'q, 'x, 'l) Context \<Rightarrow> ServerConfig \<Rightarrow> Address \<Rightarrow> socket_addr set" where
  "http_targets E ctx svr_cfg host =
     (if fst (ctx_check_target_bypassed (te_acl E) (te_cache E) (te_dns_relay E) (te_android E) (te_resolve E) ctx host)
      then address_targets (te_resolve E) host else server_targets (te_resolve E) (proxy_addr ctx svr_cfg))"

lemma ProxyStream_connect_inv:
  assumes "ProxyStream_connect E ctx cfg host w = Some (Ret (r, ctx', w'))" and "J w"
    and J: "\<And>ba a w. a \<in> http_targets E ctx cfg host \<Longrightarrow> J w \<Longrightarrow> J (snd (te_connect E ba a w))"
  shows "J w'"
proof -
  obtain by' c where chk: "ctx_check_target_bypassed (te_acl E) (te_cache E) (te_dns_relay E) (te_android E) (te_resolve E) ctx host = (by', c)"
    by (cases "ctx_check_target_bypassed (te_acl E) (te_cache E) (te_dns_relay E) (te_android E) (te_resolve E) ctx host")
  have c: "proxy_addr c = proxy_addr ctx" using ctx_check_target_config chk by (metis snd_conv proxy_addr_def ext)
  show ?thesis
  proof (cases by')
    case True
    then obtain r' where "connect_direct E c host w = Ret (r', w')"
      using assms(1) chk by (auto simp: ProxyStream_connect_def rust_bind_Ret_iff)
    from connect_direct_inv [where I = J, OF this] J assms(2) True chk show ?thesis by (simp add: http_targets_def)
  next
    case False
    then obtain r' where "connect_proxied E c cfg host w = Some (Ret (r', ctx', w'))"
      using assms(1) chk by (auto simp: ProxyStream_connect_def rust_bind_Ret_iff)
    from connect_proxied_inv [where I = J, OF this] J assms(2) False chk c show ?thesis by (simp add: http_targets_def)
  qed
qed

lemma dispatch_connect_inv:
  assumes "dispatch_connect E F H cfg host (ctx, stat, w) = Some (Ret (res, ctx', stat', w'))" and "J w"
    and J: "\<And>ba a w. a \<in> http_targets E ctx cfg host \<Longrightarrow> J w \<Longrightarrow> J (snd (te_connect E ba a w))"
  shows "J w'"
proof -
  obtain r c w1 where p: "ProxyStream_connect E ctx cfg host w = Some (Ret (r, c, w1))"
      "(case r of Inr stream \<Rightarrow> Ret (Inr (Response_new H 200 [], Some stream), c, stat, w1)
        | Inl err \<Rightarrow> Ret (Inl (pse_inner err), c, if ProxyStreamError_is_proxied err then snd (report_failure F stat) else stat, w1))
       = Ret (res, ctx', stat', w')"
    using assms(1) by (auto simp: dispatch_connect_def rust_bind_Ret_iff)
  then have "w1 = w'" by (cases r) auto
  with ProxyStream_connect_inv [where J = J, OF p(1) assms(2) J] show ?thesis by simp
qed

lemma dispatch_forward_inv:
  assumes client: "client_ok U client" and host: "host_addr U (rq_uri req) = Some host" and cfg: "ctx_server_config ctx idx = Ret cfg"
    and "dispatch_forward E F H U client idx req host (ctx, stat, w) = Some (Ret (res, ctx', stat', w'))" and "J w"
    and J: "\<And>ba a w. a \<in> http_targets E ctx cfg host \<Longrightarrow> J w \<Longrightarrow> J (snd (te_connect E ba a w))"
  shows "J w'"
proof -
  obtain by' c where chk: "ctx_check_target_bypassed (te_acl E) (te_cache E) (te_dns_relay E) (te_android E) (te_resolve E) ctx host = (by', c)"
    by (cases "ctx_check_target_bypassed (te_acl E) (te_cache E) (te_dns_relay E) (te_android E) (te_resolve E) ctx host")
  have c: "ctx_config c = ctx_config ctx" using ctx_check_target_config chk by (metis snd_conv)
  obtain keep req' where f: "forwarded_request H req = Some (Ret (keep, req'))"
    using assms(4) by (auto simp: dispatch_forward_def split: option.splits rust.splits)
  then have uri: "rq_uri req' = rq_uri req"
    by (auto simp: forwarded_request_def rust_bind_Ret_iff split: rust.splits)
  let ?conn = "if by' then DirectConnector_call E U else ShadowSocksConnector_call E F U idx"
  define cl where "cl = client ?conn req' (c, stat, w)"
  have e: "(case cl of None \<Rightarrow> None | Some Panic \<Rightarrow> Some Panic
      | Some (Ret (Inl err, st)) \<Rightarrow> Some (Ret (Inr (relay_failed H host, None), st))
      | Some (Ret (Inr res, st)) \<Rightarrow> map_option (\<lambda>x. rust_bind x (\<lambda>res. Ret (Inr (res, None), st))) (returned_response H keep res))
      = Some (Ret (res, ctx', stat', w'))"
    using assms(4) f chk by (simp add: dispatch_forward_def cl_def)
  then obtain x where x: "cl = Some x" by (cases cl) simp_all
  with e obtain y where y: "x = Ret y" by (cases x) simp_all
  obtain r st where cl: "cl = Some (Ret (r, st))" using x y by (cases y) simp
  have "st = (ctx', stat', w')" using e cl by (cases r) (auto simp: rust_bind_Ret_iff)
  then have r: "client ?conn req' (c, stat, w) = Some (Ret (r, ctx', stat', w'))" using cl cl_def by simp
  let ?I = "\<lambda>st. (by' \<or> ctx_config (fst st) = ctx_config ctx) \<and> J (snd (snd st))"
  have "?I (ctx', stat', w')"
  proof (rule client_okD [where I = ?I and client = client and U = U and conn = ?conn and req = req' and st = "(c, stat, w)", OF client r])
    show "?I (c, stat, w)" using c assms(5) by simp
    fix dst s t s' assume a: "host_addr U dst = host_addr U (rq_uri req')" "?I s" "?conn dst s = Some (Ret (t, s'))"
    show "?I s'"
    proof (cases by')
      case True
      then show ?thesis
        using direct_connector_inv [where J = J, of E U dst s t s' host] a uri host J chk by (simp add: http_targets_def)
    next
      case False
      then show ?thesis
        using connector_inv [where J = J, of E F U idx dst s t s' ctx cfg] a cfg J chk by (simp add: http_targets_def)
    qed
  qed
  then show ?thesis by simp
qed

section \<open>Properties\<close>


lemma logging_simps [simp]:
  "te_resolve (logging_env E) = te_resolve E" "te_acl (logging_env E) = te_acl E" "te_cache (logging_env E) = te_cache E"
  "te_dns_relay (logging_env E) = te_dns_relay E" "te_android (logging_env E) = te_android E"
  "snd (snd (te_connect (logging_env E) ba a v)) = snd v @ [a]"
  by (simp_all add: logging_env_def split: prod.split)

lemma http_targets_logging [simp]: "http_targets (logging_env E) = http_targets E"
  by (simp add: http_targets_def fun_eq_iff)

text \<open>
  C22. The HTTP proxy routes by the access control list, for tunnels and for forwarded requests alike: a request whose
  host the list bypasses opens sockets to addresses of that host only, any other request only to addresses of the
  proxy server, and a request without a valid host is answered by an error and opens none. The network of the
  statement logs the destinations.
\<close>

theorem http_routes_by_acl:
  assumes "uri_ok U" and "client_ok U client"
    and "server_dispatch (logging_env E) F H U client idx req (ctx, stat, w, []) = Some (Ret (res, ctx', stat', w', log))"
  shows "case request_host H U req of
           Ret (Inr (host, _)) \<Rightarrow>
             (\<exists>svr_cfg. ctx_server_config ctx idx = Ret svr_cfg
               \<and> set log \<subseteq> (if fst (ctx_check_target_bypassed (te_acl E) (te_cache E) (te_dns_relay E) (te_android E) (te_resolve E) ctx host)
                            then address_targets (te_resolve E) host else server_targets (te_resolve E) (proxy_addr ctx svr_cfg)))
         | _ \<Rightarrow> log = [] \<and> res = Inr (make_bad_request H, None)"
proof (cases "request_host H U req")
  case Panic
  then show ?thesis using assms(3) by (simp add: server_dispatch_def request_host_def [symmetric])
next
  case (Ret r)
  show ?thesis
  proof (cases r)
    case (Inl u)
    then show ?thesis using assms(3) Ret by (simp add: server_dispatch_def request_host_def [symmetric])
  next
    case (Inr hr)
    obtain host req' where hr: "hr = (host, req')" by (cases hr)
    note host = request_host_addr [OF assms(1) Ret [unfolded Inr hr]]
    obtain cfg where cfg: "ctx_server_config ctx idx = Ret cfg"
      using assms(3) Ret Inr hr by (auto simp: server_dispatch_def request_host_def [symmetric] split: rust.splits)
    have d: "(if rq_method req' = ''CONNECT'' then dispatch_connect (logging_env E) F H cfg host (ctx, stat, w, [])
         else dispatch_forward (logging_env E) F H U client idx req' host (ctx, stat, w, [])) = Some (Ret (res, ctx', stat', w', log))"
      using assms(3) Ret Inr hr cfg by (simp add: server_dispatch_def request_host_def [symmetric])
    let ?J = "\<lambda>v. set (snd v) \<subseteq> http_targets E ctx cfg host"
    have step: "a \<in> http_targets (logging_env E) ctx cfg host \<Longrightarrow> ?J v \<Longrightarrow> ?J (snd (te_connect (logging_env E) ba a v))" for ba a v
      by simp
    have "?J (w', log)"
    proof (cases "rq_method req' = ''CONNECT''")
      case True
      with d have "dispatch_connect (logging_env E) F H cfg host (ctx, stat, w, []) = Some (Ret (res, ctx', stat', w', log))" by simp
      then show ?thesis by (rule dispatch_connect_inv [where J = ?J, OF _ _ step]) simp_all
    next
      case False
      with d have "dispatch_forward (logging_env E) F H U client idx req' host (ctx, stat, w, []) = Some (Ret (res, ctx', stat', w', log))" by simp
      then show ?thesis by (rule dispatch_forward_inv [where J = ?J, OF assms(2) host cfg _ _ step]) simp_all
    qed
    then show ?thesis using Ret Inr hr cfg by (simp add: http_targets_def)
  qed
qed

text \<open>Examples: header maps as lists of lower-case names and values, and a tunnel to a bypassed host that refuses it.\<close>

definition sample_hdr :: "(string \<times> bytes) list header_ops" where
  "sample_hdr =
     (let vals = (\<lambda>h n. map snd (filter (\<lambda>kv. fst kv = to_ascii_lowercase n) h));
          first = (\<lambda>vs. case vs of [] \<Rightarrow> None | v # _ \<Rightarrow> Some v);
          rest = (\<lambda>h n. filter (\<lambda>kv. fst kv \<noteq> to_ascii_lowercase n) h)
      in \<lparr>hdr_get_all = vals, hdr_get = \<lambda>h n. first (vals h n), hdr_insert = \<lambda>h n v. rest h n @ [(to_ascii_lowercase n, v)],
          hdr_remove = \<lambda>h n. (first (vals h n), rest h n), hdr_new = [], hdr_to_str = \<lambda>v. Some (map (\<lambda>b. char_of (unat b)) v)\<rparr>)"

definition sample_content :: "(string \<times> bytes) list \<Rightarrow> string \<Rightarrow> bytes list" where
  "sample_content h n = map snd (filter (\<lambda>kv. fst kv = n) h)"

lemma sample_hdr_ok: "hdr_ok sample_hdr sample_content"
proof -
  have "filter (\<lambda>kv. fst kv = n) (filter (\<lambda>kv. fst kv \<noteq> m) h) = (if n = m then [] else filter (\<lambda>kv. fst kv = n) h)" for n m and h :: "(string \<times> bytes) list"
    by (induction h) auto
  then show ?thesis
    by (auto simp: hdr_ok_def sample_hdr_def sample_content_def Let_def fun_eq_iff)
qed

definition sample_request :: "(unit, (string \<times> bytes) list) Request" where
  "sample_request =
     \<lparr>rq_method = ''GET'', rq_uri = (), rq_version = HTTP_11,
      rq_headers = [(''host'', as_bytes ''a''), (''connection'', as_bytes ''close''), (''upgrade'', as_bytes ''x'')], rq_body = []\<rparr>"


definition sample_uri :: "((string \<times> u16 option) uri_parts, string \<times> u16 option) uri_ops" where
  "sample_uri = \<lparr>uri_into_parts = id, uri_from_parts = Some, auth_port_u16 = snd, auth_host = fst, auth_from_str = \<lambda>s. Some (s, None)\<rparr>"

definition idle_client :: "('u, 'h, 't, 's) http_client" where
  "idle_client conn req st = Some (Ret (Inl ''closed'', st))"

definition http_context :: "(bytes list, ipv4_addr list, ipv6_addr list, string list, unit) Context" where
  "http_context = bypassing_context\<lparr>ctx_config := (ctx_config bypassing_context)\<lparr>cfg_server := [plain_server]\<rparr>\<rparr>"

definition tunnel_request :: "((string \<times> u16 option) uri_parts, (string \<times> bytes) list) Request" where
  "tunnel_request =
     \<lparr>rq_method = ''CONNECT'', rq_uri = \<lparr>up_scheme = None, up_authority = Some (''1.2.3.4'', Some 80), up_path_and_query = None\<rparr>,
      rq_version = HTTP_11, rq_headers = [], rq_body = []\<rparr>"

lemma sample_tunnel_host: "request_host sample_hdr sample_uri tunnel_request = Ret (Inr (sample_target, tunnel_request))"
proof -
  have "parse_ipv4 ''1.2.3.4'' = Some (Ipv4Addr 1 2 3 4)" by code_simp
  then show ?thesis
    by (simp add: request_host_def host_addr_def uri_authority_def uri_scheme_str_def authority_addr_def sample_uri_def tunnel_request_def
        sample_target_def)
qed

lemma http_context_bypassed:
  "ctx_check_target_bypassed sample_acl_lib C False False r http_context sample_target = (True, http_context)"
  by (simp add: ctx_check_target_bypassed_def http_context_def bypassing_context_def sample_target_def acl_check_target_bypassed_def
      check_address_matched_def check_ip_matched_def Rules_new_def sample_acl_lib_def sample_range_ops_def Let_def)

lemma sample_tunnel_dispatch:
  "\<exists>res stat. server_dispatch (logging_env unreachable_env) sample_f64 sample_hdr sample_uri idle_client 0 tunnel_request (http_context, sample_stat, (), []) =
     Some (Ret (res, http_context, stat, (), [SocketAddrV4 (Ipv4Addr 1 2 3 4) 80]))"
proof -
  have conn: "connect_direct (logging_env unreachable_env) http_context sample_target ((), []) =
      Ret (Inl (IoError ConnectionRefused ''refused''), (), [SocketAddrV4 (Ipv4Addr 1 2 3 4) 80])"
    by (simp add: connect_direct_def sample_target_def connect_timeout_def logging_env_def unreachable_env_def try_timeout_def
        http_context_def bypassing_context_def Config_new_def)
  have env: "te_acl unreachable_env = sample_acl_lib" "\<not> te_dns_relay unreachable_env" "\<not> te_android unreachable_env"
    by (simp_all add: unreachable_env_def sample_tcp_env_def)
  have "ctx_server_config http_context 0 = Ret plain_server" by (simp add: ctx_server_config_def http_context_def)
  then show ?thesis
    using conn sample_tunnel_host
    by (simp add: server_dispatch_def request_host_def [symmetric] dispatch_connect_def ProxyStream_connect_def env http_context_bypassed)
       (simp add: tunnel_request_def)
qed

theorem http_routes_by_acl_witness:
  "\<exists>res stat. server_dispatch (logging_env unreachable_env) sample_f64 sample_hdr sample_uri idle_client 0 tunnel_request (http_context, sample_stat, (), []) =
     Some (Ret (res, http_context, stat, (), [SocketAddrV4 (Ipv4Addr 1 2 3 4) 80]))
   \<and> SocketAddrV4 (Ipv4Addr 1 2 3 4) 80 \<in> address_targets (te_resolve unreachable_env) sample_target"
proof -
  obtain res stat where d: "server_dispatch (logging_env unreachable_env) sample_f64 sample_hdr sample_uri idle_client 0 tunnel_request
      (http_context, sample_stat, (), []) = Some (Ret (res, http_context, stat, (), [SocketAddrV4 (Ipv4Addr 1 2 3 4) 80]))"
    using sample_tunnel_dispatch by blast
  have "uri_ok sample_uri" by (simp add: uri_ok_def sample_uri_def)
  moreover have "client_ok sample_uri idle_client" unfolding client_ok_def idle_client_def by simp
  moreover have env: "te_acl unreachable_env = sample_acl_lib" "\<not> te_dns_relay unreachable_env" "\<not> te_android unreachable_env"
    by (simp_all add: unreachable_env_def sample_tcp_env_def)
  ultimately show ?thesis
    using d http_routes_by_acl [of sample_uri idle_client unreachable_env sample_f64 sample_hdr 0 tunnel_request http_context sample_stat "()" res
        http_context stat "()" "[SocketAddrV4 (Ipv4Addr 1 2 3 4) 80]"]
    by (auto simp: sample_tunnel_host http_context_bypassed)
qed

text \<open>A value that lists \<^verbatim>\<open>close\<close> together with something else does not close the connection.\<close>

lemma close_in_list_ignored: "hdr_to_str H v = Some ''close, TE'' \<Longrightarrow> value_keep_alive H v keep = keep"
proof -
  assume "hdr_to_str H v = Some ''close, TE''"
  moreover have "\<not> eq_ignore_ascii_case ''close, TE'' ''close''"
      "\<not> list_ex (\<lambda>part. eq_ignore_ascii_case part ''keep-alive'') (value_parts ''close, TE'')" by code_simp+
  ultimately show ?thesis by (simp add: value_keep_alive_def)
qed

end
