(* ===== verification/Plugins.thy ===== *)
theory Plugins
  imports Config_File
begin

text \<open>
  Plugins, \<^verbatim>\<open>src/plugin/mod.rs\<close> with \<^verbatim>\<open>ss_plugin.rs\<close> and \<^verbatim>\<open>obfs_proxy.rs\<close>: the command that starts a plugin, launching
  the plugins of all servers and waiting until they listen. Processes and sockets are parameters.
\<close>

section \<open>Commands\<close>

datatype PluginMode = PluginModeServer | PluginModeClient

text \<open>A command with its arguments and the variables it sets; its standard input is always closed.\<close>

record Command_line =
  cmd_program :: string
  cmd_args :: "string list"
  cmd_env :: "(string \<times> string) list"

definition ss_plugin_cmd :: "PluginConfig \<Rightarrow> ServerAddr \<Rightarrow> socket_addr \<Rightarrow> PluginMode \<Rightarrow> Command_line" where
  "ss_plugin_cmd plugin remote local mode =
     \<lparr>cmd_program = pc_plugin plugin, cmd_args = [],
      cmd_env = [(''SS_REMOTE_HOST'', ServerAddr_host remote), (''SS_REMOTE_PORT'', show_u16 (ServerAddr_port remote)),
                 (''SS_LOCAL_HOST'', show_ip (sock_ip local)), (''SS_LOCAL_PORT'', show_u16 (sock_port local))]
        @ (case pc_plugin_opt plugin of Some opt \<Rightarrow> [(''SS_PLUGIN_OPTIONS'', opt)] | None \<Rightarrow> [])\<rparr>"

definition obfs_plugin_cmd :: "PluginConfig \<Rightarrow> ServerAddr \<Rightarrow> socket_addr \<Rightarrow> PluginMode \<Rightarrow> Command_line" where
  "obfs_plugin_cmd plugin remote local mode =
     \<lparr>cmd_program = pc_plugin plugin,
      cmd_args =
        [''--data-dir'', ''/tmp/'' @ pc_plugin plugin @ ''_'' @ ServerAddr_display remote @ ''_'' @ show_socket_addr local]
        @ (case pc_plugin_opt plugin of Some opt \<Rightarrow> split_on CHR '' '' opt | None \<Rightarrow> [])
        @ (case mode of
             PluginModeClient \<Rightarrow> [''--dest'', ServerAddr_display remote, ''client'', show_socket_addr local]
           | PluginModeServer \<Rightarrow> [''--dest'', show_socket_addr local, ''server'', ServerAddr_display remote]),
      cmd_env = []\<rparr>"

definition plugin_cmd :: "PluginConfig \<Rightarrow> ServerAddr \<Rightarrow> socket_addr \<Rightarrow> PluginMode \<Rightarrow> Command_line" where
  "plugin_cmd plugin remote local mode =
     (if pc_plugin plugin = ''obfsproxy'' then obfs_plugin_cmd plugin remote local mode
      else ss_plugin_cmd plugin remote local mode)"

section \<open>Launching\<close>

text \<open>
  What is asked of the system: a listening socket and its address, a child process \<open>'p\<close>, and whether a
  connection attempt succeeds.
\<close>

record ('w, 'h, 'p) plugin_os =
  po_bind :: "socket_addr \<Rightarrow> 'w \<Rightarrow> (io_error + 'h) \<times> 'w"
  po_local_addr :: "'h \<Rightarrow> 'w \<Rightarrow> (io_error + socket_addr) \<times> 'w"
  po_spawn :: "Command_line \<Rightarrow> 'w \<Rightarrow> (io_error + 'p) \<times> 'w"

definition get_local_port :: "('w, 'h, 'p) plugin_os \<Rightarrow> 'w \<Rightarrow> (io_error + u16) \<times> 'w" where
  "get_local_port P w =
     (case po_bind P (SocketAddrV4 (Ipv4Addr 0 0 0 0) 0) w of
        (Inl e, w) \<Rightarrow> (Inl e, w)
      | (Inr listener, w) \<Rightarrow> map_prod (map_sum id sock_port) id (po_local_addr P listener w))"

definition start_plugin ::
    "('w, 'h, 'p) plugin_os \<Rightarrow> PluginConfig \<Rightarrow> ServerAddr \<Rightarrow> socket_addr \<Rightarrow> PluginMode \<Rightarrow> 'w \<Rightarrow> (io_error + 'p) \<times> 'w" where
  "start_plugin P plugin remote local mode w = po_spawn P (plugin_cmd plugin remote local mode) w"

text \<open>The loop over the servers: the servers with their plugins' addresses and the started processes.\<close>

definition launch_plugin ::
    "('w, 'h, 'p) plugin_os \<Rightarrow> PluginMode \<Rightarrow> PluginConfig \<Rightarrow> ServerConfig \<Rightarrow> 'w \<Rightarrow> (io_error + ServerConfig \<times> 'p) \<times> 'w" where
  "launch_plugin P mode c svr w =
     (case get_local_port P w of
        (Inl e, w) \<Rightarrow> (Inl e, w)
      | (Inr port, w) \<Rightarrow>
          let local_addr = SocketAddrV4 (Ipv4Addr 127 0 0 1) port in
          (case start_plugin P c (sc_addr svr) local_addr mode w of
             (Inl e, w) \<Rightarrow> (Inl e, w)
           | (Inr process, w) \<Rightarrow> (Inr (set_plugin_addr svr (SvrSocketAddr local_addr), process), w)))"

fun launch_servers ::
    "('w, 'h, 'p) plugin_os \<Rightarrow> PluginMode \<Rightarrow> ServerConfig list \<Rightarrow> 'w \<Rightarrow> (io_error + ServerConfig list \<times> 'p list) \<times> 'w" where
  "launch_servers P mode [] w = (Inr ([], []), w)"
| "launch_servers P mode (svr # svrs) w =
     (case sc_plugin svr of
        None \<Rightarrow> map_prod (map_sum id (\<lambda>(svrs, ps). (svr # svrs, ps))) id (launch_servers P mode svrs w)
      | Some c \<Rightarrow>
          (case launch_plugin P mode c svr w of
             (Inl e, w) \<Rightarrow> (Inl e, w)
           | (Inr (svr, process), w) \<Rightarrow>
               map_prod (map_sum id (\<lambda>(svrs, ps). (svr # svrs, process # ps))) id (launch_servers P mode svrs w)))"

definition launch_plugins ::
    "('w, 'h, 'p) plugin_os \<Rightarrow> PluginMode \<Rightarrow> ('r, 's, 'x) Config \<Rightarrow> 'w \<Rightarrow>
     ((io_error + ('r, 's, 'x) Config \<times> 'p list) \<times> 'w) rust" where
  "launch_plugins P mode config w =
     (case launch_servers P mode (cfg_server config) w of
        (Inl e, w) \<Rightarrow> Ret (Inl e, w)
      | (Inr (svrs, plugins), w) \<Rightarrow>
          if plugins = [] then Panic else Ret (Inr (config\<lparr>cfg_server := svrs\<rparr>, plugins), w))"

section \<open>Waiting\<close>

text \<open>The end of the first process that ends, by its exit status or an error of waiting for it.\<close>

definition Plugins_into_future :: "(io_error + string) option \<Rightarrow> (io_error + unit) rust" where
  "Plugins_into_future first =
     (case first of
        Some (Inr first_plugin_exit_status) \<Rightarrow>
          Ret (Inl (IoError OtherKind (''plugin exited unexpectedly with '' @ first_plugin_exit_status)))
      | Some (Inl first_plugin_error) \<Rightarrow> Ret (Inl first_plugin_error)
      | None \<Rightarrow> Panic)"

text \<open>
  \<open>connects addr r\<close> tells whether attempt \<open>r\<close> to connect to \<open>addr\<close> succeeds. The waits of all servers run
  together: \<open>try_join_all\<close> is the function of the \<^verbatim>\<open>futures\<close> crate on their results.
\<close>

definition wait_plugin :: "(socket_addr \<Rightarrow> nat \<Rightarrow> bool) \<Rightarrow> socket_addr \<Rightarrow> io_error + unit" where
  "wait_plugin connects addr =
     (if list_ex (connects addr) [0..<10] then Inr ()
      else Inl (IoError OtherKind (''failed to connect plugin '' @ CHR 0x22 # show_socket_addr addr @ [CHR 0x22])))"

fun plugin_waits :: "(socket_addr \<Rightarrow> nat \<Rightarrow> bool) \<Rightarrow> ServerConfig list \<Rightarrow> (io_error + unit) list rust" where
  "plugin_waits connects [] = Ret []"
| "plugin_waits connects (svr # svrs) =
     (case sc_plugin_addr svr of
        None \<Rightarrow> plugin_waits connects svrs
      | Some (SvrSocketAddr a) \<Rightarrow>
          rust_bind (plugin_waits connects svrs) (\<lambda>v. Ret (wait_plugin connects a # v))
      | Some (SvrDomainName _ _) \<Rightarrow> Panic)"

definition check_plugins_started ::
    "((io_error + unit) list \<Rightarrow> io_error + unit list) \<Rightarrow> (socket_addr \<Rightarrow> nat \<Rightarrow> bool) \<Rightarrow> ('r, 's, 'x) Config \<Rightarrow>
     (io_error + unit) rust" where
  "check_plugins_started try_join_all connects config =
     (if \<not> has_server_plugins config then Ret (Inr ())
      else rust_bind (plugin_waits connects (cfg_server config)) (\<lambda>v. Ret (map_sum id (\<lambda>_. ()) (try_join_all v))))"

section \<open>Launched plugins\<close>

text \<open>A plugin process \<open>p\<close> stands between a server and the loopback address that replaces its own.\<close>

definition loopback :: "u16 \<Rightarrow> socket_addr" where
  "loopback port = SocketAddrV4 (Ipv4Addr 127 0 0 1) port"

definition bridged :: "('w, 'h, 'p) plugin_os \<Rightarrow> PluginMode \<Rightarrow> ServerConfig \<Rightarrow> ServerConfig \<Rightarrow> 'p \<Rightarrow> bool" where
  "bridged P mode svr svr' p \<longleftrightarrow>
     (\<exists>c port w w'. sc_plugin svr = Some c \<and> svr' = svr\<lparr>sc_plugin_addr := Some (SvrSocketAddr (loopback port))\<rparr> \<and>
        po_spawn P (plugin_cmd c (sc_addr svr) (loopback port) mode) w = (Inr p, w'))"

definition launched :: "('w, 'h, 'p) plugin_os \<Rightarrow> PluginMode \<Rightarrow> ServerConfig list \<Rightarrow> ServerConfig list \<Rightarrow> 'p list \<Rightarrow> bool" where
  "launched P mode svrs svrs' ps \<longleftrightarrow>
     list_all2 (\<lambda>svr svr'. if sc_plugin svr = None then svr' = svr else \<exists>p \<in> set ps. bridged P mode svr svr' p) svrs svrs'
     \<and> length ps = length (filter (\<lambda>svr. sc_plugin svr \<noteq> None) svrs)"

lemma launch_plugin_bridged:
  assumes "launch_plugin P mode c svr w = (Inr (svr', p), w')" "sc_plugin svr = Some c"
  shows "bridged P mode svr svr' p"
  using assms
  by (auto simp: launch_plugin_def bridged_def start_plugin_def set_plugin_addr_def loopback_def Let_def
      split: prod.splits sum.splits)

lemma map_result_Inr_iff:
  "map_prod (map_sum id f) id r = (Inr y, w) \<longleftrightarrow> (\<exists>x. r = (Inr x, w) \<and> y = f x)"
  by (cases r; cases "fst r") auto

lemma launch_servers_launched:
  "launch_servers P mode svrs w = (Inr (svrs', ps), w') \<Longrightarrow> launched P mode svrs svrs' ps"
proof (induction svrs arbitrary: w svrs' ps)
  case Nil
  then show ?case by (simp add: launched_def)
next
  case (Cons svr svrs)
  show ?case
  proof (cases "sc_plugin svr")
    case None
    with Cons.prems obtain rest where "launch_servers P mode svrs w = (Inr (rest, ps), w')" "svrs' = svr # rest"
      by (auto simp: map_result_Inr_iff)
    with Cons.IH None show ?thesis by (fastforce simp: launched_def)
  next
    case (Some c)
    with Cons.prems obtain svr1 p1 w1 rest ps1 where one: "launch_plugin P mode c svr w = (Inr (svr1, p1), w1)"
      and rest: "launch_servers P mode svrs w1 = (Inr (rest, ps1), w')" "svrs' = svr1 # rest" "ps = p1 # ps1"
      by (auto simp: map_result_Inr_iff split: prod.splits sum.splits)
    from Cons.IH [OF rest(1)] launch_plugin_bridged [OF one Some] Some rest(2,3) show ?thesis
      by (auto simp: launched_def elim!: list_all2_mono split: if_splits)
  qed
qed

lemma launched_external_addr:
  assumes "launched P mode svrs svrs' ps" "i < length svrs" "sc_plugin (svrs ! i) = Some c"
  shows "\<exists>port p w w'. external_addr (svrs' ! i) = SvrSocketAddr (loopback port) \<and> p \<in> set ps \<and>
    po_spawn P (plugin_cmd c (sc_addr (svrs ! i)) (loopback port) mode) w = (Inr p, w')"
proof -
  from assms obtain p where "p \<in> set ps" "bridged P mode (svrs ! i) (svrs' ! i) p"
    by (fastforce simp: launched_def list_all2_conv_all_nth)
  with assms(3) show ?thesis by (fastforce simp: bridged_def external_addr_def)
qed

lemma launch_plugins_launched:
  assumes "launch_plugins P mode config w = Ret (Inr (config', ps), w')"
  shows "config' = config\<lparr>cfg_server := cfg_server config'\<rparr>"
    and "launched P mode (cfg_server config) (cfg_server config') ps"
  using assms by (auto simp: launch_plugins_def launch_servers_launched split: prod.splits sum.splits if_splits)

text \<open>With at least one plugin in the configuration neither the launch nor the wait panics.\<close>

lemma launch_plugins_no_panic: "has_server_plugins config \<Longrightarrow> launch_plugins P mode config w \<noteq> Panic"
proof
  assume plug: "has_server_plugins config" and "launch_plugins P mode config w = Panic"
  then obtain svrs' w' where "launch_servers P mode (cfg_server config) w = (Inr (svrs', []), w')"
    by (auto simp: launch_plugins_def split: prod.splits sum.splits if_splits)
  then have "launched P mode (cfg_server config) svrs' []" by (rule launch_servers_launched)
  with plug show False by (auto simp: launched_def has_server_plugins_def list_ex_iff filter_empty_conv)
qed

definition plugin_addrs_ok :: "ServerConfig list \<Rightarrow> bool" where
  "plugin_addrs_ok = list_all (\<lambda>svr. case sc_plugin_addr svr of Some (SvrDomainName _ _) \<Rightarrow> False | _ \<Rightarrow> True)"

lemma launched_plugin_addrs_ok:
  assumes "launched P mode svrs svrs' ps" "plugin_addrs_ok svrs"
  shows "plugin_addrs_ok svrs'"
proof -
  have "case sc_plugin_addr (svrs' ! i) of Some (SvrDomainName _ _) \<Rightarrow> False | _ \<Rightarrow> True" if "i < length svrs'" for i
    using assms that
    by (cases "sc_plugin (svrs ! i)")
       (fastforce simp: launched_def plugin_addrs_ok_def list_all2_conv_all_nth list_all_length bridged_def)+
  then show ?thesis by (simp add: plugin_addrs_ok_def list_all_length)
qed

lemma plugin_waits_no_panic: "plugin_addrs_ok svrs \<Longrightarrow> plugin_waits connects svrs \<noteq> Panic"
  by (induction svrs) (auto simp: plugin_addrs_ok_def split: option.splits ServerAddr.splits)

lemma check_plugins_started_no_panic:
  "plugin_addrs_ok (cfg_server config) \<Longrightarrow> check_plugins_started join connects config \<noteq> Panic"
  by (auto simp: check_plugins_started_def rust_bind_Panic_iff dest: plugin_waits_no_panic)

end
