(* ===== verification/Startup.thy ===== *)
theory Startup
  imports Udp_Local Server_Manager Http_Local Plugins
begin

text \<open>
  Starting: the tasks of a local server, \<^verbatim>\<open>src/relay/local.rs\<close>, and of a remote server, \<^verbatim>\<open>src/relay/server.rs\<close>, with
  the listeners that the tasks open: the beginnings of the \<^verbatim>\<open>run\<close> functions of \<^verbatim>\<open>src/relay/tcprelay\<close> and
  \<^verbatim>\<open>src/relay/udprelay\<close>. A panic is the value \<open>Panic\<close>, so that \<^verbatim>\<open>expect\<close>, \<^verbatim>\<open>assert\<close> and \<^verbatim>\<open>unreachable\<close> are all visible.
\<close>

section \<open>Listeners\<close>

record ('w, 'h) listen_os =
  li_tcp_bind :: "socket_addr \<Rightarrow> 'w \<Rightarrow> (io_error + 'h) \<times> 'w"
  li_tcp_bind_redir :: "RedirType \<Rightarrow> socket_addr \<Rightarrow> 'w \<Rightarrow> (io_error + 'h) \<times> 'w"
  li_udp_bind :: "socket_addr \<Rightarrow> 'w \<Rightarrow> (io_error + 'h) \<times> 'w"
  li_udp_bind_redir :: "RedirType \<Rightarrow> socket_addr \<Rightarrow> 'w \<Rightarrow> (io_error + 'h) \<times> 'w"
  li_local_addr :: "'h \<Rightarrow> io_error + socket_addr"

text \<open>
  The steps that all local servers share: the address to listen on comes from the configuration and is resolved; a
  TCP listener that cannot be bound panics, a UDP socket gives the error; the address that was bound must be known.
\<close>

definition local_bind_addr :: "resolver \<Rightarrow> ('b, 'r, 's, 'x, 'l) Context \<Rightarrow> (io_error + socket_addr) rust" where
  "local_bind_addr resolve context =
     rust_bind (expect (cfg_local (ctx_config context))) (\<lambda>local_addr. resolve_bind_addr resolve local_addr)"

definition bound_addr :: "('w, 'h) listen_os \<Rightarrow> 'h \<Rightarrow> socket_addr rust" where
  "bound_addr LI listener = (case li_local_addr LI listener of Inl _ \<Rightarrow> Panic | Inr a \<Rightarrow> Ret a)"

definition bind_or_panic ::
    "('w, 'h) listen_os \<Rightarrow> (io_error + 'h) \<times> 'w \<Rightarrow> (('h \<times> socket_addr) \<times> 'w) rust" where
  "bind_or_panic LI bound =
     (case bound of
        (Inl _, w) \<Rightarrow> Panic
      | (Inr listener, w) \<Rightarrow> rust_bind (bound_addr LI listener) (\<lambda>a. Ret ((listener, a), w)))"

definition bind_or_error ::
    "('w, 'h) listen_os \<Rightarrow> (io_error + 'h) \<times> 'w \<Rightarrow> ((io_error + 'h \<times> socket_addr) \<times> 'w) rust" where
  "bind_or_error LI bound =
     (case bound of
        (Inl e, w) \<Rightarrow> Ret (Inl e, w)
      | (Inr listener, w) \<Rightarrow> rust_bind (bound_addr LI listener) (\<lambda>a. Ret (Inr (listener, a), w)))"

datatype 'h local_listener =
    Socks5Listener 'h UdpConfig | TunnelListener 'h Address | HttpListener 'h | RedirListener 'h RedirType

definition socks5_tcp_start ::
    "('w, 'h) listen_os \<Rightarrow> resolver \<Rightarrow> ('b, 'r, 's, 'x, 'l) Context \<Rightarrow> 'w \<Rightarrow> ((io_error + 'h local_listener) \<times> 'w) rust" where
  "socks5_tcp_start LI resolve context w =
     rust_bind (local_bind_addr resolve context) (\<lambda>res.
       case res of
         Inl e \<Rightarrow> Ret (Inl e, w)
       | Inr bind_addr \<Rightarrow>
           rust_bind (bind_or_panic LI (li_tcp_bind LI bind_addr w)) (\<lambda>((listener, actual_local_addr), w).
             let udp_conf = \<lparr>uc_enable_udp = enable_udp (cfg_mode (ctx_config context)), uc_client_addr = actual_local_addr\<rparr>
             in Ret (Inr (Socks5Listener listener udp_conf), w)))"

definition tunnel_tcp_start ::
    "('w, 'h) listen_os \<Rightarrow> resolver \<Rightarrow> ('b, 'r, 's, 'x, 'l) Context \<Rightarrow> 'w \<Rightarrow> ((io_error + 'h local_listener) \<times> 'w) rust" where
  "tunnel_tcp_start LI resolve context w =
     (if \<not> enable_tcp (cfg_mode (ctx_config context)) then Panic
      else
        rust_bind (local_bind_addr resolve context) (\<lambda>res.
          case res of
            Inl e \<Rightarrow> Ret (Inl e, w)
          | Inr bind_addr \<Rightarrow>
              rust_bind (bind_or_panic LI (li_tcp_bind LI bind_addr w)) (\<lambda>((listener, _), w).
                rust_bind (expect (cfg_forward (ctx_config context))) (\<lambda>forward_addr.
                  Ret (Inr (TunnelListener listener forward_addr), w)))))"

definition http_tcp_start ::
    "('w, 'h) listen_os \<Rightarrow> resolver \<Rightarrow> ('b, 'r, 's, 'x, 'l) Context \<Rightarrow> 'w \<Rightarrow> ((io_error + 'h local_listener) \<times> 'w) rust" where
  "http_tcp_start LI resolve context w =
     rust_bind (local_bind_addr resolve context) (\<lambda>res.
       case res of
         Inl e \<Rightarrow> Ret (Inl e, w)
       | Inr bind_addr \<Rightarrow>
           (case li_tcp_bind LI bind_addr w of
              (Inl _, w) \<Rightarrow> Panic
            | (Inr listener, w) \<Rightarrow> Ret (Inr (HttpListener listener), w)))"

definition redir_tcp_start ::
    "('w, 'h) listen_os \<Rightarrow> resolver \<Rightarrow> ('b, 'r, 's, 'x, 'l) Context \<Rightarrow> 'w \<Rightarrow> ((io_error + 'h local_listener) \<times> 'w) rust" where
  "redir_tcp_start LI resolve context w =
     rust_bind (local_bind_addr resolve context) (\<lambda>res.
       case res of
         Inl e \<Rightarrow> Ret (Inl e, w)
       | Inr bind_addr \<Rightarrow>
           let redir_ty = cfg_tcp_redir (ctx_config context) in
           rust_bind (bind_or_panic LI (li_tcp_bind_redir LI redir_ty bind_addr w)) (\<lambda>((listener, _), w).
             Ret (Inr (RedirListener listener redir_ty), w)))"

definition tcp_local_start ::
    "('w, 'h) listen_os \<Rightarrow> resolver \<Rightarrow> ('b, 'r, 's, 'x, 'l) Context \<Rightarrow> 'w \<Rightarrow> ((io_error + 'h local_listener) \<times> 'w) rust" where
  "tcp_local_start LI resolve context w =
     (case cfg_config_type (ctx_config context) of
        TunnelLocal \<Rightarrow> tunnel_tcp_start LI resolve context w
      | Socks5Local \<Rightarrow> socks5_tcp_start LI resolve context w
      | HttpLocal \<Rightarrow> http_tcp_start LI resolve context w
      | RedirLocal \<Rightarrow> redir_tcp_start LI resolve context w
      | Server \<Rightarrow> Panic
      | Manager \<Rightarrow> Panic)"

text \<open>One round of the accept loops: the server for the new connection, or the error that ends the loop.\<close>

definition local_accept :: "io_error + 'c \<Rightarrow> 'f BestServer \<Rightarrow> (io_error + 'c \<times> nat) rust" where
  "local_accept conn servers =
     (case conn of
        Inl e \<Rightarrow> Ret (Inl e)
      | Inr socket \<Rightarrow> rust_bind (pick_server servers) (\<lambda>server. Ret (Inr (socket, server))))"
section \<open>Transparent TCP proxy\<close>

text \<open>
  A redirected client is connected to its original destination; \<open>dst\<close> is the outcome of asking the socket for it.
  \<open>None\<close> is a client that is dropped with a logged error.
\<close>

definition handle_redir_client ::
    "('c, 'b, 'n, 'm, 'r, 'q, 'x, 'l, 'k, 'w) tcp_env \<Rightarrow> 'j client_io \<Rightarrow> ServerConfig \<Rightarrow> 'j \<Rightarrow> socket_addr \<Rightarrow>
     ('b, 'r, 'q, 'x, 'l) Context \<Rightarrow> 'w \<Rightarrow> ((io_error + ('c, 'k) ProxyStream) \<times> ('b, 'r, 'q, 'x, 'l) Context \<times> 'w) rust option" where
  "handle_redir_client E I svr_cfg s daddr context w =
     (case ci_peer_addr I s of
        Inl e \<Rightarrow> Some (Ret (Inl e, context, w))
      | Inr client_addr \<Rightarrow>
          map_option (\<lambda>x. rust_bind x (\<lambda>(res, context, w). Ret (map_err pse_inner res, context, w)))
            (ProxyStream_connect E context svr_cfg (SocketAddress daddr) w))"

definition redir_client ::
    "('c, 'b, 'n, 'm, 'r, 'q, 'x, 'l, 'k, 'w) tcp_env \<Rightarrow> 'j client_io \<Rightarrow> ServerConfig \<Rightarrow> 'j \<Rightarrow> io_error + socket_addr \<Rightarrow>
     ('b, 'r, 'q, 'x, 'l) Context \<Rightarrow> 'w \<Rightarrow>
     ((io_error + ('c, 'k) ProxyStream) option \<times> ('b, 'r, 'q, 'x, 'l) Context \<times> 'w) rust option" where
  "redir_client E I svr_cfg s dst context w =
     (case dst of
        Inl _ \<Rightarrow> Some (Ret (None, context, w))
      | Inr dst_addr \<Rightarrow>
          map_option (\<lambda>x. rust_bind x (\<lambda>(res, context, w). Ret (Some res, context, w)))
            (handle_redir_client E I svr_cfg s dst_addr context w))"

section \<open>UDP listeners\<close>

definition udp_local_start ::
    "('w, 'h) listen_os \<Rightarrow> resolver \<Rightarrow> ('b, 'r, 's, 'x, 'l) Context \<Rightarrow> 'w \<Rightarrow> ((io_error + 'h \<times> socket_addr) \<times> 'w) rust" where
  "udp_local_start LI resolve context w =
     rust_bind (local_bind_addr resolve context) (\<lambda>res.
       case res of
         Inl e \<Rightarrow> Ret (Inl e, w)
       | Inr bind_addr \<Rightarrow> bind_or_error LI (li_udp_bind LI bind_addr w))"

definition tunnel_udp_start ::
    "('w, 'h) listen_os \<Rightarrow> resolver \<Rightarrow> ('b, 'r, 's, 'x, 'l) Context \<Rightarrow> 'w \<Rightarrow> ((io_error + 'h \<times> socket_addr) \<times> 'w) rust" where
  "tunnel_udp_start LI resolve context w =
     rust_bind (udp_local_start LI resolve context w) (\<lambda>(res, w).
       case res of
         Inl e \<Rightarrow> Ret (Inl e, w)
       | Inr l \<Rightarrow> rust_bind (expect (cfg_forward (ctx_config context))) (\<lambda>forward_target. Ret (Inr l, w)))"

definition redir_udp_start ::
    "('w, 'h) listen_os \<Rightarrow> resolver \<Rightarrow> ('b, 'r, 's, 'x, 'l) Context \<Rightarrow> 'w \<Rightarrow> ((io_error + 'h \<times> socket_addr) \<times> 'w) rust" where
  "redir_udp_start LI resolve context w =
     rust_bind (local_bind_addr resolve context) (\<lambda>res.
       case res of
         Inl e \<Rightarrow> Ret (Inl e, w)
       | Inr bind_addr \<Rightarrow> bind_or_error LI (li_udp_bind_redir LI (cfg_udp_redir (ctx_config context)) bind_addr w))"

definition udp_start ::
    "('w, 'h) listen_os \<Rightarrow> resolver \<Rightarrow> ('b, 'r, 's, 'x, 'l) Context \<Rightarrow> 'w \<Rightarrow> ((io_error + 'h \<times> socket_addr) \<times> 'w) rust" where
  "udp_start LI resolve context w =
     (case cfg_config_type (ctx_config context) of
        TunnelLocal \<Rightarrow> tunnel_udp_start LI resolve context w
      | Socks5Local \<Rightarrow> udp_local_start LI resolve context w
      | RedirLocal \<Rightarrow> redir_udp_start LI resolve context w
      | HttpLocal \<Rightarrow> Panic
      | Server \<Rightarrow> Panic
      | Manager \<Rightarrow> Panic)"

section \<open>The listeners of a remote server\<close>

text \<open>
  TCP: every server listens on its own address or the address of its plugin and counts for its own port. No server
  at all is \<^verbatim>\<open>unreachable\<close>.
\<close>

fun tcp_server_listeners ::
    "('w, 'h) listen_os \<Rightarrow> resolver \<Rightarrow> MultiServerFlowStatistic \<Rightarrow> ServerConfig list \<Rightarrow> 'w \<Rightarrow>
     ((io_error + ('h \<times> socket_addr \<times> ServerFlowStatistic) list) \<times> 'w) rust" where
  "tcp_server_listeners LI resolve flow_stat [] w = Ret (Inr [], w)"
| "tcp_server_listeners LI resolve flow_stat (svr_cfg # svrs) w =
     rust_bind (resolve_bind_addr resolve (external_addr svr_cfg)) (\<lambda>res.
       case res of
         Inl e \<Rightarrow> Ret (Inl e, w)
       | Inr addr \<Rightarrow>
           rust_bind (bind_or_panic LI (li_tcp_bind LI addr w)) (\<lambda>((listener, local_addr), w).
             rust_bind (expect (MultiServerFlowStatistic_get flow_stat (ServerAddr_port (sc_addr svr_cfg)))) (\<lambda>stat.
               rust_bind (tcp_server_listeners LI resolve flow_stat svrs w) (\<lambda>(res, w).
                 Ret (map_sum id (\<lambda>ls. (listener, local_addr, stat) # ls) res, w)))))"

definition tcp_server_start ::
    "('w, 'h) listen_os \<Rightarrow> resolver \<Rightarrow> MultiServerFlowStatistic \<Rightarrow> ('b, 'r, 's, 'x, 'l) Context \<Rightarrow> 'w \<Rightarrow>
     ((io_error + ('h \<times> socket_addr \<times> ServerFlowStatistic) list) \<times> 'w) rust" where
  "tcp_server_start LI resolve flow_stat context w =
     rust_bind (tcp_server_listeners LI resolve flow_stat (cfg_server (ctx_config context)) w) (\<lambda>(res, w).
       if res = Inr [] then Panic else Ret (res, w))"

text \<open>UDP: the future of every server, \<^verbatim>\<open>listen\<close>, binds to the server's own address.\<close>

definition udp_listen_start ::
    "('w, 'h) listen_os \<Rightarrow> resolver \<Rightarrow> ServerConfig \<Rightarrow> 'w \<Rightarrow> ((io_error + 'h \<times> socket_addr) \<times> 'w) rust" where
  "udp_listen_start LI resolve svr_cfg w =
     rust_bind (resolve_bind_addr resolve (sc_addr svr_cfg)) (\<lambda>res.
       case res of
         Inl e \<Rightarrow> Ret (Inl e, w)
       | Inr listen_addr \<Rightarrow> bind_or_error LI (li_udp_bind LI listen_addr w))"

fun udp_server_futures :: "MultiServerFlowStatistic \<Rightarrow> ServerConfig list \<Rightarrow> (ServerConfig \<times> ServerFlowStatistic) list rust" where
  "udp_server_futures flow_stat [] = Ret []"
| "udp_server_futures flow_stat (svr_cfg # svrs) =
     rust_bind (expect (MultiServerFlowStatistic_get flow_stat (ServerAddr_port (sc_addr svr_cfg)))) (\<lambda>stat.
       rust_bind (udp_server_futures flow_stat svrs) (\<lambda>fs. Ret ((svr_cfg, stat) # fs)))"

definition udp_server_start ::
    "MultiServerFlowStatistic \<Rightarrow> ('b, 'r, 's, 'x, 'l) Context \<Rightarrow> (ServerConfig \<times> ServerFlowStatistic) list rust" where
  "udp_server_start flow_stat context =
     rust_bind (udp_server_futures flow_stat (cfg_server (ctx_config context))) (\<lambda>fs. if fs = [] then Panic else Ret fs)"
section \<open>The tasks of a local server\<close>

datatype 'p relay_task = PluginsTask "'p list" | TcpTask | UdpTask | DnsRelayTask | FlowReportTask | ManagerReportTask

definition limit_nofile :: "'w mgr_os \<Rightarrow> ('r, 's, 'x) Config \<Rightarrow> 'w \<Rightarrow> (io_error + unit) \<times> 'w" where
  "limit_nofile OS config w = (case cfg_nofile config of None \<Rightarrow> (Inr (), w) | Some nofile \<Rightarrow> os_set_nofile OS nofile w)"

definition local_enable_tcp :: "('r, 's, 'x) Config \<Rightarrow> bool" where
  "local_enable_tcp config =
     (case cfg_config_type config of
        Socks5Local \<Rightarrow> True
      | TunnelLocal \<Rightarrow> enable_tcp (cfg_mode config)
      | HttpLocal \<Rightarrow> True
      | RedirLocal \<Rightarrow> enable_tcp (cfg_mode config)
      | _ \<Rightarrow> False)"

definition local_enable_udp :: "('r, 's, 'x) Config \<Rightarrow> bool" where
  "local_enable_udp config =
     (case cfg_config_type config of
        Socks5Local \<Rightarrow> enable_udp (cfg_mode config)
      | TunnelLocal \<Rightarrow> enable_udp (cfg_mode config)
      | RedirLocal \<Rightarrow> enable_udp (cfg_mode config)
      | _ \<Rightarrow> False)"

text \<open>
  The libraries and the system as seen by a start: the bloom filter and the cache of the context, the system
  calls, the outcome of each connection attempt to a plugin, \<^verbatim>\<open>try_join_all\<close>, and the compile-time choices.
\<close>

record ('b, 'l, 'w, 'h, 'p) start_env =
  se_bloom :: "'b bloom_ops"
  se_cache :: "(ip_addr, string, 'l) lru_ops"
  se_os :: "'w mgr_os"
  se_plugins :: "('w, 'h, 'p) plugin_os"
  se_try_join_all :: "(io_error + unit) list \<Rightarrow> io_error + unit list"
  se_connects :: "socket_addr \<Rightarrow> nat \<Rightarrow> bool"
  se_dns_relay :: bool
  se_android :: bool

text \<open>The plugins of a local server: they are launched, then all of them must listen.\<close>

definition local_plugins ::
    "('b, 'l, 'w, 'h, 'p) start_env \<Rightarrow> ('r, 's, 'x) Config \<Rightarrow> 'w \<Rightarrow>
     ((io_error + ('r, 's, 'x) Config \<times> 'p relay_task list) \<times> 'w) rust" where
  "local_plugins SE config w =
     (if has_server_plugins config then
        rust_bind (launch_plugins (se_plugins SE) PluginModeClient config w) (\<lambda>(res, w).
          case res of
            Inl e \<Rightarrow> Ret (Inl e, w)
          | Inr (config, plugins) \<Rightarrow>
              rust_bind (check_plugins_started (se_try_join_all SE) (se_connects SE) config) (\<lambda>started.
                case started of
                  Inl e \<Rightarrow> Ret (Inl e, w)
                | Inr _ \<Rightarrow> Ret (Inr (config, [PluginsTask plugins]), w)))
      else Ret (Inr (config, []), w))"

text \<open>\<^verbatim>\<open>run\<close> of \<^verbatim>\<open>local.rs\<close> up to the wait for its tasks.\<close>

definition local_start ::
    "('b, 'l, 'w, 'h, 'p) start_env \<Rightarrow> ('r, 's, 'x) Config \<Rightarrow> 'w \<Rightarrow>
     ((io_error + ('b, 'r, 's, 'x, 'l) Context \<times> 'p relay_task list) \<times> 'w) rust" where
  "local_start SE config w =
     (if \<not> is_local (cfg_config_type config) then Panic
      else
        case limit_nofile (se_os SE) config w of
          (Inl err, w) \<Rightarrow> Ret (Inl err, w)
        | (Inr _, w) \<Rightarrow>
            rust_bind
              (if local_enable_tcp config then
                 rust_bind (local_plugins SE config w) (\<lambda>(res, w).
                   Ret (map_sum id (\<lambda>(config, vf). (Context_new (se_bloom SE) (se_cache SE) config, vf @ [TcpTask])) res, w))
               else Ret (Inr (Context_new (se_bloom SE) (se_cache SE) config, []), w)) (\<lambda>(res, w).
              case res of
                Inl e \<Rightarrow> Ret (Inl e, w)
              | Inr (context, vf) \<Rightarrow>
                  Ret (Inr (context,
                            vf @ (if local_enable_udp config then [UdpTask] else [])
                               @ (if se_dns_relay SE then [DnsRelayTask] else [])
                               @ (if se_android SE \<and> cfg_stat_path (ctx_config context) \<noteq> None then [FlowReportTask] else [])), w)))"

text \<open>
  Waiting: \<^verbatim>\<open>select_all\<close> panics without a task. \<open>ended\<close> tells whether some task ends; the result is then always an
  error, and the detached tasks are told to stop.
\<close>

definition wait_tasks ::
    "bool \<Rightarrow> ('b, 'r, 's, 'x, 'l) Context \<Rightarrow> 'p relay_task list \<Rightarrow> ((io_error + unit) \<times> ('b, 'r, 's, 'x, 'l) Context) option rust" where
  "wait_tasks ended context vf =
     (if vf = [] then Panic
      else Ret (if ended then Some (Inl (IoError OtherKind ''server exited unexpectly''), set_server_stopped context) else None))"

definition local_run ::
    "('b, 'l, 'w, 'h, 'p) start_env \<Rightarrow> bool \<Rightarrow> ('r, 's, 'x) Config \<Rightarrow> 'w \<Rightarrow> (io_error + unit) option rust" where
  "local_run SE ended config w =
     rust_bind (local_start SE config w) (\<lambda>(res, w).
       case res of
         Inl e \<Rightarrow> Ret (Some (Inl e))
       | Inr (context, vf) \<Rightarrow> rust_bind (wait_tasks ended context vf) (\<lambda>r. Ret (map_option fst r)))"

section \<open>The tasks of a remote server\<close>

definition server_plugins ::
    "('b, 'l, 'w, 'h, 'p) start_env \<Rightarrow> ('r, 's, 'x) Config \<Rightarrow> 'w \<Rightarrow>
     ((io_error + ('r, 's, 'x) Config \<times> 'p relay_task list) \<times> 'w) rust" where
  "server_plugins SE config w =
     (if has_server_plugins config then
        rust_bind (launch_plugins (se_plugins SE) PluginModeClient config w) (\<lambda>(res, w).
          Ret (map_sum id (\<lambda>(config, plugins). (config, [PluginsTask plugins])) res, w))
      else Ret (Inr (config, []), w))"

definition server_start ::
    "('b, 'l, 'w, 'h, 'p) start_env \<Rightarrow> ('r, 's, 'x) Config \<Rightarrow> 'w \<Rightarrow>
     ((io_error + ('b, 'r, 's, 'x, 'l) Context \<times> 'p relay_task list) \<times> 'w) rust" where
  "server_start SE config w =
     (if \<not> is_server (cfg_config_type config) then Panic
      else
        case limit_nofile (se_os SE) config w of
          (Inl err, w) \<Rightarrow> Ret (Inl err, w)
        | (Inr _, w) \<Rightarrow>
            rust_bind
              (if enable_tcp (cfg_mode config) then
                 rust_bind (server_plugins SE config w) (\<lambda>(res, w).
                   Ret (map_sum id (\<lambda>(config, vf). (Context_new (se_bloom SE) (se_cache SE) config, vf @ [TcpTask])) res, w))
               else Ret (Inr (Context_new (se_bloom SE) (se_cache SE) config, []), w)) (\<lambda>(res, w).
              case res of
                Inl e \<Rightarrow> Ret (Inl e, w)
              | Inr (context, vf) \<Rightarrow>
                  Ret (Inr (context,
                            vf @ (if enable_udp (cfg_mode config) then [UdpTask] else [])
                               @ (if cfg_manager_address (ctx_config context) \<noteq> None then [ManagerReportTask] else [])), w)))"

definition server_run ::
    "('b, 'l, 'w, 'h, 'p) start_env \<Rightarrow> bool \<Rightarrow> ('r, 's, 'x) Config \<Rightarrow> 'w \<Rightarrow> (io_error + unit) option rust" where
  "server_run SE ended config w =
     rust_bind (server_start SE config w) (\<lambda>(res, w).
       case res of
         Inl e \<Rightarrow> Ret (Some (Inl e))
       | Inr (context, vf) \<Rightarrow> rust_bind (wait_tasks ended context vf) (\<lambda>r. Ret (map_option fst r)))"

definition lib_run ::
    "('b, 'l, 'w, 'h, 'p) start_env \<Rightarrow> bool \<Rightarrow> ('r, 's, 'x) Config \<Rightarrow> 'w \<Rightarrow> (io_error + unit) option rust" where
  "lib_run SE ended config w =
     (if is_local (cfg_config_type config) then local_run SE ended config w else server_run SE ended config w)"

section \<open>Reports\<close>

text \<open>The report of a server to its manager. \<open>rounds\<close> are the statistics at the rounds while the server runs.\<close>

definition stat_report :: "u16 \<Rightarrow> ServerFlowStatistic \<Rightarrow> string" where
  "stat_report port fstat = ''stat: {'' @ quoted (show_u16 port) @ '':'' @ show_nat (unat (trans_stat fstat)) @ ''}''"

fun report_servers ::
    "'w mgr_os \<Rightarrow> resolver \<Rightarrow> ManagerDatagram \<Rightarrow> ManagerAddr \<Rightarrow> MultiServerFlowStatistic \<Rightarrow> ServerConfig list \<Rightarrow> 'w \<Rightarrow> 'w rust" where
  "report_servers OS resolve socket manager_addr flow_stat [] w = Ret w"
| "report_servers OS resolve socket manager_addr flow_stat (svr_cfg # svrs) w =
     (let port = ServerAddr_port (sc_addr svr_cfg) in
      case MultiServerFlowStatistic_get flow_stat port of
        None \<Rightarrow> report_servers OS resolve socket manager_addr flow_stat svrs w
      | Some fstat \<Rightarrow>
          rust_bind (send_to_manager OS resolve socket (as_bytes (stat_report port fstat)) manager_addr w) (\<lambda>(_, w).
            report_servers OS resolve socket manager_addr flow_stat svrs w))"

fun report_rounds ::
    "'w mgr_os \<Rightarrow> resolver \<Rightarrow> ManagerDatagram \<Rightarrow> ManagerAddr \<Rightarrow> ServerConfig list \<Rightarrow> MultiServerFlowStatistic list \<Rightarrow> 'w \<Rightarrow> 'w rust" where
  "report_rounds OS resolve socket manager_addr svrs [] w = Ret w"
| "report_rounds OS resolve socket manager_addr svrs (flow_stat # rounds) w =
     rust_bind (report_servers OS resolve socket manager_addr flow_stat svrs w)
       (report_rounds OS resolve socket manager_addr svrs rounds)"

definition manager_report_task ::
    "'w mgr_os \<Rightarrow> resolver \<Rightarrow> ('b, 'r, 's, 'x, 'l) Context \<Rightarrow> MultiServerFlowStatistic list \<Rightarrow> 'w \<Rightarrow> ((io_error + unit) \<times> 'w) rust" where
  "manager_report_task OS resolve context rounds w =
     rust_bind (expect (cfg_manager_address (ctx_config context))) (\<lambda>manager_addr.
       case ManagerDatagram_bind_for OS manager_addr w of
         (Inl e, w) \<Rightarrow> Ret (Inl e, w)
       | (Inr socket, w) \<Rightarrow>
           rust_bind (report_rounds OS resolve socket manager_addr (cfg_server (ctx_config context)) rounds w)
             (\<lambda>w. Ret (Inr (), w)))"
section \<open>Starting without a panic\<close>

lemma local_plugins_no_panic:
  assumes "plugin_addrs_ok (cfg_server config)"
  shows "local_plugins SE config w \<noteq> Panic"
proof
  assume p: "local_plugins SE config w = Panic"
  then have plug: "has_server_plugins config" by (auto simp: local_plugins_def split: if_splits)
  with launch_plugins_no_panic obtain res w1 where "launch_plugins (se_plugins SE) PluginModeClient config w = Ret (res, w1)"
    by (metis rust.exhaust surj_pair)
  with p plug obtain config' ps where launch: "launch_plugins (se_plugins SE) PluginModeClient config w = Ret (Inr (config', ps), w1)"
    and "check_plugins_started (se_try_join_all SE) (se_connects SE) config' = Panic"
    by (auto simp: local_plugins_def rust_bind_Panic_iff split: sum.splits) (metis (full_types) old.sum.exhaust old.unit.exhaust)
  moreover have "plugin_addrs_ok (cfg_server config')"
    using launch_plugins_launched(2) [OF launch] assms by (rule launched_plugin_addrs_ok)
  ultimately show False by (auto dest: check_plugins_started_no_panic)
qed

lemma local_start_no_panic:
  assumes "is_local (cfg_config_type config)" "plugin_addrs_ok (cfg_server config)"
  shows "local_start SE config w \<noteq> Panic"
  using assms local_plugins_no_panic [OF assms(2), of SE]
  by (auto simp: local_start_def rust_bind_Panic_iff split: prod.splits sum.splits if_splits)

lemma server_plugins_no_panic: "server_plugins SE config w \<noteq> Panic"
  by (auto simp: server_plugins_def rust_bind_Panic_iff launch_plugins_no_panic)

lemma server_start_no_panic: "is_server (cfg_config_type config) \<Longrightarrow> server_start SE config w \<noteq> Panic"
  using server_plugins_no_panic [of SE config]
  by (auto simp: server_start_def rust_bind_Panic_iff split: prod.splits sum.splits if_splits)

text \<open>The configuration in the context is the given one but for the addresses of plugins.\<close>

lemma local_plugins_launch:
  assumes "local_plugins SE config w = Ret (Inr (config', vf), w')" "has_server_plugins config"
  obtains ps where "launch_plugins (se_plugins SE) PluginModeClient config w = Ret (Inr (config', ps), w')"
    "vf = [PluginsTask ps]" "check_plugins_started (se_try_join_all SE) (se_connects SE) config' = Ret (Inr ())"
proof -
  from assms obtain res w1 where launch: "launch_plugins (se_plugins SE) PluginModeClient config w = Ret (res, w1)"
    by (auto simp: local_plugins_def rust_bind_Ret_iff)
  with assms obtain config1 ps where res: "res = Inr (config1, ps)"
    by (cases res) (auto simp: local_plugins_def)
  from assms launch res obtain st where st: "check_plugins_started (se_try_join_all SE) (se_connects SE) config1 = Ret st"
    by (auto simp: local_plugins_def rust_bind_Ret_iff)
  with assms launch res that show thesis by (cases st) (auto simp: local_plugins_def)
qed

lemma local_plugins_config:
  assumes "local_plugins SE config w = Ret (Inr (config', vf), w')"
  obtains svrs where "config' = config\<lparr>cfg_server := svrs\<rparr>" "length svrs = length (cfg_server config)"
    "vf = [] \<or> (\<exists>ps. vf = [PluginsTask ps])"
proof (cases "has_server_plugins config")
  case True
  with assms obtain ps where launch: "launch_plugins (se_plugins SE) PluginModeClient config w = Ret (Inr (config', ps), w')"
    and "vf = [PluginsTask ps]"
    by (rule local_plugins_launch)
  with launch_plugins_launched [OF launch] that [of "cfg_server config'"] show thesis
    by (auto simp: launched_def list_all2_lengthD)
next
  case False
  with assms that [of "cfg_server config"] show thesis by (auto simp: local_plugins_def)
qed

lemma local_start_Inr:
  assumes "local_start SE config w = Ret (Inr (context, vf), w')"
  obtains svrs pl where "context = Context_new (se_bloom SE) (se_cache SE) (config\<lparr>cfg_server := svrs\<rparr>)"
    "length svrs = length (cfg_server config)" "pl = [] \<or> (\<exists>ps. pl = [PluginsTask ps])"
    "vf = (if local_enable_tcp config then pl @ [TcpTask] else []) @ (if local_enable_udp config then [UdpTask] else [])
       @ (if se_dns_relay SE then [DnsRelayTask] else [])
       @ (if se_android SE \<and> cfg_stat_path config \<noteq> None then [FlowReportTask] else [])"
proof -
  obtain w1 where lim: "limit_nofile (se_os SE) config w = (Inr (), w1)" and loc: "is_local (cfg_config_type config)"
    using assms by (cases "limit_nofile (se_os SE) config w"; cases "fst (limit_nofile (se_os SE) config w)")
      (auto simp: local_start_def split: if_splits)
  show thesis
  proof (cases "local_enable_tcp config")
    case True
    with assms lim loc obtain r w2 where r: "local_plugins SE config w1 = Ret (r, w2)"
      by (auto simp: local_start_def rust_bind_Ret_iff)
    with assms lim loc True obtain config' pl where pl: "local_plugins SE config w1 = Ret (Inr (config', pl), w2)"
      by (cases r) (auto simp: local_start_def)
    with assms lim loc True have ctx: "context = Context_new (se_bloom SE) (se_cache SE) config'"
      and vf: "vf = pl @ [TcpTask] @ (if local_enable_udp config then [UdpTask] else [])
         @ (if se_dns_relay SE then [DnsRelayTask] else [])
         @ (if se_android SE \<and> cfg_stat_path config' \<noteq> None then [FlowReportTask] else [])"
      by (auto simp: local_start_def Context_new_def)
    obtain svrs where "config' = config\<lparr>cfg_server := svrs\<rparr>" "length svrs = length (cfg_server config)"
      "pl = [] \<or> (\<exists>ps. pl = [PluginsTask ps])" by (rule local_plugins_config [OF pl])
    with True ctx vf that show thesis by simp
  next
    case False
    with assms lim loc that [of "cfg_server config" "[]"] show thesis by (auto simp: local_start_def Context_new_def)
  qed
qed
lemma server_plugins_launch:
  assumes "server_plugins SE config w = Ret (Inr (config', vf), w')" "has_server_plugins config"
  obtains ps where "launch_plugins (se_plugins SE) PluginModeClient config w = Ret (Inr (config', ps), w')"
    "vf = [PluginsTask ps]"
proof -
  from assms obtain res w1 where launch: "launch_plugins (se_plugins SE) PluginModeClient config w = Ret (res, w1)"
    by (auto simp: server_plugins_def rust_bind_Ret_iff)
  with assms that show thesis by (cases res) (auto simp: server_plugins_def)
qed

lemma server_plugins_config:
  assumes "server_plugins SE config w = Ret (Inr (config', vf), w')"
  obtains svrs where "config' = config\<lparr>cfg_server := svrs\<rparr>"
    "list_all2 (\<lambda>svr svr'. sc_addr svr' = sc_addr svr) (cfg_server config) svrs"
    "vf = [] \<or> (\<exists>ps. vf = [PluginsTask ps])"
proof (cases "has_server_plugins config")
  case True
  with assms obtain ps where launch: "launch_plugins (se_plugins SE) PluginModeClient config w = Ret (Inr (config', ps), w')"
    and vf: "vf = [PluginsTask ps]"
    by (rule server_plugins_launch)
  have "list_all2 (\<lambda>svr svr'. sc_addr svr' = sc_addr svr) (cfg_server config) (cfg_server config')"
    using launch_plugins_launched(2) [OF launch]
    by (auto simp: launched_def bridged_def elim!: list_all2_mono split: if_splits)
  with launch_plugins_launched(1) [OF launch] vf that show thesis by blast
next
  case False
  with assms that [of "cfg_server config"] show thesis by (auto simp: server_plugins_def list_all2_same)
qed

lemma server_start_Inr:
  assumes "server_start SE config w = Ret (Inr (context, vf), w')"
  obtains svrs pl where "context = Context_new (se_bloom SE) (se_cache SE) (config\<lparr>cfg_server := svrs\<rparr>)"
    "list_all2 (\<lambda>svr svr'. sc_addr svr' = sc_addr svr) (cfg_server config) svrs"
    "pl = [] \<or> (\<exists>ps. pl = [PluginsTask ps])"
    "vf = (if enable_tcp (cfg_mode config) then pl @ [TcpTask] else []) @ (if enable_udp (cfg_mode config) then [UdpTask] else [])
       @ (if cfg_manager_address config \<noteq> None then [ManagerReportTask] else [])"
proof -
  obtain w1 where lim: "limit_nofile (se_os SE) config w = (Inr (), w1)" and srv: "is_server (cfg_config_type config)"
    using assms by (cases "limit_nofile (se_os SE) config w"; cases "fst (limit_nofile (se_os SE) config w)")
      (auto simp: server_start_def split: if_splits)
  show thesis
  proof (cases "enable_tcp (cfg_mode config)")
    case True
    with assms lim srv obtain r w2 where r: "server_plugins SE config w1 = Ret (r, w2)"
      by (auto simp: server_start_def rust_bind_Ret_iff)
    with assms lim srv True obtain config' pl where pl: "server_plugins SE config w1 = Ret (Inr (config', pl), w2)"
      by (cases r) (auto simp: server_start_def)
    with assms lim srv True have ctx: "context = Context_new (se_bloom SE) (se_cache SE) config'"
      and vf: "vf = pl @ [TcpTask] @ (if enable_udp (cfg_mode config) then [UdpTask] else [])
         @ (if cfg_manager_address config' \<noteq> None then [ManagerReportTask] else [])"
      by (auto simp: server_start_def Context_new_def)
    obtain svrs where "config' = config\<lparr>cfg_server := svrs\<rparr>"
      "list_all2 (\<lambda>svr svr'. sc_addr svr' = sc_addr svr) (cfg_server config) svrs"
      "pl = [] \<or> (\<exists>ps. pl = [PluginsTask ps])" by (rule server_plugins_config [OF pl])
    with True ctx vf that show thesis by simp
  next
    case False
    with assms lim srv that [of "cfg_server config" "[]"] show thesis by (auto simp: server_start_def Context_new_def list_all2_same)
  qed
qed

text \<open>
  What a start needs of the system: sockets can be bound, their address is known, and the resolver gives an error
  rather than an empty list of addresses.
\<close>

definition net_ok :: "('w, 'h) listen_os \<Rightarrow> resolver \<Rightarrow> bool" where
  "net_ok LI resolve \<longleftrightarrow>
     (\<forall>d port. resolve d port \<noteq> Inr []) \<and> (\<forall>h. \<exists>a. li_local_addr LI h = Inr a)
     \<and> (\<forall>a w. \<exists>h w'. li_tcp_bind LI a w = (Inr h, w')) \<and> (\<forall>ty a w. \<exists>h w'. li_tcp_bind_redir LI ty a w = (Inr h, w'))"

lemma resolve_bind_addr_no_panic: "net_ok LI resolve \<Longrightarrow> resolve_bind_addr resolve a \<noteq> Panic"
  by (auto simp: net_ok_def resolve_bind_addr_def split: ServerAddr.splits sum.splits list.splits)

lemma local_bind_addr_no_panic:
  "\<lbrakk>net_ok LI resolve; cfg_local (ctx_config context) \<noteq> None\<rbrakk> \<Longrightarrow> local_bind_addr resolve context \<noteq> Panic"
  by (auto simp: local_bind_addr_def resolve_bind_addr_no_panic)

lemma bound_addr_no_panic: "net_ok LI resolve \<Longrightarrow> bound_addr LI l \<noteq> Panic"
  by (auto simp: net_ok_def bound_addr_def split: sum.splits) (metis Inl_Inr_False)

lemma bind_or_panic_tcp: "net_ok LI resolve \<Longrightarrow> bind_or_panic LI (li_tcp_bind LI a w) \<noteq> Panic"
  using bound_addr_no_panic [of LI resolve]
  by (auto simp: net_ok_def bind_or_panic_def rust_bind_Panic_iff split: prod.splits sum.splits) (metis Inl_Inr_False Pair_inject)

lemma bind_or_panic_redir: "net_ok LI resolve \<Longrightarrow> bind_or_panic LI (li_tcp_bind_redir LI ty a w) \<noteq> Panic"
  using bound_addr_no_panic [of LI resolve]
  by (auto simp: net_ok_def bind_or_panic_def rust_bind_Panic_iff split: prod.splits sum.splits) (metis Inl_Inr_False Pair_inject)

lemma bind_or_error_no_panic: "net_ok LI resolve \<Longrightarrow> bind_or_error LI b \<noteq> Panic"
  using bound_addr_no_panic [of LI resolve]
  by (auto simp: bind_or_error_def rust_bind_Panic_iff split: prod.splits sum.splits)
lemma tcp_local_start_no_panic:
  assumes net: "net_ok LI resolve" and loc: "is_local (cfg_config_type (ctx_config context))"
    and addr: "cfg_local (ctx_config context) \<noteq> None"
    and tunnel: "cfg_config_type (ctx_config context) = TunnelLocal \<Longrightarrow>
      enable_tcp (cfg_mode (ctx_config context)) \<and> cfg_forward (ctx_config context) \<noteq> None"
  shows "tcp_local_start LI resolve context w \<noteq> Panic"
proof -
  note no_panic = local_bind_addr_no_panic [OF net addr] bind_or_panic_tcp [OF net] bind_or_panic_redir [OF net]
  have "socks5_tcp_start LI resolve context w \<noteq> Panic" "redir_tcp_start LI resolve context w \<noteq> Panic"
    using no_panic by (auto simp: socks5_tcp_start_def redir_tcp_start_def Let_def rust_bind_Panic_iff split: sum.splits)
  moreover have "http_tcp_start LI resolve context w \<noteq> Panic"
    using no_panic net by (auto simp: http_tcp_start_def net_ok_def rust_bind_Panic_iff split: sum.splits prod.splits)
      (metis Inl_Inr_False Pair_inject)
  moreover have "tunnel_tcp_start LI resolve context w \<noteq> Panic" if "cfg_config_type (ctx_config context) = TunnelLocal"
    using no_panic tunnel [OF that] by (auto simp: tunnel_tcp_start_def rust_bind_Panic_iff split: sum.splits)
  ultimately show ?thesis using loc by (auto simp: tcp_local_start_def split: ConfigType.splits)
qed

lemma udp_start_no_panic:
  assumes net: "net_ok LI resolve" and ty: "cfg_config_type (ctx_config context) \<in> {Socks5Local, TunnelLocal, RedirLocal}"
    and addr: "cfg_local (ctx_config context) \<noteq> None"
    and tunnel: "cfg_config_type (ctx_config context) = TunnelLocal \<Longrightarrow> cfg_forward (ctx_config context) \<noteq> None"
  shows "udp_start LI resolve context w \<noteq> Panic"
proof -
  note no_panic = local_bind_addr_no_panic [OF net addr] bind_or_error_no_panic [OF net]
  have "udp_local_start LI resolve context w \<noteq> Panic" "redir_udp_start LI resolve context w \<noteq> Panic"
    using no_panic by (auto simp: udp_local_start_def redir_udp_start_def rust_bind_Panic_iff split: sum.splits)
  moreover from this have "tunnel_udp_start LI resolve context w \<noteq> Panic" if "cfg_config_type (ctx_config context) = TunnelLocal"
    using tunnel [OF that] by (auto simp: tunnel_udp_start_def rust_bind_Panic_iff split: sum.splits)
  ultimately show ?thesis using ty by (auto simp: udp_start_def)
qed

lemma tcp_server_listeners_no_panic:
  assumes net: "net_ok LI resolve"
  shows "(\<And>svr. svr \<in> set svrs \<Longrightarrow> MultiServerFlowStatistic_get flow (ServerAddr_port (sc_addr svr)) \<noteq> None) \<Longrightarrow>
    tcp_server_listeners LI resolve flow svrs w \<noteq> Panic"
proof (induction svrs arbitrary: w)
  case (Cons svr svrs)
  note no_panic = resolve_bind_addr_no_panic [OF net] bind_or_panic_tcp [OF net]
  have "MultiServerFlowStatistic_get flow (ServerAddr_port (sc_addr svr)) \<noteq> None" using Cons.prems by simp
  moreover have "tcp_server_listeners LI resolve flow svrs w1 \<noteq> Panic" for w1
    using Cons by simp
  ultimately show ?case using no_panic by (auto simp: rust_bind_Panic_iff split: sum.splits)
qed simp

lemma tcp_server_listeners_length:
  "tcp_server_listeners LI resolve flow svrs w = Ret (Inr ls, w') \<Longrightarrow> length ls = length svrs"
proof (induction svrs arbitrary: w ls)
  case (Cons svr svrs)
  obtain a where a: "resolve_bind_addr resolve (external_addr svr) = Ret a" using Cons.prems by (auto simp: rust_bind_Ret_iff)
  with Cons.prems obtain addr where "a = Inr addr" by (cases a) auto
  with a Cons.prems obtain r w1 ls' where "tcp_server_listeners LI resolve flow svrs w1 = Ret (r, w')" "map_sum id ls' r = Inr ls"
    "\<And>x. length (ls' x) = Suc (length x)"
    by (auto simp: rust_bind_Ret_iff)
  with Cons.IH show ?case by (cases r) auto
qed simp

lemma tcp_server_start_no_panic:
  assumes "net_ok LI resolve" "cfg_server (ctx_config context) \<noteq> []"
    "\<And>svr. svr \<in> set (cfg_server (ctx_config context)) \<Longrightarrow> MultiServerFlowStatistic_get flow (ServerAddr_port (sc_addr svr)) \<noteq> None"
  shows "tcp_server_start LI resolve flow context w \<noteq> Panic"
  using tcp_server_listeners_no_panic [OF assms(1,3)] assms(2) tcp_server_listeners_length [of LI resolve flow _ w "[]"]
  by (auto simp: tcp_server_start_def rust_bind_Panic_iff split: if_splits)

lemma udp_server_futures_eq:
  "(\<And>svr. svr \<in> set svrs \<Longrightarrow> MultiServerFlowStatistic_get flow (ServerAddr_port (sc_addr svr)) \<noteq> None) \<Longrightarrow>
   udp_server_futures flow svrs =
     Ret (map (\<lambda>svr. (svr, the (MultiServerFlowStatistic_get flow (ServerAddr_port (sc_addr svr))))) svrs)"
  by (induction svrs) fastforce+

lemma udp_listen_start_no_panic: "net_ok LI resolve \<Longrightarrow> udp_listen_start LI resolve svr w \<noteq> Panic"
  using resolve_bind_addr_no_panic [of LI resolve] bind_or_error_no_panic [of LI resolve]
  by (auto simp: udp_listen_start_def rust_bind_Panic_iff split: sum.splits)
lemma udp_server_start_eq:
  assumes "cfg_server (ctx_config context) \<noteq> []"
    "\<And>svr. svr \<in> set (cfg_server (ctx_config context)) \<Longrightarrow> MultiServerFlowStatistic_get flow (ServerAddr_port (sc_addr svr)) \<noteq> None"
  shows "\<exists>fs. udp_server_start flow context = Ret fs"
  using assms by (simp add: udp_server_start_def udp_server_futures_eq)

text \<open>All tasks that a start gives open their listeners.\<close>

lemma local_tasks_start:
  assumes net: "net_ok LI resolve" and loc: "is_local (cfg_config_type config)"
    and addr: "cfg_local config \<noteq> None" and tunnel: "cfg_config_type config = TunnelLocal \<Longrightarrow> cfg_forward config \<noteq> None"
    and start: "local_start SE config w = Ret (Inr (context, vf), w')"
  shows "vf \<noteq> []" "TcpTask \<in> set vf \<Longrightarrow> tcp_local_start LI resolve context w1 \<noteq> Panic"
    "UdpTask \<in> set vf \<Longrightarrow> udp_start LI resolve context w1 \<noteq> Panic" "ManagerReportTask \<notin> set vf"
proof -
  obtain svrs pl where ctx: "context = Context_new (se_bloom SE) (se_cache SE) (config\<lparr>cfg_server := svrs\<rparr>)"
    and pl: "pl = [] \<or> (\<exists>ps. pl = [PluginsTask ps])"
    and vf: "vf = (if local_enable_tcp config then pl @ [TcpTask] else []) @ (if local_enable_udp config then [UdpTask] else [])
       @ (if se_dns_relay SE then [DnsRelayTask] else [])
       @ (if se_android SE \<and> cfg_stat_path config \<noteq> None then [FlowReportTask] else [])"
    by (rule local_start_Inr [OF start])
  have conf: "ctx_config context = config\<lparr>cfg_server := svrs\<rparr>" by (simp add: ctx Context_new_def)
  have some: "local_enable_tcp config \<or> local_enable_udp config"
    using loc by (cases "cfg_config_type config"; cases "cfg_mode config") (auto simp: local_enable_tcp_def local_enable_udp_def)
  then show "vf \<noteq> []" by (auto simp: vf)
  show "ManagerReportTask \<notin> set vf" using pl by (auto simp: vf)
  have tcp: "TcpTask \<in> set vf \<longleftrightarrow> local_enable_tcp config" and udp: "UdpTask \<in> set vf \<longleftrightarrow> local_enable_udp config"
    using pl by (auto simp: vf)
  show "tcp_local_start LI resolve context w1 \<noteq> Panic" if "TcpTask \<in> set vf"
    using that tcp net loc addr tunnel
    by (intro tcp_local_start_no_panic) (auto simp: conf local_enable_tcp_def)
  show "udp_start LI resolve context w1 \<noteq> Panic" if "UdpTask \<in> set vf"
    using that udp net addr tunnel
    by (intro udp_start_no_panic) (auto simp: conf local_enable_udp_def split: ConfigType.splits)
qed

lemma server_tasks_start:
  assumes net: "net_ok LI resolve" and some: "cfg_server config \<noteq> []"
    and start: "server_start SE config w = Ret (Inr (context, vf), w')"
  shows "vf \<noteq> []" "tcp_server_start LI resolve (MultiServerFlowStatistic_new config) context w1 \<noteq> Panic"
    "\<exists>fs. udp_server_start (MultiServerFlowStatistic_new config) context = Ret fs"
    "ManagerReportTask \<in> set vf \<Longrightarrow> cfg_manager_address (ctx_config context) \<noteq> None"
proof -
  obtain svrs pl where ctx: "context = Context_new (se_bloom SE) (se_cache SE) (config\<lparr>cfg_server := svrs\<rparr>)"
    and addrs: "list_all2 (\<lambda>svr svr'. sc_addr svr' = sc_addr svr) (cfg_server config) svrs"
    and pl: "pl = [] \<or> (\<exists>ps. pl = [PluginsTask ps])"
    and vf: "vf = (if enable_tcp (cfg_mode config) then pl @ [TcpTask] else []) @ (if enable_udp (cfg_mode config) then [UdpTask] else [])
       @ (if cfg_manager_address config \<noteq> None then [ManagerReportTask] else [])"
    by (rule server_start_Inr [OF start])
  have conf: "ctx_config context = config\<lparr>cfg_server := svrs\<rparr>" by (simp add: ctx Context_new_def)
  show "vf \<noteq> []" by (cases "cfg_mode config") (auto simp: vf)
  have ne: "cfg_server (ctx_config context) \<noteq> []" using some addrs by (auto simp: conf)
  have stat: "MultiServerFlowStatistic_get (MultiServerFlowStatistic_new config) (ServerAddr_port (sc_addr svr)) \<noteq> None"
    if "svr \<in> set (cfg_server (ctx_config context))" for svr
  proof -
    from that obtain i where i: "i < length svrs" "svr = svrs ! i" by (auto simp: conf in_set_conv_nth)
    with addrs have "cfg_server config ! i \<in> set (cfg_server config)" "sc_addr svr = sc_addr (cfg_server config ! i)"
      by (simp_all add: list_all2_conv_all_nth)
    then show ?thesis by (simp add: flow_of_every_server)
  qed
  show "tcp_server_start LI resolve (MultiServerFlowStatistic_new config) context w1 \<noteq> Panic"
    using net ne stat by (rule tcp_server_start_no_panic)
  show "\<exists>fs. udp_server_start (MultiServerFlowStatistic_new config) context = Ret fs"
    using ne stat by (rule udp_server_start_eq)
  show "cfg_manager_address (ctx_config context) \<noteq> None" if "ManagerReportTask \<in> set vf"
    using that pl by (auto simp: vf conf split: if_splits)
qed
lemma local_start_plugins:
  assumes "local_start SE config w = Ret (Inr (context, vf), w')" "local_enable_tcp config"
  obtains w1 config' pl w2 where "local_plugins SE config w1 = Ret (Inr (config', pl), w2)"
    "ctx_config context = config'" "set pl \<subseteq> set vf"
proof -
  obtain w1 where lim: "limit_nofile (se_os SE) config w = (Inr (), w1)" and loc: "is_local (cfg_config_type config)"
    using assms by (cases "limit_nofile (se_os SE) config w"; cases "fst (limit_nofile (se_os SE) config w)")
      (auto simp: local_start_def split: if_splits)
  with assms obtain r w2 where r: "local_plugins SE config w1 = Ret (r, w2)"
    by (auto simp: local_start_def rust_bind_Ret_iff)
  with assms lim loc obtain config' pl where pl: "local_plugins SE config w1 = Ret (Inr (config', pl), w2)"
    by (cases r) (auto simp: local_start_def)
  from assms lim loc pl have "ctx_config context = config'" "set pl \<subseteq> set vf"
    by (auto simp: local_start_def Context_new_def)
  with pl show thesis by (rule that)
qed

lemma plugin_waits_set:
  "\<lbrakk>plugin_waits connects svrs = Ret v; svr \<in> set svrs; sc_plugin_addr svr = Some (SvrSocketAddr a)\<rbrakk> \<Longrightarrow>
   wait_plugin connects a \<in> set v"
  by (induction svrs arbitrary: v) (auto simp: rust_bind_Ret_iff split: option.splits ServerAddr.splits)

text \<open>A joined wait succeeds only if all of its waits do.\<close>

definition join_ok :: "((io_error + unit) list \<Rightarrow> io_error + unit list) \<Rightarrow> bool" where
  "join_ok join \<longleftrightarrow> (\<forall>rs us. join rs = Inr us \<longrightarrow> (\<forall>r \<in> set rs. r = Inr ()))"

lemma plugins_started:
  assumes join: "join_ok join"
    and started: "check_plugins_started join connects config = Ret (Inr ())"
    and svr: "svr \<in> set (cfg_server config)" "sc_plugin_addr svr = Some (SvrSocketAddr a)" and plug: "has_server_plugins config"
  shows "\<exists>r < 10. connects a r"
proof -
  from started plug obtain v where v: "plugin_waits connects (cfg_server config) = Ret v" "map_sum id (\<lambda>_. ()) (join v) = Inr ()"
    by (auto simp: check_plugins_started_def rust_bind_Ret_iff)
  then obtain us where "join v = Inr us" by (cases "join v") auto
  moreover have "wait_plugin connects a \<in> set v" using v(1) svr by (rule plugin_waits_set)
  ultimately have "wait_plugin connects a = Inr ()" using join by (auto simp: join_ok_def)
  then show ?thesis by (auto simp: wait_plugin_def list_ex_iff split: if_splits)
qed

lemma launched_plugin_reached:
  assumes join: "join_ok join"
    and l: "launched P mode (cfg_server config) (cfg_server config') ps"
    and started: "check_plugins_started join connects config' = Ret (Inr ())"
    and i: "i < length (cfg_server config)" and c: "sc_plugin (cfg_server config ! i) = Some c"
  shows "\<exists>port p w1 w2 r. external_addr (cfg_server config' ! i) = SvrSocketAddr (loopback port)
     \<and> (cfg_server config' ! i)\<lparr>sc_plugin_addr := sc_plugin_addr (cfg_server config ! i)\<rparr> = cfg_server config ! i
     \<and> p \<in> set ps \<and> po_spawn P (plugin_cmd c (sc_addr (cfg_server config' ! i)) (loopback port) mode) w1 = (Inr p, w2)
     \<and> r < 10 \<and> connects (loopback port) r"
proof -
  have len: "length (cfg_server config') = length (cfg_server config)" using l by (auto simp: launched_def list_all2_lengthD)
  from l i c obtain p where p: "p \<in> set ps" "bridged P mode (cfg_server config ! i) (cfg_server config' ! i) p"
    by (fastforce simp: launched_def list_all2_conv_all_nth)
  then obtain port w1 w2 where port: "cfg_server config' ! i = (cfg_server config ! i)\<lparr>sc_plugin_addr := Some (SvrSocketAddr (loopback port))\<rparr>"
    and spawn: "po_spawn P (plugin_cmd c (sc_addr (cfg_server config ! i)) (loopback port) mode) w1 = (Inr p, w2)"
    using c by (auto simp: bridged_def)
  have "\<exists>r < 10. connects (loopback port) r"
  proof (rule plugins_started [OF join started])
    show "cfg_server config' ! i \<in> set (cfg_server config')" using i len by simp
    show "sc_plugin_addr (cfg_server config' ! i) = Some (SvrSocketAddr (loopback port))" by (simp add: port)
    show "has_server_plugins config'" using c i len by (auto simp: has_server_plugins_def list_ex_length port intro!: exI [of _ i])
  qed
  then obtain r where "r < 10" "connects (loopback port) r" by blast
  then have "external_addr (cfg_server config' ! i) = SvrSocketAddr (loopback port)
     \<and> (cfg_server config' ! i)\<lparr>sc_plugin_addr := sc_plugin_addr (cfg_server config ! i)\<rparr> = cfg_server config ! i
     \<and> p \<in> set ps \<and> po_spawn P (plugin_cmd c (sc_addr (cfg_server config' ! i)) (loopback port) mode) w1 = (Inr p, w2)
     \<and> r < 10 \<and> connects (loopback port) r"
    using spawn p(1) by (simp add: port external_addr_def)
  then show ?thesis by blast
qed

section \<open>Plugins stand between the relay and its servers\<close>

text \<open>
  The server side launches its plugins as clients too: an obfsproxy of a server is told to connect to the server's
  own public address and to listen on the loopback port that the server binds itself.
\<close>

lemma server_obfsproxy_is_client:
  assumes start: "server_start SE config w = Ret (Inr (context, vf), w')" and tcp: "enable_tcp (cfg_mode config)"
    and i: "i < length (cfg_server config)" and c: "sc_plugin (cfg_server config ! i) = Some c" "pc_plugin c = ''obfsproxy''"
  shows "\<exists>port p w1 w2 args. external_addr (cfg_server (ctx_config context) ! i) = SvrSocketAddr (loopback port)
    \<and> po_spawn (se_plugins SE) \<lparr>cmd_program = ''obfsproxy'', cmd_args = args @
        [''--dest'', ServerAddr_display (sc_addr (cfg_server config ! i)), ''client'', show_socket_addr (loopback port)],
        cmd_env = []\<rparr> w1 = (Inr p, w2)"
proof -
  obtain w1 where lim: "limit_nofile (se_os SE) config w = (Inr (), w1)" and srv: "is_server (cfg_config_type config)"
    using start by (cases "limit_nofile (se_os SE) config w"; cases "fst (limit_nofile (se_os SE) config w)")
      (auto simp: server_start_def split: if_splits)
  with start tcp obtain r w2 where r: "server_plugins SE config w1 = Ret (r, w2)"
    by (auto simp: server_start_def rust_bind_Ret_iff)
  with start tcp lim srv obtain config' pl where pl: "server_plugins SE config w1 = Ret (Inr (config', pl), w2)"
    by (cases r) (auto simp: server_start_def)
  have ctx: "ctx_config context = config'" using start tcp lim srv pl by (auto simp: server_start_def Context_new_def)
  have "has_server_plugins config" using c i by (auto simp: has_server_plugins_def list_ex_length)
  with pl obtain ps where "launch_plugins (se_plugins SE) PluginModeClient config w1 = Ret (Inr (config', ps), w2)"
    by (rule server_plugins_launch)
  then have "launched (se_plugins SE) PluginModeClient (cfg_server config) (cfg_server config') ps" by (rule launch_plugins_launched)
  from launched_external_addr [OF this i c(1)] obtain port p w3 w4
    where "external_addr (cfg_server config' ! i) = SvrSocketAddr (loopback port)"
      "po_spawn (se_plugins SE) (plugin_cmd c (sc_addr (cfg_server config ! i)) (loopback port) PluginModeClient) w3 = (Inr p, w4)"
    by blast
  moreover have "\<exists>args. plugin_cmd c (sc_addr (cfg_server config ! i)) (loopback port) PluginModeClient =
      \<lparr>cmd_program = ''obfsproxy'', cmd_args = args @
        [''--dest'', ServerAddr_display (sc_addr (cfg_server config ! i)), ''client'', show_socket_addr (loopback port)],
        cmd_env = []\<rparr>"
    using c(2) by (simp add: plugin_cmd_def obfs_plugin_cmd_def flip: append_Cons append_assoc)
  ultimately show ?thesis using ctx by metis
qed

text \<open>A configuration of the manager type given to the library's \<^verbatim>\<open>run\<close> is taken for a server's and panics.\<close>

lemma lib_run_manager_panics: "cfg_config_type config = Manager \<Longrightarrow> lib_run SE ended config w = Panic"
  by (simp add: lib_run_def server_run_def server_start_def)

definition sample_plugin_os :: "(nat, unit, Command_line) plugin_os" where
  "sample_plugin_os =
     \<lparr>po_bind = (\<lambda>a w. (Inr (), w + 1)), po_local_addr = (\<lambda>_ w. (Inr (SocketAddrV4 (Ipv4Addr 0 0 0 0) (of_nat (40000 + w))), w)),
      po_spawn = (\<lambda>cmd w. (Inr cmd, w))\<rparr>"

definition sample_start_env :: "(unit, unit, nat, unit, Command_line) start_env" where
  "sample_start_env =
     \<lparr>se_bloom = undefined, se_cache = undefined, se_os = undefined, se_plugins = sample_plugin_os,
      se_try_join_all = (\<lambda>rs. case filter (\<lambda>r. r \<noteq> Inr ()) rs of (Inl e # _) \<Rightarrow> Inl e | _ \<Rightarrow> Inr (map (\<lambda>_. ()) rs)),
      se_connects = (\<lambda>a r. r = 3), se_dns_relay = False, se_android = False\<rparr>"

definition plugged_server :: ServerConfig where
  "plugged_server =
     \<lparr>sc_addr = SvrDomainName ''example.org'' 443, sc_password = ''p'', sc_method = Aes128Gcm, sc_timeout = None, sc_enc_key = [],
      sc_plugin = Some \<lparr>pc_plugin = ''v2ray-plugin'', pc_plugin_opt = Some ''tls''\<rparr>, sc_plugin_addr = None\<rparr>"

definition plugged_config :: "(unit, unit, unit) Config" where
  "plugged_config = (Config_new Socks5Local)\<lparr>cfg_server := [plugged_server]\<rparr>"
lemma sample_join_ok: "join_ok (se_try_join_all sample_start_env)"
proof -
  have "r = Inr ()" if "(case filter (\<lambda>r. r \<noteq> Inr ()) rs of (Inl e # _) \<Rightarrow> Inl e | _ \<Rightarrow> Inr (map (\<lambda>_. ()) rs)) = Inr us"
    "r \<in> set rs" for rs :: "(io_error + unit) list" and us r
  proof (rule ccontr)
    assume "r \<noteq> Inr ()"
    with that(2) have "r \<in> set (filter (\<lambda>r. r \<noteq> Inr ()) rs)" by simp
    then obtain x xs where x: "filter (\<lambda>r. r \<noteq> Inr ()) rs = x # xs" by (metis list.distinct(1) list.set_cases)
    then have "x \<noteq> Inr ()" by (metis (mono_tags, lifting) Cons_eq_filterD)
    then obtain e where "x = Inl e" by (cases x) auto
    with x that(1) show False by simp
  qed
  then show ?thesis unfolding join_ok_def sample_start_env_def start_env.select_convs by blast
qed

section \<open>Reports reach the manager of this project\<close>

text \<open>A report is a command that the manager takes: it changes nothing and is not answered.\<close>

lemma host_char_ascii: "is_host_char c \<Longrightarrow> unat (byte_of_char c) < 128"
  by (auto simp: is_host_char_def byte_of_char_def Let_def unat_of_nat_u8)

lemma stat_report_accepted:
  assumes "json_stat J (''{'' @ quoted (show_u16 port) @ '':'' @ show_nat (unat (trans_stat fstat)) @ ''}'') = Inr pmap"
  shows "handle_packet L J keys (as_bytes (stat_report port fstat)) m = Ret (None, m)"
proof -
  let ?n = "show_nat (unat (trans_stat fstat))" and ?p = "show_u16 port"
  let ?param = "''{'' @ quoted ?p @ '':'' @ ?n @ ''}''"
  have digits: "list_all (\<lambda>c. unat (byte_of_char c) < 128) (show_nat k)" for k
    using show_nat_host_chars [of k] host_char_ascii by (auto simp: list_all_iff)
  then have "list_all (\<lambda>c. unat (byte_of_char c) < 128) (stat_report port fstat)"
    by (simp add: stat_report_def quoted_def show_u16_def byte_of_char_def)
  then have "utf8_valid (as_bytes (stat_report port fstat))"
    by (intro utf8_valid_ascii) (simp add: list_all_iff)
  then have utf8: "from_utf8 (as_bytes (stat_report port fstat)) = Some (stat_report port fstat)"
    by (rule from_utf8_as_bytes)
  have stat: "stat_report port fstat = ''stat'' @ CHR '':'' # '' '' @ ?param" by (simp add: stat_report_def)
  have "trim ''stat'' = ''stat''" "trim ('' '' @ ?param) = ?param"
    by (simp_all add: trim_def is_space_def)
  moreover have "find_char CHR '':'' (''stat'' @ CHR '':'' # '' '' @ ?param) = Some 4"
    using find_char_append [of "CHR '':''" "''stat''"] by simp
  ultimately have "split_command (''stat'' @ CHR '':'' # '' '' @ ?param) = (''stat'', ?param)"
    by (simp add: split_command_def)
  then have "split_command (stat_report port fstat) = (''stat'', ?param)" by (simp only: stat)
  with utf8 assms show ?thesis
    by (simp add: handle_packet_def dispatch_command_def handle_stat_def)
qed

end
