(* ===== verification/Dns_Relay.thy ===== *)
theory Dns_Relay
  imports Socks5_Local
begin

text \<open>
  The DNS relay of a local server, \<^verbatim>\<open>src/relay/dnsrelay/mod.rs\<close>. The messages of \<^verbatim>\<open>trust_dns_proto\<close> are a record of the
  fields that the relay sets and reads; their wire format and the textual forms of a name are parameters.
\<close>

section \<open>Messages\<close>

datatype RData = RData_A ipv4_addr | RData_AAAA ipv6_addr | RData_other

datatype MessageType = QueryMessage | ResponseMessage

datatype ResponseCode = NoError | FormErr | ServFail | OtherCode nat

record 'x Record =
  rec_rdata :: RData
  rec_rest :: 'x

record ('n, 't) Query =
  qu_name :: 'n
  qu_query_type :: 't

record ('n, 't, 'x) Message =
  msg_id :: u16
  msg_message_type :: MessageType
  msg_recursion_desired :: bool
  msg_recursion_available :: bool
  msg_response_code :: ResponseCode
  msg_queries :: "('n, 't) Query list"
  msg_answers :: "'x Record list"
  msg_additionals :: "'x Record list"

definition Message_new :: "('n, 't, 'x) Message" where
  "Message_new =
     \<lparr>msg_id = 0, msg_message_type = QueryMessage, msg_recursion_desired = False, msg_recursion_available = False,
      msg_response_code = NoError, msg_queries = [], msg_answers = [], msg_additionals = []\<rparr>"

record ('n, 't, 'x) dns_lib =
  dns_to_vec :: "('n, 't, 'x) Message \<Rightarrow> io_error + bytes"
  dns_from_vec :: "bytes \<Rightarrow> io_error + ('n, 't, 'x) Message"
  dns_name_to_string :: "'n \<Rightarrow> string"
  dns_name_to_ascii :: "'n \<Rightarrow> string"

section \<open>Asking a name server\<close>

definition query_message :: "'n \<Rightarrow> 't \<Rightarrow> ('n, 't, 'x) Message" where
  "query_message qname qtype =
     Message_new\<lparr>msg_id := 6666, msg_recursion_desired := True, msg_queries := [\<lparr>qu_name = qname, qu_query_type = qtype\<rparr>]\<rparr>"

text \<open>A buffer of 512 zeros that \<open>bs\<close> is read into.\<close>

definition buffer_512 :: "bytes \<Rightarrow> bytes" where
  "buffer_512 bs = take 512 bs @ replicate (512 - length bs) 0"

record ('w, 'j) dns_os =
  do_udp_bind :: "socket_addr \<Rightarrow> 'w \<Rightarrow> (io_error + unit) \<times> 'w"
  do_udp_send :: "bytes \<Rightarrow> socket_addr \<Rightarrow> 'w \<Rightarrow> (io_error + nat) \<times> 'w"
  do_udp_recv :: "'w \<Rightarrow> (io_error + bytes \<times> socket_addr) \<times> 'w"
  do_tcp_connect :: "socket_addr \<Rightarrow> 'w \<Rightarrow> (io_error + 'j) \<times> 'w"

definition udp_lookup ::
    "('n, 't, 'x) dns_lib \<Rightarrow> ('w, 'j) dns_os \<Rightarrow> 'n \<Rightarrow> 't \<Rightarrow> socket_addr \<Rightarrow> 'w \<Rightarrow> (io_error + ('n, 't, 'x) Message) \<times> 'w" where
  "udp_lookup D N qname qtype server w =
     (case do_udp_bind N (SocketAddrV4 (Ipv4Addr 0 0 0 0) 0) w of
        (Inl e, w) \<Rightarrow> (Inl e, w)
      | (Inr _, w) \<Rightarrow>
          (case dns_to_vec D (query_message qname qtype) of
             Inl e \<Rightarrow> (Inl e, w)
           | Inr req_buffer \<Rightarrow>
               (case do_udp_send N req_buffer server w of
                  (Inl e, w) \<Rightarrow> (Inl e, w)
                | (Inr _, w) \<Rightarrow>
                    (case do_udp_recv N w of
                       (Inl e, w) \<Rightarrow> (Inl e, w)
                     | (Inr (dgram, _), w) \<Rightarrow> (dns_from_vec D (buffer_512 dgram), w)))))"

text \<open>
  Over TCP a message is preceded by its length in two bytes. The request and the response must fit the buffers of
  512 bytes: slicing beyond them panics.
\<close>

definition tcp_exchange :: "('n, 't, 'x) dns_lib \<Rightarrow> 'j client_io \<Rightarrow> bytes \<Rightarrow> 'j \<Rightarrow> (io_error + ('n, 't, 'x) Message) rust" where
  "tcp_exchange D I req_buffer stream =
     (let size = length req_buffer;
          size_buffer = [of_nat (size div 256) :: u8, of_nat size :: u8]
      in if size > 512 then Panic
         else
           case ci_write I (size_buffer @ req_buffer) stream of
             Inl e \<Rightarrow> Ret (Inl e)
           | Inr stream \<Rightarrow>
               (case ci_read_exact I 2 stream of
                  Inl e \<Rightarrow> Ret (Inl e)
                | Inr (size_buffer, stream) \<Rightarrow>
                    let size = unat (size_buffer ! 0) * 256 + unat (size_buffer ! 1) in
                    if size > 512 then Panic
                    else
                      (case ci_read_exact I size stream of
                         Inl e \<Rightarrow> Ret (Inl e)
                       | Inr (res, stream) \<Rightarrow> Ret (dns_from_vec D (buffer_512 res)))))"

definition socks5_lookup ::
    "('n, 't, 'x) dns_lib \<Rightarrow> ('w, 'j) dns_os \<Rightarrow> 'j client_io \<Rightarrow> 'n \<Rightarrow> 't \<Rightarrow> socket_addr \<Rightarrow> socket_addr \<Rightarrow> 'w \<Rightarrow>
     ((io_error + ('n, 't, 'x) Message) \<times> 'w) rust" where
  "socks5_lookup D N I qname qtype socks5 ns w =
     (case do_tcp_connect N socks5 w of
        (Inl e, w) \<Rightarrow> Ret (Inl e, w)
      | (Inr stream, w) \<Rightarrow>
          rust_bind (socks5_request I TcpConnect (SocketAddress ns) stream) (\<lambda>r.
            case r of
              Inl e \<Rightarrow> Ret (Inl e, w)
            | Inr (stream, _) \<Rightarrow>
                (case dns_to_vec D (query_message qname qtype) of
                   Inl e \<Rightarrow> Ret (Inl e, w)
                 | Inr req_buffer \<Rightarrow> rust_bind (tcp_exchange D I req_buffer stream) (\<lambda>res. Ret (res, w)))))"

section \<open>Choosing the answer\<close>

text \<open>The environment of the access control list and of a look-up; \<open>re_secs\<close> are the seconds that a look-up takes.\<close>

record ('n, 't, 'x, 'm, 'k, 'r, 'q, 'z, 'l, 'w, 'j) relay_env =
  re_dns :: "('n, 't, 'x) dns_lib"
  re_os :: "('w, 'j) dns_os"
  re_io :: "'j client_io"
  re_acl :: "('m, 'k, 'r, 'q, 'z) acl_lib"
  re_cache :: "(ip_addr, string, 'l) lru_ops"
  re_android :: bool
  re_resolve :: resolver
  re_secs :: "'w \<Rightarrow> nat"

definition rdata_ip :: "RData \<Rightarrow> ip_addr option" where
  "rdata_ip rdata = (case rdata of RData_A ip \<Rightarrow> Some (IpV4 ip) | RData_AAAA ip \<Rightarrow> Some (IpV6 ip) | RData_other \<Rightarrow> None)"

text \<open>The relay is compiled together with the reverse look-up of the context.\<close>

definition relay_bypassed ::
    "('n, 't, 'x, 'm, 'k, 'r, 'q, 'z, 'l, 'w, 'j) relay_env \<Rightarrow> ('b, 'r, 'q, 'z, 'l) Context \<Rightarrow> Address \<Rightarrow>
     bool \<times> ('b, 'r, 'q, 'z, 'l) Context" where
  "relay_bypassed R context addr =
     ctx_check_target_bypassed (re_acl R) (re_cache R) True (re_android R) (re_resolve R) context addr"

fun any_ip_bypassed ::
    "('n, 't, 'x, 'm, 'k, 'r, 'q, 'z, 'l, 'w, 'j) relay_env \<Rightarrow> 'x Record list \<Rightarrow> bool \<Rightarrow> ('b, 'r, 'q, 'z, 'l) Context \<Rightarrow>
     bool \<times> ('b, 'r, 'q, 'z, 'l) Context" where
  "any_ip_bypassed R [] ip_bypassed context = (ip_bypassed, context)"
| "any_ip_bypassed R (rec # recs) ip_bypassed context =
     (let (bypassed, context) =
        (case rdata_ip (rec_rdata rec) of
           Some ip \<Rightarrow> relay_bypassed R context (SocketAddress (SocketAddr_new ip 0))
         | None \<Rightarrow> (False, context))
      in any_ip_bypassed R recs (if bypassed then True else ip_bypassed) context)"

definition or_empty :: "io_error + ('n, 't, 'x) Message \<Rightarrow> ('n, 't, 'x) Message" where
  "or_empty r = (case r of Inl _ \<Rightarrow> Message_new | Inr m \<Rightarrow> m)"

text \<open>The remote look-up is dropped after five seconds, before it could panic.\<close>

definition timed_socks5_lookup ::
    "('n, 't, 'x, 'm, 'k, 'r, 'q, 'z, 'l, 'w, 'j) relay_env \<Rightarrow> 'n \<Rightarrow> 't \<Rightarrow> socket_addr \<Rightarrow> socket_addr \<Rightarrow> 'w \<Rightarrow>
     ((io_error + ('n, 't, 'x) Message) \<times> 'w) rust" where
  "timed_socks5_lookup R qname qtype socks5 ns w =
     (case socks5_lookup (re_dns R) (re_os R) (re_io R) qname qtype socks5 ns w of
        Ret (res, w') \<Rightarrow> Ret (try_timeout (res, re_secs R w) (Some 5), w')
      | Panic \<Rightarrow>
          if re_secs R w > 5 then Ret (try_timeout (Inr Message_new, re_secs R w) (Some 5), w) else Panic)"

definition acl_lookup ::
    "('n, 't, 'x, 'm, 'k, 'r, 'q, 'z, 'l, 'w, 'j) relay_env \<Rightarrow> ('b, 'r, 'q, 'z, 'l) Context \<Rightarrow> socket_addr \<Rightarrow> socket_addr \<Rightarrow>
     socket_addr \<Rightarrow> 'n \<Rightarrow> 't \<Rightarrow> 'w \<Rightarrow> (('n, 't, 'x) Message \<times> ('b, 'r, 'q, 'z, 'l) Context \<times> 'w) rust" where
  "acl_lookup R context local remote socks5 qname qtype w =
     (let (local_res, w1) = udp_lookup (re_dns R) (re_os R) qname qtype local w;
          local_response = or_empty (try_timeout (local_res, re_secs R w) (Some 5))
      in rust_bind (timed_socks5_lookup R qname qtype socks5 remote w1) (\<lambda>(remote_res, w).
           let remote_response = or_empty remote_res;
               (qname_bypassed, context) = relay_bypassed R context (DomainNameAddress (dns_name_to_string (re_dns R) qname) 0);
               (ip_bypassed, context) = any_ip_bypassed R (msg_answers local_response) False context
           in Ret (if msg_answers local_response = [] then remote_response
                   else if msg_answers remote_response = [] then local_response
                   else if qname_bypassed then local_response
                   else if ip_bypassed then local_response
                   else remote_response, context, w)))"

section \<open>Serving\<close>

fun remember_answers ::
    "('n, 't, 'x, 'm, 'k, 'r, 'q, 'z, 'l, 'w, 'j) relay_env \<Rightarrow> 'n \<Rightarrow> 'x Record list \<Rightarrow> ('b, 'r, 'q, 'z, 'l) Context \<Rightarrow>
     ('b, 'r, 'q, 'z, 'l) Context" where
  "remember_answers R qname [] context = context"
| "remember_answers R qname (rec # recs) context =
     remember_answers R qname recs
       (case rdata_ip (rec_rdata rec) of
          Some ip \<Rightarrow> add_to_reverse_lookup_cache (re_cache R) context ip (dns_name_to_ascii (re_dns R) qname)
        | None \<Rightarrow> context)"

text \<open>The response to a request. The look-up gives no error of its own, so \<^verbatim>\<open>ServFail\<close> is never sent.\<close>

definition dns_response ::
    "('n, 't, 'x, 'm, 'k, 'r, 'q, 'z, 'l, 'w, 'j) relay_env \<Rightarrow> ('b, 'r, 'q, 'z, 'l) Context \<Rightarrow> socket_addr \<Rightarrow> socket_addr \<Rightarrow>
     socket_addr \<Rightarrow> ('n, 't, 'x) Message \<Rightarrow> 'w \<Rightarrow> (('n, 't, 'x) Message \<times> ('b, 'r, 'q, 'z, 'l) Context \<times> 'w) rust" where
  "dns_response R context local_addr remote_addr socks5_addr request w =
     (let message = Message_new\<lparr>msg_id := msg_id request, msg_recursion_desired := True, msg_recursion_available := True,
                                msg_message_type := ResponseMessage\<rparr>
      in case msg_queries request of
           [] \<Rightarrow> Ret (message\<lparr>msg_response_code := FormErr\<rparr>, context, w)
         | question # _ \<Rightarrow>
             rust_bind (acl_lookup R context local_addr remote_addr socks5_addr (qu_name question) (qu_query_type question) w)
               (\<lambda>(result, context, w).
                  Ret (message\<lparr>msg_queries := [question], msg_response_code := msg_response_code result,
                               msg_answers := msg_answers result, msg_additionals := msg_additionals result\<rparr>,
                       remember_answers R (qu_name question) (msg_answers result) context, w)))"

text \<open>
  One round of the loop for what the socket received: errors of receiving and parsing are skipped, an error of
  writing the response ends the relay.
\<close>

definition dns_round ::
    "('n, 't, 'x, 'm, 'k, 'r, 'q, 'z, 'l, 'w, 'j) relay_env \<Rightarrow> socket_addr \<Rightarrow> socket_addr \<Rightarrow> socket_addr \<Rightarrow>
     io_error + bytes \<times> socket_addr \<Rightarrow> ('b, 'r, 'q, 'z, 'l) Context \<Rightarrow> 'w \<Rightarrow>
     ((io_error + unit) \<times> ('b, 'r, 'q, 'z, 'l) Context \<times> 'w) rust" where
  "dns_round R local_addr remote_addr socks5_addr received context w =
     (case received of
        Inl _ \<Rightarrow> Ret (Inr (), context, w)
      | Inr (dgram, src) \<Rightarrow>
          (case dns_from_vec (re_dns R) (buffer_512 dgram) of
             Inl _ \<Rightarrow> Ret (Inr (), context, w)
           | Inr request \<Rightarrow>
               rust_bind (dns_response R context local_addr remote_addr socks5_addr request w) (\<lambda>(message, context, w).
                 case dns_to_vec (re_dns R) message of
                   Inl e \<Rightarrow> Ret (Inl e, context, w)
                 | Inr res_buffer \<Rightarrow> Ret (Inr (), context, snd (do_udp_send (re_os R) res_buffer src w)))))"

text \<open>\<^verbatim>\<open>run\<close> up to its loop: the addresses of the configuration must all be set.\<close>

definition dns_relay_start ::
    "('n, 't, 'x, 'm, 'k, 'r, 'q, 'z, 'l, 'w, 'j) relay_env \<Rightarrow> ('b, 'r, 'q, 'z, 'l) Context \<Rightarrow> 'w \<Rightarrow>
     ((io_error + socket_addr \<times> socket_addr \<times> socket_addr) \<times> 'w) rust" where
  "dns_relay_start R context w =
     (let config = ctx_config context in
      rust_bind (expect (cfg_local_dns_addr config)) (\<lambda>local_addr.
      rust_bind (expect (cfg_remote_dns_addr config)) (\<lambda>remote_addr.
      rust_bind (expect (cfg_local config)) (\<lambda>socks5_config.
      rust_bind (resolve_bind_addr (re_resolve R) socks5_config) (\<lambda>res.
        case res of
          Inl e \<Rightarrow> Ret (Inl e, w)
        | Inr socks5_addr \<Rightarrow>
            rust_bind (expect (cfg_dns_relay_addr config)) (\<lambda>listen_addr.
              case do_udp_bind (re_os R) listen_addr w of
                (Inl e, w) \<Rightarrow> Ret (Inl e, w)
              | (Inr _, w) \<Rightarrow> Ret (Inr (local_addr, remote_addr, socks5_addr), w)))))))"
section \<open>Routing of answers and of the connections that follow\<close>

lemma relay_bypassed_config [simp]: "ctx_config (snd (relay_bypassed R ctx addr)) = ctx_config ctx"
  by (auto simp: relay_bypassed_def ctx_check_target_bypassed_def Let_def split: option.splits Address.splits prod.splits if_splits)

lemma relay_bypassed_configD: "relay_bypassed R ctx addr = (b, ctx') \<Longrightarrow> ctx_config ctx' = ctx_config ctx"
  using relay_bypassed_config [of R ctx addr] by simp

lemma relay_bypassed_domain:
  "fst (relay_bypassed R ctx (DomainNameAddress d port)) =
     (case cfg_acl (ctx_config ctx) of
        None \<Rightarrow> False
      | Some a \<Rightarrow> acl_check_target_bypassed (re_acl R) (re_android R) (re_resolve R) a (DomainNameAddress d port))"
  by (auto simp: relay_bypassed_def ctx_check_target_bypassed_def Let_def split: option.splits)

lemma relay_bypassed_no_acl: "cfg_acl (ctx_config ctx) = None \<Longrightarrow> relay_bypassed R ctx addr = (False, ctx)"
  by (simp add: relay_bypassed_def ctx_check_target_bypassed_def)

lemma any_ip_bypassed_config [simp]: "ctx_config (snd (any_ip_bypassed R recs b ctx)) = ctx_config ctx"
  by (induction recs arbitrary: b ctx)
     (auto dest: relay_bypassed_configD split: option.splits prod.splits)

lemma any_ip_bypassed_no_acl:
  "cfg_acl (ctx_config ctx) = None \<Longrightarrow> any_ip_bypassed R recs b ctx = (b, ctx)"
  by (induction recs arbitrary: b) (auto simp: relay_bypassed_no_acl split: option.splits)

lemma remember_answers_config [simp]: "ctx_config (remember_answers R qname recs ctx) = ctx_config ctx"
  by (induction R qname recs ctx rule: remember_answers.induct)
     (auto simp: add_to_reverse_lookup_cache_def split: option.splits)

text \<open>
  The cache keeps an entry while fewer than \<open>n\<close> other insertions follow.
\<close>

definition lru_keeps :: "('k, 'v, 'l) lru_ops \<Rightarrow> nat \<Rightarrow> bool" where
  "lru_keeps C n \<longleftrightarrow>
     (\<forall>l k v kvs. length kvs < n \<longrightarrow> k \<notin> fst ` set kvs \<longrightarrow>
        fst (lru_get C (fold (\<lambda>(k, v) l. lru_insert C l k v) kvs (lru_insert C l k v)) k) = Some v)"

definition answer_entries :: "string \<Rightarrow> 'x Record list \<Rightarrow> (ip_addr \<times> string) list" where
  "answer_entries name recs = List.map_filter (\<lambda>rec. map_option (\<lambda>ip. (ip, name)) (rdata_ip (rec_rdata rec))) recs"

lemma remember_answers_cache:
  "ctx_reverse_lookup_cache (remember_answers R qname recs ctx) =
     fold (\<lambda>(k, v) l. lru_insert (re_cache R) l k v) (answer_entries (dns_name_to_ascii (re_dns R) qname) recs)
       (ctx_reverse_lookup_cache ctx)"
  by (induction R qname recs ctx rule: remember_answers.induct)
     (auto simp: add_to_reverse_lookup_cache_def answer_entries_def List.map_filter_simps split: option.splits)

lemma length_answer_entries: "length (answer_entries name recs) \<le> length recs"
  by (induction recs) (auto simp: answer_entries_def List.map_filter_simps split: option.splits)

lemma answer_entries_set:
  "\<lbrakk>rec \<in> set recs; rdata_ip (rec_rdata rec) = Some ip\<rbrakk> \<Longrightarrow> (ip, name) \<in> set (answer_entries name recs)"
  by (induction recs) (auto simp: answer_entries_def List.map_filter_simps split: option.splits)

lemma answer_entries_snd: "(k, v) \<in> set (answer_entries name recs) \<Longrightarrow> v = name"
  by (induction recs) (auto simp: answer_entries_def List.map_filter_simps split: option.splits)

lemma remembered:
  assumes keep: "lru_keeps (re_cache R) 8192" and len: "length recs \<le> 8192"
    and rec: "rec \<in> set recs" "rdata_ip (rec_rdata rec) = Some ip"
  shows "fst (lru_get (re_cache R) (ctx_reverse_lookup_cache (remember_answers R qname recs ctx)) ip) =
    Some (dns_name_to_ascii (re_dns R) qname)"
proof -
  let ?name = "dns_name_to_ascii (re_dns R) qname"
  let ?es = "answer_entries ?name recs"
  have "ip \<in> fst ` set ?es" using answer_entries_set [OF rec] by force
  then have "\<exists>x \<in> set ?es. fst x = ip" by auto
  then obtain es1 e es2 where es: "?es = es1 @ e # es2" "fst e = ip" "\<forall>x \<in> set es2. fst x \<noteq> ip"
    by (rule split_list_last_propE)
  have e: "e = (ip, ?name)" using es(1,2) answer_entries_snd [of "fst e" "snd e" ?name recs] by (cases e) auto
  have "length es2 < 8192" using length_answer_entries [of ?name recs] len es(1) by simp
  moreover have "ip \<notin> fst ` set es2" using es(3) by auto
  ultimately have "fst (lru_get (re_cache R) (fold (\<lambda>(k, v) l. lru_insert (re_cache R) l k v) es2 (lru_insert (re_cache R) l ip ?name)) ip) = Some ?name" for l
    using keep by (auto simp: lru_keeps_def)
  then show ?thesis by (simp add: remember_answers_cache es(1) e)
qed
lemma relay_bypassed_remembered:
  assumes "fst (lru_get (re_cache R) (ctx_reverse_lookup_cache ctx') ip) = Some name" "ctx_config ctx' = ctx_config ctx"
    "fst (relay_bypassed R ctx (DomainNameAddress name 0))"
  shows "fst (relay_bypassed R ctx' (SocketAddress (SocketAddr_new ip port)))"
  using assms
  by (auto simp: relay_bypassed_domain relay_bypassed_def ctx_check_target_bypassed_def Let_def split: prod.splits option.splits)

text \<open>What the local and the remote name server answer to a question.\<close>

definition local_answer ::
    "('n, 't, 'x, 'm, 'k, 'r, 'q, 'z, 'l, 'w, 'j) relay_env \<Rightarrow> socket_addr \<Rightarrow> ('n, 't) Query \<Rightarrow> 'w \<Rightarrow> ('n, 't, 'x) Message" where
  "local_answer R local_addr question w =
     or_empty (try_timeout (fst (udp_lookup (re_dns R) (re_os R) (qu_name question) (qu_query_type question) local_addr w),
       re_secs R w) (Some 5))"

lemma acl_lookup_Ret:
  assumes "acl_lookup R ctx la ra sa (qu_name q) (qu_query_type q) w = Ret (result, ctx', w')"
  shows "ctx_config ctx' = ctx_config ctx \<and>
    (\<exists>remote w1 w2. timed_socks5_lookup R (qu_name q) (qu_query_type q) sa ra w1 = Ret (remote, w2)
      \<and> (msg_answers result = msg_answers (local_answer R la q w) \<or> msg_answers result = msg_answers (or_empty remote))
      \<and> (msg_answers result = [] \<longrightarrow> msg_answers (local_answer R la q w) = [] \<and> msg_answers (or_empty remote) = [])
      \<and> (msg_answers (local_answer R la q w) \<noteq> []
           \<and> fst (relay_bypassed R ctx (DomainNameAddress (dns_name_to_string (re_dns R) (qu_name q)) 0)) \<longrightarrow>
         msg_answers result = msg_answers (local_answer R la q w))
      \<and> (msg_answers (or_empty remote) \<noteq> [] \<and> cfg_acl (ctx_config ctx) = None \<longrightarrow> msg_answers result = msg_answers (or_empty remote)))"
proof -
  obtain local_res w1 where l: "udp_lookup (re_dns R) (re_os R) (qu_name q) (qu_query_type q) la w = (local_res, w1)"
    by (cases "udp_lookup (re_dns R) (re_os R) (qu_name q) (qu_query_type q) la w")
  then have la: "local_answer R la q w = or_empty (try_timeout (local_res, re_secs R w) (Some 5))" by (simp add: local_answer_def)
  from assms l obtain remote w2 where r: "timed_socks5_lookup R (qu_name q) (qu_query_type q) sa ra w1 = Ret (remote, w2)"
    by (auto simp: acl_lookup_def Let_def rust_bind_Ret_iff)
  obtain b1 c1 where b1: "relay_bypassed R ctx (DomainNameAddress (dns_name_to_string (re_dns R) (qu_name q)) 0) = (b1, c1)"
    by (cases "relay_bypassed R ctx (DomainNameAddress (dns_name_to_string (re_dns R) (qu_name q)) 0)")
  obtain b2 where b2: "any_ip_bypassed R (msg_answers (local_answer R la q w)) False c1 = (b2, ctx')"
    using assms l r b1 la by (auto simp: acl_lookup_def Let_def split: prod.splits)
  have result: "result = (if msg_answers (local_answer R la q w) = [] then or_empty remote
      else if msg_answers (or_empty remote) = [] then local_answer R la q w
      else if b1 then local_answer R la q w else if b2 then local_answer R la q w else or_empty remote)"
    using assms l r b1 b2 la by (auto simp: acl_lookup_def Let_def split: if_splits)
  have cfg: "ctx_config c1 = ctx_config ctx" "ctx_config ctx' = ctx_config ctx"
    using relay_bypassed_configD [OF b1] any_ip_bypassed_config [of R "msg_answers (local_answer R la q w)" False c1]
    by (simp_all add: b2)
  have none: "\<not> b1 \<and> \<not> b2" if "cfg_acl (ctx_config ctx) = None"
  proof -
    have "(b1, c1) = (False, ctx)" by (rule trans [OF b1 [symmetric] relay_bypassed_no_acl [OF that]])
    moreover from this have "(b2, ctx') = (False, ctx)"
      using trans [OF b2 [symmetric] any_ip_bypassed_no_acl] that by blast
    ultimately show ?thesis by blast
  qed
  have "(msg_answers result = msg_answers (local_answer R la q w) \<or> msg_answers result = msg_answers (or_empty remote))
      \<and> (msg_answers result = [] \<longrightarrow> msg_answers (local_answer R la q w) = [] \<and> msg_answers (or_empty remote) = [])
      \<and> (msg_answers (local_answer R la q w) \<noteq> [] \<and> b1 \<longrightarrow> msg_answers result = msg_answers (local_answer R la q w))
      \<and> (msg_answers (or_empty remote) \<noteq> [] \<and> cfg_acl (ctx_config ctx) = None \<longrightarrow> msg_answers result = msg_answers (or_empty remote))"
    using none unfolding result by (auto split: if_splits)
  then show ?thesis using r cfg(2) unfolding b1 fst_conv by blast
qed

text \<open>
  A name server whose answer is longer than the buffer: once the SOCKS5 server has connected, an announced length of
  more than 512 bytes panics the look-up.
\<close>

lemma long_answer_panics:
  assumes "length req \<le> 512" "512 < unat hi * 256 + unat lo"
  shows "tcp_exchange D (pipe_io peer) req (hi # lo # rest, out) = Panic"
  using assms by (simp add: tcp_exchange_def pipe_io_def cursor_read_exact_def Let_def)

section \<open>An example\<close>

definition sample_dns :: "(string, unit, unit) dns_lib" where
  "sample_dns =
     \<lparr>dns_to_vec = \<lambda>_. Inr [], dns_from_vec = \<lambda>_. Inr (Message_new\<lparr>msg_answers := [\<lparr>rec_rdata = RData_A (Ipv4Addr 9 9 9 9), rec_rest = ()\<rparr>]\<rparr>),
      dns_name_to_string = id, dns_name_to_ascii = id\<rparr>"

definition sample_relay ::
    "(string, unit, unit, ipv4_addr, ipv6_addr, ipv4_addr list, ipv6_addr list, string list, ip_addr \<rightharpoonup> string, unit, unit) relay_env" where
  "sample_relay =
     \<lparr>re_dns = sample_dns,
      re_os = \<lparr>do_udp_bind = \<lambda>_ w. (Inr (), w), do_udp_send = \<lambda>_ _ w. (Inr 0, w),
               do_udp_recv = \<lambda>w. (Inr ([], SocketAddrV4 (Ipv4Addr 8 8 8 8) 53), w),
               do_tcp_connect = \<lambda>_ w. (Inl (IoError ConnectionRefused ''refused''), w)\<rparr>,
      re_io = undefined, re_acl = sample_acl_lib,
      re_cache = \<lparr>lru_with_capacity = \<lambda>_. Map.empty, lru_insert = \<lambda>l k v. l(k \<mapsto> v), lru_get = \<lambda>l k. (l k, l)\<rparr>,
      re_android = False, re_resolve = \<lambda>_ _. Inr [], re_secs = \<lambda>_. 0\<rparr>"

lemma sample_relay_keeps: "lru_keeps (re_cache sample_relay) n"
proof -
  have "fold (\<lambda>(k, v) l. l(k \<mapsto> v)) kvs l k = l k" if "k \<notin> fst ` set kvs" for kvs and l :: "ip_addr \<rightharpoonup> string" and k
    using that by (induction kvs arbitrary: l) auto
  then show ?thesis by (simp add: lru_keeps_def sample_relay_def)
qed

definition dns_context :: "(unit, ipv4_addr list, ipv6_addr list, string list, ip_addr \<rightharpoonup> string) Context" where
  "dns_context =
     \<lparr>ctx_config = (Config_new Socks5Local)\<lparr>cfg_acl := Some
        (let none = Rules_new sample_acl_lib [] [] [] in
         \<lparr>acl_outbound_block = none, acl_black_list = Rules_new sample_acl_lib [] [] [''example.org''], acl_white_list = none,
          acl_mode = BlackList\<rparr>)\<rparr>,
      ctx_server_running = True, ctx_nonce_ppbloom = undefined, ctx_local_flow_statistic = ServerFlowStatistic_new,
      ctx_reverse_lookup_cache = Map.empty\<rparr>"

definition dns_request :: "(string, unit, unit) Message" where
  "dns_request = Message_new\<lparr>msg_id := 7, msg_queries := [\<lparr>qu_name = ''example.org'', qu_query_type = ()\<rparr>]\<rparr>"

lemma dns_context_bypassed: "fst (relay_bypassed sample_relay dns_context (DomainNameAddress ''example.org'' 0))"
  by (simp add: relay_bypassed_domain)
     (simp add: dns_context_def sample_relay_def acl_check_target_bypassed_def check_address_matched_def check_host_matched_def
       Rules_new_def sample_acl_lib_def Let_def)
lemma sample_lookup:
  "\<exists>ctx'. acl_lookup sample_relay dns_context la ra sa ''example.org'' () () =
     Ret (Message_new\<lparr>msg_answers := [\<lparr>rec_rdata = RData_A (Ipv4Addr 9 9 9 9), rec_rest = ()\<rparr>]\<rparr>, ctx', ())"
proof -
  have "udp_lookup (re_dns sample_relay) (re_os sample_relay) ''example.org'' () la () =
      (Inr (Message_new\<lparr>msg_answers := [\<lparr>rec_rdata = RData_A (Ipv4Addr 9 9 9 9), rec_rest = ()\<rparr>]\<rparr>), ())"
    by (simp add: udp_lookup_def sample_relay_def sample_dns_def)
  moreover have "timed_socks5_lookup sample_relay ''example.org'' () sa ra () =
      Ret (Inl (IoError ConnectionRefused ''refused''), ())"
    by (simp add: timed_socks5_lookup_def socks5_lookup_def try_timeout_def sample_relay_def)
  moreover have "re_secs sample_relay () = 0" by (simp add: sample_relay_def)
  ultimately show ?thesis
    by (simp add: acl_lookup_def Let_def or_empty_def try_timeout_def prod.case_eq_if) (simp add: Message_new_def)
qed


end
