(* ===== verification/Programs.thy ===== *)
theory Programs
  imports Startup Dns_Relay
begin

text \<open>
  The programs, \<^verbatim>\<open>src/bin\<close>: how the arguments of \<^verbatim>\<open>sslocal\<close>, \<^verbatim>\<open>sstunnel\<close>, \<^verbatim>\<open>ssredir\<close>, \<^verbatim>\<open>ssserver\<close>, \<^verbatim>\<open>ssmanager\<close> and \<^verbatim>\<open>ssurl\<close> and the
  configuration file become the configuration that the library runs. The argument parser \<^verbatim>\<open>clap\<close> is a parameter: the
  values of the arguments that it found.
\<close>

section \<open>Arguments\<close>

record matches =
  value_of :: "string \<Rightarrow> string option"
  is_present :: "string \<Rightarrow> bool"

text \<open>The libraries, the files of the system by name and the compile-time choices.\<close>

record ('c, 'n, 'm, 'r, 's, 'x) prog_env =
  pe_lib :: "'c crypto_lib"
  pe_url :: url_lib
  pe_json :: json_lib
  pe_acl :: "('n, 'm, 'r, 's, 'x) acl_lib"
  pe_config_file :: "string \<Rightarrow> string + string"
  pe_acl_file :: "string \<Rightarrow> io_error + (io_error + string) list"
  pe_android :: bool
  pe_dns_relay :: bool

text \<open>A program ends with a message or runs the library with a configuration.\<close>

datatype 'a program = Exit | Run 'a

definition unwrap_err :: "'e + 'a \<Rightarrow> 'a rust" where
  "unwrap_err r = (case r of Inl _ \<Rightarrow> Panic | Inr x \<Rightarrow> Ret x)"

lemma unwrap_err_Ret_iff [simp]: "unwrap_err r = Ret x \<longleftrightarrow> r = Inr x"
  by (cases r) (simp_all add: unwrap_err_def)

definition config_arg ::
    "('c, 'n, 'm, 'r, 's, 'x) prog_env \<Rightarrow> matches \<Rightarrow> ConfigType \<Rightarrow> ('r, 's, 'x) Config program rust" where
  "config_arg E M config_type =
     (case value_of M ''CONFIG'' of
        Some cpath \<Rightarrow>
          rust_bind (config_load_from_file (pe_lib E) (pe_json E) (pe_config_file E cpath) config_type) (\<lambda>r.
            Ret (case r of Inr cfg \<Rightarrow> Run cfg | Inl err \<Rightarrow> Exit))
      | None \<Rightarrow> Ret (Run (Config_new config_type)))"

definition push_server :: "ServerConfig \<Rightarrow> ('r, 's, 'x) Config \<Rightarrow> ('r, 's, 'x) Config" where
  "push_server sc config = config\<lparr>cfg_server := cfg_server config @ [sc]\<rparr>"

definition server_arg ::
    "('c, 'n, 'm, 'r, 's, 'x) prog_env \<Rightarrow> matches \<Rightarrow> ('r, 's, 'x) Config \<Rightarrow> ('r, 's, 'x) Config rust" where
  "server_arg E M config =
     (case value_of M ''SERVER_ADDR'' of
        None \<Rightarrow> Ret config
      | Some svr_addr \<Rightarrow>
          rust_bind (expect (value_of M ''PASSWORD'')) (\<lambda>password.
          rust_bind (expect (value_of M ''ENCRYPT_METHOD'')) (\<lambda>meth.
          rust_bind (unwrap_err (CipherType_from_str meth)) (\<lambda>meth.
          rust_bind (unwrap_err (ServerAddr_from_str svr_addr)) (\<lambda>addr.
          rust_bind (ServerConfig_new (pe_lib E) addr password meth None None) (\<lambda>sc.
            Ret (push_server sc config)))))))"

definition url_arg ::
    "('c, 'n, 'm, 'r, 's, 'x) prog_env \<Rightarrow> matches \<Rightarrow> ('r, 's, 'x) Config \<Rightarrow> ('r, 's, 'x) Config rust" where
  "url_arg E M config =
     (case value_of M ''URL'' of
        None \<Rightarrow> Ret config
      | Some url \<Rightarrow>
          rust_bind (from_url (pe_lib E) (pe_url E) url) (\<lambda>r.
          rust_bind (unwrap_err r) (\<lambda>svr_addr. Ret (push_server svr_addr config))))"

definition local_arg :: "matches \<Rightarrow> ('r, 's, 'x) Config \<Rightarrow> ('r, 's, 'x) Config rust" where
  "local_arg M config =
     (case value_of M ''LOCAL_ADDR'' of
        None \<Rightarrow> Ret config
      | Some local_addr \<Rightarrow>
          rust_bind (unwrap_err (ServerAddr_from_str local_addr)) (\<lambda>local_addr. Ret (config\<lparr>cfg_local := Some local_addr\<rparr>)))"

definition forward_arg :: "matches \<Rightarrow> ('r, 's, 'x) Config \<Rightarrow> ('r, 's, 'x) Config rust" where
  "forward_arg M config =
     (case value_of M ''FORWARD_ADDR'' of
        None \<Rightarrow> Ret config
      | Some url \<Rightarrow>
          rust_bind (unwrap_err (Address_from_str url)) (\<lambda>forward_addr. Ret (config\<lparr>cfg_forward := Some forward_addr\<rparr>)))"

definition bind_arg :: "matches \<Rightarrow> ('r, 's, 'x) Config \<Rightarrow> ('r, 's, 'x) Config" where
  "bind_arg M config =
     (case value_of M ''BIND_ADDR'' of
        None \<Rightarrow> config
      | Some bind_addr \<Rightarrow>
          config\<lparr>cfg_local := Some (case parse_ip bind_addr of
                                     Some ip \<Rightarrow> SvrSocketAddr (SocketAddr_new ip 0)
                                   | None \<Rightarrow> SvrDomainName bind_addr 0)\<rparr>)"

definition udp_only_arg :: "matches \<Rightarrow> ('r, 's, 'x) Config \<Rightarrow> ('r, 's, 'x) Config" where
  "udp_only_arg M config =
     (if is_present M ''UDP_ONLY''
      then (if enable_tcp (cfg_mode config) then config\<lparr>cfg_mode := TcpAndUdp\<rparr> else config\<lparr>cfg_mode := UdpOnly\<rparr>)
      else config)"

definition tcp_and_udp_arg :: "matches \<Rightarrow> ('r, 's, 'x) Config \<Rightarrow> ('r, 's, 'x) Config" where
  "tcp_and_udp_arg M config = (if is_present M ''TCP_AND_UDP'' then config\<lparr>cfg_mode := TcpAndUdp\<rparr> else config)"

definition no_delay_arg :: "matches \<Rightarrow> ('r, 's, 'x) Config \<Rightarrow> ('r, 's, 'x) Config" where
  "no_delay_arg M config = (if is_present M ''NO_DELAY'' then config\<lparr>cfg_no_delay := True\<rparr> else config)"

definition plugin_arg :: "matches \<Rightarrow> ('r, 's, 'x) Config \<Rightarrow> ('r, 's, 'x) Config" where
  "plugin_arg M config =
     (case value_of M ''PLUGIN'' of
        None \<Rightarrow> config
      | Some p \<Rightarrow>
          let plugin = \<lparr>pc_plugin = p, pc_plugin_opt = value_of M ''PLUGIN_OPT''\<rparr>
          in config\<lparr>cfg_server := map (\<lambda>svr. set_plugin svr plugin) (cfg_server config)\<rparr>)"

definition nofile_arg :: "matches \<Rightarrow> ('r, 's, 'x) Config \<Rightarrow> ('r, 's, 'x) Config rust" where
  "nofile_arg M config =
     (case value_of M ''NOFILE'' of
        None \<Rightarrow> Ret config
      | Some nofile \<Rightarrow> rust_bind (expect (parse_unsigned (2 ^ 64) nofile)) (\<lambda>n. Ret (config\<lparr>cfg_nofile := Some n\<rparr>)))"

definition acl_arg ::
    "('c, 'n, 'm, 'r, 's, 'x) prog_env \<Rightarrow> matches \<Rightarrow> ('r, 's, 'x) Config \<Rightarrow> ('r, 's, 'x) Config rust" where
  "acl_arg E M config =
     (case value_of M ''ACL'' of
        None \<Rightarrow> Ret config
      | Some acl_file \<Rightarrow>
          rust_bind (unwrap_err (load_from_file (pe_acl E) (pe_acl_file E acl_file))) (\<lambda>acl. Ret (config\<lparr>cfg_acl := Some acl\<rparr>)))"

definition manager_arg :: "matches \<Rightarrow> ('r, 's, 'x) Config \<Rightarrow> ('r, 's, 'x) Config rust" where
  "manager_arg M config =
     (case value_of M ''MANAGER_ADDRESS'' of
        None \<Rightarrow> Ret config
      | Some m \<Rightarrow>
          rust_bind (unwrap_err (ManagerAddr_from_str m)) (\<lambda>a. Ret (config\<lparr>cfg_manager_address := Some a\<rparr>)))"

definition method_arg :: "matches \<Rightarrow> ('r, 's, 'x) Config \<Rightarrow> ('r, 's, 'x) Config rust" where
  "method_arg M config =
     (case value_of M ''ENCRYPT_METHOD'' of
        None \<Rightarrow> Ret config
      | Some meth \<Rightarrow>
          rust_bind (unwrap_err (CipherType_from_str meth)) (\<lambda>t. Ret (config\<lparr>cfg_manager_method := Some t\<rparr>)))"

definition tcp_redir_arg :: "matches \<Rightarrow> ('r, 's, 'x) Config \<Rightarrow> ('r, 's, 'x) Config rust" where
  "tcp_redir_arg M config =
     (case value_of M ''TCP_REDIR'' of
        None \<Rightarrow> Ret config
      | Some t \<Rightarrow> rust_bind (unwrap_err (RedirType_from_str t)) (\<lambda>t. Ret (config\<lparr>cfg_tcp_redir := t\<rparr>)))"

definition udp_redir_arg :: "matches \<Rightarrow> ('r, 's, 'x) Config \<Rightarrow> ('r, 's, 'x) Config rust" where
  "udp_redir_arg M config =
     (case value_of M ''UDP_REDIR'' of
        None \<Rightarrow> Ret config
      | Some t \<Rightarrow> rust_bind (unwrap_err (RedirType_from_str t)) (\<lambda>t. Ret (config\<lparr>cfg_udp_redir := t\<rparr>)))"
text \<open>The arguments of \<^verbatim>\<open>sslocal\<close> on Android and for the DNS relay.\<close>

definition android_arg ::
    "('c, 'n, 'm, 'r, 's, 'x) prog_env \<Rightarrow> matches \<Rightarrow> ('r, 's, 'x) Config \<Rightarrow> ('r, 's, 'x) Config" where
  "android_arg E M config =
     (if pe_android E then
        let config = config\<lparr>cfg_local_dns_path := Some ''local_dns_path''\<rparr>;
            config = (case value_of M ''STAT_PATH'' of Some p \<Rightarrow> config\<lparr>cfg_stat_path := Some p\<rparr> | None \<Rightarrow> config)
        in if is_present M ''VPN_MODE'' then config\<lparr>cfg_protect_path := Some ''protect_path''\<rparr> else config
      else config)"

definition socket_addr_arg ::
    "matches \<Rightarrow> string \<Rightarrow> (socket_addr \<Rightarrow> ('r, 's, 'x) Config \<Rightarrow> ('r, 's, 'x) Config) \<Rightarrow> ('r, 's, 'x) Config \<Rightarrow> ('r, 's, 'x) Config rust" where
  "socket_addr_arg M name store config =
     (case value_of M name of
        None \<Rightarrow> Ret config
      | Some a \<Rightarrow> rust_bind (expect (parse_socket_addr a)) (\<lambda>addr. Ret (store addr config)))"

definition dns_arg ::
    "('c, 'n, 'm, 'r, 's, 'x) prog_env \<Rightarrow> matches \<Rightarrow> ('r, 's, 'x) Config \<Rightarrow> ('r, 's, 'x) Config rust" where
  "dns_arg E M config =
     (if pe_dns_relay E then
        rust_bind (socket_addr_arg M ''LOCAL_DNS_ADDR'' (\<lambda>addr c. c\<lparr>cfg_local_dns_addr := Some addr\<rparr>) config) (\<lambda>config.
        rust_bind (socket_addr_arg M ''REMOTE_DNS_ADDR'' (\<lambda>addr c. c\<lparr>cfg_remote_dns_addr := Some addr\<rparr>) config) (\<lambda>config.
          socket_addr_arg M ''DNS_RELAY_ADDR'' (\<lambda>addr c. c\<lparr>cfg_dns_relay_addr := Some addr\<rparr>) config))
      else Ret config)"

section \<open>The programs\<close>

definition complete_local :: "('r, 's, 'x) Config \<Rightarrow> ('r, 's, 'x) Config program" where
  "complete_local config =
     (if cfg_local config = None then Exit
      else if cfg_server config = [] then Exit
      else Run config)"

definition mode_args :: "matches \<Rightarrow> ('r, 's, 'x) Config \<Rightarrow> ('r, 's, 'x) Config" where
  "mode_args M config = no_delay_arg M (tcp_and_udp_arg M (udp_only_arg M config))"

definition protocol_arg :: "matches \<Rightarrow> ConfigType rust" where
  "protocol_arg M =
     (case value_of M ''PROTOCOL'' of
        None \<Rightarrow> Ret Socks5Local
      | Some p \<Rightarrow> if p = ''socks5'' then Ret Socks5Local else if p = ''http'' then Ret HttpLocal else Panic)"

definition sslocal_main ::
    "('c, 'n, 'm, 'r, 's, 'x) prog_env \<Rightarrow> matches \<Rightarrow> ('r, 's, 'x) Config program rust" where
  "sslocal_main E M =
     rust_bind (protocol_arg M) (\<lambda>config_type.
     rust_bind (config_arg E M config_type) (\<lambda>loaded.
       case loaded of
         Exit \<Rightarrow> Ret Exit
       | Run config \<Rightarrow>
           rust_bind (server_arg E M config) (\<lambda>config.
           rust_bind (dns_arg E M (android_arg E M config)) (\<lambda>config.
           rust_bind (url_arg E M config) (\<lambda>config.
           rust_bind (local_arg M config) (\<lambda>config.
           rust_bind (nofile_arg M (plugin_arg M (mode_args M config))) (\<lambda>config.
           rust_bind (acl_arg E M config) (\<lambda>config.
             Ret (complete_local config)))))))))"

definition sstunnel_main ::
    "('c, 'n, 'm, 'r, 's, 'x) prog_env \<Rightarrow> matches \<Rightarrow> ('r, 's, 'x) Config program rust" where
  "sstunnel_main E M =
     rust_bind (config_arg E M TunnelLocal) (\<lambda>loaded.
       case loaded of
         Exit \<Rightarrow> Ret Exit
       | Run config \<Rightarrow>
           rust_bind (server_arg E M config) (\<lambda>config.
           rust_bind (url_arg E M config) (\<lambda>config.
           rust_bind (local_arg M config) (\<lambda>config.
           rust_bind (forward_arg M config) (\<lambda>config.
           rust_bind (nofile_arg M (plugin_arg M (mode_args M config))) (\<lambda>config.
             Ret (complete_local config)))))))"

definition ssredir_main ::
    "('c, 'n, 'm, 'r, 's, 'x) prog_env \<Rightarrow> matches \<Rightarrow> ('r, 's, 'x) Config program rust" where
  "ssredir_main E M =
     rust_bind (config_arg E M RedirLocal) (\<lambda>loaded.
       case loaded of
         Exit \<Rightarrow> Ret Exit
       | Run config \<Rightarrow>
           rust_bind (server_arg E M config) (\<lambda>config.
           rust_bind (url_arg E M config) (\<lambda>config.
           rust_bind (local_arg M config) (\<lambda>config.
           rust_bind (forward_arg M config) (\<lambda>config.
           rust_bind (nofile_arg M (plugin_arg M (mode_args M config))) (\<lambda>config.
           rust_bind (acl_arg E M config) (\<lambda>config.
           rust_bind (tcp_redir_arg M config) (\<lambda>config.
           rust_bind (udp_redir_arg M config) (\<lambda>config.
             Ret (complete_local config))))))))))"

definition ssserver_main ::
    "('c, 'n, 'm, 'r, 's, 'x) prog_env \<Rightarrow> matches \<Rightarrow> ('r, 's, 'x) Config program rust" where
  "ssserver_main E M =
     rust_bind (config_arg E M Server) (\<lambda>loaded.
       case loaded of
         Exit \<Rightarrow> Ret Exit
       | Run config \<Rightarrow>
           rust_bind (server_arg E M config) (\<lambda>config.
           rust_bind (manager_arg M (plugin_arg M (mode_args M (bind_arg M config)))) (\<lambda>config.
           rust_bind (nofile_arg M config) (\<lambda>config.
           rust_bind (acl_arg E M config) (\<lambda>config.
             Ret (if cfg_server config = [] then Exit else Run config))))))"

definition ssmanager_main ::
    "('c, 'n, 'm, 'r, 's, 'x) prog_env \<Rightarrow> matches \<Rightarrow> ('r, 's, 'x) Config program rust" where
  "ssmanager_main E M =
     rust_bind (config_arg E M Manager) (\<lambda>loaded.
       case loaded of
         Exit \<Rightarrow> Ret Exit
       | Run config \<Rightarrow>
           rust_bind (method_arg M config) (\<lambda>config.
           rust_bind (manager_arg M (mode_args M (bind_arg M config))) (\<lambda>config.
           rust_bind (nofile_arg M config) (\<lambda>config.
           rust_bind (acl_arg E M config) (\<lambda>config.
             Ret (if cfg_manager_address config = None then Exit else Run config))))))"

text \<open>The end of a program: \<open>None\<close> is a signal to stop; the end of the servers is always a panic.\<close>

definition block_on :: "(io_error + unit) option \<Rightarrow> unit rust" where
  "block_on finished = (case finished of None \<Rightarrow> Ret () | Some _ \<Rightarrow> Panic)"

section \<open>Server URLs\<close>

text \<open>
  What \<^verbatim>\<open>ssurl\<close> prints; \<open>qrcode\<close> gives the modules of a code, row by row, or an error.
\<close>

definition BLACK :: string where "BLACK = CHR 0x1B # ''[40m  '' @ CHR 0x1B # ''[0m''"
definition WHITE :: string where "WHITE = CHR 0x1B # ''[47m  '' @ CHR 0x1B # ''[0m''"

definition print_qrcode :: "(bytes \<Rightarrow> bool list list option) \<Rightarrow> string \<Rightarrow> string rust" where
  "print_qrcode qrcode encoded =
     rust_bind (expect (qrcode (as_bytes encoded))) (\<lambda>rows.
       let width = length rows;
           border = concat (replicate (width + 2) WHITE) @ newline
       in Ret (border @ concat (map (\<lambda>row. WHITE @ concat (map (\<lambda>dark. if dark then BLACK else WHITE) row) @ WHITE @ newline) rows)
               @ border))"

fun encode_servers :: "url_lib \<Rightarrow> (bytes \<Rightarrow> bool list list option) \<Rightarrow> bool \<Rightarrow> ServerConfig list \<Rightarrow> string rust" where
  "encode_servers U qrcode need_qrcode [] = Ret []"
| "encode_servers U qrcode need_qrcode (svr # svrs) =
     rust_bind (if need_qrcode then print_qrcode qrcode (to_qrcode_url U svr) else Ret []) (\<lambda>code.
     rust_bind (encode_servers U qrcode need_qrcode svrs) (\<lambda>rest.
       Ret (to_url U svr @ newline @ code @ rest)))"

definition encode_file ::
    "('c, 'n, 'm, 'r, 's, 'x) prog_env \<Rightarrow> (bytes \<Rightarrow> bool list list option) \<Rightarrow> string \<Rightarrow> bool \<Rightarrow> string rust" where
  "encode_file E qrcode filename need_qrcode =
     rust_bind (config_load_from_file (pe_lib E) (pe_json E) (pe_config_file E filename) Server) (\<lambda>r.
     rust_bind (unwrap_err r) (\<lambda>config :: ('r, 's, 'x) Config.
       encode_servers (pe_url E) qrcode need_qrcode (cfg_server config)))"

definition decode_url ::
    "('c, 'n, 'm, 'r, 's, 'x) prog_env \<Rightarrow> (bytes \<Rightarrow> bool list list option) \<Rightarrow> string \<Rightarrow> bool \<Rightarrow> string rust" where
  "decode_url E qrcode encoded need_qrcode =
     rust_bind (from_url (pe_lib E) (pe_url E) encoded) (\<lambda>r.
     rust_bind (unwrap_err r) (\<lambda>svrconfig.
     let config = push_server svrconfig (Config_new Server) :: ('r, 's, 'x) Config in
     rust_bind (Config_display (pe_json E) config) (\<lambda>shown.
     rust_bind (if need_qrcode then print_qrcode qrcode encoded else Ret []) (\<lambda>code.
       Ret (shown @ newline @ code)))))"

definition ssurl_main ::
    "('c, 'n, 'm, 'r, 's, 'x) prog_env \<Rightarrow> (bytes \<Rightarrow> bool list list option) \<Rightarrow> matches \<Rightarrow> string rust" where
  "ssurl_main E qrcode M =
     (let need_qrcode = is_present M ''QRCODE'' in
      case value_of M ''ENCODE'' of
        Some file \<Rightarrow> encode_file E qrcode file need_qrcode
      | None \<Rightarrow>
          (case value_of M ''DECODE'' of
             Some encoded \<Rightarrow> decode_url E qrcode encoded need_qrcode
           | None \<Rightarrow> Ret (''Use -h for more detail'' @ newline)))"
section \<open>Well-formed configurations\<close>

text \<open>A server whose key is the one of its password and method, and that no plugin stands before yet.\<close>

definition server_typed :: "'c crypto_lib \<Rightarrow> ServerConfig \<Rightarrow> bool" where
  "server_typed L svr \<longleftrightarrow>
     bytes_to_key L (sc_method svr) (as_bytes (sc_password svr)) = Ret (sc_enc_key svr) \<and> sc_plugin_addr svr = None"

definition config_typed :: "'c crypto_lib \<Rightarrow> ConfigType \<Rightarrow> ('r, 's, 'x) Config \<Rightarrow> bool" where
  "config_typed L ty config \<longleftrightarrow> cfg_config_type config = ty \<and> (\<forall>svr \<in> set (cfg_server config). server_typed L svr)"

lemma bytes_to_key_length:
  assumes "digest_lib_ok L" "bytes_to_key L t pwd = Ret key"
  shows "key_size L t = Ret (length key)"
proof -
  have size: "md5_output_size L = 16" using assms(1) by (simp add: digest_lib_ok_def)
  from assms(2) obtain iv_len key_len where s: "iv_size L t = Ret iv_len" "key_size L t = Ret key_len"
    by (auto simp: bytes_to_key_def classic_bytes_to_key_def rust_bind_Ret_iff Let_def)
  have "key = take key_len (evp_stream L pwd ((key_len + iv_len + 16 - 1) div 16))"
    using assms(2) s by (auto simp: bytes_to_key_def classic_bytes_to_key_def size bytes_to_key_loop_evp Let_def split: if_splits)
  moreover have "key_len \<le> 16 * ((key_len + iv_len + 16 - 1) div 16)" by simp
  ultimately have "length key = key_len" by (simp add: length_evp_stream [OF assms(1)])
  with s(2) show ?thesis by simp
qed

lemma ServerConfig_new_typed: "ServerConfig_new L addr pwd m t pl = Ret s \<Longrightarrow> server_typed L s"
  by (auto simp: ServerConfig_new_def server_typed_def rust_bind_Ret_iff)

lemma from_url_typed: "from_url L U url = Ret (Inr s) \<Longrightarrow> server_typed L s"
  by (auto simp: from_url_def Let_def rust_bind_Ret_iff split: option.splits if_splits prod.splits sum.splits
      dest: ServerConfig_new_typed)

lemma loaded_config_typed:
  assumes "config_load_from_file L J content ty = Ret (Inr config)"
  shows "config_typed L ty config"
proof -
  from assms obtain sc where sc: "load_from_ssconfig L sc ty = Ret (Inr config)"
    by (auto simp: config_load_from_file_def load_from_str_def split: sum.splits)
  obtain m where servers: "\<forall>s \<in> set (cfg_server config). loaded_with L (ss_timeout sc) s"
    and c: "config = (Config_new ty)\<lparr>cfg_local := cfg_local config, cfg_server := cfg_server config,
        cfg_manager_address := load_manager sc, cfg_dns := ss_dns sc, cfg_mode := m, cfg_no_delay := (ss_no_delay sc = Some True),
        cfg_udp_timeout := ss_udp_timeout sc, cfg_nofile := ss_nofile sc, cfg_timeout := ss_timeout sc\<rparr>"
    by (rule load_from_ssconfig_Inr [OF sc])
  have "cfg_config_type config = ty" by (subst c) (simp add: Config_new_def)
  moreover have "server_typed L s" if "loaded_with L t s" for s t
    using that by (auto simp: loaded_with_def loaded_server_def intro: ServerConfig_new_typed)
  ultimately show ?thesis using servers unfolding config_typed_def by blast
qed
lemma config_typed_new [simp]: "config_typed L ty (Config_new ty)"
  by (simp add: config_typed_def Config_new_def)

lemma config_typed_push: "\<lbrakk>config_typed L ty config; server_typed L svr\<rbrakk> \<Longrightarrow> config_typed L ty (push_server svr config)"
  by (auto simp: config_typed_def push_server_def)

text \<open>Every argument keeps the type of a configuration.\<close>

lemma config_arg_typed:
  fixes config :: "('r, 's, 'x) Config"
  assumes "config_arg E M ty = Ret (Run config)"
  shows "config_typed (pe_lib E) ty config"
proof (cases "value_of M ''CONFIG''")
  case None
  with assms show ?thesis by (auto simp: config_arg_def)
next
  case (Some cpath)
  with assms obtain r :: "ConfigError + ('r, 's, 'x) Config" where r: "config_load_from_file (pe_lib E) (pe_json E) (pe_config_file E cpath) ty = Ret r"
    by (auto simp: config_arg_def rust_bind_Ret_iff)
  with assms Some loaded_config_typed show ?thesis by (cases r) (auto simp: config_arg_def)
qed

lemma server_arg_typed:
  "\<lbrakk>server_arg E M config = Ret config'; config_typed (pe_lib E) ty config\<rbrakk> \<Longrightarrow> config_typed (pe_lib E) ty config'"
  by (auto simp: server_arg_def rust_bind_Ret_iff intro!: config_typed_push dest: ServerConfig_new_typed split: option.splits)

lemma url_arg_typed:
  "\<lbrakk>url_arg E M config = Ret config'; config_typed (pe_lib E) ty config\<rbrakk> \<Longrightarrow> config_typed (pe_lib E) ty config'"
  by (auto simp: url_arg_def rust_bind_Ret_iff intro!: config_typed_push dest: from_url_typed split: option.splits)

lemma other_args_typed:
  "\<lbrakk>local_arg M config = Ret config'; config_typed L ty config\<rbrakk> \<Longrightarrow> config_typed L ty config'"
  "\<lbrakk>forward_arg M config = Ret config'; config_typed L ty config\<rbrakk> \<Longrightarrow> config_typed L ty config'"
  "\<lbrakk>nofile_arg M config = Ret config'; config_typed L ty config\<rbrakk> \<Longrightarrow> config_typed L ty config'"
  "\<lbrakk>acl_arg E M config = Ret config'; config_typed L ty config\<rbrakk> \<Longrightarrow> config_typed L ty config'"
  "\<lbrakk>manager_arg M config = Ret config'; config_typed L ty config\<rbrakk> \<Longrightarrow> config_typed L ty config'"
  "\<lbrakk>method_arg M config = Ret config'; config_typed L ty config\<rbrakk> \<Longrightarrow> config_typed L ty config'"
  "\<lbrakk>tcp_redir_arg M config = Ret config'; config_typed L ty config\<rbrakk> \<Longrightarrow> config_typed L ty config'"
  "\<lbrakk>udp_redir_arg M config = Ret config'; config_typed L ty config\<rbrakk> \<Longrightarrow> config_typed L ty config'"
  by (auto simp: local_arg_def forward_arg_def nofile_arg_def acl_arg_def manager_arg_def method_arg_def tcp_redir_arg_def
      udp_redir_arg_def rust_bind_Ret_iff config_typed_def split: option.splits)

lemmas local_arg_typed = other_args_typed(1) and forward_arg_typed = other_args_typed(2)
  and nofile_arg_typed = other_args_typed(3) and acl_arg_typed = other_args_typed(4)
  and manager_arg_typed = other_args_typed(5) and method_arg_typed = other_args_typed(6)
  and tcp_redir_arg_typed = other_args_typed(7) and udp_redir_arg_typed = other_args_typed(8)

lemma pure_args_typed:
  "config_typed L ty config \<Longrightarrow> config_typed L ty (bind_arg M config)"
  "config_typed L ty config \<Longrightarrow> config_typed L ty (mode_args M config)"
  "config_typed L ty config \<Longrightarrow> config_typed L ty (plugin_arg M config)"
  "config_typed L ty config \<Longrightarrow> config_typed L ty (android_arg E M config)"
  by (auto simp: bind_arg_def mode_args_def no_delay_arg_def tcp_and_udp_arg_def udp_only_arg_def plugin_arg_def android_arg_def
      config_typed_def server_typed_def set_plugin_def Let_def split: option.splits)

lemmas bind_arg_typed = pure_args_typed(1) and mode_args_typed = pure_args_typed(2)
  and plugin_arg_typed = pure_args_typed(3) and android_arg_typed = pure_args_typed(4)

lemma socket_addr_arg_typed:
  "\<lbrakk>socket_addr_arg M name store config = Ret config'; config_typed L ty config;
    \<And>a. config_typed L ty (store a config) = config_typed L ty config\<rbrakk> \<Longrightarrow> config_typed L ty config'"
  by (auto simp: socket_addr_arg_def rust_bind_Ret_iff split: option.splits)

lemma dns_arg_typed:
  assumes "dns_arg E M config = Ret config'" "config_typed L ty config"
  shows "config_typed L ty config'"
proof (cases "pe_dns_relay E")
  case True
  with assms(1) obtain c1 c2 where
    "socket_addr_arg M ''LOCAL_DNS_ADDR'' (\<lambda>addr c. c\<lparr>cfg_local_dns_addr := Some addr\<rparr>) config = Ret c1"
    "socket_addr_arg M ''REMOTE_DNS_ADDR'' (\<lambda>addr c. c\<lparr>cfg_remote_dns_addr := Some addr\<rparr>) c1 = Ret c2"
    "socket_addr_arg M ''DNS_RELAY_ADDR'' (\<lambda>addr c. c\<lparr>cfg_dns_relay_addr := Some addr\<rparr>) c2 = Ret config'"
    by (auto simp: dns_arg_def rust_bind_Ret_iff)
  with assms(2) show ?thesis by (elim socket_addr_arg_typed) (simp_all add: config_typed_def)
qed (use assms in \<open>simp add: dns_arg_def\<close>)
text \<open>The addresses of the DNS relay and of the forwarding are kept by the arguments that follow.\<close>

definition dns_fields :: "('r, 's, 'x) Config \<Rightarrow> socket_addr option \<times> socket_addr option \<times> socket_addr option" where
  "dns_fields config = (cfg_local_dns_addr config, cfg_remote_dns_addr config, cfg_dns_relay_addr config)"

lemma args_keep_fields:
  "url_arg E M config = Ret config' \<Longrightarrow> dns_fields config' = dns_fields config \<and> cfg_forward config' = cfg_forward config"
  "local_arg M config = Ret config' \<Longrightarrow> dns_fields config' = dns_fields config \<and> cfg_forward config' = cfg_forward config"
  "nofile_arg M config = Ret config' \<Longrightarrow> dns_fields config' = dns_fields config \<and> cfg_forward config' = cfg_forward config"
  "acl_arg E M config = Ret config' \<Longrightarrow> dns_fields config' = dns_fields config \<and> cfg_forward config' = cfg_forward config"
  by (auto simp: url_arg_def local_arg_def nofile_arg_def acl_arg_def push_server_def dns_fields_def rust_bind_Ret_iff
      split: option.splits)

lemma pure_args_keep_fields [simp]:
  "dns_fields (mode_args M config) = dns_fields config" "cfg_forward (mode_args M config) = cfg_forward config"
  "dns_fields (plugin_arg M config) = dns_fields config" "cfg_forward (plugin_arg M config) = cfg_forward config"
  by (auto simp: dns_fields_def mode_args_def no_delay_arg_def tcp_and_udp_arg_def udp_only_arg_def plugin_arg_def Let_def
      split: option.splits)

lemma complete_local_Run_iff:
  "complete_local config = Run config' \<longleftrightarrow> config' = config \<and> cfg_local config \<noteq> None \<and> cfg_server config \<noteq> []"
  by (auto simp: complete_local_def)

lemma forward_arg_some:
  "\<lbrakk>forward_arg M config = Ret config'; value_of M ''FORWARD_ADDR'' \<noteq> None\<rbrakk> \<Longrightarrow> cfg_forward config' \<noteq> None"
  by (auto simp: forward_arg_def rust_bind_Ret_iff)

lemma socket_addr_arg_some:
  "\<lbrakk>socket_addr_arg M name store config = Ret config'; value_of M name \<noteq> None\<rbrakk> \<Longrightarrow> \<exists>a. config' = store a config"
  by (auto simp: socket_addr_arg_def rust_bind_Ret_iff)

lemma dns_arg_some:
  assumes "dns_arg E M config = Ret config'" "pe_dns_relay E" "value_of M ''LOCAL_DNS_ADDR'' \<noteq> None"
    "value_of M ''REMOTE_DNS_ADDR'' \<noteq> None" "value_of M ''DNS_RELAY_ADDR'' \<noteq> None"
  shows "\<exists>a b c. dns_fields config' = (Some a, Some b, Some c)"
proof -
  from assms obtain c1 c2 where
    "socket_addr_arg M ''LOCAL_DNS_ADDR'' (\<lambda>addr c. c\<lparr>cfg_local_dns_addr := Some addr\<rparr>) config = Ret c1"
    "socket_addr_arg M ''REMOTE_DNS_ADDR'' (\<lambda>addr c. c\<lparr>cfg_remote_dns_addr := Some addr\<rparr>) c1 = Ret c2"
    "socket_addr_arg M ''DNS_RELAY_ADDR'' (\<lambda>addr c. c\<lparr>cfg_dns_relay_addr := Some addr\<rparr>) c2 = Ret config'"
    by (auto simp: dns_arg_def rust_bind_Ret_iff)
  then show ?thesis using assms(3-5) by (auto simp: dns_fields_def dest!: socket_addr_arg_some)
qed

text \<open>What the programs hand to the library.\<close>

lemma sslocal_main_Run:
  assumes "sslocal_main E M = Ret (Run config)"
  obtains ty where "ty \<in> {Socks5Local, HttpLocal}" "config_typed (pe_lib E) ty config" "cfg_local config \<noteq> None"
    "cfg_server config \<noteq> []"
    "\<lbrakk>pe_dns_relay E; value_of M ''LOCAL_DNS_ADDR'' \<noteq> None; value_of M ''REMOTE_DNS_ADDR'' \<noteq> None;
      value_of M ''DNS_RELAY_ADDR'' \<noteq> None\<rbrakk> \<Longrightarrow> \<exists>a b c. dns_fields config = (Some a, Some b, Some c)"
proof -
  from assms obtain ty p where ty: "protocol_arg M = Ret ty" and p: "config_arg E M ty = Ret p"
    by (auto simp: sslocal_main_def rust_bind_Ret_iff)
  with assms obtain c0 where p: "config_arg E M ty = Ret (Run c0)"
    by (cases p) (auto simp: sslocal_main_def)
  with assms ty obtain c1 c2 c3 c4 c5 where steps: "server_arg E M c0 = Ret c1" "dns_arg E M (android_arg E M c1) = Ret c2"
    "url_arg E M c2 = Ret c3" "local_arg M c3 = Ret c4" "nofile_arg M (plugin_arg M (mode_args M c4)) = Ret c5"
    "acl_arg E M c5 = Ret config" "cfg_local config \<noteq> None" "cfg_server config \<noteq> []"
    by (auto simp: sslocal_main_def rust_bind_Ret_iff complete_local_Run_iff)
  have "config_typed (pe_lib E) ty config"
    by (rule acl_arg_typed [OF steps(6) nofile_arg_typed [OF steps(5) plugin_arg_typed [OF mode_args_typed [OF local_arg_typed
        [OF steps(4) url_arg_typed [OF steps(3) dns_arg_typed [OF steps(2) android_arg_typed [OF server_arg_typed
        [OF steps(1) config_arg_typed [OF p]]]]]]]]]])
  moreover have "ty \<in> {Socks5Local, HttpLocal}" using ty by (auto simp: protocol_arg_def split: option.splits if_splits)
  moreover have "dns_fields config = dns_fields c2"
    using args_keep_fields(1) [OF steps(3)] args_keep_fields(2) [OF steps(4)] args_keep_fields(3) [OF steps(5)]
      args_keep_fields(4) [OF steps(6)] by simp
  ultimately show thesis using that steps(7,8) dns_arg_some [OF steps(2)] by simp
qed
lemma sstunnel_main_Run:
  assumes "sstunnel_main E M = Ret (Run config)"
  shows "config_typed (pe_lib E) TunnelLocal config \<and> cfg_local config \<noteq> None \<and> cfg_server config \<noteq> []
    \<and> (value_of M ''FORWARD_ADDR'' \<noteq> None \<longrightarrow> cfg_forward config \<noteq> None)"
proof -
  from assms obtain p where "config_arg E M TunnelLocal = Ret p" by (auto simp: sstunnel_main_def rust_bind_Ret_iff)
  with assms obtain c0 where p: "config_arg E M TunnelLocal = Ret (Run c0)" by (cases p) (auto simp: sstunnel_main_def)
  with assms obtain c1 c2 c3 c4 where steps: "server_arg E M c0 = Ret c1" "url_arg E M c1 = Ret c2" "local_arg M c2 = Ret c3"
    "forward_arg M c3 = Ret c4" "nofile_arg M (plugin_arg M (mode_args M c4)) = Ret config"
    "cfg_local config \<noteq> None" "cfg_server config \<noteq> []"
    by (auto simp: sstunnel_main_def rust_bind_Ret_iff complete_local_Run_iff)
  have "config_typed (pe_lib E) TunnelLocal config"
    by (rule nofile_arg_typed [OF steps(5) plugin_arg_typed [OF mode_args_typed [OF forward_arg_typed [OF steps(4) local_arg_typed
        [OF steps(3) url_arg_typed [OF steps(2) server_arg_typed [OF steps(1) config_arg_typed [OF p]]]]]]]])
  with steps(6,7) args_keep_fields(3) [OF steps(5)] forward_arg_some [OF steps(4)] show ?thesis by simp
qed

lemma ssredir_main_Run:
  assumes "ssredir_main E M = Ret (Run config)"
  shows "config_typed (pe_lib E) RedirLocal config \<and> cfg_local config \<noteq> None \<and> cfg_server config \<noteq> []"
proof -
  from assms obtain p where "config_arg E M RedirLocal = Ret p" by (auto simp: ssredir_main_def rust_bind_Ret_iff)
  with assms obtain c0 where p: "config_arg E M RedirLocal = Ret (Run c0)" by (cases p) (auto simp: ssredir_main_def)
  with assms obtain c1 c2 c3 c4 c5 c6 c7 where steps: "server_arg E M c0 = Ret c1" "url_arg E M c1 = Ret c2" "local_arg M c2 = Ret c3"
    "forward_arg M c3 = Ret c4" "nofile_arg M (plugin_arg M (mode_args M c4)) = Ret c5" "acl_arg E M c5 = Ret c6"
    "tcp_redir_arg M c6 = Ret c7" "udp_redir_arg M c7 = Ret config" "cfg_local config \<noteq> None" "cfg_server config \<noteq> []"
    by (auto simp: ssredir_main_def rust_bind_Ret_iff complete_local_Run_iff)
  have "config_typed (pe_lib E) RedirLocal config"
    by (rule udp_redir_arg_typed [OF steps(8) tcp_redir_arg_typed [OF steps(7) acl_arg_typed [OF steps(6) nofile_arg_typed
        [OF steps(5) plugin_arg_typed [OF mode_args_typed [OF forward_arg_typed [OF steps(4) local_arg_typed
        [OF steps(3) url_arg_typed [OF steps(2) server_arg_typed [OF steps(1) config_arg_typed [OF p]]]]]]]]]]])
  with steps(9,10) show ?thesis by simp
qed

lemma ssserver_main_Run:
  assumes "ssserver_main E M = Ret (Run config)"
  shows "config_typed (pe_lib E) Server config \<and> cfg_server config \<noteq> []"
proof -
  from assms obtain p where "config_arg E M Server = Ret p" by (auto simp: ssserver_main_def rust_bind_Ret_iff)
  with assms obtain c0 where p: "config_arg E M Server = Ret (Run c0)" by (cases p) (auto simp: ssserver_main_def)
  with assms obtain c1 c2 c3 where steps: "server_arg E M c0 = Ret c1"
    "manager_arg M (plugin_arg M (mode_args M (bind_arg M c1))) = Ret c2" "nofile_arg M c2 = Ret c3" "acl_arg E M c3 = Ret config"
    "cfg_server config \<noteq> []"
    by (auto simp: ssserver_main_def rust_bind_Ret_iff split: if_splits)
  have "config_typed (pe_lib E) Server config"
    by (rule acl_arg_typed [OF steps(4) nofile_arg_typed [OF steps(3) manager_arg_typed [OF steps(2) plugin_arg_typed
        [OF mode_args_typed [OF bind_arg_typed [OF server_arg_typed [OF steps(1) config_arg_typed [OF p]]]]]]]])
  with steps(5) show ?thesis by simp
qed

lemma ssmanager_main_Run:
  assumes "ssmanager_main E M = Ret (Run config)"
  shows "config_typed (pe_lib E) Manager config \<and> cfg_manager_address config \<noteq> None"
proof -
  from assms obtain p where "config_arg E M Manager = Ret p" by (auto simp: ssmanager_main_def rust_bind_Ret_iff)
  with assms obtain c0 where p: "config_arg E M Manager = Ret (Run c0)" by (cases p) (auto simp: ssmanager_main_def)
  with assms obtain c1 c2 c3 where steps: "method_arg M c0 = Ret c1"
    "manager_arg M (mode_args M (bind_arg M c1)) = Ret c2" "nofile_arg M c2 = Ret c3" "acl_arg E M c3 = Ret config"
    "cfg_manager_address config \<noteq> None"
    by (auto simp: ssmanager_main_def rust_bind_Ret_iff split: if_splits)
  have "config_typed (pe_lib E) Manager config"
    by (rule acl_arg_typed [OF steps(4) nofile_arg_typed [OF steps(3) manager_arg_typed [OF steps(2) mode_args_typed
        [OF bind_arg_typed [OF method_arg_typed [OF steps(1) config_arg_typed [OF p]]]]]]])
  with steps(5) show ?thesis by simp
qed

text \<open>
  C20. The configurations that the programs run are well typed, whatever the arguments and the file: the kind is the
  program's, and every server has the key that is derived from its password, of exactly the size that its
  method asks for, and no plugin before it.
\<close>

theorem programs_typed:
  assumes lib: "digest_lib_ok (pe_lib E)"
    and run: "(main, types) \<in> {(sslocal_main, {Socks5Local, HttpLocal}), (sstunnel_main, {TunnelLocal}), (ssredir_main, {RedirLocal}),
      (ssserver_main, {Server}), (ssmanager_main, {Manager})}" "main E M = Ret (Run config)"
  shows "cfg_config_type config \<in> types \<and>
    (\<forall>svr \<in> set (cfg_server config). bytes_to_key (pe_lib E) (sc_method svr) (as_bytes (sc_password svr)) = Ret (sc_enc_key svr)
       \<and> key_size (pe_lib E) (sc_method svr) = Ret (length (sc_enc_key svr)) \<and> external_addr svr = sc_addr svr)"
proof -
  from run have "\<exists>ty \<in> types. config_typed (pe_lib E) ty config"
    by (auto dest!: sstunnel_main_Run ssredir_main_Run ssserver_main_Run ssmanager_main_Run elim!: sslocal_main_Run)
  then show ?thesis using bytes_to_key_length [OF lib]
    by (auto simp: config_typed_def server_typed_def external_addr_def)
qed
section \<open>Programs start without a panic\<close>

lemma config_typed_plugins: "config_typed L ty config \<Longrightarrow> plugin_addrs_ok (cfg_server config)"
  by (auto simp: config_typed_def server_typed_def plugin_addrs_ok_def list_all_iff)

lemma pick_first_server: "0 < n \<Longrightarrow> pick_server (pb_best (PingBalancer_new F n)) \<noteq> Panic"
  by (simp add: pick_server_def PingBalancer_new_def BestServer_new_def)

lemma dns_relay_start_no_panic:
  assumes "net_ok LI (re_resolve R)" "cfg_local (ctx_config ctx) \<noteq> None" "dns_fields (ctx_config ctx) = (Some a, Some b, Some c)"
  shows "dns_relay_start R ctx w \<noteq> Panic"
  using assms resolve_bind_addr_no_panic [OF assms(1)]
  by (auto simp: dns_relay_start_def dns_fields_def Let_def rust_bind_Panic_iff split: sum.splits prod.splits)

text \<open>
  What the programs declare to \<^verbatim>\<open>clap\<close>: \<^verbatim>\<open>sstunnel\<close> requires the forwarding address, and the addresses of the DNS relay of
  \<^verbatim>\<open>sslocal\<close> have default values.
\<close>

definition sslocal_args :: "('c, 'n, 'm, 'r, 's, 'x) prog_env \<Rightarrow> matches \<Rightarrow> bool" where
  "sslocal_args E M \<longleftrightarrow>
     (pe_dns_relay E \<longrightarrow> value_of M ''LOCAL_DNS_ADDR'' \<noteq> None \<and> value_of M ''REMOTE_DNS_ADDR'' \<noteq> None
        \<and> value_of M ''DNS_RELAY_ADDR'' \<noteq> None)"

definition sstunnel_args :: "matches \<Rightarrow> bool" where
  "sstunnel_args M \<longleftrightarrow> value_of M ''FORWARD_ADDR'' \<noteq> None"

text \<open>A program of a local server and a configuration that it runs.\<close>

definition local_program ::
    "('c, 'n, 'm, 'r, 's, 'x) prog_env \<Rightarrow> matches \<Rightarrow> ('r, 's, 'x) Config \<Rightarrow> bool" where
  "local_program E M config \<longleftrightarrow>
     sslocal_main E M = Ret (Run config) \<and> sslocal_args E M
   \<or> sstunnel_main E M = Ret (Run config) \<and> sstunnel_args M \<and> \<not> pe_dns_relay E
   \<or> ssredir_main E M = Ret (Run config) \<and> \<not> pe_dns_relay E"

lemma local_program_config:
  assumes "local_program E M config"
  shows "is_local (cfg_config_type config)" "plugin_addrs_ok (cfg_server config)" "cfg_local config \<noteq> None" "cfg_server config \<noteq> []"
    "cfg_config_type config = TunnelLocal \<Longrightarrow> cfg_forward config \<noteq> None"
    "pe_dns_relay E \<Longrightarrow> \<exists>a b c. dns_fields config = (Some a, Some b, Some c)"
proof -
  have "\<exists>ty. config_typed (pe_lib E) ty config \<and> is_local ty \<and> cfg_local config \<noteq> None \<and> cfg_server config \<noteq> []
      \<and> (ty = TunnelLocal \<longrightarrow> cfg_forward config \<noteq> None) \<and> (pe_dns_relay E \<longrightarrow> (\<exists>a b c. dns_fields config = (Some a, Some b, Some c)))"
    using assms unfolding local_program_def
  proof (elim disjE conjE)
    assume "sslocal_main E M = Ret (Run config)" "sslocal_args E M"
    then show ?thesis by (auto elim!: sslocal_main_Run simp: sslocal_args_def)
  next
    assume "sstunnel_main E M = Ret (Run config)" "sstunnel_args M" "\<not> pe_dns_relay E"
    with sstunnel_main_Run [of E M config] show ?thesis by (auto simp: sstunnel_args_def)
  next
    assume "ssredir_main E M = Ret (Run config)" "\<not> pe_dns_relay E"
    with ssredir_main_Run [of E M config] show ?thesis by fastforce
  qed
  then obtain ty where "config_typed (pe_lib E) ty config" "cfg_config_type config = ty" "is_local ty" "cfg_local config \<noteq> None"
    "cfg_server config \<noteq> []" "ty = TunnelLocal \<longrightarrow> cfg_forward config \<noteq> None"
    "pe_dns_relay E \<longrightarrow> (\<exists>a b c. dns_fields config = (Some a, Some b, Some c))"
    by (auto simp: config_typed_def)
  then show "is_local (cfg_config_type config)" "plugin_addrs_ok (cfg_server config)" "cfg_local config \<noteq> None"
    "cfg_server config \<noteq> []" "cfg_config_type config = TunnelLocal \<Longrightarrow> cfg_forward config \<noteq> None"
    "pe_dns_relay E \<Longrightarrow> \<exists>a b c. dns_fields config = (Some a, Some b, Some c)"
    using config_typed_plugins by auto
qed

text \<open>
  The option \<^verbatim>\<open>-u\<close>, described as the mode without TCP, turns the default mode into TCP and UDP: the programs run
  without TCP only if the configuration file says so.
\<close>

lemma udp_only_keeps_tcp: "enable_tcp (cfg_mode config) \<Longrightarrow> enable_tcp (cfg_mode (mode_args M config))"
  by (simp add: mode_args_def no_delay_arg_def tcp_and_udp_arg_def udp_only_arg_def)

text \<open>
  With the DNS relay compiled in, \<^verbatim>\<open>sstunnel\<close> and \<^verbatim>\<open>ssredir\<close> start a relay whose addresses no option sets.
\<close>

lemma loaded_without_dns:
  fixes config :: "('r, 's, 'x) Config"
  assumes "config_arg E M ty = Ret (Run config)"
  shows "dns_fields config = (None, None, None)"
proof (cases "value_of M ''CONFIG''")
  case None
  with assms show ?thesis by (auto simp: config_arg_def dns_fields_def Config_new_def)
next
  case (Some cpath)
  with assms obtain r :: "ConfigError + ('r, 's, 'x) Config"
    where "config_load_from_file (pe_lib E) (pe_json E) (pe_config_file E cpath) ty = Ret r"
    by (auto simp: config_arg_def rust_bind_Ret_iff)
  with assms Some have "config_load_from_file (pe_lib E) (pe_json E) (pe_config_file E cpath) ty = Ret (Inr config)"
    by (cases r) (auto simp: config_arg_def)
  then obtain sc where sc: "load_from_ssconfig (pe_lib E) sc ty = Ret (Inr config)"
    by (auto simp: config_load_from_file_def load_from_str_def split: sum.splits)
  obtain m where c: "config = (Config_new ty)\<lparr>cfg_local := cfg_local config, cfg_server := cfg_server config,
        cfg_manager_address := load_manager sc, cfg_dns := ss_dns sc, cfg_mode := m, cfg_no_delay := (ss_no_delay sc = Some True),
        cfg_udp_timeout := ss_udp_timeout sc, cfg_nofile := ss_nofile sc, cfg_timeout := ss_timeout sc\<rparr>"
    by (rule load_from_ssconfig_Inr [OF sc])
  show ?thesis by (subst c) (simp add: Config_new_def dns_fields_def)
qed

lemma sstunnel_dns_relay_panics:
  assumes run: "sstunnel_main E M = Ret (Run config)" and start: "local_start SE config w = Ret (Inr (ctx, vf), w')"
  shows "dns_relay_start R ctx w1 = Panic"
proof -
  from run obtain p where "config_arg E M TunnelLocal = Ret p" by (auto simp: sstunnel_main_def rust_bind_Ret_iff)
  with run obtain c0 where p: "config_arg E M TunnelLocal = Ret (Run c0)" by (cases p) (auto simp: sstunnel_main_def)
  with run obtain c1 c2 c3 c4 where steps: "server_arg E M c0 = Ret c1" "url_arg E M c1 = Ret c2" "local_arg M c2 = Ret c3"
    "forward_arg M c3 = Ret c4" "nofile_arg M (plugin_arg M (mode_args M c4)) = Ret config"
    by (auto simp: sstunnel_main_def rust_bind_Ret_iff complete_local_Run_iff)
  have "dns_fields c1 = dns_fields c0" "dns_fields c4 = dns_fields c3"
    using steps(1,4) by (auto simp: server_arg_def forward_arg_def push_server_def dns_fields_def rust_bind_Ret_iff split: option.splits)
  then have "dns_fields config = (None, None, None)"
    using loaded_without_dns [OF p] args_keep_fields(1) [OF steps(2)] args_keep_fields(2) [OF steps(3)] args_keep_fields(3) [OF steps(5)]
    by simp
  moreover obtain svrs where "ctx = Context_new (se_bloom SE) (se_cache SE) (config\<lparr>cfg_server := svrs\<rparr>)"
    by (rule local_start_Inr [OF start])
  ultimately show ?thesis by (simp add: dns_relay_start_def dns_fields_def Context_new_def)
qed


definition sample_proxy :: ServerAddr where
  "sample_proxy = SvrSocketAddr (SocketAddrV4 (Ipv4Addr 1 2 3 4) 8388)"

definition sample_matches :: matches where
  "sample_matches =
     \<lparr>value_of = map_of [(''SERVER_ADDR'', ServerAddr_display sample_proxy), (''PASSWORD'', ''pw''), (''ENCRYPT_METHOD'', ''chacha20''),
        (''LOCAL_ADDR'', ServerAddr_display sample_proxy)], is_present = (\<lambda>_. False)\<rparr>"

definition sample_prog_env :: "(CryptoMode, ipv4_addr, ipv6_addr, ipv4_addr list, ipv6_addr list, string list) prog_env" where
  "sample_prog_env =
     \<lparr>pe_lib = sample_lib, pe_url = undefined, pe_json = sample_json, pe_acl = sample_acl_lib, pe_config_file = (\<lambda>_. Inl ''not found''),
      pe_acl_file = (\<lambda>_. Inr []), pe_android = False, pe_dns_relay = False\<rparr>"

lemma sample_matches_simps:
  "value_of sample_matches ''SERVER_ADDR'' = Some (ServerAddr_display sample_proxy)"
  "value_of sample_matches ''LOCAL_ADDR'' = Some (ServerAddr_display sample_proxy)"
  "value_of sample_matches ''PASSWORD'' = Some ''pw''" "value_of sample_matches ''ENCRYPT_METHOD'' = Some ''chacha20''"
  "value_of sample_matches ''CONFIG'' = None" "value_of sample_matches ''PROTOCOL'' = None" "value_of sample_matches ''URL'' = None"
  "value_of sample_matches ''PLUGIN'' = None" "value_of sample_matches ''NOFILE'' = None" "value_of sample_matches ''ACL'' = None"
  "value_of sample_matches ''BIND_ADDR'' = None" "value_of sample_matches ''MANAGER_ADDRESS'' = None"
  "is_present sample_matches x = False"
  by (simp_all add: sample_matches_def)

lemma sample_proxy_parses: "ServerAddr_from_str (ServerAddr_display sample_proxy) = Inr sample_proxy"
  unfolding sample_proxy_def by (rule ServerAddr_round_trip_v4)

lemma sample_server_new: "\<exists>sc. ServerConfig_new sample_lib sample_proxy ''pw'' ChaCha20 None None = Ret sc"
  by (simp add: ServerConfig_new_def bytes_to_key_def classic_bytes_to_key_def Let_def)

definition sample_config :: "ServerConfig \<Rightarrow> ConfigType \<Rightarrow> (ipv4_addr list, ipv6_addr list, string list) Config" where
  "sample_config sc ty = (Config_new ty)\<lparr>cfg_server := [sc], cfg_local := Some sample_proxy\<rparr>"

lemma sample_sslocal_runs:
  obtains sc where "sslocal_main sample_prog_env sample_matches = Ret (Run (sample_config sc Socks5Local))"
    "sc_method sc = ChaCha20" "sc_plugin sc = None"
proof -
  obtain sc where sc: "ServerConfig_new sample_lib sample_proxy ''pw'' ChaCha20 None None = Ret sc" using sample_server_new by blast
  have "CipherType_from_str ''chacha20'' = Inr ChaCha20" by (simp add: CipherType_from_str_def)
  with sc have "sslocal_main sample_prog_env sample_matches = Ret (Run (sample_config sc Socks5Local))"
    by (simp add: sslocal_main_def protocol_arg_def config_arg_def server_arg_def dns_arg_def android_arg_def url_arg_def local_arg_def
        nofile_arg_def acl_arg_def plugin_arg_def mode_args_def no_delay_arg_def tcp_and_udp_arg_def udp_only_arg_def complete_local_def
        push_server_def unwrap_err_def sample_matches_simps sample_proxy_parses sample_prog_env_def Config_new_def sample_config_def)
  moreover from sc have "sc_method sc = ChaCha20" "sc_plugin sc = None" by (auto simp: ServerConfig_new_def rust_bind_Ret_iff)
  ultimately show thesis by (rule that)
qed

theorem programs_typed_witness:
  "\<exists>config sc. sslocal_main sample_prog_env sample_matches = Ret (Run config) \<and> cfg_config_type config \<in> {Socks5Local, HttpLocal}
     \<and> cfg_server config = [sc] \<and> sc_method sc = ChaCha20 \<and> length (sc_enc_key sc) = 32"
proof -
  obtain sc where sc: "sslocal_main sample_prog_env sample_matches = Ret (Run (sample_config sc Socks5Local))" "sc_method sc = ChaCha20"
    by (rule sample_sslocal_runs)
  have "digest_lib_ok (pe_lib sample_prog_env)" by (simp add: sample_prog_env_def sample_lib_ok)
  moreover have "(sslocal_main, {Socks5Local, HttpLocal}) \<in> {(sslocal_main, {Socks5Local, HttpLocal}), (sstunnel_main, {TunnelLocal}),
      (ssredir_main, {RedirLocal}), (ssserver_main, {Server}), (ssmanager_main, {Manager})}" by simp
  ultimately have "key_size (pe_lib sample_prog_env) (sc_method sc) = Ret (length (sc_enc_key sc))"
    using programs_typed [where main = sslocal_main and types = "{Socks5Local, HttpLocal}", OF _ _ sc(1)]
    by (simp add: sample_config_def)
  then have "length (sc_enc_key sc) = 32" by (simp add: sample_prog_env_def sc(2))
  with sc show ?thesis by (auto simp: sample_config_def Config_new_def)
qed

definition sample_listen :: "(unit, unit) listen_os" where
  "sample_listen =
     \<lparr>li_tcp_bind = (\<lambda>_ w. (Inr (), w)), li_tcp_bind_redir = (\<lambda>_ _ w. (Inr (), w)), li_udp_bind = (\<lambda>_ w. (Inr (), w)),
      li_udp_bind_redir = (\<lambda>_ _ w. (Inr (), w)), li_local_addr = (\<lambda>_. Inr (SocketAddrV4 (Ipv4Addr 127 0 0 1) 1080))\<rparr>"

lemma sample_net_ok: "net_ok sample_listen (\<lambda>_ _. Inr [SocketAddrV4 (Ipv4Addr 127 0 0 1) 1080])"
  by (simp add: net_ok_def sample_listen_def)

definition sample_resolving_relay ::
    "(string, unit, unit, ipv4_addr, ipv6_addr, ipv4_addr list, ipv6_addr list, string list, unit, unit, unit) relay_env" where
  "sample_resolving_relay =
     \<lparr>re_dns = sample_dns, re_os = re_os sample_relay, re_io = undefined, re_acl = sample_acl_lib, re_cache = undefined, re_android = False,
      re_resolve = \<lambda>_ _. Inr [SocketAddrV4 (Ipv4Addr 127 0 0 1) 1080], re_secs = \<lambda>_. 0\<rparr>"



end
