(* ===== verification/Proxy_Io.thy ===== *)
theory Proxy_Io
  imports Startup
begin

text \<open>
  Reading and writing through a stream to a proxy server, \<^verbatim>\<open>src/relay/tcprelay/proxy_stream.rs\<close>, with the traffic counters of
  Android and their report, \<^verbatim>\<open>src/relay/local.rs\<close>, and the requests with which the load balancer probes a server,
  \<^verbatim>\<open>src/relay/loadbalancing/server.rs\<close>.
\<close>

section \<open>Streams\<close>

text \<open>On Android the bytes of proxied streams are counted: what is read as sent, and what is written as received.\<close>

definition count_flow ::
    "('c, 'b, 'n, 'm, 'r, 'q, 'x, 'l, 'k, 'w) tcp_env \<Rightarrow> ('c, 'k) ProxyStream \<Rightarrow> (FlowStatistic \<Rightarrow> FlowStatistic) \<Rightarrow>
     ('b, 'r, 'q, 'x, 'l) Context \<Rightarrow> ('b, 'r, 'q, 'x, 'l) Context" where
  "count_flow E ps f ctx =
     (if te_android E \<and> ProxyStream_is_proxied ps
      then ctx\<lparr>ctx_local_flow_statistic := (ctx_local_flow_statistic ctx)\<lparr>sfs_tcp := f (sfs_tcp (ctx_local_flow_statistic ctx))\<rparr>\<rparr>
      else ctx)"

definition ps_poll_read ::
    "('c, 'b, 'n, 'm, 'r, 'q, 'x, 'l, 'k, 'w) tcp_env \<Rightarrow> nat \<Rightarrow> ('c, 'k) ProxyStream \<Rightarrow> ('b, 'r, 'q, 'x, 'l) Context \<Rightarrow>
     ((io_error + bytes) poll \<times> ('c, 'k) ProxyStream \<times> ('b, 'r, 'q, 'x, 'l) Context) rust option" where
  "ps_poll_read E n ps ctx =
     map_option (\<lambda>x. rust_bind x (\<lambda>(p, ps, ctx).
         Ret (p, ps, case p of Ready (Inr bs) \<Rightarrow> count_flow E ps (\<lambda>f. incr_tx f (of_nat (length bs))) ctx | _ \<Rightarrow> ctx)))
       (case ps of
          Direct c \<Rightarrow>
            (case conn_poll_read (te_clock E) (te_read E) n c of (p, c) \<Rightarrow> Some (Ret (p, Direct c, ctx)))
        | Proxied s \<Rightarrow>
            map_option (\<lambda>x. rust_bind x (\<lambda>(p, s, b). Ret (p, Proxied s, ctx\<lparr>ctx_nonce_ppbloom := b\<rparr>)))
              (priv_poll_read (te_lib E) (te_bloom E) (conn_poll_read (te_clock E) (te_read E)) s (ctx_nonce_ppbloom ctx) n))"

definition ps_poll_write ::
    "('c, 'b, 'n, 'm, 'r, 'q, 'x, 'l, 'k, 'w) tcp_env \<Rightarrow> bytes \<Rightarrow> ('c, 'k) ProxyStream \<Rightarrow> ('b, 'r, 'q, 'x, 'l) Context \<Rightarrow>
     ((io_error + nat) poll \<times> ('c, 'k) ProxyStream \<times> ('b, 'r, 'q, 'x, 'l) Context) rust" where
  "ps_poll_write E buf ps ctx =
     rust_bind
       (case ps of
          Direct c \<Rightarrow> (case st_write E buf c of (p, c) \<Rightarrow> Ret (p, Direct c))
        | Proxied s \<Rightarrow> rust_bind (priv_poll_write (te_lib E) (st_write E) s buf) (\<lambda>(p, s). Ret (p, Proxied s)))
       (\<lambda>(p, ps). Ret (p, ps, case p of Ready (Inr n) \<Rightarrow> count_flow E ps (\<lambda>f. incr_rx f (of_nat n)) ctx | _ \<Rightarrow> ctx))"

text \<open>\<^verbatim>\<open>write_all\<close> and \<^verbatim>\<open>read_exact\<close> of a stream; \<open>None\<close> is a stream that stays pending for ever.\<close>

partial_function (option) ps_write_all ::
    "('c, 'b, 'n, 'm, 'r, 'q, 'x, 'l, 'k, 'w) tcp_env \<Rightarrow> bytes \<Rightarrow> ('c, 'k) ProxyStream \<Rightarrow> ('b, 'r, 'q, 'x, 'l) Context \<Rightarrow>
     ((io_error + unit) \<times> ('c, 'k) ProxyStream \<times> ('b, 'r, 'q, 'x, 'l) Context) rust option" where
  "ps_write_all E buf ps ctx =
     (if buf = [] then Some (Ret (Inr (), ps, ctx))
      else
        (case ps_poll_write E buf ps ctx of
           Panic \<Rightarrow> Some Panic
         | Ret (Pending, ps, ctx) \<Rightarrow> ps_write_all E buf ps ctx
         | Ret (Ready (Inl e), ps, ctx) \<Rightarrow> Some (Ret (Inl e, ps, ctx))
         | Ret (Ready (Inr n), ps, ctx) \<Rightarrow>
             if n = 0 then Some (Ret (Inl (IoError WriteZero ''write zero byte into writer''), ps, ctx))
             else ps_write_all E (drop n buf) ps ctx))"

partial_function (option) ps_read_exact ::
    "('c, 'b, 'n, 'm, 'r, 'q, 'x, 'l, 'k, 'w) tcp_env \<Rightarrow> nat \<Rightarrow> bytes \<Rightarrow> ('c, 'k) ProxyStream \<Rightarrow> ('b, 'r, 'q, 'x, 'l) Context \<Rightarrow>
     ((io_error + bytes) \<times> ('c, 'k) ProxyStream \<times> ('b, 'r, 'q, 'x, 'l) Context) rust option" where
  "ps_read_exact E n buf ps ctx =
     (if n \<le> length buf then Some (Ret (Inr buf, ps, ctx))
      else
        (case ps_poll_read E (n - length buf) ps ctx of
           None \<Rightarrow> None
         | Some Panic \<Rightarrow> Some Panic
         | Some (Ret (Pending, ps, ctx)) \<Rightarrow> ps_read_exact E n buf ps ctx
         | Some (Ret (Ready (Inl e), ps, ctx)) \<Rightarrow> Some (Ret (Inl e, ps, ctx))
         | Some (Ret (Ready (Inr bs), ps, ctx)) \<Rightarrow>
             if bs = [] then Some (Ret (Inl (IoError UnexpectedEof ''early eof''), ps, ctx))
             else ps_read_exact E n (buf @ bs) ps ctx))"

section \<open>Probing a server\<close>

datatype ServerType = TcpServerType | UdpServerType

definition GET_BODY :: bytes where
  "GET_BODY = as_bytes (''GET /generate_204 HTTP/1.1'' @ [CHR 0x0D, CHR 0x0A] @ ''Host: dl.google.com'' @ [CHR 0x0D, CHR 0x0A]
     @ ''Connection: close'' @ [CHR 0x0D, CHR 0x0A] @ ''Accept: */*'' @ [CHR 0x0D, CHR 0x0A, CHR 0x0D, CHR 0x0A])"

definition check_request_tcp ::
    "('c, 'b, 'n, 'm, 'r, 'q, 'x, 'l, 'k, 'w) tcp_env \<Rightarrow> ServerConfig \<Rightarrow> ('b, 'r, 'q, 'x, 'l) Context \<Rightarrow> 'w \<Rightarrow>
     ((io_error + unit) \<times> ('b, 'r, 'q, 'x, 'l) Context \<times> 'w) rust option" where
  "check_request_tcp E svr_cfg ctx w =
     (case ServerClient_connect E ctx (DomainNameAddress ''dl.google.com'' 80) svr_cfg w of
        None \<Rightarrow> None
      | Some Panic \<Rightarrow> Some Panic
      | Some (Ret (Inl e, ctx, w)) \<Rightarrow> Some (Ret (Inl e, ctx, w))
      | Some (Ret (Inr stream, ctx, w)) \<Rightarrow>
          (case ps_write_all E GET_BODY stream ctx of
             None \<Rightarrow> None
           | Some Panic \<Rightarrow> Some Panic
           | Some (Ret (Inl e, stream, ctx)) \<Rightarrow> Some (Ret (Inl e, ctx, w))
           | Some (Ret (Inr _, stream, ctx)) \<Rightarrow>
               map_option (\<lambda>x. rust_bind x (\<lambda>(res, stream, ctx). Ret (map_sum id (\<lambda>_. ()) res, ctx, w)))
                 (ps_read_exact E 1 [] stream ctx)))"

definition DNS_QUERY :: bytes where
  "DNS_QUERY =
     [0x12, 0x34, 0x01, 0x00, 0x00, 0x01, 0x00, 0x00, 0x00, 0x00, 0x00, 0x00, 0x05, 0x62, 0x61, 0x69, 0x64, 0x75, 0x03, 0x63, 0x6f,
      0x6d, 0x00, 0x00, 0x01, 0x00, 0x01]"

text \<open>\<open>bound\<close> is the outcome of creating the socket and \<open>recv\<close> what it receives then.\<close>

definition check_request_udp ::
    "('c, 'b, 'n, 'm, 'r, 'q, 'x, 'l, 'k, 'w) tcp_env \<Rightarrow> 'v udp_socket \<Rightarrow> io_error + unit \<Rightarrow> ('v \<Rightarrow> io_error + bytes) \<Rightarrow> ServerConfig \<Rightarrow>
     ('b, 'r, 'q, 'x, 'l) Context \<Rightarrow> 'v \<Rightarrow> ((io_error + unit) \<times> ('b, 'r, 'q, 'x, 'l) Context \<times> 'v) rust option" where
  "check_request_udp E sock bound recv svr_cfg ctx v =
     (case bound of
        Inl e \<Rightarrow> Some (Ret (Inl e, ctx, v))
      | Inr _ \<Rightarrow>
          (case client_send_to (te_lib E) (te_bloom E) (te_rnd E) (te_resolve E) sock ctx svr_cfg
                  (SocketAddress (SocketAddrV4 (Ipv4Addr 8 8 8 8) 53)) DNS_QUERY v of
             None \<Rightarrow> None
           | Some Panic \<Rightarrow> Some Panic
           | Some (Ret (Inl e, ctx, v)) \<Rightarrow> Some (Ret (Inl e, ctx, v))
           | Some (Ret (Inr _, ctx, v)) \<Rightarrow>
               Some (rust_bind (client_recv_from (te_lib E) (te_bloom E) ctx svr_cfg (recv v)) (\<lambda>(res, ctx).
                 Ret (map_sum id (\<lambda>_. ()) res, ctx, v)))))"

definition check_request ::
    "('c, 'b, 'n, 'm, 'r, 'q, 'x, 'l, 'k, 'w) tcp_env \<Rightarrow> 'v udp_socket \<Rightarrow> io_error + unit \<Rightarrow> ('v \<Rightarrow> io_error + bytes) \<Rightarrow> ServerConfig \<Rightarrow>
     ServerType \<Rightarrow> ('b, 'r, 'q, 'x, 'l) Context \<Rightarrow> 'w \<times> 'v \<Rightarrow> ((io_error + unit) \<times> ('b, 'r, 'q, 'x, 'l) Context \<times> 'w \<times> 'v) rust option" where
  "check_request E sock bound recv svr_cfg server_type ctx wv =
     (case (server_type, wv) of
        (TcpServerType, w, v) \<Rightarrow>
          map_option (\<lambda>x. rust_bind x (\<lambda>(res, ctx, w). Ret (res, ctx, w, v))) (check_request_tcp E svr_cfg ctx w)
      | (UdpServerType, w, v) \<Rightarrow>
          map_option (\<lambda>x. rust_bind x (\<lambda>(res, ctx, v). Ret (res, ctx, w, v))) (check_request_udp E sock bound recv svr_cfg ctx v))"

section \<open>Flow reports\<close>

text \<open>
  On Android the totals of both protocols are sent to a Unix socket twice a second. \<open>ne_bytes\<close> gives the bytes of a word in
  the order of the machine. A round sees the context of its time and the outcome of its connection, where \<open>None\<close> is a
  timeout; neither a failed connection nor a failed write ends the task.
\<close>

definition flow_report :: "(u64 \<Rightarrow> bytes) \<Rightarrow> ServerFlowStatistic \<Rightarrow> bytes" where
  "flow_report ne_bytes flow_stat =
     (let tx = fs_tx (sfs_tcp flow_stat) + fs_tx (sfs_udp flow_stat); rx = fs_rx (sfs_tcp flow_stat) + fs_rx (sfs_udp flow_stat) in
      ne_bytes tx @ ne_bytes rx)"

fun flow_report_rounds ::
    "(u64 \<Rightarrow> bytes) \<Rightarrow> (string \<Rightarrow> 'w \<Rightarrow> (io_error + 's) option \<times> 'w) \<Rightarrow> ('s \<Rightarrow> bytes \<Rightarrow> 'w \<Rightarrow> (io_error + unit) option \<times> 'w) \<Rightarrow> string \<Rightarrow>
     ServerFlowStatistic list \<Rightarrow> 'w \<Rightarrow> 'w" where
  "flow_report_rounds ne_bytes connect write path [] w = w"
| "flow_report_rounds ne_bytes connect write path (flow_stat # rounds) w =
     flow_report_rounds ne_bytes connect write path rounds
       (case connect path w of
          (Some (Inr stream), w) \<Rightarrow> snd (write stream (flow_report ne_bytes flow_stat) w)
        | (_, w) \<Rightarrow> w)"

definition flow_report_task ::
    "(u64 \<Rightarrow> bytes) \<Rightarrow> (string \<Rightarrow> 'w \<Rightarrow> (io_error + 's) option \<times> 'w) \<Rightarrow> ('s \<Rightarrow> bytes \<Rightarrow> 'w \<Rightarrow> (io_error + unit) option \<times> 'w) \<Rightarrow>
     ('b, 'r, 'q, 'x, 'l) Context \<Rightarrow> ServerFlowStatistic list \<Rightarrow> 'w \<Rightarrow> ((io_error + unit) \<times> 'w) rust" where
  "flow_report_task ne_bytes connect write context rounds w =
     rust_bind (expect (cfg_stat_path (ctx_config context))) (\<lambda>path.
       Ret (Inr (), flow_report_rounds ne_bytes connect write path rounds w))"

section \<open>What a probe contacts\<close>

text \<open>
  What a stream to a proxy server delivers is counted as sent, and what is written to it as received; the report names
  the two the wrong way round. Datagrams are counted as their names say.
\<close>

lemma reads_counted_as_sent:
  assumes "te_android E" and "ps_poll_read E n (Proxied s) ctx = Some (Ret (Ready (Inr bs), ps', ctx'))"
  shows "sfs_tcp (ctx_local_flow_statistic ctx') = incr_tx (sfs_tcp (ctx_local_flow_statistic ctx)) (of_nat (length bs))"
  using assms by (auto simp: ps_poll_read_def count_flow_def rust_bind_Ret_iff)

lemma writes_counted_as_received:
  assumes "te_android E" and "ps_poll_write E buf (Proxied s) ctx = Ret (Ready (Inr n), ps', ctx')"
  shows "sfs_tcp (ctx_local_flow_statistic ctx') = incr_rx (sfs_tcp (ctx_local_flow_statistic ctx)) (of_nat n)"
  using assms by (auto simp: ps_poll_write_def count_flow_def rust_bind_Ret_iff)

text \<open>A flow task with a path never ends with an error, and without one it panics; a client only starts it with a path.\<close>

lemma flow_report_task_result:
  "flow_report_task ne_bytes connect write context rounds w =
     (case cfg_stat_path (ctx_config context) of
        None \<Rightarrow> Panic
      | Some path \<Rightarrow> Ret (Inr (), flow_report_rounds ne_bytes connect write path rounds w))"
  by (simp add: flow_report_task_def split: option.split)

lemma send_to_server_inv:
  assumes "send_to_server resolve sock addr dgram v = Ret (res, v')" and "J v"
    and J: "\<And>a v. a \<in> server_targets resolve addr \<Longrightarrow> J v \<Longrightarrow> J (snd (sock dgram a v))"
  shows "J v'"
proof (cases addr)
  case (SvrSocketAddr a)
  then show ?thesis using assms(1) J [of a v] assms(2) by (simp add: send_to_server_def server_targets_def prod_eq_iff)
next
  case (SvrDomainName dname port)
  then obtain r where "lookup_then resolve dname port (sock dgram) v = Ret (r, v')"
    using assms(1) by (auto simp: send_to_server_def rust_bind_Ret_iff)
  then show ?thesis
    by (rule lookup_then_targets [where I = J]) (use J assms(2) SvrDomainName in \<open>simp_all add: server_targets_def\<close>)
qed

definition logging_socket :: "'v udp_socket \<Rightarrow> ('v \<times> socket_addr list) udp_socket" where
  "logging_socket sock dgram a vl = (case sock dgram a (fst vl) of (res, v) \<Rightarrow> (res, v, snd vl @ [a]))"

lemma client_send_to_inv:
  assumes "client_send_to L B rnd resolve sock ctx cfg addr payload v = Some (Ret (res, ctx', v'))" and "J v"
    and J: "\<And>dgram a v. a \<in> server_targets resolve (sc_addr cfg) \<Longrightarrow> J v \<Longrightarrow> J (snd (sock dgram a v))"
  shows "J v'"
proof -
  have "v' = v \<or> (\<exists>r buf. send_to_server resolve sock (sc_addr cfg) buf v = Ret (r, v'))"
    using assms(1) by (auto simp: client_send_to_def Let_def rust_bind_Ret_iff
        split: rust.split_asm option.split_asm sum.split_asm if_split_asm)
      (metis sum.exhaust)
  then show ?thesis using send_to_server_inv [where J = J] J assms(2) by blast
qed

lemma tcp_probe_inv:
  assumes "check_request_tcp E cfg ctx w = Some (Ret (res, ctx', w'))" and "J w"
    and J: "\<And>ba a w. a \<in> server_targets (te_resolve E) (proxy_addr ctx cfg) \<Longrightarrow> J w \<Longrightarrow> J (snd (te_connect E ba a w))"
  shows "J w'"
proof -
  obtain r c where "connect_proxied E ctx cfg (DomainNameAddress ''dl.google.com'' 80) w = Some (Ret (r, c, w'))"
    using assms(1) by (auto simp: check_request_tcp_def ServerClient_connect_def rust_bind_Ret_iff
        split: rust.splits option.splits sum.splits)
  from connect_proxied_inv [where I = J, OF this] J assms(2) show ?thesis by blast
qed

lemma udp_probe_inv:
  assumes "check_request_udp E sock bound recv cfg ctx v = Some (Ret (res, ctx', v'))" and "J v"
    and J: "\<And>dgram a v. a \<in> server_targets (te_resolve E) (sc_addr cfg) \<Longrightarrow> J v \<Longrightarrow> J (snd (sock dgram a v))"
  shows "J v'"
proof (cases bound)
  case (Inl e)
  then show ?thesis using assms(1,2) by (simp add: check_request_udp_def)
next
  case (Inr u)
  then obtain r c where "client_send_to (te_lib E) (te_bloom E) (te_rnd E) (te_resolve E) sock ctx cfg
      (SocketAddress (SocketAddrV4 (Ipv4Addr 8 8 8 8) 53)) DNS_QUERY v = Some (Ret (r, c, v'))"
    using assms(1) by (auto simp: check_request_udp_def rust_bind_Ret_iff split: rust.splits option.splits sum.splits)
  then show ?thesis by (rule client_send_to_inv [where J = J]) (use J assms(2) in blast)+
qed

text \<open>
  A probe contacts the probed server and nobody else, whatever the access control list says: over TCP the address of the
  server or of its plugin, over UDP the address of the server.
\<close>

lemma probe_contacts_server:
  assumes "check_request (logging_env E) (logging_socket sock) bound recv cfg server_type ctx ((w, []), (v, [])) =
             Some (Ret (res, ctx', (w', tcp_log), (v', udp_log)))"
  shows "set tcp_log \<subseteq> server_targets (te_resolve E) (proxy_addr ctx cfg) \<and> set udp_log \<subseteq> server_targets (te_resolve E) (sc_addr cfg)
       \<and> (if server_type = TcpServerType then udp_log = [] else tcp_log = [])"
proof (cases server_type)
  case TcpServerType
  then obtain "check_request_tcp (logging_env E) cfg ctx (w, []) = Some (Ret (res, ctx', w', tcp_log))" "udp_log = []"
    using assms by (auto simp: check_request_def rust_bind_Ret_iff)
  with tcp_probe_inv [where J = "\<lambda>x. set (snd x) \<subseteq> server_targets (te_resolve E) (proxy_addr ctx cfg)", OF this(1)] TcpServerType
  show ?thesis by simp
next
  case UdpServerType
  then obtain "check_request_udp (logging_env E) (logging_socket sock) bound recv cfg ctx (v, []) = Some (Ret (res, ctx', v', udp_log))"
      "tcp_log = []"
    using assms by (auto simp: check_request_def rust_bind_Ret_iff)
  with udp_probe_inv [where J = "\<lambda>x. set (snd x) \<subseteq> server_targets (te_resolve E) (sc_addr cfg)", OF this(1)] UdpServerType
  show ?thesis by (simp add: logging_socket_def split: prod.split)
qed

section \<open>What a redirected client contacts\<close>

text \<open>
  The transparent proxy routes by the access control list: a client whose original destination is bypassed is connected to
  that destination only, any other client to the proxy server only, and a client without a destination to nobody.
\<close>

lemma redir_routes_by_acl:
  assumes "redir_client (logging_env E) I cfg s dst ctx (w, []) = Some (Ret (res, ctx', w', log))"
  shows "case dst of
           Inl _ \<Rightarrow> res = None \<and> log = []
         | Inr a \<Rightarrow> set log \<subseteq> (if fst (ctx_check_target_bypassed (te_acl E) (te_cache E) (te_dns_relay E) (te_android E) (te_resolve E) ctx
                                      (SocketAddress a))
                              then {a} else server_targets (te_resolve E) (proxy_addr ctx cfg))"
proof (cases dst)
  case (Inl e)
  then show ?thesis using assms by (simp add: redir_client_def)
next
  case (Inr a)
  have "log = [] \<or> (\<exists>r. ProxyStream_connect (logging_env E) ctx cfg (SocketAddress a) (w, []) = Some (Ret (r, ctx', w', log)))"
    using assms Inr by (auto simp: redir_client_def handle_redir_client_def rust_bind_Ret_iff split: sum.splits)
  moreover have "set log \<subseteq> http_targets E ctx cfg (SocketAddress a)"
    if "ProxyStream_connect (logging_env E) ctx cfg (SocketAddress a) (w, []) = Some (Ret (r, ctx', w', log))" for r
    using ProxyStream_connect_inv [where J = "\<lambda>x. set (snd x) \<subseteq> http_targets E ctx cfg (SocketAddress a)", OF that] by simp
  ultimately show ?thesis using Inr by (auto simp: http_targets_def address_targets_def)
qed

end
