(* ===== verification/Stream_Frames.thy ===== *)
theory Stream_Frames
  imports Tcp_Relay
begin

text \<open>
  What reading and writing of an encrypted stream leave alone: a read keeps the writer and what has been written, a write keeps
  the reader and what is still to come. So the two directions of a connection can be treated one at a time, although they
  share a socket.
\<close>

section \<open>What reading and writing leave alone\<close>

lemma poll_write_buf_keeps:
  assumes "\<forall>bs s. J s \<longrightarrow> J (snd (pw bs s))"
  shows "poll_write_buf pw buf pos s = (res, pos', s') \<Longrightarrow> J s \<Longrightarrow> J s'"
proof (induction "length buf - pos" arbitrary: pos s rule: less_induct)
  case less
  obtain q s1 where q: "pw (drop pos buf) s = (q, s1)" by (cases "pw (drop pos buf) s")
  then have s1: "J s1" using assms less.prems(2) by (metis snd_conv)
  show ?case
  proof (cases "pos < length buf \<and> (\<exists>k. q = Ready (Inr (Suc k)))")
    case True
    then obtain k where k: "q = Ready (Inr (Suc k))" "pos < length buf" by blast
    then have "poll_write_buf pw buf (pos + Suc k) s1 = (res, pos', s')"
      using less.prems(1) q by (subst (asm) poll_write_buf.simps) simp
    with less.hyps [of "pos + Suc k" s1] s1 k(2) show ?thesis by simp
  next
    case False
    with less.prems q s1 show ?thesis
      by (subst (asm) poll_write_buf.simps) (auto split: if_splits poll.splits sum.splits simp: gr0_conv_Suc)
  qed
qed

lemma poll_read_iv_keeps:
  assumes "\<forall>n s. J s \<longrightarrow> J (snd (pr n s))"
  shows "poll_read_iv pr buf len s = (res, buf', s') \<Longrightarrow> J s \<Longrightarrow> J s'"
proof (induction "len - length buf" arbitrary: buf s rule: less_induct)
  case less
  obtain q s1 where q: "pr (len - length buf) s = (q, s1)" by (cases "pr (len - length buf) s")
  then have s1: "J s1" using assms less.prems(2) by (metis snd_conv)
  show ?case
  proof (cases "length buf < len \<and> (\<exists>b bs. q = Ready (Inr (b # bs)))")
    case True
    then obtain b bs where b: "q = Ready (Inr (b # bs))" "length buf < len" by blast
    then have "poll_read_iv pr (buf @ b # bs) len s1 = (res, buf', s')"
      using less.prems(1) q by (subst (asm) poll_read_iv.simps) simp
    with less.hyps [of "buf @ b # bs" s1] s1 b(2) show ?thesis by simp
  next
    case False
    with less.prems q s1 show ?thesis
      by (subst (asm) poll_read_iv.simps) (auto split: if_splits poll.splits sum.splits simp: neq_Nil_conv)
  qed
qed

lemma poll_read_exact_keeps:
  assumes "\<forall>n s. J s \<longrightarrow> J (snd (pr n s))"
  shows "poll_read_exact pr d s sz eof = (res, d', s') \<Longrightarrow> J s \<Longrightarrow> J s'"
proof (induction "sz - length (adr_buffer d)" arbitrary: d s rule: less_induct)
  case less
  let ?n = "sz - length (adr_buffer d)"
  obtain q s1 where q: "pr ?n s = (q, s1)" by (cases "pr ?n s")
  then have s1: "J s1" using assms less.prems(2) by (metis snd_conv)
  show ?case
  proof (cases "length (adr_buffer d) < sz \<and> (\<exists>b bs. q = Ready (Inr (b # bs)))")
    case True
    then obtain b bs where b: "q = Ready (Inr (b # bs))" "length (adr_buffer d) < sz" by blast
    then have "poll_read_exact pr (d\<lparr>adr_buffer := adr_buffer d @ b # bs\<rparr>) s1 sz eof = (res, d', s')"
      using less.prems(1) q by (subst (asm) poll_read_exact.simps) simp
    with less.hyps [of "d\<lparr>adr_buffer := adr_buffer d @ b # bs\<rparr>" s1] s1 b(2) show ?thesis by simp
  next
    case False
    with less.prems q s1 show ?thesis
      by (subst (asm) poll_read_exact.simps) (auto split: if_splits poll.splits sum.splits simp: neq_Nil_conv)
  qed
qed

lemma poll_refill_keeps:
  assumes "\<forall>n s. J s \<longrightarrow> J (snd (pr n s))" and "poll_refill L pr d s = Ret (res, d', s')" and "J s"
  shows "J s'"
proof -
  have "\<exists>sz eof r d1. poll_read_exact pr d s sz eof = (r, d1, s')"
    using assms(2) by (auto simp: poll_refill_def poll_read_decrypted_length_def poll_read_decrypted_data_def Let_def rust_bind_Ret_iff
        split: DecryptReadStep.split_asm prod.split_asm poll.split_asm sum.split_asm if_split_asm) (metis sum.exhaust)+
  then show ?thesis using poll_read_exact_keeps [OF assms(1)] assms(3) by blast
qed

lemma poll_read_decrypted_keeps:
  assumes "\<forall>n s. J s \<longrightarrow> J (snd (pr n s))" and "poll_read_decrypted L pr d s n = Some (Ret (res, d', s'))" and "J s"
  shows "J s'"
proof -
  let ?P = "\<lambda>L pr d s n y. (\<forall>n s. J s \<longrightarrow> J (snd (pr n s))) \<longrightarrow> J s \<longrightarrow> (\<forall>res d' s'. y = Ret (res, d', s') \<longrightarrow> J s')"
  have "?P L pr d s n (Ret (res, d', s'))"
  proof (rule poll_read_decrypted.raw_induct [where P = ?P, OF _ assms(2)], intro allI impI)
    fix f L pr d s n y and res :: "(io_error + bytes) poll" and d' s'
    assume IH: "\<And>L pr d s n y. f L pr d s n = Some y \<Longrightarrow> ?P L pr d s n y"
      and body: "(if length (adr_data d) \<le> adr_pos d then
        if adr_got_final d then Some (Ret (Ready (Inr []), d, s))
        else
          (case poll_refill L pr d s of
             Panic \<Rightarrow> Some Panic
           | Ret (Pending, d', r') \<Rightarrow> Some (Ret (Pending, d', r'))
           | Ret (Ready (Inl e), d', r') \<Rightarrow> Some (Ret (Ready (Inl e), d', r'))
           | Ret (Ready (Inr _), d', r') \<Rightarrow> f L pr d' r' n)
      else
        let remaining_len = length (adr_data d) - adr_pos d; k = min n remaining_len in
        Some (Ret (Ready (Inr (take k (drop (adr_pos d) (adr_data d)))), d\<lparr>adr_pos := adr_pos d + k\<rparr>, s))) = Some y"
      and pr: "\<forall>n s. J s \<longrightarrow> J (snd (pr n s))" and s: "J s" and y: "y = Ret (res, d', s')"
    have "s' = s \<or> (\<exists>q d1 s1. poll_refill L pr d s = Ret (q, d1, s1) \<and> (s1 = s' \<or> f L pr d1 s1 n = Some y))"
      using body y by (auto simp: Let_def split: if_split_asm rust.split_asm prod.split_asm poll.split_asm sum.split_asm)
    then show "J s'" using IH pr s y poll_refill_keeps [OF pr _ s] by blast
  qed
  with assms(1,3) show ?thesis by blast
qed

lemma stream_refill_keeps:
  assumes "\<forall>n s. J s \<longrightarrow> J (snd (pr n s))" and "stream_refill L pr d s = Ret (res, d', s')" and "J s"
  shows "J s'"
proof -
  obtain q s1 where q: "pr BUFFER_SIZE s = (q, s1)" by (cases "pr BUFFER_SIZE s")
  then have "J s1" using assms(1,3) by (metis snd_conv)
  moreover have "s' = s1"
    using assms(2) q by (auto simp: stream_refill_def Let_def rust_bind_Ret_iff split: poll.split_asm sum.split_asm if_split_asm)
      (metis sum.exhaust prod.exhaust)+
  ultimately show ?thesis by simp
qed

lemma stream_poll_read_keeps:
  assumes "\<forall>n s. J s \<longrightarrow> J (snd (pr n s))" and "stream_poll_read_decrypted L pr d s n = Some (Ret (res, d', s'))" and "J s"
  shows "J s'"
proof -
  let ?P = "\<lambda>L pr d s n y. (\<forall>n s. J s \<longrightarrow> J (snd (pr n s))) \<longrightarrow> J s \<longrightarrow> (\<forall>res d' s'. y = Ret (res, d', s') \<longrightarrow> J s')"
  have "?P L pr d s n (Ret (res, d', s'))"
  proof (rule stream_poll_read_decrypted.raw_induct [where P = ?P, OF _ assms(2)], intro allI impI)
    fix f L pr d s n y and res :: "(io_error + bytes) poll" and d' s'
    assume IH: "\<And>L pr d s n y. f L pr d s n = Some y \<Longrightarrow> ?P L pr d s n y"
      and body: "(if length (sdr_buffer d) \<le> sdr_pos d then
        if sdr_got_final d then Some (Ret (Ready (Inr []), d, s))
        else
          (case stream_refill L pr d s of
             Panic \<Rightarrow> Some Panic
           | Ret (Pending, d', r') \<Rightarrow> Some (Ret (Pending, d', r'))
           | Ret (Ready (Inl e), d', r') \<Rightarrow> Some (Ret (Ready (Inl e), d', r'))
           | Ret (Ready (Inr _), d', r') \<Rightarrow> f L pr d' r' n)
      else
        let remaining_len = length (sdr_buffer d) - sdr_pos d; k = min n remaining_len in
        Some (Ret (Ready (Inr (take k (drop (sdr_pos d) (sdr_buffer d)))), d\<lparr>sdr_pos := sdr_pos d + k\<rparr>, s))) = Some y"
      and pr: "\<forall>n s. J s \<longrightarrow> J (snd (pr n s))" and s: "J s" and y: "y = Ret (res, d', s')"
    have "s' = s \<or> (\<exists>q d1 s1. stream_refill L pr d s = Ret (q, d1, s1) \<and> (s1 = s' \<or> f L pr d1 s1 n = Some y))"
      using body y by (auto simp: Let_def split: if_split_asm rust.split_asm prod.split_asm poll.split_asm sum.split_asm)
    then show "J s'" using IH pr s y stream_refill_keeps [OF pr _ s] by blast
  qed
  with assms(1,3) show ?thesis by blast
qed

lemma aead_write_keeps:
  assumes "\<forall>bs s. J s \<longrightarrow> J (snd (pw bs s))" and "poll_write_encrypted L pw w s data = Ret (res, w', s')" and "J s"
  shows "J s'"
proof -
  have "s' = s \<or> (\<exists>buf pos r pos'. poll_write_buf pw buf pos s = (r, pos', s'))"
    using assms(2) by (auto simp: poll_write_encrypted_def poll_write_all_encrypted_def rust_assert_def Let_def rust_bind_Ret_iff
        split: if_split_asm EncryptWriteStep.split_asm prod.split_asm poll.split_asm sum.split_asm) 
  then show ?thesis using poll_write_buf_keeps [OF assms(1)] assms(3) by blast
qed

lemma stream_write_keeps:
  assumes "\<forall>bs s. J s \<longrightarrow> J (snd (pw bs s))" and "stream_poll_write_encrypted L pw w s data = Ret (res, w', s')" and "J s"
  shows "J s'"
proof -
  have "s' = s \<or> (\<exists>buf pos r pos'. poll_write_buf pw buf pos s = (r, pos', s'))"
    using assms(2) by (auto simp: stream_poll_write_encrypted_def stream_poll_write_all_encrypted_def sew_write_buf_def
        split: rust_bind_splits if_split_asm EncryptWriteStep.split_asm prod.split_asm poll.split_asm sum.split_asm)
  then show ?thesis using poll_write_buf_keeps [OF assms(1)] assms(3) by blast
qed

lemma priv_poll_write_keeps:
  assumes "\<forall>bs s. J s \<longrightarrow> J (snd (pw bs s))" and "priv_poll_write L pw c data = Ret (res, c')" and "J (cs_stream c)"
  shows "J (cs_stream c') \<and> cs_dec c' = cs_dec c \<and> cs_read_status c' = cs_read_status c"
  using assms(2) aead_write_keeps [OF assms(1) _ assms(3)] stream_write_keeps [OF assms(1) _ assms(3)]
  by (auto simp: priv_poll_write_def rust_bind_Ret_iff split: EncryptedWriter.split_asm)

lemma handshake_keeps:
  assumes "\<forall>n s. J s \<longrightarrow> J (snd (pr n s))" and "poll_read_handshake L B pr c q = Ret (res, c', q')" and "J (cs_stream c)"
  shows "J (cs_stream c') \<and> cs_enc c' = cs_enc c"
proof (cases "cs_read_status c")
  case Established
  with assms(2,3) show ?thesis by (simp add: poll_read_handshake_def)
next
  case (WaitIv buf len t key)
  obtain r buf' s' where iv: "poll_read_iv pr buf len (cs_stream c) = (r, buf', s')" using prod_cases3 by blast
  have "cs_stream c' = s' \<and> cs_enc c' = cs_enc c"
    using assms(2) WaitIv iv
    by (auto simp: poll_read_handshake_def Let_def rust_bind_Ret_iff split: poll.split_asm sum.split_asm prod.split_asm if_split_asm)
  with poll_read_iv_keeps [OF assms(1) iv assms(3)] show ?thesis by simp
qed

lemma priv_poll_read_keeps:
  assumes "\<forall>n s. J s \<longrightarrow> J (snd (pr n s))" and "priv_poll_read L B pr c q n = Some (Ret (res, c', q'))" and "J (cs_stream c)"
  shows "J (cs_stream c') \<and> cs_enc c' = cs_enc c"
proof -
  obtain r c1 q1 where h: "poll_read_handshake L B pr c q = Ret (r, c1, q1)"
    using assms(2) by (auto simp: priv_poll_read_def split: rust.split_asm)
  note c1 = handshake_keeps [OF assms(1) h assms(3)]
  have "c' = c1 \<or> (\<exists>d res d' s'. cs_enc c' = cs_enc c1 \<and> cs_stream c' = s' \<and> poll_read_decrypted L pr d (cs_stream c1) n = Some (Ret (res, d', s')))
      \<or> (\<exists>d res d' s'. cs_enc c' = cs_enc c1 \<and> cs_stream c' = s' \<and> stream_poll_read_decrypted L pr d (cs_stream c1) n = Some (Ret (res, d', s')))"
    using assms(2) h by (auto simp: priv_poll_read_def rust_bind_Ret_iff
        split: poll.split_asm sum.split_asm option.split_asm DecryptedReader.split_asm)
  then show ?thesis
    using c1 poll_read_decrypted_keeps [OF assms(1)] stream_poll_read_keeps [OF assms(1)] by metis
qed
section \<open>Sockets with two directions\<close>

text \<open>Reading and writing follow the laws of a source and of a sink and do not disturb each other.\<close>

definition socket_ok :: "'s poll_reader \<Rightarrow> 's poll_writer \<Rightarrow> ('s \<Rightarrow> bytes) \<Rightarrow> ('s \<Rightarrow> bytes) \<Rightarrow> bool" where
  "socket_ok pr pw left written \<longleftrightarrow>
     source_ok pr left \<and> sink_ok pw written \<and> (\<forall>n s. written (snd (pr n s)) = written s) \<and> (\<forall>bs s. left (snd (pw bs s)) = left s)"

lemma conn_wait_snd: "cn_stream (snd (conn_wait now c)) = cn_stream c"
  using conn_wait_stream [of now c] by (metis prod.collapse)

lemma conn_socket_ok:
  assumes "socket_ok pr pw left written" and "nodelay_ok nd left" and "nodelay_ok nd written"
  shows "socket_ok (conn_poll_read clock pr) (conn_poll_write clock nd pw) (\<lambda>c. left (cn_stream c)) (\<lambda>c. written (cn_stream c))"
proof -
  have "written (cn_stream (snd (conn_poll_read clock pr n c))) = written (cn_stream c)" for n c
    using assms(1) unfolding socket_ok_def by (auto simp: conn_poll_read_def cancel_timeout_def conn_wait_snd split: prod.split poll.split) (metis snd_conv)+
  moreover have "left (cn_stream (snd (conn_poll_write clock nd pw bs c))) = left (cn_stream c)" for bs c
  proof -
    obtain r s where p: "pw bs (cn_stream c) = (r, s)" by (cases "pw bs (cn_stream c)")
    then have "left s = left (cn_stream c)" using assms(1) unfolding socket_ok_def by (metis snd_conv)
    with p show ?thesis using assms(2) by (cases r) (simp_all add: conn_poll_write_def cancel_timeout_def conn_wait_snd Let_def nodelay_ok_def)
  qed
  ultimately show ?thesis
    using assms conn_source_ok [of pr left clock] conn_sink_ok [of pw written nd clock] by (simp add: socket_ok_def)
qed

lemma mon_socket_ok:
  assumes "socket_ok pr pw left written"
  shows "socket_ok (mon_poll_read pr) (mon_poll_write pw) (\<lambda>m. left (mon_stream m)) (\<lambda>m. written (mon_stream m))"
proof -
  have "mon_stream (snd (mon_poll_read pr n m)) = snd (pr n (mon_stream m))" for n m
    by (simp add: mon_poll_read_def split: prod.split poll.split sum.split)
  moreover have "mon_stream (snd (mon_poll_write pw bs m)) = snd (pw bs (mon_stream m))" for bs m
    by (simp add: mon_poll_write_def split: prod.split poll.split sum.split)
  ultimately show ?thesis
    using assms mon_source_ok [of pr left] mon_sink_ok [of pw written] by (simp add: socket_ok_def)
qed

lemma source_reads:
  assumes "source_ok pr left" and "0 < n" and "pr n s = (res, s')"
  shows "left s = accepted_out res @ left s'" and "res = Ready (Inr []) \<Longrightarrow> left s = []"
  using source_ok_Ready [OF assms(1,2), of s] source_ok_other [OF assms] assms(3)
  by (auto simp: accepted_out_def split: poll.split sum.split)

lemma sink_writes:
  assumes "sink_ok pw written" and "buf \<noteq> []" and "pw buf s = (res, s')"
  shows "written s' = written s @ (case res of Ready (Inr k) \<Rightarrow> take k buf | _ \<Rightarrow> [])"
  using sink_ok_Ready [OF assms(1,2), of s] sink_ok_other [OF assms] assms(3)
  by (auto split: poll.split sum.split)

section \<open>The encrypted end of a tunnel\<close>

text \<open>
  \<open>seals L w0 iv written pre out buf c\<close>: after the chunks \<open>pre\<close> the bytes \<open>out\<close> have been given to the stream, which was made with
  the writer \<open>w0\<close>; the bytes \<open>buf\<close> are offered, and their first chunk may be half written.
\<close>

definition seals ::
    "'c crypto_lib \<Rightarrow> 'c EncryptedWriter \<Rightarrow> bytes \<Rightarrow> ('s \<Rightarrow> bytes) \<Rightarrow> bytes list \<Rightarrow> bytes \<Rightarrow> bytes \<Rightarrow> ('c, 's) CryptoStream \<Rightarrow> bool" where
  "seals L w0 iv written pre out buf c \<longleftrightarrow>
     (\<exists>ms. enc_ok L w0 iv (cs_enc c) (written (cs_stream c)) (pre @ ms)
        \<and> (idle (cs_enc c) \<and> concat ms = out
           \<or> \<not> idle (cs_enc c) \<and> buf \<noteq> [] \<and> (\<exists>ms0. ms = ms0 @ [taken (cs_enc c) buf] \<and> concat ms0 = out)))"

lemma length_taken: "length (taken w buf) \<le> length buf"
  by (cases w) simp_all

lemma seals_write:
  assumes "sink_ok pw written" and ok: "seals L w0 iv written pre out buf c" and buf: "buf \<noteq> []"
    and len: "length (concat pre) + length (out @ buf) \<le> 2 ^ 38"
  shows "\<exists>res c'. priv_poll_write L pw c buf = Ret (res, c') \<and>
    (case res of Ready (Inr k) \<Rightarrow> seals L w0 iv written pre (out @ take k buf) (drop k buf) c' | _ \<Rightarrow> seals L w0 iv written pre out buf c')"
proof -
  let ?t = "taken (cs_enc c) buf"
  obtain ms where ms: "enc_ok L w0 iv (cs_enc c) (written (cs_stream c)) (pre @ ms)"
      "idle (cs_enc c) \<and> concat ms = out \<or> \<not> idle (cs_enc c) \<and> (\<exists>ms0. ms = ms0 @ [?t] \<and> concat ms0 = out)"
    using ok by (auto simp: seals_def)
  then obtain ms0 where ms0: "(if idle (cs_enc c) then (pre @ ms) @ [?t] else pre @ ms) = pre @ ms0 @ [?t]" "concat ms0 = out" by fastforce
  have "length (concat (pre @ ms0 @ [?t])) \<le> 2 ^ 38" using len ms0(2) length_taken [of "cs_enc c" buf] by simp
  from enc_ok_write [OF assms(1) ms(1) ms0(1) [symmetric] this] obtain res c' where
      p: "priv_poll_write L pw c buf = Ret (res, c')" "enc_ok L w0 iv (cs_enc c') (written (cs_stream c')) (pre @ ms0 @ [?t])"
        "taken (cs_enc c') = taken (cs_enc c)"
        "if idle (cs_enc c') then res = Ready (Inr (length ?t)) else \<forall>n. res \<noteq> Ready (Inr n)" by blast
  show ?thesis
  proof (cases "idle (cs_enc c')")
    case True
    then have "seals L w0 iv written pre (out @ take (length ?t) buf) (drop (length ?t) buf) c'"
      unfolding seals_def using p(2) ms0(2) by (intro exI [of _ "ms0 @ [?t]"]) (simp add: taken_prefix(1))
    with p True show ?thesis by simp
  next
    case False
    then have "seals L w0 iv written pre out buf c'"
      unfolding seals_def using p(2,3) ms0(2) buf by (intro exI [of _ "ms0 @ [?t]"]) simp
    with p False show ?thesis by (intro exI [of _ res] exI [of _ c']) (auto split: poll.split sum.split)
  qed
qed

lemma seals_offer: "seals L w0 iv written pre out [] c \<Longrightarrow> seals L w0 iv written pre out buf c"
  by (auto simp: seals_def)

lemma seals_read:
  assumes "seals L w0 iv written pre out buf c" and "priv_poll_read L B pr c q n = Some (Ret (res, c', q'))"
    and "\<forall>n s. written (snd (pr n s)) = written s"
  shows "seals L w0 iv written pre out buf c'"
proof -
  have "written (cs_stream c') = written (cs_stream c)" "cs_enc c' = cs_enc c"
    using priv_poll_read_keeps [where J = "\<lambda>s. written s = written (cs_stream c)", OF _ assms(2)] assms(3) by simp_all
  with assms(1) show ?thesis by (simp add: seals_def)
qed

lemma dec_ok_cong:
  assumes "dec_ok L left missing d r p" and "left r' = left r"
  shows "dec_ok L left missing d r' p"
  using assms(1) by (cases d) (simp_all only: dec_ok.simps reader_ok_def stream_rd_ok_def assms(2), simp_all only: simp_thms, blast+)

lemma conn_ok_write:
  assumes "conn_ok L left missing c p" and "priv_poll_write L pw c data = Ret (res, c')" and "\<forall>bs s. left (snd (pw bs s)) = left s"
  shows "conn_ok L left missing c' p"
proof -
  have "left (cs_stream c') = left (cs_stream c)" "cs_dec c' = cs_dec c" "cs_read_status c' = cs_read_status c"
    using priv_poll_write_keeps [where J = "\<lambda>s. left s = left (cs_stream c)", OF _ assms(2)] assms(3) by simp_all
  with assms(1) show ?thesis by (auto simp: conn_ok_def split: ReadStatus.splits intro: dec_ok_cong)
qed

lemma crypto_read_exact_keeps:
  assumes "\<forall>n s. J s \<longrightarrow> J (snd (pr n s))" and "crypto_read_exact L B pr n buf c q = Some (Ret (res, c', q'))" and "J (cs_stream c)"
  shows "J (cs_stream c') \<and> cs_enc c' = cs_enc c"
proof -
  let ?P = "\<lambda>L B pr n buf c q y. (\<forall>n s. J s \<longrightarrow> J (snd (pr n s))) \<longrightarrow> J (cs_stream c) \<longrightarrow>
      (\<forall>res c' q'. y = Ret (res, c', q') \<longrightarrow> J (cs_stream c') \<and> cs_enc c' = cs_enc c)"
  have "?P L B pr n buf c q (Ret (res, c', q'))"
  proof (rule crypto_read_exact.raw_induct [where P = ?P, OF _ assms(2)], intro allI impI)
    fix rx L pr n buf c q y c' q' and B :: "'d bloom_ops" and res :: "io_error + bytes"
    assume IH: "\<And>L B pr n buf c q y. rx L B pr n buf c q = Some y \<Longrightarrow> ?P L B pr n buf c q y"
      and body: "(if n \<le> length buf then Some (Ret (Inr buf, c, q))
      else
        (case priv_poll_read L B pr c q (n - length buf) of
           None \<Rightarrow> None
         | Some Panic \<Rightarrow> Some Panic
         | Some (Ret (Pending, c, q)) \<Rightarrow> rx L B pr n buf c q
         | Some (Ret (Ready (Inl e), c, q)) \<Rightarrow> Some (Ret (Inl e, c, q))
         | Some (Ret (Ready (Inr bs), c, q)) \<Rightarrow>
             if bs = [] then Some (Ret (Inl (IoError UnexpectedEof ''early eof''), c, q))
             else rx L B pr n (buf @ bs) c q)) = Some y"
      and pr: "\<forall>n s. J s \<longrightarrow> J (snd (pr n s))" and c: "J (cs_stream c)" and y: "y = Ret (res, c', q')"
    have "c' = c \<or> (\<exists>r c1 q1. priv_poll_read L B pr c q (n - length buf) = Some (Ret (r, c1, q1)) \<and> (c' = c1 \<or> (\<exists>buf. rx L B pr n buf c1 q1 = Some y)))"
      using body y by (auto split: if_split_asm option.split_asm rust.split_asm prod.split_asm poll.split_asm sum.split_asm)
    then show "J (cs_stream c') \<and> cs_enc c' = cs_enc c"
    proof (elim disjE exE conjE)
      fix r c1 q1 buf'
      assume "priv_poll_read L B pr c q (n - length buf) = Some (Ret (r, c1, q1))" and rx: "rx L B pr n buf' c1 q1 = Some y"
      from priv_poll_read_keeps [OF pr this(1) c] IH [OF rx] pr y show ?thesis by auto
    qed (use c in simp, use priv_poll_read_keeps [OF pr _ c] in blast)
  qed
  with assms(1,3) show ?thesis by blast
qed

lemma run_crypto_keeps:
  assumes "\<forall>n s. J s \<longrightarrow> J (snd (pr n s))"
  shows "run_crypto L B pr plan c q = Some (Ret (res, c', q')) \<Longrightarrow> J (cs_stream c) \<Longrightarrow> J (cs_stream c') \<and> cs_enc c' = cs_enc c"
proof (induction plan arbitrary: c q)
  case (Need n f)
  then obtain r c1 q1 where r: "crypto_read_exact L B pr n [] c q = Some (Ret (r, c1, q1))"
    by (auto split: option.splits rust.splits)
  note c1 = crypto_read_exact_keeps [OF assms r Need.prems(2)]
  from Need.prems(1) r have "c' = c1 \<or> (\<exists>bs. run_crypto L B pr (f bs) c1 q1 = Some (Ret (res, c', q')))"
    by (cases r) auto
  with Need.IH c1 show ?case by (metis rangeI)
qed simp

lemma conn_ok_writes:
  assumes "crypto_writes L pw c0 ms c" and "\<forall>bs s. left (snd (pw bs s)) = left s" and "conn_ok L left missing c0 p"
  shows "conn_ok L left missing c p"
  using assms(1) by induction (use assms(2,3) conn_ok_write in blast)+

lemma left_writes:
  assumes "crypto_writes L pw c0 ms c" and "\<forall>bs s. left (snd (pw bs s)) = left s"
  shows "left (cs_stream c) = left (cs_stream c0)"
  using assms(1)
proof induction
  case (next_payload ms c data res c')
  then show ?case using priv_poll_write_keeps [where J = "\<lambda>s. left s = left (cs_stream c)", OF _ next_payload(3)] assms(2) by simp
next
  case (again ms m c data res c')
  then show ?case using priv_poll_write_keeps [where J = "\<lambda>s. left s = left (cs_stream c)", OF _ again(4)] assms(2) by simp
qed simp

text \<open>The chunks that a stream has taken, in the middle of a copy.\<close>

lemma seals_chunks:
  assumes "seals L w0 iv written pre out buf c"
  obtains ms where "enc_ok L w0 iv (cs_enc c) (written (cs_stream c)) (pre @ ms)" "prefix (concat ms) (out @ buf)"
    "buf = [] \<longrightarrow> idle (cs_enc c) \<and> concat ms = out"
proof -
  obtain ms where ms: "enc_ok L w0 iv (cs_enc c) (written (cs_stream c)) (pre @ ms)"
      "idle (cs_enc c) \<and> concat ms = out \<or> buf \<noteq> [] \<and> (\<exists>ms0. ms = ms0 @ [taken (cs_enc c) buf] \<and> concat ms0 = out)"
    using assms by (auto simp: seals_def)
  have "prefix (taken (cs_enc c) buf) buf" by (metis taken_prefix(1) take_is_prefix)
  then have "prefix (concat ms) (out @ buf)" using ms(2) by auto
  with that ms show thesis by blast
qed

end
