(* ===== verification/Tunnel.thy ===== *)
theory Tunnel
  imports Proxy_Io Stream_Frames
begin

text \<open>
  Open TCP tunnels: the two copies that every handler of \<^verbatim>\<open>src/relay/tcprelay\<close> runs between its client and the other side, once
  both are connected, in \<^verbatim>\<open>socks5_local.rs\<close>, \<^verbatim>\<open>tunnel_local.rs\<close>, \<^verbatim>\<open>redir_local.rs\<close>, \<^verbatim>\<open>http_local.rs\<close> and \<^verbatim>\<open>server.rs\<close>. The locale
  \<open>copying\<close> is what a copy relies on of its two ends, the locale \<open>tunnel\<close> that of two copies which share their ends; a
  local server and a remote server interpret it, and together they give the delivery of a whole proxied connection.
\<close>

section \<open>Copies\<close>

text \<open>
  The state \<open>'a\<close> holds both ends, since a stream is only split into halves that share it. A read of a half may hang, which
  is \<open>None\<close>, or panic.
\<close>

type_synonym 'a half_reader = "nat \<Rightarrow> 'a \<Rightarrow> ((io_error + bytes) poll \<times> 'a) rust option"
type_synonym 'a half_writer = "bytes \<Rightarrow> 'a \<Rightarrow> ((io_error + nat) poll \<times> 'a) rust"

record copy =
  cp_buf :: bytes
  cp_read_done :: bool
  cp_amt :: nat

definition copy_new :: copy where
  "copy_new = \<lparr>cp_buf = [], cp_read_done = False, cp_amt = 0\<rparr>"

text \<open>
  What \<^verbatim>\<open>tokio\<close> documents of its \<^verbatim>\<open>copy\<close>: it reads into its buffer, writes all of it and reads again, until nothing is read. One turn
  of it, with a buffer of \<open>n\<close> bytes; \<open>Pending\<close> also stands for a copy that goes on. To flush does nothing here.
\<close>

definition copy_poll ::
    "'a half_reader \<Rightarrow> 'a half_writer \<Rightarrow> nat \<Rightarrow> copy \<Rightarrow> 'a \<Rightarrow> ((io_error + nat) poll \<times> copy \<times> 'a) rust option" where
  "copy_poll rd wr n cp a =
     (if cp_buf cp = [] then
        if cp_read_done cp then Some (Ret (Ready (Inr (cp_amt cp)), cp, a))
        else
          (case rd n a of
             None \<Rightarrow> None
           | Some Panic \<Rightarrow> Some Panic
           | Some (Ret (Pending, a)) \<Rightarrow> Some (Ret (Pending, cp, a))
           | Some (Ret (Ready (Inl e), a)) \<Rightarrow> Some (Ret (Ready (Inl e), cp, a))
           | Some (Ret (Ready (Inr bs), a)) \<Rightarrow> Some (Ret (Pending, cp\<lparr>cp_buf := bs, cp_read_done := bs = []\<rparr>, a)))
      else
        (case wr (cp_buf cp) a of
           Panic \<Rightarrow> Some Panic
         | Ret (Pending, a) \<Rightarrow> Some (Ret (Pending, cp, a))
         | Ret (Ready (Inl e), a) \<Rightarrow> Some (Ret (Ready (Inl e), cp, a))
         | Ret (Ready (Inr k), a) \<Rightarrow>
             if k = 0 then Some (Ret (Ready (Inl (IoError WriteZero ''write zero byte into writer'')), cp, a))
             else Some (Ret (Pending, cp\<lparr>cp_buf := drop k (cp_buf cp), cp_amt := cp_amt cp + k\<rparr>, a))))"

text \<open>
  \<^verbatim>\<open>select\<close> of the two copies, \<open>True\<close> for the one from the client and \<open>False\<close> for the one to it. The schedule tells which copy makes
  its next turn; the first that ends ends the tunnel, and \<open>None\<close> is a tunnel that is still open.
\<close>

type_synonym tunnel_end = "(bool \<times> (io_error + nat)) option"

fun select_copies ::
    "(copy \<Rightarrow> 'a \<Rightarrow> ((io_error + nat) poll \<times> copy \<times> 'a) rust option) \<Rightarrow> (copy \<Rightarrow> 'a \<Rightarrow> ((io_error + nat) poll \<times> copy \<times> 'a) rust option) \<Rightarrow>
     bool list \<Rightarrow> copy \<Rightarrow> copy \<Rightarrow> 'a \<Rightarrow> (tunnel_end \<times> copy \<times> copy \<times> 'a) rust option" where
  "select_copies rhalf whalf [] r w a = Some (Ret (None, r, w, a))"
| "select_copies rhalf whalf (True # sched) r w a =
     (case rhalf r a of
        None \<Rightarrow> None
      | Some Panic \<Rightarrow> Some Panic
      | Some (Ret (Ready res, r, a)) \<Rightarrow> Some (Ret (Some (True, res), r, w, a))
      | Some (Ret (Pending, r, a)) \<Rightarrow> select_copies rhalf whalf sched r w a)"
| "select_copies rhalf whalf (False # sched) r w a =
     (case whalf w a of
        None \<Rightarrow> None
      | Some Panic \<Rightarrow> Some Panic
      | Some (Ret (Ready res, w, a)) \<Rightarrow> Some (Ret (Some (False, res), r, w, a))
      | Some (Ret (Pending, w, a)) \<Rightarrow> select_copies rhalf whalf sched r w a)"

section \<open>The tunnel of a local server\<close>

text \<open>The socket of the client, of which the first two parameters are the polls, the stream to the other side and the context.\<close>

type_synonym ('j, 'c, 'k, 'b, 'r, 'q, 'x, 'l) local_ends = "'j \<times> ('c, 'k) ProxyStream \<times> ('b, 'r, 'q, 'x, 'l) Context"

definition read_client :: "'j poll_reader \<Rightarrow> ('j, 'c, 'k, 'b, 'r, 'q, 'x, 'l) local_ends half_reader" where
  "read_client jr n a = (case a of (j, ps, context) \<Rightarrow> case jr n j of (res, j) \<Rightarrow> Some (Ret (res, j, ps, context)))"

definition write_client :: "'j poll_writer \<Rightarrow> ('j, 'c, 'k, 'b, 'r, 'q, 'x, 'l) local_ends half_writer" where
  "write_client jw buf a = (case a of (j, ps, context) \<Rightarrow> case jw buf j of (res, j) \<Rightarrow> Ret (res, j, ps, context))"

definition read_proxy ::
    "('c, 'b, 'n, 'm, 'r, 'q, 'x, 'l, 'k, 'w) tcp_env \<Rightarrow> ('j, 'c, 'k, 'b, 'r, 'q, 'x, 'l) local_ends half_reader" where
  "read_proxy E n a =
     (case a of (j, ps, context) \<Rightarrow>
        map_option (\<lambda>x. rust_bind x (\<lambda>(res, ps, context). Ret (res, j, ps, context))) (ps_poll_read E n ps context))"

definition write_proxy ::
    "('c, 'b, 'n, 'm, 'r, 'q, 'x, 'l, 'k, 'w) tcp_env \<Rightarrow> ('j, 'c, 'k, 'b, 'r, 'q, 'x, 'l) local_ends half_writer" where
  "write_proxy E buf a =
     (case a of (j, ps, context) \<Rightarrow> rust_bind (ps_poll_write E buf ps context) (\<lambda>(res, ps, context). Ret (res, j, ps, context)))"

text \<open>However a tunnel ends, its handler returns successfully.\<close>

definition tunnel_result :: "tunnel_end \<Rightarrow> (io_error + unit) option" where
  "tunnel_result fin = map_option (\<lambda>_. Inr ()) fin"

definition establish_connect_tunnel ::
    "('c, 'b, 'n, 'm, 'r, 'q, 'x, 'l, 'k, 'w) tcp_env \<Rightarrow> 'j poll_reader \<Rightarrow> 'j poll_writer \<Rightarrow> nat \<Rightarrow> bool list \<Rightarrow>
     ('j, 'c, 'k, 'b, 'r, 'q, 'x, 'l) local_ends \<Rightarrow>
     (tunnel_end \<times> copy \<times> copy \<times> ('j, 'c, 'k, 'b, 'r, 'q, 'x, 'l) local_ends) rust option" where
  "establish_connect_tunnel E jr jw n sched a =
     select_copies (copy_poll (read_client jr) (write_proxy E) n) (copy_poll (read_proxy E) (write_client jw) n) sched copy_new copy_new a"

section \<open>The tunnel of a remote server\<close>

text \<open>The encrypted stream of the client, the socket of the target and the context.\<close>

type_synonym ('c, 'k, 'b, 'r, 'q, 'x, 'l) server_ends =
  "('c, 'k Connection TcpMonStream) CryptoStream \<times> 'k \<times> ('b, 'r, 'q, 'x, 'l) Context"

definition sv_write :: "('c, 'b, 'n, 'm, 'r, 'q, 'x, 'l, 'k, 'w) tcp_env \<Rightarrow> 'k Connection TcpMonStream poll_writer" where
  "sv_write E = mon_poll_write (st_write E)"

definition read_crypto ::
    "('c, 'b, 'n, 'm, 'r, 'q, 'x, 'l, 'k, 'w) tcp_env \<Rightarrow> ('c, 'k, 'b, 'r, 'q, 'x, 'l) server_ends half_reader" where
  "read_crypto E n a =
     (case a of (c, remote, context) \<Rightarrow>
        map_option (\<lambda>x. rust_bind x (\<lambda>(res, c, p). Ret (res, c, remote, context\<lparr>ctx_nonce_ppbloom := p\<rparr>)))
          (priv_poll_read (te_lib E) (te_bloom E) (st_read E) c (ctx_nonce_ppbloom context) n))"

definition write_crypto ::
    "('c, 'b, 'n, 'm, 'r, 'q, 'x, 'l, 'k, 'w) tcp_env \<Rightarrow> ('c, 'k, 'b, 'r, 'q, 'x, 'l) server_ends half_writer" where
  "write_crypto E buf a =
     (case a of (c, remote, context) \<Rightarrow> rust_bind (priv_poll_write (te_lib E) (sv_write E) c buf) (\<lambda>(res, c). Ret (res, c, remote, context)))"

definition read_remote ::
    "('c, 'b, 'n, 'm, 'r, 'q, 'x, 'l, 'k, 'w) tcp_env \<Rightarrow> ('c, 'k, 'b, 'r, 'q, 'x, 'l) server_ends half_reader" where
  "read_remote E n a = (case a of (c, remote, context) \<Rightarrow> case te_read E n remote of (res, remote) \<Rightarrow> Some (Ret (res, c, remote, context)))"

definition write_remote ::
    "('c, 'b, 'n, 'm, 'r, 'q, 'x, 'l, 'k, 'w) tcp_env \<Rightarrow> ('c, 'k, 'b, 'r, 'q, 'x, 'l) server_ends half_writer" where
  "write_remote E buf a = (case a of (c, remote, context) \<Rightarrow> case te_write E buf remote of (res, remote) \<Rightarrow> Ret (res, c, remote, context))"

definition server_tunnel ::
    "('c, 'b, 'n, 'm, 'r, 'q, 'x, 'l, 'k, 'w) tcp_env \<Rightarrow> nat \<Rightarrow> bool list \<Rightarrow> ('c, 'k, 'b, 'r, 'q, 'x, 'l) server_ends \<Rightarrow>
     (tunnel_end \<times> copy \<times> copy \<times> ('c, 'k, 'b, 'r, 'q, 'x, 'l) server_ends) rust option" where
  "server_tunnel E n sched a =
     select_copies (copy_poll (read_crypto E) (write_remote E) n) (copy_poll (read_remote E) (write_crypto E) n) sched copy_new copy_new a"

section \<open>Handlers with their tunnel\<close>

definition with_tunnel ::
    "('c, 'b, 'n, 'm, 'r, 'q, 'x, 'l, 'k, 'w) tcp_env \<Rightarrow> 'j poll_reader \<Rightarrow> 'j poll_writer \<Rightarrow> nat \<Rightarrow> bool list \<Rightarrow> 'j \<Rightarrow>
     ((io_error + ('c, 'k) ProxyStream) \<times> ('b, 'r, 'q, 'x, 'l) Context \<times> 'w) rust option \<Rightarrow>
     ((io_error + unit) option \<times> 'j \<times> ('b, 'r, 'q, 'x, 'l) Context \<times> 'w) rust option" where
  "with_tunnel E jr jw n sched s connected =
     (case connected of
        None \<Rightarrow> None
      | Some Panic \<Rightarrow> Some Panic
      | Some (Ret (Inl e, context, w)) \<Rightarrow> Some (Ret (Some (Inl e), s, context, w))
      | Some (Ret (Inr svr_s, context, w)) \<Rightarrow>
          map_option (\<lambda>x. rust_bind x (\<lambda>(fin, _, _, s, _, context). Ret (tunnel_result fin, s, context, w)))
            (establish_connect_tunnel E jr jw n sched (s, svr_s, context)))"

definition establish_client_tcp_tunnel ::
    "('c, 'b, 'n, 'm, 'r, 'q, 'x, 'l, 'k, 'w) tcp_env \<Rightarrow> 'j poll_reader \<Rightarrow> 'j poll_writer \<Rightarrow> nat \<Rightarrow> bool list \<Rightarrow> ServerConfig \<Rightarrow> 'j \<Rightarrow> Address \<Rightarrow>
     ('b, 'r, 'q, 'x, 'l) Context \<Rightarrow> 'w \<Rightarrow> ((io_error + unit) option \<times> 'j \<times> ('b, 'r, 'q, 'x, 'l) Context \<times> 'w) rust option" where
  "establish_client_tcp_tunnel E jr jw n sched svr_cfg s addr context w =
     with_tunnel E jr jw n sched s (connect_proxied E context svr_cfg addr w)"

definition establish_client_tcp_redir ::
    "('c, 'b, 'n, 'm, 'r, 'q, 'x, 'l, 'k, 'w) tcp_env \<Rightarrow> 'j poll_reader \<Rightarrow> 'j poll_writer \<Rightarrow> nat \<Rightarrow> bool list \<Rightarrow> ServerConfig \<Rightarrow> 'j \<Rightarrow> Address \<Rightarrow>
     ('b, 'r, 'q, 'x, 'l) Context \<Rightarrow> 'w \<Rightarrow> ((io_error + unit) option \<times> 'j \<times> ('b, 'r, 'q, 'x, 'l) Context \<times> 'w) rust option" where
  "establish_client_tcp_redir E jr jw n sched svr_cfg s addr context w =
     with_tunnel E jr jw n sched s
       (map_option (\<lambda>x. rust_bind x (\<lambda>(res, context, w). Ret (map_err pse_inner res, context, w))) (ProxyStream_connect E context svr_cfg addr w))"

text \<open>The SOCKS5 server first gives up \<^verbatim>\<open>TCP_NODELAY\<close> on the socket of the client, unless it is configured to keep it.\<close>

definition socks5_connect_tunnel ::
    "('c, 'b, 'n, 'm, 'r, 'q, 'x, 'l, 'k, 'w) tcp_env \<Rightarrow> 'f f64_ops \<Rightarrow> 'j client_io \<Rightarrow> 'j nodelay_op \<Rightarrow> 'j poll_reader \<Rightarrow> 'j poll_writer \<Rightarrow> nat \<Rightarrow>
     bool list \<Rightarrow> ServerConfig \<Rightarrow> Address \<Rightarrow> 'j \<Rightarrow> ('b, 'r, 'q, 'x, 'l) Context \<Rightarrow> 'f ServerStatisticData \<Rightarrow> 'w \<Rightarrow>
     ((io_error + unit) option \<times> 'j \<times> ('b, 'r, 'q, 'x, 'l) Context \<times> 'f ServerStatisticData \<times> 'w) rust option" where
  "socks5_connect_tunnel E F I nd jr jw n sched svr_cfg addr s context stat w =
     (case handle_socks5_connect E F I svr_cfg addr s context stat w of
        None \<Rightarrow> None
      | Some Panic \<Rightarrow> Some Panic
      | Some (Ret (Inl e, s, context, stat, w)) \<Rightarrow> Some (Ret (Some (Inl e), s, context, stat, w))
      | Some (Ret (Inr svr_s, s, context, stat, w)) \<Rightarrow>
          let s = (if \<not> cfg_no_delay (ctx_config context) then snd (nd False s) else s) in
          map_option (\<lambda>x. rust_bind x (\<lambda>(res, s, context, w). Ret (res, s, context, stat, w)))
            (with_tunnel E jr jw n sched s (Some (Ret (Inr svr_s, context, w)))))"

definition serve_client ::
    "('c, 'b, 'n, 'm, 'r, 'q, 'x, 'l, 'k, 'w) tcp_env \<Rightarrow> nat \<Rightarrow> bool list \<Rightarrow> ('b, 'r, 'q, 'x, 'l) Context \<Rightarrow> ServerFlowStatistic \<Rightarrow>
     ServerConfig \<Rightarrow> 'k \<Rightarrow> 'w \<Rightarrow> ((io_error + unit) option \<times> ('b, 'r, 'q, 'x, 'l) Context \<times> 'w) rust option" where
  "serve_client E n sched context flow_stat svr_cfg socket w =
     (case handle_client E context flow_stat svr_cfg socket w of
        None \<Rightarrow> None
      | Some Panic \<Rightarrow> Some Panic
      | Some (Ret (Inl e, context, w)) \<Rightarrow> Some (Ret (Some (Inl e), context, w))
      | Some (Ret (Inr None, context, w)) \<Rightarrow> Some (Ret (Some (Inr ()), context, w))
      | Some (Ret (Inr (Some (stream, _, remote)), context, w)) \<Rightarrow>
          map_option (\<lambda>x. rust_bind x (\<lambda>(fin, _, _, _, _, context). Ret (tunnel_result fin, context, w)))
            (server_tunnel E n sched (stream, remote, context)))"

section \<open>What a copy relies on\<close>

lemma copy_poll_keeps:
  assumes "copy_poll rd wr n cp a = Some (Ret (res, cp', a'))" and "J a"
    and "\<And>res a a'. \<lbrakk>J a; rd n a = Some (Ret (res, a'))\<rbrakk> \<Longrightarrow> J a'" and "\<And>bs res a a'. \<lbrakk>J a; wr bs a = Ret (res, a')\<rbrakk> \<Longrightarrow> J a'"
  shows "J a'"
proof -
  have "a' = a \<or> (\<exists>r. rd n a = Some (Ret (r, a'))) \<or> (\<exists>r. wr (cp_buf cp) a = Ret (r, a'))"
    using assms(1) by (auto simp: copy_poll_def split: if_split_asm option.split_asm rust.split_asm prod.split_asm poll.split_asm sum.split_asm)
  with assms(2-4) show ?thesis by blast
qed

text \<open>In the middle of a copy, the bytes \<open>p\<close> are divided into what is written, what is in the buffer and what is to come.\<close>

definition flows ::
    "(bytes \<Rightarrow> 'a \<Rightarrow> bool) \<Rightarrow> (bytes \<Rightarrow> bytes \<Rightarrow> 'a \<Rightarrow> bool) \<Rightarrow> bool \<Rightarrow> bytes \<Rightarrow> copy \<Rightarrow> bytes \<Rightarrow> 'a \<Rightarrow> bool" where
  "flows src dst full p cp out a \<longleftrightarrow>
     (\<exists>p'. src p' a \<and> dst out (cp_buf cp) a \<and> p = out @ cp_buf cp @ p' \<and> (full \<and> cp_read_done cp \<longrightarrow> p' = []))"

text \<open>
  \<open>src p a\<close>: the reader still delivers \<open>p\<close>. \<open>dst out buf a\<close>: the writer has taken \<open>out\<close>, and \<open>buf\<close> is what is offered to it until it
  has taken all of it. \<open>full\<close> tells whether the end of the source is the end of \<open>p\<close>, and \<open>limit\<close> bounds the bytes that
  the writer can take.
\<close>

locale copying =
  fixes rd :: "'a half_reader" and wr :: "'a half_writer"
    and src :: "bytes \<Rightarrow> 'a \<Rightarrow> bool" and dst :: "bytes \<Rightarrow> bytes \<Rightarrow> 'a \<Rightarrow> bool" and full :: bool and limit :: nat
  assumes reads: "\<lbrakk>src p a; 0 < n\<rbrakk> \<Longrightarrow>
      \<exists>res a'. rd n a = Some (Ret (res, a')) \<and> (\<exists>p'. p = accepted_out res @ p' \<and> src p' a') \<and> (full \<and> res = Ready (Inr []) \<longrightarrow> p = [])"
    and writes: "\<lbrakk>dst out buf a; buf \<noteq> []; length (out @ buf) \<le> limit\<rbrakk> \<Longrightarrow>
      \<exists>res a'. wr buf a = Ret (res, a') \<and>
        (case res of Ready (Inr k) \<Rightarrow> dst (out @ take k buf) (drop k buf) a' | _ \<Rightarrow> dst out buf a')"
    and offers: "dst out [] a \<Longrightarrow> dst out buf a"
    and read_keeps: "\<lbrakk>dst out buf a; rd n a = Some (Ret (res, a'))\<rbrakk> \<Longrightarrow> dst out buf a'"
    and write_keeps: "\<lbrakk>src p a; wr buf a = Ret (taken_res, a')\<rbrakk> \<Longrightarrow> src p a'"
begin

lemma copy_poll_flows:
  assumes "flows src dst full p cp out a" and "0 < n" and "length p \<le> limit"
  shows "\<exists>res cp' a' out'. copy_poll rd wr n cp a = Some (Ret (res, cp', a')) \<and> flows src dst full p cp' out' a'
           \<and> (\<forall>k. res = Ready (Inr k) \<longrightarrow> cp_read_done cp' \<and> cp_buf cp' = [])"
proof -
  obtain p' where p': "src p' a" "dst out (cp_buf cp) a" "p = out @ cp_buf cp @ p'" "full \<and> cp_read_done cp \<longrightarrow> p' = []"
    using assms(1) by (auto simp: flows_def)
  consider (fin) "cp_buf cp = []" "cp_read_done cp" | (get) "cp_buf cp = []" "\<not> cp_read_done cp" | (put) "cp_buf cp \<noteq> []" by blast
  then show ?thesis
  proof cases
    case fin
    with assms(1) show ?thesis by (auto simp: copy_poll_def)
  next
    case get
    obtain res a' q where r: "rd n a = Some (Ret (res, a'))" "p' = accepted_out res @ q" "src q a'" "full \<and> res = Ready (Inr []) \<longrightarrow> p' = []"
      using reads [OF p'(1) assms(2)] by auto
    have d: "dst out buf a'" for buf
      using offers [OF read_keeps [OF _ r(1)], of out] p'(2) get(1) by simp
    consider "res = Pending" | e where "res = Ready (Inl e)" | bs where "res = Ready (Inr bs)" by (metis poll.exhaust sum.exhaust)
    then show ?thesis
      using get p'(3) r d by cases (auto simp: copy_poll_def flows_def accepted_out_def)
  next
    case put
    have "length (out @ cp_buf cp) \<le> limit" using p'(3) assms(3) by simp
    from writes [OF p'(2) put this] obtain res a' where w: "wr (cp_buf cp) a = Ret (res, a')"
        "case res of Ready (Inr k) \<Rightarrow> dst (out @ take k (cp_buf cp)) (drop k (cp_buf cp)) a' | _ \<Rightarrow> dst out (cp_buf cp) a'" by blast
    have s: "src p' a'" by (rule write_keeps [OF p'(1) w(1)])
    consider "res = Pending" | e where "res = Ready (Inl e)" | k where "res = Ready (Inr k)" by (metis poll.exhaust sum.exhaust)
    then show ?thesis
    proof cases
      case 3
      show ?thesis
      proof (cases "k = 0")
        case True
        with 3 put w s p' show ?thesis by (auto simp: copy_poll_def flows_def)
      next
        case False
        with 3 put w have "copy_poll rd wr n cp a = Some (Ret (Pending, cp\<lparr>cp_buf := drop k (cp_buf cp), cp_amt := cp_amt cp + k\<rparr>, a'))"
          by (simp add: copy_poll_def)
        moreover have "flows src dst full p (cp\<lparr>cp_buf := drop k (cp_buf cp), cp_amt := cp_amt cp + k\<rparr>) (out @ take k (cp_buf cp)) a'"
          using 3 w(2) s p' by (auto simp: flows_def)
        ultimately show ?thesis by blast
      qed
    qed (use put w s p' in \<open>auto simp: copy_poll_def flows_def\<close>)
  qed
qed

text \<open>A step of the other copy that keeps both ends keeps the division.\<close>

lemma flows_other:
  assumes "flows src dst full p cp out a" and "\<And>q. src q a \<Longrightarrow> src q a'" and "\<And>buf. dst out buf a \<Longrightarrow> dst out buf a'"
  shows "flows src dst full p cp out a'"
  using assms unfolding flows_def by blast

end

text \<open>Two copies between the same ends: no step of one changes what the other relies on.\<close>

locale tunnel = up: copying rd1 wr1 src1 dst1 full1 limit + down: copying rd2 wr2 src2 dst2 full2 limit
  for rd1 :: "'a half_reader" and wr1 :: "'a half_writer" and src1 dst1 full1
    and rd2 :: "'a half_reader" and wr2 :: "'a half_writer" and src2 dst2 full2 and limit +
  assumes read1_src: "\<lbrakk>src2 p a; rd1 n a = Some (Ret (res, a'))\<rbrakk> \<Longrightarrow> src2 p a'"
    and read1_dst: "\<lbrakk>dst2 out buf a; rd1 n a = Some (Ret (res, a'))\<rbrakk> \<Longrightarrow> dst2 out buf a'"
    and write1_src: "\<lbrakk>src2 p a; wr1 bs a = Ret (taken_res, a')\<rbrakk> \<Longrightarrow> src2 p a'"
    and write1_dst: "\<lbrakk>dst2 out buf a; wr1 bs a = Ret (taken_res, a')\<rbrakk> \<Longrightarrow> dst2 out buf a'"
    and read2_src: "\<lbrakk>src1 p a; rd2 n a = Some (Ret (res, a'))\<rbrakk> \<Longrightarrow> src1 p a'"
    and read2_dst: "\<lbrakk>dst1 out buf a; rd2 n a = Some (Ret (res, a'))\<rbrakk> \<Longrightarrow> dst1 out buf a'"
    and write2_src: "\<lbrakk>src1 p a; wr2 bs a = Ret (taken_res, a')\<rbrakk> \<Longrightarrow> src1 p a'"
    and write2_dst: "\<lbrakk>dst1 out buf a; wr2 bs a = Ret (taken_res, a')\<rbrakk> \<Longrightarrow> dst1 out buf a'"
begin

text \<open>A turn of one copy keeps the other.\<close>

lemma up_keeps_down:
  assumes "copy_poll rd1 wr1 n r a = Some (Ret (res, r1, a1))" and "flows src2 dst2 full2 p w out a"
  shows "flows src2 dst2 full2 p w out a1"
proof (rule down.flows_other [OF assms(2)])
  show "src2 q a1" if "src2 q a" for q
    by (rule copy_poll_keeps [where J = "src2 q", OF assms(1) that]) (erule (1) read1_src write1_src)+
  show "dst2 out buf a1" if "dst2 out buf a" for buf
    by (rule copy_poll_keeps [where J = "dst2 out buf", OF assms(1) that]) (erule (1) read1_dst write1_dst)+
qed

lemma down_keeps_up:
  assumes "copy_poll rd2 wr2 n w a = Some (Ret (res, w1, a1))" and "flows src1 dst1 full1 p r out a"
  shows "flows src1 dst1 full1 p r out a1"
proof (rule up.flows_other [OF assms(2)])
  show "src1 q a1" if "src1 q a" for q
    by (rule copy_poll_keeps [where J = "src1 q", OF assms(1) that]) (erule (1) read2_src write2_src)+
  show "dst1 out buf a1" if "dst1 out buf a" for buf
    by (rule copy_poll_keeps [where J = "dst1 out buf", OF assms(1) that]) (erule (1) read2_dst write2_dst)+
qed

text \<open>Each direction keeps its bytes in order, whatever the other one does.\<close>

lemma select_up:
  assumes "0 < n" and "length p \<le> limit"
  shows "select_copies (copy_poll rd1 wr1 n) (copy_poll rd2 wr2 n) sched r w a = Some (Ret (fin, r', w', a')) \<Longrightarrow> flows src1 dst1 full1 p r out a \<Longrightarrow>
    \<exists>out'. flows src1 dst1 full1 p r' out' a' \<and> (\<forall>k. fin = Some (True, Inr k) \<longrightarrow> cp_read_done r' \<and> cp_buf r' = [])"
proof (induction sched arbitrary: r w a out)
  case Nil
  then show ?case by auto
next
  case (Cons b sched)
  show ?case
  proof (cases b)
    case True
    obtain res r1 a1 out1 where s: "copy_poll rd1 wr1 n r a = Some (Ret (res, r1, a1))" "flows src1 dst1 full1 p r1 out1 a1"
        "\<forall>k. res = Ready (Inr k) \<longrightarrow> cp_read_done r1 \<and> cp_buf r1 = []"
      using up.copy_poll_flows [OF Cons.prems(2) assms] by blast
    show ?thesis
    proof (cases res)
      case Pending
      with Cons.IH [OF _ s(2)] Cons.prems(1) s(1) True show ?thesis by simp
    next
      case (Ready x)
      with Cons.prems(1) s True show ?thesis by auto
    qed
  next
    case False
    then obtain res w1 a1 where s: "copy_poll rd2 wr2 n w a = Some (Ret (res, w1, a1))"
      using Cons.prems(1) by (auto split: option.splits rust.splits)
    note keep = down_keeps_up [OF s Cons.prems(2)]
    show ?thesis
    proof (cases res)
      case Pending
      with Cons.IH [OF _ keep] Cons.prems(1) s False show ?thesis by simp
    next
      case (Ready x)
      with Cons.prems(1) s keep False show ?thesis by auto
    qed
  qed
qed

lemma select_down:
  assumes "0 < n" and "length p \<le> limit"
  shows "select_copies (copy_poll rd1 wr1 n) (copy_poll rd2 wr2 n) sched r w a = Some (Ret (fin, r', w', a')) \<Longrightarrow> flows src2 dst2 full2 p w out a \<Longrightarrow>
    \<exists>out'. flows src2 dst2 full2 p w' out' a' \<and> (\<forall>k. fin = Some (False, Inr k) \<longrightarrow> cp_read_done w' \<and> cp_buf w' = [])"
proof (induction sched arbitrary: r w a out)
  case Nil
  then show ?case by auto
next
  case (Cons b sched)
  show ?case
  proof (cases b)
    case True
    then obtain res r1 a1 where s: "copy_poll rd1 wr1 n r a = Some (Ret (res, r1, a1))"
      using Cons.prems(1) by (auto split: option.splits rust.splits)
    note keep = up_keeps_down [OF s Cons.prems(2)]
    show ?thesis
    proof (cases res)
      case Pending
      with Cons.IH [OF _ keep] Cons.prems(1) s True show ?thesis by simp
    next
      case (Ready x)
      with Cons.prems(1) s keep True show ?thesis by auto
    qed
  next
    case False
    obtain res w1 a1 out1 where s: "copy_poll rd2 wr2 n w a = Some (Ret (res, w1, a1))" "flows src2 dst2 full2 p w1 out1 a1"
        "\<forall>k. res = Ready (Inr k) \<longrightarrow> cp_read_done w1 \<and> cp_buf w1 = []"
      using down.copy_poll_flows [OF Cons.prems(2) assms] by blast
    show ?thesis
    proof (cases res)
      case Pending
      with Cons.IH [OF _ s(2)] Cons.prems(1) s(1) False show ?thesis by simp
    next
      case (Ready x)
      with Cons.prems(1) s False show ?thesis by auto
    qed
  qed
qed

text \<open>Whatever the schedule, no turn panics or hangs.\<close>

lemma select_total:
  assumes "0 < n" and "length p1 \<le> limit" and "length p2 \<le> limit"
  shows "flows src1 dst1 full1 p1 r o1 a \<Longrightarrow> flows src2 dst2 full2 p2 w o2 a \<Longrightarrow>
    \<exists>fin r' w' a'. select_copies (copy_poll rd1 wr1 n) (copy_poll rd2 wr2 n) sched r w a = Some (Ret (fin, r', w', a'))"
proof (induction sched arbitrary: r w a o1 o2)
  case (Cons b sched)
  show ?case
  proof (cases b)
    case True
    obtain res r1 a1 o1' where s: "copy_poll rd1 wr1 n r a = Some (Ret (res, r1, a1))" "flows src1 dst1 full1 p1 r1 o1' a1"
      using up.copy_poll_flows [OF Cons.prems(1) assms(1,2)] by blast
    with Cons.IH [OF s(2) up_keeps_down [OF s(1) Cons.prems(2)]] True show ?thesis by (cases res) auto
  next
    case False
    obtain res w1 a1 o2' where s: "copy_poll rd2 wr2 n w a = Some (Ret (res, w1, a1))" "flows src2 dst2 full2 p2 w1 o2' a1"
      using down.copy_poll_flows [OF Cons.prems(2) assms(1,3)] by blast
    with Cons.IH [OF down_keeps_up [OF s(1) Cons.prems(1)] s(2)] False show ?thesis by (cases res) auto
  qed
qed simp

end

section \<open>The tunnel of a local server delivers\<close>

text \<open>
  What a tunnel asks of the sockets of a local server: \<open>leftj\<close> and \<open>writtenj\<close> for the client, \<open>left\<close> and \<open>written\<close> for the proxy server.
\<close>

definition local_sockets ::
    "('c, 'b, 'n, 'm, 'r, 'q, 'x, 'l, 'k, 'w) tcp_env \<Rightarrow> 'j poll_reader \<Rightarrow> 'j poll_writer \<Rightarrow> ('j \<Rightarrow> bytes) \<Rightarrow> ('j \<Rightarrow> bytes) \<Rightarrow>
     ('k \<Rightarrow> bytes) \<Rightarrow> ('k \<Rightarrow> bytes) \<Rightarrow> bool" where
  "local_sockets E jr jw leftj writtenj left written \<longleftrightarrow>
     socket_ok jr jw leftj writtenj \<and> socket_ok (te_read E) (te_write E) left written
     \<and> nodelay_ok (te_nodelay E) left \<and> nodelay_ok (te_nodelay E) written"

definition client_sends :: "bool \<Rightarrow> ('j \<Rightarrow> bytes) \<Rightarrow> bytes \<Rightarrow> ('j, 'c, 'k, 'b, 'r, 'q, 'x, 'l) local_ends \<Rightarrow> bool" where
  "client_sends H leftj p a \<longleftrightarrow> H \<and> leftj (fst a) = p"

definition client_got :: "bool \<Rightarrow> ('j \<Rightarrow> bytes) \<Rightarrow> bytes \<Rightarrow> bytes \<Rightarrow> bytes \<Rightarrow> ('j, 'c, 'k, 'b, 'r, 'q, 'x, 'l) local_ends \<Rightarrow> bool" where
  "client_got H writtenj base out buf a \<longleftrightarrow> H \<and> writtenj (fst a) = base @ out"

definition proxy_sends ::
    "bool \<Rightarrow> 'c crypto_lib \<Rightarrow> ('k \<Rightarrow> bytes) \<Rightarrow> bytes \<Rightarrow> bytes \<Rightarrow> ('j, 'c, 'k, 'b, 'r, 'q, 'x, 'l) local_ends \<Rightarrow> bool" where
  "proxy_sends H L left missing p a \<longleftrightarrow> H \<and> (\<exists>c. fst (snd a) = Proxied c \<and> conn_ok L (\<lambda>s. left (cn_stream s)) missing c p)"

definition proxy_got ::
    "bool \<Rightarrow> 'c crypto_lib \<Rightarrow> 'c EncryptedWriter \<Rightarrow> bytes \<Rightarrow> ('k \<Rightarrow> bytes) \<Rightarrow> bytes list \<Rightarrow> nat \<Rightarrow> bytes \<Rightarrow> bytes \<Rightarrow>
     ('j, 'c, 'k, 'b, 'r, 'q, 'x, 'l) local_ends \<Rightarrow> bool" where
  "proxy_got H L w0 iv written pre limit out buf a \<longleftrightarrow>
     H \<and> length (concat pre) + limit \<le> 2 ^ 38 \<and> (\<exists>c. fst (snd a) = Proxied c \<and> seals L w0 iv (\<lambda>s. written (cn_stream s)) pre out buf c)"

lemma st_socket_ok:
  assumes "local_sockets E jr jw leftj writtenj left written"
  shows "socket_ok (conn_poll_read (te_clock E) (te_read E)) (st_write E) (\<lambda>s. left (cn_stream s)) (\<lambda>s. written (cn_stream s))"
  using assms unfolding local_sockets_def st_write_def by (intro conn_socket_ok) simp_all

lemma read_proxy_cases:
  assumes "read_proxy E n a = Some (Ret (res, a'))" and "fst (snd a) = Proxied c"
  obtains c' q q' where "fst a' = fst a" "fst (snd a') = Proxied c'"
    "priv_poll_read (te_lib E) (te_bloom E) (conn_poll_read (te_clock E) (te_read E)) c q n = Some (Ret (res, c', q'))"
  using assms by (cases a) (auto simp: read_proxy_def ps_poll_read_def rust_bind_Ret_iff)

lemma write_proxy_cases:
  assumes "write_proxy E buf a = Ret (res, a')" and "fst (snd a) = Proxied c"
  obtains c' where "fst a' = fst a" "fst (snd a') = Proxied c'" "priv_poll_write (te_lib E) (st_write E) c buf = Ret (res, c')"
  using assms by (cases a) (auto simp: write_proxy_def ps_poll_write_def rust_bind_Ret_iff)

lemma read_proxy_Proxied:
  assumes "priv_poll_read (te_lib E) (te_bloom E) (conn_poll_read (te_clock E) (te_read E)) c (ctx_nonce_ppbloom (snd (snd a))) n = Some (Ret (res, c', q'))"
    and "fst (snd a) = Proxied c"
  shows "\<exists>a'. read_proxy E n a = Some (Ret (res, a')) \<and> fst a' = fst a \<and> fst (snd a') = Proxied c'"
  using assms by (cases a) (auto simp: read_proxy_def ps_poll_read_def)

lemma write_proxy_Proxied:
  assumes "priv_poll_write (te_lib E) (st_write E) c buf = Ret (res, c')" and "fst (snd a) = Proxied c"
  shows "\<exists>a'. write_proxy E buf a = Ret (res, a') \<and> fst a' = fst a \<and> fst (snd a') = Proxied c'"
  using assms by (cases a) (auto simp: write_proxy_def ps_poll_write_def)

interpretation local_up: copying
  "read_client jr :: ('j, 'c, 'k, 'b, 'r, 'q, 'x, 'l) local_ends half_reader" "write_proxy E"
  "client_sends (local_sockets E jr jw leftj writtenj left written) leftj"
  "proxy_got (local_sockets E jr jw leftj writtenj left written) (te_lib E) w0 iv written pre limit" True limit
  for E :: "('c, 'b, 'n, 'm, 'r, 'q, 'x, 'l, 'k, 'w) tcp_env" and jr :: "'j poll_reader" and jw leftj writtenj left written w0 iv pre limit
proof (unfold_locales, goal_cases)
  case (1 p a n)
  obtain res j where r: "jr n (fst a) = (res, j)" by (cases "jr n (fst a)")
  have "source_ok jr leftj" using 1(1) by (simp add: client_sends_def local_sockets_def socket_ok_def)
  with source_reads [OF this 1(2) r] 1(1) r show ?case
    by (cases a) (auto simp: read_client_def client_sends_def)
next
  case (2 out buf a)
  then obtain c where c: "fst (snd a) = Proxied c" "seals (te_lib E) w0 iv (\<lambda>s. written (cn_stream s)) pre out buf c"
      "local_sockets E jr jw leftj writtenj left written" "length (concat pre) + limit \<le> 2 ^ 38"
    by (auto simp: proxy_got_def)
  have "sink_ok (st_write E) (\<lambda>s. written (cn_stream s))" using st_socket_ok [OF c(3)] by (simp add: socket_ok_def)
  from seals_write [OF this c(2) 2(2)] 2(3) c(4) obtain res c' where
      w: "priv_poll_write (te_lib E) (st_write E) c buf = Ret (res, c')"
        "case res of Ready (Inr k) \<Rightarrow> seals (te_lib E) w0 iv (\<lambda>s. written (cn_stream s)) pre (out @ take k buf) (drop k buf) c'
          | _ \<Rightarrow> seals (te_lib E) w0 iv (\<lambda>s. written (cn_stream s)) pre out buf c'"
    by auto
  obtain a' where "write_proxy E buf a = Ret (res, a')" "fst (snd a') = Proxied c'" using write_proxy_Proxied [OF w(1) c(1)] by blast
  with w(2) c(3,4) show ?case by (intro exI [of _ res] exI [of _ a']) (auto simp: proxy_got_def split: poll.split sum.split)
next
  case (3 out a buf)
  then show ?case by (auto simp: proxy_got_def intro: seals_offer)
next
  case (4 out buf a n res a')
  then show ?case by (cases a) (auto simp: proxy_got_def read_client_def split: prod.splits)
next
  case (5 p a buf res a')
  then show ?case by (cases a) (auto simp: client_sends_def write_proxy_def rust_bind_Ret_iff)
qed

interpretation local_down: copying
  "read_proxy E" "write_client jw :: ('j, 'c, 'k, 'b, 'r, 'q, 'x, 'l) local_ends half_writer"
  "proxy_sends (local_sockets E jr jw leftj writtenj left written) (te_lib E) left missing"
  "client_got (local_sockets E jr jw leftj writtenj left written) writtenj base" "missing = []" limit
  for E :: "('c, 'b, 'n, 'm, 'r, 'q, 'x, 'l, 'k, 'w) tcp_env" and jr :: "'j poll_reader" and jw leftj writtenj left written missing base limit
proof (unfold_locales, goal_cases)
  case (1 p a n)
  then obtain c where c: "fst (snd a) = Proxied c" "conn_ok (te_lib E) (\<lambda>s. left (cn_stream s)) missing c p"
      "local_sockets E jr jw leftj writtenj left written"
    by (auto simp: proxy_sends_def)
  have "source_ok (conn_poll_read (te_clock E) (te_read E)) (\<lambda>s. left (cn_stream s))" using st_socket_ok [OF c(3)] by (simp add: socket_ok_def)
  from priv_poll_read_ok [OF this c(2) 1(2), of "te_bloom E" "ctx_nonce_ppbloom (snd (snd a))"] obtain res c' q' p' where
      r: "priv_poll_read (te_lib E) (te_bloom E) (conn_poll_read (te_clock E) (te_read E)) c (ctx_nonce_ppbloom (snd (snd a))) n = Some (Ret (res, c', q'))"
        "p = accepted_out res @ p'" "conn_ok (te_lib E) (\<lambda>s. left (cn_stream s)) missing c' p'" "res = Ready (Inr []) \<and> missing = [] \<longrightarrow> p = []"
    unfolding conn_post_def by blast
  obtain a' where "read_proxy E n a = Some (Ret (res, a'))" "fst (snd a') = Proxied c'" using read_proxy_Proxied [OF r(1) c(1)] by blast
  with r(2-4) c(3) show ?case by (intro exI [of _ res] exI [of _ a']) (auto simp: proxy_sends_def)
next
  case (2 out buf a)
  obtain res j where w: "jw buf (fst a) = (res, j)" by (cases "jw buf (fst a)")
  have "sink_ok jw writtenj" using 2(1) by (simp add: client_got_def local_sockets_def socket_ok_def)
  from sink_writes [OF this 2(2) w] 2(1) w show ?case
    by (cases a) (auto simp: write_client_def client_got_def split: poll.split sum.split)
next
  case (3 out a buf)
  then show ?case by (simp add: client_got_def)
next
  case (4 out buf a n res a')
  then show ?case by (cases a) (auto simp: client_got_def read_proxy_def rust_bind_Ret_iff)
next
  case (5 p a buf res a')
  then show ?case by (cases a) (auto simp: proxy_sends_def write_client_def split: prod.splits)
qed

interpretation local_relay: tunnel
  "read_client jr :: ('j, 'c, 'k, 'b, 'r, 'q, 'x, 'l) local_ends half_reader" "write_proxy E"
  "client_sends (local_sockets E jr jw leftj writtenj left written) leftj"
  "proxy_got (local_sockets E jr jw leftj writtenj left written) (te_lib E) w0 iv written pre limit" True
  "read_proxy E" "write_client jw"
  "proxy_sends (local_sockets E jr jw leftj writtenj left written) (te_lib E) left missing"
  "client_got (local_sockets E jr jw leftj writtenj left written) writtenj base" "missing = []" limit
  for E :: "('c, 'b, 'n, 'm, 'r, 'q, 'x, 'l, 'k, 'w) tcp_env" and jr :: "'j poll_reader" and jw leftj writtenj left written w0 iv pre limit missing base
proof (unfold_locales, goal_cases)
  case (1 p a n res a')
  then show ?case by (cases a) (auto simp: proxy_sends_def read_client_def split: prod.splits)
next
  case (2 out buf a n res a')
  have "writtenj (snd (jr n (fst a))) = writtenj (fst a)" using 2(1) by (simp add: client_got_def local_sockets_def socket_ok_def)
  with 2 show ?case by (cases a) (auto simp: client_got_def read_client_def split: prod.splits)
next
  case (3 p a bs res a')
  then obtain c where c: "fst (snd a) = Proxied c" "conn_ok (te_lib E) (\<lambda>s. left (cn_stream s)) missing c p"
      "local_sockets E jr jw leftj writtenj left written"
    by (auto simp: proxy_sends_def)
  obtain c' where c': "fst (snd a') = Proxied c'" "priv_poll_write (te_lib E) (st_write E) c bs = Ret (res, c')"
    by (rule write_proxy_cases [OF 3(2) c(1)])
  have "\<forall>bs s. left (cn_stream (snd (st_write E bs s))) = left (cn_stream s)" using st_socket_ok [OF c(3)] by (simp add: socket_ok_def)
  from conn_ok_write [OF c(2) c'(2) this] c'(1) c(3) show ?case by (simp add: proxy_sends_def)
next
  case (4 out buf a bs res a')
  then show ?case by (cases a) (auto simp: client_got_def write_proxy_def rust_bind_Ret_iff)
next
  case (5 p a n res a')
  then show ?case by (cases a) (auto simp: client_sends_def read_proxy_def rust_bind_Ret_iff)
next
  case (6 out buf a n res a')
  then obtain c where c: "fst (snd a) = Proxied c" "seals (te_lib E) w0 iv (\<lambda>s. written (cn_stream s)) pre out buf c"
      "local_sockets E jr jw leftj writtenj left written" "length (concat pre) + limit \<le> 2 ^ 38"
    by (auto simp: proxy_got_def)
  obtain c' q q' where c': "fst (snd a') = Proxied c'"
      "priv_poll_read (te_lib E) (te_bloom E) (conn_poll_read (te_clock E) (te_read E)) c q n = Some (Ret (res, c', q'))"
    by (rule read_proxy_cases [OF 6(2) c(1)])
  have "\<forall>n s. written (cn_stream (snd (conn_poll_read (te_clock E) (te_read E) n s))) = written (cn_stream s)"
    using st_socket_ok [OF c(3)] by (simp add: socket_ok_def)
  from seals_read [OF c(2) c'(2) this] c'(1) c(3,4) show ?case by (simp add: proxy_got_def)
next
  case (7 p a bs res a')
  have "leftj (snd (jw bs (fst a))) = leftj (fst a)" using 7(1) by (simp add: client_sends_def local_sockets_def socket_ok_def)
  with 7 show ?case by (cases a) (auto simp: client_sends_def write_client_def split: prod.splits)
next
  case (8 out buf a bs res a')
  then show ?case by (cases a) (auto simp: proxy_got_def write_client_def split: prod.splits)
qed

section \<open>The tunnel of a remote server delivers\<close>

definition server_sockets :: "('c, 'b, 'n, 'm, 'r, 'q, 'x, 'l, 'k, 'w) tcp_env \<Rightarrow> ('k \<Rightarrow> bytes) \<Rightarrow> ('k \<Rightarrow> bytes) \<Rightarrow> bool" where
  "server_sockets E left written \<longleftrightarrow>
     socket_ok (te_read E) (te_write E) left written \<and> nodelay_ok (te_nodelay E) left \<and> nodelay_ok (te_nodelay E) written"

definition tunnel_sends ::
    "bool \<Rightarrow> 'c crypto_lib \<Rightarrow> ('k \<Rightarrow> bytes) \<Rightarrow> bytes \<Rightarrow> bytes \<Rightarrow> ('c, 'k, 'b, 'r, 'q, 'x, 'l) server_ends \<Rightarrow> bool" where
  "tunnel_sends H L left missing p a \<longleftrightarrow> H \<and> conn_ok L (\<lambda>m. left (cn_stream (mon_stream m))) missing (fst a) p"

definition tunnel_got ::
    "bool \<Rightarrow> 'c crypto_lib \<Rightarrow> 'c EncryptedWriter \<Rightarrow> bytes \<Rightarrow> ('k \<Rightarrow> bytes) \<Rightarrow> nat \<Rightarrow> bytes \<Rightarrow> bytes \<Rightarrow>
     ('c, 'k, 'b, 'r, 'q, 'x, 'l) server_ends \<Rightarrow> bool" where
  "tunnel_got H L w0 iv written limit out buf a \<longleftrightarrow>
     H \<and> limit \<le> 2 ^ 38 \<and> seals L w0 iv (\<lambda>m. written (cn_stream (mon_stream m))) [] out buf (fst a)"

definition target_sends :: "bool \<Rightarrow> ('k \<Rightarrow> bytes) \<Rightarrow> bytes \<Rightarrow> ('c, 'k, 'b, 'r, 'q, 'x, 'l) server_ends \<Rightarrow> bool" where
  "target_sends H left p a \<longleftrightarrow> H \<and> left (fst (snd a)) = p"

definition target_got :: "bool \<Rightarrow> ('k \<Rightarrow> bytes) \<Rightarrow> bytes \<Rightarrow> bytes \<Rightarrow> bytes \<Rightarrow> ('c, 'k, 'b, 'r, 'q, 'x, 'l) server_ends \<Rightarrow> bool" where
  "target_got H written base out buf a \<longleftrightarrow> H \<and> written (fst (snd a)) = base @ out"

lemma sv_socket_ok:
  assumes "server_sockets E left written"
  shows "socket_ok (st_read E) (sv_write E) (\<lambda>m. left (cn_stream (mon_stream m))) (\<lambda>m. written (cn_stream (mon_stream m)))"
  using assms unfolding server_sockets_def st_read_def sv_write_def st_write_def
  by (intro mon_socket_ok [where left = "\<lambda>c. left (cn_stream c)" and written = "\<lambda>c. written (cn_stream c)"] conn_socket_ok) simp_all

lemma read_crypto_iff:
  "read_crypto E n a = Some (Ret (res, a')) \<longleftrightarrow>
     (\<exists>c' q'. priv_poll_read (te_lib E) (te_bloom E) (st_read E) (fst a) (ctx_nonce_ppbloom (snd (snd a))) n = Some (Ret (res, c', q'))
        \<and> a' = (c', fst (snd a), (snd (snd a))\<lparr>ctx_nonce_ppbloom := q'\<rparr>))"
  by (cases a) (auto simp: read_crypto_def rust_bind_Ret_iff)

lemma write_crypto_iff:
  "write_crypto E buf a = Ret (res, a') \<longleftrightarrow>
     (\<exists>c'. priv_poll_write (te_lib E) (sv_write E) (fst a) buf = Ret (res, c') \<and> a' = (c', snd a))"
  by (cases a) (auto simp: write_crypto_def rust_bind_Ret_iff)

lemma read_remote_iff:
  "read_remote E n a = Some (Ret (res, a')) \<longleftrightarrow> (\<exists>s. te_read E n (fst (snd a)) = (res, s) \<and> a' = (fst a, s, snd (snd a)))"
  by (cases a) (auto simp: read_remote_def split: prod.splits)

lemma write_remote_iff:
  "write_remote E buf a = Ret (res, a') \<longleftrightarrow> (\<exists>s. te_write E buf (fst (snd a)) = (res, s) \<and> a' = (fst a, s, snd (snd a)))"
  by (cases a) (auto simp: write_remote_def split: prod.splits)

interpretation server_up: copying
  "read_crypto E :: ('c, 'k, 'b, 'r, 'q, 'x, 'l) server_ends half_reader" "write_remote E"
  "tunnel_sends (server_sockets E left written) (te_lib E) left missing" "target_got (server_sockets E left written) written base"
  "missing = []" limit
  for E :: "('c, 'b, 'n, 'm, 'r, 'q, 'x, 'l, 'k, 'w) tcp_env" and left written missing base limit
proof (unfold_locales, goal_cases)
  case (1 p a n)
  then have H: "server_sockets E left written" "conn_ok (te_lib E) (\<lambda>m. left (cn_stream (mon_stream m))) missing (fst a) p"
    by (simp_all add: tunnel_sends_def)
  have "source_ok (st_read E) (\<lambda>m. left (cn_stream (mon_stream m)))" using sv_socket_ok [OF H(1)] by (simp add: socket_ok_def)
  from priv_poll_read_ok [OF this H(2) 1(2), of "te_bloom E" "ctx_nonce_ppbloom (snd (snd a))"] obtain res c' q' p' where
      r: "priv_poll_read (te_lib E) (te_bloom E) (st_read E) (fst a) (ctx_nonce_ppbloom (snd (snd a))) n = Some (Ret (res, c', q'))"
        "p = accepted_out res @ p'" "conn_ok (te_lib E) (\<lambda>m. left (cn_stream (mon_stream m))) missing c' p'"
        "res = Ready (Inr []) \<and> missing = [] \<longrightarrow> p = []"
    unfolding conn_post_def by blast
  then show ?case
    by (intro exI [of _ res] exI [of _ "(c', fst (snd a), (snd (snd a))\<lparr>ctx_nonce_ppbloom := q'\<rparr>)"])
      (use H(1) in \<open>auto simp: tunnel_sends_def read_crypto_iff\<close>)
next
  case (2 out buf a)
  obtain res s where w: "te_write E buf (fst (snd a)) = (res, s)" by (cases "te_write E buf (fst (snd a))")
  have "sink_ok (te_write E) written" using 2(1) by (simp add: target_got_def server_sockets_def socket_ok_def)
  from sink_writes [OF this 2(2) w] 2(1) w show ?case
    by (intro exI [of _ res] exI [of _ "(fst a, s, snd (snd a))"]) (auto simp: write_remote_iff target_got_def split: poll.split sum.split)
next
  case (3 out a buf)
  then show ?case by (simp add: target_got_def)
next
  case (4 out buf a n res a')
  then show ?case by (auto simp: target_got_def read_crypto_iff)
next
  case (5 p a buf res a')
  then show ?case by (auto simp: tunnel_sends_def write_remote_iff)
qed

interpretation server_down: copying
  "read_remote E :: ('c, 'k, 'b, 'r, 'q, 'x, 'l) server_ends half_reader" "write_crypto E"
  "target_sends (server_sockets E left written) left" "tunnel_got (server_sockets E left written) (te_lib E) w0 iv written limit" True limit
  for E :: "('c, 'b, 'n, 'm, 'r, 'q, 'x, 'l, 'k, 'w) tcp_env" and left written w0 iv limit
proof (unfold_locales, goal_cases)
  case (1 p a n)
  obtain res s where r: "te_read E n (fst (snd a)) = (res, s)" by (cases "te_read E n (fst (snd a))")
  have "source_ok (te_read E) left" using 1(1) by (simp add: target_sends_def server_sockets_def socket_ok_def)
  with source_reads [OF this 1(2) r] 1(1) r show ?case
    by (intro exI [of _ res] exI [of _ "(fst a, s, snd (snd a))"]) (auto simp: read_remote_iff target_sends_def)
next
  case (2 out buf a)
  then have H: "server_sockets E left written" "seals (te_lib E) w0 iv (\<lambda>m. written (cn_stream (mon_stream m))) [] out buf (fst a)"
      "limit \<le> 2 ^ 38" by (simp_all add: tunnel_got_def)
  have "sink_ok (sv_write E) (\<lambda>m. written (cn_stream (mon_stream m)))" using sv_socket_ok [OF H(1)] by (simp add: socket_ok_def)
  from seals_write [OF this H(2) 2(2)] 2(3) H(3) obtain res c' where
      w: "priv_poll_write (te_lib E) (sv_write E) (fst a) buf = Ret (res, c')"
        "case res of Ready (Inr k) \<Rightarrow> seals (te_lib E) w0 iv (\<lambda>m. written (cn_stream (mon_stream m))) [] (out @ take k buf) (drop k buf) c'
          | _ \<Rightarrow> seals (te_lib E) w0 iv (\<lambda>m. written (cn_stream (mon_stream m))) [] out buf c'"
    by auto
  with H(1,3) show ?case
    by (intro exI [of _ res] exI [of _ "(c', snd a)"]) (auto simp: tunnel_got_def write_crypto_iff split: poll.split sum.split)
next
  case (3 out a buf)
  then show ?case by (auto simp: tunnel_got_def intro: seals_offer)
next
  case (4 out buf a n res a')
  then show ?case by (auto simp: tunnel_got_def read_remote_iff)
next
  case (5 p a buf res a')
  then show ?case by (auto simp: target_sends_def write_crypto_iff)
qed

interpretation server_relay: tunnel
  "read_crypto E :: ('c, 'k, 'b, 'r, 'q, 'x, 'l) server_ends half_reader" "write_remote E"
  "tunnel_sends (server_sockets E left written) (te_lib E) left missing" "target_got (server_sockets E left written) written base"
  "missing = []" "read_remote E" "write_crypto E"
  "target_sends (server_sockets E left written) left" "tunnel_got (server_sockets E left written) (te_lib E) w0 iv written limit" True limit
  for E :: "('c, 'b, 'n, 'm, 'r, 'q, 'x, 'l, 'k, 'w) tcp_env" and left written missing base w0 iv limit
proof (unfold_locales, goal_cases)
  case (1 p a n res a')
  then show ?case by (auto simp: target_sends_def read_crypto_iff)
next
  case (2 out buf a n res a')
  then have H: "server_sockets E left written" "seals (te_lib E) w0 iv (\<lambda>m. written (cn_stream (mon_stream m))) [] out buf (fst a)"
      "limit \<le> 2 ^ 38" by (simp_all add: tunnel_got_def)
  have "\<forall>n s. written (cn_stream (mon_stream (snd (st_read E n s)))) = written (cn_stream (mon_stream s))"
    using sv_socket_ok [OF H(1)] by (simp add: socket_ok_def)
  with seals_read [OF H(2)] 2(2) H show ?case by (auto simp: tunnel_got_def read_crypto_iff)
next
  case (3 p a bs res a')
  have "left (snd (te_write E bs (fst (snd a)))) = left (fst (snd a))" using 3(1) by (simp add: target_sends_def server_sockets_def socket_ok_def)
  with 3 show ?case by (auto simp: target_sends_def write_remote_iff)
next
  case (4 out buf a bs res a')
  then show ?case by (auto simp: tunnel_got_def write_remote_iff)
next
  case (5 p a n res a')
  then show ?case by (auto simp: tunnel_sends_def read_remote_iff)
next
  case (6 out buf a n res a')
  have "written (snd (te_read E n (fst (snd a)))) = written (fst (snd a))" using 6(1) by (simp add: target_got_def server_sockets_def socket_ok_def)
  with 6 show ?case by (auto simp: target_got_def read_remote_iff)
next
  case (7 p a bs res a')
  then have H: "server_sockets E left written" "conn_ok (te_lib E) (\<lambda>m. left (cn_stream (mon_stream m))) missing (fst a) p"
    by (simp_all add: tunnel_sends_def)
  have "\<forall>bs s. left (cn_stream (mon_stream (snd (sv_write E bs s)))) = left (cn_stream (mon_stream s))"
    using sv_socket_ok [OF H(1)] by (simp add: socket_ok_def)
  with conn_ok_write [OF H(2)] 7(2) H(1) show ?case by (auto simp: tunnel_sends_def write_crypto_iff)
next
  case (8 out buf a bs res a')
  then show ?case by (auto simp: target_got_def write_crypto_iff)
qed

end
