(* ===== verification/Tunnel_Session.thy ===== *)
theory Tunnel_Session
  imports Tunnel
begin

text \<open>
  A whole proxied TCP connection: the client of a local server, the encrypted stream, the remote server and the target, with the
  tunnels of \<^verbatim>\<open>src/relay/tcprelay\<close> running on both sides. The two directions are delivered independently of each other.
\<close>

section \<open>The ends of a connection\<close>

text \<open>What a local server has to be for the two theorems below: its libraries, its sockets and a connection that has announced the target.\<close>

definition opened ::
    "('c, 'b, 'n, 'm, 'r, 'q, 'x, 'l, 'k, 'w) tcp_env \<Rightarrow> ('b, 'r, 'q, 'x, 'l) Context \<Rightarrow> ServerConfig \<Rightarrow> Address \<Rightarrow> ('k \<Rightarrow> bytes) \<Rightarrow>
     ('c, 'k Connection) CryptoStream \<Rightarrow> bool" where
  "opened E context cfg addr written c \<longleftrightarrow>
     method_lib_ok (te_lib E) (sc_method cfg) \<and> can_decrypt (te_lib E) (sc_method cfg) (sc_enc_key cfg)
     \<and> (\<forall>i n. length (te_rnd E i n) = n) \<and> wf_address addr
     \<and> (\<forall>ba a w k d w'. te_connect E ba a w = ((Inr k, d), w') \<longrightarrow> written k = [])
     \<and> (\<exists>w context1 w1. connect_proxied E context cfg addr w = Some (Ret (Inr (Proxied c), context1, w1)))"

lemma opened_cases:
  assumes "opened E context cfg addr written c" and "local_sockets E jr jw leftj writtenj left written"
  obtains s c0 p1 iv rd ms0 where "written (cn_stream s) = []"
    "CryptoStream_new (te_lib E) (te_bloom E) (te_rnd E) (ctx_nonce_ppbloom context) s cfg = Some (Ret (c0, p1))"
    "writer_iv (cs_enc c0) = Some iv" "DecryptedReader_new (te_lib E) (sc_method cfg) (sc_enc_key cfg) iv = Ret rd"
    "crypto_writes (te_lib E) (st_write E) c0 ms0 c" "concat ms0 = addr_bytes addr" "ms0 \<noteq> []"
    "seals (te_lib E) (cs_enc c0) iv (\<lambda>s. written (cn_stream s)) ms0 [] [] c"
proof -
  obtain w context1 w1 where con: "connect_proxied E context cfg addr w = Some (Ret (Inr (Proxied c), context1, w1))"
    using assms(1) by (auto simp: opened_def)
  have wf: "wf_address addr" "can_decrypt (te_lib E) (sc_method cfg) (sc_enc_key cfg)" "method_lib_ok (te_lib E) (sc_method cfg)"
      "\<forall>ba a w k d w'. te_connect E ba a w = ((Inr k, d), w') \<longrightarrow> written k = []"
    using assms(1) by (auto simp: opened_def)
  have nd: "nodelay_ok (te_nodelay E) written" using assms(2) by (simp add: local_sockets_def)
  obtain s c0 p1 iv rd ms0 where cl: "written (cn_stream s) = []"
      "CryptoStream_new (te_lib E) (te_bloom E) (te_rnd E) (ctx_nonce_ppbloom context) s cfg = Some (Ret (c0, p1))"
      "writer_iv (cs_enc c0) = Some iv" "DecryptedReader_new (te_lib E) (sc_method cfg) (sc_enc_key cfg) iv = Ret rd"
      "crypto_writes (te_lib E) (st_write E) c0 ms0 c" "concat ms0 = addr_bytes addr" "ms0 \<noteq> []" "idle (cs_enc c)"
    by (rule connect_proxied_writes [OF con wf(1,2) nd wf(4)])
  have "cs_stream c0 = s" by (rule CryptoStream_new_cases [OF cl(2)])
  with enc_ok_new [OF wf(3) CryptoStream_new_writer [OF cl(2,3)] cl(4)] cl(1)
  have "enc_ok (te_lib E) (cs_enc c0) iv (cs_enc c0) (written (cn_stream (cs_stream c0))) []" by simp
  moreover have "sink_ok (st_write E) (\<lambda>s. written (cn_stream s))" using st_socket_ok [OF assms(2)] by (simp add: socket_ok_def)
  moreover have "length (concat ms0) \<le> 2 ^ 38" using cl(6) length_addr_bytes_bound [OF wf(1)] by simp
  ultimately have "enc_ok (te_lib E) (cs_enc c0) iv (cs_enc c) (written (cn_stream (cs_stream c))) ms0"
    using crypto_writes_enc_ok [OF cl(5)] by blast
  with cl(8) have "seals (te_lib E) (cs_enc c0) iv (\<lambda>s. written (cn_stream s)) ms0 [] [] c"
    unfolding seals_def by (intro exI [of _ "[]"]) simp
  with cl that show thesis by blast
qed

lemma local_upstream:
  fixes E :: "('c, 'b, 'n, 'm, 'r, 'q, 'x, 'l, 'k, 'w) tcp_env"
  assumes "opened E context cfg addr written c" and H: "local_sockets E jr jw leftj writtenj left written"
    and run: "establish_connect_tunnel E jr jw n sched (j, Proxied c, context1) = Some (Ret (fin, r, v, j1, Proxied c1, context1'))"
    and "0 < n" and "length (leftj j) + 259 \<le> 2 ^ 38"
  obtains s :: "'k Connection" and c0 p1 iv rd ms0 ms where
    "CryptoStream_new (te_lib E) (te_bloom E) (te_rnd E) (ctx_nonce_ppbloom context) s cfg = Some (Ret (c0, p1))"
    "writer_iv (cs_enc c0) = Some iv" "DecryptedReader_new (te_lib E) (sc_method cfg) (sc_enc_key cfg) iv = Ret rd"
    "enc_ok (te_lib E) (cs_enc c0) iv (cs_enc c1) (written (cn_stream (cs_stream c1))) (ms0 @ ms)"
    "concat ms0 = addr_bytes addr" "ms0 \<noteq> []" "prefix (concat ms) (leftj j)"
    "(\<exists>k. fin = Some (True, Inr k)) \<longrightarrow> idle (cs_enc c1) \<and> concat ms = leftj j"
proof -
  obtain s :: "'k Connection" and c0 p1 iv rd ms0 where
    o: "CryptoStream_new (te_lib E) (te_bloom E) (te_rnd E) (ctx_nonce_ppbloom context) s cfg = Some (Ret (c0, p1))"
    "writer_iv (cs_enc c0) = Some iv" "DecryptedReader_new (te_lib E) (sc_method cfg) (sc_enc_key cfg) iv = Ret rd"
    "concat ms0 = addr_bytes addr" "ms0 \<noteq> []" "seals (te_lib E) (cs_enc c0) iv (\<lambda>s. written (cn_stream s)) ms0 [] [] c"
    by (rule opened_cases [OF assms(1) H])
  have wf: "wf_address addr" using assms(1) by (simp add: opened_def)
  let ?limit = "2 ^ 38 - 259" and ?H = "local_sockets E jr jw leftj writtenj left written"
  have lim: "length (concat ms0) + ?limit \<le> 2 ^ 38" "length (leftj j) \<le> ?limit"
    using o(4) length_addr_bytes_bound [OF wf] assms(5) by simp_all
  have "flows (client_sends ?H leftj) (proxy_got ?H (te_lib E) (cs_enc c0) iv written ms0 ?limit) True (leftj j) copy_new [] (j, Proxied c, context1)"
    unfolding flows_def client_sends_def proxy_got_def using H lim(1) o(6) by (auto simp: copy_new_def)
  from local_relay.select_up [OF assms(4) lim(2) run [unfolded establish_connect_tunnel_def] this]
  obtain out p' where out: "proxy_got ?H (te_lib E) (cs_enc c0) iv written ms0 ?limit out (cp_buf r) (j1, Proxied c1, context1')"
      "leftj j = out @ cp_buf r @ p'" "cp_read_done r \<longrightarrow> p' = []"
      "\<forall>k. fin = Some (True, Inr k) \<longrightarrow> cp_read_done r \<and> cp_buf r = []"
    unfolding flows_def by blast
  then have "seals (te_lib E) (cs_enc c0) iv (\<lambda>s. written (cn_stream s)) ms0 out (cp_buf r) c1" by (simp add: proxy_got_def)
  then obtain ms where "enc_ok (te_lib E) (cs_enc c0) iv (cs_enc c1) (written (cn_stream (cs_stream c1))) (ms0 @ ms)"
      "prefix (concat ms) (out @ cp_buf r)" "cp_buf r = [] \<longrightarrow> idle (cs_enc c1) \<and> concat ms = out"
    by (rule seals_chunks)
  moreover from this have "prefix (concat ms) (leftj j)" using out(2) by (metis append.assoc prefix_append)
  ultimately show thesis using out(2-4) by (intro that [OF o(1-3) _ o(4,5)]) auto
qed

lemma served_cases:
  fixes E :: "('c, 'b, 'n, 'm, 'r, 'q, 'x, 'l, 'k, 'w) tcp_env"
  assumes "handle_client E context flow_stat cfg socket w = Some (Ret (Inr (Some (stream, address, remote)), context', w'))"
    and H: "server_sockets E left written" and lib: "method_lib_ok (te_lib E) (sc_method cfg)"
    and dec: "can_decrypt (te_lib E) (sc_method cfg) (sc_enc_key cfg)" and "written socket = []"
  obtains m :: "'k Connection TcpMonStream" and d0 q1 iv rd where "left (cn_stream (mon_stream m)) = left socket"
    "CryptoStream_new (te_lib E) (te_bloom E) (te_rnd E) (ctx_nonce_ppbloom context) m cfg = Some (Ret (d0, q1))"
    "run_crypto (te_lib E) (te_bloom E) (st_read E) address_plan d0 q1 = Some (Ret (Inr address, stream, ctx_nonce_ppbloom context'))"
    "writer_iv (cs_enc d0) = Some iv" "DecryptedReader_new (te_lib E) (sc_method cfg) (sc_enc_key cfg) iv = Ret rd"
    "seals (te_lib E) (cs_enc d0) iv (\<lambda>m. written (cn_stream (mon_stream m))) [] [] [] stream"
proof -
  obtain m d0 q1 where sv: "cn_stream (mon_stream m) = snd (te_nodelay E True socket)"
      "CryptoStream_new (te_lib E) (te_bloom E) (te_rnd E) (ctx_nonce_ppbloom context) m cfg = Some (Ret (d0, q1))"
      "run_crypto (te_lib E) (te_bloom E) (st_read E) address_plan d0 q1 = Some (Ret (Inr address, stream, ctx_nonce_ppbloom context'))"
    by (rule handle_client_cases [OF assms(1)])
  have m: "left (cn_stream (mon_stream m)) = left socket" "written (cn_stream (mon_stream m)) = []"
    using sv(1) H assms(5) by (simp_all add: server_sockets_def nodelay_ok_def)
  obtain iv rd where iv: "writer_iv (cs_enc d0) = Some iv" "cs_stream d0 = m" "idle (cs_enc d0)"
      "DecryptedReader_new (te_lib E) (sc_method cfg) (sc_enc_key cfg) iv = Ret rd"
    by (rule new_stream_writing [OF sv(2) dec])
  have "\<forall>n s. written (cn_stream (mon_stream (snd (st_read E n s)))) = written (cn_stream (mon_stream s))"
    using sv_socket_ok [OF H] by (simp add: socket_ok_def)
  then have "written (cn_stream (mon_stream (cs_stream stream))) = []" "cs_enc stream = cs_enc d0"
    using run_crypto_keeps [where J = "\<lambda>m. written (cn_stream (mon_stream m)) = []", OF _ sv(3)] m(2) iv(2) by simp_all
  with enc_ok_new [OF lib CryptoStream_new_writer [OF sv(2) iv(1)] iv(4)] iv(3)
  have "seals (te_lib E) (cs_enc d0) iv (\<lambda>m. written (cn_stream (mon_stream m))) [] [] [] stream"
    unfolding seals_def by (intro exI [of _ "[]"]) simp
  with that sv m iv show thesis by blast
qed

lemma server_downstream:
  fixes E :: "('c, 'b, 'n, 'm, 'r, 'q, 'x, 'l, 'k, 'w) tcp_env"
  assumes "seals (te_lib E) (cs_enc d0) iv (\<lambda>m. written (cn_stream (mon_stream m))) [] [] [] stream" and H: "server_sockets E left written"
    and run: "server_tunnel E n sched (stream, remote, context) = Some (Ret (fin, r, v, stream1, remote1, context1))"
    and "0 < n" and "length (left remote) \<le> 2 ^ 38"
  obtains ms where "enc_ok (te_lib E) (cs_enc d0) iv (cs_enc stream1) (written (cn_stream (mon_stream (cs_stream stream1)))) ms"
    "prefix (concat ms) (left remote)" "(\<exists>k. fin = Some (False, Inr k)) \<longrightarrow> idle (cs_enc stream1) \<and> concat ms = left remote"
proof -
  have "flows (target_sends (server_sockets E left written) left) (tunnel_got (server_sockets E left written) (te_lib E) (cs_enc d0) iv written (2 ^ 38)) True
      (left remote) copy_new [] (stream, remote, context)"
    using assms(1) H by (auto simp: flows_def tunnel_got_def target_sends_def copy_new_def)
  from server_relay.select_down [OF assms(4,5) run [unfolded server_tunnel_def] this] obtain out p' where
      out: "tunnel_got (server_sockets E left written) (te_lib E) (cs_enc d0) iv written (2 ^ 38) out (cp_buf v) (stream1, remote1, context1)"
        "left remote = out @ cp_buf v @ p'" "cp_read_done v \<longrightarrow> p' = []" "\<forall>k. fin = Some (False, Inr k) \<longrightarrow> cp_read_done v \<and> cp_buf v = []"
    unfolding flows_def by blast
  then have "seals (te_lib E) (cs_enc d0) iv (\<lambda>m. written (cn_stream (mon_stream m))) [] out (cp_buf v) stream1" by (simp add: tunnel_got_def)
  then obtain ms where "enc_ok (te_lib E) (cs_enc d0) iv (cs_enc stream1) (written (cn_stream (mon_stream (cs_stream stream1)))) ([] @ ms)"
      "prefix (concat ms) (out @ cp_buf v)" "cp_buf v = [] \<longrightarrow> idle (cs_enc stream1) \<and> concat ms = out"
    by (rule seals_chunks)
  moreover from this have "prefix (concat ms) (left remote)" using out(2) by (metis append.assoc prefix_append)
  ultimately show thesis using out(2-4) by (intro that [of ms]) auto
qed

section \<open>Receiving sides\<close>

text \<open>A remote server whose stream still delivers \<open>p\<close> hands \<open>p\<close> to the target.\<close>

lemma server_relays:
  fixes E :: "('c, 'b, 'n, 'm, 'r, 'q, 'x, 'l, 'k, 'w) tcp_env"
  assumes H: "server_sockets E left written" and ok: "conn_ok (te_lib E) (\<lambda>m. left (cn_stream (mon_stream m))) missing stream p"
    and "seals (te_lib E) w0 iv (\<lambda>m. written (cn_stream (mon_stream m))) [] [] [] stream"
    and n: "0 < n" and p: "length p \<le> 2 ^ 38" and "length (left remote) \<le> 2 ^ 38"
  obtains fin r v stream' remote' context' out where
    "server_tunnel E n sched (stream, remote, context) = Some (Ret (fin, r, v, stream', remote', context'))"
    "written remote' = written remote @ out" "prefix out p" "missing = [] \<and> (\<exists>k. fin = Some (True, Inr k)) \<longrightarrow> out = p"
proof -
  let ?H = "server_sockets E left written"
  have up: "flows (tunnel_sends ?H (te_lib E) left missing) (target_got ?H written (written remote)) (missing = [])
      p copy_new [] (stream, remote, context)"
    using H ok by (auto simp: flows_def tunnel_sends_def target_got_def copy_new_def)
  have down: "flows (target_sends ?H left) (tunnel_got ?H (te_lib E) w0 iv written (2 ^ 38)) True
      (left remote) copy_new [] (stream, remote, context)"
    using H assms(3) by (auto simp: flows_def tunnel_got_def target_sends_def copy_new_def)
  obtain fin r v a where run: "server_tunnel E n sched (stream, remote, context) = Some (Ret (fin, r, v, a))"
    unfolding server_tunnel_def using server_relay.select_total [OF n p assms(6) up down] by blast
  from server_relay.select_up [OF n p run [unfolded server_tunnel_def] up] obtain out p' where
      out: "target_got ?H written (written remote) out (cp_buf r) a" "p = out @ cp_buf r @ p'"
        "missing = [] \<and> cp_read_done r \<longrightarrow> p' = []" "\<forall>k. fin = Some (True, Inr k) \<longrightarrow> cp_read_done r \<and> cp_buf r = []"
    unfolding flows_def by blast
  obtain stream' remote' context' where a: "a = (stream', remote', context')" by (cases a)
  show thesis
    by (rule that [OF run [unfolded a]]) (use out a in \<open>auto simp: target_got_def\<close>)
qed

text \<open>A local server whose stream still delivers \<open>p\<close> hands \<open>p\<close> to the client.\<close>

lemma client_relays:
  fixes E :: "('c, 'b, 'n, 'm, 'r, 'q, 'x, 'l, 'k, 'w) tcp_env"
  assumes H: "local_sockets E jr jw leftj writtenj left written" and ok: "conn_ok (te_lib E) (\<lambda>s. left (cn_stream s)) missing c p"
    and "seals (te_lib E) w0 iv (\<lambda>s. written (cn_stream s)) pre [] [] c" and "length (concat pre) + limit \<le> 2 ^ 38"
    and n: "0 < n" and p: "length p \<le> limit" and "length (leftj j) \<le> limit"
  obtains fin r v j1 ps context1 out where
    "establish_connect_tunnel E jr jw n sched (j, Proxied c, context) = Some (Ret (fin, r, v, j1, ps, context1))"
    "writtenj j1 = writtenj j @ out" "prefix out p" "missing = [] \<and> (\<exists>k. fin = Some (False, Inr k)) \<longrightarrow> out = p"
proof -
  let ?H = "local_sockets E jr jw leftj writtenj left written"
  have up: "flows (client_sends ?H leftj) (proxy_got ?H (te_lib E) w0 iv written pre limit) True (leftj j) copy_new [] (j, Proxied c, context)"
    using H assms(3,4) by (auto simp: flows_def client_sends_def proxy_got_def copy_new_def)
  have down: "flows (proxy_sends ?H (te_lib E) left missing) (client_got ?H writtenj (writtenj j)) (missing = [])
      p copy_new [] (j, Proxied c, context)"
    using H ok by (auto simp: flows_def proxy_sends_def client_got_def copy_new_def)
  obtain fin r v a where run: "establish_connect_tunnel E jr jw n sched (j, Proxied c, context) = Some (Ret (fin, r, v, a))"
    unfolding establish_connect_tunnel_def using local_relay.select_total [OF n assms(7) p up down] by blast
  from local_relay.select_down [OF n p run [unfolded establish_connect_tunnel_def] down] obtain out p' where
      out: "client_got ?H writtenj (writtenj j) out (cp_buf v) a" "p = out @ cp_buf v @ p'"
        "missing = [] \<and> cp_read_done v \<longrightarrow> p' = []" "\<forall>k. fin = Some (False, Inr k) \<longrightarrow> cp_read_done v \<and> cp_buf v = []"
    unfolding flows_def by blast
  obtain j1 ps context1 where a: "a = (j1, ps, context1)" by (cases a)
  show thesis
    by (rule that [OF run [unfolded a]]) (use out a in \<open>auto simp: client_got_def\<close>)
qed

section \<open>Properties\<close>

text \<open>
  C1. What a client sends through a proxied connection arrives at its target. A local server has connected to a proxy
  server for the target and copies between its client and the encrypted stream; a remote server with the same method
  and key serves this connection. However the two copies of either side take turns and however all sockets cut,
  delay or fail the transfers, the remote server connects to the target that was asked for, its tunnel neither panics
  nor hangs, and the target gets a prefix of the bytes of the client; all of them, once both sides have closed
  this direction after a complete transfer.
\<close>

theorem tunnel_upstream:
  fixes E :: "('c, 'b, 'n, 'm, 'r, 'q, 'x, 'l, 'k, 'w) tcp_env" and E' :: "('c, 'b2, 'n2, 'm2, 'r2, 'q2, 'x2, 'l2, 'k2, 'w2) tcp_env"
  assumes "opened E context cfg addr written c" and "local_sockets E jr jw leftj writtenj left written"
    and "establish_connect_tunnel E jr jw n sched (j, Proxied c, context1) = Some (Ret (fin, r, v, j1, Proxied c1, context1'))"
    and "0 < n" and "length (leftj j) + 259 \<le> 2 ^ 38"
    and "te_lib E' = te_lib E" and "sc_method cfg' = sc_method cfg" and "sc_enc_key cfg' = sc_enc_key cfg"
    and "server_sockets E' left' written'" and "written' socket = []"
    and "written (cn_stream (cs_stream c1)) = left' socket @ missing"
    and "handle_client E' context2 flow_stat cfg' socket w2 = Some (Ret (Inr (Some (stream, address, remote)), context3, w3))"
    and "0 < n'" and "length (left' remote) \<le> 2 ^ 38"
  shows "address = wire_address addr
    \<and> (\<exists>fin' r' v' stream' remote' context4 out.
         server_tunnel E' n' sched' (stream, remote, context3) = Some (Ret (fin', r', v', stream', remote', context4))
       \<and> written' remote' = written' remote @ out \<and> prefix out (leftj j)
       \<and> (missing = [] \<and> (\<exists>k. fin = Some (True, Inr k)) \<and> (\<exists>k. fin' = Some (True, Inr k)) \<longrightarrow> out = leftj j))"
proof -
  let ?L = "te_lib E" and ?left = "\<lambda>m. left' (cn_stream (mon_stream m))" and ?H = "server_sockets E' left' written'"
  have op: "method_lib_ok ?L (sc_method cfg)" "can_decrypt ?L (sc_method cfg) (sc_enc_key cfg)" "\<forall>i n. length (te_rnd E i n) = n" "wf_address addr"
    using assms(1) by (simp_all add: opened_def)
  obtain s :: "'k Connection" and c0 p1 iv rd ms0 ms where lo: "CryptoStream_new ?L (te_bloom E) (te_rnd E) (ctx_nonce_ppbloom context) s cfg = Some (Ret (c0, p1))"
      "writer_iv (cs_enc c0) = Some iv" "DecryptedReader_new ?L (sc_method cfg) (sc_enc_key cfg) iv = Ret rd"
      "enc_ok ?L (cs_enc c0) iv (cs_enc c1) (written (cn_stream (cs_stream c1))) (ms0 @ ms)"
      "concat ms0 = addr_bytes addr" "ms0 \<noteq> []" "prefix (concat ms) (leftj j)"
      "(\<exists>k. fin = Some (True, Inr k)) \<longrightarrow> idle (cs_enc c1) \<and> concat ms = leftj j"
    by (rule local_upstream [OF assms(1-5)])
  have lib': "method_lib_ok (te_lib E') (sc_method cfg')" "can_decrypt (te_lib E') (sc_method cfg') (sc_enc_key cfg')"
    using op(1,2) unfolding assms(6-8) .
  obtain m :: "'k2 Connection TcpMonStream" and d0 q1 iv' where sv: "?left m = left' socket"
      "CryptoStream_new (te_lib E') (te_bloom E') (te_rnd E') (ctx_nonce_ppbloom context2) m cfg' = Some (Ret (d0, q1))"
      "run_crypto (te_lib E') (te_bloom E') (st_read E') address_plan d0 q1 = Some (Ret (Inr address, stream, ctx_nonce_ppbloom context3))"
      "seals (te_lib E') (cs_enc d0) iv' (\<lambda>m. written' (cn_stream (mon_stream m))) [] [] [] stream"
    by (rule served_cases [OF assms(12,9) lib' assms(10)])
  have len: "length (concat (ms0 @ ms)) \<le> 2 ^ 38"
    using lo(5,7) length_addr_bytes_bound [OF op(4)] assms(5) prefix_length_le [OF lo(7)] by simp
  have "enc_ok ?L (cs_enc c0) iv (cs_enc c1) (?left m @ missing) (ms0 @ ms)" using lo(4) assms(11) sv(1) by simp
  then obtain rest where rest: "conn_ok ?L ?left (missing @ rest) d0 (concat (ms0 @ ms))" "idle (cs_enc c1) \<longrightarrow> rest = []"
    using writers_meet [where left = ?left, OF op(1,3) lo(1,2) sv(2) [unfolded assms(6)] assms(7,8) lo(3) _ len] lo(6) by (metis Nil_is_append_conv)
  have src: "source_ok (st_read E') ?left" using sv_socket_ok [OF assms(9)] by (simp add: socket_ok_def)
  from run_crypto_ok [OF src sv(3) rest(1) [folded assms(6)]] obtain p' where
      p': "run_reader cursor_read_exact address_plan (concat (ms0 @ ms)) = Inr (address, p')" "conn_ok (te_lib E') ?left (missing @ rest) stream p'"
    by auto
  have "run_reader cursor_read_exact address_plan (concat (ms0 @ ms)) = Inr (wire_address addr, concat ms)"
    using read_written_address [OF op(4), of "concat ms"] lo(5) by (simp flip: Address_read_from_plan)
  with p'(1) have eq: "address = wire_address addr" "p' = concat ms" by simp_all
  have bound: "length (concat ms) \<le> 2 ^ 38" using len by simp
  obtain fin' r' v' stream' remote' context4 out where
      run: "server_tunnel E' n' sched' (stream, remote, context3) = Some (Ret (fin', r', v', stream', remote', context4))"
        "written' remote' = written' remote @ out" "prefix out (concat ms)"
        "missing @ rest = [] \<and> (\<exists>k. fin' = Some (True, Inr k)) \<longrightarrow> out = concat ms"
    by (rule server_relays [OF assms(9) p'(2) [unfolded eq(2)] sv(4) assms(13) bound assms(14)])
  have "prefix out (leftj j)" using run(3) lo(7) by (rule prefix_order.trans)
  moreover have "missing = [] \<and> (\<exists>k. fin = Some (True, Inr k)) \<and> (\<exists>k. fin' = Some (True, Inr k)) \<longrightarrow> out = leftj j"
    using lo(8) rest(2) run(4) by simp
  ultimately show ?thesis using run(1,2) eq(1) by blast
qed

text \<open>
  C2. What a target answers arrives at the client. In the same situation, with random draws of the right length also on
  the remote side, the tunnel of the local server neither panics nor hangs, and the client gets a prefix of the bytes of
  the target; all of them, once both sides have closed this direction after a complete transfer.
\<close>

theorem tunnel_downstream:
  fixes E :: "('c, 'b, 'n, 'm, 'r, 'q, 'x, 'l, 'k, 'w) tcp_env" and E' :: "('c, 'b2, 'n2, 'm2, 'r2, 'q2, 'x2, 'l2, 'k2, 'w2) tcp_env"
  assumes "opened E context cfg addr written c" and "local_sockets E jr jw leftj writtenj left written"
    and "te_lib E' = te_lib E" and "sc_method cfg' = sc_method cfg" and "sc_enc_key cfg' = sc_enc_key cfg"
    and "server_sockets E' left' written'" and "written' socket = []" and "\<forall>i n. length (te_rnd E' i n) = n"
    and "handle_client E' context2 flow_stat cfg' socket w2 = Some (Ret (Inr (Some (stream, address, remote)), context3, w3))"
    and "server_tunnel E' n' sched' (stream, remote, context3) = Some (Ret (fin', r', v', stream1, remote1, context4))"
    and "0 < n'" and "length (left' remote) + 259 \<le> 2 ^ 38"
    and "written' (cn_stream (mon_stream (cs_stream stream1))) = left (cn_stream (cs_stream c)) @ missing"
    and "0 < n" and "length (leftj j) + 259 \<le> 2 ^ 38"
  shows "\<exists>fin r v j1 ps context1' out.
      establish_connect_tunnel E jr jw n sched (j, Proxied c, context1) = Some (Ret (fin, r, v, j1, ps, context1'))
      \<and> writtenj j1 = writtenj j @ out \<and> prefix out (left' remote)
      \<and> (missing = [] \<and> (\<exists>k. fin' = Some (False, Inr k)) \<and> (\<exists>k. fin = Some (False, Inr k)) \<longrightarrow> out = left' remote)"
proof -
  let ?L = "te_lib E" and ?left = "\<lambda>s. left (cn_stream s)" and ?H = "local_sockets E jr jw leftj writtenj left written"
  have op: "method_lib_ok (te_lib E') (sc_method cfg')" "can_decrypt (te_lib E') (sc_method cfg') (sc_enc_key cfg')" "wf_address addr"
    using assms(1) unfolding assms(3-5) by (simp_all add: opened_def)
  obtain s :: "'k Connection" and c0 p1 iv ms0 where lo: "CryptoStream_new ?L (te_bloom E) (te_rnd E) (ctx_nonce_ppbloom context) s cfg = Some (Ret (c0, p1))"
      "crypto_writes ?L (st_write E) c0 ms0 c" "concat ms0 = addr_bytes addr" "seals ?L (cs_enc c0) iv (\<lambda>s. written (cn_stream s)) ms0 [] [] c"
    by (rule opened_cases [OF assms(1,2)])
  obtain m :: "'k2 Connection TcpMonStream" and d0 q1 iv' rd' where
      sv: "CryptoStream_new (te_lib E') (te_bloom E') (te_rnd E') (ctx_nonce_ppbloom context2) m cfg' = Some (Ret (d0, q1))"
      "writer_iv (cs_enc d0) = Some iv'" "DecryptedReader_new (te_lib E') (sc_method cfg') (sc_enc_key cfg') iv' = Ret rd'"
      "seals (te_lib E') (cs_enc d0) iv' (\<lambda>m. written' (cn_stream (mon_stream m))) [] [] [] stream"
    by (rule served_cases [OF assms(9,6) op(1,2) assms(7)])
  have bound: "length (left' remote) \<le> 2 ^ 38" using assms(12) by simp
  obtain ms where ms: "enc_ok (te_lib E') (cs_enc d0) iv' (cs_enc stream1) (written' (cn_stream (mon_stream (cs_stream stream1)))) ms"
      "prefix (concat ms) (left' remote)" "(\<exists>k. fin' = Some (False, Inr k)) \<longrightarrow> idle (cs_enc stream1) \<and> concat ms = left' remote"
    by (rule server_downstream [OF sv(4) assms(6,10,11) bound])
  have frame: "\<forall>bs s. ?left (snd (st_write E bs s)) = ?left s" using st_socket_ok [OF assms(2)] by (simp add: socket_ok_def)
  have "cs_stream c0 = s" by (rule CryptoStream_new_cases [OF lo(1)])
  with left_writes [where left = ?left, OF lo(2) frame] assms(13) ms(1)
  have "enc_ok (te_lib E') (cs_enc d0) iv' (cs_enc stream1) (?left s @ missing) ms" by simp
  then obtain rest where rest: "conn_ok (te_lib E') ?left (missing @ rest) c0 (concat ms)" "idle (cs_enc stream1) \<and> ms \<noteq> [] \<longrightarrow> rest = []"
    using writers_meet [where left = ?left, OF op(1) assms(8) sv(1,2) lo(1) [folded assms(3)] assms(4,5) [symmetric] sv(3)]
      order.trans [OF prefix_length_le [OF ms(2)] bound] by metis
  have c: "conn_ok ?L ?left (missing @ rest) c (concat ms)" by (rule conn_ok_writes [OF lo(2) frame rest(1) [unfolded assms(3)]])
  let ?limit = "2 ^ 38 - 259"
  have lim: "length (concat ms0) + ?limit \<le> 2 ^ 38" "length (leftj j) \<le> ?limit" "length (concat ms) \<le> ?limit"
    using lo(3) length_addr_bytes_bound [OF op(3)] assms(12,15) prefix_length_le [OF ms(2)] by simp_all
  obtain fin r v j1 ps context1' out where
      run: "establish_connect_tunnel E jr jw n sched (j, Proxied c, context1) = Some (Ret (fin, r, v, j1, ps, context1'))"
        "writtenj j1 = writtenj j @ out" "prefix out (concat ms)"
        "missing @ rest = [] \<and> (\<exists>k. fin = Some (False, Inr k)) \<longrightarrow> out = concat ms"
    by (rule client_relays [OF assms(2) c lo(4) lim(1) assms(14) lim(3,2)])
  have "prefix out (left' remote)" using run(3) ms(2) by (rule prefix_order.trans)
  moreover have "missing = [] \<and> (\<exists>k. fin' = Some (False, Inr k)) \<and> (\<exists>k. fin = Some (False, Inr k)) \<longrightarrow> out = left' remote"
    using ms(3) rest(2) run(3,4) by (cases "ms = []") auto
  ultimately show ?thesis using run(1,2) by blast
qed

section \<open>An example\<close>

text \<open>Sockets with a queue for each direction, and the method without encryption. A new connection delivers \<open>inb\<close>.\<close>

definition duplex_read :: "(bytes \<times> bytes) poll_reader" where
  "duplex_read n s = (Ready (Inr (take n (fst s))), (drop n (fst s), snd s))"

definition duplex_write :: "(bytes \<times> bytes) poll_writer" where
  "duplex_write bs s = (Ready (Inr (length bs)), (fst s, snd s @ bs))"

definition duplex_env ::
    "bytes \<Rightarrow> (CryptoMode, bytes list, ipv4_addr, ipv6_addr, ipv4_addr list, ipv6_addr list, string list, unit, bytes \<times> bytes, unit) tcp_env" where
  "duplex_env inb =
     \<lparr>te_lib = sample_lib, te_bloom = sample_bloom, te_acl = sample_acl_lib,
      te_cache = \<lparr>lru_with_capacity = \<lambda>_. (), lru_insert = \<lambda>l _ _. l, lru_get = \<lambda>l _. (None, l)\<rparr>, te_dns_relay = False,
      te_android = False, te_rnd = \<lambda>i n. replicate n 5, te_resolve = \<lambda>_ _. Inr [], te_connect = \<lambda>_ _ w. ((Inr (inb, []), 0), w),
      te_nodelay = \<lambda>_ s. (Inr (), s), te_clock = \<lambda>_. 0, te_read = duplex_read, te_write = duplex_write,
      te_local_addr = \<lambda>_. Inr (SocketAddrV4 (Ipv4Addr 127 0 0 1) 1)\<rparr>"

lemma duplex_env_simps [simp]:
  "te_lib (duplex_env inb) = sample_lib" "te_bloom (duplex_env inb) = sample_bloom" "te_rnd (duplex_env inb) = (\<lambda>i n. replicate n 5)"
  "te_connect (duplex_env inb) = (\<lambda>_ _ w. ((Inr (inb, []), 0), w))" "te_nodelay (duplex_env inb) = (\<lambda>_ s. (Inr (), s))"
  "te_clock (duplex_env inb) = (\<lambda>_. 0)" "te_read (duplex_env inb) = duplex_read" "te_write (duplex_env inb) = duplex_write"
  "te_android (duplex_env inb) = False"
  by (simp_all add: duplex_env_def)

lemma duplex_ok: "socket_ok duplex_read duplex_write fst snd" "nodelay_ok (\<lambda>_ s. (Inr (), s)) f"
  by (auto simp: socket_ok_def duplex_read_def duplex_write_def source_ok_def sink_ok_def nodelay_ok_def)

definition duplex_socket :: "bytes \<Rightarrow> bytes \<Rightarrow> bool \<Rightarrow> (bytes \<times> bytes) Connection" where
  "duplex_socket i u first = \<lparr>cn_stream = (i, u), cn_timer = None, cn_timeout = None, cn_nodelay = False, cn_written_first_packet = first\<rparr>"

definition duplex_stream :: "bytes \<Rightarrow> bytes \<Rightarrow> (CryptoMode, (bytes \<times> bytes) Connection) CryptoStream" where
  "duplex_stream i u = \<lparr>cs_stream = duplex_socket i u True, cs_dec = None,
     cs_enc = StreamWriter \<lparr>sew_cipher = DummyBox, sew_steps = NothingStep, sew_iv = None\<rparr>, cs_read_status = WaitIv [] 0 Plain []\<rparr>"

lemma duplex_write_more:
  "bs \<noteq> [] \<Longrightarrow> priv_poll_write sample_lib (st_write (duplex_env inb)) (duplex_stream i u) bs = Ret (Ready (Inr (length bs)), duplex_stream i (u @ bs))"
  by (simp add: duplex_stream_def duplex_socket_def priv_poll_write_def stream_poll_write_encrypted_def stream_poll_write_all_encrypted_def
      sew_make_buf_def sew_write_buf_def poll_write_buf.simps st_write_def conn_poll_write_def duplex_write_def cancel_timeout_def Let_def)

lemma duplex_write_first:
  "write_all sample_lib (st_write (duplex_env inb)) [1, 1, 2, 3, 4, 0, 80] (plain_end (duplex_socket i [] False))
     = Some (Ret (Inr (), duplex_stream i [1, 1, 2, 3, 4, 0, 80]))"
  by (subst write_all.simps, simp add: plain_end_def duplex_socket_def priv_poll_write_def stream_poll_write_encrypted_def
      stream_poll_write_all_encrypted_def sew_make_buf_def sew_write_buf_def poll_write_buf.simps st_write_def conn_poll_write_def
      duplex_write_def cancel_timeout_def Let_def, subst write_all.simps, simp add: duplex_stream_def duplex_socket_def)

lemma duplex_opened: "opened (duplex_env inb) sample_context plain_server sample_target snd (duplex_stream inb [1, 1, 2, 3, 4, 0, 80])"
proof -
  let ?E = "duplex_env inb"
  obtain p1 where new: "CryptoStream_new sample_lib sample_bloom (\<lambda>i n. replicate n 5) (ctx_nonce_ppbloom sample_context)
      (duplex_socket inb [] False) plain_server = Some (Ret (plain_end (duplex_socket inb [] False), p1))" using plain_new by fastforce
  have "connect_proxy_server ?E sample_context plain_server () = Ret (Inr (duplex_socket inb [] False), ())"
    by (simp add: connect_proxy_server_def sample_context_def Context_new_def Config_new_def plain_server_def RETRY_TIMES_def
        connect_proxy_server_internal_def numeral_3_eq_3 connect_timeout_def try_timeout_def Connection_new_def
        conn_set_nodelay_def duplex_socket_def or_else_def sample_cfg_def)
  with new duplex_write_first sample_target_bytes
  have "\<exists>context1. connect_proxied ?E sample_context plain_server sample_target () =
      Some (Ret (Inr (Proxied (duplex_stream inb [1, 1, 2, 3, 4, 0, 80])), context1, ()))"
    by (simp add: connect_proxied_def proxy_server_handshake_def)
  moreover have "method_lib_ok sample_lib (sc_method plain_server)"
    using sample_sodium_keystream sample_crypter_sync by (auto simp: method_lib_ok_def plain_server_def sample_cfg_def crypter_final_ok_def)
  moreover have "can_decrypt sample_lib (sc_method plain_server) (sc_enc_key plain_server)"
    by (auto simp: can_decrypt_def plain_server_def sample_cfg_def DecryptedReader_new_def StreamDecryptedReader_new_def
        StreamEncryptedWriter_new_def new_stream_def rust_assert_def split: if_splits)
  moreover have "wf_address sample_target" by (simp add: sample_target_def)
  ultimately show ?thesis by (auto simp: opened_def)
qed

lemma duplex_sockets:
  "local_sockets (duplex_env inb) duplex_read duplex_write fst snd fst snd" "server_sockets (duplex_env inb) fst snd"
  by (simp_all add: local_sockets_def server_sockets_def duplex_ok)

text \<open>The client sends two bytes and closes.\<close>

lemma duplex_client:
  "\<exists>r v j1 context1. establish_connect_tunnel (duplex_env inb) duplex_read duplex_write 8 [True, True, True, True]
       (([7, 8], []), Proxied (duplex_stream inb [1, 1, 2, 3, 4, 0, 80]), sample_context)
     = Some (Ret (Some (True, Inr 2), r, v, j1, Proxied (duplex_stream inb [1, 1, 2, 3, 4, 0, 80, 7, 8]), context1))"
  by (simp add: establish_connect_tunnel_def copy_poll_def copy_new_def read_client_def duplex_read_def write_proxy_def ps_poll_write_def
      count_flow_def duplex_write_more)

lemma plain_read_target:
  assumes "st_read E BUFFER_SIZE m = (Ready (Inr ([1, 1, 2, 3, 4, 0, 80] @ bs)), m')"
  shows "run_crypto sample_lib sample_bloom (st_read E) address_plan (plain_end m) p
     = Some (Ret (Inr sample_target, plain_open m' ([1, 1, 2, 3, 4, 0, 80] @ bs) 7, p))"
proof -
  let ?bs = "[1, 1, 2, 3, 4, 0, 80] @ bs"
  have first: "crypto_read_exact sample_lib sample_bloom (st_read E) 1 [] (plain_end m) p = Some (Ret (Inr [1], plain_open m' ?bs 1, p))"
    by (subst crypto_read_exact.simps, simp add: plain_read_first [OF assms], subst crypto_read_exact.simps, simp)
  have rest: "crypto_read_exact sample_lib sample_bloom (st_read E) 6 [] (plain_open m' ?bs 1) p = Some (Ret (Inr [1, 2, 3, 4, 0, 80], plain_open m' ?bs 7, p))"
    by (subst crypto_read_exact.simps, simp add: plain_read_more, subst crypto_read_exact.simps, simp add: numeral_eq_Suc)
  show ?thesis
    using first rest by (simp add: address_plan_def SOCKS5_ADDR_TYPE_IPV4_def sample_target_def get_u16_def)
qed

definition duplex_monitored :: "bytes \<Rightarrow> bytes \<Rightarrow> (bytes \<times> bytes) Connection TcpMonStream" where
  "duplex_monitored i u = TcpMonStream_new sample_flow (duplex_socket i u False)"

lemma duplex_served:
  assumes "length bs \<le> 8"
  obtains m context3 where
    "handle_client (duplex_env inb) sample_tcp_context sample_flow plain_server ([1, 1, 2, 3, 4, 0, 80] @ bs, []) () =
       Some (Ret (Inr (Some (plain_open m ([1, 1, 2, 3, 4, 0, 80] @ bs) 7, sample_target, (inb, []))), context3, ()))"
    "mon_stream m = duplex_socket [] [] False"
proof -
  let ?bs = "[1, 1, 2, 3, 4, 0, 80] @ bs" and ?E = "duplex_env inb"
  let ?m = "duplex_monitored ?bs []"
  obtain p1 where new: "CryptoStream_new sample_lib sample_bloom (\<lambda>i n. replicate n 5) (ctx_nonce_ppbloom sample_tcp_context) ?m plain_server
      = Some (Ret (plain_end ?m, p1))" using plain_new [of "ctx_nonce_ppbloom sample_tcp_context" ?m] by fastforce
  have "\<exists>m'. st_read ?E BUFFER_SIZE ?m = (Ready (Inr ?bs), m') \<and> mon_stream m' = duplex_socket [] [] False"
    using assms by (simp add: st_read_def mon_poll_read_def conn_poll_read_def duplex_read_def duplex_monitored_def TcpMonStream_new_def
        duplex_socket_def BUFFER_SIZE_def cancel_timeout_def)
  then obtain m' where m': "st_read ?E BUFFER_SIZE ?m = (Ready (Inr ?bs), m')" "mon_stream m' = duplex_socket [] [] False" by blast
  have conn: "server_connect ?E (sample_tcp_context\<lparr>ctx_nonce_ppbloom := p1\<rparr>) None sample_target () = Ret (Inr (Some (inb, [])), ())"
    by (simp add: server_connect_def ctx_check_outbound_blocked_def check_bind_addr_def sample_target_def connect_timeout_def
        sample_tcp_config try_timeout_def)
  have nd: "conn_set_nodelay (\<lambda>_ s. (Inr (), s)) False (Connection_new (\<lambda>_ s. (Inr (), s)) (?bs, []) None) = (Inr (), duplex_socket ?bs [] False)"
    by (simp add: conn_set_nodelay_def Connection_new_def duplex_socket_def)
  have timeout: "or_else (sc_timeout plain_server) None = None"
    by (simp add: or_else_def plain_server_def sample_cfg_def)
  show thesis
    by (rule that [OF _ m'(2), of "sample_tcp_context\<lparr>ctx_nonce_ppbloom := p1\<rparr>"])
      (use new conn plain_read_target [OF m'(1), of p1] nd in \<open>simp add: handle_client_def sample_tcp_config timeout duplex_monitored_def\<close>)
qed

text \<open>The remote server passes on what it gets until the end.\<close>

lemma plain_read_eof:
  assumes "length bs \<le> pos" and "st_read E BUFFER_SIZE m = (Ready (Inr []), m')"
  shows "\<exists>c. priv_poll_read sample_lib sample_bloom (st_read E) (plain_open m bs pos) p n = Some (Ret (Ready (Inr []), c, p))"
proof -
  let ?d = "\<lparr>sdr_buffer = [], sdr_cipher = DummyBox, sdr_pos = 0, sdr_got_final = True\<rparr>"
  have "stream_refill sample_lib (st_read E) \<lparr>sdr_buffer = bs, sdr_cipher = DummyBox, sdr_pos = pos, sdr_got_final = False\<rparr> m = Ret (Ready (Inr ()), ?d, m')"
    using assms(2) by (simp add: stream_refill_def)
  then show ?thesis
    using assms(1) by (simp add: priv_poll_read_def poll_read_handshake_def plain_open_def stream_poll_read_decrypted.simps [of _ _ _ m]
        stream_poll_read_decrypted.simps [of _ _ ?d])
qed

lemma duplex_server_up:
  assumes "mon_stream m = duplex_socket [] [] False"
  shows "\<exists>r v stream' context4. server_tunnel (duplex_env inb) 8 [True, True, True, True] (plain_open m [1, 1, 2, 3, 4, 0, 80, 7, 8] 7, (inb, []), context3)
     = Some (Ret (Some (True, Inr 2), r, v, stream', (inb, [7, 8]), context4))"
proof -
  let ?E = "duplex_env inb" and ?bs = "[1, 1, 2, 3, 4, 0, 80, 7, 8] :: bytes"
  have "\<exists>m'. st_read ?E BUFFER_SIZE m = (Ready (Inr []), m')"
    using assms by (simp add: st_read_def mon_poll_read_def conn_poll_read_def duplex_read_def duplex_socket_def)
  then obtain m' where m': "st_read ?E BUFFER_SIZE m = (Ready (Inr []), m')" ..
  obtain c where eof: "priv_poll_read sample_lib sample_bloom (st_read ?E) (plain_open m ?bs 9) (ctx_nonce_ppbloom context3) 8 = Some (Ret (Ready (Inr []), c, ctx_nonce_ppbloom context3))"
    using plain_read_eof [of ?bs 9, OF _ m'] by auto
  have "priv_poll_read sample_lib sample_bloom (st_read ?E) (plain_open m ?bs 7) (ctx_nonce_ppbloom context3) 8 =
      Some (Ret (Ready (Inr [7, 8]), plain_open m ?bs 9, ctx_nonce_ppbloom context3))"
    using plain_read_more [of 7 ?bs ?E m "ctx_nonce_ppbloom context3" 8] by (simp add: numeral_eq_Suc)
  with eof show ?thesis
    by (simp add: server_tunnel_def copy_poll_def copy_new_def read_crypto_def write_remote_def duplex_write_def)
qed

theorem tunnel_upstream_witness:
  "\<exists>c1 r v j1 context1 m context3 r' v' stream' context4 out.
     establish_connect_tunnel (duplex_env []) duplex_read duplex_write 8 [True, True, True, True]
       (([7, 8], []), Proxied (duplex_stream [] [1, 1, 2, 3, 4, 0, 80]), sample_context) = Some (Ret (Some (True, Inr 2), r, v, j1, Proxied c1, context1))
   \<and> handle_client (duplex_env []) sample_tcp_context sample_flow plain_server (snd (cn_stream (cs_stream c1)), []) () =
       Some (Ret (Inr (Some (plain_open m [1, 1, 2, 3, 4, 0, 80, 7, 8] 7, wire_address sample_target, ([], []))), context3, ()))
   \<and> server_tunnel (duplex_env []) 8 [True, True, True, True] (plain_open m [1, 1, 2, 3, 4, 0, 80, 7, 8] 7, ([], []), context3) =
       Some (Ret (Some (True, Inr 2), r', v', stream', ([], out), context4))
   \<and> out = [7, 8]"
proof -
  let ?E = "duplex_env []" and ?c1 = "duplex_stream [] [1, 1, 2, 3, 4, 0, 80, 7, 8]"
  obtain r v j1 context1 where l: "establish_connect_tunnel ?E duplex_read duplex_write 8 [True, True, True, True]
       (([7, 8], []), Proxied (duplex_stream [] [1, 1, 2, 3, 4, 0, 80]), sample_context) = Some (Ret (Some (True, Inr 2), r, v, j1, Proxied ?c1, context1))"
    using duplex_client by blast
  obtain m context3 where h: "handle_client ?E sample_tcp_context sample_flow plain_server ([1, 1, 2, 3, 4, 0, 80] @ [7, 8], []) () =
       Some (Ret (Inr (Some (plain_open m ([1, 1, 2, 3, 4, 0, 80] @ [7, 8]) 7, sample_target, ([], []))), context3, ()))"
      "mon_stream m = duplex_socket [] [] False"
    by (rule duplex_served [of "[7, 8]"]) simp
  obtain r' v' stream' context4 where s: "server_tunnel ?E 8 [True, True, True, True] (plain_open m [1, 1, 2, 3, 4, 0, 80, 7, 8] 7, ([], []), context3)
     = Some (Ret (Some (True, Inr 2), r', v', stream', ([], [7, 8]), context4))"
    using duplex_server_up [OF h(2)] by blast
  have sent: "snd (cn_stream (cs_stream ?c1)) = fst ([1, 1, 2, 3, 4, 0, 80] @ [7, 8], [] :: bytes) @ []"
    by (simp add: duplex_stream_def duplex_socket_def)
  from tunnel_upstream [OF duplex_opened duplex_sockets(1) l _ _ refl refl refl duplex_sockets(2) _ sent h(1), of 8 "[True, True, True, True]"]
  have "sample_target = wire_address sample_target" "\<exists>out. snd ([], [7, 8]) = snd ([], []) @ out \<and> prefix out (fst ([7, 8 :: 8 word], [])) \<and> out = fst ([7, 8], [])"
    using s by auto
  with l h(1) s show ?thesis by (auto simp: duplex_stream_def duplex_socket_def)
qed

text \<open>The target answers one byte and closes.\<close>

lemma duplex_server_down:
  assumes "mon_stream m = duplex_socket [] [] False"
  shows "\<exists>r v stream' context4. server_tunnel (duplex_env inb) 8 [False, False, False, False] (plain_open m bs pos, ([9], []), context3)
       = Some (Ret (Some (False, Inr 1), r, v, stream', ([], []), context4))
     \<and> snd (cn_stream (mon_stream (cs_stream stream'))) = [9]"
  using assms
  by (simp add: server_tunnel_def copy_poll_def copy_new_def read_remote_def write_crypto_def duplex_read_def plain_open_def priv_poll_write_def
      stream_poll_write_encrypted_def stream_poll_write_all_encrypted_def sew_make_buf_def sew_write_buf_def poll_write_buf.simps sv_write_def
      mon_poll_write_def st_write_def conn_poll_write_def duplex_write_def duplex_socket_def cancel_timeout_def Let_def)

lemma duplex_read_first:
  "\<exists>c q'. priv_poll_read sample_lib sample_bloom (conn_poll_read (\<lambda>_. 0) duplex_read) (duplex_stream [9] u) q 8 = Some (Ret (Ready (Inr [9]), c, q'))
     \<and> (\<exists>c' q''. priv_poll_read sample_lib sample_bloom (conn_poll_read (\<lambda>_. 0) duplex_read) c q' 8 = Some (Ret (Ready (Inr []), c', q'')))"
  by (simp add: priv_poll_read_def poll_read_handshake_def duplex_stream_def duplex_socket_def poll_read_iv.simps check_nonce_and_set_def
      DecryptedReader_new_def StreamDecryptedReader_new_def new_stream_def rust_assert_def stream_poll_read_decrypted.simps stream_refill_def
      conn_poll_read_def duplex_read_def BUFFER_SIZE_def cancel_timeout_def Let_def)

lemma duplex_client_down:
  "\<exists>r v ps context1. establish_connect_tunnel (duplex_env inb) duplex_read duplex_write 8 [False, False, False, False]
       (([], []), Proxied (duplex_stream [9] u), context) = Some (Ret (Some (False, Inr 1), r, v, ([], [9]), ps, context1))"
proof -
  obtain c q' c' q'' where "priv_poll_read sample_lib sample_bloom (conn_poll_read (\<lambda>_. 0) duplex_read) (duplex_stream [9] u) (ctx_nonce_ppbloom context) 8
        = Some (Ret (Ready (Inr [9]), c, q'))"
      "priv_poll_read sample_lib sample_bloom (conn_poll_read (\<lambda>_. 0) duplex_read) c q' 8 = Some (Ret (Ready (Inr []), c', q''))"
    using duplex_read_first by meson
  then show ?thesis
    by (simp add: establish_connect_tunnel_def copy_poll_def copy_new_def read_proxy_def ps_poll_read_def count_flow_def write_client_def duplex_write_def)
qed

theorem tunnel_downstream_witness:
  "\<exists>m context3 r' v' stream1 context4 r v ps context1 out.
     handle_client (duplex_env [9]) sample_tcp_context sample_flow plain_server ([1, 1, 2, 3, 4, 0, 80], []) () =
       Some (Ret (Inr (Some (plain_open m [1, 1, 2, 3, 4, 0, 80] 7, sample_target, ([9], []))), context3, ()))
   \<and> server_tunnel (duplex_env [9]) 8 [False, False, False, False] (plain_open m [1, 1, 2, 3, 4, 0, 80] 7, ([9], []), context3) =
       Some (Ret (Some (False, Inr 1), r', v', stream1, ([], []), context4))
   \<and> establish_connect_tunnel (duplex_env [9]) duplex_read duplex_write 8 [False, False, False, False]
       (([], []), Proxied (duplex_stream (snd (cn_stream (mon_stream (cs_stream stream1)))) [1, 1, 2, 3, 4, 0, 80]), sample_context) =
       Some (Ret (Some (False, Inr 1), r, v, ([], out), ps, context1))
   \<and> out = [9]"
proof -
  let ?E = "duplex_env [9]" and ?c = "duplex_stream [9] [1, 1, 2, 3, 4, 0, 80]"
  obtain m context3 where h: "handle_client ?E sample_tcp_context sample_flow plain_server ([1, 1, 2, 3, 4, 0, 80] @ [], []) () =
       Some (Ret (Inr (Some (plain_open m ([1, 1, 2, 3, 4, 0, 80] @ []) 7, sample_target, ([9], []))), context3, ()))"
      "mon_stream m = duplex_socket [] [] False"
    by (rule duplex_served [of "[]"]) simp
  obtain r' v' stream1 context4 where s: "server_tunnel ?E 8 [False, False, False, False] (plain_open m ([1, 1, 2, 3, 4, 0, 80] @ []) 7, ([9], []), context3)
       = Some (Ret (Some (False, Inr 1), r', v', stream1, ([], []), context4))"
      "snd (cn_stream (mon_stream (cs_stream stream1))) = [9]"
    using duplex_server_down [OF h(2)] by blast
  obtain r v ps context1 where l: "establish_connect_tunnel ?E duplex_read duplex_write 8 [False, False, False, False] (([], []), Proxied ?c, sample_context)
       = Some (Ret (Some (False, Inr 1), r, v, ([], [9]), ps, context1))"
    using duplex_client_down by blast
  have sent: "snd (cn_stream (mon_stream (cs_stream stream1))) = fst (cn_stream (cs_stream ?c)) @ []"
    using s(2) by (simp add: duplex_stream_def duplex_socket_def)
  from tunnel_downstream [OF duplex_opened duplex_sockets(1) refl refl refl duplex_sockets(2) _ _ h(1) s(1) _ _ sent,
      of 8 "([], [])" "[False, False, False, False]" sample_context]
  have "\<exists>out. snd ([], [9]) = snd ([], []) @ out \<and> prefix out (fst ([9 :: 8 word], [])) \<and> out = fst ([9], [])"
    using l by auto
  with h(1) s l show ?thesis by auto
qed

end
