(* ===== verification/Spec2Isabelle.thy ===== *)
theory Spec2Isabelle
  imports Programs Tunnel_Session
begin

text \<open>
  A verification library for shadowsocks-rust: a local server takes connections and datagrams of its clients, encrypts
  them under a shared password and passes them to a remote server, which decrypts them and relays them to their targets.

  \<^bold>\<open>The program.\<close> Configurations and arguments (\<^verbatim>\<open>src/config.rs\<close>, \<^verbatim>\<open>src/bin\<close>) decide which tasks a
  process starts (\<^verbatim>\<open>src/relay/local.rs\<close>, \<^verbatim>\<open>src/relay/server.rs\<close>). A local server speaks SOCKS5, HTTP or DNS
  with its clients, or takes redirected traffic; an access control list (\<^verbatim>\<open>src/acl/mod.rs\<close>) decides whether a
  target is reached directly or through a server, and a balancer chooses the server. The connection to a server is an
  encrypted stream (\<^verbatim>\<open>src/relay/tcprelay\<close>), a datagram is one encrypted packet
  (\<^verbatim>\<open>src/relay/udprelay\<close>); both rest on the ciphers of \<^verbatim>\<open>src/crypto\<close>. A remote server rejects repeated initial
  vectors and blocked targets. A manager (\<^verbatim>\<open>src/relay/manager.rs\<close>) starts and stops remote servers, plugins
  (\<^verbatim>\<open>src/plugin\<close>) stand between the two sides.

  \<^bold>\<open>Foundations.\<close>

  \<^item> \<open>SS_Prelude\<close>: bytes and machine words, the outcome \<open>rust\<close> of code that may panic, \<open>io_error\<close>, the
    polls of asynchronous readers and writers, and the locale \<open>byte_reader\<close> of anything that can be read exactly.

  \<^item> \<open>Net_Addr\<close>, \<open>Ipv6_Text\<close>: the textual forms of addresses in the standard library and their round trips.

  \<^bold>\<open>Formats and configuration.\<close>

  \<^item> \<open>Socks5\<close>: the messages of \<^verbatim>\<open>src/relay/socks5.rs\<close>. Encoders and decoders are inverse, for every reader that
    meets \<open>byte_reader\<close>; an address takes at most 259 bytes.

  \<^item> \<open>Config_Types\<close>, \<open>Server_Config\<close>, \<open>Config_File\<close>: \<^verbatim>\<open>src/config.rs\<close>. \<^verbatim>\<open>ServerConfig\<close> and
    its URL forms, \<^verbatim>\<open>Config::load_from_str\<close>, \<^verbatim>\<open>check_integrity\<close> and the display of a configuration. Loading
    decides exactly the stated conditions, a written configuration loads again, and a server survives its URL.

  \<^item> \<open>Acl\<close>: \<^verbatim>\<open>AccessControl\<close> of \<^verbatim>\<open>src/acl/mod.rs\<close>, the parser and all decisions, related to the
    meaning of the lines of the file.

  \<^bold>\<open>Ciphers.\<close>

  \<^item> \<open>Cipher_Type\<close>: \<^verbatim>\<open>CipherType\<close>, digests and \<^verbatim>\<open>bytes_to_key\<close> of \<^verbatim>\<open>src/crypto\<close>; names and sizes, and
    the key derivation equals its iterated definition.

  \<^item> \<open>Stream_Cipher\<close>: \<^verbatim>\<open>src/crypto/stream.rs\<close> and its back ends. The locale \<open>stream_pair\<close> is the contract
    of a cipher and its inverse over a sequence of chunks, interpreted on the dispatching \<open>stream_step\<close>.

  \<^item> \<open>Aead_Cipher\<close>: \<^verbatim>\<open>src/crypto/aead.rs\<close> and its back ends. The locale \<open>aead_pair\<close> is the contract of
    sealing and opening with counted nonces, interpreted on \<open>aead_seal\<close> and \<open>aead_open\<close>; nonces never repeat
    below their bound, and only what was sealed is accepted.

  \<^bold>\<open>State shared by tasks.\<close>

  \<^item> \<open>Nonce_Filter\<close>: \<^verbatim>\<open>PingPongBloom\<close> of \<^verbatim>\<open>src/context.rs\<close>, under the locale \<open>nonce_filter\<close>.

  \<^item> \<open>Ss_Context\<close>: \<^verbatim>\<open>Context\<close> and the loops over resolved addresses of \<^verbatim>\<open>src/relay/dns_resolver\<close>.

  \<^item> \<open>Flow_Stat\<close>: the counters of \<^verbatim>\<open>src/relay/flow.rs\<close>, as 64 bit words that wrap around.

  \<^bold>\<open>TCP.\<close>

  \<^item> \<open>Tcp_Aead\<close>, \<open>Tcp_Aead_Session\<close>, \<open>Tcp_Stream\<close>: the poll state machines of \<^verbatim>\<open>tcprelay/aead.rs\<close> and
    \<^verbatim>\<open>tcprelay/stream.rs\<close> over a socket that may be short, pending or failing. Every poll returns, what was written
    is read, and whatever an attacker sends, what is read was written.

  \<^item> \<open>Crypto_Stream\<close>, \<open>Crypto_Session\<close>: \<^verbatim>\<open>CryptoStream\<close> of \<^verbatim>\<open>tcprelay/crypto_io.rs\<close>, its vectors and its
    handshake with the replay check, and delivery between two ends for every method.

  \<^item> \<open>Tcp_Connection\<close>: the timeouts of \<^verbatim>\<open>connection.rs\<close>, the traffic monitor of \<^verbatim>\<open>monitor.rs\<close> and
    \<^verbatim>\<open>try_timeout\<close>.

  \<^item> \<open>Tcp_Relay\<close>: \<^verbatim>\<open>ProxyStream\<close> of \<^verbatim>\<open>proxy_stream.rs\<close> and \<^verbatim>\<open>handle_client\<close> of \<^verbatim>\<open>server.rs\<close>
    up to the open tunnel: the request that a client makes is the one the server serves, under its rules.

  \<^item> \<open>Socks5_Local\<close>, \<open>Http_Local\<close>: \<^verbatim>\<open>socks5_local.rs\<close>, \<^verbatim>\<open>tunnel_local.rs\<close>, \<^verbatim>\<open>client.rs\<close> and
    \<^verbatim>\<open>http_local.rs\<close> of \<^verbatim>\<open>src/relay/tcprelay\<close>. The two sides of SOCKS5 agree, HTTP requests go where the access
    control list says and keep all but their connection headers.

  \<^item> \<open>Proxy_Io\<close>: reading and writing of \<^verbatim>\<open>ProxyStream\<close> with its counters, and the requests of the balancer's
    probes and of the reports of traffic, which are made over it.

  \<^item> \<open>Stream_Frames\<close>, \<open>Tunnel\<close>, \<open>Tunnel_Session\<close>: the tunnels of all handlers. The locale \<open>copying\<close> is one
    direction of a tunnel, the locale \<open>tunnel\<close> extends it to the two copies under \<^verbatim>\<open>select\<close>; they are interpreted on
    the streams of the local server (\<open>local_relay\<close>) and of the remote server (\<open>server_relay\<close>). The two
    tunnels together with the encrypted connection give delivery between a client and its target, in both directions and
    for every order of turns.

  \<^bold>\<open>UDP.\<close>

  \<^item> \<open>Udp_Crypto\<close>: \<^verbatim>\<open>udprelay/crypto_io.rs\<close>, one packet.

  \<^item> \<open>Udp_Relay\<close>, \<open>Udp_Server\<close>, \<open>Udp_Local\<close>: \<^verbatim>\<open>association.rs\<close>, \<^verbatim>\<open>client.rs\<close>, \<^verbatim>\<open>server.rs\<close>
    and the three local servers. The listeners are state machines whose histories (\<open>listen_run\<close>,
    \<open>redir_run\<close>) interleave all tasks; by rule induction on them, clients stay isolated and targets are those the
    rules allow.

  \<^bold>\<open>Control.\<close>

  \<^item> \<open>Load_Balancer\<close>: \<^verbatim>\<open>src/relay/loadbalancing/server.rs\<close>; the statistic is that of the recent probes, and the
    server that a finished round of \<open>balancer_run\<close> picks is the first of least score.

  \<^item> \<open>Server_Manager\<close>: \<^verbatim>\<open>src/relay/manager.rs\<close>; every history of commands refines a registry of ports.

  \<^item> \<open>Dns_Relay\<close>: \<^verbatim>\<open>src/relay/dnsrelay/mod.rs\<close>; the answer follows the access control list.

  \<^item> \<open>Plugins\<close>, \<open>Startup\<close>, \<open>Programs\<close>: \<^verbatim>\<open>src/plugin\<close>, \<^verbatim>\<open>src/relay/local.rs\<close>,
    \<^verbatim>\<open>src/relay/server.rs\<close> with the listeners, and \<^verbatim>\<open>src/bin\<close>. A plugin is put between the right two
    addresses, the tasks that start are those of the configuration, and each program runs a configuration of its own
    kind or ends with a stated error.

  \<^bold>\<open>Libraries as parameters.\<close> What other crates or the operating system compute is an argument of the
  definitions: the primitives of the ciphers (\<open>crypto_lib\<close>), the bloom filter, regular expressions and networks, URLs,
  Base64, JSON, HTTP messages and headers, the caches, arithmetic on \<^verbatim>\<open>f64\<close>, the resolver, sockets, processes and
  randomness. Lemmas name what they need of them: \<open>aead_lib_ok\<close>, \<open>digest_lib_ok\<close>, \<open>udp_lib_ok\<close> and
  \<open>method_lib_ok\<close> for ciphers, \<open>bloom_ok\<close>, \<open>acl_lib_ok\<close>, \<open>url_lib_ok\<close>, \<open>uri_ok\<close>,
  \<open>hdr_ok\<close>, \<open>lru_ok\<close>, and \<open>source_ok\<close>, \<open>sink_ok\<close> and \<open>socket_ok\<close> for sockets, which say only that
  bytes are neither invented nor reordered. Each has a concrete instance in the examples beside the theorems. One turn of
  a copy is what tokio documents of its \<^verbatim>\<open>copy\<close>.

  \<^bold>\<open>Loops and bounds.\<close> Loops over data are structural or have a termination proof. Loops whose end depends on
  a library are partial functions into \<open>option\<close>, where \<open>None\<close> is a loop that does not return; that they
  return is proved where it is claimed. Tasks that serve for ever are one function for a round and a history of rounds. There
  is no fuel. Delivery over
  an encrypted stream of any method is stated for at most \<open>2 ^ 38\<close> bytes of one direction of a connection, the range of the 32 bit
  block counter of ChaCha20 in its IETF variant with blocks of 64 bytes; the lemmas on AEAD framing alone have no such bound.

  \<^bold>\<open>Not modelled.\<close> Creating, binding and connecting sockets and finding the original destination of redirected
  traffic (\<^verbatim>\<open>src/relay/sys\<close>, the \<^verbatim>\<open>sys\<close> modules of the relays) are unsafe calls of the operating system; callers
  take their outcomes. Creating a resolver configures a library. The accept loop of the HTTP server and the pool of its
  client belong to hyper. Flushing and shutting down a stream are passed on to the socket and have no state here. Logging,
  waiting for signals, the parser of arguments, the runtime, and the variants for systems other than Unix are left out, as
  are the integration tests.
\<close>

end
